(* ===== verification/Core_Prelude.thy ===== *)
theory Core_Prelude
  imports Main "HOL-Library.Word"
begin

text \<open>
  Vocabulary shared by every component: byte strings and the slice operations of Rust's
  standard library that the sources use, fixed-width integers and their big-endian forms,
  checked \<open>usize\<close> arithmetic, and the effect of a caller-supplied callback.

  A callback of type \<open>impl FnMut(..) -> Result<T, E>\<close> may keep state of its own
  (a hardware session, a call counter). It is modelled as an operation
  \<open>'s \<Rightarrow> ('e + 'a) \<times> 's\<close> over an arbitrary state type, and the code that calls it is
  written with \<open>bindE\<close>, which stops at the first error as the question mark operator does.
  A call that is not made leaves the state alone, so statements about the final state are
  statements about which calls were made.
\<close>

unbundle bit_operations_syntax

named_theorems returns_intro \<open>introduction rules for operations that return a known value\<close>
named_theorems len_simps \<open>lengths of the byte strings the components build\<close>


section \<open>Bytes and slices\<close>

type_synonym byte = "8 word"
type_synonym bytes = "byte list"

text \<open>\<open>&xs[lo..hi]\<close>, and \<open>xs[lo..lo + ys.len()].copy_from_slice(ys)\<close>.\<close>

definition slice_range :: "nat \<Rightarrow> nat \<Rightarrow> 'a list \<Rightarrow> 'a list" where
  "slice_range lo hi xs = take (hi - lo) (drop lo xs)"

definition copy_at :: "nat \<Rightarrow> 'a list \<Rightarrow> 'a list \<Rightarrow> 'a list" where
  "copy_at lo ys xs = take lo xs @ ys @ drop (lo + length ys) xs"

text \<open>\<open>Vec::resize(n, v)\<close>: truncate or extend with copies of \<open>v\<close>.\<close>

definition resize :: "nat \<Rightarrow> 'a \<Rightarrow> 'a list \<Rightarrow> 'a list" where
  "resize n v xs = take n xs @ replicate (n - length xs) v"

text \<open>\<open>a.iter().zip(b).map(|(x, y)| x ^ y).collect()\<close>: as long as the shorter input.\<close>

definition xor_bytes :: "bytes \<Rightarrow> bytes \<Rightarrow> bytes" where
  "xor_bytes xs ys = map2 (XOR) xs ys"

text \<open>\<open>for (x, y) in xs.iter_mut().zip(ys) { *x ^= y }\<close>: keeps what \<open>ys\<close> does not reach.\<close>

definition xor_into :: "bytes \<Rightarrow> bytes \<Rightarrow> bytes" where
  "xor_into xs ys = xor_bytes xs ys @ drop (length ys) xs"

text \<open>\<open>slice::chunks(n)\<close>: the last chunk may be short. \<open>chunks_exact\<close> drops a short tail.\<close>

fun chunks :: "nat \<Rightarrow> 'a list \<Rightarrow> 'a list list" where
  "chunks n xs = (if n = 0 \<or> xs = [] then [] else take n xs # chunks n (drop n xs))"

fun chunks_exact :: "nat \<Rightarrow> 'a list \<Rightarrow> 'a list list" where
  "chunks_exact n xs =
     (if n = 0 \<or> length xs < n then [] else take n xs # chunks_exact n (drop n xs))"

declare chunks.simps [simp del] chunks_exact.simps [simp del]

text \<open>\<open>Iterator::find_map\<close>.\<close>

fun find_map :: "('a \<Rightarrow> 'b option) \<Rightarrow> 'a list \<Rightarrow> 'b option" where
  "find_map f [] = None"
| "find_map f (x # xs) = (case f x of Some y \<Rightarrow> Some y | None \<Rightarrow> find_map f xs)"

definition div_ceil :: "nat \<Rightarrow> nat \<Rightarrow> nat" where
  "div_ceil a b = (if a mod b = 0 then a div b else a div b + 1)"

definition next_multiple_of :: "nat \<Rightarrow> nat \<Rightarrow> nat" where
  "next_multiple_of a b = (if a mod b = 0 then a else a + (b - a mod b))"


section \<open>Fixed-width integers\<close>

type_synonym u16 = "16 word"
type_synonym u32 = "32 word"
type_synonym u64 = "64 word"
type_synonym u128 = "128 word"

text \<open>\<open>usize\<close> is 64 bits wide; lengths are naturals, and the checked operations say where
  the machine value would not fit.\<close>

definition usize_bound :: nat where
  "usize_bound = 2 ^ 64"

definition checked_add :: "nat \<Rightarrow> nat \<Rightarrow> nat option" where
  "checked_add a b = (if a + b < usize_bound then Some (a + b) else None)"

definition checked_mul :: "nat \<Rightarrow> nat \<Rightarrow> nat option" where
  "checked_mul a b = (if a * b < usize_bound then Some (a * b) else None)"

definition checked_sub :: "nat \<Rightarrow> nat \<Rightarrow> nat option" where
  "checked_sub a b = (if b \<le> a then Some (a - b) else None)"

text \<open>A panic, kept apart from the errors the code returns; unguarded \<open>usize\<close> arithmetic.\<close>

datatype 'e fault = Err 'e | Panic

definition usize_sub :: "nat \<Rightarrow> nat \<Rightarrow> 'e fault + nat" where
  "usize_sub a b = (if b \<le> a then Inr (a - b) else Inl Panic)"

definition usize_add :: "nat \<Rightarrow> nat \<Rightarrow> 'e fault + nat" where
  "usize_add a b = (if a + b < usize_bound then Inr (a + b) else Inl Panic)"

text \<open>The low \<open>n\<close> bytes of a number, most significant first, and back.\<close>

fun be_bytes :: "nat \<Rightarrow> nat \<Rightarrow> bytes" where
  "be_bytes 0 v = []"
| "be_bytes (Suc n) v = be_bytes n (v div 256) @ [word_of_nat v]"

definition be_nat :: "bytes \<Rightarrow> nat" where
  "be_nat bs = foldl (\<lambda>acc b. acc * 256 + unat b) 0 bs"

definition u16_be :: "u16 \<Rightarrow> bytes" where "u16_be w = be_bytes 2 (unat w)"
definition u32_be :: "u32 \<Rightarrow> bytes" where "u32_be w = be_bytes 4 (unat w)"
definition u64_be :: "u64 \<Rightarrow> bytes" where "u64_be w = be_bytes 8 (unat w)"
definition u128_be :: "u128 \<Rightarrow> bytes" where "u128_be w = be_bytes 16 (unat w)"

definition u32_from_be :: "bytes \<Rightarrow> u32" where "u32_from_be bs = word_of_nat (be_nat bs)"
definition u128_from_be :: "bytes \<Rightarrow> u128" where "u128_from_be bs = word_of_nat (be_nat bs)"


section \<open>Operations with a callback state and errors\<close>

type_synonym ('s, 'e, 'a) op = "'s \<Rightarrow> ('e + 'a) \<times> 's"

definition okE :: "'a \<Rightarrow> ('s, 'e, 'a) op" where
  "okE x = (\<lambda>s. (Inr x, s))"

definition errE :: "'e \<Rightarrow> ('s, 'e, 'a) op" where
  "errE e = (\<lambda>s. (Inl e, s))"

definition bindE :: "('s, 'e, 'a) op \<Rightarrow> ('a \<Rightarrow> ('s, 'e, 'b) op) \<Rightarrow> ('s, 'e, 'b) op" where
  "bindE m f = (\<lambda>s. case m s of (Inl e, s') \<Rightarrow> (Inl e, s') | (Inr x, s') \<Rightarrow> f x s')"

text \<open>\<open>Result::map_err\<close>, and a value of \<open>Result\<close> used inside an operation.\<close>

definition map_errE :: "('e \<Rightarrow> 'f) \<Rightarrow> ('s, 'e, 'a) op \<Rightarrow> ('s, 'f, 'a) op" where
  "map_errE g m = (\<lambda>s. case m s of (Inl e, s') \<Rightarrow> (Inl (g e), s') | (Inr x, s') \<Rightarrow> (Inr x, s'))"

definition liftE :: "'e + 'a \<Rightarrow> ('s, 'e, 'a) op" where
  "liftE r = (\<lambda>s. (r, s))"

text \<open>\<open>option.ok_or(e)?\<close>, and \<open>if c { return Err(e) }\<close>.\<close>

definition ok_orE :: "'e \<Rightarrow> 'a option \<Rightarrow> ('s, 'e, 'a) op" where
  "ok_orE e v = (case v of None \<Rightarrow> errE e | Some x \<Rightarrow> okE x)"

definition rejectE :: "bool \<Rightarrow> 'e \<Rightarrow> ('s, 'e, unit) op" where
  "rejectE c e = (if c then errE e else okE ())"

text \<open>\<open>for x in xs { .. }\<close> over a loop state, stopping at the first error.\<close>

fun for_each :: "'x list \<Rightarrow> ('x \<Rightarrow> 'st \<Rightarrow> ('s, 'e, 'st) op) \<Rightarrow> 'st \<Rightarrow> ('s, 'e, 'st) op" where
  "for_each [] body st = okE st"
| "for_each (x # xs) body st = bindE (body x st) (\<lambda>st'. for_each xs body st')"

text \<open>The same three forms for code without a callback.\<close>

definition bindR :: "'e + 'a \<Rightarrow> ('a \<Rightarrow> 'e + 'b) \<Rightarrow> 'e + 'b" where
  "bindR r f = (case r of Inl e \<Rightarrow> Inl e | Inr x \<Rightarrow> f x)"

definition map_errR :: "('e \<Rightarrow> 'f) \<Rightarrow> 'e + 'a \<Rightarrow> 'f + 'a" where
  "map_errR g r = (case r of Inl e \<Rightarrow> Inl (g e) | Inr x \<Rightarrow> Inr x)"

definition ok_orR :: "'e \<Rightarrow> 'a option \<Rightarrow> 'e + 'a" where
  "ok_orR e v = (case v of None \<Rightarrow> Inl e | Some x \<Rightarrow> Inr x)"

definition rejectR :: "bool \<Rightarrow> 'e \<Rightarrow> 'e + unit" where
  "rejectR c e = (if c then Inl e else Inr ())"

text \<open>
  What an operation does whatever the callback state is: return a value, fail with an
  error, or leave the state alone (make no call).
\<close>

definition returns :: "('s, 'e, 'a) op \<Rightarrow> 'a \<Rightarrow> bool" where
  "returns m x \<longleftrightarrow> (\<forall>s. fst (m s) = Inr x)"

definition fails :: "('s, 'e, 'a) op \<Rightarrow> 'e \<Rightarrow> bool" where
  "fails m e \<longleftrightarrow> (\<forall>s. fst (m s) = Inl e)"

definition silent :: "('s, 'e, 'a) op \<Rightarrow> bool" where
  "silent m \<longleftrightarrow> (\<forall>s. snd (m s) = s)"

text \<open>Whenever it returns, the value satisfies \<open>Q\<close>.\<close>

definition ensures :: "('s, 'e, 'a) op \<Rightarrow> ('a \<Rightarrow> bool) \<Rightarrow> bool" where
  "ensures m Q \<longleftrightarrow> (\<forall>s x. fst (m s) = Inr x \<longrightarrow> Q x)"

text \<open>Whenever it fails, the error satisfies \<open>P\<close>.\<close>

definition raises_only :: "('s, 'e, 'a) op \<Rightarrow> ('e \<Rightarrow> bool) \<Rightarrow> bool" where
  "raises_only m P \<longleftrightarrow> (\<forall>s e. fst (m s) = Inl e \<longrightarrow> P e)"


text \<open>Both at once: every error satisfies \<open>P\<close> and every result satisfies \<open>Q\<close>.\<close>

definition settles :: "('s, 'e, 'a) op \<Rightarrow> ('e \<Rightarrow> bool) \<Rightarrow> ('a \<Rightarrow> bool) \<Rightarrow> bool" where
  "settles m P Q \<longleftrightarrow> (\<forall>s. case fst (m s) of Inl e \<Rightarrow> P e | Inr x \<Rightarrow> Q x)"


section \<open>Lemmas on slices, chunks and exclusive or\<close>

lemma length_slice [simp, len_simps]: "length (slice_range lo hi xs) = min (hi - lo) (length xs - lo)"
  by (simp add: slice_range_def min.commute)

lemma length_splice [len_simps]: "lo + length ys \<le> length xs \<Longrightarrow> length (copy_at lo ys xs) = length xs"
  by (simp add: copy_at_def)

lemma slice_splice_same:
  "lo + length ys \<le> length xs \<Longrightarrow> hi = lo + length ys \<Longrightarrow> slice_range lo hi (copy_at lo ys xs) = ys"
  by (simp add: slice_range_def copy_at_def)

lemma splice_splice_same:
  assumes "lo + length ys \<le> length xs" "length zs = length ys"
  shows "copy_at lo zs (copy_at lo ys xs) = copy_at lo zs xs"
proof -
  have "length ys = 0" if "length xs \<le> lo" using assms(1) that by linarith
  then show ?thesis using assms by (auto simp: copy_at_def min_def)
qed

lemma splice_slice_id: "lo \<le> hi \<Longrightarrow> hi \<le> length xs \<Longrightarrow> copy_at lo (slice_range lo hi xs) xs = xs"
proof -
  assume a: "lo \<le> hi" "hi \<le> length xs"
  have "take (hi - lo) (drop lo xs) @ drop hi xs = drop lo xs"
    using a by (metis append_take_drop_id drop_drop le_add_diff_inverse2)
  moreover have "lo + min (length xs - lo) (hi - lo) = hi" using a by simp
  ultimately show ?thesis by (simp add: copy_at_def slice_range_def)
qed

lemma length_resize [simp, len_simps]: "length (resize n v xs) = n"
  by (simp add: resize_def)

lemma resize_extend: "length xs \<le> n \<Longrightarrow> resize n v xs = xs @ replicate (n - length xs) v"
  by (simp add: resize_def)

lemma length_xor_bytes [simp, len_simps]: "length (xor_bytes xs ys) = min (length xs) (length ys)"
  by (simp add: xor_bytes_def)

lemma xor_bytes_Nil [simp]: "xor_bytes [] ys = []" "xor_bytes xs [] = []"
  by (simp_all add: xor_bytes_def)

lemma xor_bytes_Cons [simp]: "xor_bytes (x # xs) (y # ys) = (x XOR y) # xor_bytes xs ys"
  by (simp add: xor_bytes_def)

lemma xor_bytes_involution: "length xs \<le> length ys \<Longrightarrow> xor_bytes (xor_bytes xs ys) ys = xs"
proof (induction xs arbitrary: ys)
  case Nil
  then show ?case by simp
next
  case (Cons x xs)
  then obtain y zs where "ys = y # zs" by (cases ys) auto
  with Cons show ?case by (simp add: xor.assoc)
qed

lemma xor_bytes_append:
  "length xs = length us \<Longrightarrow> xor_bytes (xs @ ys) (us @ vs) = xor_bytes xs us @ xor_bytes ys vs"
  by (simp add: xor_bytes_def)

lemma xor_bytes_commute: "xor_bytes xs ys = xor_bytes ys xs"
proof (induction xs arbitrary: ys)
  case (Cons x xs)
  then show ?case by (cases ys) (simp_all add: xor.commute)
qed simp

lemma xor_bytes_assoc: "xor_bytes (xor_bytes xs ys) zs = xor_bytes xs (xor_bytes ys zs)"
proof (induction xs arbitrary: ys zs)
  case (Cons x xs)
  then show ?case by (cases ys; cases zs) (simp_all add: xor.assoc)
qed simp

lemma xor_bytes_take: "take n (xor_bytes xs ys) = xor_bytes (take n xs) (take n ys)"
  by (simp add: xor_bytes_def take_map take_zip)

lemma xor_bytes_drop: "drop n (xor_bytes xs ys) = xor_bytes (drop n xs) (drop n ys)"
  by (simp add: xor_bytes_def drop_map drop_zip)

lemma xor_bytes_truncate: "xor_bytes xs (take (length xs) ys) = xor_bytes xs ys"
  by (metis length_xor_bytes min.cobounded1 take_all xor_bytes_take order_refl)

lemma xor_bytes_zeros [simp]: "length xs \<le> n \<Longrightarrow> xor_bytes xs (replicate n 0) = xs"
proof (induction xs arbitrary: n)
  case (Cons x xs)
  then show ?case by (cases n) simp_all
qed simp

lemma length_xor_into [simp, len_simps]: "length (xor_into xs ys) = length xs"
  by (simp add: xor_into_def)

lemma xor_into_covered: "length xs \<le> length ys \<Longrightarrow> xor_into xs ys = xor_bytes xs ys"
  by (simp add: xor_into_def)

lemma chunks_Nil [simp]: "chunks n [] = []" "chunks 0 xs = []"
  by (subst chunks.simps, simp)+

lemma chunks_step: "0 < n \<Longrightarrow> xs \<noteq> [] \<Longrightarrow> chunks n xs = take n xs # chunks n (drop n xs)"
  by (subst chunks.simps) simp

lemma chunks_exact_Nil [simp]: "chunks_exact n [] = []"
  by (subst chunks_exact.simps) auto

lemma chunks_exact_step:
  "0 < n \<Longrightarrow> n \<le> length xs \<Longrightarrow> chunks_exact n xs = take n xs # chunks_exact n (drop n xs)"
  by (subst chunks_exact.simps) simp

lemma chunks_exact_short: "length xs < n \<Longrightarrow> chunks_exact n xs = []"
  by (subst chunks_exact.simps) auto

lemma chunks_exact_append:
  "0 < n \<Longrightarrow> length xs = n \<Longrightarrow> chunks_exact n (xs @ ys) = xs # chunks_exact n ys"
  by (simp add: chunks_exact_step)

text \<open>Induction along a byte string of whole blocks.\<close>

lemma blocks_induct [consumes 2, case_names Nil Block]:
  assumes "0 < n" "n dvd length xs"
    and "P []"
    and step: "\<And>b rest. 0 < n \<Longrightarrow> length b = n \<Longrightarrow> n dvd length rest \<Longrightarrow> P rest \<Longrightarrow> P (b @ rest)"
  shows "P xs"
  using assms(2)
proof (induction "length xs" arbitrary: xs rule: less_induct)
  case less
  show ?case
  proof (cases "xs = []")
    case False
    with less.prems \<open>0 < n\<close> have n: "n \<le> length xs" by (simp add: dvd_imp_le)
    then have d: "n dvd length (drop n xs)" using less.prems by (simp add: dvd_diff_nat)
    have "length (drop n xs) < length xs" using n \<open>0 < n\<close> by simp
    then have "P (drop n xs)" using d by (rule less.hyps)
    then have "P (take n xs @ drop n xs)" using n d \<open>0 < n\<close> by (intro step) simp_all
    then show ?thesis by simp
  qed (simp add: assms(3))
qed

lemma concat_chunks_exact: "0 < n \<Longrightarrow> n dvd length xs \<Longrightarrow> concat (chunks_exact n xs) = xs"
  by (induction xs rule: blocks_induct) (auto simp: chunks_exact_append)

lemma length_chunks_exact: "0 < n \<Longrightarrow> n dvd length xs \<Longrightarrow> length (chunks_exact n xs) = length xs div n"
  by (induction xs rule: blocks_induct) (auto simp: chunks_exact_append)

lemma chunks_exact_lengths: "b \<in> set (chunks_exact n xs) \<Longrightarrow> length b = n"
proof (induction n xs rule: chunks_exact.induct)
  case (1 n xs)
  then show ?case
    by (subst (asm) (2) chunks_exact.simps) (auto split: if_splits)
qed

lemma chunks_exact_concat:
  "0 < n \<Longrightarrow> (\<And>b. b \<in> set bs \<Longrightarrow> length b = n) \<Longrightarrow> chunks_exact n (concat bs) = bs"
  by (induction bs) (simp_all add: chunks_exact_append)

text \<open>Mixing a key stream in chunk by chunk is mixing it in at once.\<close>

lemma xor_chunks:
  "0 < n \<Longrightarrow> length xs \<le> length ks \<Longrightarrow>
   concat (map2 xor_bytes (chunks n xs) (chunks n ks)) = xor_bytes xs ks"
proof (induction n xs arbitrary: ks rule: chunks.induct)
  case (1 n xs)
  show ?case
  proof (cases "xs = []")
    case False
    with 1 have ks: "ks \<noteq> []" by auto
    have "concat (map2 xor_bytes (chunks n (drop n xs)) (chunks n (drop n ks)))
        = xor_bytes (drop n xs) (drop n ks)"
      using 1 False by auto
    then have "concat (map2 xor_bytes (chunks n xs) (chunks n ks))
        = xor_bytes (take n xs) (take n ks) @ xor_bytes (drop n xs) (drop n ks)"
      using 1 False ks by (simp add: chunks_step)
    also have "\<dots> = xor_bytes xs ks"
      by (metis append_take_drop_id xor_bytes_take xor_bytes_drop)
    finally show ?thesis .
  qed simp
qed

lemma div_ceil_bounds:
  assumes "0 < b"
  shows "a \<le> div_ceil a b * b" "div_ceil a b * b < a + b"
proof -
  define q r where "q = a div b * b" and "r = a mod b"
  have a: "a = q + r" and r: "r < b" using assms by (simp_all add: q_def r_def)
  have d: "div_ceil a b * b = (if r = 0 then q else q + b)"
    by (simp add: div_ceil_def q_def r_def)
  show "a \<le> div_ceil a b * b" "div_ceil a b * b < a + b"
    unfolding d using a r by auto
qed

lemma div_ceil_mono:
  assumes "0 < b" "a \<le> a'"
  shows "div_ceil a b \<le> div_ceil a' b"
proof -
  have "div_ceil a b * b < (div_ceil a' b + 1) * b"
    using div_ceil_bounds(2) [OF assms(1), of a] div_ceil_bounds(1) [OF assms(1), of a'] assms(2) by simp
  then have "div_ceil a b < div_ceil a' b + 1" by (simp only: mult_less_cancel2)
  then show ?thesis by simp
qed

lemma div_ceil_le_iff: "0 < b \<Longrightarrow> div_ceil a b \<le> k \<longleftrightarrow> a \<le> k * b"
proof -
  assume b: "0 < b"
  have "a \<le> k * b" if "div_ceil a b \<le> k"
    using div_ceil_bounds(1) [OF b, of a] mult_le_mono1 [OF that, of b] by linarith
  moreover have "div_ceil a b \<le> k" if "a \<le> k * b"
    using div_ceil_mono [OF b that] b by (simp add: div_ceil_def split: if_splits)
  ultimately show ?thesis by blast
qed

lemma next_multiple_of_props:
  assumes "0 < b"
  shows "b dvd next_multiple_of a b" "a \<le> next_multiple_of a b" "next_multiple_of a b < a + b"
proof -
  have "b dvd a + (b - a mod b)" if "a mod b \<noteq> 0"
  proof -
    have "a + (b - a mod b) = a div b * b + b"
      using assms by (metis add.assoc div_mult_mod_eq le_add_diff_inverse mod_less_divisor less_imp_le)
    then show ?thesis by simp
  qed
  then show "b dvd next_multiple_of a b" by (auto simp: next_multiple_of_def)
  have "a mod b < b" using assms by simp
  then have "a mod b \<noteq> 0 \<Longrightarrow> a \<le> a + (b - a mod b) \<and> a + (b - a mod b) < a + b" by linarith
  then have "a \<le> next_multiple_of a b \<and> next_multiple_of a b < a + b"
    using assms by (auto simp: next_multiple_of_def)
  then show "a \<le> next_multiple_of a b" "next_multiple_of a b < a + b" by simp_all
qed

lemma next_multiple_of_add: "b dvd a \<Longrightarrow> next_multiple_of (a + c) b = a + next_multiple_of c b"
  by (auto simp: next_multiple_of_def mod_add_left_eq [symmetric])


section \<open>Lemmas on big-endian integers\<close>

lemma unat_u_bounds:
  "unat (b :: byte) < 256" "unat (w :: u32) < 256 ^ 4" "unat (x :: u64) < 256 ^ 8"
  "unat (y :: u128) < 256 ^ 16" "unat (z :: u16) < 256 ^ 2"
  using unsigned_less [of b, where 'a = nat] unsigned_less [of w, where 'a = nat]
    unsigned_less [of x, where 'a = nat] unsigned_less [of y, where 'a = nat]
    unsigned_less [of z, where 'a = nat] by simp_all

lemma word_of_nat_byte_add: "word_of_nat (a * 256 + unat b) = (b :: byte)"
proof -
  have "(a * 256 + unat b) mod 256 = unat b" by (simp add: unat_u_bounds)
  then have "take_bit 8 (a * 256 + unat b) = take_bit 8 (unat b)"
    by (simp only: take_bit_eq_mod) simp
  then have "word_of_nat (a * 256 + unat b) = (word_of_nat (unat b) :: byte)"
    by (simp only: word_of_nat_eq_iff) simp
  then show ?thesis by simp
qed

lemma length_be_bytes [simp, len_simps]: "length (be_bytes n v) = n"
  by (induction n arbitrary: v) simp_all

lemma be_nat_Nil [simp]: "be_nat [] = 0"
  by (simp add: be_nat_def)

lemma be_nat_snoc [simp]: "be_nat (bs @ [b]) = be_nat bs * 256 + unat b"
  by (simp add: be_nat_def)

lemma be_nat_bound: "be_nat bs < 256 ^ length bs"
proof (induction bs rule: rev_induct)
  case (snoc b bs)
  have "unat b < 256" by (rule unat_u_bounds)
  with snoc show ?case by simp
qed simp

lemma be_nat_be_bytes: "be_nat (be_bytes n v) = v mod 256 ^ n"
proof (induction n arbitrary: v)
  case (Suc n)
  have "v mod (256 * 256 ^ n) = 256 * (v div 256 mod 256 ^ n) + v mod 256"
    by (rule mod_mult2_eq)
  with Suc show ?case by (simp add: unat_of_nat mult.commute)
qed simp

lemma be_bytes_be_nat: "be_bytes (length bs) (be_nat bs) = bs"
proof (induction bs rule: rev_induct)
  case (snoc b bs)
  have b: "unat b < 256" by (rule unat_u_bounds)
  then have "(be_nat bs * 256 + unat b) div 256 = be_nat bs" by simp
  moreover have "word_of_nat (be_nat bs * 256 + unat b) = b" by (rule word_of_nat_byte_add)
  ultimately show ?case using snoc by (simp del: of_nat_add of_nat_mult)
qed simp

lemma be_nat_Cons: "be_nat (b # bs) = unat b * 256 ^ length bs + be_nat bs"
  by (induction bs rule: rev_induct)
     (simp_all add: algebra_simps del: append_Cons add: append_Cons [symmetric] be_nat_def)

lemma be_nat_append: "be_nat (as @ bs) = be_nat as * 256 ^ length bs + be_nat bs"
  by (induction as) (simp_all add: be_nat_Cons power_add algebra_simps)

lemma be_nat_leading_zeros: "be_nat (replicate k 0 @ bs) = be_nat bs"
proof (induction bs rule: rev_induct)
  case Nil
  have "be_nat (replicate k 0) = 0" by (induction k) (simp_all add: be_nat_def)
  then show ?case by simp
next
  case (snoc b bs)
  then show ?case using be_nat_snoc [of "replicate k 0 @ bs" b] by simp
qed

lemma be_nat_zeros [simp]: "be_nat (replicate k 0) = 0"
  using be_nat_leading_zeros [of k "[]"] by simp

lemma be_bytes_inj: "u < 256 ^ n \<Longrightarrow> v < 256 ^ n \<Longrightarrow> be_bytes n u = be_bytes n v \<Longrightarrow> u = v"
  by (metis be_nat_be_bytes mod_less)

lemma drop_be_bytes: "drop k (be_bytes (k + m) v) = be_bytes m v"
  by (induction m arbitrary: v) simp_all

lemma length_u_be [simp, len_simps]:
  "length (u16_be a) = 2" "length (u32_be b) = 4" "length (u64_be c) = 8" "length (u128_be d) = 16"
  by (simp_all add: u16_be_def u32_be_def u64_be_def u128_be_def)

lemma u32_from_be_u32_be [simp]: "u32_from_be (u32_be w) = w"
proof -
  have "unat w < 256 ^ 4" by (rule unat_u_bounds)
  then show ?thesis by (simp add: u32_from_be_def u32_be_def be_nat_be_bytes)
qed

lemma u32_be_u32_from_be: "length bs = 4 \<Longrightarrow> u32_be (u32_from_be bs) = bs"
  using be_nat_bound [of bs] be_bytes_be_nat [of bs]
  by (simp add: u32_from_be_def u32_be_def unat_of_nat)

lemma u128_from_be_u128_be [simp]: "u128_from_be (u128_be w) = w"
proof -
  have "unat w < 256 ^ 16" by (rule unat_u_bounds)
  then show ?thesis by (simp add: u128_from_be_def u128_be_def be_nat_be_bytes)
qed

lemma u128_be_u128_from_be: "length bs = 16 \<Longrightarrow> u128_be (u128_from_be bs) = bs"
  using be_nat_bound [of bs] be_bytes_be_nat [of bs]
  by (simp add: u128_from_be_def u128_be_def unat_of_nat)

lemma u32_be_inj: "u32_be a = u32_be b \<Longrightarrow> a = b"
  by (metis u32_from_be_u32_be)

lemma u128_be_inj: "u128_be a = u128_be b \<Longrightarrow> a = b"
  by (metis u128_from_be_u128_be)


section \<open>Rules for operations\<close>

lemma returns_okE [simp, returns_intro]: "returns (okE x) x"
  by (simp add: returns_def okE_def)

lemma returns_bindE [returns_intro]: "returns m x \<Longrightarrow> returns (f x) y \<Longrightarrow> returns (bindE m f) y"
  by (auto simp: returns_def bindE_def split: prod.splits sum.splits) (metis fst_conv sum.distinct(1) sum.inject(2))+

lemma returns_map_errE [returns_intro]: "returns m x \<Longrightarrow> returns (map_errE g m) x"
  by (auto simp: returns_def map_errE_def split: prod.splits sum.splits) (metis fst_conv sum.distinct(1) sum.inject(2))+

lemma returns_liftE [returns_intro]: "returns (liftE (Inr x)) x"
  by (simp add: returns_def liftE_def)

lemma returns_ok_orE [returns_intro]: "v = Some x \<Longrightarrow> returns (ok_orE e v) x"
  by (simp add: returns_def ok_orE_def okE_def)

lemma returns_rejectE [returns_intro]: "\<not> c \<Longrightarrow> returns (rejectE c e) ()"
  by (simp add: returns_def rejectE_def okE_def)

lemma returns_bind_liftE:
  assumes "returns m x"
  shows "returns (bindE m (\<lambda>x. liftE (g x))) y \<longleftrightarrow> g x = Inr y"
proof -
  have "bindE m (\<lambda>x. liftE (g x)) s = (g x, snd (m s))" for s
    using assms by (cases "m s") (auto simp: returns_def bindE_def liftE_def split: sum.splits, metis fst_conv sum.distinct(1), metis fst_conv sum.inject(2))
  then show ?thesis by (simp add: returns_def)
qed

lemma returns_unique: "returns m x \<Longrightarrow> returns m y \<Longrightarrow> x = y"
  by (simp add: returns_def)

lemma rejectE_simps [simp]: "rejectE True e = errE e" "rejectE False e = okE ()"
  by (simp_all add: rejectE_def)

lemma ok_orE_simps [simp]: "ok_orE e None = errE e" "ok_orE e (Some x) = okE x"
  by (simp_all add: ok_orE_def)

lemma bindE_okE [simp]: "bindE (okE x) f = f x"
  by (simp add: bindE_def okE_def)

lemma bindE_errE [simp]: "bindE (errE e) f = errE e"
  by (simp add: bindE_def errE_def)

lemma not_returns_errE [simp]: "\<not> returns (errE e) x"
  by (simp add: returns_def errE_def)

lemma returns_reject_iff: "returns (bindE (rejectE c e) f) x \<longleftrightarrow> \<not> c \<and> returns (f ()) x"
  by (cases c) simp_all

lemma bindE_okE_right [simp]: "bindE m okE = m"
  by (auto simp: bindE_def okE_def fun_eq_iff split: prod.splits sum.splits)

lemma bindE_assoc: "bindE (bindE m f) g = bindE m (\<lambda>x. bindE (f x) g)"
  by (auto simp: bindE_def fun_eq_iff split: prod.splits sum.splits)

lemma fails_errE [simp]: "fails (errE e) e"
  by (simp add: fails_def errE_def)

lemma silent_errE [simp]: "silent (errE e)"
  by (simp add: silent_def errE_def)

lemma silent_okE [simp]: "silent (okE x)"
  by (simp add: silent_def okE_def)

lemma fails_bindE_left: "fails m e \<Longrightarrow> fails (bindE m f) e"
  by (auto simp: fails_def bindE_def split: prod.splits sum.splits) (metis fst_conv sum.distinct(1) sum.inject(1))+

lemma fails_bindE_right: "returns m x \<Longrightarrow> fails (f x) e \<Longrightarrow> fails (bindE m f) e"
  by (auto simp: returns_def fails_def bindE_def split: prod.splits sum.splits) (metis fst_conv sum.distinct(1) sum.inject(2))+

lemma fails_map_errE: "fails m e \<Longrightarrow> fails (map_errE g m) (g e)"
  by (auto simp: fails_def map_errE_def split: prod.splits sum.splits) (metis fst_conv sum.distinct(1) sum.inject(1))+

lemma returns_not_fails: "returns m x \<Longrightarrow> \<not> fails m e"
  by (simp add: returns_def fails_def)

lemma ensures_bindE: "ensures m P \<Longrightarrow> (\<And>x. P x \<Longrightarrow> ensures (f x) Q) \<Longrightarrow> ensures (bindE m f) Q"
  unfolding ensures_def bindE_def by (auto split: prod.splits sum.splits) (metis fst_conv)

lemma ensures_trivial: "ensures m (\<lambda>_. True)"
  by (simp add: ensures_def)

lemma ensures_okE: "Q x \<Longrightarrow> ensures (okE x) Q"
  by (simp add: ensures_def okE_def)

lemma ensures_errE [simp]: "ensures (errE e) Q"
  by (simp add: ensures_def errE_def)

lemma ensures_rejectE_bindE:
  "(\<not> c \<Longrightarrow> ensures (f ()) Q) \<Longrightarrow> ensures (bindE (rejectE c e) f) Q"
  by (cases c) simp_all

lemma ensuresD: "ensures m Q \<Longrightarrow> fst (m s) = Inr x \<Longrightarrow> Q x"
  by (auto simp: ensures_def)

lemma liftE_simps [simp]: "liftE (Inr x) = okE x" "liftE (Inl e) = errE e"
  by (simp_all add: liftE_def okE_def errE_def)

lemma raises_only_bindE:
  "raises_only m P \<Longrightarrow> (\<And>x. raises_only (f x) P) \<Longrightarrow> raises_only (bindE m f) P"
  unfolding raises_only_def bindE_def by (auto split: prod.splits sum.splits) (metis fst_conv)+

lemma raises_only_okE [simp]: "raises_only (okE x) P"
  by (simp add: raises_only_def okE_def)

lemma raises_only_map_errE: "(\<And>e. P (g e)) \<Longrightarrow> raises_only (map_errE g m) P"
  unfolding raises_only_def map_errE_def by (auto split: prod.splits sum.splits)

lemma raises_only_for_each: "(\<And>x st. x \<in> set xs \<Longrightarrow> raises_only (body x st) P) \<Longrightarrow> raises_only (for_each xs body st) P"
  by (induction xs arbitrary: st) (simp_all add: raises_only_bindE)

named_theorems settles_intro \<open>rules that follow the structure of an operation\<close>

lemma settles_okE [settles_intro]: "Q x \<Longrightarrow> settles (okE x) P Q"
  by (simp add: settles_def okE_def)

lemma settles_errE [settles_intro]: "P e \<Longrightarrow> settles (errE e) P Q"
  by (simp add: settles_def errE_def)

lemma settles_bindE: "settles m P R \<Longrightarrow> (\<And>x. R x \<Longrightarrow> settles (f x) P Q) \<Longrightarrow> settles (bindE m f) P Q"
proof -
  assume m: "settles m P R" and f: "\<And>x. R x \<Longrightarrow> settles (f x) P Q"
  have "case fst (bindE m f s) of Inl e \<Rightarrow> P e | Inr x \<Rightarrow> Q x" for s
  proof (cases "m s")
    case (Pair r t)
    have r: "case r of Inl e \<Rightarrow> P e | Inr x \<Rightarrow> R x" using m Pair unfolding settles_def by (metis fst_conv)
    show ?thesis
    proof (cases r)
      case (Inl e)
      then show ?thesis using r Pair by (simp add: bindE_def)
    next
      case (Inr x)
      then have "settles (f x) P Q" using r f by simp
      then show ?thesis using Inr Pair by (simp add: bindE_def settles_def)
    qed
  qed
  then show ?thesis by (simp add: settles_def)
qed

lemma settles_map_errE [settles_intro]: "(\<And>e. P (g e)) \<Longrightarrow> settles (map_errE g m) P (\<lambda>_. True)"
  by (auto simp: settles_def map_errE_def split: prod.splits sum.splits)

lemma settles_rejectE_bindE [settles_intro]:
  "P e \<Longrightarrow> (\<not> c \<Longrightarrow> settles (f ()) P Q) \<Longrightarrow> settles (bindE (rejectE c e) f) P Q"
  by (cases c) (simp_all add: settles_errE)

lemma settles_rejectE [settles_intro]: "P e \<Longrightarrow> (\<not> c \<Longrightarrow> Q ()) \<Longrightarrow> settles (rejectE c e) P Q"
  by (cases c) (simp_all add: settles_errE settles_okE)

lemma settles_ok_orE_bindE [settles_intro]:
  "(v = None \<Longrightarrow> P e) \<Longrightarrow> (\<And>x. v = Some x \<Longrightarrow> settles (f x) P Q) \<Longrightarrow> settles (bindE (ok_orE e v) f) P Q"
  by (cases v) (simp_all add: ok_orE_def settles_errE)

lemma settles_liftE_bindE [settles_intro]:
  "(\<And>e. r = Inl e \<Longrightarrow> P e) \<Longrightarrow> (\<And>x. r = Inr x \<Longrightarrow> settles (f x) P Q) \<Longrightarrow> settles (bindE (liftE r) f) P Q"
  by (cases r) (simp_all add: settles_errE)

lemma settles_weaken: "settles m P Q \<Longrightarrow> (\<And>e. P e \<Longrightarrow> P' e) \<Longrightarrow> (\<And>x. Q x \<Longrightarrow> Q' x) \<Longrightarrow> settles m P' Q'"
  by (fastforce simp: settles_def split: sum.splits)

lemma settles_ok: "settles m P Q \<Longrightarrow> fst (m s) = Inr x \<Longrightarrow> Q x"
  and settles_err: "settles m P Q \<Longrightarrow> fst (m s) = Inl e \<Longrightarrow> P e"
  by (auto simp: settles_def split: sum.splits)

lemma for_each_append:
  "for_each (xs @ ys) body = (\<lambda>st. bindE (for_each xs body st) (for_each ys body))"
proof (induction xs)
  case (Cons x xs)
  then show ?case by (intro ext) (simp add: bindE_assoc)
qed (simp add: fun_eq_iff)

lemma for_each_nested:
  "for_each xs (\<lambda>x. for_each (ys x) (\<lambda>y. body (x, y)))
     = for_each (concat (map (\<lambda>x. map (Pair x) (ys x)) xs)) body"
proof (induction xs)
  case (Cons x xs)
  have "for_each zs (\<lambda>y. body (x, y)) = for_each (map (Pair x) zs) body" for zs
  proof (induction zs)
    case (Cons z zs)
    then show ?case by (intro ext) simp
  qed (simp add: fun_eq_iff)
  with Cons show ?case by (intro ext) (simp add: for_each_append)
qed (simp add: fun_eq_iff)

text \<open>A loop whose body returns \<open>step x st\<close> is a fold, while the state invariant holds.\<close>

lemma returns_for_each:
  assumes "Inv st"
    and "\<And>x st. x \<in> set xs \<Longrightarrow> Inv st \<Longrightarrow> returns (body x st) (step x st)"
    and "\<And>x st. x \<in> set xs \<Longrightarrow> Inv st \<Longrightarrow> Inv (step x st)"
  shows "returns (for_each xs body st) (fold step xs st) \<and> Inv (fold step xs st)"
  using assms
proof (induction xs arbitrary: st)
  case (Cons x xs)
  then have "returns (for_each xs body (step x st)) (fold step xs (step x st))
      \<and> Inv (fold step xs (step x st))"
    by simp
  with Cons.prems show ?case by (auto intro: returns_bindE)
qed (simp add: returns_okE)

lemma fold_rev_inverse:
  assumes "Inv st"
    and "\<And>x st. x \<in> set xs \<Longrightarrow> Inv st \<Longrightarrow> Inv (step x st)"
    and "\<And>x st. x \<in> set xs \<Longrightarrow> Inv st \<Longrightarrow> back x (step x st) = st"
  shows "fold back (rev xs) (fold step xs st) = st"
  using assms by (induction xs arbitrary: st) simp_all

lemma bindR_simps [simp]: "bindR (Inr x) f = f x" "bindR (Inl e) f = Inl e"
  by (simp_all add: bindR_def)

lemma rejectR_simps [simp]: "rejectR True e = Inl e" "rejectR False e = Inr ()"
  by (simp_all add: rejectR_def)

lemma map_errR_simps [simp]: "map_errR g (Inr x) = Inr x" "map_errR g (Inl e) = Inl (g e)"
  by (simp_all add: map_errR_def)

lemma ok_orR_simps [simp]: "ok_orR e None = Inl e" "ok_orR e (Some x) = Inr x"
  by (simp_all add: ok_orR_def)

lemma bindR_Inr_iff: "bindR r f = Inr y \<longleftrightarrow> (\<exists>x. r = Inr x \<and> f x = Inr y)"
  by (cases r) simp_all

lemma rejectR_Inr_iff: "rejectR c e = Inr u \<longleftrightarrow> \<not> c"
  by (simp add: rejectR_def)

lemma map_errR_Inr_iff: "map_errR g r = Inr y \<longleftrightarrow> r = Inr y"
  by (cases r) simp_all

lemma ok_orR_Inr_iff: "ok_orR e v = Inr y \<longleftrightarrow> v = Some y"
  by (cases v) simp_all

lemmas result_iffs = bindR_Inr_iff rejectR_Inr_iff map_errR_Inr_iff ok_orR_Inr_iff

end
