(* ===== verification/Contracts.thy ===== *)
theory Contracts
  imports Core_Prelude
begin

text \<open>
  The contracts the components share. \<open>block_perm\<close> states what the code relies on of a block
  cipher: an encryption function on blocks of \<open>n\<close> bytes and its inverse.
  \<open>enc_callback\<close> and \<open>ecb_callback\<close> connect a caller-supplied callback with such functions.
  The locale \<open>invertible_op\<close> is the contract of every mode that has a forward and a backward
  direction (CBC, CTR, CCM, GCM, key wrap, padding); its lemmas are proved once here, and each
  mode's theory interprets it on the model of that mode. \<open>exact_op\<close> is the stronger contract of
  the authenticated modes: the backward direction returns a value only for what the forward
  direction produced.
\<close>

definition block_perm :: "nat \<Rightarrow> (bytes \<Rightarrow> bytes) \<Rightarrow> (bytes \<Rightarrow> bytes) \<Rightarrow> bool" where
  "block_perm n E D \<longleftrightarrow> (\<forall>b. length b = n \<longrightarrow> length (E b) = n \<and> D (E b) = b)"

definition keeps_len :: "nat \<Rightarrow> (bytes \<Rightarrow> bytes) \<Rightarrow> bool" where
  "keeps_len n F \<longleftrightarrow> (\<forall>b. length b = n \<longrightarrow> length (F b) = n)"

text \<open>Blocks of one size.\<close>

definition sized :: "nat \<Rightarrow> bytes list \<Rightarrow> bool" where
  "sized n bs \<longleftrightarrow> (\<forall>b \<in> set bs. length b = n)"

text \<open>Electronic code book: each whole block on its own.\<close>

definition ecb :: "nat \<Rightarrow> (bytes \<Rightarrow> bytes) \<Rightarrow> bytes \<Rightarrow> bytes" where
  "ecb n F x = concat (map F (chunks_exact n x))"

text \<open>A callback that encrypts any number of whole blocks.\<close>

definition enc_callback :: "nat \<Rightarrow> (bytes \<Rightarrow> ('s, 'e, bytes) op) \<Rightarrow> (bytes \<Rightarrow> bytes) \<Rightarrow> bool" where
  "enc_callback n cb E \<longleftrightarrow> (\<forall>x. n dvd length x \<longrightarrow> returns (cb x) (ecb n E x))"

text \<open>A callback with a direction flag, as \<open>cbc_with\<close> and the key wrap take it.\<close>

definition ecb_callback ::
  "nat \<Rightarrow> (bytes \<Rightarrow> bool \<Rightarrow> ('s, 'e, bytes) op) \<Rightarrow> (bytes \<Rightarrow> bytes) \<Rightarrow> (bytes \<Rightarrow> bytes) \<Rightarrow> bool" where
  "ecb_callback n cb E D \<longleftrightarrow>
     enc_callback n (\<lambda>x. cb x True) E \<and> enc_callback n (\<lambda>x. cb x False) D"

lemma block_permD:
  assumes "block_perm n E D" "length b = n"
  shows "length (E b) = n" "D (E b) = b"
  using assms by (simp_all add: block_perm_def)

lemma block_perm_keeps_len: "block_perm n E D \<Longrightarrow> keeps_len n E"
  by (simp add: block_perm_def keeps_len_def)

text \<open>
  There are finitely many blocks of \<open>n\<close> bytes, so an injective encryption function reaches them
  all and the inverse law holds in the other direction too.
\<close>

lemma block_perm_sym:
  assumes "block_perm n E D"
  shows "block_perm n D E"
proof -
  let ?B = "{b :: bytes. length b = n}"
  have inj: "inj_on E ?B"
    by (rule inj_on_inverseI [where g = D]) (use block_permD(2) [OF assms] in simp)
  have "finite ?B" using finite_lists_length_eq [of "UNIV :: byte set" n] by simp
  moreover have "E ` ?B \<subseteq> ?B" using assms by (auto simp: block_perm_def)
  ultimately have "E ` ?B = ?B" using inj by (intro endo_inj_surj)
  then have "\<exists>a. length a = n \<and> b = E a" if "length b = n" for b using that by blast
  moreover have "length (D (E a)) = n \<and> E (D (E a)) = E a" if "length a = n" for a
    using that block_permD [OF assms that] by simp
  ultimately show ?thesis unfolding block_perm_def by metis
qed

lemma keeps_lenD: "keeps_len n F \<Longrightarrow> length b = n \<Longrightarrow> length (F b) = n"
  by (simp add: keeps_len_def)

lemma sized_simps [simp]: "sized n []" "sized n (b # bs) \<longleftrightarrow> length b = n \<and> sized n bs"
  by (simp_all add: sized_def)

lemma sized_chunks_exact [simp]: "sized n (chunks_exact n x)"
  by (auto simp: sized_def dest: chunks_exact_lengths)

lemma chunks_exact_sized: "0 < n \<Longrightarrow> sized n bs \<Longrightarrow> chunks_exact n (concat bs) = bs"
  by (simp add: chunks_exact_concat sized_def)

lemma length_concat_sized: "sized n bs \<Longrightarrow> length (concat bs) = n * length bs"
  by (induction bs) simp_all

lemma ecb_Nil [simp]: "ecb n F [] = []"
  by (simp add: ecb_def)

lemma ecb_block: "0 < n \<Longrightarrow> length b = n \<Longrightarrow> ecb n F (b @ rest) = F b @ ecb n F rest"
  by (simp add: ecb_def chunks_exact_append)

lemma ecb_single: "0 < n \<Longrightarrow> length b = n \<Longrightarrow> ecb n F b = F b"
  using ecb_block [of n b F "[]"] by simp

lemma length_ecb:
  assumes "0 < n" "n dvd length x" "keeps_len n F"
  shows "length (ecb n F x) = length x"
  using assms by (induction x rule: blocks_induct) (simp_all add: ecb_block keeps_lenD)

lemma ecb_inverse:
  assumes "0 < n" "n dvd length x" "block_perm n E D"
  shows "ecb n D (ecb n E x) = x"
  using assms by (induction x rule: blocks_induct) (simp_all add: ecb_block block_permD)

lemma enc_callback_block:
  "enc_callback n cb E \<Longrightarrow> 0 < n \<Longrightarrow> length b = n \<Longrightarrow> returns (cb b) (E b)"
  by (simp add: enc_callback_def) (metis dvd_refl ecb_single)

lemma enc_callbackD: "enc_callback n cb E \<Longrightarrow> n dvd length x \<Longrightarrow> returns (cb x) (ecb n E x)"
  by (simp add: enc_callback_def)

text \<open>The same with the direction flag, in a form that unifies at once.\<close>

lemma ecb_callbackD:
  assumes "ecb_callback n cb E D" "n dvd length x"
  shows "returns (cb x True) (ecb n E x)" "returns (cb x False) (ecb n D x)"
  using assms by (simp_all add: ecb_callback_def enc_callback_def)

lemma ecb_callback_block:
  assumes "ecb_callback n cb E D" "0 < n" "length b = n"
  shows "returns (cb b True) (E b)" "returns (cb b False) (D b)"
  using ecb_callbackD [OF assms(1), of b] assms(2,3) by (simp_all add: ecb_single)

locale invertible_op =
  fixes ok :: "'c \<Rightarrow> bytes \<Rightarrow> bool"
    and fwd bwd :: "'c \<Rightarrow> bytes \<Rightarrow> ('s, 'e, bytes) op"
    and out_len :: "'c \<Rightarrow> nat \<Rightarrow> nat"
  assumes fwd_bwd: "ok c x \<Longrightarrow>
    \<exists>y. returns (fwd c x) y \<and> length y = out_len c (length x) \<and> returns (bwd c y) x"
begin

lemma fwd_then_bwd: "ok c x \<Longrightarrow> returns (bindE (fwd c x) (bwd c)) x"
  using fwd_bwd by (blast intro: returns_bindE)

lemma bwd_of_fwd:
  assumes "ok c x" "returns (fwd c x) y"
  shows "returns (bwd c y) x" and "length y = out_len c (length x)"
proof -
  obtain z where z: "returns (fwd c x) z" "length z = out_len c (length x)" "returns (bwd c z) x"
    using fwd_bwd [OF assms(1)] by auto
  have "z = y" using z(1) assms(2) by (rule returns_unique)
  with z show "returns (bwd c y) x" "length y = out_len c (length x)" by simp_all
qed

lemma fwd_injective:
  assumes "ok c x" "ok c x'" "returns (fwd c x) y" "returns (fwd c x') y"
  shows "x = x'"
  using bwd_of_fwd(1) [OF assms(1,3)] bwd_of_fwd(1) [OF assms(2,4)] by (rule returns_unique)

end

locale exact_op =
  fixes env :: "'c \<Rightarrow> bool"
    and ok :: "'c \<Rightarrow> bytes \<Rightarrow> bool"
    and fwd bwd :: "'c \<Rightarrow> bytes \<Rightarrow> ('s, 'e, bytes) op"
    and out_len :: "'c \<Rightarrow> nat \<Rightarrow> nat"
  assumes fwd_total: "env c \<Longrightarrow> ok c x \<Longrightarrow> \<exists>y. returns (fwd c x) y \<and> length y = out_len c (length x)"
    and bwd_iff: "env c \<Longrightarrow> returns (bwd c y) x \<longleftrightarrow> ok c x \<and> returns (fwd c x) y"
begin

lemma bwd_injective: "env c \<Longrightarrow> returns (bwd c y) x \<Longrightarrow> returns (bwd c y') x \<Longrightarrow> y = y'"
  using bwd_iff returns_unique by metis

lemma bwd_length:
  assumes "env c" "returns (bwd c y) x"
  shows "length y = out_len c (length x)"
proof -
  have "ok c x" "returns (fwd c x) y" using bwd_iff [OF assms(1)] assms(2) by simp_all
  moreover obtain z where "returns (fwd c x) z" "length z = out_len c (length x)"
    using fwd_total [OF assms(1) \<open>ok c x\<close>] by blast
  ultimately show ?thesis using returns_unique by metis
qed

end

sublocale exact_op \<subseteq> inv: invertible_op "\<lambda>c x. env c \<and> ok c x" fwd bwd out_len
proof (unfold_locales, goal_cases)
  case (1 c x)
  then show ?case using fwd_total [of c x] bwd_iff [of c] by blast
qed

text \<open>
  The contract of a codec without callbacks: encoding succeeds on its domain and decoding gives
  the input back. The padding schemes and the software-key operations interpret it.
\<close>

locale result_codec =
  fixes ok :: "'c \<Rightarrow> 'x \<Rightarrow> bool"
    and enc :: "'c \<Rightarrow> 'x \<Rightarrow> 'e + 'y"
    and dec :: "'c \<Rightarrow> 'y \<Rightarrow> 'e2 + 'x"
  assumes enc_dec: "ok c x \<Longrightarrow> \<exists>y. enc c x = Inr y \<and> dec c y = Inr x"
begin

lemma enc_total: "ok c x \<Longrightarrow> \<exists>y. enc c x = Inr y"
  using enc_dec by blast

lemma dec_of_enc: "ok c x \<Longrightarrow> enc c x = Inr y \<Longrightarrow> dec c y = Inr x"
  using enc_dec by fastforce

lemma enc_injective: "ok c x \<Longrightarrow> ok c x' \<Longrightarrow> enc c x = enc c x' \<Longrightarrow> x = x'"
  using enc_dec by (metis sum.inject(2))

end


section \<open>A concrete cipher for the witnesses\<close>

text \<open>
  A block permutation small enough to evaluate: it reverses the block and adds one to every
  byte. Witnesses use it to show that the hypotheses on the caller's block operation can hold.
\<close>

definition sample_E :: "bytes \<Rightarrow> bytes" where
  "sample_E b = rev (map (\<lambda>x. x + 1) b)"

definition sample_D :: "bytes \<Rightarrow> bytes" where
  "sample_D b = map (\<lambda>x. x - 1) (rev b)"

definition sample_cb :: "nat \<Rightarrow> bytes \<Rightarrow> bool \<Rightarrow> (unit, unit, bytes) op" where
  "sample_cb n x encrypting = okE (ecb n (if encrypting then sample_E else sample_D) x)"

lemma block_perm_sample: "block_perm n sample_E sample_D"
  by (simp add: block_perm_def sample_E_def sample_D_def rev_map comp_def)

lemma ecb_callback_sample: "ecb_callback n (sample_cb n) sample_E sample_D"
  by (simp add: ecb_callback_def enc_callback_def sample_cb_def returns_okE)

lemma enc_callback_sample: "enc_callback n (\<lambda>x. sample_cb n x True) sample_E"
  using ecb_callback_sample [of n] by (simp add: ecb_callback_def)


section \<open>Refinement of transition systems\<close>

text \<open>
  A detailed system implements an abstract one: under an invariant the detailed steps keep, the
  abstraction of every detailed step is an abstract step or no change.
\<close>

locale refinement =
  fixes cstep :: "'c \<Rightarrow> 'c \<Rightarrow> bool"
    and astep :: "'a \<Rightarrow> 'a \<Rightarrow> bool"
    and inv :: "'c \<Rightarrow> bool"
    and abs_of :: "'c \<Rightarrow> 'a"
  assumes inv_step: "inv s \<Longrightarrow> cstep s s' \<Longrightarrow> inv s'"
    and simulate: "inv s \<Longrightarrow> cstep s s' \<Longrightarrow> astep (abs_of s) (abs_of s') \<or> abs_of s' = abs_of s"
begin

lemma runs_refine:
  assumes "cstep\<^sup>*\<^sup>* s s'" "inv s"
  shows "inv s' \<and> astep\<^sup>*\<^sup>* (abs_of s) (abs_of s')"
  using assms
proof (induction rule: rtranclp_induct)
  case (step t u)
  then show ?case using inv_step simulate by (metis rtranclp.rtrancl_into_rtrancl)
qed simp

lemma invariant_of_runs:
  assumes "cstep\<^sup>*\<^sup>* s s'" "inv s" "\<And>a a'. P a \<Longrightarrow> astep a a' \<Longrightarrow> P a'" "P (abs_of s)"
  shows "P (abs_of s')"
proof -
  have "astep\<^sup>*\<^sup>* (abs_of s) (abs_of s')" using runs_refine [OF assms(1,2)] by blast
  then show ?thesis using assms(3,4) by (induction rule: rtranclp_induct) blast+
qed

end

end
