(* ===== verification/Cbc_Padding.thy ===== *)
theory Cbc_Padding
  imports Contracts
begin

text \<open>
  \<^verbatim>\<open>src/src/software_symmetric.rs\<close>, lines 18 to 183: the error types of the block-cipher
  constructions, CBC over a caller-supplied block transformation, and PKCS \#7 padding.
  The buffers that the code overwrites with zeros before it returns an error are dropped there,
  so clearing them has no result to model.
\<close>

definition AES_BLOCK_SIZE :: nat where
  "AES_BLOCK_SIZE = 16"

datatype SoftwareSymmetricError =
    Sym_InvalidKeyLength
  | Sym_InvalidDataLength
  | Sym_InvalidIvLength
  | Sym_AuthenticationFailed

datatype 'e GcmError =
    Gcm_InvalidIvLength
  | Gcm_InvalidTagLength
  | Gcm_InputTooLong
  | Gcm_CiphertextTooShort
  | Gcm_InvalidBlockOutput
  | Gcm_AuthenticationFailed
  | Gcm_BlockOperation 'e

datatype 'e BlockCipherModeError =
    Mode_InvalidBlockSize
  | Mode_InvalidIvLength
  | Mode_InvalidDataLength
  | Mode_InvalidCounterBits
  | Mode_InputTooLong
  | Mode_InvalidBlockOutput
  | Mode_BlockOperation 'e

text \<open>One turn of the encryption loop, on the pair of \<open>previous\<close> and \<open>output\<close>.\<close>

definition cbc_encrypt_block ::
  "nat \<Rightarrow> (bytes \<Rightarrow> bool \<Rightarrow> ('s, 'e, bytes) op) \<Rightarrow> bytes \<Rightarrow> bytes \<times> bytes
     \<Rightarrow> ('s, 'e BlockCipherModeError, bytes \<times> bytes) op" where
  "cbc_encrypt_block block_size transform_blocks input_block st =
     (case st of (previous, output) \<Rightarrow>
        let mixed = xor_bytes input_block previous in
        bindE (map_errE Mode_BlockOperation (transform_blocks mixed True)) (\<lambda>encrypted.
        bindE (rejectE (length encrypted \<noteq> block_size) Mode_InvalidBlockOutput) (\<lambda>_.
        okE (encrypted, output @ encrypted))))"

text \<open>One turn of the decryption loop, over an input block and its transformed block.\<close>

definition cbc_decrypt_block :: "bytes \<times> bytes \<Rightarrow> bytes \<times> bytes \<Rightarrow> bytes \<times> bytes" where
  "cbc_decrypt_block pair st =
     (case pair of (input_block, decrypted) \<Rightarrow> case st of (previous, output) \<Rightarrow>
        (input_block, output @ xor_bytes decrypted previous))"

definition cbc_with ::
  "nat \<Rightarrow> bytes \<Rightarrow> bytes \<Rightarrow> bool \<Rightarrow> (bytes \<Rightarrow> bool \<Rightarrow> ('s, 'e, bytes) op)
     \<Rightarrow> ('s, 'e BlockCipherModeError, bytes) op" where
  "cbc_with block_size iv input encrypting transform_blocks =
     bindE (rejectE (block_size = 0) Mode_InvalidBlockSize) (\<lambda>_.
     bindE (rejectE (length iv \<noteq> block_size) Mode_InvalidIvLength) (\<lambda>_.
     bindE (rejectE (length input mod block_size \<noteq> 0) Mode_InvalidDataLength) (\<lambda>_.
     if encrypting then
       bindE (for_each (chunks_exact block_size input)
                (cbc_encrypt_block block_size transform_blocks) (iv, []))
         (\<lambda>st. okE (snd st))
     else
       bindE (map_errE Mode_BlockOperation (transform_blocks input False)) (\<lambda>transformed.
       bindE (rejectE (length transformed \<noteq> length input) Mode_InvalidBlockOutput) (\<lambda>_.
       okE (snd (fold cbc_decrypt_block
              (zip (chunks_exact block_size input) (chunks_exact block_size transformed))
              (iv, []))))))))"

datatype CcmOperation = EncryptBlocks | CbcMac

datatype 'e CcmError =
    Ccm_InvalidNonceLength
  | Ccm_InvalidTagLength
  | Ccm_InvalidDataLength
  | Ccm_InputTooLong
  | Ccm_InvalidBlockOutput
  | Ccm_AuthenticationFailed
  | Ccm_BlockOperation 'e

datatype 'e KeyWrapError =
    Wrap_InvalidInitialValue
  | Wrap_InvalidDataLength
  | Wrap_InputTooLong
  | Wrap_InvalidBlockOutput
  | Wrap_AuthenticationFailed
  | Wrap_BlockOperation 'e

datatype Pkcs7PaddingError =
    Pkcs7_InvalidBlockLength
  | Pkcs7_InputTooLong
  | Pkcs7_InvalidPadding

definition apply_pkcs7_padding :: "bytes \<Rightarrow> nat \<Rightarrow> Pkcs7PaddingError + bytes" where
  "apply_pkcs7_padding input block_length =
     bindR (rejectR (\<not> (1 \<le> block_length \<and> block_length \<le> 255)) Pkcs7_InvalidBlockLength) (\<lambda>_.
     let padding_length = block_length - length input mod block_length in
     bindR (ok_orR Pkcs7_InputTooLong (checked_add (length input) padding_length)) (\<lambda>padded_length.
     Inr (resize padded_length (word_of_nat padding_length) input)))"

definition remove_pkcs7_padding :: "bytes \<Rightarrow> nat \<Rightarrow> Pkcs7PaddingError + bytes" where
  "remove_pkcs7_padding plaintext block_length =
     bindR (rejectR (\<not> (1 \<le> block_length \<and> block_length \<le> 255) \<or> length plaintext < block_length)
              Pkcs7_InvalidBlockLength) (\<lambda>_.
     let padding = (if plaintext = [] then 0 else last plaintext);
         invalid = fold (\<lambda>(index, byte) invalid. invalid \<or> (word_of_nat index < padding \<and> byte \<noteq> padding))
                     (enumerate 0 (take block_length (rev plaintext)))
                     (padding = 0 \<or> padding > word_of_nat block_length)
     in bindR (rejectR invalid Pkcs7_InvalidPadding) (\<lambda>_.
        Inr (take (length plaintext - unat padding) plaintext)))"


section \<open>CBC is the chaining mode, and decryption inverts it\<close>

text \<open>Reference: the cipher block chaining recurrence on a list of blocks.\<close>

fun cbc_chain :: "(bytes \<Rightarrow> bytes) \<Rightarrow> bytes \<Rightarrow> bytes list \<Rightarrow> bytes list" where
  "cbc_chain E prev [] = []"
| "cbc_chain E prev (b # bs) = (let c = E (xor_bytes b prev) in c # cbc_chain E c bs)"

definition cbc_spec :: "nat \<Rightarrow> (bytes \<Rightarrow> bytes) \<Rightarrow> bytes \<Rightarrow> bytes \<Rightarrow> bytes" where
  "cbc_spec n E iv x = concat (cbc_chain E iv (chunks_exact n x))"

lemma sized_cbc_chain:
  "keeps_len n E \<Longrightarrow> length prev = n \<Longrightarrow> sized n bs \<Longrightarrow> sized n (cbc_chain E prev bs)"
  by (induction bs arbitrary: prev) (simp_all add: Let_def keeps_lenD)

lemma length_cbc_chain [simp]: "length (cbc_chain E prev bs) = length bs"
  by (induction bs arbitrary: prev) (auto simp: Let_def)

lemma chunks_exact_cbc_spec:
  assumes "0 < n" "keeps_len n E" "length iv = n"
  shows "chunks_exact n (cbc_spec n E iv x) = cbc_chain E iv (chunks_exact n x)"
  unfolding cbc_spec_def using assms by (simp add: chunks_exact_sized sized_cbc_chain)

lemma length_cbc_spec:
  assumes "0 < n" "n dvd length x" "keeps_len n E" "length iv = n"
  shows "length (cbc_spec n E iv x) = length x"
proof -
  have "sized n (cbc_chain E iv (chunks_exact n x))" using assms by (simp add: sized_cbc_chain)
  then show ?thesis using assms
    by (simp add: cbc_spec_def length_concat_sized length_chunks_exact)
qed

lemma cbc_encrypt_loop:
  assumes "0 < n" "enc_callback n (\<lambda>x. cb x True) E" "keeps_len n E" "sized n bs" "length prev = n"
  shows "\<exists>last. returns (for_each bs (cbc_encrypt_block n cb) (prev, out))
           (last, out @ concat (cbc_chain E prev bs))"
  using assms(4,5)
proof (induction bs arbitrary: prev out)
  case (Cons b bs)
  let ?c = "E (xor_bytes b prev)"
  have x: "length (xor_bytes b prev) = n" using Cons.prems by simp
  have c: "returns (cb (xor_bytes b prev) True) ?c"
    by (rule enc_callback_block [OF assms(2,1) x])
  have l: "length ?c = n" using assms(3) x by (rule keeps_lenD)
  have "sized n bs" using Cons.prems by simp
  then obtain last where "returns (for_each bs (cbc_encrypt_block n cb) (?c, out @ ?c))
      (last, (out @ ?c) @ concat (cbc_chain E ?c bs))"
    using Cons.IH l by blast
  moreover have "returns (cbc_encrypt_block n cb b (prev, out)) (?c, out @ ?c)"
    unfolding cbc_encrypt_block_def Let_def prod.case
    by (rule returns_bindE [OF returns_map_errE [OF c]]) (simp add: l returns_okE)
  ultimately show ?case
    by (auto simp: Let_def intro!: exI returns_bindE)
qed (auto intro: returns_okE)

lemma cbc_decrypt_loop:
  assumes "block_perm n E D" "length prev = n" "sized n bs"
  shows "snd (fold cbc_decrypt_block (zip (cbc_chain E prev bs) (map D (cbc_chain E prev bs))) (prev, out))
           = out @ concat bs"
  using assms(2,3)
proof (induction bs arbitrary: prev out)
  case (Cons b bs)
  have "length (xor_bytes b prev) = n" using Cons.prems by simp
  note p = block_permD [OF assms(1) this]
  show ?case using Cons p by (simp add: Let_def cbc_decrypt_block_def xor_bytes_involution)
qed simp

lemma sized_cbc_decrypted:
  assumes "block_perm n E D" "length prev = n" "sized n bs"
  shows "sized n (map D (cbc_chain E prev bs))"
  using assms(2,3)
proof (induction bs arbitrary: prev)
  case (Cons b bs)
  have "length (xor_bytes b prev) = n" using Cons.prems by simp
  note p = block_permD [OF assms(1) this]
  show ?case using Cons p by (simp add: Let_def)
qed simp

lemma cbc_with_encrypts:
  assumes "0 < n" "length iv = n" "n dvd length x" "enc_callback n (\<lambda>x. cb x True) E" "keeps_len n E"
  shows "returns (cbc_with n iv x True cb) (cbc_spec n E iv x)"
proof -
  obtain last where "returns (for_each (chunks_exact n x) (cbc_encrypt_block n cb) (iv, []))
      (last, [] @ concat (cbc_chain E iv (chunks_exact n x)))"
    using cbc_encrypt_loop [where cb = cb, OF assms(1,4,5) sized_chunks_exact assms(2)] by blast
  then have "returns (bindE (for_each (chunks_exact n x) (cbc_encrypt_block n cb) (iv, []))
      (\<lambda>st. okE (snd st))) (cbc_spec n E iv x)"
    by (rule returns_bindE) (simp add: returns_okE cbc_spec_def)
  then show ?thesis using assms by (simp add: cbc_with_def rejectE_def)
qed

lemma cbc_with_decrypts:
  assumes "0 < n" "length iv = n" "n dvd length x" "block_perm n E D"
    "enc_callback n (\<lambda>x. cb x False) D"
  shows "returns (cbc_with n iv (cbc_spec n E iv x) False cb) x"
proof -
  let ?y = "cbc_spec n E iv x" and ?bs = "chunks_exact n x"
  note E = block_perm_keeps_len [OF assms(4)]
  note loop = cbc_decrypt_loop [OF assms(4,2) sized_chunks_exact]
    sized_cbc_decrypted [OF assms(4,2) sized_chunks_exact]
  have len: "length ?y = length x" using assms E by (simp add: length_cbc_spec)
  have ys: "chunks_exact n ?y = cbc_chain E iv ?bs" using assms E by (simp add: chunks_exact_cbc_spec)
  have t: "chunks_exact n (ecb n D ?y) = map D (cbc_chain E iv ?bs)"
    unfolding ecb_def ys using assms(1) loop(2) by (rule chunks_exact_sized)
  have lt: "length (ecb n D ?y) = length ?y"
    unfolding len ecb_def ys length_concat_sized [OF loop(2)]
    using assms by (simp add: length_chunks_exact)
  have r: "returns (cb ?y False) (ecb n D ?y)"
    by (rule enc_callbackD [OF assms(5)]) (simp add: len assms)
  have "returns (bindE (map_errE Mode_BlockOperation (cb ?y False)) (\<lambda>transformed.
       bindE (rejectE (length transformed \<noteq> length ?y) Mode_InvalidBlockOutput) (\<lambda>_.
       okE (snd (fold cbc_decrypt_block
              (zip (chunks_exact n ?y) (chunks_exact n transformed)) (iv, [])))))) x"
    by (rule returns_bindE [OF returns_map_errE [OF r]])
       (simp add: lt t ys loop(1) concat_chunks_exact assms returns_okE)
  then show ?thesis using assms by (simp add: cbc_with_def rejectE_def len)
qed


interpretation cbc: invertible_op
  "\<lambda>(n, iv, cb, E, D) x. 0 < n \<and> length iv = n \<and> n dvd length x \<and> block_perm n E D \<and> ecb_callback n cb E D"
  "\<lambda>(n, iv, cb, E, D) x. cbc_with n iv x True cb"
  "\<lambda>(n, iv, cb, E, D) x. cbc_with n iv x False cb"
  "\<lambda>_ len. len"
proof (unfold_locales, goal_cases)
  case (1 c x)
  then obtain n iv cb E D where c: "c = (n, iv, cb, E, D)" "0 < n" "length iv = n" "n dvd length x"
      "block_perm n E D" "enc_callback n (\<lambda>x. cb x True) E" "enc_callback n (\<lambda>x. cb x False) D"
    by (cases c) (auto simp: ecb_callback_def)
  then have "length (cbc_spec n E iv x) = length x"
    by (intro length_cbc_spec block_perm_keeps_len)
  with cbc_with_encrypts [where cb = cb, OF c(2-4,6) block_perm_keeps_len [OF c(5)]] cbc_with_decrypts [where cb = cb, OF c(2-5,7)]
  show ?case by (auto simp: c(1))
qed


section \<open>PKCS \#7 padding\<close>

lemma fold_or: "fold (\<lambda>(i, b) c. c \<or> P i b) xs c \<longleftrightarrow> c \<or> (\<exists>(i, b) \<in> set xs. P i b)"
  by (induction xs arbitrary: c) auto

text \<open>The scan of the last block rejects exactly when one of the last \<open>k\<close> bytes differs.\<close>

lemma pkcs7_scan:
  assumes "n \<le> 255" "n \<le> length p" "unat (k :: byte) \<le> n"
  shows "(\<exists>(i, b) \<in> set (enumerate 0 (take n (rev p))). word_of_nat i < k \<and> b \<noteq> k)
     \<longleftrightarrow> drop (length p - unat k) p \<noteq> replicate (unat k) k"
proof -
  have i: "word_of_nat i < k \<longleftrightarrow> i < unat k" if "i < n" for i
    using that assms by (simp add: word_less_nat_alt unat_of_nat)
  have "(\<exists>(i, b) \<in> set (enumerate 0 (take n (rev p))). word_of_nat i < k \<and> b \<noteq> k)
      \<longleftrightarrow> (\<exists>i < unat k. rev p ! i \<noteq> k)"
  proof
    assume "\<exists>(i, b) \<in> set (enumerate 0 (take n (rev p))). word_of_nat i < k \<and> b \<noteq> k"
    then obtain j b where "(j, b) \<in> set (enumerate 0 (take n (rev p)))" "word_of_nat j < k" "b \<noteq> k"
      by blast
    moreover from this have "j < n" "b = rev p ! j" by (auto simp: in_set_enumerate_eq)
    ultimately show "\<exists>i < unat k. rev p ! i \<noteq> k" using i by auto
  next
    assume "\<exists>i < unat k. rev p ! i \<noteq> k"
    then obtain j where j: "j < unat k" "rev p ! j \<noteq> k" by blast
    then have "(j, rev p ! j) \<in> set (enumerate 0 (take n (rev p)))"
      using assms by (simp add: in_set_enumerate_eq)
    moreover have "word_of_nat j < k" using j i assms by simp
    ultimately show "\<exists>(i, b) \<in> set (enumerate 0 (take n (rev p))). word_of_nat i < k \<and> b \<noteq> k"
      using j by blast
  qed
  also have "\<dots> \<longleftrightarrow> take (unat k) (rev p) \<noteq> replicate (unat k) k"
    using assms by (auto simp: list_eq_iff_nth_eq)
  also have "\<dots> \<longleftrightarrow> drop (length p - unat k) p \<noteq> replicate (unat k) k"
    by (metis rev_replicate rev_rev_ident take_rev)
  finally show ?thesis .
qed

lemma remove_pkcs7_padding_eq:
  assumes "1 \<le> n" "n \<le> 255" "n \<le> length p"
  shows "remove_pkcs7_padding p n =
    (let k = unat (last p) in
     if 1 \<le> k \<and> k \<le> n \<and> drop (length p - k) p = replicate k (last p)
     then Inr (take (length p - k) p) else Inl Pkcs7_InvalidPadding)"
proof -
  have "p \<noteq> []" using assms by auto
  moreover have "last p = 0 \<longleftrightarrow> unat (last p) = 0" by (simp add: unat_eq_0)
  moreover have "word_of_nat n < last p \<longleftrightarrow> n < unat (last p)"
    using assms by (simp add: word_less_nat_alt unat_of_nat)
  ultimately show ?thesis
    using assms pkcs7_scan [OF assms(2,3), of "last p"]
    by (auto simp: remove_pkcs7_padding_def fold_or rejectR_def Let_def linorder_not_less)
qed

lemma remove_pkcs7_padding_iff:
  "remove_pkcs7_padding p n = Inr x \<longleftrightarrow>
     1 \<le> n \<and> n \<le> 255 \<and> n \<le> length p \<and>
     (\<exists>k. 1 \<le> k \<and> k \<le> n \<and> p = x @ replicate k (word_of_nat k))" (is "?l \<longleftrightarrow> ?r")
proof (cases "1 \<le> n \<and> n \<le> 255 \<and> n \<le> length p")
  case False
  then show ?thesis by (auto simp: remove_pkcs7_padding_def rejectR_def)
next
  case True
  note eq = remove_pkcs7_padding_eq [of n p]
  have "?r" if "?l"
  proof -
    let ?k = "unat (last p)"
    have k: "1 \<le> ?k" "?k \<le> n" "drop (length p - ?k) p = replicate ?k (last p)"
      "x = take (length p - ?k) p"
      using that eq True by (auto simp: Let_def split: if_splits)
    then have "p = x @ replicate ?k (word_of_nat ?k)"
      using append_take_drop_id [of "length p - ?k" p] by simp
    with k True show ?thesis by blast
  qed
  moreover have "?l" if r: "?r"
  proof -
    obtain k where k: "1 \<le> k" "k \<le> n" "p = x @ replicate k (word_of_nat k)" using r by blast
    have "last p = word_of_nat k" using k by simp
    moreover have "unat (word_of_nat k :: byte) = k" using k True by (simp add: unat_of_nat)
    ultimately show ?thesis using k True eq by (simp add: Let_def)
  qed
  ultimately show ?thesis by blast
qed

lemma apply_pkcs7_padding_eq:
  assumes "1 \<le> n" "n \<le> 255" "length x + n < usize_bound"
  shows "apply_pkcs7_padding x n =
    Inr (x @ replicate (n - length x mod n) (word_of_nat (n - length x mod n)))"
proof -
  define k where "k = n - length x mod n"
  have "length x + k < usize_bound" using assms(3) unfolding k_def by linarith
  then show ?thesis
    using assms unfolding apply_pkcs7_padding_def k_def [symmetric] Let_def
    by (simp add: rejectR_def checked_add_def resize_extend)
qed

lemma pkcs7_aligned: "0 < n \<Longrightarrow> n dvd length x + (n - length x mod n)"
proof -
  assume "0 < n"
  then have "length x + (n - length x mod n) = length x div n * n + n"
    by (metis add.assoc div_mult_mod_eq le_add_diff_inverse mod_less_divisor less_imp_le)
  then show ?thesis by simp
qed

lemma pkcs7_round_trip:
  assumes "1 \<le> n" "n \<le> 255" "length x + n < usize_bound"
  shows "\<exists>p. apply_pkcs7_padding x n = Inr p \<and> n dvd length p \<and> length x < length p
    \<and> remove_pkcs7_padding p n = Inr x"
proof -
  define k where "k = n - length x mod n"
  have k: "1 \<le> k" "k \<le> n" using assms by (simp_all add: k_def Suc_le_eq)
  have d: "n dvd length x + k" using assms unfolding k_def by (intro pkcs7_aligned) simp
  then have "n \<le> length x + k" using k by (intro dvd_imp_le) auto
  moreover have "apply_pkcs7_padding x n = Inr (x @ replicate k (word_of_nat k))"
    unfolding k_def by (rule apply_pkcs7_padding_eq [OF assms])
  ultimately show ?thesis
    using assms k d
    by (intro exI [of _ "x @ replicate k (word_of_nat k)"])
       (auto simp: remove_pkcs7_padding_iff intro!: exI [of _ k])
qed

interpretation pkcs7: invertible_op
  "\<lambda>n x. 1 \<le> n \<and> n \<le> 255 \<and> length x + n < usize_bound"
  "\<lambda>n x. liftE (apply_pkcs7_padding x n) :: (unit, Pkcs7PaddingError, bytes) op"
  "\<lambda>n x. liftE (remove_pkcs7_padding x n)"
  "\<lambda>n len. len + (n - len mod n)"
proof (unfold_locales, clarify)
  fix n :: nat and x :: bytes
  assume a: "1 \<le> n" "n \<le> 255" "length x + n < usize_bound"
  obtain p where p: "apply_pkcs7_padding x n = Inr p" "remove_pkcs7_padding p n = Inr x"
    using pkcs7_round_trip [OF a] by blast
  then have "length p = length x + (n - length x mod n)"
    using apply_pkcs7_padding_eq [OF a] by auto
  with p show "\<exists>y. returns (liftE (apply_pkcs7_padding x n) :: (unit, Pkcs7PaddingError, bytes) op) y
      \<and> length y = length x + (n - length x mod n)
      \<and> returns (liftE (remove_pkcs7_padding y n) :: (unit, Pkcs7PaddingError, bytes) op) x"
    by (intro exI [of _ p]) (simp add: returns_liftE)
qed



section \<open>Properties\<close>

text \<open>
  C3: over any block operation that encrypts and decrypts whole blocks, \<open>cbc_with\<close> encrypts to
  the cipher block chaining of the input under the initial value, the ciphertext is as long as
  the plaintext, and \<open>cbc_with\<close> in the other direction gives the plaintext back, whatever state
  the callback is in.
\<close>

theorem cbc_round_trip:
  assumes "0 < n" "length iv = n" "n dvd length x" "block_perm n E D" "ecb_callback n cb E D"
  shows "returns (cbc_with n iv x True cb) (cbc_spec n E iv x)
    \<and> length (cbc_spec n E iv x) = length x
    \<and> returns (cbc_with n iv (cbc_spec n E iv x) False cb) x"
proof -
  have cb: "enc_callback n (\<lambda>x. cb x True) E" using assms(5) by (simp add: ecb_callback_def)
  have y: "returns (cbc_with n iv x True cb) (cbc_spec n E iv x)"
    using assms(1-3) cb block_perm_keeps_len [OF assms(4)] by (rule cbc_with_encrypts)
  show ?thesis
    using y cbc.bwd_of_fwd [of "(n, iv, cb, E, D)" x "cbc_spec n E iv x"] assms by simp
qed

theorem cbc_round_trip_witness:
  "returns (cbc_with 2 [1, 2] [3, 4, 5, 6] True (sample_cb 2)) (cbc_spec 2 sample_E [1, 2] [3, 4, 5, 6])
    \<and> length (cbc_spec 2 sample_E [1, 2] [3, 4, 5, 6]) = length ([3, 4, 5, 6] :: bytes)
    \<and> returns (cbc_with 2 [1, 2] (cbc_spec 2 sample_E [1, 2] [3, 4, 5, 6]) False (sample_cb 2)) [3, 4, 5, 6]"
  by (rule cbc_round_trip [where D = sample_D]) (simp_all add: block_perm_sample ecb_callback_sample)

text \<open>
  \<open>remove_pkcs7_padding\<close> succeeds exactly on the buffers that end in \<open>k\<close> copies of the byte
  \<open>k\<close> for some \<open>k\<close> between one and the block length, and returns what stands before them; the
  constant-time scan therefore accepts no malformed padding and rejects no well-formed one.
\<close>

theorem pkcs7_unpad_exact:
  "remove_pkcs7_padding p n = Inr x \<longleftrightarrow>
     1 \<le> n \<and> n \<le> 255 \<and> n \<le> length p \<and>
     (\<exists>k. 1 \<le> k \<and> k \<le> n \<and> p = x @ replicate k (word_of_nat k))"
  by (rule remove_pkcs7_padding_iff)

text \<open>
  padding to a block length of 1 to 255 succeeds on every input that fits the address space,
  yields a positive multiple of the block length, and removing the padding gives the input back.
\<close>

theorem pkcs7_pad_unpad:
  assumes "1 \<le> n" "n \<le> 255" "length x + n < usize_bound"
  shows "\<exists>p. apply_pkcs7_padding x n = Inr p \<and> n dvd length p \<and> length x < length p
    \<and> remove_pkcs7_padding p n = Inr x"
  using assms by (rule pkcs7_round_trip)

theorem pkcs7_pad_unpad_witness:
  "\<exists>p. apply_pkcs7_padding [7, 8, 9] 4 = Inr p \<and> 4 dvd length p \<and> length ([7, 8, 9] :: bytes) < length p
    \<and> remove_pkcs7_padding p 4 = Inr [7, 8, 9]"
  by (rule pkcs7_pad_unpad) (simp_all add: usize_bound_def)

end
