(* ===== verification/Key_Wrap.thy ===== *)
theory Key_Wrap
  imports Cbc_Padding
begin

text \<open>
  \<^verbatim>\<open>src/src/software_symmetric.rs\<close>, lines 185 to 350: the RFC 3394 key wrap and the RFC 5649
  key wrap with padding over a caller-supplied block operation. The register \<open>A\<close> is a byte
  string of eight bytes, \<open>R\<close> one flat byte string that the loop updates in place, and the step
  counter is a 64-bit word.
\<close>

definition KEY_WRAP_SEMIBLOCK_SIZE :: nat where
  "KEY_WRAP_SEMIBLOCK_SIZE = 8"

text \<open>\<open>let transformed: [u8; 16] = crypt_block(..)?.try_into()?\<close>\<close>

definition wrap_block ::
  "(bytes \<Rightarrow> bool \<Rightarrow> ('s, 'e, bytes) op) \<Rightarrow> bytes \<Rightarrow> bool \<Rightarrow> ('s, 'e KeyWrapError, bytes) op" where
  "wrap_block crypt_block block encrypting =
     bindE (map_errE Wrap_BlockOperation (crypt_block block encrypting)) (\<lambda>transformed.
     bindE (rejectE (length transformed \<noteq> AES_BLOCK_SIZE) Wrap_InvalidBlockOutput) (\<lambda>_.
     okE transformed))"

definition wrap_counter :: "nat \<Rightarrow> nat \<Rightarrow> nat \<Rightarrow> u64" where
  "wrap_counter semiblocks round index = word_of_nat semiblocks * word_of_nat round + word_of_nat index + 1"

definition wrap_step ::
  "(bytes \<Rightarrow> bool \<Rightarrow> ('s, 'e, bytes) op) \<Rightarrow> nat \<Rightarrow> nat \<times> nat \<Rightarrow> bytes \<times> bytes
     \<Rightarrow> ('s, 'e KeyWrapError, bytes \<times> bytes) op" where
  "wrap_step crypt_block semiblocks position st =
     (case position of (round, index) \<Rightarrow> case st of (a, r) \<Rightarrow>
        let lo = index * KEY_WRAP_SEMIBLOCK_SIZE; hi = (index + 1) * KEY_WRAP_SEMIBLOCK_SIZE in
        bindE (wrap_block crypt_block (a @ slice_range lo hi r) True) (\<lambda>transformed.
        okE (xor_into (take KEY_WRAP_SEMIBLOCK_SIZE transformed) (u64_be (wrap_counter semiblocks round index)),
             copy_at lo (drop KEY_WRAP_SEMIBLOCK_SIZE transformed) r)))"

definition unwrap_step ::
  "(bytes \<Rightarrow> bool \<Rightarrow> ('s, 'e, bytes) op) \<Rightarrow> nat \<Rightarrow> nat \<times> nat \<Rightarrow> bytes \<times> bytes
     \<Rightarrow> ('s, 'e KeyWrapError, bytes \<times> bytes) op" where
  "unwrap_step crypt_block semiblocks position st =
     (case position of (round, index) \<Rightarrow> case st of (a, r) \<Rightarrow>
        let lo = index * KEY_WRAP_SEMIBLOCK_SIZE; hi = (index + 1) * KEY_WRAP_SEMIBLOCK_SIZE in
        bindE (wrap_block crypt_block
                 (xor_into a (u64_be (wrap_counter semiblocks round index)) @ slice_range lo hi r) False) (\<lambda>transformed.
        okE (take KEY_WRAP_SEMIBLOCK_SIZE transformed,
             copy_at lo (drop KEY_WRAP_SEMIBLOCK_SIZE transformed) r)))"

definition key_wrap_rounds ::
  "bytes \<Rightarrow> bytes \<Rightarrow> bool \<Rightarrow> (bytes \<Rightarrow> bool \<Rightarrow> ('s, 'e, bytes) op)
     \<Rightarrow> ('s, 'e KeyWrapError, bytes \<times> bytes) op" where
  "key_wrap_rounds a r encrypting crypt_block =
     (let semiblocks = length r div KEY_WRAP_SEMIBLOCK_SIZE in
      if encrypting then
        for_each [0..<6] (\<lambda>round. for_each [0..<semiblocks]
          (\<lambda>index. wrap_step crypt_block semiblocks (round, index))) (a, r)
      else
        for_each (rev [0..<6]) (\<lambda>round. for_each (rev [0..<semiblocks])
          (\<lambda>index. unwrap_step crypt_block semiblocks (round, index))) (a, r))"

definition key_wrap_with ::
  "bytes \<Rightarrow> bool \<Rightarrow> bytes \<Rightarrow> (bytes \<Rightarrow> bool \<Rightarrow> ('s, 'e, bytes) op) \<Rightarrow> ('s, 'e KeyWrapError, bytes) op" where
  "key_wrap_with input encrypting initial_value crypt_block =
     bindE (rejectE (length initial_value \<noteq> KEY_WRAP_SEMIBLOCK_SIZE) Wrap_InvalidInitialValue) (\<lambda>_.
     if encrypting then
       bindE (rejectE (length input < AES_BLOCK_SIZE \<or> length input mod KEY_WRAP_SEMIBLOCK_SIZE \<noteq> 0)
                Wrap_InvalidDataLength) (\<lambda>_.
       bindE (key_wrap_rounds initial_value input True crypt_block) (\<lambda>(a, r).
       okE (a @ r)))
     else
       bindE (rejectE (length input < AES_BLOCK_SIZE + KEY_WRAP_SEMIBLOCK_SIZE
                        \<or> length input mod KEY_WRAP_SEMIBLOCK_SIZE \<noteq> 0) Wrap_InvalidDataLength) (\<lambda>_.
       bindE (key_wrap_rounds (take KEY_WRAP_SEMIBLOCK_SIZE input) (drop KEY_WRAP_SEMIBLOCK_SIZE input)
                False crypt_block) (\<lambda>(a, r).
       bindE (rejectE (a \<noteq> initial_value) Wrap_AuthenticationFailed) (\<lambda>_.
       okE r))))"

text \<open>The check of the recovered register and padding, and the truncation to the message.\<close>

definition kwp_open :: "bytes \<Rightarrow> nat \<Rightarrow> bytes \<Rightarrow> bytes \<Rightarrow> 'e KeyWrapError + bytes" where
  "kwp_open alternative_initial_value semiblocks a r =
     (let message_length = unat (u32_from_be (drop 4 a));
          minimum_length = (semiblocks - 1) * KEY_WRAP_SEMIBLOCK_SIZE;
          maximum_length = semiblocks * KEY_WRAP_SEMIBLOCK_SIZE;
          invalid = fold (\<lambda>(index, byte) invalid. invalid \<or> (\<not> index < message_length \<and> byte \<noteq> 0))
            (enumerate 0 r)
            (take 4 a \<noteq> alternative_initial_value \<or> \<not> message_length > minimum_length
              \<or> message_length > maximum_length)
      in bindR (rejectR invalid Wrap_AuthenticationFailed) (\<lambda>_. Inr (take message_length r)))"

definition key_wrap_with_padding_with ::
  "bytes \<Rightarrow> bool \<Rightarrow> bytes \<Rightarrow> (bytes \<Rightarrow> bool \<Rightarrow> ('s, 'e, bytes) op) \<Rightarrow> ('s, 'e KeyWrapError, bytes) op" where
  "key_wrap_with_padding_with input encrypting alternative_initial_value crypt_block =
     bindE (rejectE (length alternative_initial_value \<noteq> 4) Wrap_InvalidInitialValue) (\<lambda>_.
     if encrypting then
       bindE (rejectE (input = [] \<or> length input > 2 ^ 32 - 1) Wrap_InputTooLong) (\<lambda>_.
       let semiblocks = div_ceil (length input) KEY_WRAP_SEMIBLOCK_SIZE;
           a = alternative_initial_value @ u32_be (word_of_nat (length input));
           r = resize (semiblocks * KEY_WRAP_SEMIBLOCK_SIZE) 0 input
       in if semiblocks = 1 then
            wrap_block crypt_block (a @ r) True
          else
            bindE (key_wrap_rounds a r True crypt_block) (\<lambda>(a, r). okE (a @ r)))
     else
       bindE (rejectE (length input < AES_BLOCK_SIZE \<or> length input mod KEY_WRAP_SEMIBLOCK_SIZE \<noteq> 0)
                Wrap_InvalidDataLength) (\<lambda>_.
       let semiblocks = length input div KEY_WRAP_SEMIBLOCK_SIZE - 1 in
       bindE (if semiblocks = 1 then
                bindE (wrap_block crypt_block input False) (\<lambda>transformed.
                okE (take KEY_WRAP_SEMIBLOCK_SIZE transformed, drop KEY_WRAP_SEMIBLOCK_SIZE transformed))
              else
                key_wrap_rounds (take KEY_WRAP_SEMIBLOCK_SIZE input) (drop KEY_WRAP_SEMIBLOCK_SIZE input)
                  False crypt_block) (\<lambda>(a, r).
       liftE (kwp_open alternative_initial_value semiblocks a r))))"


section \<open>The rounds and their inverse\<close>

text \<open>The steps over a block permutation, without the callback.\<close>

definition wrap_step_spec :: "(bytes \<Rightarrow> bytes) \<Rightarrow> nat \<Rightarrow> nat \<times> nat \<Rightarrow> bytes \<times> bytes \<Rightarrow> bytes \<times> bytes" where
  "wrap_step_spec E m = (\<lambda>(round, index) (a, r).
     let b = E (a @ slice_range (index * 8) (index * 8 + 8) r)
     in (xor_bytes (take 8 b) (u64_be (wrap_counter m round index)), copy_at (index * 8) (drop 8 b) r))"

definition unwrap_step_spec :: "(bytes \<Rightarrow> bytes) \<Rightarrow> nat \<Rightarrow> nat \<times> nat \<Rightarrow> bytes \<times> bytes \<Rightarrow> bytes \<times> bytes" where
  "unwrap_step_spec D m = (\<lambda>(round, index) (a, r).
     let b = D (xor_bytes a (u64_be (wrap_counter m round index)) @ slice_range (index * 8) (index * 8 + 8) r)
     in (take 8 b, copy_at (index * 8) (drop 8 b) r))"

definition wrap_schedule :: "nat \<Rightarrow> (nat \<times> nat) list" where
  "wrap_schedule m = concat (map (\<lambda>round. map (Pair round) [0..<m]) [0..<6])"

definition registers :: "nat \<Rightarrow> bytes \<times> bytes \<Rightarrow> bool" where
  "registers m st \<longleftrightarrow> length (fst st) = 8 \<and> length (snd st) = 8 * m"

lemma wrap_schedule_index: "p \<in> set (wrap_schedule m) \<Longrightarrow> snd p < m"
  by (auto simp: wrap_schedule_def)

lemma rev_concat_map_pairs:
  "concat (map (\<lambda>x. map (Pair x) (rev ys)) (rev xs)) = rev (concat (map (\<lambda>x. map (Pair x) ys) xs))"
  by (induction xs) (simp_all add: rev_map)

lemma unwrap_schedule:
  "concat (map (\<lambda>round. map (Pair round) (rev [0..<m])) (rev [0..<6])) = rev (wrap_schedule m)"
  unfolding wrap_schedule_def by (rule rev_concat_map_pairs)

lemma length_semiblock: "index < m \<Longrightarrow> length r = 8 * m \<Longrightarrow> length (slice_range (index * 8) (index * 8 + 8) r) = 8"
  by simp

lemma wrap_block_returns:
  "returns (cb b d) c \<Longrightarrow> length c = 16 \<Longrightarrow> returns (wrap_block cb b d) c"
  unfolding wrap_block_def AES_BLOCK_SIZE_def
  by (erule returns_bindE [OF returns_map_errE]) (simp add: returns_okE)

lemma wrap_step_keeps:
  "keeps_len 16 E \<Longrightarrow> snd p < m \<Longrightarrow> registers m st \<Longrightarrow> registers m (wrap_step_spec E m p st)"
  by (cases p; cases st)
     (auto simp: wrap_step_spec_def registers_def Let_def length_splice length_semiblock keeps_lenD)

lemma unwrap_step_keeps:
  "keeps_len 16 D \<Longrightarrow> snd p < m \<Longrightarrow> registers m st \<Longrightarrow> registers m (unwrap_step_spec D m p st)"
  by (cases p; cases st)
     (auto simp: unwrap_step_spec_def registers_def Let_def length_splice length_semiblock keeps_lenD)

lemma wrap_step_returns:
  assumes "ecb_callback 16 cb E D" "keeps_len 16 E" "snd p < m" "registers m st"
  shows "returns (wrap_step cb m p st) (wrap_step_spec E m p st)"
proof -
  obtain round index a r where p: "p = (round, index)" "st = (a, r)" by (cases p; cases st) auto
  let ?b = "a @ slice_range (index * 8) (index * 8 + 8) r"
  have b: "length ?b = 16" "length (E ?b) = 16"
    using assms p by (auto simp: registers_def length_semiblock intro: keeps_lenD)
  have r: "returns (wrap_block cb ?b True) (E ?b)"
    using b ecb_callback_block(1) [OF assms(1) _ b(1)] by (simp add: wrap_block_returns)
  have hi: "(index + 1) * 8 = index * 8 + 8" by simp
  show ?thesis
    unfolding wrap_step_def wrap_step_spec_def p prod.case Let_def KEY_WRAP_SEMIBLOCK_SIZE_def hi
    by (rule returns_bindE [OF r]) (simp add: b xor_into_covered returns_okE)
qed

lemma unwrap_step_returns:
  assumes "ecb_callback 16 cb E D" "keeps_len 16 D" "snd p < m" "registers m st"
  shows "returns (unwrap_step cb m p st) (unwrap_step_spec D m p st)"
proof -
  obtain round index a r where p: "p = (round, index)" "st = (a, r)" by (cases p; cases st) auto
  let ?t = "u64_be (wrap_counter m round index)"
  let ?b = "xor_bytes a ?t @ slice_range (index * 8) (index * 8 + 8) r"
  have a: "length a = 8" using assms p by (simp add: registers_def)
  have b: "length ?b = 16" "length (D ?b) = 16"
    using assms p by (auto simp: registers_def length_semiblock intro: keeps_lenD)
  have r: "returns (wrap_block cb ?b False) (D ?b)"
    using b ecb_callback_block(2) [OF assms(1) _ b(1)] by (simp add: wrap_block_returns)
  have hi: "(index + 1) * 8 = index * 8 + 8" "xor_into a ?t = xor_bytes a ?t"
    by (simp_all add: xor_into_covered a)
  show ?thesis
    unfolding unwrap_step_def unwrap_step_spec_def p prod.case Let_def KEY_WRAP_SEMIBLOCK_SIZE_def hi
    by (rule returns_bindE [OF r]) (simp add: b returns_okE)
qed

lemma unwrap_wrap_step:
  assumes "block_perm 16 E D" "snd p < m" "registers m st"
  shows "unwrap_step_spec D m p (wrap_step_spec E m p st) = st"
proof -
  obtain round index a r where p: "p = (round, index)" "st = (a, r)" by (cases p; cases st) auto
  let ?s = "slice_range (index * 8) (index * 8 + 8) r"
  let ?b = "E (a @ ?s)"
  have l: "length (a @ ?s) = 16" "index * 8 + 8 \<le> length r" "length a = 8"
    using assms p by (auto simp: registers_def length_semiblock)
  note E = block_permD [OF assms(1) l(1)]
  have "copy_at (index * 8) ?s (copy_at (index * 8) (drop 8 ?b) r) = r"
    using l E by (subst splice_splice_same) (auto simp: splice_slice_id)
  then show ?thesis
    using l E
    by (simp add: p wrap_step_spec_def unwrap_step_spec_def Let_def xor_bytes_involution slice_splice_same)
qed

lemma wrap_unwrap_step:
  assumes "block_perm 16 D E" "snd p < m" "registers m st"
  shows "wrap_step_spec E m p (unwrap_step_spec D m p st) = st"
proof -
  obtain round index a r where p: "p = (round, index)" "st = (a, r)" by (cases p; cases st) auto
  let ?s = "slice_range (index * 8) (index * 8 + 8) r" and ?t = "u64_be (wrap_counter m round index)"
  let ?b = "D (xor_bytes a ?t @ ?s)"
  have l: "length (xor_bytes a ?t @ ?s) = 16" "index * 8 + 8 \<le> length r" "length a = 8"
    using assms p by (auto simp: registers_def length_semiblock)
  note D = block_permD [OF assms(1) l(1)]
  have "copy_at (index * 8) ?s (copy_at (index * 8) (drop 8 ?b) r) = r"
    using l D by (subst splice_splice_same) (auto simp: splice_slice_id)
  then show ?thesis
    using l D
    by (simp add: p wrap_step_spec_def unwrap_step_spec_def Let_def xor_bytes_involution slice_splice_same)
qed

definition wrap_rounds_spec :: "(bytes \<Rightarrow> bytes) \<Rightarrow> nat \<Rightarrow> bytes \<times> bytes \<Rightarrow> bytes \<times> bytes" where
  "wrap_rounds_spec E m = fold (wrap_step_spec E m) (wrap_schedule m)"

definition unwrap_rounds_spec :: "(bytes \<Rightarrow> bytes) \<Rightarrow> nat \<Rightarrow> bytes \<times> bytes \<Rightarrow> bytes \<times> bytes" where
  "unwrap_rounds_spec D m = fold (unwrap_step_spec D m) (rev (wrap_schedule m))"

lemma key_wrap_rounds_encrypt:
  assumes "ecb_callback 16 cb E D" "keeps_len 16 E" "registers m (a, r)"
  shows "returns (key_wrap_rounds a r True cb) (wrap_rounds_spec E m (a, r))"
    and "registers m (wrap_rounds_spec E m (a, r))"
proof -
  have m: "length r div 8 = m" using assms(3) by (simp add: registers_def)
  have "returns (for_each (wrap_schedule m) (wrap_step cb m) (a, r)) (wrap_rounds_spec E m (a, r))
      \<and> registers m (wrap_rounds_spec E m (a, r))"
    unfolding wrap_rounds_spec_def using assms
    by (intro returns_for_each) (auto intro: wrap_step_returns wrap_step_keeps wrap_schedule_index)
  then show "returns (key_wrap_rounds a r True cb) (wrap_rounds_spec E m (a, r))"
    "registers m (wrap_rounds_spec E m (a, r))"
    by (simp_all add: key_wrap_rounds_def KEY_WRAP_SEMIBLOCK_SIZE_def m Let_def
        for_each_nested [of _ "\<lambda>_. [0..<m]" "wrap_step cb m"] wrap_schedule_def)
qed

lemma key_wrap_rounds_decrypt:
  assumes "ecb_callback 16 cb E D" "keeps_len 16 D" "registers m (a, r)"
  shows "returns (key_wrap_rounds a r False cb) (unwrap_rounds_spec D m (a, r))"
    and "registers m (unwrap_rounds_spec D m (a, r))"
proof -
  have m: "length r div 8 = m" using assms(3) by (simp add: registers_def)
  have "returns (for_each (rev (wrap_schedule m)) (unwrap_step cb m) (a, r)) (unwrap_rounds_spec D m (a, r))
      \<and> registers m (unwrap_rounds_spec D m (a, r))"
    unfolding unwrap_rounds_spec_def using assms
    by (intro returns_for_each) (auto intro: unwrap_step_returns unwrap_step_keeps wrap_schedule_index)
  then show "returns (key_wrap_rounds a r False cb) (unwrap_rounds_spec D m (a, r))"
    "registers m (unwrap_rounds_spec D m (a, r))"
    by (simp_all add: key_wrap_rounds_def KEY_WRAP_SEMIBLOCK_SIZE_def m Let_def
        for_each_nested [of _ "\<lambda>_. rev [0..<m]" "unwrap_step cb m"] unwrap_schedule)
qed

text \<open>Running the steps back over the reversed schedule undoes them, in both orders.\<close>

lemma unwrap_wrap_rounds:
  assumes "block_perm 16 E D" "registers m st"
  shows "unwrap_rounds_spec D m (wrap_rounds_spec E m st) = st"
  unfolding unwrap_rounds_spec_def wrap_rounds_spec_def using assms(2)
  by (rule fold_rev_inverse [where Inv = "registers m"])
     (auto intro!: wrap_step_keeps unwrap_wrap_step assms block_perm_keeps_len [OF assms(1)] wrap_schedule_index)

lemma wrap_unwrap_rounds:
  assumes "block_perm 16 D E" "registers m st"
  shows "wrap_rounds_spec E m (unwrap_rounds_spec D m st) = st"
proof -
  have "fold (wrap_step_spec E m) (rev (rev (wrap_schedule m))) (fold (unwrap_step_spec D m) (rev (wrap_schedule m)) st) = st"
    using assms(2)
    by (rule fold_rev_inverse [where Inv = "registers m"])
       (auto intro!: unwrap_step_keeps wrap_unwrap_step assms block_perm_keeps_len [OF assms(1)] wrap_schedule_index)
  then show ?thesis by (simp add: unwrap_rounds_spec_def wrap_rounds_spec_def)
qed



section \<open>Wrapping and unwrapping a key\<close>

text \<open>Both directions as functions of the block permutation.\<close>

definition key_wrap_spec :: "(bytes \<Rightarrow> bytes) \<Rightarrow> bytes \<Rightarrow> bytes \<Rightarrow> bytes" where
  "key_wrap_spec E iv x = (let (a, r) = wrap_rounds_spec E (length x div 8) (iv, x) in a @ r)"

definition key_unwrap_spec :: "(bytes \<Rightarrow> bytes) \<Rightarrow> bytes \<Rightarrow> bytes \<times> bytes" where
  "key_unwrap_spec D y = unwrap_rounds_spec D (length y div 8 - 1) (take 8 y, drop 8 y)"

lemma registers_split:
  assumes "8 dvd length x" "length iv = 8"
  shows "registers (length x div 8) (iv, x)"
  using assms by (simp add: registers_def)

lemma registers_input:
  assumes "8 dvd length y" "8 \<le> length y"
  shows "registers (length y div 8 - 1) (take 8 y, drop 8 y)"
  using assms by (auto simp: registers_def diff_mult_distrib2)

lemma wrap_rounds_keep: "keeps_len 16 E \<Longrightarrow> registers m st \<Longrightarrow> registers m (wrap_rounds_spec E m st)"
  unfolding wrap_rounds_spec_def
  by (rule fold_invariant [where Q = "\<lambda>p. snd p < m"]) (auto intro: wrap_step_keeps wrap_schedule_index)

lemma unwrap_rounds_keep: "keeps_len 16 D \<Longrightarrow> registers m st \<Longrightarrow> registers m (unwrap_rounds_spec D m st)"
  unfolding unwrap_rounds_spec_def
  by (rule fold_invariant [where Q = "\<lambda>p. snd p < m"]) (auto intro: unwrap_step_keeps wrap_schedule_index)

lemma length_key_wrap_spec:
  assumes "8 dvd length x" "length iv = 8" "keeps_len 16 E"
  shows "length (key_wrap_spec E iv x) = length x + 8"
  using wrap_rounds_keep [OF assms(3) registers_split [OF assms(1,2)]] assms(1)
  by (auto simp: key_wrap_spec_def registers_def split: prod.splits)

lemma key_unwrap_wrap:
  assumes "8 dvd length x" "length iv = 8" "block_perm 16 E D"
  shows "key_unwrap_spec D (key_wrap_spec E iv x) = (iv, x)"
proof -
  let ?m = "length x div 8"
  obtain a r where ar: "wrap_rounds_spec E ?m (iv, x) = (a, r)" by force
  have "registers ?m (a, r)"
    using wrap_rounds_keep [OF block_perm_keeps_len [OF assms(3)] registers_split [OF assms(1,2)]] ar by simp
  moreover have "unwrap_rounds_spec D ?m (a, r) = (iv, x)"
    using unwrap_wrap_rounds [OF assms(3) registers_split [OF assms(1,2)]] ar by simp
  ultimately show ?thesis
    by (simp add: key_wrap_spec_def key_unwrap_spec_def ar registers_def)
qed

lemma key_wrap_unwrap:
  assumes "8 dvd length y" "8 \<le> length y" "block_perm 16 E D" "key_unwrap_spec D y = (iv, x)"
  shows "key_wrap_spec E iv x = y" "length iv = 8" "length y = length x + 8"
proof -
  let ?m = "length y div 8 - 1"
  note sym = block_perm_sym [OF assms(3)]
  note reg = registers_input [OF assms(1,2)]
  have "registers ?m (iv, x)"
    using unwrap_rounds_keep [OF block_perm_keeps_len [OF sym] reg] assms(4) by (simp add: key_unwrap_spec_def)
  then have "length x div 8 = ?m" "length iv = 8" "length x = 8 * ?m" by (simp_all add: registers_def)
  moreover have "wrap_rounds_spec E ?m (iv, x) = (take 8 y, drop 8 y)"
    using wrap_unwrap_rounds [OF sym reg] assms(4) by (simp add: key_unwrap_spec_def)
  ultimately show "key_wrap_spec E iv x = y" "length iv = 8" "length y = length x + 8"
    using assms(1,2) by (auto simp: key_wrap_spec_def diff_mult_distrib2)
qed

lemma key_wrap_with_encrypt:
  assumes "ecb_callback 16 cb E D" "block_perm 16 E D" "length iv = 8" "16 \<le> length x" "8 dvd length x"
  shows "returns (key_wrap_with x True iv cb) (key_wrap_spec E iv x)"
proof -
  have "returns (key_wrap_rounds iv x True cb) (wrap_rounds_spec E (length x div 8) (iv, x))"
    using assms by (intro key_wrap_rounds_encrypt registers_split block_perm_keeps_len)
  then have "returns (bindE (key_wrap_rounds iv x True cb) (\<lambda>(a, r). okE (a @ r))) (key_wrap_spec E iv x)"
    by (rule returns_bindE) (auto simp: key_wrap_spec_def returns_okE split: prod.splits)
  then show ?thesis
    using assms by (simp add: key_wrap_with_def KEY_WRAP_SEMIBLOCK_SIZE_def AES_BLOCK_SIZE_def rejectE_def dvd_eq_mod_eq_0)
qed

lemma key_wrap_with_decrypt:
  assumes "ecb_callback 16 cb E D" "block_perm 16 E D" "length iv = 8" "24 \<le> length y" "8 dvd length y"
    "key_unwrap_spec D y = (a, x)"
  shows "a = iv \<Longrightarrow> returns (key_wrap_with y False iv cb) x"
    and "a \<noteq> iv \<Longrightarrow> fails (key_wrap_with y False iv cb) Wrap_AuthenticationFailed"
proof -
  have r: "returns (key_wrap_rounds (take 8 y) (drop 8 y) False cb) (a, x)"
    using key_wrap_rounds_decrypt(1) [OF assms(1) block_perm_keeps_len [OF block_perm_sym [OF assms(2)]]
        registers_input [OF assms(5)]] assms(4,6) by (simp add: key_unwrap_spec_def)
  have eq: "key_wrap_with y False iv cb =
      bindE (key_wrap_rounds (take 8 y) (drop 8 y) False cb) (\<lambda>(a, r).
        bindE (rejectE (a \<noteq> iv) Wrap_AuthenticationFailed) (\<lambda>_. okE r))"
    using assms by (simp add: key_wrap_with_def KEY_WRAP_SEMIBLOCK_SIZE_def AES_BLOCK_SIZE_def rejectE_def dvd_eq_mod_eq_0)
  show "a = iv \<Longrightarrow> returns (key_wrap_with y False iv cb) x"
    unfolding eq by (rule returns_bindE [OF r]) (simp add: returns_okE)
  show "a \<noteq> iv \<Longrightarrow> fails (key_wrap_with y False iv cb) Wrap_AuthenticationFailed"
    unfolding eq by (rule fails_bindE_right [OF r]) simp
qed

interpretation key_wrap: invertible_op
  "\<lambda>(iv, cb, E, D) x. length iv = 8 \<and> 16 \<le> length x \<and> 8 dvd length x \<and> block_perm 16 E D \<and> ecb_callback 16 cb E D"
  "\<lambda>(iv, cb, E, D) x. key_wrap_with x True iv cb"
  "\<lambda>(iv, cb, E, D) y. key_wrap_with y False iv cb"
  "\<lambda>_ len. len + 8"
proof (unfold_locales, goal_cases)
  case (1 c x)
  obtain iv cb E D where c: "c = (iv, cb, E, D)" by (cases c)
  with 1 have a: "length iv = 8" "16 \<le> length x" "8 dvd length x" "block_perm 16 E D" "ecb_callback 16 cb E D"
    by simp_all
  have l: "length (key_wrap_spec E iv x) = length x + 8"
    using a by (intro length_key_wrap_spec block_perm_keeps_len)
  moreover have "returns (key_wrap_with (key_wrap_spec E iv x) False iv cb) x"
    using a l by (intro key_wrap_with_decrypt(1) [OF a(5,4,1)]) (auto simp: key_unwrap_wrap)
  ultimately show ?case using a by (auto simp: c intro: key_wrap_with_encrypt)
qed


section \<open>Key wrap with padding\<close>

lemma kwp_semiblocks:
  assumes "x \<noteq> []" "m = div_ceil (length x) 8"
  shows "1 \<le> m" "(m - 1) * 8 < length x" "length x \<le> m * 8"
  using div_ceil_bounds [of 8 "length x"] assms by (cases m; auto)+

lemma kwp_open_iff:
  assumes "length a = 8" "length r = 8 * m"
  shows "kwp_open aiv m a r = Inr x \<longleftrightarrow>
    take 4 a = aiv \<and> (m - 1) * 8 < unat (u32_from_be (drop 4 a)) \<and> unat (u32_from_be (drop 4 a)) \<le> m * 8
    \<and> x = take (unat (u32_from_be (drop 4 a))) r
    \<and> r = x @ replicate (length r - length x) 0"
proof -
  let ?l = "unat (u32_from_be (drop 4 a))"
  have scan: "(\<exists>(i, b) \<in> set (enumerate 0 r). \<not> i < ?l \<and> b \<noteq> 0) \<longleftrightarrow> drop ?l r \<noteq> replicate (length r - ?l) 0"
  proof -
    have "(\<exists>(i, b) \<in> set (enumerate 0 r). \<not> i < ?l \<and> b \<noteq> 0) \<longleftrightarrow> (\<exists>i < length r. \<not> i < ?l \<and> r ! i \<noteq> 0)"
      by (force simp: in_set_enumerate_eq)
    also have "\<dots> \<longleftrightarrow> (\<exists>j < length r - ?l. r ! (?l + j) \<noteq> 0)"
    proof
      assume "\<exists>i < length r. \<not> i < ?l \<and> r ! i \<noteq> 0"
      then obtain i where "i < length r" "\<not> i < ?l" "r ! i \<noteq> 0" by blast
      then show "\<exists>j < length r - ?l. r ! (?l + j) \<noteq> 0" by (intro exI [of _ "i - ?l"]) auto
    next
      assume "\<exists>j < length r - ?l. r ! (?l + j) \<noteq> 0"
      then obtain j where "j < length r - ?l" "r ! (?l + j) \<noteq> 0" by blast
      then show "\<exists>i < length r. \<not> i < ?l \<and> r ! i \<noteq> 0" by (intro exI [of _ "?l + j"]) auto
    qed
    also have "\<dots> \<longleftrightarrow> drop ?l r \<noteq> replicate (length r - ?l) 0"
      by (auto simp: list_eq_iff_nth_eq)
    finally show ?thesis .
  qed
  have split: "drop ?l r = replicate (length r - ?l) 0 \<longleftrightarrow> r = take ?l r @ replicate (length r - length (take ?l r)) 0"
    if "?l \<le> length r"
  proof -
    have "length (take ?l r) = ?l" using that by simp
    moreover have "r = take ?l r @ Z \<longleftrightarrow> take ?l r @ drop ?l r = take ?l r @ Z" for Z
      by (simp only: append_take_drop_id)
    ultimately show ?thesis by (simp only: same_append_eq)
  qed
  have "kwp_open aiv m a r = Inr x \<longleftrightarrow>
      \<not> (take 4 a \<noteq> aiv \<or> \<not> (m - 1) * 8 < ?l \<or> m * 8 < ?l \<or> drop ?l r \<noteq> replicate (length r - ?l) 0)
      \<and> x = take ?l r"
    unfolding kwp_open_def Let_def KEY_WRAP_SEMIBLOCK_SIZE_def fold_or scan
    by (auto simp: rejectR_def)
  then show ?thesis using split assms by (auto simp: linorder_not_less)
qed

lemma kwp_open_padded:
  assumes "x \<noteq> []" "length x < 2 ^ 32" "length aiv = 4" "m = div_ceil (length x) 8"
  shows "kwp_open aiv m (aiv @ u32_be (word_of_nat (length x))) (resize (m * 8) 0 x) = Inr x"
proof -
  have "unat (word_of_nat (length x) :: u32) = length x" using assms(2) by (simp add: unat_of_nat)
  then show ?thesis
    using kwp_semiblocks [OF assms(1,4)] assms(3)
    by (simp add: kwp_open_iff resize_extend)
qed

text \<open>What the padded wrap computes, as a function of the block permutation.\<close>

definition kwp_registers :: "bytes \<Rightarrow> bytes \<Rightarrow> bytes \<times> bytes" where
  "kwp_registers aiv x =
     (aiv @ u32_be (word_of_nat (length x)), resize (div_ceil (length x) 8 * 8) 0 x)"

definition kwp_spec :: "(bytes \<Rightarrow> bytes) \<Rightarrow> bytes \<Rightarrow> bytes \<Rightarrow> bytes" where
  "kwp_spec E aiv x = (case kwp_registers aiv x of (a, r) \<Rightarrow>
     if length r = 8 then E (a @ r) else key_wrap_spec E a r)"

lemma kwp_encrypt:
  assumes "ecb_callback 16 cb E D" "block_perm 16 E D" "length aiv = 4" "x \<noteq> []" "length x < 2 ^ 32"
  shows "returns (key_wrap_with_padding_with x True aiv cb) (kwp_spec E aiv x)"
    and "length (kwp_spec E aiv x) = div_ceil (length x) 8 * 8 + 8"
proof -
  define m where "m = div_ceil (length x) 8"
  define a r where "a = aiv @ u32_be (word_of_nat (length x))" and "r = resize (m * 8) 0 x"
  have ar: "kwp_registers aiv x = (a, r)" by (simp add: kwp_registers_def a_def r_def m_def)
  have len: "length a = 8" "length r = m * 8" "1 \<le> m"
    using assms kwp_semiblocks [OF assms(4) m_def] by (simp_all add: a_def r_def)
  have eq: "key_wrap_with_padding_with x True aiv cb =
      (if m = 1 then wrap_block cb (a @ r) True
       else bindE (key_wrap_rounds a r True cb) (\<lambda>(a, r). okE (a @ r)))"
    using assms by (simp add: key_wrap_with_padding_with_def KEY_WRAP_SEMIBLOCK_SIZE_def rejectE_def Let_def
        m_def a_def r_def)
  note E = block_perm_keeps_len [OF assms(2)]
  show "length (kwp_spec E aiv x) = div_ceil (length x) 8 * 8 + 8"
    using len E by (simp add: kwp_spec_def ar length_key_wrap_spec keeps_lenD flip: m_def)
  show "returns (key_wrap_with_padding_with x True aiv cb) (kwp_spec E aiv x)"
  proof (cases "m = 1")
    case True
    then have b: "length (a @ r) = 16" using len by simp
    have "returns (wrap_block cb (a @ r) True) (E (a @ r))"
      using ecb_callback_block(1) [OF assms(1) _ b] keeps_lenD [OF E b] by (simp add: wrap_block_returns)
    then show ?thesis using True len by (simp add: eq kwp_spec_def ar)
  next
    case False
    have r: "returns (key_wrap_rounds a r True cb) (wrap_rounds_spec E m (a, r))"
      using len by (intro key_wrap_rounds_encrypt [OF assms(1) E]) (simp add: registers_def)
    have "returns (bindE (key_wrap_rounds a r True cb) (\<lambda>(a, r). okE (a @ r))) (key_wrap_spec E a r)"
      by (rule returns_bindE [OF r]) (simp add: key_wrap_spec_def len returns_okE split: prod.splits)
    then show ?thesis using False len by (simp add: eq kwp_spec_def ar)
  qed
qed

text \<open>The registers that the unwrap recovers before it checks them.\<close>

definition kwp_recovered :: "(bytes \<Rightarrow> bytes) \<Rightarrow> bytes \<Rightarrow> bytes \<times> bytes" where
  "kwp_recovered D y =
     (if length y = 16 then (take 8 (D y), drop 8 (D y)) else key_unwrap_spec D y)"

lemma kwp_decrypt:
  fixes cb :: "bytes \<Rightarrow> bool \<Rightarrow> ('s, 'e, bytes) op"
  assumes "ecb_callback 16 cb E D" "block_perm 16 E D" "length aiv = 4" "16 \<le> length y" "8 dvd length y"
    "kwp_recovered D y = (a, r)"
  shows "returns (key_wrap_with_padding_with y False aiv cb) x
      \<longleftrightarrow> (kwp_open aiv (length y div 8 - 1) a r :: 'e KeyWrapError + bytes) = Inr x"
    and "length a = 8" "length r = 8 * (length y div 8 - 1)"
proof -
  let ?m = "length y div 8 - 1"
  note D = block_perm_keeps_len [OF block_perm_sym [OF assms(2)]]
  have y: "8 \<le> length y" using assms(4) by simp
  note reg = registers_input [OF assms(5) y]
  let ?rec = "if ?m = 1 then bindE (wrap_block cb y False) (\<lambda>t. okE (take 8 t, drop 8 t))
      else key_wrap_rounds (take 8 y) (drop 8 y) False cb"
  have one: "?m = 1 \<longleftrightarrow> length y = 16" using assms(4,5) by auto
  have rec: "returns ?rec (a, r) \<and> registers ?m (a, r)"
  proof (cases "length y = 16")
    case True
    then have "returns (wrap_block cb y False) (D y)"
      using ecb_callback_block(2) [OF assms(1) _ True] keeps_lenD [OF D True] by (simp add: wrap_block_returns)
    then have "returns (bindE (wrap_block cb y False) (\<lambda>t. okE (take 8 t, drop 8 t))) (take 8 (D y), drop 8 (D y))"
      by (rule returns_bindE) (simp add: returns_okE)
    then show ?thesis using True one assms(6) keeps_lenD [OF D True] by (auto simp: kwp_recovered_def registers_def)
  next
    case False
    then show ?thesis
      using key_wrap_rounds_decrypt [OF assms(1) D reg] one assms(6)
      by (simp add: kwp_recovered_def key_unwrap_spec_def)
  qed
  then show "length a = 8" "length r = 8 * ?m" by (simp_all add: registers_def)
  have eq: "key_wrap_with_padding_with y False aiv cb
      = bindE ?rec (\<lambda>ar. liftE (case ar of (a, r) \<Rightarrow> kwp_open aiv ?m a r))"
    using assms(3-5)
    by (simp add: key_wrap_with_padding_with_def KEY_WRAP_SEMIBLOCK_SIZE_def AES_BLOCK_SIZE_def rejectE_def
        Let_def dvd_eq_mod_eq_0 prod.case_distrib [of liftE])
  show "returns (key_wrap_with_padding_with y False aiv cb) x
      \<longleftrightarrow> (kwp_open aiv ?m a r :: 'e KeyWrapError + bytes) = Inr x"
    unfolding eq returns_bind_liftE [OF conjunct1 [OF rec]] by simp
qed


lemma kwp_recovered_spec:
  assumes "block_perm 16 E D" "length aiv = 4" "x \<noteq> []"
  shows "kwp_recovered D (kwp_spec E aiv x) = kwp_registers aiv x"
proof -
  define m where "m = div_ceil (length x) 8"
  obtain a r where ar: "kwp_registers aiv x = (a, r)" by force
  have len: "length a = 8" "length r = m * 8" "1 \<le> m"
    using assms(2) ar kwp_semiblocks [OF assms(3) m_def] by (auto simp: kwp_registers_def m_def)
  show ?thesis
  proof (cases "m = 1")
    case True
    then have b: "length (a @ r) = 16" using len by simp
    show ?thesis using True len block_permD [OF assms(1) b] by (simp add: kwp_spec_def ar kwp_recovered_def)
  next
    case False
    moreover have "length (key_wrap_spec E a r) = length r + 8"
      using len by (intro length_key_wrap_spec block_perm_keeps_len [OF assms(1)]) auto
    ultimately show ?thesis
      using len by (simp add: kwp_spec_def ar kwp_recovered_def key_unwrap_wrap [OF _ _ assms(1)])
  qed
qed

lemma kwp_spec_recovered:
  assumes "block_perm 16 E D" "16 \<le> length y" "8 dvd length y" "kwp_recovered D y = kwp_registers aiv x"
  shows "kwp_spec E aiv x = y"
proof -
  obtain a r where ar: "kwp_registers aiv x = (a, r)" by force
  show ?thesis
  proof (cases "length y = 16")
    case True
    note D = block_permD [OF block_perm_sym [OF assms(1)] True]
    have "a = take 8 (D y)" "r = drop 8 (D y)" using assms(4) True by (simp_all add: kwp_recovered_def ar)
    then show ?thesis using D by (simp add: kwp_spec_def ar)
  next
    case False
    then have "key_unwrap_spec D y = (a, r)" using assms(4) by (simp add: kwp_recovered_def ar)
    then have "key_wrap_spec E a r = y" "length y = length r + 8"
      using key_wrap_unwrap [OF assms(3) _ assms(1)] assms(2) by simp_all
    with False show ?thesis by (simp add: kwp_spec_def ar)
  qed
qed

lemma kwp_open_registers:
  assumes "length a = 8" "length r = 8 * m" "kwp_open aiv m a r = Inr x"
  shows "kwp_registers aiv x = (a, r)" "x \<noteq> []" "length x < 2 ^ 32"
proof -
  let ?l = "unat (u32_from_be (drop 4 a))"
  have o: "take 4 a = aiv" "(m - 1) * 8 < ?l" "?l \<le> m * 8" "x = take ?l r"
    "r = x @ replicate (length r - length x) 0"
    using assms(3) unfolding kwp_open_iff [OF assms(1,2)] by blast+
  have l: "length x = ?l" using o(3,4) assms(2) by simp
  then show "x \<noteq> []" "length x < 2 ^ 32"
    using o(2) unat_u_bounds(2) [of "u32_from_be (drop 4 a)"] by auto
  have "u32_be (word_of_nat (length x)) = drop 4 a"
    using assms(1) by (simp add: l u32_be_u32_from_be)
  then have a: "aiv @ u32_be (word_of_nat (length x)) = a" using o(1) by (metis append_take_drop_id)
  have "div_ceil (length x) 8 * 8 < length x + 8" "length x \<le> div_ceil (length x) 8 * 8"
    using div_ceil_bounds [of 8 "length x"] by simp_all
  then have "div_ceil (length x) 8 = m" using o(2,3) l by linarith
  moreover have "resize (m * 8) 0 x = r"
    using o(5) assms(2) l o(3) by (simp add: resize_extend mult.commute)
  ultimately show "kwp_registers aiv x = (a, r)" using a by (simp add: kwp_registers_def)
qed

lemma kwp_unwrap_of_wrap:
  assumes "ecb_callback 16 cb E D" "block_perm 16 E D" "length aiv = 4" "x \<noteq> []" "length x < 2 ^ 32"
  shows "returns (key_wrap_with_padding_with (kwp_spec E aiv x) False aiv cb) x"
proof -
  let ?y = "kwp_spec E aiv x" and ?m = "div_ceil (length x) 8"
  have len: "length ?y = ?m * 8 + 8" using assms by (rule kwp_encrypt(2))
  have m: "1 \<le> ?m" using kwp_semiblocks(1) [OF assms(4) refl] .
  show ?thesis
    using len m kwp_open_padded [OF assms(4,5,3) refl] kwp_recovered_spec [OF assms(2-4)]
    by (subst kwp_decrypt(1) [OF assms(1-3)]) (auto simp: kwp_registers_def)
qed

interpretation kwp: invertible_op
  "\<lambda>(aiv, cb, E, D) x. length aiv = 4 \<and> x \<noteq> [] \<and> length x < 2 ^ 32 \<and> block_perm 16 E D \<and> ecb_callback 16 cb E D"
  "\<lambda>(aiv, cb, E, D) x. key_wrap_with_padding_with x True aiv cb"
  "\<lambda>(aiv, cb, E, D) y. key_wrap_with_padding_with y False aiv cb"
  "\<lambda>_ len. div_ceil len 8 * 8 + 8"
proof (unfold_locales, goal_cases)
  case (1 c x)
  obtain aiv cb E D where c: "c = (aiv, cb, E, D)" by (cases c)
  with 1 have a: "ecb_callback 16 cb E D" "block_perm 16 E D" "length aiv = 4" "x \<noteq> []" "length x < 2 ^ 32"
    by simp_all
  show ?case using kwp_encrypt [OF a] kwp_unwrap_of_wrap [OF a] by (auto simp: c)
qed


section \<open>Properties\<close>

text \<open>
  C1: \<open>key_wrap_with\<close> unwraps exactly what it wraps. Over a block permutation, unwrapping \<open>y\<close>
  returns \<open>x\<close> if and only if \<open>x\<close> is a key of at least two semiblocks and wrapping \<open>x\<close> under the
  same initial value returns \<open>y\<close>: the round trip holds, and no other input passes the check of
  the recovered initial value.
\<close>

theorem key_wrap_exact:
  assumes "ecb_callback 16 cb E D" "block_perm 16 E D" "length iv = 8"
  shows "returns (key_wrap_with y False iv cb) x \<longleftrightarrow>
    16 \<le> length x \<and> 8 dvd length x \<and> returns (key_wrap_with x True iv cb) y"
proof
  assume r: "returns (key_wrap_with y False iv cb) x"
  have len: "24 \<le> length y" "8 dvd length y"
    using r assms(3)
    by (auto simp: key_wrap_with_def KEY_WRAP_SEMIBLOCK_SIZE_def AES_BLOCK_SIZE_def returns_reject_iff)
  obtain a x' where ax: "key_unwrap_spec D y = (a, x')" by force
  note dec = key_wrap_with_decrypt [OF assms len ax]
  have "a = iv" using dec(2) returns_not_fails [OF r] by auto
  then have "x' = x" using returns_unique [OF dec(1) r] by simp
  with \<open>a = iv\<close> have w: "key_wrap_spec E iv x = y" "length y = length x + 8"
    using key_wrap_unwrap [OF len(2) _ assms(2) ax] len by simp_all
  then have "16 \<le> length x" "8 dvd length x" using len by (auto simp: dvd_add_left_iff)
  with w key_wrap_with_encrypt [OF assms] show "16 \<le> length x \<and> 8 dvd length x \<and> returns (key_wrap_with x True iv cb) y"
    by blast
next
  assume "16 \<le> length x \<and> 8 dvd length x \<and> returns (key_wrap_with x True iv cb) y"
  then show "returns (key_wrap_with y False iv cb) x"
    using key_wrap.bwd_of_fwd(1) [of "(iv, cb, E, D)" x y] assms by simp
qed

theorem key_wrap_exact_witness:
  "returns (key_wrap_with (key_wrap_spec sample_E (replicate 8 166) (replicate 16 7)) False (replicate 8 166)
     (sample_cb 16)) (replicate 16 7)"
  by (subst key_wrap_exact [OF ecb_callback_sample block_perm_sample])
     (auto intro!: key_wrap_with_encrypt ecb_callback_sample block_perm_sample)

text \<open>
  C2: the padded key wrap is exact too. For every message of 1 to \<open>2 ^ 32 - 1\<close> bytes, unwrapping
  \<open>y\<close> returns \<open>x\<close> if and only if wrapping \<open>x\<close> returns \<open>y\<close>; the length, the zero padding and the
  alternative initial value are all checked, for the single-block form and for the rounds alike.
\<close>

theorem kwp_exact:
  assumes "ecb_callback 16 cb E D" "block_perm 16 E D" "length aiv = 4"
  shows "returns (key_wrap_with_padding_with y False aiv cb) x \<longleftrightarrow>
    x \<noteq> [] \<and> length x < 2 ^ 32 \<and> returns (key_wrap_with_padding_with x True aiv cb) y"
proof
  assume r: "returns (key_wrap_with_padding_with y False aiv cb) x"
  have len: "16 \<le> length y" "8 dvd length y"
    using r assms(3)
    by (auto simp: key_wrap_with_padding_with_def KEY_WRAP_SEMIBLOCK_SIZE_def AES_BLOCK_SIZE_def returns_reject_iff)
  obtain a r' where ar: "kwp_recovered D y = (a, r')" by force
  note dec = kwp_decrypt [OF assms len ar]
  note x = kwp_open_registers [OF dec(2,3) dec(1) [THEN iffD1, OF r]]
  have "kwp_spec E aiv x = y"
    using x(1) ar by (intro kwp_spec_recovered [OF assms(2) len]) simp
  with x kwp_encrypt(1) [OF assms]
  show "x \<noteq> [] \<and> length x < 2 ^ 32 \<and> returns (key_wrap_with_padding_with x True aiv cb) y" by blast
next
  assume "x \<noteq> [] \<and> length x < 2 ^ 32 \<and> returns (key_wrap_with_padding_with x True aiv cb) y"
  then show "returns (key_wrap_with_padding_with y False aiv cb) x"
    using kwp.bwd_of_fwd(1) [of "(aiv, cb, E, D)" x y] assms by simp
qed

theorem kwp_exact_witness:
  "returns (key_wrap_with_padding_with (kwp_spec sample_E [166, 89, 89, 166] (replicate 20 7)) False
     [166, 89, 89, 166] (sample_cb 16)) (replicate 20 7)"
  by (subst kwp_exact [OF ecb_callback_sample block_perm_sample])
     (auto intro!: kwp_encrypt(1) ecb_callback_sample block_perm_sample)

end
