(* ===== verification/Cmac_Ctr.thy ===== *)
theory Cmac_Ctr
  imports Cbc_Padding
begin

text \<open>
  \<^verbatim>\<open>src/src/software_symmetric.rs\<close>, lines 352 to 504: CMAC over a block operation
  (\<open>cmac_with\<close>) and over one block call and one zero-IV CBC call (\<open>cmac_with_cbc\<close>), and CTR.
  Both CMAC routines are proved equal to one reference definition, hence to each other; the
  subkey doubling is proved to be doubling in the binary field.
\<close>

text \<open>The loop reads \<open>block[index + 1]\<close> before it is overwritten.\<close>

definition cmac_double :: "bytes \<Rightarrow> bytes" where
  "cmac_double block =
     (let carry = drop_bit 7 (block ! 0);
          block = fold (\<lambda>index b. b[index := push_bit 1 (b ! index) OR drop_bit 7 (b ! (index + 1))])
                    [0..<length block - 1] block;
          last = length block - 1;
          block = block[last := push_bit 1 (block ! last)];
          reduction = (if length block = 8 then 0x1b else 0x87 :: byte)
      in block[last := (block ! last) XOR (reduction AND (0 - carry))])"

definition cmac_last_subkey ::
  "nat \<Rightarrow> bytes \<Rightarrow> (bytes \<Rightarrow> ('s, 'e, bytes) op) \<Rightarrow> ('s, 'e BlockCipherModeError, bytes \<times> bool) op" where
  "cmac_last_subkey block_size data encrypt_blocks =
     bindE (rejectE (\<not> (block_size = 8 \<or> block_size = 16)) Mode_InvalidBlockSize) (\<lambda>_.
     bindE (map_errE Mode_BlockOperation (encrypt_blocks (replicate block_size 0))) (\<lambda>encrypted_zero.
     bindE (rejectE (length encrypted_zero \<noteq> block_size) Mode_InvalidBlockOutput) (\<lambda>_.
     let subkey = cmac_double encrypted_zero;
         complete = (data \<noteq> [] \<and> length data mod block_size = 0);
         last_subkey = (if complete then subkey else cmac_double subkey)
     in okE (last_subkey, complete))))"

definition cmac_with_cbc ::
  "nat \<Rightarrow> bytes \<Rightarrow> (bytes \<Rightarrow> ('s, 'e, bytes) op) \<Rightarrow> (bytes \<Rightarrow> ('s, 'e, bytes) op)
     \<Rightarrow> ('s, 'e BlockCipherModeError, bytes) op" where
  "cmac_with_cbc block_size data encrypt_block encrypt_cbc =
     bindE (cmac_last_subkey block_size data encrypt_block) (\<lambda>(last_subkey, complete).
     bindE (ok_orE Mode_InputTooLong
              (checked_add (length data) (if complete then 0 else block_size - length data mod block_size))) (\<lambda>padded_len.
     let input = copy_at 0 data (replicate padded_len 0);
         input = (if complete then input else input[length data := 0x80]);
         input = copy_at (padded_len - block_size)
                   (xor_into (drop (padded_len - block_size) input) last_subkey) input
     in bindE (map_errE Mode_BlockOperation (encrypt_cbc input)) (\<lambda>ciphertext.
        bindE (rejectE (length ciphertext \<noteq> padded_len) Mode_InvalidBlockOutput) (\<lambda>_.
        okE (drop (padded_len - block_size) ciphertext)))))"

text \<open>The block that the loop of \<open>cmac_with\<close> forms before it mixes in the previous state.\<close>

definition cmac_block :: "nat \<Rightarrow> bytes \<Rightarrow> bytes \<Rightarrow> bool \<Rightarrow> nat \<Rightarrow> nat \<Rightarrow> bytes" where
  "cmac_block block_size data last_subkey complete block_count block_index =
     (let start = block_index * block_size;
          available = min (length data - start) block_size;
          block = copy_at 0 (slice_range start (start + available) data) (replicate block_size 0)
      in if block_index + 1 = block_count then
           xor_into (if complete then block else block[available := 0x80]) last_subkey
         else block)"

definition cmac_with ::
  "nat \<Rightarrow> bytes \<Rightarrow> (bytes \<Rightarrow> ('s, 'e, bytes) op) \<Rightarrow> ('s, 'e BlockCipherModeError, bytes) op" where
  "cmac_with block_size data encrypt_blocks =
     bindE (cmac_last_subkey block_size data encrypt_blocks) (\<lambda>(last_subkey, complete).
     let block_count = max 1 (div_ceil (length data) block_size)
     in for_each [0..<block_count] (\<lambda>block_index state.
          bindE (map_errE Mode_BlockOperation
                   (encrypt_blocks (xor_into
                      (cmac_block block_size data last_subkey complete block_count block_index) state))) (\<lambda>encrypted.
          bindE (rejectE (length encrypted \<noteq> block_size) Mode_InvalidBlockOutput) (\<lambda>_.
          okE encrypted)))
        (replicate block_size 0))"

text \<open>The counter of the block at \<open>offset\<close>: the low \<open>counter_bits\<close> bits count, the rest is fixed.\<close>

definition ctr_counter :: "nat \<Rightarrow> u128 \<Rightarrow> nat \<Rightarrow> u128" where
  "ctr_counter counter_bits initial offset =
     (let mask = (if counter_bits = 128 then NOT 0 else push_bit counter_bits 1 - 1);
          fixed = initial AND NOT mask;
          initial_counter = initial AND mask
      in fixed OR ((initial_counter + word_of_nat offset) AND mask))"

definition ctr_initial :: "bytes \<Rightarrow> u128" where
  "ctr_initial counter_block = u128_from_be (replicate (16 - length counter_block) 0 @ counter_block)"

definition ctr_block :: "nat \<Rightarrow> bytes \<Rightarrow> nat \<Rightarrow> bytes" where
  "ctr_block counter_bits counter_block offset =
     drop (16 - length counter_block) (u128_be (ctr_counter counter_bits (ctr_initial counter_block) offset))"

definition ctr_with ::
  "nat \<Rightarrow> bytes \<Rightarrow> bytes \<Rightarrow> (bytes \<Rightarrow> ('s, 'e, bytes) op) \<Rightarrow> ('s, 'e BlockCipherModeError, bytes) op" where
  "ctr_with counter_bits counter_block input encrypt_blocks =
     bindE (rejectE (counter_block = [] \<or> length counter_block > 16) Mode_InvalidBlockSize) (\<lambda>_.
     let block_size = length counter_block in
     bindE (rejectE (\<not> (1 \<le> counter_bits \<and> counter_bits \<le> block_size * 8)) Mode_InvalidCounterBits) (\<lambda>_.
     let block_count = div_ceil (length input) block_size in
     bindE (ok_orE Mode_InputTooLong (checked_mul block_count block_size)) (\<lambda>_.
     let counter_blocks = concat (map (ctr_block counter_bits counter_block) [0..<block_count]) in
     bindE (map_errE Mode_BlockOperation (encrypt_blocks counter_blocks)) (\<lambda>key_stream.
     bindE (rejectE (length key_stream \<noteq> length counter_blocks) Mode_InvalidBlockOutput) (\<lambda>_.
     okE (xor_bytes input key_stream))))))"


section \<open>Subkey doubling\<close>

text \<open>Reference: shift left by one bit and reduce, on the number the block stands for.\<close>

definition gf_double :: "nat \<Rightarrow> nat \<Rightarrow> nat" where
  "gf_double n v =
     (let r = if n = 8 then 0x1b else 0x87
      in if 2 ^ (8 * n - 1) \<le> v then (2 * v - 2 ^ (8 * n)) XOR r else 2 * v)"

fun shl_bytes :: "bytes \<Rightarrow> bytes" where
  "shl_bytes [] = []"
| "shl_bytes [b] = [push_bit 1 b]"
| "shl_bytes (b # c # bs) = (push_bit 1 b OR drop_bit 7 c) # shl_bytes (c # bs)"

lemma length_shl_bytes [simp]: "length (shl_bytes bs) = length bs"
  by (induction bs rule: shl_bytes.induct) simp_all

text \<open>The in-place loop computes the shifted bytes.\<close>

lemma shl_loop_step:
  assumes "k + 1 < length b" "k \<le> length ys"
  shows "(take k ys @ drop k b)[k := push_bit 1 ((take k ys @ drop k b) ! k) OR drop_bit 7 ((take k ys @ drop k b) ! (k + 1))]
     = take k ys @ (push_bit 1 (b ! k) OR drop_bit 7 (b ! (k + 1))) # drop (k + 1) b"
proof -
  have "drop k b = b ! k # b ! (k + 1) # drop (k + 2) b"
    using assms by (simp add: Cons_nth_drop_Suc)
  moreover have "drop (k + 1) b = b ! (k + 1) # drop (k + 2) b"
    using assms by (simp add: Cons_nth_drop_Suc)
  ultimately show ?thesis using assms by (simp add: nth_append list_update_append)
qed

lemma shl_bytes_nth:
  "i < length b \<Longrightarrow> shl_bytes b ! i =
     (if i + 1 < length b then push_bit 1 (b ! i) OR drop_bit 7 (b ! (i + 1)) else push_bit 1 (b ! i))"
proof (induction b arbitrary: i rule: shl_bytes.induct)
  case (3 b c bs)
  then show ?case by (cases i) auto
qed simp_all

lemma shl_loop:
  "k < length b \<Longrightarrow>
   fold (\<lambda>i b. b[i := push_bit 1 (b ! i) OR drop_bit 7 (b ! (i + 1))]) [0..<k] b
     = take k (shl_bytes b) @ drop k b"
proof (induction k)
  case (Suc k)
  then have k: "k + 1 < length b" by simp
  have "shl_bytes b ! k = push_bit 1 (b ! k) OR drop_bit 7 (b ! (k + 1))"
    using k by (simp add: shl_bytes_nth)
  then have "take (Suc k) (shl_bytes b) = take k (shl_bytes b) @ [push_bit 1 (b ! k) OR drop_bit 7 (b ! (k + 1))]"
    using k by (simp add: take_Suc_conv_app_nth)
  then show ?case using Suc k shl_loop_step [of k b "shl_bytes b"] by simp
qed simp

lemma cmac_double_shl:
  assumes "b \<noteq> []"
  shows "cmac_double b = (let ys = shl_bytes b
     in ys[length b - 1 := last ys XOR ((if length b = 8 then 0x1b else 0x87) AND (0 - drop_bit 7 (hd b)))])"
proof -
  let ?n = "length b - 1"
  have n: "?n < length b" using assms by simp
  have d: "drop ?n b = [b ! ?n]" using n assms by (simp add: Cons_nth_drop_Suc [symmetric])
  have ne: "shl_bytes b \<noteq> []" using assms length_shl_bytes [of b] by (metis length_0_conv)
  have l: "last (shl_bytes b) = push_bit 1 (b ! ?n)"
    using n ne by (simp add: last_conv_nth shl_bytes_nth)
  have t: "take ?n (shl_bytes b) @ [push_bit 1 (b ! ?n)] = shl_bytes b"
  proof -
    have "butlast (shl_bytes b) @ [last (shl_bytes b)] = shl_bytes b" using ne by simp
    then show ?thesis by (simp add: l butlast_conv_take)
  qed
  have loop: "fold (\<lambda>i b. b[i := push_bit 1 (b ! i) OR drop_bit 7 (b ! (i + 1))]) [0..<?n] b
      = take ?n (shl_bytes b) @ [b ! ?n]"
    using shl_loop [OF n] d by simp
  have upd: "(take ?n (shl_bytes b) @ [b ! ?n])[?n := push_bit 1 ((take ?n (shl_bytes b) @ [b ! ?n]) ! ?n)] = shl_bytes b"
    using n t by (simp add: list_update_append nth_append)
  show ?thesis
    unfolding cmac_double_def Let_def loop
    using upd last_conv_nth [OF ne] n assms by (simp add: hd_conv_nth nth_append)
qed


lemma or_low_bit:
  assumes "even (x :: nat)" "y < 2"
  shows "x OR y = x + y"
proof (cases "y = 0")
  case False
  then have "y = 1" using assms(2) by simp
  then show ?thesis using assms(1) or_one_eq [of x] by (simp only: of_bool_eq)
qed simp

lemma mod_split_high: "r < m \<Longrightarrow> (q * m + r) mod (m * k) = q mod k * m + (r :: nat)"
  by (subst mod_mult2_eq) simp

lemma double_mod_256: "2 * x mod 256 = 2 * (x mod 128 :: nat)"
  using mult_mod_right [of 2 x 128] by simp

lemma unat_shl_byte: "unat (push_bit 1 b OR drop_bit 7 (c :: byte)) = 2 * unat b mod 256 + unat c div 128"
proof -
  have b: "unat (push_bit 1 b) = 2 * unat b mod 256"
    by (simp add: unat_word_ariths mult.commute)
  have c: "unat (drop_bit 7 c) = unat c div 128"
    by (simp add: drop_bit_eq_div unat_div_distrib)
  have "unat c div 128 < 2" using unat_u_bounds(1) [of c] by (simp add: div_less_iff_less_mult)
  moreover have "even (2 * unat b mod 256)" by (simp add: double_mod_256)
  ultimately show ?thesis unfolding unsigned_or_eq b c by (rule or_low_bit [rotated])
qed

lemma be_nat_shl:
  "be_nat (shl_bytes bs) = 2 * be_nat bs mod 256 ^ length bs"
proof (induction bs rule: shl_bytes.induct)
  case (2 b)
  have "unat (push_bit 1 b OR drop_bit 7 (0 :: byte)) = 2 * unat b mod 256"
    using unat_shl_byte [of b 0] by simp
  then show ?case by (simp add: be_nat_Cons)
next
  case (3 b c bs)
  let ?v = "be_nat (c # bs)" and ?M = "(256 :: nat) ^ length (c # bs)"
  have v: "?v < ?M" using be_nat_bound by blast
  have rest: "be_nat bs < 256 ^ length bs" by (rule be_nat_bound)
  have c: "2 * ?v div ?M = unat c div 128"
  proof -
    have "?v div (128 * 256 ^ length bs) = ?v div 256 ^ length bs div 128"
      by (simp only: mult.commute [of 128] div_mult2_eq)
    also have "?v div 256 ^ length bs = unat c" using rest by (simp add: be_nat_Cons)
    finally have "?v div (128 * 256 ^ length bs) = unat c div 128" .
    moreover have "2 * ?v div ?M = ?v div (128 * 256 ^ length bs)"
      using div_mult_mult1 [of 2 ?v "128 * 256 ^ length bs"] by simp
    ultimately show ?thesis by simp
  qed
  have split: "2 * ?v = unat c div 128 * ?M + 2 * ?v mod ?M"
    using c by (metis div_mult_mod_eq)
  have "2 * be_nat (b # c # bs) mod 256 ^ length (b # c # bs)
      = (2 * unat b * ?M + 2 * ?v) mod (?M * 256)"
    by (simp add: be_nat_Cons [of b] algebra_simps)
  also have "\<dots> = ((2 * unat b + unat c div 128) * ?M + 2 * ?v mod ?M) mod (?M * 256)"
    by (subst split) (simp add: algebra_simps)
  also have "\<dots> = (2 * unat b + unat c div 128) mod 256 * ?M + 2 * ?v mod ?M"
    by (rule mod_split_high) simp
  also have "(2 * unat b + unat c div 128) mod 256 = 2 * unat b mod 256 + unat c div 128"
  proof -
    have "unat c div 128 < 2" using unat_u_bounds(1) [of c] by (simp add: div_less_iff_less_mult)
    moreover have "2 * unat b mod 256 + 1 < 256"
      using mod_less_divisor [of 128 "unat b"] unfolding double_mod_256 by linarith
    ultimately show ?thesis by (subst mod_add_left_eq [symmetric]) simp
  qed
  finally have "2 * be_nat (b # c # bs) mod 256 ^ length (b # c # bs)
      = (2 * unat b mod 256 + unat c div 128) * ?M + 2 * ?v mod ?M" .
  then show ?case
    by (simp only: shl_bytes.simps be_nat_Cons [of "push_bit 1 b OR drop_bit 7 c"] length_shl_bytes 3 unat_shl_byte)
qed simp

lemma xor_low_byte:
  assumes "v < 256" "r < 256"
  shows "((u :: nat) * 256 + v) XOR r = u * 256 + (v XOR r)"
proof -
  have cat: "u * 256 + w = push_bit 8 u OR w" if "w < 256" for w
  proof -
    have "bit w n \<Longrightarrow> n < 8" for n
    proof (rule ccontr)
      assume b: "bit w n" "\<not> n < 8"
      then have "take_bit 8 w = w" using that by (simp add: take_bit_nat_eq_self)
      then show False using b by (metis bit_take_bit_iff)
    qed
    then have "push_bit 8 u + w = push_bit 8 u OR w"
      by (intro disjunctive_add_eq_or) (fastforce simp: bit_eq_iff bit_simps)
    then show ?thesis by (simp add: push_bit_eq_mult)
  qed
  have "take_bit 8 (v XOR r) = v XOR r" using assms by (simp add: take_bit_nat_eq_self)
  then have "v XOR r < 2 ^ 8" by (metis take_bit_nat_less_exp)
  then have "u * 256 + (v XOR r) = push_bit 8 u OR (v XOR r)" by (intro cat) simp
  also have "\<dots> = (push_bit 8 u OR v) XOR r"
  proof -
    have r: "bit r n \<Longrightarrow> n < 8" for n
    proof (rule ccontr)
      assume b: "bit r n" "\<not> n < 8"
      then have "take_bit 8 r = r" using assms by (simp add: take_bit_nat_eq_self)
      then show False using b by (metis bit_take_bit_iff)
    qed
    show ?thesis by (rule bit_eqI) (auto simp: bit_simps dest: r)
  qed
  finally show ?thesis using cat [OF assms(1)] by simp
qed


lemma length_cmac_double [simp, len_simps]: "b \<noteq> [] \<Longrightarrow> length (cmac_double b) = length b"
  by (simp add: cmac_double_shl Let_def)

lemma msb_carry:
  assumes "b \<noteq> []"
  shows "drop_bit 7 (hd b) = (if 2 ^ (8 * length b - 1) \<le> be_nat b then 1 else 0)"
proof -
  obtain c bs where b: "b = c # bs" using assms by (cases b) auto
  have u: "unat (drop_bit 7 c) = unat c div 128" by (simp add: drop_bit_eq_div unat_div_distrib)
  have "be_nat b div 256 ^ length bs = unat c"
    using be_nat_bound [of bs] by (simp add: b be_nat_Cons)
  moreover have p: "(2 :: nat) ^ (8 * length b - 1) = 128 * 256 ^ length bs"
    by (simp add: b power_add power_mult)
  ultimately have "2 ^ (8 * length b - 1) \<le> be_nat b \<longleftrightarrow> 128 \<le> unat c"
    by (simp only: p) (metis less_eq_div_iff_mult_less_eq mult.commute zero_less_numeral zero_less_power)
  moreover have "unat c < 256" by (rule unat_u_bounds)
  ultimately have "unat (drop_bit 7 c) = (if 2 ^ (8 * length b - 1) \<le> be_nat b then 1 else 0)"
    by (simp add: u div_nat_eqI)
  then show ?thesis by (simp add: b word_unat_eq_iff)
qed

lemma cmac_double_gf:
  assumes "length b = n" "n = 8 \<or> n = 16"
  shows "be_nat (cmac_double b) = gf_double n (be_nat b)"
proof -
  have ne: "b \<noteq> []" using assms by auto
  let ?ys = "shl_bytes b" and ?high = "2 ^ (8 * n - 1) \<le> be_nat b"
  define r :: byte where "r = (if n = 8 then 0x1b else 0x87)"
  define r' :: byte where "r' = (if ?high then r else 0)"
  have ys: "?ys \<noteq> []" using ne length_shl_bytes [of b] by (metis length_0_conv)
  have "r AND (0 - drop_bit 7 (hd b)) = r'"
    using msb_carry [OF ne] assms by (simp add: r'_def)
  then have "cmac_double b = ?ys[length b - 1 := last ?ys XOR r']"
    using ne assms by (simp add: cmac_double_shl Let_def r_def)
  also have "\<dots> = butlast ?ys @ [last ?ys XOR r']"
    using ys by (metis append_butlast_last_id length_butlast length_shl_bytes list_update_length)
  finally have "be_nat (cmac_double b) = be_nat (butlast ?ys) * 256 + (unat (last ?ys) XOR unat r')"
    by (simp add: unsigned_xor_eq)
  also have "\<dots> = be_nat (butlast ?ys @ [last ?ys]) XOR unat r'"
    unfolding be_nat_snoc by (rule xor_low_byte [symmetric]) (simp_all add: unat_u_bounds)
  also have "be_nat (butlast ?ys @ [last ?ys]) = 2 * be_nat b mod 256 ^ n"
    using ys be_nat_shl [of b] assms by simp
  finally have d: "be_nat (cmac_double b) = (2 * be_nat b mod 256 ^ n) XOR unat r'" .
  have v: "be_nat b < 256 ^ n" using be_nat_bound [of b] assms by simp
  have pow: "(256 :: nat) ^ n = 2 ^ (8 * n)" "(2 :: nat) ^ (8 * n) = 2 * 2 ^ (8 * n - 1)"
    using assms(2) by auto
  show ?thesis
  proof (cases ?high)
    case True
    then have "2 * be_nat b mod 256 ^ n = 2 * be_nat b - 2 ^ (8 * n)"
      using v pow by (subst le_mod_geq) (auto simp: mod_less)
    then show ?thesis using True d assms(2) by (auto simp: gf_double_def r'_def r_def Let_def)
  next
    case False
    then have "2 * be_nat b mod 256 ^ n = 2 * be_nat b" using pow by simp
    then show ?thesis using False d by (simp add: gf_double_def r'_def Let_def)
  qed
qed


section \<open>CMAC\<close>

text \<open>
  Reference: the message with its last block masked by a subkey (padded with \<open>80 00 ..\<close> when it
  is not a positive number of whole blocks), and the CBC-MAC of the result.
\<close>

definition cmac_complete :: "nat \<Rightarrow> bytes \<Rightarrow> bool" where
  "cmac_complete n data \<longleftrightarrow> data \<noteq> [] \<and> n dvd length data"

definition cmac_subkey :: "nat \<Rightarrow> (bytes \<Rightarrow> bytes) \<Rightarrow> bool \<Rightarrow> bytes" where
  "cmac_subkey n E complete =
     (let k1 = cmac_double (E (replicate n 0)) in if complete then k1 else cmac_double k1)"

definition cmac_padded :: "nat \<Rightarrow> bytes \<Rightarrow> bytes" where
  "cmac_padded n data =
     (if cmac_complete n data then data
      else data @ 0x80 # replicate (n - length data mod n - 1) 0)"

definition cmac_prepared :: "nat \<Rightarrow> (bytes \<Rightarrow> bytes) \<Rightarrow> bytes \<Rightarrow> bytes" where
  "cmac_prepared n E data =
     (let p = cmac_padded n data; k = length p - n
      in take k p @ xor_bytes (drop k p) (cmac_subkey n E (cmac_complete n data)))"

definition cbc_mac :: "(bytes \<Rightarrow> bytes) \<Rightarrow> bytes \<Rightarrow> bytes list \<Rightarrow> bytes" where
  "cbc_mac E s bs = fold (\<lambda>b s. E (xor_bytes b s)) bs s"

definition cmac_spec :: "nat \<Rightarrow> (bytes \<Rightarrow> bytes) \<Rightarrow> bytes \<Rightarrow> bytes" where
  "cmac_spec n E data = cbc_mac E (replicate n 0) (chunks_exact n (cmac_prepared n E data))"

lemma last_cbc_chain: "bs \<noteq> [] \<Longrightarrow> last (cbc_chain E s bs) = cbc_mac E s bs"
proof (induction bs arbitrary: s)
  case (Cons b bs)
  then show ?case by (cases bs) (simp_all add: cbc_mac_def Let_def)
qed simp

lemma cmac_padded_length:
  assumes "0 < n"
  shows "length (cmac_padded n data) = max 1 (div_ceil (length data) n) * n"
proof (cases "cmac_complete n data")
  case True
  then have "0 < length data div n" using assms by (auto simp: cmac_complete_def div_greater_zero_iff dvd_imp_le)
  then show ?thesis using True assms
    by (auto simp: cmac_complete_def cmac_padded_def div_ceil_def max_def)
next
  case False
  have m: "length data mod n < n" using assms by simp
  then have len: "length (cmac_padded n data) = length data + (n - length data mod n)"
    using False by (simp add: cmac_padded_def)
  also have "\<dots> = length data div n * n + n"
    using m by (metis add.assoc div_mult_mod_eq le_add_diff_inverse less_imp_le)
  finally have l: "length (cmac_padded n data) = (length data div n + 1) * n" by simp
  show ?thesis
  proof (cases "data = []")
    case True
    then show ?thesis using l by (simp add: div_ceil_def)
  next
    case d: False
    then have "length data mod n \<noteq> 0" using False by (simp add: cmac_complete_def mod_eq_0_iff_dvd)
    then show ?thesis using l by (simp add: div_ceil_def)
  qed
qed

lemma cmac_last_subkey_returns:
  assumes "n = 8 \<or> n = 16" "enc_callback n cb E" "keeps_len n E"
  shows "returns (cmac_last_subkey n data cb) (cmac_subkey n E (cmac_complete n data), cmac_complete n data)"
proof -
  have r: "returns (cb (replicate n 0)) (E (replicate n 0))"
    by (rule enc_callback_block [OF assms(2)]) (use assms in auto)
  have l: "length (E (replicate n 0)) = n" by (rule keeps_lenD [OF assms(3)]) simp
  have "returns (bindE (map_errE Mode_BlockOperation (cb (replicate n 0))) (\<lambda>encrypted_zero.
     bindE (rejectE (length encrypted_zero \<noteq> n) Mode_InvalidBlockOutput) (\<lambda>_.
     let subkey = cmac_double encrypted_zero; complete = (data \<noteq> [] \<and> length data mod n = 0);
         last_subkey = (if complete then subkey else cmac_double subkey)
     in okE (last_subkey, complete)))) (cmac_subkey n E (cmac_complete n data), cmac_complete n data)"
    by (rule returns_bindE [OF returns_map_errE [OF r]])
       (simp add: l Let_def cmac_subkey_def cmac_complete_def returns_okE mod_eq_0_iff_dvd)
  then show ?thesis using assms(1) by (auto simp: cmac_last_subkey_def)
qed

lemma length_cmac_subkey:
  assumes "0 < n" "keeps_len n E"
  shows "length (cmac_subkey n E c) = n"
proof -
  have l: "length (E (replicate n 0)) = n" by (rule keeps_lenD [OF assms(2)]) simp
  then have "E (replicate n 0) \<noteq> []" "cmac_double (E (replicate n 0)) \<noteq> []"
    using assms(1) by (auto simp flip: length_greater_0_conv)
  then show ?thesis using l by (auto simp: cmac_subkey_def Let_def)
qed

lemma cmac_prepared_length:
  assumes "0 < n" "keeps_len n E"
  shows "length (cmac_prepared n E data) = length (cmac_padded n data)"
    and "n dvd length (cmac_prepared n E data)" "n \<le> length (cmac_prepared n E data)"
proof -
  have p: "length (cmac_padded n data) = max 1 (div_ceil (length data) n) * n"
    using assms(1) by (rule cmac_padded_length)
  then have "n \<le> length (cmac_padded n data)" by (simp add: max_def)
  then show "length (cmac_prepared n E data) = length (cmac_padded n data)"
    using length_cmac_subkey [OF assms] by (simp add: cmac_prepared_def Let_def)
  then show "n dvd length (cmac_prepared n E data)" "n \<le> length (cmac_prepared n E data)"
    using p by (simp_all add: max_def)
qed


lemma chunks_exact_slices:
  "0 < n \<Longrightarrow> length xs = k * n \<Longrightarrow>
   chunks_exact n xs = map (\<lambda>i. slice_range (i * n) (i * n + n) xs) [0..<k]"
proof (induction k arbitrary: xs)
  case (Suc k)
  have "chunks_exact n (drop n xs) = map (\<lambda>i. slice_range (i * n) (i * n + n) (drop n xs)) [0..<k]"
    using Suc by simp
  moreover have "map (\<lambda>i. slice_range (i * n) (i * n + n) xs) [0..<Suc k]
      = take n xs # map (\<lambda>i. slice_range (i * n) (i * n + n) (drop n xs)) [0..<k]"
    by (simp add: map_upt_Suc slice_range_def add.commute del: upt_Suc)
  ultimately show ?case using Suc.prems by (simp add: chunks_exact_step del: upt_Suc)
qed simp

text \<open>The padded message, in terms of its number of blocks.\<close>

lemma cmac_padded_blocks:
  assumes "0 < n" and k: "k = max 1 (div_ceil (length data) n)"
  shows "(k - 1) * n \<le> length data" "length data \<le> k * n"
    and "cmac_complete n data \<Longrightarrow> length data = k * n \<and> cmac_padded n data = data"
    and "\<not> cmac_complete n data \<Longrightarrow> length data < k * n
           \<and> cmac_padded n data = data @ 0x80 # replicate (k * n - length data - 1) 0"
proof -
  have len: "length (cmac_padded n data) = k * n" unfolding k by (rule cmac_padded_length [OF assms(1)])
  show "(k - 1) * n \<le> length data"
  proof (cases "div_ceil (length data) n \<le> 1")
    case False
    then have "k = div_ceil (length data) n" by (simp add: k)
    then have "k * n < length data + n" using div_ceil_bounds(2) [OF assms(1), of "length data"] by simp
    then show ?thesis by (simp add: diff_mult_distrib)
  qed (simp add: k)
  show "length data \<le> k * n" using len by (auto simp: cmac_padded_def split: if_splits)
  show "length data = k * n \<and> cmac_padded n data = data" if "cmac_complete n data"
    using that len by (simp add: cmac_padded_def)
  show "length data < k * n \<and> cmac_padded n data = data @ 0x80 # replicate (k * n - length data - 1) 0"
    if "\<not> cmac_complete n data"
  proof -
    define m where "m = n - length data mod n - 1"
    have p: "cmac_padded n data = data @ 0x80 # replicate m 0" using that by (simp add: cmac_padded_def m_def)
    then have "length data + 1 + m = k * n" using len by simp
    with p show ?thesis by auto
  qed
qed

lemma cmac_block_eq:
  assumes "0 < n" "length sub = n" "k = max 1 (div_ceil (length data) n)" "i < k"
    and c: "c = cmac_complete n data"
  shows "cmac_block n data sub c k i
    = (let p = cmac_padded n data in
       slice_range (i * n) (i * n + n) (take (length p - n) p @ xor_bytes (drop (length p - n) p) sub))"
proof -
  let ?p = "cmac_padded n data"
  note pb = cmac_padded_blocks [OF assms(1,3)]
  have len: "length ?p = k * n" using cmac_padded_length [OF assms(1)] assms(3) by simp
  show ?thesis
  proof (cases "i + 1 = k")
    case True
    then have i: "i * n = length ?p - n" "length ?p - (length ?p - n) = n" "i * n \<le> length data"
      using len pb(1) by (auto simp: diff_mult_distrib)
    have blk: "(if c then copy_at 0 (slice_range (i * n) (i * n + min (length data - i * n) n) data) (replicate n 0)
        else (copy_at 0 (slice_range (i * n) (i * n + min (length data - i * n) n) data) (replicate n 0))
          [min (length data - i * n) n := 0x80]) = drop (i * n) ?p"
    proof (cases c)
      case True
      then have "length data = k * n" "?p = data" using pb(3) c by auto
      moreover from this have "length data - i * n = n" using i len by simp
      ultimately show ?thesis using True by (simp add: slice_range_def copy_at_def)
    next
      case False
      then have lt: "length data < k * n" and p: "?p = data @ 0x80 # replicate (k * n - length data - 1) 0"
        using pb(4) c by auto
      define a where "a = length data - i * n"
      have a: "a < n" "length (drop (i * n) data) = a" using lt i len by (auto simp: a_def)
      have "n - a - 1 = k * n - length data - 1" using i len a lt by (auto simp: a_def)
      then have "drop (i * n) ?p = drop (i * n) data @ 0x80 # replicate (n - a - 1) 0"
        using i(3) p by simp
      moreover have "(copy_at 0 (drop (i * n) data) (replicate n 0))[a := 0x80]
          = drop (i * n) data @ 0x80 # replicate (n - a - 1) 0"
      proof -
        have "replicate (n - a) (0 :: byte) = 0 # replicate (n - a - 1) 0"
          using a(1) by (metis Suc_diff_1 replicate_Suc zero_less_diff)
        moreover have "copy_at 0 (drop (i * n) data) (replicate n 0) = drop (i * n) data @ replicate (n - a) 0"
          using a by (simp add: copy_at_def a_def)
        ultimately show ?thesis using list_update_length a(2) by metis
      qed
      moreover have "min a n = a" using a by simp
      ultimately show ?thesis using False
        by (simp add: slice_range_def a_def [symmetric] a(2))
    qed
    have "cmac_block n data sub c k i = xor_into (drop (i * n) ?p) sub"
      using True by (simp only: cmac_block_def Let_def blk simp_thms if_True)
    also have "\<dots> = xor_bytes (drop (i * n) ?p) sub"
      using i assms(2) by (simp add: xor_into_covered)
    finally show ?thesis using i assms(2) by (simp add: Let_def slice_range_def)
  next
    case False
    then have lt: "i * n + n \<le> (k - 1) * n"
      using assms(4) mult_le_mono1 [of "i + 1" "k - 1" n] by (simp add: add.commute)
    then have d: "i * n + n \<le> length data" using pb(1) by linarith
    have pre: "take (i * n + n) ?p = take (i * n + n) data"
      using d by (simp add: cmac_padded_def)
    have "cmac_block n data sub c k i = slice_range (i * n) (i * n + n) data"
    proof -
      have "min (length data - i * n) n = n" using d by simp
      then show ?thesis using False d by (simp add: cmac_block_def Let_def copy_at_def)
    qed
    also have "\<dots> = slice_range (i * n) (i * n + n) ?p"
      using pre by (simp add: slice_range_def take_drop add.commute)
    also have "\<dots> = slice_range (i * n) (i * n + n) (take (length ?p - n) ?p @ xor_bytes (drop (length ?p - n) ?p) sub)"
      using lt len by (simp add: slice_range_def diff_mult_distrib take_drop add.commute)
    finally show ?thesis by (simp add: Let_def)
  qed
qed


lemma cmac_blocks:
  assumes "0 < n" "keeps_len n E" "k = max 1 (div_ceil (length data) n)" "c = cmac_complete n data"
  shows "map (cmac_block n data (cmac_subkey n E c) c k) [0..<k] = chunks_exact n (cmac_prepared n E data)"
proof -
  have "length (cmac_prepared n E data) = k * n"
    using cmac_prepared_length(1) [OF assms(1,2)] cmac_padded_length [OF assms(1)] assms(3) by simp
  then show ?thesis
    unfolding chunks_exact_slices [OF assms(1) \<open>length _ = k * n\<close>]
    using cmac_block_eq [OF assms(1) length_cmac_subkey [OF assms(1,2)] assms(3) _ assms(4)] assms(4)
    by (intro map_cong refl) (simp add: cmac_prepared_def Let_def)
qed

lemma cmac_with_spec:
  assumes n: "n = 8 \<or> n = 16" and cb: "enc_callback n cb E" and E: "keeps_len n E"
  shows "returns (cmac_with n data cb) (cmac_spec n E data)"
proof -
  let ?c = "cmac_complete n data" and ?k = "max 1 (div_ceil (length data) n)"
  let ?sub = "cmac_subkey n E ?c"
  have n0: "0 < n" using n by auto
  let ?blk = "cmac_block n data ?sub ?c ?k"
  have blocks: "map ?blk [0..<?k] = chunks_exact n (cmac_prepared n E data)"
    using n0 E by (intro cmac_blocks) simp_all
  then have lb: "length (?blk i) = n" if "i < ?k" for i
    using that chunks_exact_lengths by (metis atLeastLessThan_iff image_eqI list.set_map set_upt zero_le)
  let ?body = "\<lambda>block_index state. bindE (map_errE Mode_BlockOperation (cb (xor_into (?blk block_index) state)))
     (\<lambda>encrypted. bindE (rejectE (length encrypted \<noteq> n) Mode_InvalidBlockOutput) (\<lambda>_. okE encrypted))"
  have "returns (for_each [0..<?k] ?body (replicate n 0))
      (fold (\<lambda>i s. E (xor_bytes (?blk i) s)) [0..<?k] (replicate n 0))
      \<and> length (fold (\<lambda>i s. E (xor_bytes (?blk i) s)) [0..<?k] (replicate n 0)) = n"
  proof (rule returns_for_each [where Inv = "\<lambda>s. length s = n"])
    fix i and s :: bytes assume i: "i \<in> set [0..<?k]" "length s = n"
    then have l: "length (xor_bytes (?blk i) s) = n" and x: "xor_into (?blk i) s = xor_bytes (?blk i) s"
      using lb [of i] by (simp_all add: xor_into_covered)
    then show "length (E (xor_bytes (?blk i) s)) = n" using E by (simp add: keeps_lenD)
    then show "returns (?body i s) (E (xor_bytes (?blk i) s))"
      unfolding x using enc_callback_block [OF cb n0 l]
      by (intro returns_bindE [OF returns_map_errE]) (auto simp: returns_okE)
  qed simp
  moreover have "fold (\<lambda>i s. E (xor_bytes (?blk i) s)) [0..<?k] (replicate n 0) = cmac_spec n E data"
    unfolding cmac_spec_def cbc_mac_def blocks [symmetric] fold_map by (simp add: comp_def)
  ultimately show ?thesis unfolding cmac_with_def
    by (intro returns_bindE [OF cmac_last_subkey_returns [OF n cb E]]) (simp add: Let_def)
qed

lemma cmac_cbc_input:
  assumes "0 < n" "length sub = n" "c = cmac_complete n data" "len = length (cmac_padded n data)"
  shows "(let input = copy_at 0 data (replicate len 0);
              input = (if c then input else input[length data := 0x80])
          in copy_at (len - n) (xor_into (drop (len - n) input) sub) input)
       = take (len - n) (cmac_padded n data) @ xor_bytes (drop (len - n) (cmac_padded n data)) sub"
proof -
  have nl: "n \<le> len" using cmac_padded_length [OF assms(1), of data] assms(4) by (simp add: max_def)
  have "(if c then copy_at 0 data (replicate len 0) else (copy_at 0 data (replicate len 0))[length data := 0x80])
      = cmac_padded n data"
  proof (cases c)
    case False
    then obtain m where p: "cmac_padded n data = data @ 0x80 # replicate m 0"
      using assms(3) by (simp add: cmac_padded_def)
    then have "copy_at 0 data (replicate len 0) = data @ 0 # replicate m (0 :: byte)"
      using assms(4) by (simp add: copy_at_def flip: replicate_Suc)
    then show ?thesis using False p by (simp add: list_update_append)
  qed (use assms in \<open>simp add: cmac_padded_def copy_at_def\<close>)
  then have "(let input = copy_at 0 data (replicate len 0);
              input = (if c then input else input[length data := 0x80])
          in copy_at (len - n) (xor_into (drop (len - n) input) sub) input)
      = copy_at (len - n) (xor_into (drop (len - n) (cmac_padded n data)) sub) (cmac_padded n data)"
    by (simp only: Let_def)
  also have "\<dots> = take (len - n) (cmac_padded n data) @ xor_bytes (drop (len - n) (cmac_padded n data)) sub"
    using assms nl by (simp add: copy_at_def xor_into_covered)
  finally show ?thesis .
qed

lemma drop_last_chunk:
  assumes "0 < n" "sized n bs" "bs \<noteq> []"
  shows "drop (length (concat bs) - n) (concat bs) = last bs"
proof -
  have l: "length (last bs) = n" using assms by (simp add: sized_def)
  have "concat bs = concat (butlast bs) @ last bs"
    using assms(3) by (metis append_butlast_last_id concat.simps concat_append append_Nil2)
  then show ?thesis using l by simp
qed

lemma cmac_with_cbc_spec:
  assumes n: "n = 8 \<or> n = 16" and cb: "enc_callback n cb E" and E: "keeps_len n E"
    and cbc: "\<And>x. n dvd length x \<Longrightarrow> returns (cbc x) (cbc_spec n E (replicate n 0) x)"
    and fits: "length data + n < usize_bound"
  shows "returns (cmac_with_cbc n data cb cbc) (cmac_spec n E data)"
proof -
  let ?c = "cmac_complete n data" and ?p = "cmac_padded n data"
  let ?sub = "cmac_subkey n E ?c" and ?in = "cmac_prepared n E data"
  have n0: "0 < n" using n by auto
  have sub: "length ?sub = n" using n0 E by (rule length_cmac_subkey)
  have len: "length data + (if ?c then 0 else n - length data mod n) = length ?p"
  proof -
    have "n - length data mod n = Suc (n - length data mod n - 1)"
      using mod_less_divisor [OF n0, of "length data"] by linarith
    then show ?thesis by (simp add: cmac_padded_def)
  qed
  have fit: "length ?p < usize_bound" unfolding len [symmetric] using fits by (auto split: if_splits)
  note prep = cmac_prepared_length [OF n0 E, of data]
  have input: "(let input = copy_at 0 data (replicate (length ?p) 0);
              input = (if ?c then input else input[length data := 0x80])
          in copy_at (length ?p - n) (xor_into (drop (length ?p - n) input) ?sub) input) = ?in"
    unfolding cmac_prepared_def Let_def using cmac_cbc_input [OF n0 sub refl refl] by (simp only: Let_def)
  let ?bs = "chunks_exact n ?in"
  have ne: "?bs \<noteq> []" using prep n0 by (simp add: chunks_exact_step)
  have out: "drop (length ?p - n) (cbc_spec n E (replicate n 0) ?in) = cmac_spec n E data"
  proof -
    have s: "sized n (cbc_chain E (replicate n 0) ?bs)" using E by (simp add: sized_cbc_chain)
    have "length (cbc_spec n E (replicate n 0) ?in) = length ?p" using n0 E prep by (simp add: length_cbc_spec)
    moreover have "cbc_chain E (replicate n 0) ?bs \<noteq> []" using ne by (metis length_0_conv length_cbc_chain)
    ultimately show ?thesis using drop_last_chunk [OF n0 s]
      by (simp only: cbc_spec_def cmac_spec_def last_cbc_chain [OF ne] simp_thms)
  qed
  have cl: "length (cbc_spec n E (replicate n 0) ?in) = length ?p" using n0 E prep by (simp add: length_cbc_spec)
  have "returns (bindE (map_errE Mode_BlockOperation (cbc ?in)) (\<lambda>ciphertext.
        bindE (rejectE (length ciphertext \<noteq> length ?p) Mode_InvalidBlockOutput) (\<lambda>_.
        okE (drop (length ?p - n) ciphertext)))) (cmac_spec n E data)"
    by (rule returns_bindE [OF returns_map_errE [OF cbc [OF prep(2)]]]) (simp add: cl out returns_okE)
  then show ?thesis unfolding cmac_with_cbc_def using len fit input
    by (intro returns_bindE [OF cmac_last_subkey_returns [OF n cb E]])
       (simp add: Let_def checked_add_def ok_orE_def)
qed



section \<open>CTR\<close>

lemma add_mod_inj:
  assumes "a < m" "b < m" "(c + a) mod m = (c + b) mod (m :: nat)"
  shows "a = b"
proof -
  have le: "y \<le> x" if "x < m" "y < m" "(c + x) mod m = (c + y) mod m" for x y
  proof (rule ccontr)
    assume "\<not> y \<le> x"
    then have "m dvd y - x" "0 < y - x" "y - x < m"
      using mod_eq_dvd_iff_nat [of "c + x" "c + y" m] that by simp_all
    then show False by (simp add: nat_dvd_not_less)
  qed
  show ?thesis using le [of a b] le [of b a] assms by simp
qed

lemma unat_ctr_initial: "length cb \<le> 16 \<Longrightarrow> unat (ctr_initial cb) = be_nat cb"
proof -
  assume l: "length cb \<le> 16"
  have "be_nat cb < 256 ^ length cb" by (rule be_nat_bound)
  also have "(256 :: nat) ^ length cb \<le> 256 ^ 16" using l by (intro power_increasing) simp_all
  finally have "unat (word_of_nat (be_nat cb) :: u128) = be_nat cb" by (simp add: unat_of_nat)
  then show ?thesis by (simp only: ctr_initial_def u128_from_be_def be_nat_leading_zeros)
qed

text \<open>The counter in terms of the upper and the lower \<open>bits\<close> bits.\<close>

lemma ctr_counter_parts:
  assumes "1 \<le> bits" "bits \<le> 128"
  shows "take_bit bits (ctr_counter bits x i) = take_bit bits (take_bit bits x + word_of_nat i)"
    and "drop_bit bits (ctr_counter bits x i) = drop_bit bits x"
proof -
  have m: "(if bits = 128 then NOT 0 else push_bit bits 1 - 1) = (mask bits :: u128)"
    by (auto simp: mask_eq_exp_minus_1 push_bit_eq_mult)
  have c: "ctr_counter bits x i
      = (x AND NOT (mask bits)) OR take_bit bits (take_bit bits x + word_of_nat i)"
    unfolding ctr_counter_def m Let_def by (simp add: take_bit_eq_mask)
  show "take_bit bits (ctr_counter bits x i) = take_bit bits (take_bit bits x + word_of_nat i)"
    unfolding c by (rule bit_eqI) (auto simp: bit_simps)
  show "drop_bit bits (ctr_counter bits x i) = drop_bit bits x"
    unfolding c by (rule bit_eqI) (auto simp: bit_simps dest: bit_imp_le_length)
qed

lemma unat_ctr_counter:
  assumes "1 \<le> bits" "bits \<le> 128"
  shows "unat (ctr_counter bits x i) mod 2 ^ bits = (unat x + i) mod 2 ^ bits"
    and "unat (ctr_counter bits x i) div 2 ^ bits = unat x div 2 ^ bits"
proof -
  have d: "(2 :: nat) ^ bits dvd 2 ^ 128" using assms(2) by (rule le_imp_power_dvd)
  have t: "unat w mod 2 ^ bits = unat (take_bit bits w)" for w :: u128
    by (simp only: unsigned_take_bit_eq) (simp only: take_bit_eq_mod)
  have "unat (ctr_counter bits x i) mod 2 ^ bits = unat (take_bit bits x + word_of_nat i) mod 2 ^ bits"
    by (simp only: t ctr_counter_parts(1) [OF assms])
  also have "unat (take_bit bits x + word_of_nat i) = (unat x mod 2 ^ bits + i mod 2 ^ 128) mod 2 ^ 128"
    by (simp only: unat_word_ariths t unat_of_nat len_num0 len_num1 len_bit0) simp
  also have "(unat x mod 2 ^ bits + i mod 2 ^ 128) mod 2 ^ 128 mod 2 ^ bits = (unat x + i) mod 2 ^ bits"
    using mod_mod_cancel [OF d] by (metis mod_add_left_eq mod_add_right_eq)
  finally show "unat (ctr_counter bits x i) mod 2 ^ bits = (unat x + i) mod 2 ^ bits" .
  show "unat (ctr_counter bits x i) div 2 ^ bits = unat x div 2 ^ bits"
  proof -
    have "unat w div 2 ^ bits = unat (drop_bit bits w)" for w :: u128
      by (simp only: unsigned_drop_bit_eq take_bit_nat_eq_self [OF unsigned_less]) (simp only: drop_bit_eq_div)
    then show ?thesis by (simp only: ctr_counter_parts(2) [OF assms])
  qed
qed

lemma ctr_block_value:
  assumes "length cb \<le> 16" "1 \<le> bits" "bits \<le> length cb * 8"
  shows "length (ctr_block bits cb i) = length cb"
    and "be_nat (ctr_block bits cb i) = be_nat cb div 2 ^ bits * 2 ^ bits + (be_nat cb + i) mod 2 ^ bits"
proof -
  show "length (ctr_block bits cb i) = length cb" using assms(1) by (simp add: ctr_block_def)
  let ?c = "ctr_counter bits (ctr_initial cb) i"
  have b: "bits \<le> 128" using assms by linarith
  note parts = unat_ctr_counter [OF assms(2) b, of "ctr_initial cb" i]
  have u: "unat ?c = be_nat cb div 2 ^ bits * 2 ^ bits + (be_nat cb + i) mod 2 ^ bits"
    using parts unat_ctr_initial [OF assms(1)] by (metis div_mult_mod_eq)
  have dv: "(2 :: nat) ^ bits dvd 256 ^ length cb"
  proof -
    have "(256 :: nat) ^ length cb = 2 ^ (length cb * 8)" by (simp add: power_mult mult.commute [of "length cb"])
    then show ?thesis using assms(3) by (simp add: le_imp_power_dvd)
  qed
  then obtain q where q: "(256 :: nat) ^ length cb = q * 2 ^ bits" by (metis dvdE mult.commute)
  have "be_nat cb div 2 ^ bits < q"
    using be_nat_bound [of cb] unfolding q by (simp add: div_less_iff_less_mult)
  then have "unat ?c div 2 ^ bits < q" using parts unat_ctr_initial [OF assms(1)] by simp
  then have lt: "unat ?c < 256 ^ length cb" unfolding q by (simp add: div_less_iff_less_mult)
  have "ctr_block bits cb i = be_bytes (length cb) (unat ?c)"
    using drop_be_bytes [of "16 - length cb" "length cb" "unat ?c"] assms(1)
    by (simp add: ctr_block_def u128_be_def)
  then show "be_nat (ctr_block bits cb i)
      = be_nat cb div 2 ^ bits * 2 ^ bits + (be_nat cb + i) mod 2 ^ bits"
    using lt u by (simp add: be_nat_be_bytes)
qed

definition ctr_blocks :: "nat \<Rightarrow> bytes \<Rightarrow> nat \<Rightarrow> bytes" where
  "ctr_blocks bits cb k = concat (map (ctr_block bits cb) [0..<k])"

lemma length_ctr_blocks: "length cb \<le> 16 \<Longrightarrow> length (ctr_blocks bits cb k) = k * length cb"
  by (induction k) (simp_all add: ctr_blocks_def ctr_block_def)

definition ctr_ok :: "nat \<Rightarrow> bytes \<Rightarrow> nat \<Rightarrow> bool" where
  "ctr_ok bits cb len \<longleftrightarrow>
     cb \<noteq> [] \<and> length cb \<le> 16 \<and> 1 \<le> bits \<and> bits \<le> length cb * 8 \<and> len + 16 < usize_bound"

lemma ctr_with_returns:
  assumes ok: "ctr_ok bits cb (length x)" and e: "enc_callback (length cb) enc E" and E: "keeps_len (length cb) E"
  shows "returns (ctr_with bits cb x enc)
           (xor_bytes x (ecb (length cb) E (ctr_blocks bits cb (div_ceil (length x) (length cb)))))"
    and "length x \<le> length (ecb (length cb) E (ctr_blocks bits cb (div_ceil (length x) (length cb))))"
proof -
  let ?n = "length cb" and ?k = "div_ceil (length x) (length cb)"
  let ?ks = "ecb ?n E (ctr_blocks bits cb ?k)"
  have n0: "0 < ?n" and l16: "?n \<le> 16" using ok by (auto simp: ctr_ok_def)
  have d: "?n dvd length (ctr_blocks bits cb ?k)" using l16 by (simp add: length_ctr_blocks)
  have kl: "length ?ks = length (ctr_blocks bits cb ?k)" using n0 d E by (rule length_ecb)
  show "length x \<le> length ?ks" using div_ceil_bounds(1) [OF n0] kl l16 by (simp add: length_ctr_blocks)
  have "?k * ?n < usize_bound"
    using div_ceil_bounds(2) [OF n0, of "length x"] l16 ok by (simp add: ctr_ok_def)
  moreover have "returns (bindE (map_errE Mode_BlockOperation (enc (ctr_blocks bits cb ?k))) (\<lambda>key_stream.
     bindE (rejectE (length key_stream \<noteq> length (ctr_blocks bits cb ?k)) Mode_InvalidBlockOutput) (\<lambda>_.
     okE (xor_bytes x key_stream)))) (xor_bytes x ?ks)"
    by (rule returns_bindE [OF returns_map_errE [OF enc_callbackD [OF e d]]]) (simp add: kl returns_okE)
  ultimately show "returns (ctr_with bits cb x enc) (xor_bytes x ?ks)"
    using ok by (simp add: ctr_with_def Let_def checked_mul_def ok_orE_def ctr_ok_def rejectE_def ctr_blocks_def)
qed

text \<open>CTR as an invertible operation: both directions are the same call.\<close>

interpretation ctr: invertible_op
  "\<lambda>(bits, cb, enc :: bytes \<Rightarrow> ('s, 'e, bytes) op) x.
     ctr_ok bits cb (length x) \<and> (\<exists>E. enc_callback (length cb) enc E \<and> keeps_len (length cb) E)"
  "\<lambda>(bits, cb, enc) x. ctr_with bits cb x enc"
  "\<lambda>(bits, cb, enc) x. ctr_with bits cb x enc"
  "\<lambda>_ len. len"
proof (unfold_locales, goal_cases)
  case (1 c x)
  obtain bits cb and enc :: "bytes \<Rightarrow> ('s, 'e, bytes) op" where c: "c = (bits, cb, enc)" by (cases c)
  from 1 obtain E where ok: "ctr_ok bits cb (length x)" and e: "enc_callback (length cb) enc E"
    and E: "keeps_len (length cb) E" by (auto simp: c)
  let ?ks = "ecb (length cb) E (ctr_blocks bits cb (div_ceil (length x) (length cb)))"
  note fwd = ctr_with_returns [OF ok e E]
  have len: "length (xor_bytes x ?ks) = length x" using fwd(2) by simp
  have "ctr_ok bits cb (length (xor_bytes x ?ks))" using ok by (simp only: len)
  from ctr_with_returns(1) [OF this e E]
  have "returns (ctr_with bits cb (xor_bytes x ?ks) enc) (xor_bytes (xor_bytes x ?ks) ?ks)"
    by (simp only: len)
  then have "returns (ctr_with bits cb (xor_bytes x ?ks) enc) x"
    by (simp only: xor_bytes_involution [OF fwd(2)])
  then show ?case using fwd(1) len by (auto simp: c)
qed



section \<open>Properties\<close>

text \<open>
  C7: For both block sizes CMAC has, and any callback that encrypts whole blocks with \<open>E\<close>,
  \<open>cmac_with\<close> (block by block) and \<open>cmac_with_cbc\<close> (one zero-IV CBC call over the padded
  message) return without error, and both return the reference CMAC of the data; for data of
  every length, empty and partial last blocks included.
\<close>

theorem cmac_equivalence:
  assumes "n = 8 \<or> n = 16" "enc_callback n cb E" "keeps_len n E"
    and "\<And>x. n dvd length x \<Longrightarrow> returns (cbc x) (cbc_spec n E (replicate n 0) x)"
    and "length data + n < usize_bound"
  shows "returns (cmac_with n data cb) (cmac_spec n E data)
       \<and> returns (cmac_with_cbc n data cb cbc) (cmac_spec n E data)"
  using cmac_with_spec [OF assms(1-3)] cmac_with_cbc_spec [OF assms] by simp

theorem cmac_equivalence_witness:
  "returns (cmac_with 8 [1, 2, 3] (\<lambda>x. sample_cb 8 x True)) (cmac_spec 8 sample_E [1, 2, 3])
   \<and> returns (cmac_with_cbc 8 [1, 2, 3] (\<lambda>x. sample_cb 8 x True)
         (\<lambda>x. map_errE (\<lambda>_. ()) (cbc_with 8 (replicate 8 0) x True (sample_cb 8)))) (cmac_spec 8 sample_E [1, 2, 3])"
proof (rule cmac_equivalence)
  show "keeps_len 8 sample_E" using block_perm_sample by (rule block_perm_keeps_len)
  show "returns (map_errE (\<lambda>_. ()) (cbc_with 8 (replicate 8 0) x True (sample_cb 8)))
      (cbc_spec 8 sample_E (replicate 8 0) x)"
    if "8 dvd length x" for x
    by (rule returns_map_errE, rule cbc_with_encrypts)
       (use that \<open>keeps_len 8 sample_E\<close> in \<open>simp_all add: enc_callback_sample\<close>)
qed (simp_all add: enc_callback_sample usize_bound_def)

text \<open>
  Subkey derivation doubles in the binary field: read as a number, \<open>cmac_double\<close> of a block
  of 8 or 16 bytes is the block shifted left by one bit, reduced with the polynomial of that
  block size when the top bit falls out.
\<close>

theorem cmac_double_field:
  assumes "length b = n" "n = 8 \<or> n = 16"
  shows "be_nat (cmac_double b) = gf_double n (be_nat b)"
  using assms by (rule cmac_double_gf)

theorem cmac_double_field_witness:
  "be_nat (cmac_double [0x80, 0, 0, 0, 0, 0, 0, 1]) = gf_double 8 (be_nat [0x80, 0, 0, 0, 0, 0, 0, 1])
   \<and> gf_double 8 (be_nat [0x80, 0, 0, 0, 0, 0, 0, 1]) = 0x19"
  using cmac_double_field [of "[0x80, 0, 0, 0, 0, 0, 0, 1]" 8] by (simp add: gf_double_def be_nat_def)

text \<open>
  C8: Every counter block that \<open>ctr_with\<close> encrypts keeps the bits above \<open>counter_bits\<close> of the
  initial counter block and adds the block index to the low \<open>counter_bits\<close> bits modulo
  \<open>2 ^ counter_bits\<close>; so the blocks of one message are pairwise different as long as there are
  at most \<open>2 ^ counter_bits\<close> of them.
\<close>

theorem ctr_blocks_distinct:
  assumes "length cb \<le> 16" "1 \<le> bits" "bits \<le> length cb * 8"
    and k: "k \<le> 2 ^ bits"
  shows "be_nat (ctr_block bits cb i) div 2 ^ bits = be_nat cb div 2 ^ bits
       \<and> be_nat (ctr_block bits cb i) mod 2 ^ bits = (be_nat cb + i) mod 2 ^ bits
       \<and> distinct (map (ctr_block bits cb) [0..<k])"
proof -
  note v = ctr_block_value(2) [OF assms(1-3)]
  have m: "be_nat (ctr_block bits cb j) mod 2 ^ bits = (be_nat cb + j) mod 2 ^ bits" for j by (simp add: v)
  have "a = b" if "a < k" "b < k" "ctr_block bits cb a = ctr_block bits cb b" for a b
  proof -
    have "(be_nat cb + a) mod 2 ^ bits = (be_nat cb + b) mod 2 ^ bits"
      unfolding m [symmetric] using that(3) by simp
    then show ?thesis using that(1,2) k by (intro add_mod_inj [of a "2 ^ bits" b "be_nat cb"]) simp_all
  qed
  then have "distinct (map (ctr_block bits cb) [0..<k])" by (auto simp: distinct_map inj_on_def)
  then show ?thesis using m by (simp add: v)
qed

theorem ctr_blocks_distinct_witness:
  "distinct (map (ctr_block 2 [0, 0xff]) [0..<4])"
  using ctr_blocks_distinct [of "[0, 0xff]" 2 4] by simp

text \<open>
  With a callback that encrypts whole blocks, \<open>ctr_with\<close> returns an output as long as its
  input, and applied to its own output it returns the input; two inputs with the same output
  are equal.
\<close>

theorem ctr_involution:
  assumes "ctr_ok bits cb (length x)" "enc_callback (length cb) enc E" "keeps_len (length cb) E"
  shows "\<exists>y. returns (ctr_with bits cb x enc) y \<and> length y = length x
           \<and> returns (ctr_with bits cb y enc) x
           \<and> (\<forall>x'. length x' = length x \<and> returns (ctr_with bits cb x' enc) y \<longrightarrow> x' = x)"
proof -
  have ok: "ctr_ok bits cb (length z) \<and> (\<exists>E. enc_callback (length cb) enc E \<and> keeps_len (length cb) E)"
    if "length z = length x" for z :: bytes
    using assms that by auto
  from ctr.fwd_bwd [of "(bits, cb, enc)" x] ok [OF refl]
  obtain y where y: "returns (ctr_with bits cb x enc) y" "length y = length x"
    "returns (ctr_with bits cb y enc) x" by auto
  moreover have "x' = x" if "length x' = length x" "returns (ctr_with bits cb x' enc) y" for x'
    using ctr.fwd_injective [of "(bits, cb, enc)" x' x y] ok [OF refl] ok [OF that(1)] that(2) y(1) by simp
  ultimately show ?thesis by blast
qed

theorem ctr_involution_witness:
  "\<exists>y. returns (ctr_with 8 [0, 0, 0, 0xff] [1, 2, 3, 4, 5] (\<lambda>x. sample_cb 4 x True)) y \<and> length y = 5
     \<and> returns (ctr_with 8 [0, 0, 0, 0xff] y (\<lambda>x. sample_cb 4 x True)) [1, 2, 3, 4, 5]"
proof -
  have n: "length [0, 0, 0, 0xff :: byte] = 4" "length [1, 2, 3, 4, 5 :: byte] = 5" by simp_all
  have ok: "ctr_ok 8 [0, 0, 0, 0xff] (length [1, 2, 3, 4, 5 :: byte])"
    by (simp add: ctr_ok_def usize_bound_def)
  show ?thesis
    using ctr_involution [OF ok, of "\<lambda>x. sample_cb 4 x True" sample_E] enc_callback_sample [of 4]
      block_perm_keeps_len [OF block_perm_sample [of 4]]
    unfolding n by blast
qed

end
