(* ===== verification/Aead_Modes.thy ===== *)
theory Aead_Modes
  imports Cbc_Padding
begin

text \<open>
  \<^verbatim>\<open>src/src/software_symmetric.rs\<close>, lines 506 to 753: CCM over two caller-supplied
  operations and GCM over a caller-supplied block encryption. \<open>GHash\<close> belongs to the \<open>ghash\<close>
  crate; its operations are a parameter, of which only the 16-byte result is used.
  Both modes are proved exact: opening accepts precisely what sealing produced.
\<close>

definition ccm_counter_block :: "bytes \<Rightarrow> nat \<Rightarrow> bytes" where
  "ccm_counter_block nonce counter =
     (let length_bytes = 15 - length nonce;
          block = replicate AES_BLOCK_SIZE 0;
          block = block[0 := word_of_nat (length_bytes - 1)];
          block = copy_at 1 nonce block;
          encoded = u64_be (word_of_nat counter)
      in copy_at (AES_BLOCK_SIZE - length_bytes) (drop (length encoded - length_bytes) encoded) block)"

definition ccm_b0 :: "nat \<Rightarrow> bytes \<Rightarrow> bytes \<Rightarrow> nat \<Rightarrow> bytes" where
  "ccm_b0 data_length nonce aad tag_length =
     (let length_bytes = 15 - length nonce;
          b0 = replicate AES_BLOCK_SIZE 0;
          b0 = b0[0 := push_bit 6 (if aad \<noteq> [] then 1 else 0)
                         OR push_bit 3 (word_of_nat ((tag_length - 2) div 2))
                         OR word_of_nat (length_bytes - 1)];
          b0 = copy_at 1 nonce b0;
          encoded_length = u64_be (word_of_nat data_length)
      in copy_at (AES_BLOCK_SIZE - length_bytes)
           (drop (length encoded_length - length_bytes) encoded_length) b0)"

definition ccm_mac_input :: "nat \<Rightarrow> bytes \<Rightarrow> bytes \<Rightarrow> nat \<Rightarrow> bytes \<Rightarrow> bytes" where
  "ccm_mac_input data_length nonce aad tag_length plaintext =
     (let mac_input = ccm_b0 data_length nonce aad tag_length;
          mac_input =
            (if aad \<noteq> [] then
               let mac_input = (if length aad < 0xff00 then mac_input @ u16_be (word_of_nat (length aad))
                                else mac_input @ [0xff, 0xfe] @ u32_be (word_of_nat (length aad)));
                   mac_input = mac_input @ aad;
                   padded_length = next_multiple_of (length mac_input) AES_BLOCK_SIZE
               in resize padded_length 0 mac_input
             else mac_input);
          mac_input = mac_input @ plaintext;
          padded_length = next_multiple_of (length mac_input) AES_BLOCK_SIZE
      in resize padded_length 0 mac_input)"

definition ccm_with ::
  "nat \<Rightarrow> bytes \<Rightarrow> bytes \<Rightarrow> nat \<Rightarrow> bytes \<Rightarrow> bool \<Rightarrow> (CcmOperation \<Rightarrow> bytes \<Rightarrow> ('s, 'e, bytes) op)
     \<Rightarrow> ('s, 'e CcmError, bytes) op" where
  "ccm_with data_length nonce aad tag_length input encrypting crypt =
     bindE (rejectE (\<not> (7 \<le> length nonce \<and> length nonce \<le> 13)) Ccm_InvalidNonceLength) (\<lambda>_.
     bindE (rejectE (tag_length \<notin> {4, 6, 8, 10, 12, 14, 16}) Ccm_InvalidTagLength) (\<lambda>_.
     let length_bytes = 15 - length nonce in
     bindE (rejectE (length_bytes < 8 \<and> data_length \<ge> 2 ^ (length_bytes * 8)) Ccm_InputTooLong) (\<lambda>_.
     bindE (rejectE (length aad > 2 ^ 32 - 1) Ccm_InputTooLong) (\<lambda>_.
     bindE (if encrypting then okE data_length
            else ok_orE Ccm_InputTooLong (checked_add data_length tag_length)) (\<lambda>expected_input.
     bindE (rejectE (length input \<noteq> expected_input) Ccm_InvalidDataLength) (\<lambda>_.
     let (payload, supplied_tag) = (if encrypting then (input, None)
                                    else (take data_length input, Some (drop data_length input)));
         block_count = div_ceil data_length AES_BLOCK_SIZE in
     bindE (ok_orE Ccm_InputTooLong
              (Option.bind (checked_add block_count 1) (\<lambda>blocks. checked_mul blocks AES_BLOCK_SIZE))) (\<lambda>_.
     let counter_blocks = concat (map (ccm_counter_block nonce) [0..<block_count + 1]) in
     bindE (map_errE Ccm_BlockOperation (crypt EncryptBlocks counter_blocks)) (\<lambda>key_stream.
     bindE (rejectE (length key_stream \<noteq> length counter_blocks) Ccm_InvalidBlockOutput) (\<lambda>_.
     let transformed = concat (map2 xor_bytes (chunks AES_BLOCK_SIZE payload)
                                 (chunks AES_BLOCK_SIZE (drop AES_BLOCK_SIZE key_stream)));
         plaintext = (if encrypting then payload else transformed);
         mac_input = ccm_mac_input data_length nonce aad tag_length plaintext in
     bindE (map_errE Ccm_BlockOperation (crypt CbcMac mac_input)) (\<lambda>mac.
     bindE (rejectE (length mac \<noteq> AES_BLOCK_SIZE) Ccm_InvalidBlockOutput) (\<lambda>_.
     let tag = xor_bytes (take tag_length mac) (take tag_length key_stream) in
     case supplied_tag of
       Some supplied_tag \<Rightarrow> bindE (rejectE (tag \<noteq> supplied_tag) Ccm_AuthenticationFailed) (\<lambda>_. okE transformed)
     | None \<Rightarrow> okE (transformed @ tag))))))))))))"

text \<open>The operations of \<open>ghash::GHash\<close> that the code calls.\<close>

record 'h ghash_lib =
  gh_new :: "bytes \<Rightarrow> 'h"
  gh_update_padded :: "'h \<Rightarrow> bytes \<Rightarrow> 'h"
  gh_update :: "'h \<Rightarrow> bytes list \<Rightarrow> 'h"
  gh_finalize :: "'h \<Rightarrow> bytes"

definition ghash :: "'h ghash_lib \<Rightarrow> bytes \<Rightarrow> bytes \<Rightarrow> bytes \<Rightarrow> bytes option" where
  "ghash lib key aad ciphertext =
     Option.bind (checked_mul (length aad) 8) (\<lambda>aad_bits.
     Option.bind (checked_mul (length ciphertext) 8) (\<lambda>ciphertext_bits.
     let hash = gh_new lib key;
         hash = gh_update_padded lib hash aad;
         hash = gh_update_padded lib hash ciphertext;
         lengths = u64_be (word_of_nat aad_bits) @ u64_be (word_of_nat ciphertext_bits);
         hash = gh_update lib hash [lengths]
     in Some (gh_finalize lib hash)))"

definition increment_gcm_counter :: "bytes \<Rightarrow> bytes" where
  "increment_gcm_counter counter =
     (let value = u32_from_be (drop 12 counter) + 1 in copy_at 12 (u32_be value) counter)"

definition gcm_tag :: "bytes \<Rightarrow> nat \<Rightarrow> bytes" where
  "gcm_tag full_tag tag_bits =
     (let tag_length = div_ceil tag_bits 8;
          tag = take tag_length full_tag
      in if tag_bits mod 8 \<noteq> 0 then
           let mask = push_bit (8 - tag_bits mod 8) (0xff :: byte)
           in if tag = [] then tag else tag[length tag - 1 := last tag AND mask]
         else tag)"

text \<open>The counter blocks: the initial one and \<open>k\<close> successors.\<close>

fun gcm_counter_blocks :: "nat \<Rightarrow> bytes \<Rightarrow> bytes" where
  "gcm_counter_blocks 0 counter = counter"
| "gcm_counter_blocks (Suc k) counter = counter @ gcm_counter_blocks k (increment_gcm_counter counter)"

definition gcm_with ::
  "'h ghash_lib \<Rightarrow> bytes \<Rightarrow> bytes \<Rightarrow> nat \<Rightarrow> bytes \<Rightarrow> bool \<Rightarrow> (bytes \<Rightarrow> ('s, 'e, bytes) op)
     \<Rightarrow> ('s, 'e GcmError, bytes) op" where
  "gcm_with lib iv aad tag_bits input encrypting encrypt_blocks =
     bindE (rejectE (iv = []) Gcm_InvalidIvLength) (\<lambda>_.
     bindE (rejectE (tag_bits > AES_BLOCK_SIZE * 8) Gcm_InvalidTagLength) (\<lambda>_.
     let tag_length = div_ceil tag_bits 8 in
     bindE (if encrypting then okE (input, None)
            else bindE (rejectE (length input < tag_length) Gcm_CiphertextTooShort) (\<lambda>_.
                 let split = length input - tag_length
                 in okE (take split input, Some (drop split input)))) (\<lambda>(payload, supplied_tag).
     let block_count = div_ceil (length payload) AES_BLOCK_SIZE in
     bindE (rejectE (block_count > 2 ^ 32 - 1 - 2) Gcm_InputTooLong) (\<lambda>_.
     bindE (map_errE Gcm_BlockOperation (encrypt_blocks (replicate AES_BLOCK_SIZE 0))) (\<lambda>hash_subkey.
     bindE (rejectE (length hash_subkey \<noteq> AES_BLOCK_SIZE) Gcm_InvalidBlockOutput) (\<lambda>_.
     bindE (if length iv = 12 then okE ((copy_at 0 iv (replicate AES_BLOCK_SIZE 0))[15 := 1])
            else ok_orE Gcm_InputTooLong (ghash lib hash_subkey [] iv)) (\<lambda>initial_counter.
     bindE (ok_orE Gcm_InputTooLong (checked_mul (block_count + 1) AES_BLOCK_SIZE)) (\<lambda>_.
     let counter_blocks = gcm_counter_blocks block_count initial_counter in
     bindE (map_errE Gcm_BlockOperation (encrypt_blocks counter_blocks)) (\<lambda>encrypted_counters.
     bindE (rejectE (length encrypted_counters \<noteq> length counter_blocks) Gcm_InvalidBlockOutput) (\<lambda>_.
     let transformed = concat (map2 xor_bytes (chunks AES_BLOCK_SIZE payload)
                                 (chunks AES_BLOCK_SIZE (drop AES_BLOCK_SIZE encrypted_counters)));
         ciphertext = (if encrypting then transformed else payload) in
     bindE (ok_orE Gcm_InputTooLong (ghash lib hash_subkey aad ciphertext)) (\<lambda>hash.
     let full_tag = xor_bytes (take AES_BLOCK_SIZE encrypted_counters) hash;
         expected_tag = gcm_tag full_tag tag_bits in
     case supplied_tag of
       Some supplied_tag \<Rightarrow>
         bindE (rejectE (expected_tag \<noteq> supplied_tag) Gcm_AuthenticationFailed) (\<lambda>_. okE transformed)
     | None \<Rightarrow> okE (transformed @ expected_tag))))))))))))"



section \<open>Stream encryption with a tag\<close>

text \<open>What CCM and GCM have in common: a key stream, and a tag over plaintext and ciphertext.\<close>

definition stream_seal :: "bytes \<Rightarrow> (bytes \<Rightarrow> bytes \<Rightarrow> bytes) \<Rightarrow> bytes \<Rightarrow> bytes" where
  "stream_seal ks T x = xor_bytes x ks @ T x (xor_bytes x ks)"

lemma stream_open_iff:
  assumes "length x + t = length y" "length x \<le> length ks" "\<And>a b. length (T a b) = t"
  shows "stream_seal ks T x = y \<longleftrightarrow>
    xor_bytes (take (length x) y) ks = x \<and> T x (take (length x) y) = drop (length x) y"
proof -
  let ?c = "take (length x) y"
  have "stream_seal ks T x = y \<longleftrightarrow> xor_bytes x ks = ?c \<and> T x (xor_bytes x ks) = drop (length x) y"
    unfolding stream_seal_def using assms by (subst append_eq_conv_conj) (auto simp: min_def)
  moreover have "xor_bytes x ks = ?c \<longleftrightarrow> xor_bytes ?c ks = x"
    using xor_bytes_involution [of x ks] xor_bytes_involution [of ?c ks] assms by auto
  ultimately show ?thesis by auto
qed

lemma mixed_chunks:
  "length x \<le> length ks \<Longrightarrow>
   concat (map2 xor_bytes (chunks AES_BLOCK_SIZE x) (chunks AES_BLOCK_SIZE ks)) = xor_bytes x ks"
  by (rule xor_chunks) (simp add: AES_BLOCK_SIZE_def)

lemma silent_reject: "(\<not> c \<Longrightarrow> silent (f ())) \<Longrightarrow> silent (bindE (rejectE c e) f)"
  by (cases c) simp_all


section \<open>CCM\<close>

definition ccm_ok :: "nat \<Rightarrow> bytes \<Rightarrow> bytes \<Rightarrow> nat \<Rightarrow> bool" where
  "ccm_ok data_length nonce aad tag_length \<longleftrightarrow>
     7 \<le> length nonce \<and> length nonce \<le> 13 \<and> tag_length \<in> {4, 6, 8, 10, 12, 14, 16}
     \<and> data_length < 256 ^ (15 - length nonce) \<and> length aad < 2 ^ 32 \<and> data_length + 32 < usize_bound"

text \<open>What the caller's two operations compute: \<open>E\<close> on blocks, \<open>M\<close> on whole blocks.\<close>

definition ccm_callback ::
  "(CcmOperation \<Rightarrow> bytes \<Rightarrow> ('s, 'e, bytes) op) \<Rightarrow> (bytes \<Rightarrow> bytes) \<Rightarrow> (bytes \<Rightarrow> bytes) \<Rightarrow> bool" where
  "ccm_callback crypt E M \<longleftrightarrow>
     enc_callback 16 (crypt EncryptBlocks) E \<and> keeps_len 16 E
     \<and> (\<forall>x. 16 dvd length x \<longrightarrow> returns (crypt CbcMac x) (M x)) \<and> (\<forall>x. length (M x) = 16)"

definition ccm_stream :: "(bytes \<Rightarrow> bytes) \<Rightarrow> bytes \<Rightarrow> nat \<Rightarrow> bytes" where
  "ccm_stream E nonce data_length =
     ecb 16 E (concat (map (ccm_counter_block nonce) [0..<div_ceil data_length 16 + 1]))"

definition ccm_seal ::
  "(bytes \<Rightarrow> bytes) \<Rightarrow> (bytes \<Rightarrow> bytes) \<Rightarrow> bytes \<Rightarrow> bytes \<Rightarrow> nat \<Rightarrow> bytes \<Rightarrow> bytes" where
  "ccm_seal E M nonce aad tag_length x =
     (let s = ccm_stream E nonce (length x)
      in stream_seal (drop 16 s) (\<lambda>p c. xor_bytes (take tag_length (M (ccm_mac_input (length x) nonce aad tag_length p)))
                                     (take tag_length s)) x)"

lemma length_ccm_counter_block:
  assumes "7 \<le> length nonce" "length nonce \<le> 13"
  shows "length (ccm_counter_block nonce i) = 16"
  using assms by (simp add: ccm_counter_block_def Let_def AES_BLOCK_SIZE_def copy_at_def)

lemma ccm_counter_blocks_length:
  assumes "7 \<le> length nonce" "length nonce \<le> 13"
  shows "length (concat (map (ccm_counter_block nonce) [0..<k])) = 16 * k"
  using length_ccm_counter_block [OF assms] by (induction k) simp_all

lemma length_ccm_stream:
  assumes "7 \<le> length nonce" "length nonce \<le> 13" "keeps_len 16 E"
  shows "length (ccm_stream E nonce len) = 16 * (div_ceil len 16 + 1)"
  unfolding ccm_stream_def
  by (subst length_ecb [OF _ _ assms(3)]) (simp_all add: ccm_counter_blocks_length [OF assms(1,2)] del: upt_Suc)

lemma ccm_mac_input_aligned: "16 dvd length (ccm_mac_input len nonce aad t p)"
  using next_multiple_of_props(1) [of 16] by (simp add: ccm_mac_input_def Let_def AES_BLOCK_SIZE_def)

lemma ccm_params:
  assumes "ccm_ok len nonce aad t"
  shows "\<not> (15 - length nonce < 8 \<and> len \<ge> 2 ^ ((15 - length nonce) * 8))"
    and "\<not> length aad > 2 ^ 32 - 1"
    and "checked_add len t = Some (len + t)"
    and "Option.bind (checked_add (div_ceil len 16) 1) (\<lambda>b. checked_mul b 16) = Some ((div_ceil len 16 + 1) * 16)"
proof -
  have "(256 :: nat) ^ (15 - length nonce) = 2 ^ ((15 - length nonce) * 8)"
    by (simp add: power_mult mult.commute [of _ 8])
  then show "\<not> (15 - length nonce < 8 \<and> len \<ge> 2 ^ ((15 - length nonce) * 8))"
    using assms by (simp add: ccm_ok_def)
  show "\<not> length aad > 2 ^ 32 - 1" using assms by (simp add: ccm_ok_def)
  have "t \<le> 16" using assms by (auto simp: ccm_ok_def)
  then show "checked_add len t = Some (len + t)" using assms by (simp add: ccm_ok_def checked_add_def)
  have "div_ceil len 16 * 16 < len + 16" by (rule div_ceil_bounds) simp
  then show "Option.bind (checked_add (div_ceil len 16) 1) (\<lambda>b. checked_mul b 16)
      = Some ((div_ceil len 16 + 1) * 16)"
    using assms by (simp add: ccm_ok_def checked_add_def checked_mul_def)
qed

text \<open>The body after validation: one call for the key stream, one for the tag.\<close>

lemma ccm_calls:
  assumes ok: "ccm_ok len nonce aad t" and cb: "ccm_callback crypt E M"
    and pl: "length payload = len"
    and cont: "\<And>ks p. ks = ccm_stream E nonce len \<Longrightarrow> p = xor_bytes payload (drop 16 ks) \<Longrightarrow>
       Q (f p (xor_bytes (take t (M (ccm_mac_input len nonce aad t (if e then payload else p)))) (take t ks)))"
    and Q: "\<And>(m :: ('s, 'e CcmError, bytes) op) x f. returns m x \<Longrightarrow> Q (f x) \<Longrightarrow> Q (bindE m f)"
  shows "Q (let counter_blocks = concat (map (ccm_counter_block nonce) [0..<div_ceil len AES_BLOCK_SIZE + 1]) in
     bindE (map_errE Ccm_BlockOperation (crypt EncryptBlocks counter_blocks)) (\<lambda>key_stream.
     bindE (rejectE (length key_stream \<noteq> length counter_blocks) Ccm_InvalidBlockOutput) (\<lambda>_.
     let transformed = concat (map2 xor_bytes (chunks AES_BLOCK_SIZE payload)
                                 (chunks AES_BLOCK_SIZE (drop AES_BLOCK_SIZE key_stream)));
         plaintext = (if e then payload else transformed);
         mac_input = ccm_mac_input len nonce aad t plaintext in
     bindE (map_errE Ccm_BlockOperation (crypt CbcMac mac_input)) (\<lambda>mac.
     bindE (rejectE (length mac \<noteq> AES_BLOCK_SIZE) Ccm_InvalidBlockOutput) (\<lambda>_.
     f transformed (xor_bytes (take t mac) (take t key_stream)))))))"
proof -
  let ?cbs = "concat (map (ccm_counter_block nonce) [0..<div_ceil len 16 + 1])"
  let ?ks = "ccm_stream E nonce len"
  have n: "7 \<le> length nonce" "length nonce \<le> 13" using ok by (auto simp: ccm_ok_def)
  have E: "enc_callback 16 (crypt EncryptBlocks) E" "keeps_len 16 E" "\<And>x. length (M x) = 16"
    and M: "\<And>x. 16 dvd length x \<Longrightarrow> returns (crypt CbcMac x) (M x)"
    using cb by (auto simp: ccm_callback_def)
  have cl: "length ?cbs = 16 * (div_ceil len 16 + 1)" by (rule ccm_counter_blocks_length [OF n])
  then have "16 dvd length ?cbs" by (metis dvd_triv_left)
  then have r: "returns (crypt EncryptBlocks ?cbs) ?ks"
    unfolding ccm_stream_def using enc_callbackD [OF E(1)] by blast
  have kl: "length ?ks = length ?cbs" using length_ccm_stream [OF n E(2)] cl by simp
  have "length payload \<le> length (drop 16 ?ks)"
    using length_ccm_stream [OF n E(2), of len] div_ceil_bounds(1) [of 16 len] pl by simp
  note t = mixed_chunks [OF this, unfolded AES_BLOCK_SIZE_def]
  show ?thesis unfolding AES_BLOCK_SIZE_def Let_def
    by (rule Q [OF returns_map_errE [OF r]], simp only: kl t simp_thms rejectE_simps bindE_okE,
        rule Q [OF returns_map_errE [OF M [OF ccm_mac_input_aligned]]])
       (simp only: E(3) simp_thms rejectE_simps bindE_okE cont)
qed

lemma ccm_with_valid:
  assumes "ccm_ok len nonce aad t" "length input = (if e then len else len + t)"
  shows "ccm_with len nonce aad t input e crypt =
    (let counter_blocks = concat (map (ccm_counter_block nonce) [0..<div_ceil len AES_BLOCK_SIZE + 1]);
         payload = (if e then input else take len input) in
     bindE (map_errE Ccm_BlockOperation (crypt EncryptBlocks counter_blocks)) (\<lambda>key_stream.
     bindE (rejectE (length key_stream \<noteq> length counter_blocks) Ccm_InvalidBlockOutput) (\<lambda>_.
     let transformed = concat (map2 xor_bytes (chunks AES_BLOCK_SIZE payload)
                                 (chunks AES_BLOCK_SIZE (drop AES_BLOCK_SIZE key_stream)));
         plaintext = (if e then payload else transformed);
         mac_input = ccm_mac_input len nonce aad t plaintext in
     bindE (map_errE Ccm_BlockOperation (crypt CbcMac mac_input)) (\<lambda>mac.
     bindE (rejectE (length mac \<noteq> AES_BLOCK_SIZE) Ccm_InvalidBlockOutput) (\<lambda>_.
     (\<lambda>p tag. if e then okE (p @ tag)
        else bindE (rejectE (tag \<noteq> drop len input) Ccm_AuthenticationFailed) (\<lambda>_. okE p))
     transformed (xor_bytes (take t mac) (take t key_stream)))))))"
proof -
  note p = ccm_params [OF assms(1)]
  have "7 \<le> length nonce \<and> length nonce \<le> 13" "\<not> t \<notin> {4, 6, 8, 10, 12, 14, 16}"
    using assms(1) by (auto simp: ccm_ok_def)
  note simps = this p(1,2) rejectE_simps bindE_okE simp_thms Let_def
  show ?thesis
  proof (cases e)
    case True
    then show ?thesis using assms(2) p(4) unfolding ccm_with_def
      by (simp only: simps if_True prod.case option.case AES_BLOCK_SIZE_def ok_orE_def)
  next
    case False
    then show ?thesis using assms(2) p(3,4) unfolding ccm_with_def
      by (simp only: simps if_False prod.case option.case AES_BLOCK_SIZE_def ok_orE_def)
  qed
qed

lemma ccm_encrypt:
  assumes "ccm_ok (length x) nonce aad t" "ccm_callback crypt E M"
  shows "returns (ccm_with (length x) nonce aad t x True crypt) (ccm_seal E M nonce aad t x)"
  by (subst ccm_with_valid [OF assms(1)], simp, subst Let_def, unfold if_True,
      rule ccm_calls [OF assms, where e = True, unfolded if_True])
     (auto simp: ccm_seal_def stream_seal_def Let_def returns_okE intro: returns_bindE)

lemma ccm_decrypt:
  assumes "ccm_ok len nonce aad t" "ccm_callback crypt E M" "length y = len + t"
    and "ks = ccm_stream E nonce len" "x = xor_bytes (take len y) (drop 16 ks)"
    and "tag = xor_bytes (take t (M (ccm_mac_input len nonce aad t x))) (take t ks)"
  shows "tag = drop len y \<Longrightarrow> returns (ccm_with len nonce aad t y False crypt) x"
    and "tag \<noteq> drop len y \<Longrightarrow> fails (ccm_with len nonce aad t y False crypt) Ccm_AuthenticationFailed"
proof -
  have l: "length (take len y) = len" using assms(3) by simp
  note step = ccm_calls [OF assms(1,2) l, where e = False, unfolded if_False]
  assume "tag = drop len y"
  then show "returns (ccm_with len nonce aad t y False crypt) x"
    using assms(3-6)
    by (subst ccm_with_valid [OF assms(1)], simp, subst Let_def, unfold if_False,
        intro step [where Q = "\<lambda>m. returns m x"]) (auto simp: returns_okE intro: returns_bindE)
next
  have l: "length (take len y) = len" using assms(3) by simp
  note step = ccm_calls [OF assms(1,2) l, where e = False, unfolded if_False]
  assume "tag \<noteq> drop len y"
  then show "fails (ccm_with len nonce aad t y False crypt) Ccm_AuthenticationFailed"
    using assms(3-6)
    by (subst ccm_with_valid [OF assms(1)], simp, subst Let_def, unfold if_False,
        intro step [where Q = "\<lambda>m. fails m Ccm_AuthenticationFailed"]) (auto intro: fails_bindE_right)
qed

lemma length_ccm_seal:
  assumes "ccm_ok (length x) nonce aad t" "ccm_callback crypt E M"
  shows "length (ccm_seal E M nonce aad t x) = length x + t"
proof -
  have n: "7 \<le> length nonce" "length nonce \<le> 13" and t: "t \<le> 16" using assms(1) by (auto simp: ccm_ok_def)
  have E: "keeps_len 16 E" "\<And>x. length (M x) = 16" using assms(2) by (auto simp: ccm_callback_def)
  show ?thesis
    using length_ccm_stream [OF n E(1), of "length x"] div_ceil_bounds(1) [of 16 "length x"] E(2) t
    by (simp add: ccm_seal_def stream_seal_def Let_def)
qed

lemma ccm_decrypt_iff:
  assumes ok: "ccm_ok len nonce aad t" and cb: "ccm_callback crypt E M"
  shows "returns (ccm_with len nonce aad t y False crypt) x \<longleftrightarrow>
           length x = len \<and> y = ccm_seal E M nonce aad t x"
proof (cases "length y = len + t")
  case len: True
  let ?ks = "ccm_stream E nonce len" and ?c = "take len y"
  let ?x = "xor_bytes ?c (drop 16 ?ks)"
  let ?T = "\<lambda>p. xor_bytes (take t (M (ccm_mac_input len nonce aad t p))) (take t ?ks)"
  have n: "7 \<le> length nonce" "length nonce \<le> 13" and t: "t \<le> 16" using ok by (auto simp: ccm_ok_def)
  have E: "keeps_len 16 E" "\<And>x. length (M x) = 16" using cb by (auto simp: ccm_callback_def)
  have kl: "len \<le> length (drop 16 ?ks)" "16 \<le> length ?ks"
    using length_ccm_stream [OF n E(1), of len] div_ceil_bounds(1) [of 16 len] by simp_all
  have tl: "length (?T p) = t" for p using E(2) t kl by simp
  have "returns (ccm_with len nonce aad t y False crypt) x \<longleftrightarrow> x = ?x \<and> ?T ?x = drop len y"
    using ccm_decrypt [OF ok cb len refl refl refl] returns_unique returns_not_fails by metis
  also have "\<dots> \<longleftrightarrow> length x = len \<and> stream_seal (drop 16 ?ks) (\<lambda>p c. ?T p) x = y"
  proof (cases "length x = len")
    case True
    then show ?thesis
      using stream_open_iff [of x t y "drop 16 ?ks" "\<lambda>p c. ?T p"] len kl tl by auto
  next
    case False
    have "length ?x = len" using len kl by simp
    then show ?thesis using False by blast
  qed
  also have "\<dots> \<longleftrightarrow> length x = len \<and> y = ccm_seal E M nonce aad t x"
    by (auto simp: ccm_seal_def Let_def)
  finally show ?thesis .
next
  case False
  have "\<not> returns (ccm_with len nonce aad t y False crypt) x"
    using False ccm_params(3) [OF ok]
    by (auto simp: ccm_with_def Let_def returns_reject_iff ok_orE_def)
  then show ?thesis using False length_ccm_seal [OF _ cb, of x nonce aad t] ok by auto
qed

interpretation ccm: exact_op
  "\<lambda>(len, nonce, aad, t, crypt :: CcmOperation \<Rightarrow> bytes \<Rightarrow> ('s, 'e, bytes) op).
     ccm_ok len nonce aad t \<and> (\<exists>E M. ccm_callback crypt E M)"
  "\<lambda>(len, nonce, aad, t, crypt) x. length x = len"
  "\<lambda>(len, nonce, aad, t, crypt) x. ccm_with len nonce aad t x True crypt"
  "\<lambda>(len, nonce, aad, t, crypt) y. ccm_with len nonce aad t y False crypt"
  "\<lambda>(len, nonce, aad, t, crypt) n. n + t"
proof (unfold_locales, goal_cases)
  case (1 c x)
  obtain len nonce aad t and crypt :: "CcmOperation \<Rightarrow> bytes \<Rightarrow> ('s, 'e, bytes) op"
    where c: "c = (len, nonce, aad, t, crypt)" by (cases c)
  with 1 obtain E M where a: "ccm_ok (length x) nonce aad t" "ccm_callback crypt E M" "length x = len"
    by auto
  then show ?case using ccm_encrypt [OF a(1,2)] length_ccm_seal [OF a(1,2)] by (auto simp: c)
next
  case (2 c y x)
  obtain len nonce aad t and crypt :: "CcmOperation \<Rightarrow> bytes \<Rightarrow> ('s, 'e, bytes) op"
    where c: "c = (len, nonce, aad, t, crypt)" by (cases c)
  with 2 obtain E M where a: "ccm_ok len nonce aad t" "ccm_callback crypt E M" by auto
  have "returns (ccm_with len nonce aad t x True crypt) y \<longleftrightarrow> y = ccm_seal E M nonce aad t x"
    if "length x = len"
    using ccm_encrypt [of x nonce aad t crypt E M] a that by (metis returns_unique)
  then show ?case using ccm_decrypt_iff [OF a] by (auto simp: c)
qed



subsection \<open>The MAC input determines nonce, associated data, tag length and plaintext\<close>

lemma ccm_block_form:
  assumes "7 \<le> length nonce" "length nonce \<le> 13" "L = 15 - length nonce"
  shows "copy_at (16 - L) (drop (8 - L) (u64_be w)) (copy_at 1 nonce ((replicate 16 0)[0 := f]))
       = f # nonce @ be_bytes L (unat w)"
proof -
  have "drop (8 - L) (u64_be w) = be_bytes L (unat w)"
    using drop_be_bytes [of "8 - L" L "unat w"] assms by (simp add: u64_be_def)
  moreover have "(replicate 16 0)[0 := f] = f # replicate 15 0" by (simp add: numeral_eq_Suc)
  moreover have "16 - L = Suc (length nonce)" using assms by simp
  ultimately show ?thesis using assms by (simp add: copy_at_def)
qed

lemma ccm_flags_value:
  assumes "t \<in> {4, 6, 8, 10, 12, 14, 16}" "2 \<le> L" "L \<le> 8"
  shows "unat (push_bit 6 (if c then 1 else 0) OR push_bit 3 (word_of_nat ((t - 2) div 2)) OR word_of_nat (L - 1) :: byte)
       = (if c then 64 else 0) + 8 * ((t - 2) div 2) + (L - 1)"
proof -
  have "L \<in> {2, 3, 4, 5, 6, 7, 8}" using assms by auto
  then show ?thesis using assms(1) by (cases c) auto
qed

lemma ccm_b0_form:
  assumes "ccm_ok len nonce aad t"
  shows "ccm_b0 len nonce aad t =
    (push_bit 6 (if aad \<noteq> [] then 1 else 0) OR push_bit 3 (word_of_nat ((t - 2) div 2))
        OR word_of_nat (15 - length nonce - 1)) # nonce @ be_bytes (15 - length nonce) len"
proof -
  have n: "7 \<le> length nonce" "length nonce \<le> 13" and l: "len < 2 ^ 64"
    using assms by (auto simp: ccm_ok_def usize_bound_def)
  have "unat (word_of_nat len :: u64) = len" using l by (simp add: unat_of_nat)
  then show ?thesis
    using ccm_block_form [OF n refl, of "word_of_nat len"]
    by (simp only: ccm_b0_def Let_def AES_BLOCK_SIZE_def length_u_be)
qed

text \<open>The associated data with its length prefix, and zero padding to whole blocks.\<close>

definition ccm_aad_header :: "bytes \<Rightarrow> bytes" where
  "ccm_aad_header aad =
     (if length aad < 0xff00 then u16_be (word_of_nat (length aad))
      else [0xff, 0xfe] @ u32_be (word_of_nat (length aad)))"

definition pad16 :: "bytes \<Rightarrow> bytes" where
  "pad16 x = x @ replicate (next_multiple_of (length x) 16 - length x) 0"

lemma pad16_aligned: "16 dvd length (pad16 x)"
  using next_multiple_of_props(1,2) [of 16 "length x"] by (simp add: pad16_def)

lemma resize_pad16:
  "16 dvd length h \<Longrightarrow> resize (next_multiple_of (length (h @ x)) 16) 0 (h @ x) = h @ pad16 x"
  using next_multiple_of_props(2) [of 16 "length x"]
  by (simp add: next_multiple_of_add resize_extend pad16_def)

lemma ccm_mac_input_form:
  assumes "ccm_ok len nonce aad t"
  shows "ccm_mac_input len nonce aad t p =
    ccm_b0 len nonce aad t @ (if aad = [] then [] else pad16 (ccm_aad_header aad @ aad)) @ pad16 p"
proof -
  let ?b = "ccm_b0 len nonce aad t"
  have b: "length ?b = 16" using assms by (subst ccm_b0_form) (auto simp: ccm_ok_def)
  have "(if aad \<noteq> [] then
               let mac_input = (if length aad < 0xff00 then ?b @ u16_be (word_of_nat (length aad))
                                else ?b @ [0xff, 0xfe] @ u32_be (word_of_nat (length aad)));
                   mac_input = mac_input @ aad;
                   padded_length = next_multiple_of (length mac_input) AES_BLOCK_SIZE
               in resize padded_length 0 mac_input
             else ?b) = ?b @ (if aad = [] then [] else pad16 (ccm_aad_header aad @ aad))"
  proof -
    have h: "(if length aad < 0xff00 then ?b @ u16_be (word_of_nat (length aad))
        else ?b @ [0xff, 0xfe] @ u32_be (word_of_nat (length aad))) = ?b @ ccm_aad_header aad"
      by (simp add: ccm_aad_header_def)
    have "16 dvd length ?b" using b by simp
    from resize_pad16 [OF this, of "ccm_aad_header aad @ aad"] show ?thesis
      unfolding Let_def AES_BLOCK_SIZE_def h by simp
  qed
  moreover have "16 dvd length (?b @ (if aad = [] then [] else pad16 (ccm_aad_header aad @ aad)))"
    using b pad16_aligned [of "ccm_aad_header aad @ aad"] by simp
  note resize_pad16 [OF this, of p]
  ultimately show ?thesis
    unfolding ccm_mac_input_def Let_def AES_BLOCK_SIZE_def by simp
qed

lemma ccm_aad_decodable:
  assumes "length a < 2 ^ 32" "length a' < 2 ^ 32"
    and eq: "ccm_aad_header a @ a @ z = ccm_aad_header a' @ a' @ z'"
  shows "a = a'"
proof -
  have u16: "be_nat (u16_be (word_of_nat n)) = n" if "n < 0xff00" for n
    using that by (simp add: u16_be_def be_nat_be_bytes unat_of_nat)
  have marker: "be_nat [0xff, 0xfe] = 0xfffe" by (simp add: be_nat_def)
  have short: "length b < 0xff00 \<longleftrightarrow> be_nat (take 2 (ccm_aad_header b @ r)) < 0xff00" for b r
    using u16 [of "length b"] marker by (simp add: ccm_aad_header_def)
  have kind: "length a < 0xff00 \<longleftrightarrow> length a' < 0xff00"
    using short [of a "a @ z"] short [of a' "a' @ z'"] eq by simp
  have "length a = length a'"
  proof (cases "length a < 0xff00")
    case True
    then have "u16_be (word_of_nat (length a)) = u16_be (word_of_nat (length a'))"
      using eq kind by (simp add: ccm_aad_header_def append_eq_append_conv)
    then show ?thesis using True kind u16 by metis
  next
    case False
    then have "u32_be (word_of_nat (length a)) = u32_be (word_of_nat (length a'))"
      using eq kind by (simp add: ccm_aad_header_def append_eq_append_conv)
    then have "word_of_nat (length a) = (word_of_nat (length a') :: u32)" by (rule u32_be_inj)
    then have "unat (word_of_nat (length a) :: u32) = unat (word_of_nat (length a') :: u32)" by simp
    then show ?thesis using assms(1,2) by (simp add: unat_of_nat)
  qed
  moreover from this have "ccm_aad_header a = ccm_aad_header a'" by (simp add: ccm_aad_header_def)
  ultimately show ?thesis using eq by (simp add: append_eq_append_conv)
qed

lemma ccm_b0_decodable:
  assumes ok: "ccm_ok len nonce aad t" "ccm_ok len' nonce' aad' t'"
    and eq: "ccm_b0 len nonce aad t = ccm_b0 len' nonce' aad' t'"
  shows "t = t'" "nonce = nonce'" "len = len'" "aad = [] \<longleftrightarrow> aad' = []"
proof -
  let ?L = "15 - length nonce" and ?L' = "15 - length nonce'"
  have n: "2 \<le> ?L" "?L \<le> 8" "2 \<le> ?L'" "?L' \<le> 8" and nl: "length nonce < 15" "length nonce' < 15"
    and t: "t \<in> {4, 6, 8, 10, 12, 14, 16}" "t' \<in> {4, 6, 8, 10, 12, 14, 16}"
    and lens: "len < 256 ^ ?L" "len' < 256 ^ ?L'"
    using ok unfolding ccm_ok_def by linarith+
  note parts = eq [unfolded ccm_b0_form [OF ok(1)] ccm_b0_form [OF ok(2)] list.inject]
  have f: "(if aad \<noteq> [] then 64 else 0) + 8 * ((t - 2) div 2) + (?L - 1)
      = (if aad' \<noteq> [] then 64 else 0) + 8 * ((t' - 2) div 2) + (?L' - 1)"
    using arg_cong [OF conjunct1 [OF parts], of unat]
    unfolding ccm_flags_value [OF t(1) n(1,2)] ccm_flags_value [OF t(2) n(3,4)] .
  define a b c a' b' c' where defs: "a = (if aad \<noteq> [] then 1 else 0 :: nat)" "b = (t - 2) div 2" "c = ?L - 1"
    "a' = (if aad' \<noteq> [] then 1 else 0 :: nat)" "b' = (t' - 2) div 2" "c' = ?L' - 1"
  have small: "b < 8" "b' < 8" "c < 8" "c' < 8"
    using n by (use t(1) in \<open>auto simp: defs(2)\<close>, use t(2) in \<open>auto simp: defs(5)\<close>, auto simp: defs(3,6))
  have abc: "64 * a + 8 * b + c = 64 * a' + 8 * b' + c'"
    unfolding defs using f by (cases "aad = []"; cases "aad' = []") simp_all
  have digit: "x = x' \<and> r = r'" if "8 * x + r = 8 * x' + r'" "r < 8" "r' < 8" for x r x' r' :: nat
    using that by presburger
  have "8 * a + b = 8 * a' + b' \<and> c = c'" by (rule digit) (use abc small in simp_all)
  moreover from this have "a = a' \<and> b = b'" by (intro digit) (use small in simp_all)
  ultimately have "c = c'" "b = b'" "a = a'" by simp_all
  then show "t = t'" "aad = [] \<longleftrightarrow> aad' = []" using t by (auto simp: defs split: if_splits)
  have L: "?L = ?L'" using \<open>c = c'\<close> n unfolding defs by linarith
  then have "length nonce = length nonce'" using nl by linarith
  with parts have "nonce = nonce' \<and> be_bytes ?L len = be_bytes ?L' len'"
    by (simp add: append_eq_append_conv)
  then show "nonce = nonce'" "len = len'" using lens L by (auto dest: be_bytes_inj)
qed


lemma pad16_cancel: "length p = length p' \<Longrightarrow> pad16 p @ r = pad16 p' @ r' \<Longrightarrow> p = p'"
  by (simp add: pad16_def append_eq_append_conv)

lemma ccm_mac_input_decodable:
  assumes ok: "ccm_ok (length p) nonce aad t" "ccm_ok (length p') nonce' aad' t'"
    and eq: "ccm_mac_input (length p) nonce aad t p = ccm_mac_input (length p') nonce' aad' t' p'"
  shows "nonce = nonce' \<and> aad = aad' \<and> t = t' \<and> p = p'"
proof -
  have b: "length (ccm_b0 (length p) nonce aad t) = 16" "length (ccm_b0 (length p') nonce' aad' t') = 16"
    using ok by (auto simp: ccm_b0_form [OF ok(1)] ccm_b0_form [OF ok(2)] ccm_ok_def)
  note split = eq [unfolded ccm_mac_input_form [OF ok(1)] ccm_mac_input_form [OF ok(2)]
      append_eq_append_conv [OF disjI1 [OF trans [OF b(1) b(2) [symmetric]]]]]
  note b0 = ccm_b0_decodable [OF ok conjunct1 [OF split]]
  note rest = conjunct2 [OF split]
  have aad: "aad = aad'"
  proof (cases "aad = []")
    case False
    then have "pad16 (ccm_aad_header aad @ aad) @ pad16 p = pad16 (ccm_aad_header aad' @ aad') @ pad16 p'"
      using rest b0(4) by simp
    then have "\<exists>z z'. ccm_aad_header aad @ aad @ z = ccm_aad_header aad' @ aad' @ z'"
      unfolding pad16_def append_assoc by blast
    then show ?thesis using ccm_aad_decodable ok by (auto simp: ccm_ok_def)
  qed (use b0 in simp)
  then have "pad16 p = pad16 p'" using rest by simp
  then show ?thesis using pad16_cancel [of p p' "[]" "[]"] b0 aad by simp
qed

lemma ccm_counter_block_form:
  assumes "ccm_ok len nonce aad t" "i < 2 ^ 64"
  shows "ccm_counter_block nonce i = word_of_nat (15 - length nonce - 1) # nonce @ be_bytes (15 - length nonce) i"
proof -
  have n: "7 \<le> length nonce" "length nonce \<le> 13" using assms by (auto simp: ccm_ok_def)
  have "unat (word_of_nat i :: u64) = i" using assms(2) by (simp add: unat_of_nat)
  then show ?thesis
    using ccm_block_form [OF n refl, of "word_of_nat i"]
    by (simp only: ccm_counter_block_def Let_def AES_BLOCK_SIZE_def length_u_be)
qed

text \<open>The counter stays below the bound of its field, as many blocks as the message needs.\<close>

lemma ccm_counter_fits:
  assumes "ccm_ok len nonce aad t" "i \<le> div_ceil len 16"
  shows "i < 256 ^ (15 - length nonce)" "i < 2 ^ 64"
proof -
  have n: "7 \<le> length nonce" "length nonce \<le> 13" and l: "len < 256 ^ (15 - length nonce)"
    using assms by (auto simp: ccm_ok_def)
  have "(256 :: nat) ^ 2 \<le> 256 ^ (15 - length nonce)" using n by (intro power_increasing) simp_all
  moreover have "div_ceil len 16 * 16 < len + 16" by (rule div_ceil_bounds) simp
  ultimately show f: "i < 256 ^ (15 - length nonce)" using l assms(2) by simp
  have "(256 :: nat) ^ (15 - length nonce) \<le> 256 ^ 8" using n by (intro power_increasing) simp_all
  with f show "i < 2 ^ 64" by simp
qed

lemma ccm_counter_block_inj:
  assumes "ccm_ok len nonce aad t" "i \<le> div_ceil len 16" "j \<le> div_ceil len 16"
    and "ccm_counter_block nonce i = ccm_counter_block nonce j"
  shows "i = j"
  using assms(4) ccm_counter_fits [OF assms(1,2)] ccm_counter_fits [OF assms(1,3)]
  by (auto simp: ccm_counter_block_form [OF assms(1)] dest: be_bytes_inj)

lemma ccm_b0_not_counter:
  assumes "ccm_ok len nonce aad t" "i \<le> div_ceil len 16"
  shows "ccm_b0 len nonce aad t \<noteq> ccm_counter_block nonce i"
proof
  assume "ccm_b0 len nonce aad t = ccm_counter_block nonce i"
  then have eq: "push_bit 6 (if aad \<noteq> [] then 1 else 0) OR push_bit 3 (word_of_nat ((t - 2) div 2))
      OR word_of_nat (15 - length nonce - 1) = (word_of_nat (15 - length nonce - 1) :: byte)"
    using ccm_counter_fits [OF assms] by (simp add: ccm_b0_form [OF assms(1)] ccm_counter_block_form [OF assms(1)])
  have L: "2 \<le> 15 - length nonce" "15 - length nonce \<le> 8" and t: "t \<in> {4, 6, 8, 10, 12, 14, 16}"
    using assms(1) unfolding ccm_ok_def by linarith+
  have "1 \<le> (t - 2) div 2" using t by auto
  moreover have "unat (word_of_nat (15 - length nonce - 1) :: byte) = 15 - length nonce - 1"
    by (simp only: unat_of_nat) (use L in simp)
  ultimately show False
    using arg_cong [OF eq, of unat] unfolding ccm_flags_value [OF t L] by simp
qed



section \<open>GCM\<close>

lemma length_increment_gcm_counter [simp]:
  "length c = 16 \<Longrightarrow> length (increment_gcm_counter c) = 16"
  by (simp add: increment_gcm_counter_def Let_def copy_at_def)

lemma length_gcm_counter_blocks:
  "length c = 16 \<Longrightarrow> length (gcm_counter_blocks k c) = 16 * (k + 1)"
  by (induction k arbitrary: c) simp_all

lemma length_gcm_tag: "length f = 16 \<Longrightarrow> bits \<le> 128 \<Longrightarrow> length (gcm_tag f bits) = div_ceil bits 8"
  using div_ceil_bounds(2) [of 8 bits] by (simp add: gcm_tag_def Let_def)

definition gcm_ok :: "bytes \<Rightarrow> bytes \<Rightarrow> nat \<Rightarrow> nat \<Rightarrow> bool" where
  "gcm_ok iv aad tag_bits len \<longleftrightarrow>
     iv \<noteq> [] \<and> tag_bits \<le> 128 \<and> div_ceil len 16 \<le> 2 ^ 32 - 3
     \<and> length iv * 8 < usize_bound \<and> length aad * 8 < usize_bound"

definition gcm_lib_ok :: "'h ghash_lib \<Rightarrow> bool" where
  "gcm_lib_ok lib \<longleftrightarrow> (\<forall>h. length (gh_finalize lib h) = 16)"

definition ghash_val :: "'h ghash_lib \<Rightarrow> bytes \<Rightarrow> bytes \<Rightarrow> bytes \<Rightarrow> bytes" where
  "ghash_val lib key aad c =
     gh_finalize lib (gh_update lib (gh_update_padded lib (gh_update_padded lib (gh_new lib key) aad) c)
       [u64_be (word_of_nat (length aad * 8)) @ u64_be (word_of_nat (length c * 8))])"

definition gcm_j0 :: "'h ghash_lib \<Rightarrow> bytes \<Rightarrow> bytes \<Rightarrow> bytes" where
  "gcm_j0 lib H iv = (if length iv = 12 then iv @ [0, 0, 0, 1] else ghash_val lib H [] iv)"

definition gcm_stream :: "'h ghash_lib \<Rightarrow> (bytes \<Rightarrow> bytes) \<Rightarrow> bytes \<Rightarrow> nat \<Rightarrow> bytes" where
  "gcm_stream lib E iv len = ecb 16 E (gcm_counter_blocks (div_ceil len 16) (gcm_j0 lib (E (replicate 16 0)) iv))"

definition gcm_auth :: "'h ghash_lib \<Rightarrow> (bytes \<Rightarrow> bytes) \<Rightarrow> bytes \<Rightarrow> bytes \<Rightarrow> nat \<Rightarrow> bytes \<Rightarrow> bytes" where
  "gcm_auth lib E iv aad bits c =
     gcm_tag (xor_bytes (take 16 (gcm_stream lib E iv (length c))) (ghash_val lib (E (replicate 16 0)) aad c)) bits"

definition gcm_seal :: "'h ghash_lib \<Rightarrow> (bytes \<Rightarrow> bytes) \<Rightarrow> bytes \<Rightarrow> bytes \<Rightarrow> nat \<Rightarrow> bytes \<Rightarrow> bytes" where
  "gcm_seal lib E iv aad bits x =
     stream_seal (drop 16 (gcm_stream lib E iv (length x))) (\<lambda>p c. gcm_auth lib E iv aad bits c) x"

lemma ghash_fits:
  "length aad * 8 < usize_bound \<Longrightarrow> length c * 8 < usize_bound \<Longrightarrow> ghash lib key aad c = Some (ghash_val lib key aad c)"
  by (simp add: ghash_def ghash_val_def checked_mul_def Let_def)

lemma length_gcm_j0: "gcm_lib_ok lib \<Longrightarrow> length (gcm_j0 lib H iv) = 16"
  by (simp add: gcm_j0_def ghash_val_def gcm_lib_ok_def)

lemma length_gcm_stream:
  assumes "gcm_lib_ok lib" "keeps_len 16 E"
  shows "length (gcm_stream lib E iv len) = 16 * (div_ceil len 16 + 1)"
  unfolding gcm_stream_def
  by (subst length_ecb [OF _ _ assms(2)]) (simp_all add: length_gcm_counter_blocks length_gcm_j0 [OF assms(1)])

lemma length_gcm_auth:
  assumes "gcm_lib_ok lib" "keeps_len 16 E" "bits \<le> 128"
  shows "length (gcm_auth lib E iv aad bits c) = div_ceil bits 8"
  unfolding gcm_auth_def
  by (rule length_gcm_tag [OF _ assms(3)])
     (use assms(1) in \<open>simp add: length_gcm_stream [OF assms(1,2)] ghash_val_def gcm_lib_ok_def\<close>)

lemma gcm_payload_fits:
  assumes "div_ceil len 16 \<le> 2 ^ 32 - 3"
  shows "len * 8 < usize_bound" "checked_mul (div_ceil len 16 + 1) 16 = Some ((div_ceil len 16 + 1) * 16)"
proof -
  have "len \<le> div_ceil len 16 * 16" by (rule div_ceil_bounds) simp
  then show "len * 8 < usize_bound" using assms by (simp add: usize_bound_def)
  show "checked_mul (div_ceil len 16 + 1) 16 = Some ((div_ceil len 16 + 1) * 16)"
    using assms by (simp add: checked_mul_def usize_bound_def)
qed

text \<open>The body after the payload is known.\<close>

lemma gcm_calls:
  assumes ok: "gcm_ok iv aad bits (length payload)" and lib: "gcm_lib_ok lib"
    and cb: "enc_callback 16 enc E" and E: "keeps_len 16 E"
    and cont: "\<And>p. p = xor_bytes payload (drop 16 (gcm_stream lib E iv (length payload))) \<Longrightarrow>
       Q (f p (gcm_auth lib E iv aad bits (if e then p else payload)))"
    and Q: "\<And>(m :: ('s, 'e GcmError, bytes) op) x f. returns m x \<Longrightarrow> Q (f x) \<Longrightarrow> Q (bindE m f)"
  shows "Q (bindE (map_errE Gcm_BlockOperation (enc (replicate AES_BLOCK_SIZE 0))) (\<lambda>hash_subkey.
     bindE (rejectE (length hash_subkey \<noteq> AES_BLOCK_SIZE) Gcm_InvalidBlockOutput) (\<lambda>_.
     bindE (if length iv = 12 then okE ((copy_at 0 iv (replicate AES_BLOCK_SIZE 0))[15 := 1])
            else ok_orE Gcm_InputTooLong (ghash lib hash_subkey [] iv)) (\<lambda>initial_counter.
     bindE (ok_orE Gcm_InputTooLong (checked_mul (div_ceil (length payload) AES_BLOCK_SIZE + 1) AES_BLOCK_SIZE)) (\<lambda>_.
     bindE (map_errE Gcm_BlockOperation
              (enc (gcm_counter_blocks (div_ceil (length payload) AES_BLOCK_SIZE) initial_counter))) (\<lambda>encrypted_counters.
     bindE (rejectE (length encrypted_counters
               \<noteq> length (gcm_counter_blocks (div_ceil (length payload) AES_BLOCK_SIZE) initial_counter)) Gcm_InvalidBlockOutput) (\<lambda>_.
     let transformed = concat (map2 xor_bytes (chunks AES_BLOCK_SIZE payload)
                                 (chunks AES_BLOCK_SIZE (drop AES_BLOCK_SIZE encrypted_counters)));
         ciphertext = (if e then transformed else payload) in
     bindE (ok_orE Gcm_InputTooLong (ghash lib hash_subkey aad ciphertext)) (\<lambda>hash.
     f transformed (gcm_tag (xor_bytes (take AES_BLOCK_SIZE encrypted_counters) hash) bits)))))))))"
proof -
  let ?H = "E (replicate 16 0)" and ?len = "length payload"
  let ?j = "gcm_j0 lib ?H iv" and ?ks = "gcm_stream lib E iv ?len"
  let ?cs = "gcm_counter_blocks (div_ceil ?len 16) ?j"
  have bits: "length iv * 8 < usize_bound" "length aad * 8 < usize_bound" "div_ceil ?len 16 \<le> 2 ^ 32 - 3"
    using ok by (simp_all add: gcm_ok_def)
  note fits = gcm_payload_fits [OF bits(3)]
  have h: "returns (enc (replicate 16 0)) ?H" "length ?H = 16"
    using enc_callback_block [OF cb] keeps_lenD [OF E] by simp_all
  have j: "(if length iv = 12 then okE ((copy_at 0 iv (replicate 16 0))[15 := 1])
      else ok_orE Gcm_InputTooLong (ghash lib ?H [] iv)) = okE ?j"
  proof (cases "length iv = 12")
    case True
    then have "(copy_at 0 iv (replicate 16 0))[15 := 1] = iv @ [0, 0, 0, 1 :: byte]"
      by (simp add: copy_at_def list_update_append numeral_eq_Suc)
    then show ?thesis using True by (simp add: gcm_j0_def)
  qed (use bits ghash_fits [of "[]" iv lib ?H] in \<open>simp add: gcm_j0_def ok_orE_def usize_bound_def\<close>)
  have cl: "length ?cs = 16 * (div_ceil ?len 16 + 1)"
    using length_gcm_j0 [OF lib] by (rule length_gcm_counter_blocks)
  then have r: "returns (enc ?cs) ?ks" unfolding gcm_stream_def by (intro enc_callbackD [OF cb]) simp
  have kl: "length ?ks = length ?cs" using length_gcm_stream [OF lib E] cl by simp
  then have ple: "?len \<le> length (drop 16 ?ks)" using cl div_ceil_bounds(1) [of 16 ?len] by simp
  note t = mixed_chunks [OF ple, unfolded AES_BLOCK_SIZE_def]
  let ?p = "xor_bytes payload (drop 16 ?ks)"
  have pl: "length ?p = ?len" using ple by simp
  have g: "ghash lib ?H aad (if e then ?p else payload) = Some (ghash_val lib ?H aad (if e then ?p else payload))"
    using bits(2) fits(1) pl by (intro ghash_fits) simp_all
  have tag: "gcm_tag (xor_bytes (take 16 ?ks) (ghash_val lib ?H aad (if e then ?p else payload))) bits
      = gcm_auth lib E iv aad bits (if e then ?p else payload)"
    using pl by (auto simp: gcm_auth_def)
  show ?thesis unfolding AES_BLOCK_SIZE_def Let_def
    by (rule Q [OF returns_map_errE [OF h(1)]], simp only: h(2) j fits(2) simp_thms rejectE_simps bindE_okE ok_orE_simps,
        rule Q [OF returns_map_errE [OF r]])
       (simp only: kl t g tag simp_thms rejectE_simps bindE_okE ok_orE_simps cont)
qed

lemma gcm_with_valid:
  assumes "iv \<noteq> []" "bits \<le> 128" "div_ceil (length payload) 16 \<le> 2 ^ 32 - 3"
    and "if e then input = payload else input = payload @ tag \<and> length tag = div_ceil bits 8"
  shows "gcm_with lib iv aad bits input e enc =
    bindE (map_errE Gcm_BlockOperation (enc (replicate AES_BLOCK_SIZE 0))) (\<lambda>hash_subkey.
     bindE (rejectE (length hash_subkey \<noteq> AES_BLOCK_SIZE) Gcm_InvalidBlockOutput) (\<lambda>_.
     bindE (if length iv = 12 then okE ((copy_at 0 iv (replicate AES_BLOCK_SIZE 0))[15 := 1])
            else ok_orE Gcm_InputTooLong (ghash lib hash_subkey [] iv)) (\<lambda>initial_counter.
     bindE (ok_orE Gcm_InputTooLong (checked_mul (div_ceil (length payload) AES_BLOCK_SIZE + 1) AES_BLOCK_SIZE)) (\<lambda>_.
     bindE (map_errE Gcm_BlockOperation
              (enc (gcm_counter_blocks (div_ceil (length payload) AES_BLOCK_SIZE) initial_counter))) (\<lambda>encrypted_counters.
     bindE (rejectE (length encrypted_counters
               \<noteq> length (gcm_counter_blocks (div_ceil (length payload) AES_BLOCK_SIZE) initial_counter)) Gcm_InvalidBlockOutput) (\<lambda>_.
     let transformed = concat (map2 xor_bytes (chunks AES_BLOCK_SIZE payload)
                                 (chunks AES_BLOCK_SIZE (drop AES_BLOCK_SIZE encrypted_counters)));
         ciphertext = (if e then transformed else payload) in
     bindE (ok_orE Gcm_InputTooLong (ghash lib hash_subkey aad ciphertext)) (\<lambda>hash.
     (\<lambda>p expected. if e then okE (p @ expected)
        else bindE (rejectE (expected \<noteq> tag) Gcm_AuthenticationFailed) (\<lambda>_. okE p))
     transformed (gcm_tag (xor_bytes (take AES_BLOCK_SIZE encrypted_counters) hash) bits))))))))"
proof -
  have g: "\<not> bits > 16 * 8" "\<not> div_ceil (length payload) 16 > 2 ^ 32 - 1 - 2" using assms by simp_all
  have s: "\<not> length (payload @ tag) < div_ceil bits 8"
    "take (length (payload @ tag) - div_ceil bits 8) (payload @ tag) = payload"
    "drop (length (payload @ tag) - div_ceil bits 8) (payload @ tag) = tag" if "\<not> e"
    using assms(4) that by simp_all
  show ?thesis
  proof (cases e)
    case True
    then show ?thesis using assms(1,4) g unfolding gcm_with_def
      by (simp only: Let_def if_True bindE_okE prod.case rejectE_simps simp_thms AES_BLOCK_SIZE_def option.case)
  next
    case False
    then show ?thesis using assms(1,4) g s unfolding gcm_with_def
      by (simp only: Let_def if_False bindE_okE prod.case rejectE_simps simp_thms AES_BLOCK_SIZE_def option.case)
  qed
qed

lemma gcm_okD:
  "gcm_ok iv aad bits len \<Longrightarrow> iv \<noteq> [] \<and> bits \<le> 128 \<and> div_ceil len 16 \<le> 2 ^ 32 - 3"
  by (simp add: gcm_ok_def)

lemma gcm_encrypt:
  assumes "gcm_ok iv aad bits (length x)" "gcm_lib_ok lib" "enc_callback 16 enc E" "keeps_len 16 E"
  shows "returns (gcm_with lib iv aad bits x True enc) (gcm_seal lib E iv aad bits x)"
proof -
  have v: "iv \<noteq> []" "bits \<le> 128" "div_ceil (length x) 16 \<le> 2 ^ 32 - 3"
    "if True then x = x else x = x @ [] \<and> length [] = div_ceil bits 8"
    using gcm_okD [OF assms(1)] by simp_all
  show ?thesis
    unfolding gcm_with_valid [OF v] if_True
    by (rule gcm_calls [OF assms, where e = True, unfolded if_True])
       (simp add: gcm_seal_def stream_seal_def returns_okE, rule returns_bindE)
qed

lemma gcm_decrypt:
  assumes "gcm_ok iv aad bits (length c)" "gcm_lib_ok lib" "enc_callback 16 enc E" "keeps_len 16 E"
    and "length tag = div_ceil bits 8"
  shows "gcm_auth lib E iv aad bits c = tag \<Longrightarrow>
           returns (gcm_with lib iv aad bits (c @ tag) False enc) (xor_bytes c (drop 16 (gcm_stream lib E iv (length c))))"
    and "gcm_auth lib E iv aad bits c \<noteq> tag \<Longrightarrow>
           fails (gcm_with lib iv aad bits (c @ tag) False enc) Gcm_AuthenticationFailed"
proof -
  have v: "iv \<noteq> []" "bits \<le> 128" "div_ceil (length c) 16 \<le> 2 ^ 32 - 3"
    "if False then c @ tag = c else c @ tag = c @ tag \<and> length tag = div_ceil bits 8"
    using gcm_okD [OF assms(1)] assms(5) by simp_all
  note step = gcm_calls [OF assms(1-4), where e = False, unfolded if_False]
  show "returns (gcm_with lib iv aad bits (c @ tag) False enc) (xor_bytes c (drop 16 (gcm_stream lib E iv (length c))))"
    if "gcm_auth lib E iv aad bits c = tag"
    unfolding gcm_with_valid [OF v] if_False
    by (rule step) (use that in \<open>simp add: returns_okE\<close>, rule returns_bindE)
  show "fails (gcm_with lib iv aad bits (c @ tag) False enc) Gcm_AuthenticationFailed"
    if "gcm_auth lib E iv aad bits c \<noteq> tag"
    unfolding gcm_with_valid [OF v] if_False
    by (rule step) (use that in simp, rule fails_bindE_right)
qed

lemma gcm_decrypt_short:
  assumes "length y < div_ceil bits 8"
  shows "\<not> returns (gcm_with lib iv aad bits y False enc) x"
  using assms by (auto simp: gcm_with_def Let_def returns_reject_iff bindE_assoc)

lemma gcm_decrypt_iff:
  assumes ok: "gcm_ok iv aad bits (length x)" and lib: "gcm_lib_ok lib"
    and cb: "enc_callback 16 enc E" and E: "keeps_len 16 E"
    and y: "length y = length x + div_ceil bits 8"
  shows "returns (gcm_with lib iv aad bits y False enc) x \<longleftrightarrow> y = gcm_seal lib E iv aad bits x"
proof -
  let ?len = "length x"
  let ?c = "take ?len y" and ?tag = "drop ?len y" and ?ks = "drop 16 (gcm_stream lib E iv ?len)"
  have l: "length ?c = ?len" "length ?tag = div_ceil bits 8" using y by simp_all
  have kl: "?len \<le> length ?ks"
    using length_gcm_stream [OF lib E, of iv ?len] div_ceil_bounds(1) [of 16 ?len] by simp
  have b: "bits \<le> 128" using gcm_okD [OF ok] by simp
  have "gcm_ok iv aad bits (length ?c)" using ok l by simp
  note dec = gcm_decrypt [OF this lib cb E l(2), unfolded append_take_drop_id l(1)]
  have "returns (gcm_with lib iv aad bits y False enc) x \<longleftrightarrow>
      xor_bytes ?c ?ks = x \<and> gcm_auth lib E iv aad bits ?c = ?tag"
    using dec returns_unique returns_not_fails by metis
  also have "\<dots> \<longleftrightarrow> stream_seal ?ks (\<lambda>p c. gcm_auth lib E iv aad bits c) x = y"
    by (rule stream_open_iff [symmetric]) (use y kl length_gcm_auth [OF lib E b] in simp_all)
  finally show ?thesis by (auto simp: gcm_seal_def)
qed

lemma length_gcm_seal:
  assumes "gcm_ok iv aad bits (length x)" "gcm_lib_ok lib" "keeps_len 16 E"
  shows "length (gcm_seal lib E iv aad bits x) = length x + div_ceil bits 8"
proof -
  have "bits \<le> 128" using gcm_okD [OF assms(1)] by simp
  then show ?thesis
    using length_gcm_stream [OF assms(2,3), of iv "length x"] div_ceil_bounds(1) [of 16 "length x"]
    by (simp add: gcm_seal_def stream_seal_def length_gcm_auth [OF assms(2,3)])
qed

lemma gcm_decrypt_guard:
  assumes "returns (gcm_with lib iv aad bits y False enc) x"
  shows "div_ceil bits 8 \<le> length y \<and> div_ceil (length y - div_ceil bits 8) 16 \<le> 2 ^ 32 - 3"
proof (cases "length y < div_ceil bits 8")
  case False
  then show ?thesis using assms
    by (auto simp: gcm_with_def Let_def returns_reject_iff AES_BLOCK_SIZE_def)
qed (use gcm_decrypt_short assms in blast)

interpretation gcm: exact_op
  "\<lambda>(lib, iv, aad, bits, enc :: bytes \<Rightarrow> ('s, 'e, bytes) op).
     gcm_ok iv aad bits 0 \<and> gcm_lib_ok lib \<and> (\<exists>E. enc_callback 16 enc E \<and> keeps_len 16 E)"
  "\<lambda>(lib, iv, aad, bits, enc) x. div_ceil (length x) 16 \<le> 2 ^ 32 - 3"
  "\<lambda>(lib, iv, aad, bits, enc) x. gcm_with lib iv aad bits x True enc"
  "\<lambda>(lib, iv, aad, bits, enc) y. gcm_with lib iv aad bits y False enc"
  "\<lambda>(lib, iv, aad, bits, enc) n. n + div_ceil bits 8"
proof (unfold_locales, goal_cases)
  case (1 c x)
  obtain lib iv aad bits and enc :: "bytes \<Rightarrow> ('s, 'e, bytes) op"
    where c: "c = (lib, iv, aad, bits, enc)" by (cases c)
  with 1 obtain E where a: "gcm_ok iv aad bits (length x)" "gcm_lib_ok lib" "enc_callback 16 enc E" "keeps_len 16 E"
    by (auto simp: gcm_ok_def)
  show ?case using gcm_encrypt [OF a] length_gcm_seal [OF a(1,2,4)] by (auto simp: c)
next
  case (2 c y x)
  obtain lib iv aad bits and enc :: "bytes \<Rightarrow> ('s, 'e, bytes) op"
    where c: "c = (lib, iv, aad, bits, enc)" by (cases c)
  with 2 obtain E where a: "gcm_ok iv aad bits 0" "gcm_lib_ok lib" "enc_callback 16 enc E" "keeps_len 16 E"
    by auto
  let ?tl = "div_ceil bits 8"
  have okx: "gcm_ok iv aad bits n" if "div_ceil n 16 \<le> 2 ^ 32 - 3" for n
    using a(1) that by (simp add: gcm_ok_def)
  have "length y = length x + ?tl \<and> div_ceil (length x) 16 \<le> 2 ^ 32 - 3"
    if r: "returns (gcm_with lib iv aad bits y False enc) x"
  proof -
    let ?c = "take (length y - ?tl) y" and ?t = "drop (length y - ?tl) y"
    have g: "?tl \<le> length y" "div_ceil (length y - ?tl) 16 \<le> 2 ^ 32 - 3"
      using gcm_decrypt_guard [OF r] by simp_all
    then have "gcm_ok iv aad bits (length ?c)" "length ?t = ?tl" using okx by simp_all
    note d = gcm_decrypt [OF this(1) a(2-4) this(2), unfolded append_take_drop_id]
    have "x = xor_bytes ?c (drop 16 (gcm_stream lib E iv (length ?c)))"
      using d r returns_unique returns_not_fails by metis
    then have "length x = length ?c"
      using length_gcm_stream [OF a(2,4), of iv "length ?c"] div_ceil_bounds(1) [of 16 "length ?c"] by simp
    then show ?thesis using g by simp
  qed
  moreover have "length y = length x + ?tl" if "div_ceil (length x) 16 \<le> 2 ^ 32 - 3"
    "returns (gcm_with lib iv aad bits x True enc) y"
    using returns_unique [OF gcm_encrypt [OF okx [OF that(1)] a(2-4)] that(2)]
      length_gcm_seal [OF okx [OF that(1)] a(2,4)] by simp
  ultimately show ?case
    using gcm_decrypt_iff [OF okx a(2-4), of x y] gcm_encrypt [OF okx a(2-4), of x] returns_unique
    unfolding c prod.case by metis
qed

text \<open>The \<open>i\<close>-th counter block.\<close>

lemma increment_iterate:
  assumes "length c = 16"
  shows "(increment_gcm_counter ^^ i) c = take 12 c @ u32_be (u32_from_be (drop 12 c) + word_of_nat i)"
proof (induction i)
  case 0
  show ?case using assms by (simp add: u32_be_u32_from_be)
next
  case (Suc i)
  then show ?case using assms
    by (simp add: increment_gcm_counter_def Let_def copy_at_def algebra_simps)
qed

lemma gcm_counter_blocks_chunks:
  assumes "length c = 16"
  shows "chunks_exact 16 (gcm_counter_blocks k c) = map (\<lambda>i. (increment_gcm_counter ^^ i) c) [0..<k + 1]"
  using assms
proof (induction k arbitrary: c)
  case 0
  then show ?case using chunks_exact_append [of 16 c "[]"] by simp
next
  case (Suc k)
  have "map (\<lambda>i. (increment_gcm_counter ^^ i) c) [0..<Suc k + 1]
      = c # map (\<lambda>i. (increment_gcm_counter ^^ i) (increment_gcm_counter c)) [0..<k + 1]"
    by (simp only: add_Suc upt_conv_Cons [OF zero_less_Suc] map_Suc_upt [symmetric] list.map map_map)
       (simp add: funpow_swap1 del: upt_Suc)
  moreover have "chunks_exact 16 (gcm_counter_blocks (Suc k) c)
      = c # chunks_exact 16 (gcm_counter_blocks k (increment_gcm_counter c))"
    using Suc.prems by (simp add: chunks_exact_append)
  ultimately show ?case using Suc by simp
qed



section \<open>Properties\<close>

definition sample_crypt :: "CcmOperation \<Rightarrow> bytes \<Rightarrow> (unit, unit, bytes) op" where
  "sample_crypt oper x =
     okE (case oper of EncryptBlocks \<Rightarrow> ecb 16 sample_E x | CbcMac \<Rightarrow> replicate 16 (fold (+) x 0))"

lemma ccm_callback_sample: "ccm_callback sample_crypt sample_E (\<lambda>x. replicate 16 (fold (+) x 0))"
  using block_perm_keeps_len [OF block_perm_sample]
  by (simp add: ccm_callback_def sample_crypt_def enc_callback_def returns_okE)

definition sample_ghash :: "bytes ghash_lib" where
  "sample_ghash = \<lparr>gh_new = \<lambda>k. k, gh_update_padded = xor_into, gh_update = foldl xor_into,
                    gh_finalize = resize 16 0\<rparr>"

lemma gcm_lib_ok_sample: "gcm_lib_ok sample_ghash"
  by (simp add: gcm_lib_ok_def sample_ghash_def)

text \<open>
  C4: CCM decryption is exact. For valid parameters and any caller operations (a block encryption
  \<open>E\<close> and a MAC \<open>M\<close>), decrypting \<open>y\<close> returns \<open>x\<close> if and only if \<open>x\<close> has the announced length and
  encrypting \<open>x\<close> under the same nonce, associated data and tag length returns \<open>y\<close>; every other
  input of the right length is refused with \<open>AuthenticationFailed\<close> and no plaintext.
\<close>

theorem ccm_exact:
  assumes "ccm_ok len nonce aad t" "ccm_callback crypt E M"
  shows "(returns (ccm_with len nonce aad t y False crypt) x \<longleftrightarrow>
            length x = len \<and> returns (ccm_with len nonce aad t x True crypt) y)
       \<and> (length y = len + t \<and> (\<forall>x. length x = len \<longrightarrow> \<not> returns (ccm_with len nonce aad t x True crypt) y)
            \<longrightarrow> fails (ccm_with len nonce aad t y False crypt) Ccm_AuthenticationFailed)"
proof -
  have iff: "returns (ccm_with len nonce aad t y False crypt) x \<longleftrightarrow>
      length x = len \<and> returns (ccm_with len nonce aad t x True crypt) y" for x
    using ccm.bwd_iff [of "(len, nonce, aad, t, crypt)" y x] assms by auto
  have "fails (ccm_with len nonce aad t y False crypt) Ccm_AuthenticationFailed"
    if "length y = len + t" "\<forall>x. length x = len \<longrightarrow> \<not> returns (ccm_with len nonce aad t x True crypt) y"
    using ccm_decrypt [OF assms that(1) refl refl refl] that(2) iff by blast
  then show ?thesis using iff by blast
qed

theorem ccm_exact_witness:
  "returns (ccm_with 3 (replicate 7 9) [5] 4 (ccm_seal sample_E (\<lambda>x. replicate 16 (fold (+) x 0)) (replicate 7 9) [5] 4 [1, 2, 3])
     False sample_crypt) [1, 2, 3]"
proof -
  have l3: "length [1, 2, 3 :: byte] = 3" by simp
  have ok: "ccm_ok 3 (replicate 7 9) [5] 4" by (simp add: ccm_ok_def usize_bound_def)
  show ?thesis
    unfolding ccm_exact [OF ok ccm_callback_sample, THEN conjunct1]
    using ccm_encrypt [OF _ ccm_callback_sample, of "[1, 2, 3]", unfolded l3, OF ok] l3 by blast
qed

text \<open>
  C6: The CCM formatting separates messages. The MAC input determines the nonce, the associated
  data, the tag length and the plaintext; the counter blocks of one message are pairwise
  different, and none of them is the first block of the MAC input.
\<close>

theorem ccm_formatting:
  assumes "ccm_ok (length p) nonce aad t" "ccm_ok (length p') nonce' aad' t'"
  shows "(ccm_mac_input (length p) nonce aad t p = ccm_mac_input (length p') nonce' aad' t' p'
            \<longrightarrow> nonce = nonce' \<and> aad = aad' \<and> t = t' \<and> p = p')
       \<and> distinct (map (ccm_counter_block nonce) [0..<div_ceil (length p) 16 + 1])
       \<and> take 16 (ccm_mac_input (length p) nonce aad t p)
           \<notin> set (map (ccm_counter_block nonce) [0..<div_ceil (length p) 16 + 1])"
proof -
  let ?k = "div_ceil (length p) 16"
  have "distinct (map (ccm_counter_block nonce) [0..<?k + 1])"
    using ccm_counter_block_inj [OF assms(1)] unfolding distinct_map by (auto simp: inj_on_def)
  moreover have "length (ccm_b0 (length p) nonce aad t) = 16"
    using assms(1) by (subst ccm_b0_form) (auto simp: ccm_ok_def)
  then have "take 16 (ccm_mac_input (length p) nonce aad t p) = ccm_b0 (length p) nonce aad t"
    by (simp add: ccm_mac_input_form [OF assms(1)])
  then have "take 16 (ccm_mac_input (length p) nonce aad t p) \<notin> set (map (ccm_counter_block nonce) [0..<?k + 1])"
    using ccm_b0_not_counter [OF assms(1)] by (auto simp: image_iff less_Suc_eq_le)
  ultimately show ?thesis using ccm_mac_input_decodable [OF assms] by blast
qed

theorem ccm_formatting_witness:
  "take 16 (ccm_mac_input 3 (replicate 7 9) [5] 4 [1, 2, 3])
     \<notin> set (map (ccm_counter_block (replicate 7 9)) [0..<div_ceil 3 16 + 1])"
proof -
  have l3: "length [1, 2, 3 :: byte] = 3" by simp
  have ok: "ccm_ok (length [1, 2, 3 :: byte]) (replicate 7 9) [5] 4" by (simp add: ccm_ok_def usize_bound_def)
  show ?thesis using ccm_formatting [OF ok ok] unfolding l3 by blast
qed

text \<open>
  C5: GCM decryption is exact. For valid parameters, any 16-byte hash and any block encryption,
  decrypting \<open>y\<close> returns \<open>x\<close> if and only if \<open>x\<close> is within the block limit and encrypting \<open>x\<close>
  returns \<open>y\<close>, whose length is that of \<open>x\<close> plus the tag; every other input of that length is
  refused with \<open>AuthenticationFailed\<close>.
\<close>

theorem gcm_exact:
  assumes "gcm_ok iv aad bits (length x)" "gcm_lib_ok lib" "enc_callback 16 enc E" "keeps_len 16 E"
  shows "(returns (gcm_with lib iv aad bits y False enc) x \<longleftrightarrow> returns (gcm_with lib iv aad bits x True enc) y)
       \<and> (length y = length x + div_ceil bits 8 \<and>
            (\<forall>x'. length x' = length x \<longrightarrow> \<not> returns (gcm_with lib iv aad bits x' True enc) y)
            \<longrightarrow> fails (gcm_with lib iv aad bits y False enc) Gcm_AuthenticationFailed)"
proof -
  have iff: "returns (gcm_with lib iv aad bits y False enc) z \<longleftrightarrow> returns (gcm_with lib iv aad bits z True enc) y"
    if "length z = length x" for z
  proof -
    have "gcm_ok iv aad bits 0" "div_ceil (length z) 16 \<le> 2 ^ 32 - 3"
      using assms(1) that by (simp_all add: gcm_ok_def div_ceil_def [of 0])
    then show ?thesis using gcm.bwd_iff [of "(lib, iv, aad, bits, enc)" y z] assms(2-4) by auto
  qed
  have "fails (gcm_with lib iv aad bits y False enc) Gcm_AuthenticationFailed"
    if y: "length y = length x + div_ceil bits 8"
      and no: "\<forall>x'. length x' = length x \<longrightarrow> \<not> returns (gcm_with lib iv aad bits x' True enc) y"
  proof -
    let ?c = "take (length x) y"
    have l: "length ?c = length x" "length (drop (length x) y) = div_ceil bits 8" using y by simp_all
    have "gcm_ok iv aad bits (length ?c)" using assms(1) l by simp
    note d = gcm_decrypt [OF this assms(2-4) l(2), unfolded append_take_drop_id l(1)]
    have "length (xor_bytes ?c (drop 16 (gcm_stream lib E iv (length x)))) = length x"
      using length_gcm_stream [OF assms(2,4), of iv "length x"] div_ceil_bounds(1) [of 16 "length x"] l by simp
    then show ?thesis using d iff no by blast
  qed
  then show ?thesis using iff [OF refl] by blast
qed

theorem gcm_exact_witness:
  "returns (gcm_with sample_ghash (replicate 12 1) [7] 100 (gcm_seal sample_ghash sample_E (replicate 12 1) [7] 100 [1, 2, 3])
     False (\<lambda>x. sample_cb 16 x True)) [1, 2, 3]"
proof -
  have ok: "gcm_ok (replicate 12 1) [7] 100 (length [1, 2, 3 :: byte])"
    by (simp add: gcm_ok_def usize_bound_def div_ceil_def)
  note c = gcm_lib_ok_sample enc_callback_sample [of 16] block_perm_keeps_len [OF block_perm_sample [of 16]]
  show ?thesis using gcm_exact [OF ok c] gcm_encrypt [OF ok c] by blast
qed

text \<open>
  GCM never reuses a counter block within a message: every counter block keeps the first 12
  bytes of the initial one, and the blocks are pairwise different for as many blocks as
  \<open>gcm_with\<close> admits (at most \<open>2 ^ 32 - 3\<close> after the initial one), the 32-bit counter wrapping
  around included.
\<close>

theorem gcm_counters_distinct:
  assumes "length c = 16" "k \<le> 2 ^ 32 - 1 - 2"
  shows "distinct (chunks_exact 16 (gcm_counter_blocks k c))
       \<and> (\<forall>b \<in> set (chunks_exact 16 (gcm_counter_blocks k c)). take 12 b = take 12 c)"
proof -
  have inj: "i = j" if ij: "i < k + 1" "j < k + 1"
    "(increment_gcm_counter ^^ i) c = (increment_gcm_counter ^^ j) c" for i j
  proof -
    have "u32_from_be (drop 12 c) + word_of_nat i = u32_from_be (drop 12 c) + word_of_nat j"
      using ij(3) unfolding increment_iterate [OF assms(1)] by (auto dest: u32_be_inj)
    then have "unat (word_of_nat i :: u32) = unat (word_of_nat j :: u32)" by simp
    then show ?thesis using ij(1,2) assms(2) by (simp add: unat_of_nat)
  qed
  have "inj_on (\<lambda>i. (increment_gcm_counter ^^ i) c) {0..<k + 1}"
    by (rule inj_onI, rule inj) simp_all
  then have "distinct (map (\<lambda>i. (increment_gcm_counter ^^ i) c) [0..<k + 1])"
    by (simp only: distinct_map set_upt distinct_upt simp_thms)
  then show ?thesis
    unfolding gcm_counter_blocks_chunks [OF assms(1)]
    using assms(1) by (auto simp: increment_iterate [OF assms(1)] simp del: upt_Suc)
qed

theorem gcm_counters_distinct_witness:
  "distinct (chunks_exact 16 (gcm_counter_blocks 3 (replicate 16 0xff)))"
  using gcm_counters_distinct [of "replicate 16 0xff" 3] by simp

end
