(* ===== verification/Soft_Symmetric.thy ===== *)
theory Soft_Symmetric
  imports Cbc_Padding
begin

text \<open>
  \<^verbatim>\<open>src/src/software_symmetric.rs\<close>, lines 755 to 1126: the operations with a software-held key.
  The primitives belong to the crates \<open>aes\<close>, \<open>des\<close>, \<open>aes-kw\<close>, \<open>ccm\<close> and \<open>cmac\<close>; the record
  \<open>cipher_crates\<close> holds what the code calls of them, and \<open>crates_ok\<close> the documented behaviour
  the properties rely on. A cipher object is identified with the key it was built from.
\<close>

datatype AesCipher = Aes128 bytes | Aes192 bytes | Aes256 bytes

record cipher_crates =
  aes_encrypt_block :: "AesCipher \<Rightarrow> bytes \<Rightarrow> bytes"
  aes_decrypt_block :: "AesCipher \<Rightarrow> bytes \<Rightarrow> bytes"
  kwp_wrap_key :: "AesCipher \<Rightarrow> bytes \<Rightarrow> bytes \<Rightarrow> bytes option"
  kwp_unwrap_key :: "AesCipher \<Rightarrow> bytes \<Rightarrow> bytes \<Rightarrow> bytes option"
  ccm_crate_encrypt :: "nat \<Rightarrow> AesCipher \<Rightarrow> bytes \<Rightarrow> bytes \<Rightarrow> bytes option"
  ccm_crate_decrypt :: "nat \<Rightarrow> AesCipher \<Rightarrow> bytes \<Rightarrow> bytes \<Rightarrow> bytes option"
  cmac_crate :: "AesCipher \<Rightarrow> bytes \<Rightarrow> bytes"
  tdes_new :: "bytes \<Rightarrow> bool"
  tdes_encrypt_block :: "bytes \<Rightarrow> bytes \<Rightarrow> bytes"
  tdes_decrypt_block :: "bytes \<Rightarrow> bytes \<Rightarrow> bytes"

text \<open>\<open>match key.len() { 16 => .., 24 => .., 32 => .., _ => Err(InvalidKeyLength) }\<close>\<close>

definition AesCipher_new :: "bytes \<Rightarrow> SoftwareSymmetricError + AesCipher" where
  "AesCipher_new key =
     (if length key = 16 then Inr (Aes128 key)
      else if length key = 24 then Inr (Aes192 key)
      else if length key = 32 then Inr (Aes256 key)
      else Inl Sym_InvalidKeyLength)"

definition wrap_aes_kwp :: "cipher_crates \<Rightarrow> bytes \<Rightarrow> bytes \<Rightarrow> SoftwareSymmetricError + bytes" where
  "wrap_aes_kwp crates key plaintext =
     (let output_length = (div_ceil (length plaintext) 8 + 1) * 8;
          output = replicate output_length 0
      in bindR (AesCipher_new key) (\<lambda>cipher.
         ok_orR Sym_InvalidDataLength (kwp_wrap_key crates cipher plaintext output)))"

definition unwrap_aes_kwp :: "cipher_crates \<Rightarrow> bytes \<Rightarrow> bytes \<Rightarrow> SoftwareSymmetricError + bytes" where
  "unwrap_aes_kwp crates key wrapped =
     bindR (ok_orR Sym_InvalidDataLength (checked_sub (length wrapped) 8)) (\<lambda>output_length.
     let output = replicate output_length 0
     in bindR (AesCipher_new key) (\<lambda>cipher.
        ok_orR Sym_AuthenticationFailed (kwp_unwrap_key crates cipher wrapped output)))"

definition AES_CCM_NONCE_SIZE :: nat where "AES_CCM_NONCE_SIZE = 13"
definition AES_CCM_TAG_SIZE :: nat where "AES_CCM_TAG_SIZE = 16"
definition YUBICO_OTP_TAG_SIZE :: nat where "YUBICO_OTP_TAG_SIZE = 8"

definition encrypt_yubico_otp_aead :: "cipher_crates \<Rightarrow> bytes \<Rightarrow> bytes \<Rightarrow> bytes \<Rightarrow> SoftwareSymmetricError + bytes" where
  "encrypt_yubico_otp_aead crates key nonce plaintext =
     bindR (rejectR (length nonce \<noteq> AES_CCM_NONCE_SIZE) Sym_InvalidIvLength) (\<lambda>_.
     bindR (AesCipher_new key) (\<lambda>cipher.
     ok_orR Sym_AuthenticationFailed (ccm_crate_encrypt crates 8 cipher nonce plaintext)))"

definition decrypt_yubico_otp_aead :: "cipher_crates \<Rightarrow> bytes \<Rightarrow> bytes \<Rightarrow> bytes \<Rightarrow> SoftwareSymmetricError + bytes" where
  "decrypt_yubico_otp_aead crates key nonce ciphertext_and_tag =
     bindR (rejectR (length nonce \<noteq> AES_CCM_NONCE_SIZE) Sym_InvalidIvLength) (\<lambda>_.
     bindR (rejectR (length ciphertext_and_tag < YUBICO_OTP_TAG_SIZE) Sym_InvalidDataLength) (\<lambda>_.
     bindR (AesCipher_new key) (\<lambda>cipher.
     ok_orR Sym_AuthenticationFailed (ccm_crate_decrypt crates 8 cipher nonce ciphertext_and_tag))))"

definition encrypt_aes_ccm :: "cipher_crates \<Rightarrow> bytes \<Rightarrow> bytes \<Rightarrow> bytes \<Rightarrow> SoftwareSymmetricError + bytes" where
  "encrypt_aes_ccm crates key nonce plaintext =
     bindR (rejectR (length nonce \<noteq> AES_CCM_NONCE_SIZE) Sym_InvalidIvLength) (\<lambda>_.
     bindR (AesCipher_new key) (\<lambda>cipher.
     ok_orR Sym_AuthenticationFailed (ccm_crate_encrypt crates 16 cipher nonce plaintext)))"

definition decrypt_aes_ccm :: "cipher_crates \<Rightarrow> bytes \<Rightarrow> bytes \<Rightarrow> bytes \<Rightarrow> SoftwareSymmetricError + bytes" where
  "decrypt_aes_ccm crates key nonce ciphertext_and_tag =
     bindR (rejectR (length nonce \<noteq> AES_CCM_NONCE_SIZE) Sym_InvalidIvLength) (\<lambda>_.
     bindR (rejectR (length ciphertext_and_tag < AES_CCM_TAG_SIZE) Sym_InvalidDataLength) (\<lambda>_.
     bindR (AesCipher_new key) (\<lambda>cipher.
     ok_orR Sym_AuthenticationFailed (ccm_crate_decrypt crates 16 cipher nonce ciphertext_and_tag))))"

definition aes_cmac :: "cipher_crates \<Rightarrow> bytes \<Rightarrow> bytes \<Rightarrow> SoftwareSymmetricError + bytes" where
  "aes_cmac crates key data = bindR (AesCipher_new key) (\<lambda>cipher. Inr (cmac_crate crates cipher data))"

definition encrypt_aes_block :: "cipher_crates \<Rightarrow> bytes \<Rightarrow> bytes \<Rightarrow> SoftwareSymmetricError + bytes" where
  "encrypt_aes_block crates key input =
     bindR (AesCipher_new key) (\<lambda>cipher. Inr (aes_encrypt_block crates cipher input))"

definition decrypt_aes_block :: "cipher_crates \<Rightarrow> bytes \<Rightarrow> bytes \<Rightarrow> SoftwareSymmetricError + bytes" where
  "decrypt_aes_block crates key input =
     bindR (AesCipher_new key) (\<lambda>cipher. Inr (aes_decrypt_block crates cipher input))"

text \<open>\<open>as_chunks_mut\<close> rewrites each whole block in place; the remainder is empty after the check.\<close>

definition transform_ecb :: "cipher_crates \<Rightarrow> bytes \<Rightarrow> bytes \<Rightarrow> bool \<Rightarrow> SoftwareSymmetricError + bytes" where
  "transform_ecb crates key input encrypt =
     bindR (rejectR (length input mod AES_BLOCK_SIZE \<noteq> 0) Sym_InvalidDataLength) (\<lambda>_.
     bindR (AesCipher_new key) (\<lambda>cipher.
     Inr (concat (map (\<lambda>block. if encrypt then aes_encrypt_block crates cipher block
                               else aes_decrypt_block crates cipher block)
                    (chunks_exact AES_BLOCK_SIZE input)))))"

definition encrypt_aes_ecb :: "cipher_crates \<Rightarrow> bytes \<Rightarrow> bytes \<Rightarrow> SoftwareSymmetricError + bytes" where
  "encrypt_aes_ecb crates key plaintext = transform_ecb crates key plaintext True"

definition decrypt_aes_ecb :: "cipher_crates \<Rightarrow> bytes \<Rightarrow> bytes \<Rightarrow> SoftwareSymmetricError + bytes" where
  "decrypt_aes_ecb crates key ciphertext = transform_ecb crates key ciphertext False"

definition map_software_block_mode_error ::
  "SoftwareSymmetricError BlockCipherModeError \<Rightarrow> SoftwareSymmetricError" where
  "map_software_block_mode_error error =
     (case error of
        Mode_InvalidIvLength \<Rightarrow> Sym_InvalidIvLength
      | Mode_BlockOperation error \<Rightarrow> error
      | Mode_InvalidBlockSize \<Rightarrow> Sym_InvalidDataLength
      | Mode_InvalidDataLength \<Rightarrow> Sym_InvalidDataLength
      | Mode_InvalidCounterBits \<Rightarrow> Sym_InvalidDataLength
      | Mode_InputTooLong \<Rightarrow> Sym_InvalidDataLength
      | Mode_InvalidBlockOutput \<Rightarrow> Sym_InvalidDataLength)"

text \<open>A closure without state: run the mode on the unit state.\<close>

definition run_mode ::
  "(unit, SoftwareSymmetricError BlockCipherModeError, bytes) op \<Rightarrow> SoftwareSymmetricError + bytes" where
  "run_mode m = map_errR map_software_block_mode_error (fst (m ()))"

definition encrypt_aes_cbc :: "cipher_crates \<Rightarrow> bytes \<Rightarrow> bytes \<Rightarrow> bytes \<Rightarrow> SoftwareSymmetricError + bytes" where
  "encrypt_aes_cbc crates key iv plaintext =
     run_mode (cbc_with AES_BLOCK_SIZE iv plaintext True (\<lambda>blocks encrypting. liftE (encrypt_aes_ecb crates key blocks)))"

definition decrypt_aes_cbc :: "cipher_crates \<Rightarrow> bytes \<Rightarrow> bytes \<Rightarrow> bytes \<Rightarrow> SoftwareSymmetricError + bytes" where
  "decrypt_aes_cbc crates key iv ciphertext =
     run_mode (cbc_with AES_BLOCK_SIZE iv ciphertext False (\<lambda>blocks encrypting. liftE (decrypt_aes_ecb crates key blocks)))"

definition TDES_BLOCK_SIZE :: nat where "TDES_BLOCK_SIZE = 8"

definition crypt_tdes_ecb :: "cipher_crates \<Rightarrow> bytes \<Rightarrow> bytes \<Rightarrow> bool \<Rightarrow> SoftwareSymmetricError + bytes" where
  "crypt_tdes_ecb crates key input encrypting =
     bindR (rejectR (length key \<noteq> 24) Sym_InvalidKeyLength) (\<lambda>_.
     bindR (rejectR (length input mod TDES_BLOCK_SIZE \<noteq> 0) Sym_InvalidDataLength) (\<lambda>_.
     bindR (rejectR (\<not> tdes_new crates key) Sym_InvalidKeyLength) (\<lambda>_.
     Inr (concat (map (\<lambda>block. if encrypting then tdes_encrypt_block crates key block
                               else tdes_decrypt_block crates key block)
                    (chunks_exact TDES_BLOCK_SIZE input))))))"

definition encrypt_tdes_ecb :: "cipher_crates \<Rightarrow> bytes \<Rightarrow> bytes \<Rightarrow> SoftwareSymmetricError + bytes" where
  "encrypt_tdes_ecb crates key plaintext = crypt_tdes_ecb crates key plaintext True"

definition decrypt_tdes_ecb :: "cipher_crates \<Rightarrow> bytes \<Rightarrow> bytes \<Rightarrow> SoftwareSymmetricError + bytes" where
  "decrypt_tdes_ecb crates key ciphertext = crypt_tdes_ecb crates key ciphertext False"

definition crypt_tdes_cbc ::
  "cipher_crates \<Rightarrow> bytes \<Rightarrow> bytes \<Rightarrow> bytes \<Rightarrow> bool \<Rightarrow> SoftwareSymmetricError + bytes" where
  "crypt_tdes_cbc crates key iv input encrypting =
     run_mode (cbc_with TDES_BLOCK_SIZE iv input encrypting
       (\<lambda>blocks operation. liftE (if operation then encrypt_tdes_ecb crates key blocks
                                  else decrypt_tdes_ecb crates key blocks)))"

definition encrypt_tdes_cbc :: "cipher_crates \<Rightarrow> bytes \<Rightarrow> bytes \<Rightarrow> bytes \<Rightarrow> SoftwareSymmetricError + bytes" where
  "encrypt_tdes_cbc crates key iv plaintext = crypt_tdes_cbc crates key iv plaintext True"

definition decrypt_tdes_cbc :: "cipher_crates \<Rightarrow> bytes \<Rightarrow> bytes \<Rightarrow> bytes \<Rightarrow> SoftwareSymmetricError + bytes" where
  "decrypt_tdes_cbc crates key iv ciphertext = crypt_tdes_cbc crates key iv ciphertext False"


section \<open>What the crates promise\<close>

definition aes_key_ok :: "bytes \<Rightarrow> bool" where
  "aes_key_ok key \<longleftrightarrow> length key = 16 \<or> length key = 24 \<or> length key = 32"

definition aes_ok :: "cipher_crates \<Rightarrow> bool" where
  "aes_ok crates \<longleftrightarrow> (\<forall>c. block_perm 16 (aes_encrypt_block crates c) (aes_decrypt_block crates c))"

definition tdes_ok :: "cipher_crates \<Rightarrow> bool" where
  "tdes_ok crates \<longleftrightarrow> (\<forall>key. length key = 24 \<longrightarrow>
     tdes_new crates key \<and> block_perm 8 (tdes_encrypt_block crates key) (tdes_decrypt_block crates key))"

text \<open>\<open>aes-kw\<close>: given a buffer large enough, wrapping 1 to \<open>2 ^ 32 - 1\<close> bytes succeeds with whole
  semiblocks plus one, and unwrapping inverts it.\<close>

definition kwp_crate_ok :: "cipher_crates \<Rightarrow> bool" where
  "kwp_crate_ok crates \<longleftrightarrow> (\<forall>c x out. x \<noteq> [] \<and> length x < 2 ^ 32 \<and> (div_ceil (length x) 8 + 1) * 8 \<le> length out \<longrightarrow>
     (\<exists>y. kwp_wrap_key crates c x out = Some y \<and> length y = (div_ceil (length x) 8 + 1) * 8 \<and>
        (\<forall>out'. div_ceil (length x) 8 * 8 \<le> length out' \<longrightarrow> kwp_unwrap_key crates c y out' = Some x)))"

text \<open>\<open>ccm\<close> with a 13-byte nonce: messages below \<open>2 ^ 16\<close> bytes are sealed with a tag and opened again.\<close>

definition ccm_crate_ok :: "cipher_crates \<Rightarrow> bool" where
  "ccm_crate_ok crates \<longleftrightarrow> (\<forall>t c nonce x. t \<in> {8, 16} \<and> length nonce = 13 \<and> length x < 2 ^ 16 \<longrightarrow>
     (\<exists>y. ccm_crate_encrypt crates t c nonce x = Some y \<and> length y = length x + t \<and>
        ccm_crate_decrypt crates t c nonce y = Some x))"



section \<open>ECB and CBC with a software key\<close>

lemma AesCipher_new_ok: "aes_key_ok key \<Longrightarrow> \<exists>c. AesCipher_new key = Inr c"
  by (auto simp: aes_key_ok_def AesCipher_new_def)

lemma AesCipher_new_bad: "\<not> aes_key_ok key \<Longrightarrow> AesCipher_new key = Inl Sym_InvalidKeyLength"
  by (auto simp: aes_key_ok_def AesCipher_new_def)

lemma run_mode_returns: "returns m y \<Longrightarrow> run_mode m = Inr y"
  by (simp add: run_mode_def returns_def)

lemma run_mode_fails: "fails m e \<Longrightarrow> run_mode m = Inl (map_software_block_mode_error e)"
  by (simp add: run_mode_def fails_def)

lemma fails_liftE: "fails (liftE (Inl e)) e"
  by (simp add: fails_def liftE_def)

lemma ecb_callback_liftE:
  assumes "\<And>x. n dvd length x \<Longrightarrow> f x = Inr (ecb n E x)"
  shows "enc_callback n (\<lambda>x. liftE (f x)) E"
  using assms by (simp add: enc_callback_def returns_liftE)

lemma transform_ecb_eq:
  "AesCipher_new key = Inr c \<Longrightarrow> 16 dvd length x \<Longrightarrow>
   transform_ecb crates key x e = Inr (ecb 16 (if e then aes_encrypt_block crates c else aes_decrypt_block crates c) x)"
  by (cases e) (simp_all add: transform_ecb_def ecb_def AES_BLOCK_SIZE_def)

lemma cbc_guards:
  assumes "0 < n"
  shows "length iv \<noteq> n \<Longrightarrow> fails (cbc_with n iv x e cb) Mode_InvalidIvLength"
    and "length iv = n \<Longrightarrow> \<not> n dvd length x \<Longrightarrow> fails (cbc_with n iv x e cb) Mode_InvalidDataLength"
  using assms by (auto simp: cbc_with_def mod_eq_0_iff_dvd)

lemma cbc_callback_fails:
  assumes "0 < n" "length iv = n" "n dvd length x" "\<And>b. n dvd length b \<Longrightarrow> fails (cb b e) err"
  shows "x \<noteq> [] \<or> \<not> e \<Longrightarrow> fails (cbc_with n iv x e cb) (Mode_BlockOperation err)"
    and "returns (cbc_with n iv [] True cb) []"
proof -
  show "fails (cbc_with n iv x e cb) (Mode_BlockOperation err)" if "x \<noteq> [] \<or> \<not> e"
  proof (cases e)
    case True
    with that have ne: "x \<noteq> []" by simp
    have "n \<le> length x" using assms(1,3) ne by (simp add: dvd_imp_le)
    then obtain b bs where bs: "chunks_exact n x = b # bs" using assms(1) by (simp add: chunks_exact_step)
    have "length b = n" using bs chunks_exact_lengths by (metis list.set_intros(1))
    then have "fails (cb (xor_bytes b iv) True) err" using assms(2,4) True by simp
    then have "fails (cbc_encrypt_block n cb b (iv, [])) (Mode_BlockOperation err)"
      unfolding cbc_encrypt_block_def Let_def prod.case by (intro fails_bindE_left fails_map_errE)
    then show ?thesis using assms(1-3) True
      by (simp add: cbc_with_def bs bindE_assoc fails_bindE_left mod_eq_0_iff_dvd)
  next
    case False
    then have "fails (cb x False) err" using assms(3,4) by simp
    then show ?thesis using assms(1-3) False
      by (simp add: cbc_with_def fails_bindE_left fails_map_errE mod_eq_0_iff_dvd)
  qed
  show "returns (cbc_with n iv [] True cb) []"
    using assms(1,2) by (simp add: cbc_with_def returns_okE)
qed

text \<open>Every string of whole blocks is the encryption of one.\<close>

lemma cbc_spec_surj:
  assumes "0 < n" "block_perm n E D" "length iv = n" "n dvd length y"
  obtains x where "length x = length y" "cbc_spec n E iv x = y"
proof -
  let ?B = "{b :: bytes. length b = length y}"
  let ?cb = "\<lambda>x e. okE (ecb n (if e then E else D) x) :: (unit, unit, bytes) op"
  have cb: "enc_callback n (\<lambda>x. ?cb x False) D" by (simp add: enc_callback_def returns_okE)
  have "inj_on (cbc_spec n E iv) ?B"
  proof (rule inj_onI)
    fix a b assume ab: "a \<in> ?B" "b \<in> ?B" "cbc_spec n E iv a = cbc_spec n E iv b"
    have "returns (cbc_with n iv (cbc_spec n E iv z) False ?cb) z" if "z \<in> ?B" for z
      using that assms cb by (intro cbc_with_decrypts [where cb = ?cb]) simp_all
    then show "a = b" using ab returns_unique by metis
  qed
  moreover have "cbc_spec n E iv ` ?B \<subseteq> ?B"
    using assms by (auto simp: length_cbc_spec block_perm_keeps_len)
  moreover have "finite ?B" using finite_lists_length_eq [of "UNIV :: byte set" "length y"] by simp
  ultimately have "cbc_spec n E iv ` ?B = ?B" by (intro endo_inj_surj)
  then have "y \<in> cbc_spec n E iv ` ?B" by simp
  then show ?thesis using that by auto
qed


text \<open>With a working callback, CBC through \<open>run_mode\<close> is the reference, and decryption its inverse.\<close>

lemma soft_cbc:
  assumes "0 < n" "block_perm n E D" "length iv = n" "n dvd length x"
  shows "enc_callback n (\<lambda>b. cb b True) E \<Longrightarrow> run_mode (cbc_with n iv x True cb) = Inr (cbc_spec n E iv x)"
    and "enc_callback n (\<lambda>b. cb b False) D \<Longrightarrow>
           run_mode (cbc_with n iv x False cb) = Inr z \<longleftrightarrow> length z = length x \<and> cbc_spec n E iv z = x"
proof -
  show "run_mode (cbc_with n iv x True cb) = Inr (cbc_spec n E iv x)" if "enc_callback n (\<lambda>b. cb b True) E"
    using assms that
    by (intro run_mode_returns cbc_with_encrypts [where cb = cb]) (simp_all add: block_perm_keeps_len)
  assume cb: "enc_callback n (\<lambda>b. cb b False) D"
  have dec: "run_mode (cbc_with n iv (cbc_spec n E iv a) False cb) = Inr a" if "n dvd length a" for a
    using assms cb that by (intro run_mode_returns cbc_with_decrypts [where cb = cb]) simp_all
  obtain w where w: "length w = length x" "cbc_spec n E iv w = x"
    using cbc_spec_surj [OF assms] by blast
  show "run_mode (cbc_with n iv x False cb) = Inr z \<longleftrightarrow> length z = length x \<and> cbc_spec n E iv z = x"
    using dec [of w] dec [of z] w assms(4) by (metis sum.inject(2))
qed

lemma aes_callbacks:
  assumes "AesCipher_new key = Inr c"
  shows "enc_callback 16 (\<lambda>b. liftE (encrypt_aes_ecb crates key b)) (aes_encrypt_block crates c)"
    and "enc_callback 16 (\<lambda>b. liftE (decrypt_aes_ecb crates key b)) (aes_decrypt_block crates c)"
  by (rule ecb_callback_liftE, simp add: encrypt_aes_ecb_def decrypt_aes_ecb_def transform_ecb_eq [OF assms])+

lemma tdes_callbacks:
  assumes "tdes_ok crates" "length key = 24"
  shows "enc_callback 8 (\<lambda>b. liftE (encrypt_tdes_ecb crates key b)) (tdes_encrypt_block crates key)"
    and "enc_callback 8 (\<lambda>b. liftE (decrypt_tdes_ecb crates key b)) (tdes_decrypt_block crates key)"
  using assms
  by (auto intro!: ecb_callback_liftE
      simp: encrypt_tdes_ecb_def decrypt_tdes_ecb_def crypt_tdes_ecb_def tdes_ok_def ecb_def TDES_BLOCK_SIZE_def)

lemma aes_bad_key_fails:
  assumes "\<not> aes_key_ok key" "16 dvd length b"
  shows "fails (liftE (encrypt_aes_ecb crates key b)) Sym_InvalidKeyLength"
    and "fails (liftE (decrypt_aes_ecb crates key b)) Sym_InvalidKeyLength"
  using assms
  by (simp_all add: encrypt_aes_ecb_def decrypt_aes_ecb_def transform_ecb_def AES_BLOCK_SIZE_def
      AesCipher_new_bad fails_liftE mod_eq_0_iff_dvd)

lemma encrypt_aes_cbc_eq:
  assumes "aes_ok crates"
  shows "encrypt_aes_cbc crates key iv x =
    (if length iv \<noteq> 16 then Inl Sym_InvalidIvLength
     else if \<not> 16 dvd length x then Inl Sym_InvalidDataLength
     else if x = [] then Inr []
     else case AesCipher_new key of Inl e \<Rightarrow> Inl e
          | Inr c \<Rightarrow> Inr (cbc_spec 16 (aes_encrypt_block crates c) iv x))"
proof (cases "length iv = 16 \<and> 16 dvd length x")
  case False
  then show ?thesis
    using run_mode_fails [OF cbc_guards(1)] run_mode_fails [OF cbc_guards(2)]
    by (auto simp: encrypt_aes_cbc_def AES_BLOCK_SIZE_def map_software_block_mode_error_def)
next
  case ok: True
  let ?cb = "\<lambda>b e. liftE (encrypt_aes_ecb crates key b) :: (unit, _, _) op"
  show ?thesis
  proof (cases "aes_key_ok key")
    case True
    then obtain c where c: "AesCipher_new key = Inr c" using AesCipher_new_ok by blast
    have "block_perm 16 (aes_encrypt_block crates c) (aes_decrypt_block crates c)"
      using assms by (simp add: aes_ok_def)
    then have "run_mode (cbc_with 16 iv x True ?cb) = Inr (cbc_spec 16 (aes_encrypt_block crates c) iv x)"
      by (rule soft_cbc(1) [rotated]) (use ok aes_callbacks(1) [OF c] in simp_all)
    then show ?thesis using ok c by (auto simp: encrypt_aes_cbc_def AES_BLOCK_SIZE_def cbc_spec_def)
  next
    case False
    note f = cbc_callback_fails [where n = 16 and cb = ?cb and e = True, OF _ _ _ aes_bad_key_fails(1) [OF False]]
    show ?thesis
      using ok run_mode_fails [OF f(1)] run_mode_returns [OF f(2)] AesCipher_new_bad [OF False]
      by (auto simp: encrypt_aes_cbc_def AES_BLOCK_SIZE_def map_software_block_mode_error_def)
  qed
qed

lemma decrypt_aes_cbc_iff:
  assumes "aes_ok crates" "aes_key_ok key" "length iv = 16"
  shows "decrypt_aes_cbc crates key iv y = Inr x \<longleftrightarrow> encrypt_aes_cbc crates key iv x = Inr y"
proof -
  obtain c where c: "AesCipher_new key = Inr c" using AesCipher_new_ok assms(2) by blast
  have p: "block_perm 16 (aes_encrypt_block crates c) (aes_decrypt_block crates c)"
    using assms(1) by (simp add: aes_ok_def)
  let ?s = "cbc_spec 16 (aes_encrypt_block crates c) iv"
  have enc: "encrypt_aes_cbc crates key iv x = Inr y \<longleftrightarrow> 16 dvd length x \<and> ?s x = y"
    using encrypt_aes_cbc_eq [OF assms(1), of key iv x] assms(3) c by (auto simp: cbc_spec_def)
  have l: "length (?s x) = length x" if "16 dvd length x"
    using that assms(3) block_perm_keeps_len [OF p] by (simp add: length_cbc_spec)
  let ?cb = "\<lambda>b e. liftE (decrypt_aes_ecb crates key b) :: (unit, _, _) op"
  have dec: "decrypt_aes_cbc crates key iv y = run_mode (cbc_with 16 iv y False ?cb)"
    by (simp add: decrypt_aes_cbc_def AES_BLOCK_SIZE_def)
  show ?thesis
  proof (cases "16 dvd length y")
    case True
    have "run_mode (cbc_with 16 iv y False ?cb) = Inr x \<longleftrightarrow> length x = length y \<and> ?s x = y"
      using p by (rule soft_cbc(2) [rotated]) (use True assms(3) aes_callbacks(2) [OF c] in simp_all)
    then show ?thesis using True l enc dec by metis
  next
    case False
    then show ?thesis using l enc dec run_mode_fails [OF cbc_guards(2), of 16 iv y False ?cb] assms(3)
      by auto
  qed
qed

lemma decrypt_aes_cbc_bad_key:
  assumes "\<not> aes_key_ok key" "length iv = 16" "16 dvd length y"
  shows "decrypt_aes_cbc crates key iv y = Inl Sym_InvalidKeyLength"
proof -
  let ?cb = "\<lambda>b e. liftE (decrypt_aes_ecb crates key b) :: (unit, _, _) op"
  have "fails (cbc_with 16 iv y False ?cb) (Mode_BlockOperation Sym_InvalidKeyLength)"
    by (rule cbc_callback_fails(1)) (use assms aes_bad_key_fails(2) [OF assms(1)] in simp_all)
  from run_mode_fails [OF this] show ?thesis
    by (simp add: decrypt_aes_cbc_def AES_BLOCK_SIZE_def map_software_block_mode_error_def)
qed

lemma tdes_cbc_iff:
  assumes "tdes_ok crates" "length key = 24" "length iv = 8" "8 dvd length x"
  shows "encrypt_tdes_cbc crates key iv x = Inr (cbc_spec 8 (tdes_encrypt_block crates key) iv x)"
    and "decrypt_tdes_cbc crates key iv x = Inr z \<longleftrightarrow>
           length z = length x \<and> cbc_spec 8 (tdes_encrypt_block crates key) iv z = x"
proof -
  have p: "block_perm 8 (tdes_encrypt_block crates key) (tdes_decrypt_block crates key)"
    using assms(1,2) by (simp add: tdes_ok_def)
  note cbs = tdes_callbacks [OF assms(1,2)]
  show "encrypt_tdes_cbc crates key iv x = Inr (cbc_spec 8 (tdes_encrypt_block crates key) iv x)"
    unfolding encrypt_tdes_cbc_def crypt_tdes_cbc_def TDES_BLOCK_SIZE_def
    using p by (rule soft_cbc(1) [rotated]) (use assms cbs in simp_all)
  show "decrypt_tdes_cbc crates key iv x = Inr z \<longleftrightarrow>
           length z = length x \<and> cbc_spec 8 (tdes_encrypt_block crates key) iv z = x"
    unfolding decrypt_tdes_cbc_def crypt_tdes_cbc_def TDES_BLOCK_SIZE_def
    using p by (rule soft_cbc(2) [rotated]) (use assms cbs in simp_all)
qed

interpretation aes_ecb: result_codec
  "\<lambda>(crates, key) x. aes_ok crates \<and> aes_key_ok key \<and> 16 dvd length x"
  "\<lambda>(crates, key) x. encrypt_aes_ecb crates key x"
  "\<lambda>(crates, key) y. decrypt_aes_ecb crates key y"
proof (unfold_locales, goal_cases)
  case (1 c x)
  then obtain crates key a where c: "c = (crates, key)" "AesCipher_new key = Inr a" "16 dvd length x"
    and p: "block_perm 16 (aes_encrypt_block crates a) (aes_decrypt_block crates a)"
    using AesCipher_new_ok by (cases c) (fastforce simp: aes_ok_def)
  then have "16 dvd length (ecb 16 (aes_encrypt_block crates a) x)"
    using length_ecb [OF _ _ block_perm_keeps_len [OF p], of x] by simp
  then show ?case
    using c p by (auto simp: encrypt_aes_ecb_def decrypt_aes_ecb_def transform_ecb_eq ecb_inverse)
qed

interpretation aes_cbc: result_codec
  "\<lambda>(crates, key, iv) x. aes_ok crates \<and> aes_key_ok key \<and> length iv = 16 \<and> 16 dvd length x"
  "\<lambda>(crates, key, iv) x. encrypt_aes_cbc crates key iv x"
  "\<lambda>(crates, key, iv) y. decrypt_aes_cbc crates key iv y"
proof (unfold_locales, goal_cases)
  case (1 c x)
  obtain crates key iv where c: "c = (crates, key, iv)" by (cases c)
  with 1 have a: "aes_ok crates" "aes_key_ok key" "length iv = 16" "16 dvd length x" by simp_all
  obtain k where "AesCipher_new key = Inr k" using AesCipher_new_ok [OF a(2)] by blast
  then obtain y where "encrypt_aes_cbc crates key iv x = Inr y"
    using encrypt_aes_cbc_eq [OF a(1), of key iv x] a(3,4) by (cases "x = []") simp_all
  then show ?case using decrypt_aes_cbc_iff [OF a(1-3)] by (simp add: c)
qed

interpretation tdes_cbc: result_codec
  "\<lambda>(crates, key, iv) x. tdes_ok crates \<and> length key = 24 \<and> length iv = 8 \<and> 8 dvd length x"
  "\<lambda>(crates, key, iv) x. encrypt_tdes_cbc crates key iv x"
  "\<lambda>(crates, key, iv) y. decrypt_tdes_cbc crates key iv y"
proof (unfold_locales, goal_cases)
  case (1 c x)
  obtain crates key iv where c: "c = (crates, key, iv)" by (cases c)
  with 1 have a: "tdes_ok crates" "length key = 24" "length iv = 8" "8 dvd length x" by simp_all
  have "keeps_len 8 (tdes_encrypt_block crates key)"
    using a(1,2) block_perm_keeps_len by (auto simp: tdes_ok_def)
  then have "length (cbc_spec 8 (tdes_encrypt_block crates key) iv x) = length x"
    using a by (simp add: length_cbc_spec)
  then show ?case using tdes_cbc_iff(1) [OF a] tdes_cbc_iff(2) [OF a(1-3)] a(4) by (simp add: c)
qed

interpretation soft_ccm: result_codec
  "\<lambda>(crates, key, nonce) x. ccm_crate_ok crates \<and> aes_key_ok key \<and> length nonce = 13 \<and> length x < 2 ^ 16"
  "\<lambda>(crates, key, nonce) x. encrypt_aes_ccm crates key nonce x"
  "\<lambda>(crates, key, nonce) y. decrypt_aes_ccm crates key nonce y"
proof (unfold_locales, goal_cases)
  case (1 c x)
  obtain crates key nonce where c: "c = (crates, key, nonce)" by (cases c)
  with 1 obtain a where a: "AesCipher_new key = Inr a" "length nonce = 13" using AesCipher_new_ok by fastforce
  obtain y where y: "ccm_crate_encrypt crates 16 a nonce x = Some y" "length y = length x + 16"
    "ccm_crate_decrypt crates 16 a nonce y = Some x" using 1 c unfolding ccm_crate_ok_def by fastforce
  then show ?case using a
    by (simp add: c encrypt_aes_ccm_def decrypt_aes_ccm_def AES_CCM_NONCE_SIZE_def AES_CCM_TAG_SIZE_def)
qed

interpretation otp_aead: result_codec
  "\<lambda>(crates, key, nonce) x. ccm_crate_ok crates \<and> aes_key_ok key \<and> length nonce = 13 \<and> length x < 2 ^ 16"
  "\<lambda>(crates, key, nonce) x. encrypt_yubico_otp_aead crates key nonce x"
  "\<lambda>(crates, key, nonce) y. decrypt_yubico_otp_aead crates key nonce y"
proof (unfold_locales, goal_cases)
  case (1 c x)
  obtain crates key nonce where c: "c = (crates, key, nonce)" by (cases c)
  with 1 obtain a where a: "AesCipher_new key = Inr a" "length nonce = 13" using AesCipher_new_ok by fastforce
  obtain y where y: "ccm_crate_encrypt crates 8 a nonce x = Some y" "length y = length x + 8"
    "ccm_crate_decrypt crates 8 a nonce y = Some x" using 1 c unfolding ccm_crate_ok_def by fastforce
  then show ?case using a
    by (simp add: c encrypt_yubico_otp_aead_def decrypt_yubico_otp_aead_def AES_CCM_NONCE_SIZE_def YUBICO_OTP_TAG_SIZE_def)
qed

lemma kwp_crateD:
  assumes "kwp_crate_ok crates" "x \<noteq> []" "length x < 2 ^ 32" "(div_ceil (length x) 8 + 1) * 8 \<le> length out"
  shows "\<exists>y. kwp_wrap_key crates c x out = Some y \<and> length y = (div_ceil (length x) 8 + 1) * 8 \<and>
    (\<forall>out'. div_ceil (length x) 8 * 8 \<le> length out' \<longrightarrow> kwp_unwrap_key crates c y out' = Some x)"
  using assms by (simp add: kwp_crate_ok_def)

text \<open>The output buffers that the code allocates are large enough for the crate.\<close>

interpretation soft_kwp: result_codec
  "\<lambda>(crates, key) x. kwp_crate_ok crates \<and> aes_key_ok key \<and> x \<noteq> [] \<and> length x < 2 ^ 32"
  "\<lambda>(crates, key) x. wrap_aes_kwp crates key x"
  "\<lambda>(crates, key) y. unwrap_aes_kwp crates key y"
proof (unfold_locales, goal_cases)
  case (1 c x)
  obtain crates key where c: "c = (crates, key)" by (cases c)
  with 1 obtain a where a: "AesCipher_new key = Inr a" using AesCipher_new_ok by fastforce
  let ?n = "(div_ceil (length x) 8 + 1) * 8"
  obtain y where y: "kwp_wrap_key crates a x (replicate ?n 0) = Some y" "length y = ?n"
    and out: "\<And>out. div_ceil (length x) 8 * 8 \<le> length out \<Longrightarrow> kwp_unwrap_key crates a y out = Some x"
    using kwp_crateD [of crates x "replicate ?n 0" a] 1 c by auto
  then show ?case using a out [of "replicate (length y - 8) 0"]
    by (simp add: c wrap_aes_kwp_def unwrap_aes_kwp_def Let_def checked_sub_def)
qed



section \<open>Properties\<close>

definition sample_crates :: cipher_crates where
  "sample_crates = \<lparr>aes_encrypt_block = \<lambda>c. sample_E, aes_decrypt_block = \<lambda>c. sample_D,
     kwp_wrap_key = \<lambda>c x out. None, kwp_unwrap_key = \<lambda>c y out. None,
     ccm_crate_encrypt = \<lambda>t c nonce x. None, ccm_crate_decrypt = \<lambda>t c nonce y. None,
     cmac_crate = \<lambda>c x. replicate 16 0, tdes_new = \<lambda>key. True,
     tdes_encrypt_block = \<lambda>key. sample_E, tdes_decrypt_block = \<lambda>key. sample_D\<rparr>"

lemma sample_crates_ok: "aes_ok sample_crates" "tdes_ok sample_crates"
  by (simp_all add: aes_ok_def tdes_ok_def sample_crates_def block_perm_sample)

text \<open>
  AES-CBC with a software key. Encryption returns for every input: the initial vector is
  checked first, then the block alignment, then the key (16, 24 or 32 bytes), and otherwise the
  result is cipher block chaining of the AES block function of that key size. For a valid key
  and initial vector, decryption returns \<open>x\<close> for \<open>y\<close> if and only if encryption returns \<open>y\<close> for \<open>x\<close>.
\<close>

theorem aes_cbc_exact:
  assumes "aes_ok crates"
  shows "encrypt_aes_cbc crates key iv x =
          (if length iv \<noteq> 16 then Inl Sym_InvalidIvLength
           else if \<not> 16 dvd length x then Inl Sym_InvalidDataLength
           else if x = [] then Inr []
           else case AesCipher_new key of Inl e \<Rightarrow> Inl e
                | Inr c \<Rightarrow> Inr (cbc_spec 16 (aes_encrypt_block crates c) iv x))
       \<and> (aes_key_ok key \<and> length iv = 16 \<longrightarrow>
            (decrypt_aes_cbc crates key iv y = Inr x \<longleftrightarrow> encrypt_aes_cbc crates key iv x = Inr y))"
  using encrypt_aes_cbc_eq [OF assms] decrypt_aes_cbc_iff [OF assms] by blast

theorem aes_cbc_exact_witness:
  "decrypt_aes_cbc sample_crates (replicate 24 1) (replicate 16 0)
     (cbc_spec 16 sample_E (replicate 16 0) (replicate 32 7)) = Inr (replicate 32 7)"
proof -
  have "encrypt_aes_cbc sample_crates (replicate 24 1) (replicate 16 0) (replicate 32 7)
      = Inr (cbc_spec 16 sample_E (replicate 16 0) (replicate 32 7))"
    using aes_cbc_exact [OF sample_crates_ok(1), of "replicate 24 1" "replicate 16 0" "replicate 32 7"]
    by (simp add: AesCipher_new_def sample_crates_def)
  then show ?thesis
    using aes_cbc_exact [OF sample_crates_ok(1), of "replicate 24 1" "replicate 16 0" "replicate 32 7"]
    by (simp add: aes_key_ok_def)
qed

text \<open>
  An empty plaintext is encrypted without a look at the key: for every key, of whatever
  length, \<open>encrypt_aes_cbc\<close> returns the empty ciphertext, while \<open>decrypt_aes_cbc\<close> refuses the
  same key with \<open>InvalidKeyLength\<close>, and so do both ECB directions.
\<close>

theorem aes_cbc_empty_plaintext:
  assumes "\<not> aes_key_ok key" "length iv = 16"
  shows "encrypt_aes_cbc crates key iv [] = Inr []
       \<and> decrypt_aes_cbc crates key iv [] = Inl Sym_InvalidKeyLength
       \<and> encrypt_aes_ecb crates key [] = Inl Sym_InvalidKeyLength
       \<and> decrypt_aes_ecb crates key [] = Inl Sym_InvalidKeyLength"
proof -
  have "encrypt_aes_cbc crates key iv [] = Inr []"
    unfolding encrypt_aes_cbc_def AES_BLOCK_SIZE_def
    by (rule run_mode_returns) (use assms(2) in \<open>simp add: cbc_with_def returns_okE\<close>)
  then show ?thesis using decrypt_aes_cbc_bad_key [OF assms, of "[]"] AesCipher_new_bad [OF assms(1)]
    by (simp add: encrypt_aes_ecb_def decrypt_aes_ecb_def transform_ecb_def)
qed

theorem aes_cbc_empty_plaintext_witness:
  "encrypt_aes_cbc sample_crates [1, 2, 3] (replicate 16 0) [] = Inr []"
  using aes_cbc_empty_plaintext [of "[1, 2, 3]" "replicate 16 0" sample_crates]
  by (simp add: aes_key_ok_def)

text \<open>
  Triple-DES CBC with a 24-byte key and an 8-byte initial vector encrypts every string of
  whole blocks by cipher block chaining, and decryption returns \<open>z\<close> for \<open>x\<close> if and only if \<open>z\<close>
  encrypts to \<open>x\<close>; so every block-aligned ciphertext decrypts.
\<close>

theorem tdes_cbc_exact:
  assumes "tdes_ok crates" "length key = 24" "length iv = 8" "8 dvd length x"
  shows "encrypt_tdes_cbc crates key iv x = Inr (cbc_spec 8 (tdes_encrypt_block crates key) iv x)
       \<and> (decrypt_tdes_cbc crates key iv x = Inr z \<longleftrightarrow> encrypt_tdes_cbc crates key iv z = Inr x \<and> length z = length x)
       \<and> (\<exists>z. decrypt_tdes_cbc crates key iv x = Inr z)"
proof -
  have p: "block_perm 8 (tdes_encrypt_block crates key) (tdes_decrypt_block crates key)"
    using assms(1,2) by (simp add: tdes_ok_def)
  have "0 < (8 :: nat)" by simp
  then obtain w where w: "length w = length x" "cbc_spec 8 (tdes_encrypt_block crates key) iv w = x"
    using cbc_spec_surj [OF _ p assms(3,4)] by blast
  have "encrypt_tdes_cbc crates key iv z = Inr x \<longleftrightarrow> cbc_spec 8 (tdes_encrypt_block crates key) iv z = x"
    if "length z = length x"
    using tdes_cbc_iff(1) [OF assms(1-3), of z] assms(4) that by simp
  then have "decrypt_tdes_cbc crates key iv x = Inr z \<longleftrightarrow> encrypt_tdes_cbc crates key iv z = Inr x \<and> length z = length x"
    using tdes_cbc_iff(2) [OF assms, of z] by blast
  moreover have "decrypt_tdes_cbc crates key iv x = Inr w" using tdes_cbc_iff(2) [OF assms] w by blast
  ultimately show ?thesis using tdes_cbc_iff(1) [OF assms] by blast
qed

theorem tdes_cbc_exact_witness:
  "encrypt_tdes_cbc sample_crates (replicate 24 1) (replicate 8 0) (replicate 8 9)
     = Inr (cbc_spec 8 sample_E (replicate 8 0) (replicate 8 9))"
  using tdes_cbc_exact [OF sample_crates_ok(2), of "replicate 24 1" "replicate 8 0" "replicate 8 9"]
  by (simp add: sample_crates_def)

end
