(* ===== verification/Digest_Kdf.thy ===== *)
theory Digest_Kdf
  imports Contracts
begin

text \<open>
  \<^verbatim>\<open>src/src/digest.rs\<close>: hash algorithms, streaming contexts, HMAC and the derivation
  functions MGF1, X9.63, HKDF and PBKDF2. The primitives of the crates \<open>sha1\<close>, \<open>sha2\<close>, \<open>sha3\<close>,
  \<open>hmac\<close>, \<open>hkdf\<close> and \<open>pbkdf2\<close> are the record \<open>hash_crates\<close>; the properties rely on the output
  size of the hash functions. The loops that concatenate one block per counter value share the
  locale \<open>block_source\<close>.
\<close>

datatype HashAlgorithm =
    Sha1 | Sha224 | Sha256 | Sha384 | Sha512 | Sha3_224 | Sha3_256 | Sha3_384 | Sha3_512

fun output_length :: "HashAlgorithm \<Rightarrow> nat" where
  "output_length Sha1 = 20"
| "output_length Sha224 = 28"
| "output_length Sha3_224 = 28"
| "output_length Sha256 = 32"
| "output_length Sha3_256 = 32"
| "output_length Sha384 = 48"
| "output_length Sha3_384 = 48"
| "output_length Sha512 = 64"
| "output_length Sha3_512 = 64"

datatype DigestConstructionError = Digest_InvalidPseudoRandomKey | Digest_OutputTooLong

text \<open>
  What the code calls of the crates: \<open>'h\<close> is a streaming hash state and \<open>'k\<close> an HKDF instance.
  The one-shot digest, the streaming interface, HMAC (which may refuse a key), HKDF extraction,
  instantiation from a pseudo-random key and expansion to a buffer, and PBKDF2.
\<close>

record ('h, 'k) hash_crates =
  hc_digest :: "HashAlgorithm \<Rightarrow> bytes \<Rightarrow> bytes"
  hc_new :: "HashAlgorithm \<Rightarrow> 'h"
  hc_update :: "HashAlgorithm \<Rightarrow> 'h \<Rightarrow> bytes \<Rightarrow> 'h"
  hc_finalize :: "HashAlgorithm \<Rightarrow> 'h \<Rightarrow> bytes"
  hc_hmac :: "HashAlgorithm \<Rightarrow> bytes \<Rightarrow> bytes \<Rightarrow> bytes option"
  hc_hkdf_extract :: "HashAlgorithm \<Rightarrow> bytes option \<Rightarrow> bytes \<Rightarrow> bytes \<times> 'k"
  hc_hkdf_from_prk :: "HashAlgorithm \<Rightarrow> bytes \<Rightarrow> 'k option"
  hc_hkdf_expand :: "HashAlgorithm \<Rightarrow> 'k \<Rightarrow> bytes \<Rightarrow> nat \<Rightarrow> bytes option"
  hc_pbkdf2 :: "HashAlgorithm \<Rightarrow> bytes \<Rightarrow> bytes \<Rightarrow> u32 \<Rightarrow> nat \<Rightarrow> bytes option"

definition digest :: "('h, 'k) hash_crates \<Rightarrow> HashAlgorithm \<Rightarrow> bytes \<Rightarrow> bytes" where
  "digest crates self message = hc_digest crates self message"

datatype 'h HashContext =
    Ctx_Sha1 'h | Ctx_Sha224 'h | Ctx_Sha256 'h | Ctx_Sha384 'h | Ctx_Sha512 'h
  | Ctx_Sha3_224 'h | Ctx_Sha3_256 'h | Ctx_Sha3_384 'h | Ctx_Sha3_512 'h

fun HashContext_new :: "('h, 'k) hash_crates \<Rightarrow> HashAlgorithm \<Rightarrow> 'h HashContext" where
  "HashContext_new crates Sha1 = Ctx_Sha1 (hc_new crates Sha1)"
| "HashContext_new crates Sha224 = Ctx_Sha224 (hc_new crates Sha224)"
| "HashContext_new crates Sha256 = Ctx_Sha256 (hc_new crates Sha256)"
| "HashContext_new crates Sha384 = Ctx_Sha384 (hc_new crates Sha384)"
| "HashContext_new crates Sha512 = Ctx_Sha512 (hc_new crates Sha512)"
| "HashContext_new crates Sha3_224 = Ctx_Sha3_224 (hc_new crates Sha3_224)"
| "HashContext_new crates Sha3_256 = Ctx_Sha3_256 (hc_new crates Sha3_256)"
| "HashContext_new crates Sha3_384 = Ctx_Sha3_384 (hc_new crates Sha3_384)"
| "HashContext_new crates Sha3_512 = Ctx_Sha3_512 (hc_new crates Sha3_512)"

fun HashContext_update :: "('h, 'k) hash_crates \<Rightarrow> 'h HashContext \<Rightarrow> bytes \<Rightarrow> 'h HashContext" where
  "HashContext_update crates (Ctx_Sha1 state) data = Ctx_Sha1 (hc_update crates Sha1 state data)"
| "HashContext_update crates (Ctx_Sha224 state) data = Ctx_Sha224 (hc_update crates Sha224 state data)"
| "HashContext_update crates (Ctx_Sha256 state) data = Ctx_Sha256 (hc_update crates Sha256 state data)"
| "HashContext_update crates (Ctx_Sha384 state) data = Ctx_Sha384 (hc_update crates Sha384 state data)"
| "HashContext_update crates (Ctx_Sha512 state) data = Ctx_Sha512 (hc_update crates Sha512 state data)"
| "HashContext_update crates (Ctx_Sha3_224 state) data = Ctx_Sha3_224 (hc_update crates Sha3_224 state data)"
| "HashContext_update crates (Ctx_Sha3_256 state) data = Ctx_Sha3_256 (hc_update crates Sha3_256 state data)"
| "HashContext_update crates (Ctx_Sha3_384 state) data = Ctx_Sha3_384 (hc_update crates Sha3_384 state data)"
| "HashContext_update crates (Ctx_Sha3_512 state) data = Ctx_Sha3_512 (hc_update crates Sha3_512 state data)"

fun HashContext_finalize :: "('h, 'k) hash_crates \<Rightarrow> 'h HashContext \<Rightarrow> bytes" where
  "HashContext_finalize crates (Ctx_Sha1 state) = hc_finalize crates Sha1 state"
| "HashContext_finalize crates (Ctx_Sha224 state) = hc_finalize crates Sha224 state"
| "HashContext_finalize crates (Ctx_Sha256 state) = hc_finalize crates Sha256 state"
| "HashContext_finalize crates (Ctx_Sha384 state) = hc_finalize crates Sha384 state"
| "HashContext_finalize crates (Ctx_Sha512 state) = hc_finalize crates Sha512 state"
| "HashContext_finalize crates (Ctx_Sha3_224 state) = hc_finalize crates Sha3_224 state"
| "HashContext_finalize crates (Ctx_Sha3_256 state) = hc_finalize crates Sha3_256 state"
| "HashContext_finalize crates (Ctx_Sha3_384 state) = hc_finalize crates Sha3_384 state"
| "HashContext_finalize crates (Ctx_Sha3_512 state) = hc_finalize crates Sha3_512 state"

definition hmac :: "('h, 'k) hash_crates \<Rightarrow> HashAlgorithm \<Rightarrow> bytes \<Rightarrow> bytes \<Rightarrow> DigestConstructionError + bytes" where
  "hmac crates algorithm key data = ok_orR Digest_InvalidPseudoRandomKey (hc_hmac crates algorithm key data)"

definition mgf1 :: "('h, 'k) hash_crates \<Rightarrow> HashAlgorithm \<Rightarrow> bytes \<Rightarrow> nat \<Rightarrow> DigestConstructionError + bytes" where
  "mgf1 crates algorithm seed out_len =
     (let blocks = div_ceil out_len (output_length algorithm) in
      bindR (rejectR (case checked_sub blocks 1 of None \<Rightarrow> False | Some last_counter \<Rightarrow> last_counter \<ge> 2 ^ 32)
               Digest_OutputTooLong) (\<lambda>_.
      let output = fold (\<lambda>counter output.
             let input = seed @ u32_be (word_of_nat counter)
             in output @ digest crates algorithm input) [0..<blocks] []
      in Inr (take out_len output)))"

definition x963_kdf ::
  "('h, 'k) hash_crates \<Rightarrow> HashAlgorithm \<Rightarrow> bytes \<Rightarrow> bytes \<Rightarrow> nat \<Rightarrow> DigestConstructionError + bytes" where
  "x963_kdf crates algorithm secret shared_data out_len =
     (let blocks = div_ceil out_len (output_length algorithm) in
      bindR (rejectR (out_len = 0 \<or> blocks > 2 ^ 32 - 1) Digest_OutputTooLong) (\<lambda>_.
      bindR (ok_orR Digest_OutputTooLong
               (Option.bind (checked_add (length secret) 4) (\<lambda>n. checked_add n (length shared_data)))) (\<lambda>_.
      Inr (fold (\<lambda>counter output.
             let input = secret @ u32_be (word_of_nat counter) @ shared_data;
                 block = digest crates algorithm input;
                 remaining = out_len - length output
             in output @ take (min remaining (length block)) block) [1..<blocks + 1] []))))"

definition hkdf ::
  "('h, 'k) hash_crates \<Rightarrow> HashAlgorithm \<Rightarrow> bool \<Rightarrow> bool \<Rightarrow> bytes \<Rightarrow> bytes option \<Rightarrow> bytes \<Rightarrow> nat
     \<Rightarrow> DigestConstructionError + bytes" where
  "hkdf crates algorithm extract expand input_key_material salt info out_len =
     (if extract then
        let (prk, k) = hc_hkdf_extract crates algorithm salt input_key_material in
        if expand then ok_orR Digest_OutputTooLong (hc_hkdf_expand crates algorithm k info out_len)
        else Inr prk
      else
        bindR (ok_orR Digest_InvalidPseudoRandomKey (hc_hkdf_from_prk crates algorithm input_key_material)) (\<lambda>k.
        ok_orR Digest_OutputTooLong (hc_hkdf_expand crates algorithm k info out_len)))"

definition pbkdf2_hmac ::
  "('h, 'k) hash_crates \<Rightarrow> HashAlgorithm \<Rightarrow> bytes \<Rightarrow> bytes \<Rightarrow> u32 \<Rightarrow> nat \<Rightarrow> DigestConstructionError + bytes" where
  "pbkdf2_hmac crates algorithm password salt rounds out_len =
     ok_orR Digest_InvalidPseudoRandomKey (hc_pbkdf2 crates algorithm password salt rounds out_len)"


section \<open>Output made of numbered blocks\<close>

text \<open>
  \<open>expand_blocks\<close> is the reference the loops are compared with: the blocks with the numbers
  \<open>first, first + 1, ..\<close>, as many as needed, cut to the requested length.
\<close>

definition expand_blocks :: "(nat \<Rightarrow> bytes) \<Rightarrow> nat \<Rightarrow> nat \<Rightarrow> nat \<Rightarrow> bytes" where
  "expand_blocks block n first out_len =
     take out_len (concat (map block [first..<first + div_ceil out_len n]))"

lemma concat_map_prefix:
  "a \<le> b \<Longrightarrow> b \<le> c \<Longrightarrow> \<exists>rest. concat (map f [a..<c]) = concat (map f [a..<b]) @ rest"
  by (metis concat_append le_Suc_ex map_append upt_add_eq_append)

lemma length_concat_map_const:
  "(\<And>i. length (f i) = n) \<Longrightarrow> length (concat (map f [a..<a + k])) = k * n"
  by (induction k) simp_all

locale block_source =
  fixes valid :: "'c \<Rightarrow> bool" and block :: "'c \<Rightarrow> nat \<Rightarrow> bytes" and size :: "'c \<Rightarrow> nat"
  assumes block_size: "valid c \<Longrightarrow> length (block c i) = size c"
    and size_pos: "valid c \<Longrightarrow> 0 < size c"
begin

lemma length_expand:
  assumes "valid c"
  shows "length (expand_blocks (block c) (size c) a l) = l"
  using div_ceil_bounds(1) [OF size_pos [OF assms], of l] block_size [OF assms]
  by (simp add: expand_blocks_def length_concat_map_const)

lemma expand_enough:
  assumes "valid c" "div_ceil l (size c) \<le> k"
  shows "expand_blocks (block c) (size c) a l = take l (concat (map (block c) [a..<a + k]))"
proof -
  obtain rest where "concat (map (block c) [a..<a + k])
      = concat (map (block c) [a..<a + div_ceil l (size c)]) @ rest"
    using concat_map_prefix [of a "a + div_ceil l (size c)" "a + k" "block c"] assms(2) by auto
  moreover have "l \<le> length (concat (map (block c) [a..<a + div_ceil l (size c)]))"
    using div_ceil_bounds(1) [OF size_pos [OF assms(1)], of l] block_size [OF assms(1)]
    by (simp add: length_concat_map_const)
  ultimately show ?thesis by (simp add: expand_blocks_def)
qed

text \<open>A shorter output is a prefix of a longer one.\<close>

lemma expand_prefix:
  assumes "valid c" "l \<le> l'"
  shows "take l (expand_blocks (block c) (size c) a l') = expand_blocks (block c) (size c) a l"
proof -
  have "div_ceil l (size c) \<le> div_ceil l' (size c)"
    using size_pos [OF assms(1)] assms(2) by (rule div_ceil_mono)
  then show ?thesis
    using expand_enough [OF assms(1), of l "div_ceil l' (size c)" a] assms(2)
    by (simp add: expand_blocks_def min_def)
qed

text \<open>A loop that appends at most the missing bytes of each block.\<close>

lemma appending_loop:
  assumes "valid c"
  shows "fold (\<lambda>i out. out @ take (min (l - length out) (length (block c i))) (block c i)) [a..<a + k] []
       = take l (concat (map (block c) [a..<a + k]))"
  by (induction k) (auto simp: min_def)

end


lemma fold_append_blocks: "fold (\<lambda>i out. out @ f i) xs acc = acc @ concat (map f xs)"
  by (induction xs arbitrary: acc) simp_all

text \<open>What the hash crates promise: the digest size of each algorithm.\<close>

definition hash_ok :: "('h, 'k) hash_crates \<Rightarrow> bool" where
  "hash_ok crates \<longleftrightarrow> (\<forall>alg x. length (hc_digest crates alg x) = output_length alg)"

lemma output_length_bounds: "20 \<le> output_length alg" "output_length alg \<le> 64" "0 < output_length alg"
  by (cases alg; simp)+

definition mgf1_block :: "('h, 'k) hash_crates \<Rightarrow> HashAlgorithm \<Rightarrow> bytes \<Rightarrow> nat \<Rightarrow> bytes" where
  "mgf1_block crates alg seed i = digest crates alg (seed @ u32_be (word_of_nat i))"

definition x963_block :: "('h, 'k) hash_crates \<Rightarrow> HashAlgorithm \<Rightarrow> bytes \<Rightarrow> bytes \<Rightarrow> nat \<Rightarrow> bytes" where
  "x963_block crates alg secret info i = digest crates alg (secret @ u32_be (word_of_nat i) @ info)"

interpretation mgf1: block_source
  "\<lambda>(crates, alg, seed). hash_ok crates"
  "\<lambda>(crates, alg, seed). mgf1_block crates alg seed"
  "\<lambda>(crates, alg, seed). output_length alg"
  by unfold_locales (auto simp: hash_ok_def mgf1_block_def digest_def output_length_bounds)

interpretation x963: block_source
  "\<lambda>(crates, alg, secret, info). hash_ok crates"
  "\<lambda>(crates, alg, secret, info). x963_block crates alg secret info"
  "\<lambda>(crates, alg, secret, info). output_length alg"
  by unfold_locales (auto simp: hash_ok_def x963_block_def digest_def output_length_bounds)

lemma mgf1_eq:
  "mgf1 crates alg seed l =
     (if div_ceil l (output_length alg) \<le> 2 ^ 32
      then Inr (expand_blocks (mgf1_block crates alg seed) (output_length alg) 0 l) else Inl Digest_OutputTooLong)"
proof -
  have "(case checked_sub b 1 of None \<Rightarrow> False | Some c \<Rightarrow> c \<ge> 2 ^ 32) \<longleftrightarrow> \<not> b \<le> 2 ^ 32" for b :: nat
    by (cases b) (auto simp: checked_sub_def)
  then show ?thesis
    by (simp add: mgf1_def Let_def fold_append_blocks expand_blocks_def mgf1_block_def [abs_def] rejectR_def)
qed

lemma x963_eq:
  assumes "hash_ok crates"
  shows "x963_kdf crates alg secret info l =
     (if 0 < l \<and> div_ceil l (output_length alg) \<le> 2 ^ 32 - 1 \<and> length secret + 4 + length info < usize_bound
      then Inr (expand_blocks (x963_block crates alg secret info) (output_length alg) 1 l) else Inl Digest_OutputTooLong)"
proof -
  let ?k = "div_ceil l (output_length alg)" and ?b = "x963_block crates alg secret info"
  have loop: "fold (\<lambda>counter output.
             let input = secret @ u32_be (word_of_nat counter) @ info;
                 block = digest crates alg input;
                 remaining = l - length output
             in output @ take (min remaining (length block)) block) [1..<?k + 1] []
      = expand_blocks ?b (output_length alg) 1 l"
    using x963.appending_loop [of "(crates, alg, secret, info)" l 1 ?k] assms
    by (simp add: Let_def x963_block_def expand_blocks_def add.commute)
  have add: "Option.bind (checked_add (length secret) 4) (\<lambda>n. checked_add n (length info))
      = (if length secret + 4 + length info < usize_bound then Some (length secret + 4 + length info) else None)"
    by (auto simp: checked_add_def)
  show ?thesis
    unfolding x963_kdf_def Let_def [of ?k] loop add by (auto simp: rejectR_def)
qed



section \<open>Properties\<close>

text \<open>
  \<open>x963_kdf\<close> returns for every input: \<open>OutputTooLong\<close> exactly when nothing is requested, when
  more than \<open>2 ^ 32 - 1\<close> blocks are needed or when the hash input does not fit; otherwise exactly
  the requested number of bytes, which are the hashes of the secret, the 32-bit counter
  \<open>1, 2, ..\<close> and the shared data in order; and a shorter output is a prefix of a longer one.
\<close>

theorem x963_kdf_total:
  assumes "hash_ok crates"
  shows "x963_kdf crates alg secret info l =
           (if 0 < l \<and> l \<le> (2 ^ 32 - 1) * output_length alg \<and> length secret + 4 + length info < usize_bound
            then Inr (expand_blocks (x963_block crates alg secret info) (output_length alg) 1 l) else Inl Digest_OutputTooLong)
       \<and> length (expand_blocks (x963_block crates alg secret info) (output_length alg) 1 l) = l
       \<and> (l' \<le> l \<longrightarrow> take l' (expand_blocks (x963_block crates alg secret info) (output_length alg) 1 l)
                      = expand_blocks (x963_block crates alg secret info) (output_length alg) 1 l')"
  using x963.length_expand [of "(crates, alg, secret, info)" 1 l]
    x963.expand_prefix [of "(crates, alg, secret, info)" l' l 1] assms
  by (simp add: x963_eq div_ceil_le_iff [OF output_length_bounds(3)])

definition sample_hashes :: "(bytes, bytes) hash_crates" where
  "sample_hashes = \<lparr>hc_digest = \<lambda>alg x. resize (output_length alg) 0 (rev x),
     hc_new = \<lambda>alg. [], hc_update = \<lambda>alg h x. h @ x, hc_finalize = \<lambda>alg h. resize (output_length alg) 0 (rev h),
     hc_hmac = \<lambda>alg k x. Some (resize (output_length alg) 0 (k @ x)),
     hc_hkdf_extract = \<lambda>alg salt x. (resize (output_length alg) 0 x, resize (output_length alg) 0 x),
     hc_hkdf_from_prk = \<lambda>alg x. if length x < output_length alg then None else Some x,
     hc_hkdf_expand = \<lambda>alg k info l. if l \<le> 255 * output_length alg then Some (resize l 1 (k @ info)) else None,
     hc_pbkdf2 = \<lambda>alg pw salt r l. Some (resize l 2 (pw @ salt))\<rparr>"

lemma hash_ok_sample: "hash_ok sample_hashes"
  by (simp add: hash_ok_def sample_hashes_def)

theorem x963_kdf_total_witness:
  "\<exists>out. x963_kdf sample_hashes Sha256 [1, 2] [3] 40 = Inr out \<and> length out = 40"
  using x963_kdf_total [OF hash_ok_sample, of Sha256 "[1, 2]" "[3]" 40 40] by (simp add: usize_bound_def)

text \<open>
  \<open>mgf1\<close> returns \<open>OutputTooLong\<close> exactly when more than \<open>2 ^ 32\<close> counter values would be
  needed, so the 32-bit counter never repeats; otherwise exactly the requested number of bytes,
  the hashes of the seed and the counter \<open>0, 1, ..\<close> in order, and shorter masks are prefixes of
  longer ones.
\<close>

theorem mgf1_total:
  assumes "hash_ok crates"
  shows "mgf1 crates alg seed l =
           (if l \<le> 2 ^ 32 * output_length alg
            then Inr (expand_blocks (mgf1_block crates alg seed) (output_length alg) 0 l) else Inl Digest_OutputTooLong)
       \<and> length (expand_blocks (mgf1_block crates alg seed) (output_length alg) 0 l) = l
       \<and> (l' \<le> l \<longrightarrow> take l' (expand_blocks (mgf1_block crates alg seed) (output_length alg) 0 l)
                      = expand_blocks (mgf1_block crates alg seed) (output_length alg) 0 l')"
  using mgf1.length_expand [of "(crates, alg, seed)" 0 l] mgf1.expand_prefix [of "(crates, alg, seed)" l' l 0] assms
  by (simp add: mgf1_eq div_ceil_le_iff [OF output_length_bounds(3)])

theorem mgf1_total_witness:
  "\<exists>out. mgf1 sample_hashes Sha1 [1, 2] 30 = Inr out \<and> length out = 30"
  using mgf1_total [OF hash_ok_sample, of Sha1 "[1, 2]" 30 30] by simp

text \<open>
  HKDF in two calls is HKDF in one: extracting a key and then expanding it with the
  \<open>expand\<close>-only form gives the same result, errors included, as extracting and expanding at once;
  for a crate whose extraction returns a pseudo-random key that it accepts back for the same
  instance.
\<close>

theorem hkdf_composition:
  assumes "\<And>salt ikm. hc_hkdf_from_prk crates alg (fst (hc_hkdf_extract crates alg salt ikm))
             = Some (snd (hc_hkdf_extract crates alg salt ikm))"
  shows "bindR (hkdf crates alg True False ikm salt info l') (\<lambda>prk. hkdf crates alg False True prk salt' info l)
       = hkdf crates alg True True ikm salt info l"
  using assms [of salt ikm] by (simp add: hkdf_def split_beta)

theorem hkdf_composition_witness:
  "bindR (hkdf sample_hashes Sha256 True False [1] None [] 0) (\<lambda>prk. hkdf sample_hashes Sha256 False True prk None [9] 42)
     = hkdf sample_hashes Sha256 True True [1] None [9] 42"
proof -
  have "hkdf sample_hashes Sha256 True False [1] None [] 0 = hkdf sample_hashes Sha256 True False [1] None [9] 0"
    by (simp add: hkdf_def split_beta)
  then show ?thesis
    using hkdf_composition [of sample_hashes Sha256 "[1]" None "[9]" 0 None 42] by (simp add: sample_hashes_def)
qed

end
