(* ===== verification/Counter_Kdf.thy ===== *)
theory Counter_Kdf
  imports Soft_Symmetric Digest_Kdf
begin

text \<open>
  \<^verbatim>\<open>src/src/counter_kdf.rs\<close>: the SP 800-108 counter KDF over a caller-supplied CMAC, with
  input fields in the caller's order, and the same KDF with a software AES key.
\<close>

datatype CounterKdfError = Kdf_InvalidKeyLength | Kdf_InvalidParameters | Kdf_OutputTooLong

datatype 'e CounterKdfOperationError = Op_Kdf CounterKdfError | Op_Cmac 'e

record IntegerFormat =
  width_bits :: byte
  little_endian :: bool

definition IntegerFormat_valid :: "IntegerFormat \<Rightarrow> byte \<Rightarrow> bool" where
  "IntegerFormat_valid self max_bits \<longleftrightarrow>
     width_bits self \<noteq> 0 \<and> width_bits self \<le> max_bits \<and> unat (width_bits self) mod 8 = 0"

definition IntegerFormat_fits :: "IntegerFormat \<Rightarrow> u64 \<Rightarrow> bool" where
  "IntegerFormat_fits self value \<longleftrightarrow>
     width_bits self = 64 \<or> value < push_bit (unat (width_bits self)) 1"

definition IntegerFormat_append :: "IntegerFormat \<Rightarrow> u64 \<Rightarrow> bytes \<Rightarrow> bytes" where
  "IntegerFormat_append self value input =
     (let width = unat (width_bits self div 8)
      in if little_endian self then input @ take width (rev (u64_be value))
         else input @ drop (8 - width) (u64_be value))"

datatype LengthMethod = Length_Key | Length_Segments

datatype CounterKdfField =
    Field_Bytes bytes
  | Field_Counter IntegerFormat
  | Field_Length IntegerFormat LengthMethod

text \<open>The validation loop, on the triple of \<open>counter\<close>, \<open>length\<close> and \<open>input_length\<close>.\<close>

definition kdf_validate_field ::
  "nat \<Rightarrow> u64 \<Rightarrow> u64 \<Rightarrow> CounterKdfField \<Rightarrow> IntegerFormat option \<times> u64 option \<times> nat
     \<Rightarrow> CounterKdfError + IntegerFormat option \<times> u64 option \<times> nat" where
  "kdf_validate_field blocks key_bits segment_bits field st =
     (case st of (counter, len, input_length) \<Rightarrow>
      bindR (case field of
               Field_Bytes bytes \<Rightarrow> Inr (counter, len, length bytes)
             | Field_Counter format \<Rightarrow>
                 bindR (rejectR (\<not> IntegerFormat_valid format 32 \<or> counter \<noteq> None) Kdf_InvalidParameters) (\<lambda>_.
                 bindR (rejectR (\<not> IntegerFormat_fits format (word_of_nat blocks)) Kdf_OutputTooLong) (\<lambda>_.
                 Inr (Some format, len, unat (width_bits format div 8))))
             | Field_Length format method \<Rightarrow>
                 bindR (rejectR (\<not> IntegerFormat_valid format 64 \<or> len \<noteq> None) Kdf_InvalidParameters) (\<lambda>_.
                 let bits = (case method of Length_Key \<Rightarrow> key_bits | Length_Segments \<Rightarrow> segment_bits) in
                 bindR (rejectR (\<not> IntegerFormat_fits format bits) Kdf_OutputTooLong) (\<lambda>_.
                 Inr (counter, Some bits, unat (width_bits format div 8)))))
        (\<lambda>(counter, len, size).
           bindR (ok_orR Kdf_InvalidParameters (checked_add input_length size)) (\<lambda>input_length.
           Inr (counter, len, input_length))))"

fun kdf_validate ::
  "nat \<Rightarrow> u64 \<Rightarrow> u64 \<Rightarrow> CounterKdfField list \<Rightarrow> IntegerFormat option \<times> u64 option \<times> nat
     \<Rightarrow> CounterKdfError + IntegerFormat option \<times> u64 option \<times> nat" where
  "kdf_validate blocks key_bits segment_bits [] st = Inr st"
| "kdf_validate blocks key_bits segment_bits (field # kdf_fields) st =
     bindR (kdf_validate_field blocks key_bits segment_bits field st)
       (kdf_validate blocks key_bits segment_bits kdf_fields)"

text \<open>The CMAC input of one iteration, appended field by field.\<close>

fun kdf_input :: "u64 option \<Rightarrow> nat \<Rightarrow> CounterKdfField list \<Rightarrow> bytes \<Rightarrow> CounterKdfError + bytes" where
  "kdf_input len iteration [] input = Inr input"
| "kdf_input len iteration (Field_Bytes bytes # kdf_fields) input = kdf_input len iteration kdf_fields (input @ bytes)"
| "kdf_input len iteration (Field_Counter format # kdf_fields) input =
     kdf_input len iteration kdf_fields (IntegerFormat_append format (word_of_nat iteration) input)"
| "kdf_input len iteration (Field_Length format method # kdf_fields) input =
     bindR (ok_orR Kdf_InvalidParameters len) (\<lambda>bits.
     kdf_input len iteration kdf_fields (IntegerFormat_append format bits input))"

definition cmac_counter_kdf_with ::
  "CounterKdfField list \<Rightarrow> nat \<Rightarrow> (bytes \<Rightarrow> ('s, 'e, bytes) op) \<Rightarrow> ('s, 'e CounterKdfOperationError, bytes) op" where
  "cmac_counter_kdf_with kdf_fields out_len cmac =
     bindE (rejectE (out_len = 0) (Op_Kdf Kdf_InvalidParameters)) (\<lambda>_.
     let blocks = div_ceil out_len 16 in
     bindE (ok_orE (Op_Kdf Kdf_OutputTooLong) (checked_mul out_len 8)) (\<lambda>key_bits.
     bindE (ok_orE (Op_Kdf Kdf_OutputTooLong) (checked_mul blocks 128)) (\<lambda>segment_bits.
     bindE (liftE (map_errR Op_Kdf
              (kdf_validate blocks (word_of_nat key_bits) (word_of_nat segment_bits) kdf_fields (None, None, 0))))
       (\<lambda>(counter, len, input_length).
     bindE (rejectE (counter = None \<or> input_length > 2 ^ 63 - 1) (Op_Kdf Kdf_InvalidParameters)) (\<lambda>_.
     for_each [1..<blocks + 1] (\<lambda>iteration result.
       bindE (liftE (map_errR Op_Kdf (kdf_input len iteration kdf_fields []))) (\<lambda>input.
       bindE (map_errE Op_Cmac (cmac input)) (\<lambda>block.
       let remaining = min (out_len - length result) 16
       in okE (result @ take remaining block)))) [])))))"

definition cmac_counter_kdf ::
  "cipher_crates \<Rightarrow> bytes \<Rightarrow> CounterKdfField list \<Rightarrow> nat \<Rightarrow> CounterKdfError + bytes" where
  "cmac_counter_kdf crates key kdf_fields out_len =
     bindR (rejectR (length key \<notin> {16, 24, 32}) Kdf_InvalidKeyLength) (\<lambda>_.
     map_errR (\<lambda>error. case error of Op_Kdf error \<Rightarrow> error | Op_Cmac _ \<Rightarrow> Kdf_InvalidKeyLength)
       (fst (cmac_counter_kdf_with kdf_fields out_len (\<lambda>input. liftE (aes_cmac crates key input)) ())))"


section \<open>Reference\<close>

text \<open>Which fields are accepted, and the input of an iteration, without the loop state.\<close>

fun counter_fields :: "CounterKdfField list \<Rightarrow> IntegerFormat list" where
  "counter_fields [] = []"
| "counter_fields (Field_Counter f # fs) = f # counter_fields fs"
| "counter_fields (_ # fs) = counter_fields fs"

fun length_fields :: "CounterKdfField list \<Rightarrow> (IntegerFormat \<times> LengthMethod) list" where
  "length_fields [] = []"
| "length_fields (Field_Length f m # fs) = (f, m) # length_fields fs"
| "length_fields (_ # fs) = length_fields fs"

fun field_size :: "CounterKdfField \<Rightarrow> nat" where
  "field_size (Field_Bytes bs) = length bs"
| "field_size (Field_Counter f) = unat (width_bits f div 8)"
| "field_size (Field_Length f m) = unat (width_bits f div 8)"

definition length_bits :: "nat \<Rightarrow> LengthMethod \<Rightarrow> u64" where
  "length_bits l m = (case m of Length_Key \<Rightarrow> word_of_nat (l * 8) | Length_Segments \<Rightarrow> word_of_nat (div_ceil l 16 * 128))"

definition kdf_ok :: "CounterKdfField list \<Rightarrow> nat \<Rightarrow> bool" where
  "kdf_ok kdf_fields l \<longleftrightarrow>
     0 < l \<and> l * 8 < usize_bound \<and> div_ceil l 16 * 128 < usize_bound
     \<and> length (counter_fields kdf_fields) = 1 \<and> length (length_fields kdf_fields) \<le> 1
     \<and> (\<forall>f \<in> set (counter_fields kdf_fields). IntegerFormat_valid f 32 \<and> IntegerFormat_fits f (word_of_nat (div_ceil l 16)))
     \<and> (\<forall>(f, m) \<in> set (length_fields kdf_fields). IntegerFormat_valid f 64 \<and> IntegerFormat_fits f (length_bits l m))
     \<and> sum_list (map field_size kdf_fields) < 2 ^ 63"

fun field_bytes :: "nat \<Rightarrow> nat \<Rightarrow> CounterKdfField \<Rightarrow> bytes" where
  "field_bytes l i (Field_Bytes bs) = bs"
| "field_bytes l i (Field_Counter f) = IntegerFormat_append f (word_of_nat i) []"
| "field_bytes l i (Field_Length f m) = IntegerFormat_append f (length_bits l m) []"

definition kdf_block_input :: "CounterKdfField list \<Rightarrow> nat \<Rightarrow> nat \<Rightarrow> bytes" where
  "kdf_block_input kdf_fields l i = concat (map (field_bytes l i) kdf_fields)"


section \<open>The validation loop\<close>

definition method_bits :: "u64 \<Rightarrow> u64 \<Rightarrow> LengthMethod \<Rightarrow> u64" where
  "method_bits kb sb m = (case m of Length_Key \<Rightarrow> kb | Length_Segments \<Rightarrow> sb)"

lemma kdf_validate_field_iff:
  "kdf_validate_field b kb sb fld (c, n, a) = Inr st \<longleftrightarrow>
     a + field_size fld < usize_bound \<and>
     (case fld of
        Field_Bytes bs \<Rightarrow> st = (c, n, a + field_size fld)
      | Field_Counter f \<Rightarrow> IntegerFormat_valid f 32 \<and> c = None \<and> IntegerFormat_fits f (word_of_nat b)
                           \<and> st = (Some f, n, a + field_size fld)
      | Field_Length f m \<Rightarrow> IntegerFormat_valid f 64 \<and> n = None \<and> IntegerFormat_fits f (method_bits kb sb m)
                           \<and> st = (c, Some (method_bits kb sb m), a + field_size fld))"
  by (cases fld) (auto simp: kdf_validate_field_def result_iffs checked_add_def method_bits_def Let_def)

lemma kdf_validate_iff:
  assumes "a < usize_bound"
  shows "kdf_validate b kb sb fs (c, n, a) = Inr (c', n', a') \<longleftrightarrow>
     (\<forall>f \<in> set (counter_fields fs). IntegerFormat_valid f 32 \<and> IntegerFormat_fits f (word_of_nat b))
   \<and> (\<forall>(f, m) \<in> set (length_fields fs). IntegerFormat_valid f 64 \<and> IntegerFormat_fits f (method_bits kb sb m))
   \<and> length (counter_fields fs) + (if c = None then 0 else 1) \<le> 1
   \<and> length (length_fields fs) + (if n = None then 0 else 1) \<le> 1
   \<and> c' = (case counter_fields fs of [] \<Rightarrow> c | f # _ \<Rightarrow> Some f)
   \<and> n' = (case length_fields fs of [] \<Rightarrow> n | (f, m) # _ \<Rightarrow> Some (method_bits kb sb m))
   \<and> a' = a + sum_list (map field_size fs) \<and> a' < usize_bound"
  using assms
proof (induction fs arbitrary: c n a)
  case Nil
  then show ?case by auto
next
  case (Cons fld fs)
  show ?case
  proof (cases fld)
    case (Field_Bytes bs)
    then show ?thesis using Cons.IH [of "a + length bs" c n]
      by (auto simp: bindR_Inr_iff kdf_validate_field_iff ac_simps)
  next
    case (Field_Counter f)
    then show ?thesis using Cons.IH [of "a + unat (width_bits f div 8)" "Some f" n]
      by (auto simp: bindR_Inr_iff kdf_validate_field_iff ac_simps split: if_splits)
  next
    case (Field_Length f m)
    then show ?thesis using Cons.IH [of "a + unat (width_bits f div 8)" c "Some (method_bits kb sb m)"]
      by (auto simp: bindR_Inr_iff kdf_validate_field_iff ac_simps split: if_splits)
  qed
qed



section \<open>Behaviour\<close>

lemma append_empty: "IntegerFormat_append f v acc = acc @ IntegerFormat_append f v []"
  by (simp add: IntegerFormat_append_def Let_def)

lemma kdf_input_eq:
  "(\<forall>(f, m) \<in> set (length_fields fs). n = Some (length_bits l m)) \<Longrightarrow>
   kdf_input n i fs acc = Inr (acc @ concat (map (field_bytes l i) fs))"
proof (induction fs arbitrary: acc)
  case (Cons fld fs)
  then show ?case by (cases fld) (simp_all add: append_empty [of _ _ acc])
qed simp

lemma length_bits_method:
  "length_bits l = method_bits (word_of_nat (l * 8)) (word_of_nat (div_ceil l 16 * 128))"
  by (auto simp: length_bits_def method_bits_def split: LengthMethod.splits)

text \<open>Accepted parameters: only the loop is left, over the reference inputs.\<close>

lemma kdf_accepts:
  assumes "kdf_ok kdf_fields l"
  shows "cmac_counter_kdf_with kdf_fields l cmac =
    for_each [1..<div_ceil l 16 + 1] (\<lambda>i result.
      bindE (map_errE Op_Cmac (cmac (kdf_block_input kdf_fields l i))) (\<lambda>block.
      okE (result @ take (min (l - length result) 16) block))) []"
proof -
  let ?kb = "word_of_nat (l * 8) :: u64" and ?sb = "word_of_nat (div_ceil l 16 * 128) :: u64"
  let ?n = "case length_fields kdf_fields of [] \<Rightarrow> None | (f, m) # _ \<Rightarrow> Some (method_bits ?kb ?sb m)"
  let ?c = "case counter_fields kdf_fields of [] \<Rightarrow> None | f # _ \<Rightarrow> Some f"
  let ?a = "sum_list (map field_size kdf_fields)"
  have v: "kdf_validate (div_ceil l 16) ?kb ?sb kdf_fields (None, None, 0) = Inr (?c, ?n, ?a)"
    using assms by (subst kdf_validate_iff) (auto simp: kdf_ok_def length_bits_method usize_bound_def)
  have c: "?c \<noteq> None" using assms by (cases "counter_fields kdf_fields") (auto simp: kdf_ok_def)
  have "\<forall>(f, m) \<in> set (length_fields kdf_fields). ?n = Some (length_bits l m)"
    using assms by (cases "length_fields kdf_fields") (auto simp: kdf_ok_def length_bits_method)
  then have i: "kdf_input ?n i kdf_fields [] = Inr (kdf_block_input kdf_fields l i)" for i
    by (simp add: kdf_input_eq kdf_block_input_def)
  have guards: "checked_mul l 8 = Some (l * 8)" "checked_mul (div_ceil l 16) 128 = Some (div_ceil l 16 * 128)"
    "\<not> ?a > 2 ^ 63 - 1" "l \<noteq> 0"
    using assms by (auto simp: kdf_ok_def checked_mul_def)
  show ?thesis
    unfolding cmac_counter_kdf_with_def Let_def
    by (simp only: guards ok_orE_simps bindE_okE v map_errR_simps liftE_simps prod.case c i simp_thms rejectE_simps)
qed

text \<open>Rejected parameters: an error at once, whatever the callback.\<close>

lemma kdf_rejects:
  assumes "\<not> kdf_ok kdf_fields l"
  shows "\<exists>e. cmac_counter_kdf_with kdf_fields l cmac = errE (Op_Kdf e)"
proof (cases "l = 0 \<or> \<not> l * 8 < usize_bound \<or> \<not> div_ceil l 16 * 128 < usize_bound")
  case True
  then show ?thesis by (cases "l = 0") (auto simp: cmac_counter_kdf_with_def checked_mul_def Let_def)
next
  case False
  let ?kb = "word_of_nat (l * 8) :: u64" and ?sb = "word_of_nat (div_ceil l 16 * 128) :: u64"
  show ?thesis
  proof (cases "kdf_validate (div_ceil l 16) ?kb ?sb kdf_fields (None, None, 0)")
    case (Inl e)
    then show ?thesis using False by (auto simp: cmac_counter_kdf_with_def checked_mul_def Let_def)
  next
    case (Inr st)
    obtain c n a where st: "st = (c, n, a)" by (cases st)
    note iff = kdf_validate_iff [THEN iffD1, OF _ Inr [unfolded st]]
    have "c = None \<or> a > 2 ^ 63 - 1"
    proof (rule ccontr)
      assume "\<not> (c = None \<or> a > 2 ^ 63 - 1)"
      then have "kdf_ok kdf_fields l"
        using False iff unfolding kdf_ok_def length_bits_method
        by (cases "counter_fields kdf_fields") (auto simp: usize_bound_def)
      then show False using assms by simp
    qed
    moreover have "checked_mul l 8 = Some (l * 8)" "checked_mul (div_ceil l 16) 128 = Some (div_ceil l 16 * 128)"
      using False by (simp_all add: checked_mul_def)
    ultimately have "cmac_counter_kdf_with kdf_fields l cmac = errE (Op_Kdf Kdf_InvalidParameters)"
      unfolding cmac_counter_kdf_with_def Let_def using False
      by (simp only: ok_orE_simps bindE_okE bindE_errE Inr st map_errR_simps liftE_simps prod.case simp_thms rejectE_simps)
         simp
    then show ?thesis by blast
  qed
qed

interpretation counter_kdf: block_source
  "\<lambda>(M, kdf_fields, l). \<forall>x. length (M x :: bytes) = 16"
  "\<lambda>(M, kdf_fields, l) i. M (kdf_block_input kdf_fields l i)"
  "\<lambda>_. 16"
  by unfold_locales auto

lemma kdf_returns:
  assumes "kdf_ok kdf_fields l" "\<And>x. returns (cmac x) (M x)" "\<And>x. length (M x) = 16"
  shows "returns (cmac_counter_kdf_with kdf_fields l cmac)
           (expand_blocks (\<lambda>i. M (kdf_block_input kdf_fields l i)) 16 1 l)"
proof -
  let ?m = "\<lambda>i. M (kdf_block_input kdf_fields l i)"
  let ?step = "\<lambda>i out. out @ take (min (l - length out) 16) (?m i)"
  have "returns (cmac_counter_kdf_with kdf_fields l cmac) (fold ?step [1..<div_ceil l 16 + 1] [])
      \<and> True"
    unfolding kdf_accepts [OF assms(1)]
    by (rule returns_for_each) (auto intro!: returns_bindE [OF returns_map_errE [OF assms(2)]] simp: returns_okE)
  then show ?thesis
    using counter_kdf.appending_loop [of "(M, kdf_fields, l)" l 1 "div_ceil l 16"] assms(3)
    by (simp add: expand_blocks_def add.commute)
qed


section \<open>No CMAC input is used twice\<close>

lemma append_form:
  assumes "IntegerFormat_valid f 64"
  shows "IntegerFormat_append f v [] =
    (let b = be_bytes (unat (width_bits f) div 8) (unat v) in if little_endian f then rev b else b)"
proof -
  let ?w = "unat (width_bits f div 8)"
  have "unat (width_bits f) \<le> 64" using assms unfolding IntegerFormat_valid_def by (simp add: word_le_nat_alt)
  moreover have w: "?w = unat (width_bits f) div 8" by (simp add: unat_div_distrib)
  ultimately have w8: "?w \<le> 8" by simp
  then have "drop (8 - ?w) (u64_be v) = be_bytes ?w (unat v)"
    using drop_be_bytes [of "8 - ?w" ?w "unat v"] by (simp add: u64_be_def)
  moreover have "take ?w (rev (u64_be v)) = rev (drop (8 - ?w) (u64_be v))"
    using w8 by (simp add: rev_drop)
  ultimately show ?thesis by (simp add: IntegerFormat_append_def Let_def w)
qed

lemma valid_32_64: "IntegerFormat_valid f 32 \<Longrightarrow> IntegerFormat_valid f 64"
  unfolding IntegerFormat_valid_def by (auto simp: word_le_nat_alt)

lemma counter_append_inj:
  assumes "IntegerFormat_valid f 32" "IntegerFormat_fits f (word_of_nat b)" "b < 2 ^ 64" "i \<le> b" "j \<le> b"
    and eq: "IntegerFormat_append f (word_of_nat i) [] = IntegerFormat_append f (word_of_nat j) []"
  shows "i = j"
proof -
  let ?w = "unat (width_bits f)"
  have w: "?w \<le> 32" "8 dvd ?w"
    using assms(1) unfolding IntegerFormat_valid_def by (simp_all add: word_le_nat_alt mod_eq_0_iff_dvd)
  have u: "unat (word_of_nat v :: u64) = v" if "v \<le> b" for v using that assms(3) by (simp add: unat_of_nat)
  have "width_bits f \<noteq> 64" using w by auto
  then have "(word_of_nat b :: u64) < push_bit ?w 1" using assms(2) by (simp add: IntegerFormat_fits_def)
  then have "b < unat (push_bit ?w 1 :: u64)" unfolding word_less_nat_alt using u by simp
  moreover have "unat (push_bit ?w 1 :: u64) = 2 ^ ?w"
  proof -
    have "(2 :: nat) ^ ?w \<le> 2 ^ 32" using w by (intro power_increasing) simp_all
    then have "(2 :: nat) ^ ?w mod 2 ^ 64 = 2 ^ ?w" by simp
    moreover have "(push_bit ?w 1 :: u64) = word_of_nat (2 ^ ?w)" by (simp add: push_bit_eq_mult)
    ultimately show ?thesis by (simp only: unat_of_nat) simp
  qed
  moreover have "(2 :: nat) ^ ?w = 256 ^ (?w div 8)"
  proof -
    have "(2 :: nat) ^ (8 * (?w div 8)) = 256 ^ (?w div 8)" by (simp add: power_mult)
    then show ?thesis using w(2) by simp
  qed
  ultimately have b: "b < 256 ^ (?w div 8)" by simp
  have "be_bytes (?w div 8) i = be_bytes (?w div 8) j"
    using eq u assms(4,5) unfolding append_form [OF valid_32_64 [OF assms(1)]] by (simp add: Let_def split: if_splits)
  then show ?thesis using b assms(4,5) by (intro be_bytes_inj [of i "?w div 8" j]) simp_all
qed

lemma counter_field_mem: "f \<in> set (counter_fields fs) \<Longrightarrow> Field_Counter f \<in> set fs"
proof (induction fs)
  case (Cons fld fs)
  then show ?case by (cases fld) auto
qed simp

lemma kdf_inputs_differ:
  assumes ok: "kdf_ok kdf_fields l" and ij: "i \<le> div_ceil l 16" "j \<le> div_ceil l 16"
    and eq: "kdf_block_input kdf_fields l i = kdf_block_input kdf_fields l j"
  shows "i = j"
proof -
  obtain f where f: "f \<in> set (counter_fields kdf_fields)" "IntegerFormat_valid f 32"
    "IntegerFormat_fits f (word_of_nat (div_ceil l 16))"
    using ok by (cases "counter_fields kdf_fields") (auto simp: kdf_ok_def)
  have len: "length (field_bytes l i x) = length (field_bytes l j x)" for x
    by (cases x) (auto simp: IntegerFormat_append_def Let_def)
  have "map (field_bytes l i) kdf_fields = map (field_bytes l j) kdf_fields"
    using eq unfolding kdf_block_input_def
    by (rule concat_eq_concat_iff [THEN iffD1, rotated 2]) (auto simp: zip_map1 zip_map2 zip_same_conv_map len)
  then have "field_bytes l i (Field_Counter f) = field_bytes l j (Field_Counter f)"
    using counter_field_mem [OF f(1)] by (meson map_eq_conv)
  moreover have "div_ceil l 16 < 2 ^ 64" using ok by (simp add: kdf_ok_def usize_bound_def)
  ultimately show ?thesis using counter_append_inj [OF f(2,3) _ ij] by simp
qed


section \<open>Properties\<close>

text \<open>
  All validation precedes the first CMAC call. Parameters outside the accepted set give an
  error of the KDF at once, for every callback, and leave the callback state untouched; with
  accepted parameters no KDF error occurs, only what the callback itself reports.
\<close>

theorem counter_kdf_validates_first:
  "(\<not> kdf_ok kdf_fields l \<longrightarrow> (\<exists>e. \<forall>s. cmac_counter_kdf_with kdf_fields l cmac s = (Inl (Op_Kdf e), s)))
   \<and> (kdf_ok kdf_fields l \<longrightarrow> (\<forall>s e. fst (cmac_counter_kdf_with kdf_fields l cmac s) \<noteq> Inl (Op_Kdf e)))"
proof -
  have "raises_only (cmac_counter_kdf_with kdf_fields l cmac) (\<lambda>e. \<exists>x. e = Op_Cmac x)" if "kdf_ok kdf_fields l"
    unfolding kdf_accepts [OF that]
    by (intro raises_only_for_each raises_only_bindE raises_only_map_errE) auto
  moreover have "\<exists>e. \<forall>s. cmac_counter_kdf_with kdf_fields l cmac s = (Inl (Op_Kdf e), s)" if "\<not> kdf_ok kdf_fields l"
    using kdf_rejects [OF that, of cmac] by (auto simp: errE_def)
  ultimately show ?thesis by (fastforce simp: raises_only_def)
qed

text \<open>A caller's CMAC that counts its calls, and one counter field of 8 bits.\<close>

definition counting_cmac :: "bytes \<Rightarrow> (nat, unit, bytes) op" where
  "counting_cmac x = (\<lambda>calls. (Inr (resize 16 0 (rev x)), calls + 1))"

definition sample_fields :: "CounterKdfField list" where
  "sample_fields = [Field_Counter \<lparr>width_bits = 8, little_endian = False\<rparr>, Field_Bytes [7, 0],
                    Field_Length \<lparr>width_bits = 16, little_endian = False\<rparr> Length_Key]"

lemma kdf_ok_sample: "kdf_ok sample_fields 20"
proof -
  have "(20 :: nat) mod 16 = 4" by simp
  then have d: "div_ceil 20 16 = 2" by (simp add: div_ceil_def)
  show ?thesis
    unfolding kdf_ok_def d
    by (simp add: sample_fields_def IntegerFormat_valid_def IntegerFormat_fits_def length_bits_def usize_bound_def
        word_le_nat_alt word_less_nat_alt unat_div_distrib)
qed

theorem counter_kdf_validates_first_witness:
  "\<not> kdf_ok [] 20 \<and> (\<exists>e. \<forall>s. cmac_counter_kdf_with [] 20 counting_cmac s = (Inl (Op_Kdf e), s))
   \<and> (\<forall>s e. fst (cmac_counter_kdf_with sample_fields 20 counting_cmac s) \<noteq> Inl (Op_Kdf e))"
  using counter_kdf_validates_first [of "[]" 20 counting_cmac]
    counter_kdf_validates_first [of sample_fields 20 counting_cmac] kdf_ok_sample
  by (simp add: kdf_ok_def)

text \<open>
  With accepted parameters and a CMAC that computes \<open>M\<close>, the KDF returns exactly the
  requested number of bytes: the MACs of the fields with the counter \<open>1, 2, ..\<close>, cut on the
  right. No two iterations use the same CMAC input, in either byte order and for every accepted
  counter width.
\<close>

theorem counter_kdf_output:
  assumes "kdf_ok kdf_fields l" "\<And>x. returns (cmac x) (M x)" "\<And>x. length (M x) = 16"
  shows "returns (cmac_counter_kdf_with kdf_fields l cmac)
           (expand_blocks (\<lambda>i. M (kdf_block_input kdf_fields l i)) 16 1 l)
       \<and> length (expand_blocks (\<lambda>i. M (kdf_block_input kdf_fields l i)) 16 1 l) = l
       \<and> distinct (map (kdf_block_input kdf_fields l) [1..<div_ceil l 16 + 1])"
proof -
  have "distinct (map (kdf_block_input kdf_fields l) [1..<div_ceil l 16 + 1])"
    using kdf_inputs_differ [OF assms(1)] unfolding distinct_map by (auto simp: inj_on_def)
  then show ?thesis
    using kdf_returns [of kdf_fields l cmac M, OF assms] counter_kdf.length_expand [of "(M, kdf_fields, l)" 1 l] assms(3)
    by simp
qed

theorem counter_kdf_output_witness:
  "distinct (map (kdf_block_input sample_fields 20) [1..<div_ceil 20 16 + 1])
   \<and> returns (cmac_counter_kdf_with sample_fields 20 counting_cmac)
       (expand_blocks (\<lambda>i. resize 16 0 (rev (kdf_block_input sample_fields 20 i))) 16 1 20)"
  using counter_kdf_output [OF kdf_ok_sample, of counting_cmac "\<lambda>x. resize 16 0 (rev x)"]
  by (simp add: counting_cmac_def returns_def)

end
