(* ===== verification/Secure_Channel.thy ===== *)
theory Secure_Channel
  imports Soft_Symmetric Digest_Kdf
begin

text \<open>
  \<^verbatim>\<open>src/src/secure_channel.rs\<close>: ISO/IEC 7816-4 padding, the SCP03 derivation over AES-CMAC,
  the X9.63 derivation with SHA-256 and Yubico's password derivation.
\<close>

datatype SecureChannelCryptoError =
    Channel_InvalidDataLength
  | Channel_InvalidPadding
  | Channel_KeyDerivationFailed
  | Channel_OutputTooLong
  | Channel_Symmetric SoftwareSymmetricError

definition pad_iso7816 :: "bytes \<Rightarrow> bytes" where
  "pad_iso7816 data =
     (let len = div_ceil (length data + 1) AES_BLOCK_SIZE * AES_BLOCK_SIZE
      in resize len 0 (data @ [0x80]))"

text \<open>\<open>Iterator::rposition\<close>: the index of the last element that satisfies \<open>P\<close>.\<close>

definition rposition :: "('a \<Rightarrow> bool) \<Rightarrow> 'a list \<Rightarrow> nat option" where
  "rposition P xs =
     (let k = length (dropWhile (\<lambda>x. \<not> P x) (rev xs)) in if k = 0 then None else Some (k - 1))"

definition unpad_iso7816 :: "bytes \<Rightarrow> SecureChannelCryptoError + bytes" where
  "unpad_iso7816 data =
     bindR (ok_orR Channel_InvalidPadding (rposition (\<lambda>byte. byte \<noteq> 0) data)) (\<lambda>marker.
     bindR (rejectR (data ! marker \<noteq> 0x80) Channel_InvalidPadding) (\<lambda>_.
     Inr (take marker data)))"

text \<open>The CMAC input of one iteration, and the loop with the first error returned.\<close>

definition scp03_input :: "byte \<Rightarrow> bytes \<Rightarrow> u16 \<Rightarrow> nat \<Rightarrow> bytes" where
  "scp03_input derivation_constant context_data output_bits counter =
     replicate 11 0 @ [derivation_constant] @ [0] @ u16_be output_bits @ [word_of_nat counter] @ context_data"

fun scp03_loop :: "cipher_crates \<Rightarrow> bytes \<Rightarrow> byte \<Rightarrow> bytes \<Rightarrow> u16 \<Rightarrow> nat list \<Rightarrow> bytes \<Rightarrow> SecureChannelCryptoError + bytes" where
  "scp03_loop crates key derivation_constant context_data output_bits [] output = Inr output"
| "scp03_loop crates key derivation_constant context_data output_bits (counter # counters) output =
     bindR (map_errR Channel_Symmetric
              (aes_cmac crates key (scp03_input derivation_constant context_data output_bits counter))) (\<lambda>mac.
     scp03_loop crates key derivation_constant context_data output_bits counters (output @ mac))"

definition scp03_kdf :: "cipher_crates \<Rightarrow> bytes \<Rightarrow> byte \<Rightarrow> bytes \<Rightarrow> u16 \<Rightarrow> SecureChannelCryptoError + bytes" where
  "scp03_kdf crates key derivation_constant context_data output_bits =
     bindR (rejectR (output_bits = 0 \<or> unat output_bits mod 8 \<noteq> 0) Channel_InvalidDataLength) (\<lambda>_.
     let out_len = unat (output_bits div 8);
         iterations = div_ceil out_len AES_BLOCK_SIZE in
     bindR (rejectR (iterations > 255) Channel_OutputTooLong) (\<lambda>_.
     bindR (scp03_loop crates key derivation_constant context_data output_bits [1..<iterations + 1] []) (\<lambda>output.
     Inr (take out_len output))))"

text \<open>\<open>try_into\<close> a fixed-size array.\<close>

definition try_into_array :: "nat \<Rightarrow> 'e \<Rightarrow> bytes \<Rightarrow> 'e + bytes" where
  "try_into_array n e xs = (if length xs = n then Inr xs else Inl e)"

definition scp03_key :: "cipher_crates \<Rightarrow> bytes \<Rightarrow> byte \<Rightarrow> bytes \<Rightarrow> SecureChannelCryptoError + bytes" where
  "scp03_key crates key derivation_constant context_data =
     bindR (scp03_kdf crates key derivation_constant context_data 128)
       (try_into_array AES_BLOCK_SIZE Channel_InvalidDataLength)"

definition scp03_cryptogram :: "cipher_crates \<Rightarrow> bytes \<Rightarrow> byte \<Rightarrow> bytes \<Rightarrow> SecureChannelCryptoError + bytes" where
  "scp03_cryptogram crates key derivation_constant context_data =
     bindR (scp03_kdf crates key derivation_constant context_data 64)
       (try_into_array 8 Channel_InvalidDataLength)"

definition x963_kdf_sha256 :: "('h, 'k) hash_crates \<Rightarrow> bytes \<Rightarrow> bytes \<Rightarrow> nat \<Rightarrow> SecureChannelCryptoError + bytes" where
  "x963_kdf_sha256 crates shared_secret shared_info out_len =
     (let iterations = div_ceil out_len 32 in
      bindR (rejectR (iterations > 2 ^ 32 - 1) Channel_OutputTooLong) (\<lambda>_.
      let output = fold (\<lambda>counter output.
            let hasher = hc_new crates Sha256;
                hasher = hc_update crates Sha256 hasher shared_secret;
                hasher = hc_update crates Sha256 hasher (u32_be (word_of_nat counter));
                hasher = hc_update crates Sha256 hasher shared_info
            in output @ hc_finalize crates Sha256 hasher) [1..<iterations + 1] []
      in Inr (take out_len output)))"

text \<open>\<open>pbkdf2\<close>'s infallible form; \<open>None\<close> stands for its panic.\<close>

definition yubico_password_kdf :: "('h, 'k) hash_crates \<Rightarrow> bytes \<Rightarrow> bytes option" where
  "yubico_password_kdf crates password =
     hc_pbkdf2 crates Sha256 password (map (\<lambda>c. word_of_nat (of_char c)) ''Yubico'') 10000 32"


section \<open>Padding\<close>

lemma rposition_iff:
  "rposition P xs = Some k \<longleftrightarrow> k < length xs \<and> P (xs ! k) \<and> (\<forall>x \<in> set (drop (k + 1) xs). \<not> P x)"
proof -
  define z d where "z = takeWhile (\<lambda>x. \<not> P x) (rev xs)" and "d = dropWhile (\<lambda>x. \<not> P x) (rev xs)"
  have rev: "rev xs = z @ d" by (simp add: z_def d_def)
  then have xs: "xs = rev d @ rev z" by (metis rev_append rev_rev_ident)
  have z: "\<forall>x \<in> set z. \<not> P x" unfolding z_def using set_takeWhileD by metis
  have d: "d \<noteq> [] \<Longrightarrow> P (hd d)" unfolding d_def using hd_dropWhile by blast
  have r: "rposition P xs = (if d = [] then None else Some (length d - 1))"
    by (simp add: rposition_def d_def Let_def)
  show ?thesis
  proof (cases d)
    case Nil
    then have "\<forall>x \<in> set xs. \<not> P x" using xs z by simp
    then show ?thesis using r Nil by (auto dest: nth_mem)
  next
    case (Cons a t)
    then have x: "xs = rev t @ a # rev z" "P a" using xs d by simp_all
    have "rposition P xs = Some (length t)" using r Cons by simp
    moreover have "k = length t" if "k < length xs" "P (xs ! k)" "\<forall>x \<in> set (drop (k + 1) xs). \<not> P x"
    proof (rule ccontr)
      assume "k \<noteq> length t"
      then consider "k < length t" | "k > length t" by linarith
      then show False
      proof cases
        case 1
        then have "a \<in> set (drop (k + 1) xs)" using x(1) by simp
        then show False using that(3) x(2) by blast
      next
        case 2
        then have "xs ! k \<in> set (rev z)" 
          using that(1) x(1) nth_mem [of "k - Suc (length t)" "rev z"] by (auto simp: nth_append nth_Cons')
        then show False using that(2) z by simp
      qed
    qed
    moreover have "length t < length xs" "P (xs ! length t)" "\<forall>x \<in> set (drop (length t + 1) xs). \<not> P x"
      using x z by (simp_all add: nth_append)
    ultimately show ?thesis by auto
  qed
qed

lemma unpad_iff: "unpad_iso7816 y = Inr x \<longleftrightarrow> (\<exists>k. y = x @ 0x80 # replicate k 0)"
proof
  assume "unpad_iso7816 y = Inr x"
  then obtain m where m: "rposition (\<lambda>b. b \<noteq> 0) y = Some m" "y ! m = 0x80" "x = take m y"
    by (auto simp: unpad_iso7816_def result_iffs)
  then have l: "m < length y" and z: "\<forall>b \<in> set (drop (m + 1) y). b = 0" by (auto simp: rposition_iff)
  have "y = take m y @ y ! m # drop (m + 1) y" using l by (simp add: id_take_nth_drop)
  moreover have "drop (m + 1) y = replicate (length (drop (m + 1) y)) 0"
    using z by (metis replicate_length_same)
  ultimately show "\<exists>k. y = x @ 0x80 # replicate k 0" using m by metis
next
  assume "\<exists>k. y = x @ 0x80 # replicate k 0"
  then obtain k where y: "y = x @ 0x80 # replicate k 0" by blast
  then have "rposition (\<lambda>b. b \<noteq> 0) y = Some (length x)" by (auto simp: rposition_iff)
  then show "unpad_iso7816 y = Inr x" using y by (simp add: unpad_iso7816_def)
qed

lemma pad_form:
  "pad_iso7816 x = x @ 0x80 # replicate (div_ceil (length x + 1) 16 * 16 - (length x + 1)) 0"
  using div_ceil_bounds(1) [of 16 "length x + 1"]
  by (simp add: pad_iso7816_def Let_def AES_BLOCK_SIZE_def resize_extend)

interpretation iso7816: result_codec "\<lambda>_ _. True" "\<lambda>_ x. Inr (pad_iso7816 x)" "\<lambda>_ y. unpad_iso7816 y"
proof (unfold_locales, goal_cases)
  case (1 c x)
  have "unpad_iso7816 (pad_iso7816 x) = Inr x" unfolding unpad_iff pad_form by blast
  then show ?case by blast
qed



section \<open>SCP03\<close>

definition cmac_ok :: "cipher_crates \<Rightarrow> bool" where
  "cmac_ok crates \<longleftrightarrow> (\<forall>c x. length (cmac_crate crates c x) = 16)"

definition scp03_block :: "cipher_crates \<Rightarrow> AesCipher \<Rightarrow> byte \<Rightarrow> bytes \<Rightarrow> u16 \<Rightarrow> nat \<Rightarrow> bytes" where
  "scp03_block crates c dc ctx bits i = cmac_crate crates c (scp03_input dc ctx bits i)"

interpretation scp03: block_source
  "\<lambda>(crates, c, dc, ctx, bits). cmac_ok crates"
  "\<lambda>(crates, c, dc, ctx, bits). scp03_block crates c dc ctx bits"
  "\<lambda>_. 16"
  by unfold_locales (auto simp: cmac_ok_def scp03_block_def)

lemma scp03_loop_eq:
  "AesCipher_new key = Inr c \<Longrightarrow>
   scp03_loop crates key dc ctx bits is out = Inr (out @ concat (map (scp03_block crates c dc ctx bits) is))"
  by (induction "is" arbitrary: out) (simp_all add: aes_cmac_def scp03_block_def)

lemma scp03_loop_bad_key:
  "AesCipher_new key = Inl e \<Longrightarrow> is \<noteq> [] \<Longrightarrow> scp03_loop crates key dc ctx bits is out = Inl (Channel_Symmetric e)"
  by (cases "is") (simp_all add: aes_cmac_def)

lemma scp03_kdf_eq:
  assumes "cmac_ok crates"
  shows "scp03_kdf crates key dc ctx bits =
    (if bits = 0 \<or> \<not> 8 dvd unat bits then Inl Channel_InvalidDataLength
     else if unat bits > 255 * 16 * 8 then Inl Channel_OutputTooLong
     else case AesCipher_new key of
            Inl e \<Rightarrow> Inl (Channel_Symmetric e)
          | Inr c \<Rightarrow> Inr (expand_blocks (scp03_block crates c dc ctx bits) 16 1 (unat bits div 8)))"
proof (cases "bits = 0 \<or> \<not> 8 dvd unat bits")
  case True
  then show ?thesis by (simp add: scp03_kdf_def mod_eq_0_iff_dvd)
next
  case False
  let ?l = "unat bits div 8"
  have l: "unat (bits div 8) = ?l" by (simp add: unat_div_distrib)
  have "0 < unat bits" using False by (simp add: unat_gt_0)
  then have "0 < ?l" using False dvd_imp_le [of 8 "unat bits"] by (simp add: div_greater_zero_iff)
  then have pos: "0 < div_ceil ?l 16" by (auto simp: div_ceil_def div_greater_zero_iff)
  have "div_ceil ?l 16 \<le> 255 \<longleftrightarrow> ?l \<le> 255 * 16" by (rule div_ceil_le_iff) simp
  also have "\<dots> \<longleftrightarrow> unat bits \<le> 255 * 16 * 8" using False by auto
  finally have too: "div_ceil ?l 16 > 255 \<longleftrightarrow> unat bits > 255 * 16 * 8" by linarith
  show ?thesis
  proof (cases "AesCipher_new key")
    case (Inl e)
    then show ?thesis using False pos too scp03_loop_bad_key [OF Inl]
      by (simp add: scp03_kdf_def Let_def AES_BLOCK_SIZE_def l mod_eq_0_iff_dvd rejectR_def)
  next
    case (Inr c)
    then show ?thesis using False too
      by (simp add: scp03_kdf_def Let_def AES_BLOCK_SIZE_def l mod_eq_0_iff_dvd rejectR_def scp03_loop_eq [OF Inr]
          expand_blocks_def add.commute del: upt_Suc)
  qed
qed

lemma scp03_input_inj:
  "scp03_input dc ctx bits i = scp03_input dc' ctx' bits' j \<Longrightarrow> i < 256 \<Longrightarrow> j < 256 \<Longrightarrow>
   dc = dc' \<and> ctx = ctx' \<and> bits = bits' \<and> i = j"
proof -
  assume a: "scp03_input dc ctx bits i = scp03_input dc' ctx' bits' j" "i < 256" "j < 256"
  then have w: "dc = dc'" "u16_be bits = u16_be bits'" "word_of_nat i = (word_of_nat j :: byte)" "ctx = ctx'"
    by (auto simp: scp03_input_def append_eq_append_conv)
  have "be_nat (u16_be b) = unat b" for b using unat_u_bounds(5) [of b] by (simp add: u16_be_def be_nat_be_bytes)
  then have "unat bits = unat bits'" using w(2) by metis
  moreover have "unat (word_of_nat i :: byte) = unat (word_of_nat j :: byte)" using w(3) by simp
  ultimately show ?thesis using w a(2,3) by (simp add: unat_of_nat word_unat_eq_iff)
qed


section \<open>X9.63 with SHA-256\<close>

text \<open>The streaming interface of a hash computes the one-shot digest of the concatenation.\<close>

definition stream_ok :: "('h, 'k) hash_crates \<Rightarrow> bool" where
  "stream_ok crates \<longleftrightarrow> (\<forall>alg xs. hc_finalize crates alg (fold (\<lambda>x h. hc_update crates alg h x) xs (hc_new crates alg))
                                  = hc_digest crates alg (concat xs))"

lemma x963_sha256_eq:
  assumes "stream_ok crates"
  shows "x963_kdf_sha256 crates secret info l =
    (if l \<le> (2 ^ 32 - 1) * 32 then Inr (expand_blocks (x963_block crates Sha256 secret info) 32 1 l)
     else Inl Channel_OutputTooLong)"
proof -
  have b: "hc_finalize crates Sha256 (hc_update crates Sha256 (hc_update crates Sha256
      (hc_update crates Sha256 (hc_new crates Sha256) secret) (u32_be (word_of_nat i))) info)
      = x963_block crates Sha256 secret info i" for i
    using assms [unfolded stream_ok_def, rule_format, of Sha256 "[secret, u32_be (word_of_nat i), info]"]
    by (simp add: x963_block_def digest_def)
  have "div_ceil l 32 > 2 ^ 32 - 1 \<longleftrightarrow> \<not> l \<le> (2 ^ 32 - 1) * 32"
    using div_ceil_le_iff [of 32 l "2 ^ 32 - 1"] by linarith
  then show ?thesis
    by (simp add: x963_kdf_sha256_def Let_def b fold_append_blocks expand_blocks_def rejectR_def add.commute del: upt_Suc)
qed


section \<open>Properties\<close>

text \<open>
  ISO/IEC 7816-4 padding: the padded data is a whole, positive number of AES blocks, adds at
  most one block, and starts with the data; unpadding accepts exactly a string, the byte \<open>80\<close> and
  zeros, and returns that string, so it inverts padding and rejects everything else.
\<close>

theorem iso7816_exact:
  "16 dvd length (pad_iso7816 x) \<and> length x < length (pad_iso7816 x) \<and> length (pad_iso7816 x) \<le> length x + 16
   \<and> take (length x) (pad_iso7816 x) = x
   \<and> unpad_iso7816 (pad_iso7816 x) = Inr x
   \<and> (unpad_iso7816 y = Inr z \<longleftrightarrow> (\<exists>k. y = z @ 0x80 # replicate k 0))
   \<and> ((\<nexists>z k. y = z @ 0x80 # replicate k 0) \<longrightarrow> unpad_iso7816 y = Inl Channel_InvalidPadding)"
proof -
  have "16 dvd length (pad_iso7816 x)" by (simp add: pad_iso7816_def Let_def AES_BLOCK_SIZE_def)
  moreover have "length x < length (pad_iso7816 x)" "length (pad_iso7816 x) \<le> length x + 16"
    using div_ceil_bounds [of 16 "length x + 1"] by (simp_all add: pad_iso7816_def Let_def AES_BLOCK_SIZE_def)
  moreover have "unpad_iso7816 y = Inl Channel_InvalidPadding" if "\<nexists>z k. y = z @ 0x80 # replicate k 0"
  proof -
    have "unpad_iso7816 y \<noteq> Inr z" for z using that unpad_iff by blast
    moreover have "unpad_iso7816 y = Inl Channel_InvalidPadding \<or> (\<exists>z. unpad_iso7816 y = Inr z)"
      by (auto simp: unpad_iso7816_def rejectR_def ok_orR_def bindR_def split: option.splits)
    ultimately show ?thesis by blast
  qed
  moreover have "unpad_iso7816 (pad_iso7816 x) = Inr x" using iso7816.enc_dec [of x] by simp
  moreover have "take (length x) (pad_iso7816 x) = x" by (simp add: pad_form)
  ultimately show ?thesis using unpad_iff by blast
qed

theorem iso7816_exact_witness:
  "unpad_iso7816 [1, 2, 3] = Inl Channel_InvalidPadding \<and> unpad_iso7816 [1, 2, 0x80, 0, 0] = Inr [1, 2]"
proof -
  have ne: "\<nexists>z k. [1, 2, 3 :: byte] = z @ 0x80 # replicate k 0"
  proof
    assume "\<exists>z k. [1, 2, 3 :: byte] = z @ 0x80 # replicate k 0"
    then obtain z k where "[1, 2, 3 :: byte] = z @ 0x80 # replicate k 0" by blast
    then have "0x80 \<in> set [1, 2, 3 :: byte]" by (metis in_set_conv_decomp)
    then show False by simp
  qed
  have "[1, 2, 0x80, 0, 0 :: byte] = [1, 2] @ 0x80 # replicate 2 0" by (simp add: numeral_eq_Suc)
  then show ?thesis
    using iso7816_exact [of "[]" "[1, 2, 3]" "[]"] iso7816_exact [of "[]" "[1, 2, 0x80, 0, 0]" "[1, 2]"] ne by blast
qed

text \<open>
  The SCP03 derivation returns for every input: \<open>InvalidDataLength\<close> for a bit count that is
  zero or not a multiple of eight, \<open>OutputTooLong\<close> above 255 blocks, the key error of AES, and
  otherwise exactly the requested bytes, from CMAC inputs that differ in every iteration and for
  different constants, contexts and lengths; session keys are 16 bytes and cryptograms 8, without
  a conversion error.
\<close>

theorem scp03_total:
  assumes "cmac_ok crates"
  shows "scp03_kdf crates key dc ctx bits =
          (if bits = 0 \<or> \<not> 8 dvd unat bits then Inl Channel_InvalidDataLength
           else if unat bits > 255 * 16 * 8 then Inl Channel_OutputTooLong
           else case AesCipher_new key of
                  Inl e \<Rightarrow> Inl (Channel_Symmetric e)
                | Inr c \<Rightarrow> Inr (expand_blocks (scp03_block crates c dc ctx bits) 16 1 (unat bits div 8)))
       \<and> length (expand_blocks (scp03_block crates c dc ctx bits) 16 1 l) = l
       \<and> (i < 256 \<and> j < 256 \<and> scp03_input dc ctx bits i = scp03_input dc' ctx' bits' j
            \<longrightarrow> dc = dc' \<and> ctx = ctx' \<and> bits = bits' \<and> i = j)
       \<and> (aes_key_ok key \<longrightarrow> (\<exists>k. scp03_key crates key dc ctx = Inr k \<and> length k = 16)
                              \<and> (\<exists>g. scp03_cryptogram crates key dc ctx = Inr g \<and> length g = 8))"
proof -
  have len: "length (expand_blocks (scp03_block crates c dc ctx bits) 16 1 l) = l" for c l bits
    using scp03.length_expand [of "(crates, c, dc, ctx, bits)" 1 l] assms by simp
  have "(\<exists>k. scp03_key crates key dc ctx = Inr k \<and> length k = 16)
      \<and> (\<exists>g. scp03_cryptogram crates key dc ctx = Inr g \<and> length g = 8)" if k: "aes_key_ok key"
  proof -
    obtain c where "AesCipher_new key = Inr c" using AesCipher_new_ok [OF k] by blast
    then show ?thesis using len
      by (simp add: scp03_key_def scp03_cryptogram_def scp03_kdf_eq [OF assms] try_into_array_def AES_BLOCK_SIZE_def)
  qed
  then show ?thesis using scp03_kdf_eq [OF assms] len scp03_input_inj by blast
qed

theorem scp03_total_witness:
  "\<exists>k. scp03_key sample_crates (replicate 16 1) 4 [7, 8] = Inr k \<and> length k = 16"
  using scp03_total [of sample_crates "replicate 16 1" 4 "[7, 8]" 128]
  by (simp add: cmac_ok_def sample_crates_def aes_key_ok_def)

text \<open>
  The two X9.63 implementations agree: for SHA-256 and a positive length, the secure-channel
  routine (streaming hash, cut at the end) and the digest module's (one-shot hash, cut in each
  step) return the same bytes or both report \<open>OutputTooLong\<close>; for length zero the first returns
  the empty string and the second an error.
\<close>

theorem x963_implementations_agree:
  assumes "hash_ok crates" "stream_ok crates" "length secret + 4 + length info < usize_bound"
  shows "(0 < l \<longrightarrow> (x963_kdf_sha256 crates secret info l = Inr out \<longleftrightarrow> x963_kdf crates Sha256 secret info l = Inr out))
       \<and> (0 < l \<longrightarrow> (x963_kdf_sha256 crates secret info l = Inl Channel_OutputTooLong
                      \<longleftrightarrow> x963_kdf crates Sha256 secret info l = Inl Digest_OutputTooLong))
       \<and> x963_kdf_sha256 crates secret info 0 = Inr []
       \<and> x963_kdf crates Sha256 secret info 0 = Inl Digest_OutputTooLong"
proof -
  have "div_ceil l 32 \<le> 2 ^ 32 - 1 \<longleftrightarrow> l \<le> (2 ^ 32 - 1) * 32" by (rule div_ceil_le_iff) simp
  then show ?thesis
    using assms(3) by (simp add: x963_eq [OF assms(1)] x963_sha256_eq [OF assms(2)] expand_blocks_def)
qed

theorem x963_implementations_agree_witness:
  "x963_kdf_sha256 sample_hashes [1] [2] 0 = Inr [] \<and> x963_kdf sample_hashes Sha256 [1] [2] 0 = Inl Digest_OutputTooLong"
proof -
  have "fold (\<lambda>x h. h @ x) xs acc = acc @ concat xs" for xs :: "bytes list" and acc
    by (induction xs arbitrary: acc) simp_all
  then have "stream_ok sample_hashes" by (simp add: stream_ok_def sample_hashes_def)
  from x963_implementations_agree [OF hash_ok_sample this, of "[1]" "[2]"] show ?thesis
    by (simp add: usize_bound_def)
qed

end
