(* ===== verification/Prime_Facts.thy ===== *)
theory Prime_Facts
  imports Complex_Main
begin

text \<open>
  The facts of elementary number theory that the RSA checks rest on: prime numbers, Euclid's lemma,
  Fermat's little theorem, square roots of one, and exponents that are one modulo a group order.
\<close>

definition is_prime :: "nat \<Rightarrow> bool" where
  "is_prime p \<longleftrightarrow> 1 < p \<and> (\<forall>d. d dvd p \<longrightarrow> d = 1 \<or> d = p)"

lemma is_primeD: "is_prime p \<Longrightarrow> 1 < p" "is_prime p \<Longrightarrow> d dvd p \<Longrightarrow> d = 1 \<or> d = p"
  by (auto simp: is_prime_def)

lemma prime_coprime: "is_prime p \<Longrightarrow> \<not> p dvd a \<Longrightarrow> coprime p a"
  by (metis coprime_iff_gcd_eq_1 gcd_dvd1 gcd_dvd2 is_primeD(2))

lemma prime_dvd_mult: "is_prime p \<Longrightarrow> p dvd a * b \<longleftrightarrow> p dvd a \<or> p dvd (b :: nat)"
  by (metis coprime_dvd_mult_right_iff dvd_mult2 dvd_mult prime_coprime)

lemma prime_dvd_power: "is_prime p \<Longrightarrow> p dvd a ^ k \<Longrightarrow> p dvd (a :: nat)"
  by (induction k) (auto simp: prime_dvd_mult dest: is_primeD)

lemma prime_factor_exists: "1 < n \<Longrightarrow> \<exists>p. is_prime p \<and> p dvd n"
proof (induction n rule: less_induct)
  case (less n)
  show ?case
  proof (cases "is_prime n")
    case False
    then obtain d where d: "d dvd n" "d \<noteq> 1" "d \<noteq> n" using less.prems by (auto simp: is_prime_def)
    have "d \<noteq> 0" using d(1) less.prems by (metis dvd_0_left_iff not_less_zero)
    then have "1 < d" using d(2) by simp
    moreover have "d < n" using d less.prems by (metis dvd_imp_le le_neq_implies_less less_trans zero_less_one)
    ultimately show ?thesis using less.IH d(1) dvd_trans by blast
  qed auto
qed

lemma prime_dvd_binomial:
  assumes "is_prime p" "0 < k" "k < p"
  shows "p dvd (p choose k)"
proof -
  have "k * (p choose k) = p * ((p - 1) choose (k - 1))"
    using assms by (simp add: times_binomial_minus1_eq)
  then have "p dvd k * (p choose k)" by simp
  moreover have "\<not> p dvd k" using assms by (auto dest: dvd_imp_le)
  ultimately show ?thesis using prime_dvd_mult [OF assms(1)] by blast
qed

lemma fermat_step:
  assumes "is_prime p"
  shows "(a + 1) ^ p mod p = (a ^ p + 1) mod p"
proof -
  have p: "0 < p" using assms by (auto dest: is_primeD)
  have "(a + 1) ^ p = (\<Sum>k\<le>p. (p choose k) * a ^ k)"
    using binomial_ring [of a 1 p] by (simp only: power_one mult_1_right of_nat_id)
  also have "\<dots> = (\<Sum>k\<in>{0, p}. (p choose k) * a ^ k) + (\<Sum>k\<in>{..p} - {0, p}. (p choose k) * a ^ k)"
    by (subst sum.subset_diff [of "{0, p}" "{..p}"]) (auto simp: add.commute)
  also have "(\<Sum>k\<in>{0, p}. (p choose k) * a ^ k) = a ^ p + 1" using p by simp
  finally have e: "(a + 1) ^ p = a ^ p + 1 + (\<Sum>k\<in>{..p} - {0, p}. (p choose k) * a ^ k)" .
  have "p dvd (\<Sum>k\<in>{..p} - {0, p}. (p choose k) * a ^ k)"
    by (rule dvd_sum) (auto intro!: dvd_mult2 prime_dvd_binomial [OF assms])
  then obtain c where "(\<Sum>k\<in>{..p} - {0, p}. (p choose k) * a ^ k) = p * c" by (elim dvdE)
  then show ?thesis using e by simp
qed

lemma fermat: "is_prime p \<Longrightarrow> a ^ p mod p = a mod p"
proof (induction a)
  case 0
  then show ?case by (auto dest: is_primeD simp: power_0_left)
next
  case (Suc a)
  have "Suc a ^ p mod p = (a ^ p + 1) mod p" using fermat_step [OF Suc.prems, of a] by simp
  also have "\<dots> = (a mod p + 1) mod p" using Suc by (metis mod_add_left_eq)
  finally show ?case by (simp add: mod_Suc_eq)
qed

lemma fermat_unit:
  assumes "is_prime p" "\<not> p dvd a"
  shows "a ^ (p - 1) mod p = 1"
proof -
  have p: "1 < p" using assms by (auto dest: is_primeD)
  have pos: "0 < a" using assms(2) by (cases a) auto
  have "a ^ p = a * a ^ (p - 1)" using p by (metis Suc_diff_1 less_trans power_Suc zero_less_one)
  then have "(a * a ^ (p - 1)) mod p = (a * 1) mod p" using fermat [OF assms(1), of a] by simp
  moreover have "1 \<le> a ^ (p - 1)" using pos by simp
  ultimately have "p dvd a * (a ^ (p - 1)) - a * 1" using mod_eq_dvd_iff_nat [of "a * 1" "a * a ^ (p - 1)" p] by simp
  then have "p dvd a * (a ^ (p - 1) - 1)" by (simp add: diff_mult_distrib2)
  then have "p dvd a ^ (p - 1) - 1" using prime_dvd_mult [OF assms(1)] assms(2) by blast
  then have "a ^ (p - 1) mod p = 1 mod p" using mod_eq_dvd_iff_nat [of 1 "a ^ (p - 1)" p] \<open>1 \<le> a ^ (p - 1)\<close> by simp
  then show ?thesis using p by simp
qed

text \<open>Exponents that are one modulo \<open>p - 1\<close> act as the identity modulo \<open>p\<close>.\<close>

lemma power_one_mod: "x mod n = 1 mod n \<Longrightarrow> x ^ k mod n = 1 mod (n :: nat)"
  by (metis power_mod power_one)

lemma fermat_unit_power:
  assumes "is_prime p" "\<not> p dvd a"
  shows "(a ^ (p - 1)) ^ c mod p = 1 mod p"
proof (rule power_one_mod)
  show "a ^ (p - 1) mod p = 1 mod p"
    unfolding fermat_unit [OF assms] using is_primeD(1) [OF assms(1)] by simp
qed

lemma fermat_exponent:
  assumes "is_prime p" "k mod (p - 1) = 1 mod (p - 1)" "0 < k"
  shows "a ^ k mod p = a mod p"
proof (cases "p dvd a")
  case True
  then have "p dvd a ^ k" using assms(3) by (simp add: dvd_power_le [of p a 1 k, simplified])
  then show ?thesis using True by (simp add: mod_eq_0_iff_dvd)
next
  case False
  have "(p - 1) dvd k - 1" using assms(2,3) mod_eq_dvd_iff_nat [of 1 k "p - 1"] by simp
  then obtain c where "k - 1 = (p - 1) * c" by (elim dvdE)
  then have "a ^ k = a * (a ^ (p - 1)) ^ c" using assms(3) by (metis Suc_diff_1 power_Suc power_mult)
  moreover have "(a ^ (p - 1)) ^ c mod p = 1 mod p"
    by (rule fermat_unit_power [OF assms(1) False])
  ultimately show ?thesis using mod_mult_right_eq [of a "(a ^ (p - 1)) ^ c" p] mod_mult_right_eq [of a 1 p]
    by (simp only: mult_1_right)
qed

lemma square_minus_one: "x * x - 1 = (x - 1) * (x + 1)" for x :: nat
  by (cases x) simp_all

text \<open>Modulo a prime, one has only two square roots.\<close>

lemma sqrt_one_prime:
  assumes "is_prime p" "x * x mod p = 1" "x < p"
  shows "x = 1 \<or> x = p - 1"
proof -
  have p: "1 < p" using assms by (auto dest: is_primeD)
  have x: "1 \<le> x" using assms(2) by (cases x) auto
  then have "1 \<le> x * x" by simp
  then have "p dvd x * x - 1" using assms(2) p mod_eq_dvd_iff_nat [of 1 "x * x" p] by simp
  then consider "p dvd x - 1" | "p dvd x + 1"
    using prime_dvd_mult [OF assms(1)] unfolding square_minus_one by blast
  then show ?thesis
  proof cases
    case 1
    then show ?thesis using assms(3) x by (cases "x - 1 = 0") (auto dest: dvd_imp_le)
  next
    case 2
    then have "p \<le> x + 1" by (rule dvd_imp_le) simp
    then show ?thesis using assms(3) by linarith
  qed
qed

text \<open>Modulo \<open>n\<close>, a root other than the two trivial ones shares a factor with \<open>n\<close> after subtracting one.\<close>

lemma sqrt_one_factor:
  fixes x n :: nat
  assumes "x * x mod n = 1" "x < n" "x \<noteq> 1" "x \<noteq> n - 1" "1 < n"
  shows "gcd (x - 1) n > 1"
proof (rule ccontr)
  have x: "1 \<le> x" using assms(1,5) by (cases x) auto
  assume "\<not> gcd (x - 1) n > 1"
  moreover have "gcd (x - 1) n \<noteq> 0" using assms(5) by simp
  ultimately have "gcd (x - 1) n = 1" by linarith
  then have c: "coprime n (x - 1)" by (simp add: coprime_iff_gcd_eq_1 gcd.commute)
  have "1 \<le> x * x" using x by simp
  then have "n dvd x * x - 1" using assms(1,5) mod_eq_dvd_iff_nat [of 1 "x * x" n] by simp
  then have "n dvd x + 1"
    using coprime_dvd_mult_right_iff [OF c, of "x + 1"] unfolding square_minus_one by blast
  then have "n \<le> x + 1" by (rule dvd_imp_le) simp
  then show False using assms(2,4) by linarith
qed

text \<open>If \<open>n\<close> is a power of a prime, \<open>b ^ (n - 1)\<close> is one modulo that prime.\<close>

lemma prime_power_fermat:
  assumes "is_prime p" "n = p ^ k" "0 < k" "\<not> p dvd b"
  shows "b ^ (n - 1) mod p = 1"
proof -
  have p: "1 < p" using assms by (auto dest: is_primeD)
  have "(p - 1) dvd p ^ k - 1"
  proof -
    have "p ^ k mod (p - 1) = 1 mod (p - 1)"
    proof -
      have "p mod (p - 1) = 1 mod (p - 1)" using p by (metis Suc_diff_1 less_trans mod_add_self2 plus_1_eq_Suc zero_less_one)
      then show ?thesis by (rule power_one_mod)
    qed
    then show ?thesis using p mod_eq_dvd_iff_nat [of 1 "p ^ k" "p - 1"] by simp
  qed
  then obtain c where "n - 1 = (p - 1) * c" unfolding assms(2) by (rule dvdE)
  then have "b ^ (n - 1) mod p = (b ^ (p - 1)) ^ c mod p" by (simp add: power_mult)
  also have "\<dots> = 1 mod p" by (rule fermat_unit_power [OF assms(1,4)])
  finally show ?thesis using p by simp
qed

end
