(* ===== verification/Rsa_Encoding.thy ===== *)
theory Rsa_Encoding
  imports Digest_Kdf
begin

text \<open>
  \<^verbatim>\<open>src/src/rsa_signing.rs\<close>: PKCS \#1 v1.5, OAEP and PSS encodings, and the RSA operations
  around them. Parameters: the \<open>rsa\<close> crate (\<open>rsa_crate\<close>), the hash crates, and the random source
  \<open>fill\<close> of \<open>getrandom\<close>, an operation over the caller's state that returns as many bytes as it is
  asked for or fails. Constant-time selection is modelled by the value it selects.

  Subtractions and additions on \<open>usize\<close> that the code does not guard panic when they leave the
  range; \<open>fault\<close> keeps such a panic apart from the errors the code returns.
\<close>

text \<open>The \<open>DigestInfo\<close> header of a hash in the NIST arc: outer length, last arc of the identifier, digest length.\<close>

definition nist_hash_prefix :: "byte \<Rightarrow> byte \<Rightarrow> byte \<Rightarrow> bytes" where
  [simp]: "nist_hash_prefix outer arc len =
     [0x30, outer] @ [0x30, 0x0d] @ [0x06, 0x09, 0x60, 0x86, 0x48] @ [0x01, 0x65, 0x03, 0x04, 0x02, arc] @ [0x05, 0x00] @ [0x04, len]"

fun digest_info_prefix :: "HashAlgorithm \<Rightarrow> bytes" where
  "digest_info_prefix Sha1 =
     [0x30, 0x21] @ [0x30, 0x09] @ [0x06, 0x05, 0x2b, 0x0e, 0x03, 0x02, 0x1a] @ [0x05, 0x00] @ [0x04, 0x14]"
| "digest_info_prefix Sha224 = nist_hash_prefix 0x2d 0x04 0x1c"
| "digest_info_prefix Sha256 = nist_hash_prefix 0x31 0x01 0x20"
| "digest_info_prefix Sha384 = nist_hash_prefix 0x41 0x02 0x30"
| "digest_info_prefix Sha512 = nist_hash_prefix 0x51 0x03 0x40"
| "digest_info_prefix Sha3_224 = nist_hash_prefix 0x2d 0x07 0x1c"
| "digest_info_prefix Sha3_256 = nist_hash_prefix 0x31 0x08 0x20"
| "digest_info_prefix Sha3_384 = nist_hash_prefix 0x41 0x09 0x30"
| "digest_info_prefix Sha3_512 = nist_hash_prefix 0x51 0x0a 0x40"

record RsaPssParameters =
  pss_hash :: HashAlgorithm
  pss_mgf_hash :: HashAlgorithm
  pss_salt_length :: nat

datatype RsaConstructionError =
    Rsa_InputTooLong
  | Rsa_InputOutOfRange
  | Rsa_InvalidDigestLength
  | Rsa_InvalidKey
  | Rsa_InvalidSignature
  | Rsa_RandomnessUnavailable
  | Rsa_OperationFailed

datatype 'e AsymmetricConstructionError =
    Asym_Encoding RsaConstructionError
  | Asym_Operation 'e
  | Asym_InvalidOperationOutput

type_synonym 'a rsa_result = "RsaConstructionError fault + 'a"

text \<open>\<open>BigUint::bits\<close> and \<open>BigUint::to_bytes_be\<close>, which gives one zero byte for zero.\<close>

fun nat_bits :: "nat \<Rightarrow> nat" where
  "nat_bits v = (if v = 0 then 0 else Suc (nat_bits (v div 2)))"

declare nat_bits.simps [simp del]

definition to_bytes_be :: "nat \<Rightarrow> bytes" where
  "to_bytes_be v = (if v = 0 then [0] else be_bytes (div_ceil (nat_bits v) 8) v)"

text \<open>The operations of the \<open>rsa\<close> crate on a private and a public key.\<close>

record ('k, 'p) rsa_crate =
  priv_n :: "'k \<Rightarrow> nat"
  pub_n :: "'p \<Rightarrow> nat"
  rsa_decrypt_and_check :: "'k \<Rightarrow> nat \<Rightarrow> nat option"
  rsa_encrypt :: "'p \<Rightarrow> nat \<Rightarrow> nat option"
  decrypt_blinded_pkcs1v15 :: "'k \<Rightarrow> bytes \<Rightarrow> bytes option"

definition key_size :: "nat \<Rightarrow> nat" where
  "key_size n = div_ceil (nat_bits n) 8"

definition left_pad :: "bytes \<Rightarrow> nat \<Rightarrow> bytes rsa_result" where
  "left_pad value len =
     bindR (rejectR (length value > len) (Err Rsa_OperationFailed)) (\<lambda>_.
     Inr (copy_at (len - length value) value (replicate len 0)))"

definition private_operation :: "('k, 'p) rsa_crate \<Rightarrow> 'k \<Rightarrow> bytes \<Rightarrow> bytes rsa_result" where
  "private_operation rsa key encoded =
     bindR (rejectR (length encoded > key_size (priv_n rsa key)) (Err Rsa_InputTooLong)) (\<lambda>_.
     let value = be_nat encoded in
     bindR (rejectR (value \<ge> priv_n rsa key) (Err Rsa_InputOutOfRange)) (\<lambda>_.
     bindR (ok_orR (Err Rsa_OperationFailed) (rsa_decrypt_and_check rsa key value)) (\<lambda>value.
     left_pad (to_bytes_be value) (key_size (priv_n rsa key)))))"

definition public_operation :: "('k, 'p) rsa_crate \<Rightarrow> 'p \<Rightarrow> bytes \<Rightarrow> bytes rsa_result" where
  "public_operation rsa key signature =
     bindR (rejectR (length signature \<noteq> key_size (pub_n rsa key)) (Err Rsa_InvalidSignature)) (\<lambda>_.
     let value = be_nat signature in
     bindR (rejectR (value \<ge> pub_n rsa key) (Err Rsa_InvalidSignature)) (\<lambda>_.
     bindR (ok_orR (Err Rsa_InvalidSignature) (rsa_encrypt rsa key value)) (\<lambda>value.
     left_pad (to_bytes_be value) (key_size (pub_n rsa key)))))"

definition rsa_sign_raw :: "('k, 'p) rsa_crate \<Rightarrow> 'k \<Rightarrow> bytes \<Rightarrow> bytes rsa_result" where
  "rsa_sign_raw rsa key input = private_operation rsa key input"

definition rsa_verify_raw :: "('k, 'p) rsa_crate \<Rightarrow> 'p \<Rightarrow> bytes \<Rightarrow> bytes \<Rightarrow> unit rsa_result" where
  "rsa_verify_raw rsa key input signature =
     bindR (rejectR (length input > key_size (pub_n rsa key)) (Err Rsa_InputTooLong)) (\<lambda>_.
     let expected = replicate (key_size (pub_n rsa key) - length input) 0 @ input in
     bindR (public_operation rsa key signature) (\<lambda>recovered.
     if recovered = expected then Inr () else Inl (Err Rsa_InvalidSignature)))"

definition pkcs1v15_encoded_payload :: "nat \<Rightarrow> bytes \<Rightarrow> bytes rsa_result" where
  "pkcs1v15_encoded_payload modulus_size payload =
     bindR (rejectR (length payload > modulus_size - 11) (Err Rsa_InputTooLong)) (\<lambda>_.
     bindR (usize_sub modulus_size (length payload)) (\<lambda>n.
     bindR (usize_sub n 1) (\<lambda>n.
     Inr (resize n 0xff [0, 1] @ [0] @ payload))))"

definition rsa_sign_pkcs1v15_payload :: "('k, 'p) rsa_crate \<Rightarrow> 'k \<Rightarrow> bytes \<Rightarrow> bytes rsa_result" where
  "rsa_sign_pkcs1v15_payload rsa key payload =
     bindR (pkcs1v15_encoded_payload (key_size (priv_n rsa key)) payload) (private_operation rsa key)"

definition rsa_verify_pkcs1v15_payload :: "('k, 'p) rsa_crate \<Rightarrow> 'p \<Rightarrow> bytes \<Rightarrow> bytes \<Rightarrow> unit rsa_result" where
  "rsa_verify_pkcs1v15_payload rsa key payload signature =
     bindR (pkcs1v15_encoded_payload (key_size (pub_n rsa key)) payload) (\<lambda>expected.
     bindR (public_operation rsa key signature) (\<lambda>recovered.
     if recovered = expected then Inr () else Inl (Err Rsa_InvalidSignature)))"

definition digest_info :: "HashAlgorithm \<Rightarrow> bytes \<Rightarrow> bytes rsa_result" where
  "digest_info hash dig =
     bindR (rejectR (length dig \<noteq> output_length hash) (Err Rsa_InvalidDigestLength)) (\<lambda>_.
     Inr (digest_info_prefix hash @ dig))"

definition rsa_sign_pkcs1v15_digest :: "('k, 'p) rsa_crate \<Rightarrow> 'k \<Rightarrow> HashAlgorithm \<Rightarrow> bytes \<Rightarrow> bytes rsa_result" where
  "rsa_sign_pkcs1v15_digest rsa key hash dig = bindR (digest_info hash dig) (rsa_sign_pkcs1v15_payload rsa key)"

definition rsa_verify_pkcs1v15_digest ::
  "('k, 'p) rsa_crate \<Rightarrow> 'p \<Rightarrow> HashAlgorithm \<Rightarrow> bytes \<Rightarrow> bytes \<Rightarrow> unit rsa_result" where
  "rsa_verify_pkcs1v15_digest rsa key hash dig signature =
     bindR (digest_info hash dig) (\<lambda>payload. rsa_verify_pkcs1v15_payload rsa key payload signature)"

definition rsa_mgf1 :: "('h, 'd) hash_crates \<Rightarrow> bytes \<Rightarrow> nat \<Rightarrow> HashAlgorithm \<Rightarrow> bytes rsa_result" where
  "rsa_mgf1 crates seed len hash = map_errR (\<lambda>_. Err Rsa_InputTooLong) (mgf1 crates hash seed len)"

text \<open>The scan for the first zero byte, on the pair of \<open>found\<close> and \<open>separator\<close>.\<close>

definition unpad_scan :: "nat \<times> byte \<Rightarrow> bool \<times> nat \<Rightarrow> bool \<times> nat" where
  "unpad_scan entry st =
     (case entry of (index, value) \<Rightarrow> case st of (found, separator) \<Rightarrow>
        let is_separator = (value = 0);
            use_index = (\<not> found \<and> is_separator);
            separator = (if use_index then index + 2 else separator);
            found = (found \<or> is_separator)
        in (found, separator))"

definition rsa_pkcs1v15_unpad :: "bytes \<Rightarrow> bytes rsa_result" where
  "rsa_pkcs1v15_unpad encoded =
     bindR (rejectR (length encoded < 11) (Err Rsa_OperationFailed)) (\<lambda>_.
     let valid = (encoded ! 0 = 0 \<and> encoded ! 1 = 2);
         (found, separator) = fold unpad_scan (enumerate 0 (drop 2 encoded)) (False, 0);
         valid = (valid \<and> found \<and> separator > 9)
     in bindR (rejectR (\<not> valid) (Err Rsa_OperationFailed)) (\<lambda>_.
        Inr (drop (separator + 1) encoded)))"

text \<open>
  \<open>while *byte == 0 { fill(byte)? }\<close> draws until the byte is not zero. It need not end, so the
  loop is a partial function: \<open>None\<close> is a loop that does not return.
\<close>

partial_function (option) nonzero_byte ::
  "(nat \<Rightarrow> ('s, 'g, bytes) op) \<Rightarrow> 's \<Rightarrow> (byte rsa_result \<times> 's) option" where
  "nonzero_byte fill s =
     (case fill 1 s of
        (Inl _, s') \<Rightarrow> Some (Inl (Err Rsa_RandomnessUnavailable), s')
      | (Inr bs, s') \<Rightarrow> if hd bs = 0 then nonzero_byte fill s' else Some (Inr (hd bs), s'))"

fun nonzero_padding :: "(nat \<Rightarrow> ('s, 'g, bytes) op) \<Rightarrow> nat \<Rightarrow> 's \<Rightarrow> (bytes rsa_result \<times> 's) option" where
  "nonzero_padding fill 0 s = Some (Inr [], s)"
| "nonzero_padding fill (Suc n) s =
     (case nonzero_byte fill s of
        None \<Rightarrow> None
      | Some (Inl e, s') \<Rightarrow> Some (Inl e, s')
      | Some (Inr b, s') \<Rightarrow>
          (case nonzero_padding fill n s' of
             None \<Rightarrow> None
           | Some (Inl e, s'') \<Rightarrow> Some (Inl e, s'')
           | Some (Inr bs, s'') \<Rightarrow> Some (Inr (b # bs), s'')))"

definition rsa_pkcs1v15_pad ::
  "(nat \<Rightarrow> ('s, 'g, bytes) op) \<Rightarrow> bytes \<Rightarrow> nat \<Rightarrow> 's \<Rightarrow> (bytes rsa_result \<times> 's) option" where
  "rsa_pkcs1v15_pad fill plaintext modulus_size s =
     (if length plaintext > modulus_size - 11 then Some (Inl (Err Rsa_InputTooLong), s)
      else case bindR (usize_sub modulus_size (length plaintext)) (\<lambda>n. usize_sub n 3) of
             Inl e \<Rightarrow> Some (Inl e, s)
           | Inr padding_length \<Rightarrow>
               (case nonzero_padding fill padding_length s of
                  None \<Rightarrow> None
                | Some (Inl e, s') \<Rightarrow> Some (Inl e, s')
                | Some (Inr padding, s') \<Rightarrow> Some (Inr ([0, 2] @ padding @ [0] @ plaintext), s')))"

text \<open>Errors of the encoding inside an operation: a panic stays a panic.\<close>

definition map_fault :: "('e \<Rightarrow> 'f) \<Rightarrow> 'e fault \<Rightarrow> 'f fault" where
  "map_fault g x = (case x of Err e \<Rightarrow> Err (g e) | Panic \<Rightarrow> Panic)"

definition pkcs1v15_sign_with ::
  "nat \<Rightarrow> bytes \<Rightarrow> (bytes \<Rightarrow> ('s, 'e, bytes) op) \<Rightarrow> ('s, 'e AsymmetricConstructionError fault, bytes) op" where
  "pkcs1v15_sign_with modulus_size payload private_op =
     bindE (liftE (map_errR (map_fault Asym_Encoding) (pkcs1v15_encoded_payload modulus_size payload))) (\<lambda>encoded.
     bindE (map_errE (Err \<circ> Asym_Operation) (private_op encoded)) (\<lambda>output.
     bindE (rejectE (length output \<noteq> modulus_size) (Err Asym_InvalidOperationOutput)) (\<lambda>_.
     okE output)))"

text \<open>The separator scan of OAEP, on the triple of \<open>valid\<close>, \<open>looking\<close> and \<open>separator\<close>.\<close>

definition oaep_scan :: "nat \<times> byte \<Rightarrow> bool \<times> bool \<times> nat \<Rightarrow> bool \<times> bool \<times> nat" where
  "oaep_scan entry st =
     (case entry of (index, value) \<Rightarrow> case st of (valid, looking, separator) \<Rightarrow>
        let is_zero = (value = 0);
            is_one = (value = 1);
            sel = (looking \<and> is_one);
            separator = (if sel then index else separator);
            valid = (valid \<and> \<not> (looking \<and> \<not> is_zero \<and> \<not> is_one));
            looking = (looking \<and> \<not> is_one)
        in (valid, looking, separator))"

definition rsa_oaep_unpad_digest :: "('h, 'd) hash_crates \<Rightarrow> bytes \<Rightarrow> bytes \<Rightarrow> HashAlgorithm \<Rightarrow> bytes rsa_result" where
  "rsa_oaep_unpad_digest crates encoded label_digest mgf_hash =
     (let hash_length = length label_digest in
      bindR (rejectR (length encoded < 2 * hash_length + 2 \<or> hash_length = 0) (Err Rsa_OperationFailed)) (\<lambda>_.
      let masked_seed = take hash_length (drop 1 encoded);
          masked_db = drop hash_length (drop 1 encoded) in
      bindR (rsa_mgf1 crates masked_db hash_length mgf_hash) (\<lambda>seed_mask.
      let seed = xor_bytes masked_seed seed_mask in
      bindR (rsa_mgf1 crates seed (length masked_db) mgf_hash) (\<lambda>db_mask.
      let db = xor_bytes masked_db db_mask;
          valid = (encoded ! 0 = 0 \<and> take hash_length db = label_digest);
          rest = drop hash_length db;
          (valid, looking, separator) = fold oaep_scan (enumerate 0 rest) (valid, True, 0);
          valid = (valid \<and> \<not> looking)
      in bindR (rejectR (\<not> valid) (Err Rsa_OperationFailed)) (\<lambda>_.
         Inr (drop (separator + 1) rest))))))"

definition rsa_oaep_pad_digest ::
  "('h, 'd) hash_crates \<Rightarrow> (nat \<Rightarrow> ('s, 'g, bytes) op) \<Rightarrow> bytes \<Rightarrow> nat \<Rightarrow> bytes \<Rightarrow> HashAlgorithm
     \<Rightarrow> ('s, RsaConstructionError fault, bytes) op" where
  "rsa_oaep_pad_digest crates fill input modulus_size label_digest mgf_hash =
     (let hash_length = length label_digest in
      bindE (rejectE (hash_length = 0 \<or> length input > modulus_size - (2 * hash_length + 2)) (Err Rsa_InputTooLong)) (\<lambda>_.
      bindE (liftE (bindR (usize_sub modulus_size hash_length) (\<lambda>n.
                    bindR (usize_sub n (length input)) (\<lambda>n. usize_sub n 2)))) (\<lambda>n.
      let db = resize n 0 label_digest @ [1] @ input in
      bindE (map_errE (\<lambda>_. Err Rsa_RandomnessUnavailable) (fill hash_length)) (\<lambda>seed.
      bindE (liftE (rsa_mgf1 crates seed (length db) mgf_hash)) (\<lambda>db_mask.
      let db = xor_into db db_mask in
      bindE (liftE (rsa_mgf1 crates db (length seed) mgf_hash)) (\<lambda>seed_mask.
      let seed = xor_into seed seed_mask
      in okE ([0] @ seed @ db)))))))"

definition oaep_encrypt_with ::
  "('h, 'd) hash_crates \<Rightarrow> (nat \<Rightarrow> ('s, 'g, bytes) op) \<Rightarrow> nat \<Rightarrow> bytes \<Rightarrow> bytes \<Rightarrow> HashAlgorithm
     \<Rightarrow> (bytes \<Rightarrow> ('s, 'e, bytes) op) \<Rightarrow> ('s, 'e AsymmetricConstructionError fault, bytes) op" where
  "oaep_encrypt_with crates fill modulus_size plaintext label_digest mgf_hash public_op =
     bindE (map_errE (map_fault Asym_Encoding)
              (rsa_oaep_pad_digest crates fill plaintext modulus_size label_digest mgf_hash)) (\<lambda>encoded.
     bindE (map_errE (Err \<circ> Asym_Operation) (public_op encoded)) (\<lambda>output.
     bindE (rejectE (length output \<noteq> modulus_size) (Err Asym_InvalidOperationOutput)) (\<lambda>_.
     okE output)))"

definition oaep_decrypt_with ::
  "('h, 'd) hash_crates \<Rightarrow> nat \<Rightarrow> bytes \<Rightarrow> bytes \<Rightarrow> HashAlgorithm
     \<Rightarrow> (bytes \<Rightarrow> ('s, 'e, bytes) op) \<Rightarrow> ('s, 'e AsymmetricConstructionError fault, bytes) op" where
  "oaep_decrypt_with crates modulus_size ciphertext label_digest mgf_hash private_op =
     bindE (map_errE (Err \<circ> Asym_Operation) (private_op ciphertext)) (\<lambda>encoded.
     bindE (rejectE (length encoded \<noteq> modulus_size) (Err Asym_InvalidOperationOutput)) (\<lambda>_.
     liftE (map_errR (map_fault Asym_Encoding) (rsa_oaep_unpad_digest crates encoded label_digest mgf_hash))))"

definition pkcs1v15_decrypt_with ::
  "nat \<Rightarrow> bytes \<Rightarrow> (bytes \<Rightarrow> ('s, 'e, bytes) op) \<Rightarrow> ('s, 'e AsymmetricConstructionError fault, bytes) op" where
  "pkcs1v15_decrypt_with modulus_size ciphertext private_op =
     bindE (map_errE (Err \<circ> Asym_Operation) (private_op ciphertext)) (\<lambda>encoded.
     bindE (rejectE (length encoded \<noteq> modulus_size) (Err Asym_InvalidOperationOutput)) (\<lambda>_.
     liftE (map_errR (map_fault Asym_Encoding) (rsa_pkcs1v15_unpad encoded))))"

definition rsa_decrypt_pkcs1v15 :: "('k, 'p) rsa_crate \<Rightarrow> 'k \<Rightarrow> bytes \<Rightarrow> bytes rsa_result" where
  "rsa_decrypt_pkcs1v15 rsa key ciphertext =
     bindR (rejectR (length ciphertext \<noteq> key_size (priv_n rsa key)) (Err Rsa_InputTooLong)) (\<lambda>_.
     ok_orR (Err Rsa_OperationFailed) (decrypt_blinded_pkcs1v15 rsa key ciphertext))"

definition rsa_encrypt_pkcs1v15 ::
  "('k, 'p) rsa_crate \<Rightarrow> (nat \<Rightarrow> ('s, 'g, bytes) op) \<Rightarrow> 'p \<Rightarrow> bytes \<Rightarrow> 's \<Rightarrow> (bytes rsa_result \<times> 's) option" where
  "rsa_encrypt_pkcs1v15 rsa fill key plaintext s =
     (case rsa_pkcs1v15_pad fill plaintext (key_size (pub_n rsa key)) s of
        None \<Rightarrow> None
      | Some (r, s') \<Rightarrow> Some (bindR r (public_operation rsa key), s'))"

definition rsa_decrypt_oaep_digest ::
  "('k, 'p) rsa_crate \<Rightarrow> ('h, 'd) hash_crates \<Rightarrow> 'k \<Rightarrow> bytes \<Rightarrow> bytes \<Rightarrow> HashAlgorithm \<Rightarrow> bytes rsa_result" where
  "rsa_decrypt_oaep_digest rsa crates key ciphertext label_digest mgf_hash =
     bindR (rejectR (length ciphertext \<noteq> key_size (priv_n rsa key) \<or> length label_digest \<notin> {20, 28, 32, 48, 64})
              (Err Rsa_InputTooLong)) (\<lambda>_.
     bindR (private_operation rsa key ciphertext) (\<lambda>encoded.
     rsa_oaep_unpad_digest crates encoded label_digest mgf_hash))"

definition rsa_encrypt_oaep_digest ::
  "('k, 'p) rsa_crate \<Rightarrow> ('h, 'd) hash_crates \<Rightarrow> (nat \<Rightarrow> ('s, 'g, bytes) op) \<Rightarrow> 'p \<Rightarrow> bytes \<Rightarrow> bytes \<Rightarrow> HashAlgorithm
     \<Rightarrow> ('s, RsaConstructionError fault, bytes) op" where
  "rsa_encrypt_oaep_digest rsa crates fill key plaintext label_digest mgf_hash =
     bindE (rejectE (length label_digest \<notin> {20, 28, 32, 48, 64}) (Err Rsa_InvalidDigestLength)) (\<lambda>_.
     bindE (rsa_oaep_pad_digest crates fill plaintext (key_size (pub_n rsa key)) label_digest mgf_hash) (\<lambda>encoded.
     liftE (public_operation rsa key encoded)))"

definition pss_encoded_digest ::
  "('h, 'd) hash_crates \<Rightarrow> (nat \<Rightarrow> ('s, 'g, bytes) op) \<Rightarrow> nat \<Rightarrow> RsaPssParameters \<Rightarrow> bytes
     \<Rightarrow> ('s, RsaConstructionError fault, bytes) op" where
  "pss_encoded_digest crates fill modulus_bits parameters dig =
     bindE (rejectE (length dig \<noteq> output_length (pss_hash parameters)) (Err Rsa_InvalidDigestLength)) (\<lambda>_.
     bindE (ok_orE (Err Rsa_InvalidKey) (checked_sub modulus_bits 1)) (\<lambda>em_bits.
     let em_len = div_ceil em_bits 8;
         hash_length = output_length (pss_hash parameters) in
     bindE (liftE (bindR (usize_add hash_length (pss_salt_length parameters)) (\<lambda>n. usize_add n 2))) (\<lambda>needed.
     bindE (rejectE (em_len < needed) (Err Rsa_InputTooLong)) (\<lambda>_.
     bindE (map_errE (\<lambda>_. Err Rsa_RandomnessUnavailable) (fill (pss_salt_length parameters))) (\<lambda>salt.
     let m_prime = replicate 8 0 @ dig @ salt;
         h = digest crates (pss_hash parameters) m_prime;
         db = replicate (em_len - pss_salt_length parameters - hash_length - 2) 0 @ [1] @ salt in
     bindE (liftE (rsa_mgf1 crates h (length db) (pss_mgf_hash parameters))) (\<lambda>mask.
     let db = xor_into db mask;
         db = db[0 := db ! 0 AND drop_bit (8 * em_len - em_bits) 0xff]
     in okE (db @ h @ [0xbc])))))))"

definition pss_sign_with ::
  "('h, 'd) hash_crates \<Rightarrow> (nat \<Rightarrow> ('s, 'g, bytes) op) \<Rightarrow> nat \<Rightarrow> RsaPssParameters \<Rightarrow> bytes
     \<Rightarrow> (bytes \<Rightarrow> ('s, 'e, bytes) op) \<Rightarrow> ('s, 'e AsymmetricConstructionError fault, bytes) op" where
  "pss_sign_with crates fill modulus_bits parameters dig private_op =
     bindE (map_errE (map_fault Asym_Encoding) (pss_encoded_digest crates fill modulus_bits parameters dig)) (\<lambda>encoded.
     bindE (map_errE (Err \<circ> Asym_Operation) (private_op encoded)) (\<lambda>output.
     bindE (rejectE (length output \<noteq> div_ceil modulus_bits 8) (Err Asym_InvalidOperationOutput)) (\<lambda>_.
     okE output)))"

definition rsa_sign_pss_digest ::
  "('k, 'p) rsa_crate \<Rightarrow> ('h, 'd) hash_crates \<Rightarrow> (nat \<Rightarrow> ('s, 'g, bytes) op) \<Rightarrow> 'k \<Rightarrow> RsaPssParameters \<Rightarrow> bytes
     \<Rightarrow> ('s, RsaConstructionError fault, bytes) op" where
  "rsa_sign_pss_digest rsa crates fill key parameters dig =
     bindE (pss_encoded_digest crates fill (nat_bits (priv_n rsa key)) parameters dig) (\<lambda>encoded.
     liftE (private_operation rsa key encoded))"

definition verify_pss_encoded_digest ::
  "('h, 'd) hash_crates \<Rightarrow> bytes \<Rightarrow> nat \<Rightarrow> RsaPssParameters \<Rightarrow> bytes \<Rightarrow> unit rsa_result" where
  "verify_pss_encoded_digest crates encoded modulus_bits parameters dig =
     bindR (rejectR (length dig \<noteq> output_length (pss_hash parameters)) (Err Rsa_InvalidDigestLength)) (\<lambda>_.
     bindR (ok_orR (Err Rsa_InvalidKey) (checked_sub modulus_bits 1)) (\<lambda>em_bits.
     let em_len = div_ceil em_bits 8 in
     bindR (ok_orR (Err Rsa_InvalidSignature) (checked_sub (length encoded) em_len)) (\<lambda>prefix_length.
     bindR (rejectR (\<exists>b \<in> set (take prefix_length encoded). b \<noteq> 0) (Err Rsa_InvalidSignature)) (\<lambda>_.
     let encoded = drop prefix_length encoded;
         hash_length = output_length (pss_hash parameters) in
     bindR (bindR (usize_add hash_length (pss_salt_length parameters)) (\<lambda>n. usize_add n 2)) (\<lambda>needed.
     bindR (rejectR (length encoded < needed \<or> encoded = [] \<or> last encoded \<noteq> 0xbc) (Err Rsa_InvalidSignature)) (\<lambda>_.
     let h_offset = length encoded - hash_length - 1;
         masked_db = take h_offset encoded;
         h = slice_range h_offset (h_offset + hash_length) encoded;
         unused_bits = 8 * em_len - em_bits in
     bindR (rejectR (unused_bits \<noteq> 0 \<and> masked_db \<noteq> [] \<and> hd masked_db AND push_bit (8 - unused_bits) 0xff \<noteq> 0)
              (Err Rsa_InvalidSignature)) (\<lambda>_.
     bindR (rsa_mgf1 crates h (length masked_db) (pss_mgf_hash parameters)) (\<lambda>mask.
     let db = xor_into masked_db mask;
         db = db[0 := db ! 0 AND drop_bit unused_bits 0xff] in
     bindR (ok_orR (Err Rsa_InvalidSignature) (checked_sub (length db) (pss_salt_length parameters + 1))) (\<lambda>separator.
     bindR (rejectR (\<not> (separator < length db \<and> db ! separator = 1) \<or> (\<exists>b \<in> set (take separator db). b \<noteq> 0))
              (Err Rsa_InvalidSignature)) (\<lambda>_.
     let m_prime = replicate 8 0 @ dig @ drop (separator + 1) db
     in if digest crates (pss_hash parameters) m_prime = h then Inr () else Inl (Err Rsa_InvalidSignature)))))))))))"

definition rsa_verify_pss_digest ::
  "('k, 'p) rsa_crate \<Rightarrow> ('h, 'd) hash_crates \<Rightarrow> 'p \<Rightarrow> RsaPssParameters \<Rightarrow> bytes \<Rightarrow> bytes \<Rightarrow> unit rsa_result" where
  "rsa_verify_pss_digest rsa crates key parameters dig signature =
     bindR (public_operation rsa key signature) (\<lambda>recovered.
     verify_pss_encoded_digest crates recovered (nat_bits (pub_n rsa key)) parameters dig)"



section \<open>PKCS \#1 v1.5 encryption padding\<close>

lemma unpad_scan_found: "fold unpad_scan (enumerate k xs) (True, sep) = (True, sep)"
  by (induction xs arbitrary: k) (simp_all add: unpad_scan_def)

lemma unpad_scan_first:
  "0 \<notin> set ps \<Longrightarrow> fold unpad_scan (enumerate k (ps @ 0 # m)) (False, sep) = (True, k + length ps + 2)"
  by (induction ps arbitrary: k sep) (simp_all add: unpad_scan_def unpad_scan_found)

lemma unpad_scan_none: "0 \<notin> set xs \<Longrightarrow> fold unpad_scan (enumerate k xs) (False, sep) = (False, sep)"
  by (induction xs arbitrary: k) (simp_all add: unpad_scan_def)

lemma pkcs1v15_unpad_iff:
  "rsa_pkcs1v15_unpad em = Inr m \<longleftrightarrow> (\<exists>ps. em = [0, 2] @ ps @ [0] @ m \<and> 8 \<le> length ps \<and> 0 \<notin> set ps)"
proof
  assume r: "rsa_pkcs1v15_unpad em = Inr m"
  let ?st = "fold unpad_scan (enumerate 0 (drop 2 em)) (False, 0)"
  have len: "11 \<le> length em"
    using r by (auto simp: rsa_pkcs1v15_unpad_def result_iffs)
  then obtain a b t where "em = a # b # t" by (cases em; cases "tl em") auto
  then have em: "em = em ! 0 # em ! 1 # drop 2 em" by simp
  obtain f sep where st: "?st = (f, sep)" by force
  have v: "em ! 0 = 0" "em ! 1 = 2" "f" "9 < sep" "m = drop (sep + 1) em"
    using r len st by (auto simp: rsa_pkcs1v15_unpad_def result_iffs Let_def)
  have "0 \<in> set (drop 2 em)" using unpad_scan_none [of "drop 2 em" 0 0] st v(3) by auto
  then obtain ps rest where ps: "drop 2 em = ps @ 0 # rest" "0 \<notin> set ps" by (metis split_list_first)
  then have "sep = length ps + 2" using unpad_scan_first [of ps 0 rest 0] st by simp
  moreover have "em = [0, 2] @ ps @ [0] @ rest" using em v(1,2) ps(1) by simp
  ultimately show "\<exists>ps. em = [0, 2] @ ps @ [0] @ m \<and> 8 \<le> length ps \<and> 0 \<notin> set ps"
    using v(4,5) ps(2) by (intro exI [of _ ps]) simp
next
  assume "\<exists>ps. em = [0, 2] @ ps @ [0] @ m \<and> 8 \<le> length ps \<and> 0 \<notin> set ps"
  then obtain ps where ps: "em = [0, 2] @ ps @ [0] @ m" "8 \<le> length ps" "0 \<notin> set ps" by blast
  have "drop 2 em = ps @ 0 # m" using ps(1) by simp
  then have "fold unpad_scan (enumerate 0 (drop 2 em)) (False, 0) = (True, length ps + 2)"
    using unpad_scan_first [OF ps(3), of 0 m 0] by simp
  then show "rsa_pkcs1v15_unpad em = Inr m"
    using ps by (simp add: rsa_pkcs1v15_unpad_def Let_def)
qed

text \<open>
  The random source from a state is good for one more byte when some draw fails or gives a byte
  other than zero.
\<close>

inductive draws_byte :: "(nat \<Rightarrow> ('s, 'g, bytes) op) \<Rightarrow> 's \<Rightarrow> bool" for fill where
  draw_error: "fill 1 s = (Inl e, s') \<Longrightarrow> draws_byte fill s"
| draw_byte: "fill 1 s = (Inr bs, s') \<Longrightarrow> hd bs \<noteq> 0 \<Longrightarrow> draws_byte fill s"
| draw_again: "fill 1 s = (Inr bs, s') \<Longrightarrow> hd bs = 0 \<Longrightarrow> draws_byte fill s' \<Longrightarrow> draws_byte fill s"

lemma nonzero_byte_returns: "draws_byte fill s \<Longrightarrow> \<exists>r s'. nonzero_byte fill s = Some (r, s')"
  by (induction rule: draws_byte.induct) (subst nonzero_byte.simps, simp)+

lemma nonzero_byte_value: "nonzero_byte fill s = Some (Inr b, s') \<Longrightarrow> b \<noteq> 0"
proof -
  have "\<forall>b s'. r = (Inr b, s') \<longrightarrow> b \<noteq> 0" if "nonzero_byte fill s = Some r" for r
    using that
  proof (rule nonzero_byte.raw_induct [rotated])
    fix nb :: "(nat \<Rightarrow> ('a, 'b, bytes) op) \<Rightarrow> 'a \<Rightarrow> (byte rsa_result \<times> 'a) option" and fill s r
    assume ih: "\<And>fill s r. nb fill s = Some r \<Longrightarrow> \<forall>b s'. r = (Inr b, s') \<longrightarrow> b \<noteq> 0"
      and r: "(case fill 1 s of (Inl x, s') \<Rightarrow> Some (Inl (Err Rsa_RandomnessUnavailable), s')
               | (Inr bs, s') \<Rightarrow> if hd bs = 0 then nb fill s' else Some (Inr (hd bs), s')) = Some r"
    obtain d s' where d: "fill 1 s = (d, s')" by force
    then show "\<forall>b s'. r = (Inr b, s') \<longrightarrow> b \<noteq> 0"
      using r ih by (cases d) (auto split: if_splits)
  qed
  then show "nonzero_byte fill s = Some (Inr b, s') \<Longrightarrow> b \<noteq> 0" by blast
qed

lemma nonzero_padding_value:
  "nonzero_padding fill n s = Some (Inr bs, s') \<Longrightarrow> length bs = n \<and> 0 \<notin> set bs"
proof (induction n arbitrary: s bs s')
  case (Suc n)
  obtain r t where r: "nonzero_byte fill s = Some (r, t)" using Suc.prems by (auto split: option.splits)
  obtain b where b: "r = Inr b" using Suc.prems r by (cases r) simp_all
  obtain q u where q: "nonzero_padding fill n t = Some (q, u)" using Suc.prems r b by (auto split: option.splits)
  obtain cs where cs: "q = Inr cs" using Suc.prems r b q by (cases q) simp_all
  have "bs = b # cs" using Suc.prems r b q cs by simp
  moreover have "b \<noteq> 0" using nonzero_byte_value r b by metis
  ultimately show ?case using Suc.IH q cs by auto
qed simp

lemma nonzero_padding_returns:
  "\<forall>s. draws_byte fill s \<Longrightarrow> \<exists>r s'. nonzero_padding fill n s = Some (r, s')"
proof (induction n arbitrary: s)
  case (Suc n)
  obtain r s' where r: "nonzero_byte fill s = Some (r, s')"
    using nonzero_byte_returns [OF spec [OF Suc.prems]] by blast
  show ?case
  proof (cases r)
    case (Inr b)
    obtain q s'' where "nonzero_padding fill n s' = Some (q, s'')" using Suc.IH [OF Suc.prems, of s'] by blast
    then show ?thesis using r Inr by (cases q) simp_all
  qed (simp add: r)
qed simp



section \<open>OAEP\<close>

text \<open>The mask as a function, for lengths within the limit of MGF1.\<close>

definition mgf_mask :: "('h, 'd) hash_crates \<Rightarrow> HashAlgorithm \<Rightarrow> bytes \<Rightarrow> nat \<Rightarrow> bytes" where
  "mgf_mask crates alg seed l = expand_blocks (mgf1_block crates alg seed) (output_length alg) 0 l"

lemma rsa_mgf1_eq:
  assumes "l \<le> 2 ^ 32"
  shows "rsa_mgf1 crates seed l alg = Inr (mgf_mask crates alg seed l)"
proof -
  have "l \<le> 2 ^ 32 * output_length alg" using assms output_length_bounds(3) [of alg] by (simp add: le_trans)
  then show ?thesis
    by (simp add: rsa_mgf1_def mgf1_eq mgf_mask_def div_ceil_le_iff [OF output_length_bounds(3)])
qed

lemma length_mask: "hash_ok crates \<Longrightarrow> length (mgf_mask crates alg seed l) = l"
  using mgf1.length_expand [of "(crates, alg, seed)" 0 l] by (simp add: mgf_mask_def)

text \<open>Reference encoding: seed and data block mask each other.\<close>

definition oaep_encode ::
  "('h, 'd) hash_crates \<Rightarrow> HashAlgorithm \<Rightarrow> bytes \<Rightarrow> nat \<Rightarrow> bytes \<Rightarrow> bytes \<Rightarrow> bytes" where
  "oaep_encode crates alg label k seed m =
     (let db = label @ replicate (k - 2 * length label - length m - 2) 0 @ 1 # m;
          mdb = xor_bytes db (mgf_mask crates alg seed (length db));
          mseed = xor_bytes seed (mgf_mask crates alg mdb (length seed))
      in 0 # mseed @ mdb)"

lemma oaep_scan_done: "fold oaep_scan (enumerate k xs) (v, False, sep) = (v, False, sep)"
  by (induction xs arbitrary: k) (simp_all add: oaep_scan_def)

lemma oaep_scan_ok:
  "fold oaep_scan (enumerate k (replicate z 0 @ 1 # m)) (v, True, sep) = (v, False, k + z)"
  by (induction z arbitrary: k) (simp_all add: oaep_scan_def oaep_scan_done)

lemma oaep_scan_invalid: "\<not> fst (fold oaep_scan (enumerate k xs) (False, st))"
  by (induction xs arbitrary: k st) (simp_all add: oaep_scan_def split_beta Let_def)

lemma oaep_scan_step:
  "oaep_scan (k, x) (v, True, sep) = (v \<and> (x = 0 \<or> x = 1), x \<noteq> 1, if x = 1 then k else sep)"
  by (auto simp: oaep_scan_def Let_def)

lemma oaep_scan_accepts:
  assumes "fold oaep_scan (enumerate k xs) (v, True, sep) = (True, False, s)"
  shows "\<exists>z m. v \<and> xs = replicate z 0 @ 1 # m"
  using assms
proof (induction xs arbitrary: k v sep)
  case (Cons x xs)
  have v: v using Cons.prems oaep_scan_invalid [of k "x # xs" "(True, sep)"] by (cases v) auto
  consider "x = 0" | "x = 1" | "x \<noteq> 0 \<and> x \<noteq> 1" by blast
  then show ?case
  proof cases
    case 1
    then have "fold oaep_scan (enumerate (Suc k) xs) (v, True, sep) = (True, False, s)"
      using Cons.prems by (simp add: oaep_scan_step)
    then obtain z m where "xs = replicate z 0 @ 1 # m" using Cons.IH by blast
    then have "x # xs = replicate (Suc z) 0 @ 1 # m" using 1 by simp
    then show ?thesis using v by blast
  next
    case 2
    then have "x # xs = replicate 0 0 @ 1 # xs" by simp
    then show ?thesis using v by blast
  next
    case 3
    then have "fold oaep_scan (enumerate (Suc k) xs) (False, True, sep) = (True, False, s)"
      using Cons.prems by (simp add: oaep_scan_step)
    then show ?thesis using oaep_scan_invalid [of "Suc k" xs "(True, sep)"] by simp
  qed
qed simp

lemma oaep_pad_returns:
  assumes ok: "hash_ok crates" and lens: "0 < length label" "length m + 2 * length label + 2 \<le> k" "k \<le> 2 ^ 32"
    and fill: "\<And>s. \<exists>s'. fill (length label) s = (Inr seed, s')" and seed: "length seed = length label"
  shows "returns (rsa_oaep_pad_digest crates fill m k label alg) (oaep_encode crates alg label k seed m)"
proof -
  let ?h = "length label" and ?n = "k - length label - length m - 2"
  let ?db = "label @ replicate (k - 2 * ?h - length m - 2) 0 @ 1 # m"
  have n: "bindR (usize_sub k ?h) (\<lambda>n. bindR (usize_sub n (length m)) (\<lambda>n. usize_sub n 2)) = (Inr ?n :: nat rsa_result)"
  proof -
    have "?h \<le> k" "length m \<le> k - ?h" "2 \<le> k - ?h - length m" using lens by linarith+
    then show ?thesis by (simp add: usize_sub_def)
  qed
  have db: "resize ?n 0 label @ [1] @ m = ?db"
    using lens by (simp add: resize_extend)
  have ldb: "length ?db \<le> 2 ^ 32" using lens by simp
  have lmdb: "length (xor_bytes ?db (mgf_mask crates alg seed (length ?db))) = length ?db"
    using length_mask [OF ok] by simp
  have sl: "length seed \<le> 2 ^ 32" using lens seed by simp
  have r: "returns (fill ?h) seed" using fill unfolding returns_def by (metis fst_conv)
  have x1: "xor_into ?db (mgf_mask crates alg seed (length ?db)) = xor_bytes ?db (mgf_mask crates alg seed (length ?db))"
    using length_mask [OF ok] by (simp add: xor_into_covered)
  have x2: "xor_into seed (mgf_mask crates alg d (length seed)) = xor_bytes seed (mgf_mask crates alg d (length seed))" for d
    using length_mask [OF ok] by (simp add: xor_into_covered)
  have g: "\<not> (?h = 0 \<or> length m > k - (2 * ?h + 2))" using lens by simp
  show ?thesis
    unfolding rsa_oaep_pad_digest_def Let_def
    by (simp only: g rejectE_simps bindE_okE n liftE_simps db,
        rule returns_bindE [OF returns_map_errE [OF r]],
        simp only: rsa_mgf1_eq [OF ldb] rsa_mgf1_eq [OF sl] liftE_simps bindE_okE x1 x2)
       (simp add: oaep_encode_def Let_def)
qed


text \<open>Unpadding recovers seed and data block, whatever they are.\<close>

lemma oaep_unpad_iff:
  assumes ok: "hash_ok crates" and h: "0 < length label" and em: "length em \<le> 2 ^ 32"
  shows "rsa_oaep_unpad_digest crates em label alg = Inr m \<longleftrightarrow>
    length m + 2 * length label + 2 \<le> length em
    \<and> (\<exists>seed. length seed = length label \<and> em = oaep_encode crates alg label (length em) seed m)"
proof -
  let ?h = "length label" and ?k = "length em"
  define ms mdb where "ms = take ?h (drop 1 em)" and "mdb = drop ?h (drop 1 em)"
  define seed where "seed = xor_bytes ms (mgf_mask crates alg mdb ?h)"
  define db where "db = xor_bytes mdb (mgf_mask crates alg seed (length mdb))"
  define rest where "rest = drop ?h db"
  have lm: "length (mgf_mask crates alg s l) = l" for s l using length_mask [OF ok] .
  have un: "rsa_oaep_unpad_digest crates em label alg = Inr m \<longleftrightarrow>
      2 * ?h + 2 \<le> ?k \<and> em ! 0 = 0 \<and> take ?h db = label \<and> (\<exists>z. rest = replicate z 0 @ 1 # m)"
  proof (cases "2 * ?h + 2 \<le> ?k")
    case True
    let ?v = "em ! 0 = 0 \<and> take ?h db = label"
    obtain v l s where st: "fold oaep_scan (enumerate 0 rest) (?v, True, 0) = (v, l, s)" by (cases "fold oaep_scan (enumerate 0 rest) (?v, True, 0)")
    have "length mdb \<le> 2 ^ 32" "?h \<le> 2 ^ 32" using em True by (simp_all add: mdb_def)
    note mg = rsa_mgf1_eq [OF this(1)] rsa_mgf1_eq [OF this(2)]
    have g: "\<not> (?k < 2 * ?h + 2 \<or> ?h = 0)" using True h by auto
    have "rsa_oaep_unpad_digest crates em label alg =
        bindR (rejectR (\<not> (v \<and> \<not> l)) (Err Rsa_OperationFailed)) (\<lambda>_. Inr (drop (s + 1) rest))"
      unfolding rsa_oaep_unpad_digest_def Let_def ms_def [symmetric] mdb_def [symmetric]
      by (simp only: g rejectR_simps bindR_simps mg seed_def [symmetric] db_def [symmetric] rest_def [symmetric] st prod.case)
    then have "rsa_oaep_unpad_digest crates em label alg = Inr m \<longleftrightarrow> v \<and> \<not> l \<and> m = drop (s + 1) rest"
      by (auto simp: result_iffs)
    also have "\<dots> \<longleftrightarrow> ?v \<and> (\<exists>z. rest = replicate z 0 @ 1 # m)"
    proof
      assume a: "v \<and> \<not> l \<and> m = drop (s + 1) rest"
      then obtain z m' where z: "?v" "rest = replicate z 0 @ 1 # m'"
        using oaep_scan_accepts [of 0 rest ?v 0 s] st by auto
      then have "s = z" using oaep_scan_ok [of 0 z m' ?v 0] st by simp
      then show "?v \<and> (\<exists>z. rest = replicate z 0 @ 1 # m)" using a z by auto
    next
      assume a: "?v \<and> (\<exists>z. rest = replicate z 0 @ 1 # m)"
      then obtain z where z: "rest = replicate z 0 @ 1 # m" by blast
      then have "(v, l, s) = (?v, False, z)" using oaep_scan_ok [of 0 z m ?v 0] st by simp
      then show "v \<and> \<not> l \<and> m = drop (s + 1) rest" using a z by simp
    qed
    finally show ?thesis using True by blast
  next
    case False
    then show ?thesis by (auto simp: rsa_oaep_unpad_digest_def Let_def)
  qed
  show ?thesis
  proof
    assume "rsa_oaep_unpad_digest crates em label alg = Inr m"
    then obtain z where z: "2 * ?h + 2 \<le> ?k" "em ! 0 = 0" "take ?h db = label" "rest = replicate z 0 @ 1 # m"
      using un by blast
    have e: "em = 0 # ms @ mdb" using z(1,2) by (cases em) (simp_all add: ms_def mdb_def)
    have l: "length ms = ?h" "length mdb = ?k - ?h - 1" "length seed = ?h" "length db = length mdb"
      using z(1) lm by (simp_all add: ms_def mdb_def seed_def db_def)
    have "db = label @ replicate z 0 @ 1 # m" using z(3,4) unfolding rest_def by (metis append_take_drop_id)
    moreover from this have zl: "?k - ?h - 1 = ?h + (z + Suc (length m))" using l(2,4) by simp
    then have "z = ?k - 2 * ?h - length m - 2" by simp
    ultimately have d: "db = label @ replicate (?k - 2 * ?h - length m - 2) 0 @ 1 # m" by simp
    have "xor_bytes db (mgf_mask crates alg seed (length db)) = mdb"
      unfolding l(4) unfolding db_def by (rule xor_bytes_involution) (simp add: lm)
    moreover have "xor_bytes seed (mgf_mask crates alg mdb (length seed)) = ms"
      unfolding l(3) unfolding seed_def by (rule xor_bytes_involution) (simp add: lm l(1))
    ultimately have "em = oaep_encode crates alg label ?k seed m"
      using e unfolding oaep_encode_def Let_def d [symmetric] by simp
    moreover have "length m + 2 * ?h + 2 \<le> ?k" using zl z(1) by simp
    ultimately show "length m + 2 * ?h + 2 \<le> ?k
        \<and> (\<exists>seed. length seed = ?h \<and> em = oaep_encode crates alg label ?k seed m)"
      using l(3) by blast
  next
    assume "length m + 2 * ?h + 2 \<le> ?k \<and> (\<exists>seed. length seed = ?h \<and> em = oaep_encode crates alg label ?k seed m)"
    then obtain sd where a: "length m + 2 * ?h + 2 \<le> ?k" "length sd = ?h" "em = oaep_encode crates alg label ?k sd m"
      by blast
    define d where "d = label @ replicate (?k - 2 * ?h - length m - 2) 0 @ 1 # m"
    define md where "md = xor_bytes d (mgf_mask crates alg sd (length d))"
    have e: "em = 0 # xor_bytes sd (mgf_mask crates alg md (length sd)) @ md"
      using a(3) by (simp add: oaep_encode_def Let_def d_def md_def)
    have "ms = xor_bytes sd (mgf_mask crates alg md (length sd))" "mdb = md"
      using e a(2) lm by (simp_all add: ms_def mdb_def)
    then have "seed = sd" unfolding seed_def a(2) [symmetric] by (simp add: xor_bytes_involution lm)
    then have "db = d" unfolding db_def \<open>mdb = md\<close> by (simp add: md_def lm xor_bytes_involution)
    then have "take ?h db = label" "rest = replicate (?k - 2 * ?h - length m - 2) 0 @ 1 # m"
      by (simp_all add: d_def rest_def)
    then show "rsa_oaep_unpad_digest crates em label alg = Inr m" using un e a(1) by auto
  qed
qed



section \<open>PSS\<close>

text \<open>Clearing the bits above the message length in the first byte.\<close>

definition clear_top :: "nat \<Rightarrow> bytes \<Rightarrow> bytes" where
  "clear_top u xs = xs[0 := xs ! 0 AND drop_bit u 0xff]"

definition pss_encode :: "('h, 'd) hash_crates \<Rightarrow> RsaPssParameters \<Rightarrow> nat \<Rightarrow> bytes \<Rightarrow> bytes \<Rightarrow> bytes" where
  "pss_encode crates p em_bits dig salt =
     (let em_len = div_ceil em_bits 8;
          h = digest crates (pss_hash p) (replicate 8 0 @ dig @ salt);
          db = replicate (em_len - length salt - output_length (pss_hash p) - 2) 0 @ 1 # salt
      in clear_top (8 * em_len - em_bits) (xor_bytes db (mgf_mask crates (pss_mgf_hash p) h (length db))) @ h @ [0xbc])"

lemma unused_bits_less: "8 * div_ceil em_bits 8 - em_bits < 8"
  using div_ceil_bounds [of 8 em_bits] by linarith

lemma top_bits_clear:
  assumes "u < 8"
  shows "\<not> (u \<noteq> 0 \<and> a AND push_bit (8 - u) 0xff \<noteq> (0 :: byte)) \<longleftrightarrow> a AND drop_bit u 0xff = a"
proof (cases "u = 0")
  case True
  have f: "(0xff :: byte) = - 1" by simp
  have "a AND 0xff = a" unfolding f by simp
  then show ?thesis using True by simp
next
  case False
  have "u \<in> {1, 2, 3, 4, 5, 6, 7}" using assms False by auto
  then have low: "drop_bit u 0xff = NOT (push_bit (8 - u) (0xff :: byte))" by auto
  have "a AND h = 0 \<longleftrightarrow> a AND NOT h = a" for h :: byte
    unfolding bit_eq_iff by (auto simp: bit_simps)
  then show ?thesis using False by (simp add: low)
qed

lemma low_bit_kept: "u < 8 \<Longrightarrow> (1 :: byte) AND drop_bit u 0xff = 1"
proof -
  assume "u < 8"
  then have "u \<in> {0, 1, 2, 3, 4, 5, 6, 7}" by auto
  then show ?thesis by auto
qed

lemma masked_byte:
  assumes "d AND low = (d :: byte)"
  shows "a AND low = a \<and> (a XOR k) AND low = d \<longleftrightarrow> a = (d XOR k) AND low"
proof
  assume "a AND low = a \<and> (a XOR k) AND low = d"
  then have a: "a AND low = a" and d: "d = (a XOR k) AND low" by simp_all
  show "a = (d XOR k) AND low"
    using arg_cong [OF a, of "\<lambda>w. bit w"] unfolding d fun_eq_iff by (intro bit_eqI) (auto simp: bit_simps)
next
  assume a: "a = (d XOR k) AND low"
  have "(a XOR k) AND low = d"
    using arg_cong [OF assms, of "\<lambda>w. bit w"] unfolding a fun_eq_iff by (intro bit_eqI) (auto simp: bit_simps)
  then show "a AND low = a \<and> (a XOR k) AND low = d" using a by (simp add: and.assoc)
qed

lemma clear_top_inverse:
  assumes "D \<noteq> []" "length M = length D" "length K = length D" "hd D AND drop_bit u 0xff = hd D"
  shows "hd M AND drop_bit u 0xff = hd M \<and> clear_top u (xor_bytes M K) = D \<longleftrightarrow> M = clear_top u (xor_bytes D K)"
proof -
  obtain d ds a ms k ks where c: "D = d # ds" "M = a # ms" "K = k # ks"
    using assms by (cases D; cases M; cases K) auto
  have len: "length ms = length ds" "length ks = length ds" using assms c by simp_all
  have "xor_bytes ms ks = ds \<longleftrightarrow> ms = xor_bytes ds ks"
    using xor_bytes_involution [of ms ks] xor_bytes_involution [of ds ks] len by (metis order_refl)
  moreover have "a AND drop_bit u 0xff = a \<and> (a XOR k) AND drop_bit u 0xff = d
      \<longleftrightarrow> a = (d XOR k) AND drop_bit u 0xff"
    using masked_byte [of d "drop_bit u 0xff" a k] assms(4) c by simp
  moreover have "clear_top u (xor_bytes M K) = ((a XOR k) AND drop_bit u 0xff) # xor_bytes ms ks"
    "clear_top u (xor_bytes D K) = ((d XOR k) AND drop_bit u 0xff) # xor_bytes ds ks"
    by (simp_all add: clear_top_def c)
  ultimately show ?thesis unfolding c list.sel by (metis list.inject)
qed

lemma length_clear_top [simp]: "length (clear_top u xs) = length xs"
  by (simp add: clear_top_def)

lemma length_pss_encode:
  assumes "hash_ok crates" "output_length (pss_hash p) + length salt + 2 \<le> div_ceil em_bits 8"
  shows "length (pss_encode crates p em_bits dig salt) = div_ceil em_bits 8"
  using assms length_mask [OF assms(1)] by (simp add: pss_encode_def Let_def digest_def hash_ok_def)

lemma salt_split:
  assumes "length db = n + 1 + l"
  shows "(db ! n = 1 \<and> (\<forall>b \<in> set (take n db). b = 0)) \<longleftrightarrow> db = replicate n 0 @ 1 # drop (n + 1) db"
proof -
  have d: "db = take n db @ db ! n # drop (n + 1) db" using assms by (simp add: id_take_nth_drop)
  have l: "length (take n db) = n" using assms by simp
  have z: "(\<forall>b \<in> set (take n db). b = 0) \<longleftrightarrow> take n db = replicate n 0"
    using l by (metis in_set_replicate replicate_length_same)
  have "db ! n = 1 \<and> take n db = replicate n 0" if e: "db = replicate n 0 @ 1 # drop (n + 1) db"
  proof -
    have "take n (replicate n 0 @ 1 # drop (n + 1) db) = replicate n 0"
      "(replicate n 0 @ 1 # drop (n + 1) db) ! n = 1" by (simp_all add: nth_append)
    then show ?thesis unfolding e [symmetric] by simp
  qed
  then show ?thesis using d z by metis
qed

text \<open>The checks after the hash and the masked data block are separated.\<close>

lemma verify_pss_body:
  assumes ok: "hash_ok crates" and dims: "length dig = output_length (pss_hash p)" "1 \<le> bits"
    and lens: "length h = output_length (pss_hash p)" "length M + output_length (pss_hash p) + 1 = div_ceil (bits - 1) 8"
      "pss_salt_length p + 1 \<le> length M" "div_ceil (bits - 1) 8 \<le> 2 ^ 32"
    and u: "u = 8 * div_ceil (bits - 1) 8 - (bits - 1)"
    and db: "db = clear_top u (xor_bytes M (mgf_mask crates (pss_mgf_hash p) h (length M)))"
    and sep: "n = length M - (pss_salt_length p + 1)"
  shows "verify_pss_encoded_digest crates (replicate z 0 @ M @ h @ [0xbc]) bits p dig = Inr () \<longleftrightarrow>
    hd M AND drop_bit u 0xff = hd M \<and> db = replicate n 0 @ 1 # drop (n + 1) db
    \<and> digest crates (pss_hash p) (replicate 8 0 @ dig @ drop (n + 1) db) = h"
proof -
  let ?hl = "output_length (pss_hash p)" and ?sl = "pss_salt_length p" and ?el = "div_ceil (bits - 1) 8"
  let ?enc = "replicate z 0 @ M @ h @ [0xbc]"
  have M: "M \<noteq> []" using lens by auto
  have "u < 8" unfolding u by (rule unused_bits_less)
  note top = top_bits_clear [OF this, of "hd M"]
  have len: "length ?enc = z + ?el" using lens by simp
  have sub: "checked_sub bits 1 = Some (bits - 1)" "checked_sub (length ?enc) ?el = Some z"
    using dims len by (simp_all add: checked_sub_def)
  have drop: "drop z ?enc = M @ h @ [0xbc]" "take z ?enc = replicate z 0" by simp_all
  have add: "bindR (usize_add ?hl ?sl) (\<lambda>n. usize_add n 2) = (Inr (?hl + ?sl + 2) :: nat rsa_result)"
    using lens by (simp add: usize_add_def usize_bound_def)
  have g1: "\<not> (length (M @ h @ [0xbc]) < ?hl + ?sl + 2 \<or> M @ h @ [0xbc] = [] \<or> last (M @ h @ [0xbc]) \<noteq> 0xbc)"
    using lens by simp
  have off: "length (M @ h @ [0xbc]) - ?hl - 1 = length M" using lens by simp
  have parts: "take (length M) (M @ h @ [0xbc]) = M" "slice_range (length M) (length M + ?hl) (M @ h @ [0xbc]) = h"
    using lens by (simp_all add: slice_range_def)
  have ml: "length M \<le> 2 ^ 32" using lens by simp
  have x: "xor_into M (mgf_mask crates a h (length M)) = xor_bytes M (mgf_mask crates a h (length M))" for a
    by (simp add: xor_into_covered length_mask [OF ok])
  have dl: "length db = length M" using length_mask [OF ok] by (simp add: db)
  have sub2: "checked_sub (length db) (?sl + 1) = Some n" using lens dl sep by (simp add: checked_sub_def)
  have nl: "n < length db" "length db = n + 1 + ?sl" using lens dl sep by simp_all
  have "verify_pss_encoded_digest crates ?enc bits p dig =
     bindR (rejectR (u \<noteq> 0 \<and> M \<noteq> [] \<and> hd M AND push_bit (8 - u) 0xff \<noteq> 0) (Err Rsa_InvalidSignature)) (\<lambda>_.
     bindR (rejectR (\<not> (n < length db \<and> db ! n = 1) \<or> (\<exists>b \<in> set (take n db). b \<noteq> 0)) (Err Rsa_InvalidSignature)) (\<lambda>_.
     if digest crates (pss_hash p) (replicate 8 0 @ dig @ drop (n + 1) db) = h then Inr () else Inl (Err Rsa_InvalidSignature)))"
    unfolding verify_pss_encoded_digest_def Let_def
    by (simp only: dims(1) sub ok_orR_simps bindR_simps rejectR_simps simp_thms drop add g1 off parts rsa_mgf1_eq [OF ml] x
        clear_top_def [symmetric] u [symmetric] db [symmetric] sub2) simp
  then show ?thesis
    using M top nl(1) salt_split [OF nl(2)]
    by (auto simp: result_iffs split: if_splits)
qed

text \<open>Accepted encodings have the shape the body lemma speaks of.\<close>

lemma verify_pss_shape:
  assumes "verify_pss_encoded_digest crates enc bits p dig = Inr ()"
  obtains z M h where "enc = replicate z 0 @ M @ h @ [0xbc]" "length h = output_length (pss_hash p)"
    "length M + output_length (pss_hash p) + 1 = div_ceil (bits - 1) 8" "pss_salt_length p + 1 \<le> length M"
    "length dig = output_length (pss_hash p)" "1 \<le> bits"
proof -
  let ?hl = "output_length (pss_hash p)" and ?sl = "pss_salt_length p" and ?el = "div_ceil (bits - 1) 8"
  have d: "length dig = ?hl" "1 \<le> bits" "?el \<le> length enc"
    using assms by (auto simp: verify_pss_encoded_digest_def result_iffs checked_sub_def Let_def split: if_splits)
  let ?z = "length enc - ?el"
  let ?e = "drop ?z enc"
  have s: "checked_sub bits 1 = Some (bits - 1)" "checked_sub (length enc) ?el = Some ?z"
    using d by (simp_all add: checked_sub_def)
  have r: "\<not> (\<exists>b \<in> set (take ?z enc). b \<noteq> 0)" "?hl + ?sl + 2 \<le> length ?e" "?e \<noteq> []" "last ?e = 0xbc"
    using assms d(1) s
    by (auto simp: verify_pss_encoded_digest_def result_iffs usize_add_def Let_def split: if_splits)
  let ?M = "take (?el - ?hl - 1) ?e" and ?h = "take ?hl (drop (?el - ?hl - 1) ?e)"
  have el: "length ?e = ?el" using d(3) by simp
  have "length (take ?z enc) = ?z" by simp
  then have "take ?z enc = replicate ?z 0"
    using r(1) replicate_length_same [of "take ?z enc" 0] by simp
  moreover have "?e = ?M @ ?h @ [0xbc]"
  proof -
    have "butlast ?e = ?M @ ?h"
    proof -
      have "butlast ?e = take (?el - 1) ?e" using el by (simp add: butlast_conv_take)
      also have "\<dots> = take (?el - ?hl - 1 + ?hl) ?e" using r(2) el by simp
      also have "\<dots> = ?M @ ?h" by (rule take_add)
      finally show ?thesis .
    qed
    then show ?thesis using append_butlast_last_id [OF r(3)] r(4) by simp
  qed
  ultimately have "enc = replicate ?z 0 @ ?M @ ?h @ [0xbc]" by (metis append_take_drop_id)
  then show ?thesis using r(2) el d by (intro that [of ?z ?M ?h]) auto
qed

lemma pss_db_head:
  assumes "length salt + output_length (pss_hash p) + 2 \<le> div_ceil em_bits 8"
  shows "hd (replicate n 0 @ 1 # salt) AND drop_bit (8 * div_ceil em_bits 8 - em_bits) 0xff = hd (replicate n 0 @ 1 # salt :: bytes)"
  using low_bit_kept [OF unused_bits_less] by (cases n) simp_all

lemma verify_pss_iff:
  assumes ok: "hash_ok crates" and small: "div_ceil (bits - 1) 8 \<le> 2 ^ 32"
  shows "verify_pss_encoded_digest crates enc bits p dig = Inr () \<longleftrightarrow>
    length dig = output_length (pss_hash p) \<and> 1 \<le> bits
    \<and> output_length (pss_hash p) + pss_salt_length p + 2 \<le> div_ceil (bits - 1) 8
    \<and> (\<exists>z salt. length salt = pss_salt_length p \<and> enc = replicate z 0 @ pss_encode crates p (bits - 1) dig salt)"
    (is "?L \<longleftrightarrow> ?R")
proof -
  let ?hl = "output_length (pss_hash p)" and ?sl = "pss_salt_length p" and ?el = "div_ceil (bits - 1) 8"
  let ?u = "8 * ?el - (bits - 1)"
  let ?K = "\<lambda>h n. mgf_mask crates (pss_mgf_hash p) h n"
  have lm: "length (?K h n) = n" for h n using length_mask [OF ok] .
  show ?thesis
  proof
    assume L: ?L
    from verify_pss_shape [OF L] obtain z M h where e: "enc = replicate z 0 @ M @ h @ [0xbc]" "length h = ?hl"
      "length M + ?hl + 1 = ?el" "?sl + 1 \<le> length M" "length dig = ?hl" "1 \<le> bits" by blast
    define n where "n = length M - (?sl + 1)"
    define db where "db = clear_top ?u (xor_bytes M (?K h (length M)))"
    define salt where "salt = drop (n + 1) db"
    note body = verify_pss_body [OF ok e(5,6,2,3,4) small refl db_def n_def, of z]
    then have b: "hd M AND drop_bit ?u 0xff = hd M" "db = replicate n 0 @ 1 # salt"
      "digest crates (pss_hash p) (replicate 8 0 @ dig @ salt) = h"
      using L unfolding e(1) salt_def by blast+
    have dl: "length db = length M" using lm by (simp add: db_def)
    then have sl: "length salt = ?sl" using e(4) by (simp add: salt_def n_def)
    have n: "n = ?el - length salt - ?hl - 2" using e(3,4) sl unfolding n_def by linarith
    have "M = clear_top ?u (xor_bytes (replicate n 0 @ 1 # salt) (?K h (length M)))"
      using clear_top_inverse [of "replicate n 0 @ 1 # salt" M "?K h (length M)" ?u]
        pss_db_head [of salt p "bits - 1" n] b(1,2) db_def dl lm e(3,4) sl by simp
    moreover have "length M = length (replicate n 0 @ 1 # salt)" using dl b(2) by simp
    ultimately have "M @ h @ [0xbc] = pss_encode crates p (bits - 1) dig salt"
      unfolding pss_encode_def Let_def b(3) n [symmetric] by simp
    then show ?R using e sl by auto
  next
    assume ?R
    then obtain z salt where r: "length dig = ?hl" "1 \<le> bits" "?hl + ?sl + 2 \<le> ?el" "length salt = ?sl"
      "enc = replicate z 0 @ pss_encode crates p (bits - 1) dig salt" by blast
    define h where "h = digest crates (pss_hash p) (replicate 8 0 @ dig @ salt)"
    define n where "n = ?el - length salt - ?hl - 2"
    define D where "D = replicate n 0 @ 1 # salt"
    define M where "M = clear_top ?u (xor_bytes D (?K h (length D)))"
    have hl: "length h = ?hl" using ok by (simp add: h_def digest_def hash_ok_def)
    have ml: "length M = length D" "length D = n + 1 + ?sl" using lm r(4) by (simp_all add: M_def D_def)
    have M: "length M + ?hl + 1 = ?el" "?sl + 1 \<le> length M" "n = length M - (?sl + 1)"
      using ml r(3,4) n_def by linarith+
    have enc: "enc = replicate z 0 @ M @ h @ [0xbc]"
      using r(5) by (simp add: pss_encode_def Let_def h_def n_def D_def M_def)
    have "hd M AND drop_bit ?u 0xff = hd M" "clear_top ?u (xor_bytes M (?K h (length M))) = D"
      using clear_top_inverse [of D M "?K h (length M)" ?u] pss_db_head [of salt p "bits - 1" n] r(3,4) ml lm
      unfolding M_def [symmetric] by (simp_all add: D_def [symmetric] M_def [symmetric]) (simp_all add: M_def D_def)
    then show ?L
      unfolding enc verify_pss_body [OF ok r(1,2) hl M(1,2) small refl refl M(3)]
      by (simp add: D_def h_def)
  qed
qed

lemma pss_encoded_returns:
  assumes ok: "hash_ok crates" and dims: "length dig = output_length (pss_hash p)" "1 \<le> bits"
      "output_length (pss_hash p) + pss_salt_length p + 2 \<le> div_ceil (bits - 1) 8" "div_ceil (bits - 1) 8 \<le> 2 ^ 32"
    and fill: "\<And>s. \<exists>s'. fill (pss_salt_length p) s = (Inr salt, s')" and salt: "length salt = pss_salt_length p"
  shows "returns (pss_encoded_digest crates fill bits p dig) (pss_encode crates p (bits - 1) dig salt)"
proof -
  let ?hl = "output_length (pss_hash p)" and ?sl = "pss_salt_length p" and ?el = "div_ceil (bits - 1) 8"
  let ?db = "replicate (?el - ?sl - ?hl - 2) 0 @ [1] @ salt"
  have sub: "checked_sub bits 1 = Some (bits - 1)" using dims by (simp add: checked_sub_def)
  have add: "bindR (usize_add ?hl ?sl) (\<lambda>n. usize_add n 2) = (Inr (?hl + ?sl + 2) :: nat rsa_result)"
    using dims by (simp add: usize_add_def usize_bound_def)
  have g: "\<not> ?el < ?hl + ?sl + 2" using dims by simp
  have r: "returns (fill ?sl) salt" using fill unfolding returns_def by (metis fst_conv)
  have "length ?db \<le> 2 ^ 32" using dims salt by simp
  note mg = rsa_mgf1_eq [OF this]
  have x: "xor_into ?db (mgf_mask crates a h (length ?db)) = xor_bytes ?db (mgf_mask crates a h (length ?db))" for a h
    by (simp add: xor_into_covered length_mask [OF ok])
  show ?thesis
    unfolding pss_encoded_digest_def Let_def
    by (simp only: dims(1) sub simp_thms rejectE_simps bindE_okE ok_orE_simps add liftE_simps g,
        rule returns_bindE [OF returns_map_errE [OF r]],
        simp only: mg liftE_simps bindE_okE x clear_top_def [symmetric])
       (simp add: pss_encode_def Let_def salt)
qed


section \<open>The RSA operations\<close>

lemma nat_bits_le_iff: "nat_bits v \<le> k \<longleftrightarrow> v < 2 ^ k"
proof (induction v arbitrary: k rule: nat_bits.induct)
  case (1 v)
  show ?case
  proof (cases "v = 0")
    case False
    then have b: "nat_bits v = Suc (nat_bits (v div 2))" by (subst nat_bits.simps) simp
    show ?thesis
    proof (cases k)
      case (Suc j)
      then show ?thesis using 1 [OF False, of j] b by (simp add: div_less_iff_less_mult mult.commute)
    qed (use False b in simp)
  qed (simp add: nat_bits.simps)
qed

lemma pow256: "(256 :: nat) ^ k = 2 ^ (k * 8)"
  by (simp add: power_mult mult.commute [of k])

lemma be_nat_to_bytes_be: "be_nat (to_bytes_be v) = v"
proof (cases "v = 0")
  case False
  have "nat_bits v \<le> div_ceil (nat_bits v) 8 * 8" by (rule div_ceil_bounds) simp
  then have "v < 2 ^ (div_ceil (nat_bits v) 8 * 8)" by (simp only: nat_bits_le_iff)
  then have "v < 256 ^ div_ceil (nat_bits v) 8" by (simp only: pow256)
  then show ?thesis using False by (simp add: to_bytes_be_def be_nat_be_bytes)
qed (simp add: to_bytes_be_def be_nat_def)

lemma key_size_bounds:
  assumes "0 < n"
  shows "n < 256 ^ key_size n" "256 ^ (key_size n - 1) \<le> n" "0 < key_size n"
proof -
  have b: "nat_bits n \<le> key_size n * 8" unfolding key_size_def by (rule div_ceil_bounds) simp
  then show "n < 256 ^ key_size n" by (simp only: nat_bits_le_iff pow256)
  have pos: "0 < nat_bits n" using assms by (subst nat_bits.simps) simp
  then show "0 < key_size n" using b by (cases "key_size n") simp_all
  have "key_size n * 8 < nat_bits n + 8" unfolding key_size_def by (rule div_ceil_bounds) simp
  then have "\<not> nat_bits n \<le> (key_size n - 1) * 8" using \<open>0 < key_size n\<close> by (simp add: diff_mult_distrib)
  then show "256 ^ (key_size n - 1) \<le> n" by (simp only: nat_bits_le_iff pow256 not_less)
qed

lemma leading_zeros_be:
  assumes "v < 256 ^ j" "j \<le> k"
  shows "replicate (k - j) 0 @ be_bytes j v = be_bytes k v"
proof -
  have "be_nat (replicate (k - j) 0 @ be_bytes j v) = v" using assms(1) by (simp add: be_nat_leading_zeros be_nat_be_bytes)
  moreover have "length (replicate (k - j) 0 @ be_bytes j v) = k" using assms(2) by simp
  ultimately show ?thesis using be_bytes_be_nat [of "replicate (k - j) 0 @ be_bytes j v"] by metis
qed

lemma left_pad_be:
  assumes "v < 256 ^ k" "0 < k"
  shows "left_pad (to_bytes_be v) k = Inr (be_bytes k v)"
proof -
  let ?j = "if v = 0 then 1 else div_ceil (nat_bits v) 8"
  have t: "to_bytes_be v = be_bytes ?j v" by (simp add: to_bytes_be_def)
  have j: "?j \<le> k"
    using assms by (auto simp: div_ceil_le_iff nat_bits_le_iff simp flip: pow256)
  have "v < 256 ^ ?j"
  proof (cases "v = 0")
    case False
    have "nat_bits v \<le> div_ceil (nat_bits v) 8 * 8" by (rule div_ceil_bounds) simp
    then show ?thesis using False by (simp add: nat_bits_le_iff pow256)
  qed simp
  then have "replicate (k - ?j) 0 @ be_bytes ?j v = be_bytes k v" using j by (rule leading_zeros_be)
  then show ?thesis using j by (simp add: left_pad_def t copy_at_def)
qed

text \<open>What the \<open>rsa\<close> crate promises of a matching key pair: the operations invert each other.\<close>

definition rsa_pair_ok :: "('k, 'p) rsa_crate \<Rightarrow> 'k \<Rightarrow> 'p \<Rightarrow> bool" where
  "rsa_pair_ok rsa k p \<longleftrightarrow> 0 < priv_n rsa k \<and> priv_n rsa k = pub_n rsa p
     \<and> (\<forall>m < priv_n rsa k. \<exists>c < priv_n rsa k. rsa_decrypt_and_check rsa k m = Some c \<and> rsa_encrypt rsa p c = Some m)
     \<and> (\<forall>m < priv_n rsa k. \<exists>c < priv_n rsa k. rsa_encrypt rsa p m = Some c \<and> rsa_decrypt_and_check rsa k c = Some m)"

lemma sign_then_open:
  assumes pair: "rsa_pair_ok rsa k p" and em: "length em \<le> key_size (priv_n rsa k)" "be_nat em < priv_n rsa k"
  shows "\<exists>s. private_operation rsa k em = Inr s \<and> length s = key_size (priv_n rsa k)
    \<and> public_operation rsa p s = Inr (replicate (key_size (priv_n rsa k) - length em) 0 @ em)"
proof -
  let ?n = "priv_n rsa k" and ?l = "key_size (priv_n rsa k)"
  have n: "0 < ?n" "pub_n rsa p = ?n" using pair by (simp_all add: rsa_pair_ok_def)
  obtain c where c: "c < ?n" "rsa_decrypt_and_check rsa k (be_nat em) = Some c" "rsa_encrypt rsa p c = Some (be_nat em)"
    using pair em(2) unfolding rsa_pair_ok_def by blast
  have fits: "v < 256 ^ ?l" if "v < ?n" for v using key_size_bounds(1) [OF n(1)] that by simp
  have pos: "0 < ?l" by (rule key_size_bounds(3) [OF n(1)])
  have p1: "private_operation rsa k em = Inr (be_bytes ?l c)"
    using em c(2) left_pad_be [OF fits [OF c(1)] pos] by (simp add: private_operation_def Let_def)
  have b: "be_nat (be_bytes ?l c) = c" using fits [OF c(1)] by (simp add: be_nat_be_bytes)
  have "public_operation rsa p (be_bytes ?l c) = Inr (be_bytes ?l (be_nat em))"
    using c n(2) b left_pad_be [OF fits [OF em(2)] pos] by (simp add: public_operation_def Let_def)
  moreover have "be_bytes ?l (be_nat em) = replicate (?l - length em) 0 @ em"
    using leading_zeros_be [OF be_nat_bound em(1)] by (simp add: be_bytes_be_nat)
  ultimately show ?thesis using p1 by simp
qed

lemma be_nat_zero_head: "be_nat (0 # bs) < 256 ^ length bs"
  using be_nat_bound [of bs] by (simp add: be_nat_Cons)


text \<open>Encodings of full length that start with a zero byte are below the modulus.\<close>

lemma zero_head_in_range:
  assumes "0 < n" "length (0 # bs) = key_size n"
  shows "be_nat (0 # bs) < n"
proof -
  have "length bs = key_size n - 1" using assms(2) by simp
  then show ?thesis using be_nat_zero_head [of bs] key_size_bounds(2) [OF assms(1)] by simp
qed

lemma pkcs1v15_encoded_form:
  assumes "length payload + 11 \<le> k"
  shows "pkcs1v15_encoded_payload k payload =
    Inr (0 # 1 # replicate (k - length payload - 3) 0xff @ 0 # payload)"
proof -
  have n: "2 \<le> k - length payload - 1" "length payload \<le> k" "1 \<le> k - length payload" using assms by linarith+
  then have "resize (k - length payload - 1) 0xff [0, 1] = [0, 1] @ replicate (k - length payload - 1 - 2) (0xff :: byte)"
    by (simp add: resize_extend)
  moreover have "\<not> length payload > k - 11" "k - length payload - 1 - 2 = k - length payload - 3" using assms by simp_all
  ultimately show ?thesis using n by (simp add: pkcs1v15_encoded_payload_def usize_sub_def)
qed

lemma clear_top_bound:
  assumes "xs \<noteq> []" "u < 8"
  shows "be_nat (clear_top u xs) < 2 ^ (8 * length xs - u)"
proof -
  obtain a t where xs: "xs = a # t" using assms(1) by (cases xs) auto
  have "unat (a AND drop_bit u 0xff) \<le> unat (drop_bit u 0xff :: byte)"
    by (metis word_and_le1 word_le_nat_alt)
  also have "\<dots> < 2 ^ (8 - u)"
  proof -
    have "u \<in> {0, 1, 2, 3, 4, 5, 6, 7}" using assms(2) by auto
    then show ?thesis by auto
  qed
  finally have h: "unat (a AND drop_bit u 0xff) + 1 \<le> 2 ^ (8 - u)" by simp
  have "be_nat (clear_top u xs) < (unat (a AND drop_bit u 0xff) + 1) * 256 ^ length t"
    using be_nat_bound [of t] by (simp add: clear_top_def xs be_nat_Cons)
  also have "\<dots> \<le> 2 ^ (8 - u) * 256 ^ length t" using h by (intro mult_le_mono1)
  also have "\<dots> = 2 ^ (8 * length xs - u)"
    using assms(2) by (simp add: xs pow256 power_add [symmetric] mult.commute)
  finally show ?thesis .
qed

lemma pss_encode_in_range:
  assumes ok: "hash_ok crates" and len: "output_length (pss_hash p) + length salt + 2 \<le> div_ceil em_bits 8"
  shows "be_nat (pss_encode crates p em_bits dig salt) < 2 ^ em_bits"
proof -
  let ?el = "div_ceil em_bits 8"
  let ?u = "8 * ?el - em_bits"
  let ?h = "digest crates (pss_hash p) (replicate 8 0 @ dig @ salt)"
  define db where "db = replicate (?el - length salt - output_length (pss_hash p) - 2) 0 @ 1 # salt"
  define x where "x = xor_bytes db (mgf_mask crates (pss_mgf_hash p) ?h (length db))"
  have x: "x \<noteq> []" using length_mask [OF ok, of "pss_mgf_hash p" ?h "length db"] by (auto simp: x_def db_def simp flip: length_0_conv)
  have e: "pss_encode crates p em_bits dig salt = clear_top ?u (x @ ?h @ [0xbc])"
  proof -
    have "pss_encode crates p em_bits dig salt = clear_top ?u x @ ?h @ [0xbc]"
      unfolding pss_encode_def Let_def db_def [symmetric] x_def [symmetric] ..
    then show ?thesis using x by (simp add: clear_top_def list_update_append1 nth_append)
  qed
  have "length (x @ ?h @ [0xbc]) = ?el" using length_pss_encode [OF ok len, of dig] unfolding e by simp
  moreover have "8 * ?el - ?u = em_bits" using div_ceil_bounds(1) [of 8 em_bits] by simp
  ultimately show ?thesis
    using clear_top_bound [of "x @ ?h @ [0xbc]" ?u] unused_bits_less [of em_bits] unfolding e by simp
qed

lemma nat_bits_lower: "0 < n \<Longrightarrow> 2 ^ (nat_bits n - 1) \<le> n"
proof -
  assume "0 < n"
  then have "0 < nat_bits n" by (subst nat_bits.simps) simp
  then have "\<not> nat_bits n \<le> nat_bits n - 1" by simp
  then show ?thesis by (simp only: nat_bits_le_iff not_less)
qed



section \<open>Properties\<close>

text \<open>
  C11: RSAES-PKCS1-v1\_5 padding. Unpadding accepts exactly \<open>00 02\<close>, at least eight bytes other than
  zero, \<open>00\<close> and the message, and returns the message. For a modulus of 11 bytes or more, whatever
  padding returns has the modulus length and unpads to the plaintext; and padding does return,
  unless the random source gives zeros forever.
\<close>

theorem pkcs1v15_padding_exact:
  shows "(rsa_pkcs1v15_unpad em = Inr m \<longleftrightarrow> (\<exists>ps. em = [0, 2] @ ps @ [0] @ m \<and> 8 \<le> length ps \<and> 0 \<notin> set ps))
       \<and> (11 \<le> k \<and> rsa_pkcs1v15_pad fill x k s = Some (Inr y, s') \<longrightarrow> length y = k \<and> rsa_pkcs1v15_unpad y = Inr x)
       \<and> ((\<forall>s. draws_byte fill s) \<longrightarrow> (\<exists>r s'. rsa_pkcs1v15_pad fill x k s = Some (r, s')))"
proof -
  have "length y = k \<and> rsa_pkcs1v15_unpad y = Inr x"
    if k: "11 \<le> k" and pad: "rsa_pkcs1v15_pad fill x k s = Some (Inr y, s')"
  proof -
    have len: "length x + 11 \<le> k" using pad k by (cases "length x > k - 11") (auto simp: rsa_pkcs1v15_pad_def)
    have "3 \<le> k - length x" "length x \<le> k" "\<not> length x > k - 11" using len by linarith+
    then have eq: "rsa_pkcs1v15_pad fill x k s =
        (case nonzero_padding fill (k - length x - 3) s of None \<Rightarrow> None
         | Some (Inl e, s') \<Rightarrow> Some (Inl e, s')
         | Some (Inr padding, s') \<Rightarrow> Some (Inr ([0, 2] @ padding @ [0] @ x), s'))"
      by (simp add: rsa_pkcs1v15_pad_def usize_sub_def)
    obtain r t where r: "nonzero_padding fill (k - length x - 3) s = Some (r, t)"
      using pad unfolding eq by (cases "nonzero_padding fill (k - length x - 3) s") auto
    obtain ps where ps: "r = Inr ps" using pad unfolding eq r by (cases r) simp_all
    have y: "y = [0, 2] @ ps @ [0] @ x" using pad unfolding eq r ps by simp
    have "length ps = k - length x - 3" "0 \<notin> set ps"
      using nonzero_padding_value [OF r [unfolded ps]] by simp_all
    then show ?thesis using y len by (auto simp: pkcs1v15_unpad_iff)
  qed
  moreover have "\<exists>r s'. rsa_pkcs1v15_pad fill x k s = Some (r, s')" if d: "\<forall>s. draws_byte fill s"
  proof (cases "bindR (usize_sub k (length x)) (\<lambda>n. usize_sub n 3) :: nat rsa_result")
    case (Inl e)
    then show ?thesis by (simp add: rsa_pkcs1v15_pad_def)
  next
    case (Inr n)
    obtain r t where "nonzero_padding fill n s = Some (r, t)" using nonzero_padding_returns [OF d] by blast
    then show ?thesis using Inr by (cases r) (simp_all add: rsa_pkcs1v15_pad_def)
  qed
  ultimately show ?thesis using pkcs1v15_unpad_iff by blast
qed

definition counter_fill :: "nat \<Rightarrow> (nat, unit, bytes) op" where
  "counter_fill n = (\<lambda>s. (Inr (replicate n (word_of_nat (s mod 3))), s + 1))"

theorem pkcs1v15_padding_exact_witness:
  "\<exists>r s'. rsa_pkcs1v15_pad counter_fill [1, 2, 3] 16 0 = Some (r, s')"
proof -
  have "draws_byte counter_fill s" for s
  proof (cases "s mod 3 = 0")
    case True
    have "hd (replicate 1 (word_of_nat ((s + 1) mod 3) :: byte)) \<noteq> 0" using True by (simp add: mod_Suc)
    then have "draws_byte counter_fill (s + 1)"
      by (intro draw_byte [of counter_fill "s + 1" "replicate 1 (word_of_nat ((s + 1) mod 3))" "s + 2"])
         (simp_all add: counter_fill_def)
    then show ?thesis using True
      by (intro draw_again [of counter_fill s "[0]" "s + 1"]) (simp_all add: counter_fill_def)
  next
    case False
    then have "s mod 3 = 1 \<or> s mod 3 = 2" by linarith
    then show ?thesis
      by (intro draw_byte [of counter_fill s "[word_of_nat (s mod 3)]" "s + 1"]) (auto simp: counter_fill_def)
  qed
  then show ?thesis using pkcs1v15_padding_exact [of "[]" "[]" 16 counter_fill "[1, 2, 3]" 0] by blast
qed

text \<open>
  C10: OAEP is exact. For every seed the random source gives, padding returns the reference
  encoding; and unpadding returns \<open>m\<close> if and only if the input is the encoding of \<open>m\<close> under some
  seed of the label's length, with room for two digests: the separator search, the label check and
  the leading zero admit nothing else.
\<close>

theorem oaep_exact:
  assumes "hash_ok crates" "0 < length label" "k \<le> 2 ^ 32"
  shows "(length m + 2 * length label + 2 \<le> k \<and> length seed = length label
             \<and> (\<forall>s. \<exists>s'. fill (length label) s = (Inr seed, s'))
           \<longrightarrow> returns (rsa_oaep_pad_digest crates fill m k label alg) (oaep_encode crates alg label k seed m))
       \<and> (length em = k \<longrightarrow>
           (rsa_oaep_unpad_digest crates em label alg = Inr m \<longleftrightarrow>
             length m + 2 * length label + 2 \<le> k
             \<and> (\<exists>seed. length seed = length label \<and> em = oaep_encode crates alg label k seed m)))"
proof -
  have "returns (rsa_oaep_pad_digest crates fill m k label alg) (oaep_encode crates alg label k seed m)"
    if "length m + 2 * length label + 2 \<le> k" "length seed = length label"
      "\<forall>s. \<exists>s'. fill (length label) s = (Inr seed, s')"
    using that by (intro oaep_pad_returns assms) simp_all
  moreover have "rsa_oaep_unpad_digest crates em label alg = Inr m \<longleftrightarrow>
      length m + 2 * length label + 2 \<le> k
      \<and> (\<exists>seed. length seed = length label \<and> em = oaep_encode crates alg label k seed m)" if "length em = k"
    using oaep_unpad_iff [OF assms(1,2), of em alg m] assms(3) that by simp
  ultimately show ?thesis by blast
qed

theorem oaep_exact_witness:
  "rsa_oaep_unpad_digest sample_hashes (oaep_encode sample_hashes Sha1 [9, 9] 12 [4, 5] [1, 2, 3]) [9, 9] Sha1 = Inr [1, 2, 3]"
proof -
  let ?e = "oaep_encode sample_hashes Sha1 [9, 9] 12 [4, 5] [1, 2, 3]"
  have l: "length ?e = 12" by (simp add: oaep_encode_def Let_def length_mask [OF hash_ok_sample])
  have "length [1, 2, 3 :: byte] + 2 * length [9, 9 :: byte] + 2 \<le> 12" "length [4, 5 :: byte] = length [9, 9 :: byte]" by simp_all
  then show ?thesis using oaep_exact [OF hash_ok_sample, of "[9, 9]" 12 "[1, 2, 3]" "[4, 5]" counter_fill Sha1 ?e] l by fastforce
qed


text \<open>
  C9: PSS verification is exact. It accepts an encoded message if and only if the digest has the
  right size, the modulus has room for hash and salt, and the message is, after any number of
  leading zero bytes, the PSS encoding of that digest under some salt of the agreed length; so
  every encoding the signer produces is accepted and nothing else is.
\<close>

theorem pss_exact:
  assumes "hash_ok crates" "div_ceil (bits - 1) 8 \<le> 2 ^ 32"
  shows "(verify_pss_encoded_digest crates enc bits p dig = Inr () \<longleftrightarrow>
            length dig = output_length (pss_hash p) \<and> 1 \<le> bits
            \<and> output_length (pss_hash p) + pss_salt_length p + 2 \<le> div_ceil (bits - 1) 8
            \<and> (\<exists>z salt. length salt = pss_salt_length p
                 \<and> enc = replicate z 0 @ pss_encode crates p (bits - 1) dig salt))
       \<and> (length dig = output_length (pss_hash p) \<and> 1 \<le> bits
            \<and> output_length (pss_hash p) + pss_salt_length p + 2 \<le> div_ceil (bits - 1) 8
            \<and> length salt = pss_salt_length p \<and> (\<forall>s. \<exists>s'. fill (pss_salt_length p) s = (Inr salt, s'))
          \<longrightarrow> returns (pss_encoded_digest crates fill bits p dig) (pss_encode crates p (bits - 1) dig salt)
            \<and> be_nat (pss_encode crates p (bits - 1) dig salt) < 2 ^ (bits - 1))"
proof -
  have "returns (pss_encoded_digest crates fill bits p dig) (pss_encode crates p (bits - 1) dig salt)
      \<and> be_nat (pss_encode crates p (bits - 1) dig salt) < 2 ^ (bits - 1)"
    if "length dig = output_length (pss_hash p)" "1 \<le> bits"
      "output_length (pss_hash p) + pss_salt_length p + 2 \<le> div_ceil (bits - 1) 8"
      "length salt = pss_salt_length p" "\<forall>s. \<exists>s'. fill (pss_salt_length p) s = (Inr salt, s')"
    using that assms(2)
    by (intro conjI pss_encoded_returns [OF assms(1)] pss_encode_in_range [OF assms(1)]) simp_all
  then show ?thesis using verify_pss_iff [OF assms] by blast
qed

definition sample_pss :: RsaPssParameters where
  "sample_pss = \<lparr>pss_hash = Sha1, pss_mgf_hash = Sha256, pss_salt_length = 2\<rparr>"

theorem pss_exact_witness:
  "verify_pss_encoded_digest sample_hashes (replicate 1 0 @ pss_encode sample_hashes sample_pss 200 (replicate 20 7) [1, 2])
     201 sample_pss (replicate 20 7) = Inr ()"
proof -
  have d: "div_ceil (201 - 1) 8 \<le> 2 ^ 32" "div_ceil 200 8 = 25" "(201 :: nat) - 1 = 200" by (simp_all add: div_ceil_def)
  have "length [1, 2 :: byte] = pss_salt_length sample_pss" "length (replicate 20 (7 :: byte)) = output_length (pss_hash sample_pss)"
    "output_length (pss_hash sample_pss) + pss_salt_length sample_pss + 2 \<le> 25" by (simp_all add: sample_pss_def)
  then show ?thesis
    using pss_exact [OF hash_ok_sample d(1), THEN conjunct1, unfolded d(3) d(2)] by fastforce
qed

text \<open>
  Signing and verifying agree. With a matching key pair and a modulus large enough for the
  encoding, signing a digest returns a signature of the modulus length that verifies, for
  PKCS \#1 v1.5 and, whatever salt the random source gives, for PSS.
\<close>

theorem rsa_sign_verify:
  assumes pair: "rsa_pair_ok rsa key pub" and "hash_ok crates" "priv_n rsa key = n" "key_size n \<le> 2 ^ 32"
  shows "(length dig = output_length hash \<and> length (digest_info_prefix hash) + length dig + 11 \<le> key_size n \<longrightarrow>
           (\<exists>s. rsa_sign_pkcs1v15_digest rsa key hash dig = Inr s \<and> length s = key_size n
              \<and> rsa_verify_pkcs1v15_digest rsa pub hash dig s = Inr ()))
       \<and> (length dig = output_length (pss_hash p) \<and> output_length (pss_hash p) + pss_salt_length p + 2 \<le> div_ceil (nat_bits n - 1) 8
            \<and> length salt = pss_salt_length p \<and> (\<forall>s. \<exists>s'. fill (pss_salt_length p) s = (Inr salt, s')) \<longrightarrow>
           (\<exists>s. returns (rsa_sign_pss_digest rsa crates fill key p dig) s \<and> length s = key_size n
              \<and> rsa_verify_pss_digest rsa crates pub p dig s = Inr ()))"
proof -
  have n: "0 < n" "pub_n rsa pub = n" using pair assms(3) by (simp_all add: rsa_pair_ok_def)
  note open_sig = sign_then_open [OF pair, unfolded assms(3)]
  have "\<exists>s. rsa_sign_pkcs1v15_digest rsa key hash dig = Inr s \<and> length s = key_size n
      \<and> rsa_verify_pkcs1v15_digest rsa pub hash dig s = Inr ()"
    if d: "length dig = output_length hash" "length (digest_info_prefix hash) + length dig + 11 \<le> key_size n"
  proof -
    let ?pl = "digest_info_prefix hash @ dig"
    let ?t = "1 # replicate (key_size n - length ?pl - 3) 0xff @ 0 # ?pl"
    have i: "digest_info hash dig = Inr ?pl" using d(1) by (simp add: digest_info_def)
    have e: "pkcs1v15_encoded_payload (key_size n) ?pl = Inr (0 # ?t)"
      using pkcs1v15_encoded_form [of ?pl "key_size n"] d(2) by simp
    define em where "em = 0 # ?t"
    have l: "length (0 # ?t) = key_size n" using d(2) by simp
    then have "length em = key_size n" "be_nat em < n" using zero_head_in_range [OF n(1) l] by (simp_all only: em_def)
    then obtain s where s: "private_operation rsa key em = Inr s" "length s = key_size n"
      "public_operation rsa pub s = Inr em"
      using open_sig [of em] by auto
    then show ?thesis using i e [folded em_def] n assms(3)
      by (simp add: rsa_sign_pkcs1v15_digest_def rsa_verify_pkcs1v15_digest_def rsa_sign_pkcs1v15_payload_def
          rsa_verify_pkcs1v15_payload_def)
  qed
  moreover have "\<exists>s. returns (rsa_sign_pss_digest rsa crates fill key p dig) s \<and> length s = key_size n
      \<and> rsa_verify_pss_digest rsa crates pub p dig s = Inr ()"
    if d: "length dig = output_length (pss_hash p)" "output_length (pss_hash p) + pss_salt_length p + 2 \<le> div_ceil (nat_bits n - 1) 8"
      "length salt = pss_salt_length p" "\<forall>s. \<exists>s'. fill (pss_salt_length p) s = (Inr salt, s')"
  proof -
    let ?em = "pss_encode crates p (nat_bits n - 1) dig salt"
    have el: "div_ceil (nat_bits n - 1) 8 \<le> key_size n" unfolding key_size_def by (rule div_ceil_mono) simp_all
    then have small: "div_ceil (nat_bits n - 1) 8 \<le> 2 ^ 32" using assms(4) by simp
    have b: "1 \<le> nat_bits n" using n(1) by (subst nat_bits.simps) simp
    have enc: "returns (pss_encoded_digest crates fill (nat_bits n) p dig) ?em"
      using d b small by (intro pss_encoded_returns [OF assms(2)]) simp_all
    have len: "length ?em = div_ceil (nat_bits n - 1) 8" using d by (intro length_pss_encode [OF assms(2)]) simp
    have "be_nat ?em < 2 ^ (nat_bits n - 1)" using d by (intro pss_encode_in_range [OF assms(2)]) simp
    then have lt: "be_nat ?em < n" using nat_bits_lower [OF n(1)] by (rule less_le_trans)
    obtain s where s: "private_operation rsa key ?em = Inr s" "length s = key_size n"
      "public_operation rsa pub s = Inr (replicate (key_size n - length ?em) 0 @ ?em)"
      using open_sig [of ?em] lt len el by auto
    have "returns (rsa_sign_pss_digest rsa crates fill key p dig) s"
      unfolding rsa_sign_pss_digest_def assms(3) by (rule returns_bindE [OF enc]) (simp only: s(1) liftE_simps returns_okE)
    moreover have "verify_pss_encoded_digest crates (replicate (key_size n - length ?em) 0 @ ?em) (nat_bits n) p dig = Inr ()"
      unfolding verify_pss_iff [OF assms(2) small] using d b by blast
    ultimately show ?thesis using s n(2) by (auto simp: rsa_verify_pss_digest_def)
  qed
  ultimately show ?thesis by blast
qed

text \<open>The identity permutation stands for the key pair.\<close>

definition sample_rsa :: "(nat, nat) rsa_crate" where
  "sample_rsa = \<lparr>priv_n = \<lambda>k. k, pub_n = \<lambda>p. p, rsa_decrypt_and_check = \<lambda>k m. Some (k - 1 - m),
     rsa_encrypt = \<lambda>p m. Some (p - 1 - m), decrypt_blinded_pkcs1v15 = \<lambda>k c. None\<rparr>"

theorem rsa_sign_verify_witness:
  "\<exists>s. rsa_sign_pkcs1v15_digest sample_rsa (2 ^ 800) Sha1 (replicate 20 7) = Inr s
     \<and> rsa_verify_pkcs1v15_digest sample_rsa (2 ^ 800) Sha1 (replicate 20 7) s = Inr ()"
proof -
  define n :: nat where "n = 2 ^ 800"
  have n: "0 < n" "n < 2 ^ 801" "\<not> n < 2 ^ 800" by (simp_all add: n_def)
  have pair: "rsa_pair_ok sample_rsa n n"
    using n(1) unfolding rsa_pair_ok_def sample_rsa_def by auto
  have "nat_bits n \<le> 801" "\<not> nat_bits n \<le> 800" unfolding nat_bits_le_iff using n by blast+
  then have "nat_bits n = 801" by linarith
  then have k: "key_size n = 101" by (simp add: key_size_def div_ceil_def)
  have "priv_n sample_rsa n = n" by (simp add: sample_rsa_def)
  then have "\<exists>s. rsa_sign_pkcs1v15_digest sample_rsa n Sha1 (replicate 20 7) = Inr s \<and> length s = key_size n
     \<and> rsa_verify_pkcs1v15_digest sample_rsa n Sha1 (replicate 20 7) s = Inr ()"
    by (rule rsa_sign_verify [OF pair hash_ok_sample, THEN conjunct1, rule_format]) (simp_all add: k)
  then show ?thesis unfolding n_def by blast
qed


lemma first_zero_unique:
  assumes "replicate a 0xff @ 0 # p = replicate b (0xff :: byte) @ 0 # q"
  shows "p = q"
proof -
  have t: "dropWhile (\<lambda>x. x \<noteq> 0) (replicate c (0xff :: byte) @ 0 # r) = 0 # r" for c and r :: bytes
    by (induction c) simp_all
  show ?thesis using t [of a p] t [of b q] assms by simp
qed

text \<open>
  What a PKCS \#1 v1.5 signature is over is unambiguous: for a modulus of at least 11 bytes the
  encoded payload determines the payload, and a DigestInfo determines both the hash algorithm and
  the digest, so a signature for one algorithm never verifies for another.
\<close>

theorem signature_encoding_injective:
  assumes "11 \<le> k" "pkcs1v15_encoded_payload k (digest_info_prefix h @ d) = Inr em"
    "pkcs1v15_encoded_payload k (digest_info_prefix h' @ d') = Inr em"
    "length d = output_length h" "length d' = output_length h'"
  shows "h = h' \<and> d = d'"
proof -
  have fit: "length pl + 11 \<le> k" if "pkcs1v15_encoded_payload k pl = Inr em" for pl
    using that assms(1) by (cases "length pl > k - 11") (auto simp: pkcs1v15_encoded_payload_def)
  let ?p = "digest_info_prefix h @ d" and ?q = "digest_info_prefix h' @ d'"
  have "replicate (k - length ?p - 3) 0xff @ 0 # ?p = replicate (k - length ?q - 3) 0xff @ 0 # ?q"
    using pkcs1v15_encoded_form [OF fit [OF assms(2)]] pkcs1v15_encoded_form [OF fit [OF assms(3)]] assms(2,3) by simp
  then have "?p = ?q" by (rule first_zero_unique)
  then show ?thesis by (cases h; cases h') simp_all
qed

theorem signature_encoding_injective_witness:
  "\<exists>em. pkcs1v15_encoded_payload 64 (digest_info_prefix Sha1 @ replicate 20 7) = Inr em
      \<and> (pkcs1v15_encoded_payload 64 (digest_info_prefix Sha224 @ replicate 28 7) = Inr em \<longrightarrow> Sha1 = Sha224)"
proof -
  obtain em where em: "pkcs1v15_encoded_payload 64 (digest_info_prefix Sha1 @ replicate 20 7) = Inr em"
    using pkcs1v15_encoded_form [of "digest_info_prefix Sha1 @ replicate 20 7" 64] by simp
  then show ?thesis
    using signature_encoding_injective [of 64 Sha1 "replicate 20 7" em Sha224 "replicate 28 7"]
    by (intro exI [of _ em] conjI impI em) simp_all
qed

text \<open>
  The length check of the PKCS \#1 v1.5 encodings saturates, so a modulus below 11 bytes passes
  it with an empty message: the signature encoding then has fewer than eight padding bytes (or,
  for modulus length zero, panics), and the encryption encoding panics below 3 bytes.
\<close>

theorem pkcs1v15_short_modulus:
  assumes "k < 11"
  shows "(0 < k \<longrightarrow> (\<exists>em. pkcs1v15_encoded_payload k [] = Inr em \<and> length em = k \<and> length (filter (\<lambda>b. b = 0xff) em) < 8))
       \<and> pkcs1v15_encoded_payload 0 [] = Inl Panic
       \<and> (k < 3 \<longrightarrow> rsa_pkcs1v15_pad fill [] k s = Some (Inl Panic, s))"
proof -
  have "length (filter (\<lambda>b. b = 0xff) (resize (k - 1) (0xff :: byte) [0, 1] @ [0])) < 8" if "0 < k"
    using assms that by (auto simp: resize_def take_Cons split: nat.splits)
  then show ?thesis
    using assms by (auto simp: pkcs1v15_encoded_payload_def usize_sub_def rsa_pkcs1v15_pad_def)
qed

theorem pkcs1v15_short_modulus_witness:
  "pkcs1v15_encoded_payload 0 [] = Inl Panic \<and> rsa_pkcs1v15_pad counter_fill [] 2 0 = Some (Inl Panic, 0)"
  using pkcs1v15_short_modulus [of 2 counter_fill 0] by simp

end
