(* ===== verification/Rsa_Validation.thy ===== *)
theory Rsa_Validation
  imports Prime_Facts Rsa_Encoding
begin

text \<open>
  \<^verbatim>\<open>src/src/rsa_public_validation.rs\<close>, \<^verbatim>\<open>src/src/rsa_private_validation.rs\<close> and
  \<^verbatim>\<open>src/src/rsa_keys.rs\<close>: the checks on RSA keys at import and the key type that
  records them. Parameters: the random source \<open>fill\<close>; the \<open>rsa\<close> crate's key type and its
  constructors (\<open>rsa_key_crate\<close>); and \<open>estimate\<close>, the rounded floating-point value in
  \<open>validation_strength\<close>, whose \<open>cbrt\<close>, \<open>ln\<close> and \<open>powf\<close> have a platform-dependent precision.

  \<open>BigUint\<close> values are naturals. A subtraction that no earlier guard keeps from underflowing,
  and an \<open>expect\<close>, is a possible \<open>Panic\<close>; the theorems show that none is reached.
\<close>

section \<open>Big integers\<close>

definition big_sub :: "nat \<Rightarrow> nat \<Rightarrow> 'e fault + nat" where
  "big_sub a b = (if b \<le> a then Inr (a - b) else Inl Panic)"

fun count_trailing_zeros :: "nat \<Rightarrow> nat" where
  "count_trailing_zeros v = (if v = 0 \<or> odd v then 0 else Suc (count_trailing_zeros (v div 2)))"

declare count_trailing_zeros.simps [simp del]

definition trailing_zeros :: "nat \<Rightarrow> nat option" where
  "trailing_zeros v = (if v = 0 then None else Some (count_trailing_zeros v))"

definition modpow :: "nat \<Rightarrow> nat \<Rightarrow> nat \<Rightarrow> nat" where
  "modpow b m n = b ^ m mod n"

definition base_mask :: "nat \<Rightarrow> byte" where
  "base_mask n = drop_bit ((8 - nat_bits n mod 8) mod 8) 0xff"

text \<open>\<open>bytes[0] &= mask\<close> on a freshly filled buffer, read as a number.\<close>

definition masked_base :: "nat \<Rightarrow> bytes \<Rightarrow> nat" where
  "masked_base n buffer = be_nat (buffer[0 := buffer ! 0 AND base_mask n])"


section \<open>Public keys\<close>

datatype RsaPublicValidationError = Pub_InvalidPublicKey | Pub_RandomnessUnavailable

definition MAX_ROUNDS :: nat where "MAX_ROUNDS = 5"
definition MAX_BASE_ATTEMPTS :: nat where "MAX_BASE_ATTEMPTS = 128"
definition MIN_RSA_BITS :: nat where "MIN_RSA_BITS = 512"
definition MAX_RSA_BITS :: nat where "MAX_RSA_BITS = 16384"

definition validation_strength :: "(nat \<Rightarrow> nat) \<Rightarrow> nat \<Rightarrow> nat option" where
  "validation_strength estimate bits =
     (if \<not> (MIN_RSA_BITS \<le> bits \<and> bits \<le> MAX_RSA_BITS) then None
      else Some (max (estimate bits * 8) 112))"

text \<open>\<open>(3..752).step_by(2)\<close> and the trial division of each candidate.\<close>

definition odd_candidates :: "nat \<Rightarrow> nat list" where
  "odd_candidates bound = filter odd [3..<bound]"

definition trial_prime :: "nat \<Rightarrow> bool" where
  "trial_prime candidate \<longleftrightarrow> list_all (\<lambda>divisor. candidate mod divisor \<noteq> 0) (odd_candidates candidate)"

definition small_factors :: nat where
  "small_factors = fold (\<lambda>candidate product. if trial_prime candidate then product * candidate else product)
     (odd_candidates 752) 1"

fun random_base_attempts ::
  "(nat \<Rightarrow> ('s, 'g, bytes) op) \<Rightarrow> nat \<Rightarrow> nat \<Rightarrow> ('s, RsaPublicValidationError fault, nat) op" where
  "random_base_attempts fill n 0 = errE (Err Pub_RandomnessUnavailable)"
| "random_base_attempts fill n (Suc k) =
     bindE (map_errE (\<lambda>_. Err Pub_RandomnessUnavailable) (fill (div_ceil (nat_bits n) 8))) (\<lambda>buffer.
     let b = masked_base n buffer in
     if 1 < b \<and> b < n - 1 then okE b else random_base_attempts fill n k)"

definition random_base ::
  "(nat \<Rightarrow> ('s, 'g, bytes) op) \<Rightarrow> nat \<Rightarrow> ('s, RsaPublicValidationError fault, nat) op" where
  "random_base fill n = random_base_attempts fill n MAX_BASE_ATTEMPTS"

datatype Round = ProbablyPrime | CompositeWithFactor | CompositeNotPrimePower

definition classify_composite :: "nat \<Rightarrow> nat \<Rightarrow> 'e fault + Round" where
  "classify_composite n x =
     bindR (big_sub x 1) (\<lambda>d.
     Inr (if gcd d n > 1 then CompositeWithFactor else CompositeNotPrimePower))"

text \<open>The squaring loop \<open>for _ in 1..a\<close> of \<open>enhanced_round\<close>, and the code after it.\<close>

fun enhanced_squarings :: "nat \<Rightarrow> nat \<Rightarrow> nat \<Rightarrow> nat \<Rightarrow> 'e fault + Round" where
  "enhanced_squarings n upper 0 z =
     (let x = z; z = x * x mod n; x = (if z \<noteq> 1 then z else x) in classify_composite n x)"
| "enhanced_squarings n upper (Suc k) z =
     (let x = z; z = x * x mod n in
      if z = upper then Inr ProbablyPrime
      else if z = 1 then classify_composite n x
      else enhanced_squarings n upper k z)"

definition enhanced_round :: "nat \<Rightarrow> nat \<Rightarrow> nat \<Rightarrow> nat \<Rightarrow> nat \<Rightarrow> 'e fault + Round" where
  "enhanced_round n upper a m b =
     (if gcd b n > 1 then Inr CompositeWithFactor
      else let z = modpow b m n in
        if z = 1 \<or> z = upper then Inr ProbablyPrime
        else enhanced_squarings n upper (a - 1) z)"

text \<open>The loop \<open>for _ in 0..MAX_ROUNDS\<close> of \<open>validate_with_rng\<close>.\<close>

fun public_rounds ::
  "(nat \<Rightarrow> ('s, 'g, bytes) op) \<Rightarrow> nat \<Rightarrow> nat \<Rightarrow> nat \<Rightarrow> nat \<Rightarrow> nat
     \<Rightarrow> ('s, RsaPublicValidationError fault, unit) op" where
  "public_rounds fill n upper a m 0 = errE (Err Pub_InvalidPublicKey)"
| "public_rounds fill n upper a m (Suc k) =
     bindE (random_base fill n) (\<lambda>b.
     bindE (liftE (enhanced_round n upper a m b)) (\<lambda>outcome.
     case outcome of
       CompositeNotPrimePower \<Rightarrow> okE ()
     | CompositeWithFactor \<Rightarrow> errE (Err Pub_InvalidPublicKey)
     | ProbablyPrime \<Rightarrow> public_rounds fill n upper a m k))"

definition public_validate_with_rng ::
  "(nat \<Rightarrow> nat) \<Rightarrow> (nat \<Rightarrow> ('s, 'g, bytes) op) \<Rightarrow> bytes \<Rightarrow> bytes \<Rightarrow> nat
     \<Rightarrow> ('s, RsaPublicValidationError fault, unit) op" where
  "public_validate_with_rng estimate fill modulus exponent expected_bits =
     bindE (rejectE (validation_strength estimate expected_bits = None
         \<or> length modulus \<noteq> div_ceil expected_bits 8
         \<or> modulus = [] \<or> last modulus AND 1 = 0
         \<or> exponent = []
         \<or> length exponent > 32) (Err Pub_InvalidPublicKey)) (\<lambda>_.
     let n = be_nat modulus; e = be_nat exponent in
     bindE (rejectE (nat_bits n \<noteq> expected_bits \<or> e < 3 \<or> e \<ge> n \<or> nat_bits e > 256 \<or> even e)
       (Err Pub_InvalidPublicKey)) (\<lambda>_.
     bindE (rejectE (gcd n small_factors \<noteq> 1) (Err Pub_InvalidPublicKey)) (\<lambda>_.
     bindE (liftE (big_sub n 1)) (\<lambda>upper.
     bindE (ok_orE Panic (trailing_zeros upper)) (\<lambda>a.
     let m = upper div 2 ^ a in
     public_rounds fill n upper a m MAX_ROUNDS)))))"

definition validate_rsa_public_key ::
  "(nat \<Rightarrow> nat) \<Rightarrow> (nat \<Rightarrow> ('s, 'g, bytes) op) \<Rightarrow> bytes \<Rightarrow> bytes \<Rightarrow> nat
     \<Rightarrow> ('s, RsaPublicValidationError fault, unit) op" where
  "validate_rsa_public_key estimate os_rng modulus exponent expected_bits =
     public_validate_with_rng estimate os_rng modulus exponent expected_bits"


section \<open>Private keys\<close>

text \<open>The key types of the \<open>rsa\<close> crate: the parts of a key and the constructors the code calls.\<close>

record ('k, 'p) rsa_key_crate = "('k, 'p) rsa_crate" +
  priv_e :: "'k \<Rightarrow> nat"
  priv_d :: "'k \<Rightarrow> nat"
  priv_primes :: "'k \<Rightarrow> nat list"
  pub_e :: "'p \<Rightarrow> nat"
  from_p_q :: "nat \<Rightarrow> nat \<Rightarrow> nat \<Rightarrow> 'k option"
  from_components :: "nat \<Rightarrow> nat \<Rightarrow> nat \<Rightarrow> nat list \<Rightarrow> 'k option"
  precompute :: "'k \<Rightarrow> 'k option"
  from_pkcs8_der :: "bytes \<Rightarrow> 'k option"
  from_pkcs1_der :: "bytes \<Rightarrow> 'k option"
  new_with_max_size :: "nat \<Rightarrow> nat \<Rightarrow> nat \<Rightarrow> 'p option"

datatype RsaPrivateValidationError = Priv_InvalidPrivateKey | Priv_RandomnessUnavailable

definition check_nist_acceptance :: "(nat \<Rightarrow> nat) \<Rightarrow> nat \<Rightarrow> nat \<Rightarrow> RsaPrivateValidationError + unit" where
  "check_nist_acceptance estimate bits exponent =
     bindR (rejectR (bits < 2048 \<or> bits mod 2 \<noteq> 0 \<or> validation_strength estimate bits = None
       \<or> exponent < 65537 \<or> nat_bits exponent > 256 \<or> even exponent) Priv_InvalidPrivateKey) (\<lambda>_.
     Inr ())"

text \<open>The rejection sampling inside \<open>probable_prime\<close>.\<close>

fun sample_base ::
  "(nat \<Rightarrow> ('s, 'g, bytes) op) \<Rightarrow> nat \<Rightarrow> nat \<Rightarrow> nat \<Rightarrow> ('s, RsaPrivateValidationError fault, nat) op" where
  "sample_base fill n upper 0 = errE (Err Priv_RandomnessUnavailable)"
| "sample_base fill n upper (Suc k) =
     bindE (map_errE (\<lambda>_. Err Priv_RandomnessUnavailable) (fill (div_ceil (nat_bits n) 8))) (\<lambda>buffer.
     let base = masked_base n buffer in
     if 1 < base \<and> base < upper then okE base else sample_base fill n upper k)"

text \<open>The squarings \<open>for _ in 1..a\<close>: true continues with the next round, false ends with \<open>Ok(false)\<close>.\<close>

fun prime_squarings :: "nat \<Rightarrow> nat \<Rightarrow> nat \<Rightarrow> nat \<Rightarrow> bool" where
  "prime_squarings n upper 0 z = False"
| "prime_squarings n upper (Suc k) z =
     (let z = z * z mod n in
      if z = upper then True else if z = 1 then False else prime_squarings n upper k z)"

definition prime_round :: "nat \<Rightarrow> nat \<Rightarrow> nat \<Rightarrow> nat \<Rightarrow> nat \<Rightarrow> bool" where
  "prime_round n upper a odd_part base =
     (let z = modpow base odd_part n in
      if z = 1 \<or> z = upper then True else prime_squarings n upper (a - 1) z)"

fun prime_rounds ::
  "(nat \<Rightarrow> ('s, 'g, bytes) op) \<Rightarrow> nat \<Rightarrow> nat \<Rightarrow> nat \<Rightarrow> nat \<Rightarrow> nat
     \<Rightarrow> ('s, RsaPrivateValidationError fault, bool) op" where
  "prime_rounds fill n upper a odd_part 0 = okE True"
| "prime_rounds fill n upper a odd_part (Suc k) =
     bindE (sample_base fill n upper 128) (\<lambda>base.
     if prime_round n upper a odd_part base then prime_rounds fill n upper a odd_part k else okE False)"

definition probable_prime ::
  "(nat \<Rightarrow> ('s, 'g, bytes) op) \<Rightarrow> nat \<Rightarrow> nat \<Rightarrow> ('s, RsaPrivateValidationError fault, bool) op" where
  "probable_prime fill n rounds =
     (if n \<le> 3 then okE (n = 2 \<or> n = 3)
      else if even n then okE False
      else
        bindE (liftE (big_sub n 1)) (\<lambda>upper.
        bindE (ok_orE Panic (trailing_zeros upper)) (\<lambda>a.
        let odd_part = upper div 2 ^ a in
        prime_rounds fill n upper a odd_part rounds)))"

definition abs_diff :: "nat \<Rightarrow> nat \<Rightarrow> nat" where
  "abs_diff a b = (if b \<le> a then a - b else b - a)"

definition private_validate_with_rng ::
  "('k, 'p) rsa_key_crate \<Rightarrow> (nat \<Rightarrow> nat) \<Rightarrow> (nat \<Rightarrow> ('s, 'g, bytes) op) \<Rightarrow> 'k \<Rightarrow> nat
     \<Rightarrow> ('s, RsaPrivateValidationError fault, unit) op" where
  "private_validate_with_rng rsa estimate fill key bits =
     bindE (ok_orE (Err Priv_InvalidPrivateKey) (validation_strength estimate bits)) (\<lambda>strength.
     let n = priv_n rsa key; e = priv_e rsa key; d = priv_d rsa key in
     bindE (rejectE (nat_bits n \<noteq> bits \<or> e < 3 \<or> even e \<or> nat_bits e > 256
       \<or> length (priv_primes rsa key) \<noteq> 2) (Err Priv_InvalidPrivateKey)) (\<lambda>_.
     let p = priv_primes rsa key ! 0; q = priv_primes rsa key ! 1;
         p_bits = nat_bits p; q_bits = nat_bits q in
     bindE (rejectE (p_bits + q_bits \<noteq> bits \<or> abs_diff p_bits q_bits > 1 \<or> even p \<or> even q
       \<or> p * p < 2 ^ (2 * p_bits - 1) \<or> q * q < 2 ^ (2 * q_bits - 1) \<or> p * q \<noteq> n)
       (Err Priv_InvalidPrivateKey)) (\<lambda>_.
     let difference = (if p > q then p - q else q - p) in
     bindE (rejectE (difference \<le> 2 ^ (bits div 2 - 100)) (Err Priv_InvalidPrivateKey)) (\<lambda>_.
     let pm1 = p - 1; qm1 = q - 1 in
     bindE (rejectE (gcd pm1 e \<noteq> 1 \<or> gcd qm1 e \<noteq> 1) (Err Priv_InvalidPrivateKey)) (\<lambda>_.
     let lambda = lcm pm1 qm1; de = d * e in
     bindE (rejectE (d \<le> 2 ^ (bits div 2) \<or> d \<ge> lambda \<or> de mod lambda \<noteq> 1)
       (Err Priv_InvalidPrivateKey)) (\<lambda>_.
     let rounds = div_ceil strength 2 + 1 in
     bindE (probable_prime fill p rounds) (\<lambda>p_prime.
     bindE (if p_prime then probable_prime fill q rounds else okE False) (\<lambda>both_prime.
     bindE (rejectE (\<not> both_prime) (Err Priv_InvalidPrivateKey)) (\<lambda>_.
     let ciphertext = modpow 2 e n in
     bindE (ok_orE (Err Priv_InvalidPrivateKey) (rsa_decrypt_and_check rsa key ciphertext)) (\<lambda>recovered.
     rejectE (recovered \<noteq> 2) (Err Priv_InvalidPrivateKey)))))))))))"

definition validate_rsa_private_key ::
  "('k, 'p) rsa_key_crate \<Rightarrow> (nat \<Rightarrow> nat) \<Rightarrow> (nat \<Rightarrow> ('s, 'g, bytes) op) \<Rightarrow> 'k \<Rightarrow> nat
     \<Rightarrow> ('s, RsaPrivateValidationError fault, unit) op" where
  "validate_rsa_private_key rsa estimate os_rng key bits = private_validate_with_rng rsa estimate os_rng key bits"


section \<open>Splitting off the powers of two\<close>

lemma ctz_split: "v \<noteq> 0 \<Longrightarrow> v = 2 ^ count_trailing_zeros v * (v div 2 ^ count_trailing_zeros v)
    \<and> odd (v div 2 ^ count_trailing_zeros v)"
proof (induction v rule: count_trailing_zeros.induct)
  case (1 v)
  show ?case
  proof (cases "odd v")
    case True
    then show ?thesis by (simp add: count_trailing_zeros.simps)
  next
    case False
    let ?c = "count_trailing_zeros (v div 2)"
    have c: "count_trailing_zeros v = Suc ?c" using 1(2) False by (subst count_trailing_zeros.simps) simp
    have "v div 2 \<noteq> 0" using 1(2) False by auto
    then have ih: "v div 2 = 2 ^ ?c * (v div 2 div 2 ^ ?c)" "odd (v div 2 div 2 ^ ?c)"
      using 1(1) 1(2) False by blast+
    have d: "v div 2 ^ Suc ?c = v div 2 div 2 ^ ?c" by (simp add: div_mult2_eq)
    have "v = 2 * (v div 2)" using False by simp
    then show ?thesis unfolding c d using ih by (metis mult.assoc power_Suc)
  qed
qed

lemma trailing_zeros_odd_part:
  assumes "odd n" "1 < n"
  obtains a m where "trailing_zeros (n - 1) = Some a" "(n - 1) div 2 ^ a = m" "n - 1 = 2 ^ a * m" "0 < a"
proof -
  let ?a = "count_trailing_zeros (n - 1)"
  have nz: "n - 1 \<noteq> 0" using assms(2) by simp
  have e: "even (n - 1)" using assms(1) by simp
  have s: "n - 1 = 2 ^ ?a * ((n - 1) div 2 ^ ?a)" "odd ((n - 1) div 2 ^ ?a)" using ctz_split [OF nz] by blast+
  have "?a \<noteq> 0"
  proof
    assume "?a = 0"
    then have "odd (n - 1)" using s(2) by simp
    with e show False by simp
  qed
  then show ?thesis using that [of ?a] s(1) nz by (simp add: trailing_zeros_def)
qed

lemma power_square_mod: "(x ^ k mod n) * (x ^ k mod n) mod n = x ^ (2 * k) mod (n :: nat)"
  by (simp add: mult_2 power_add mod_mult_eq)


section \<open>The enhanced round of the public check\<close>

text \<open>The modulus is not a power of a prime, and in particular not a prime.\<close>

definition not_prime_power :: "nat \<Rightarrow> bool" where
  "not_prime_power n \<longleftrightarrow> \<not> (\<exists>p k. is_prime p \<and> n = p ^ k)"

lemma coprime_square_mod: "coprime z n \<Longrightarrow> 1 < n \<Longrightarrow> coprime (z * z mod n) (n :: nat)"
  by (simp add: coprime_mod_left_iff)

lemma coprime_pos: "coprime z n \<Longrightarrow> 1 < n \<Longrightarrow> 1 \<le> (z :: nat)"
  by (cases z) auto

lemma classify_total: "coprime x n \<Longrightarrow> 1 < n \<Longrightarrow>
    classify_composite n x = Inr (if gcd (x - 1) n > 1 then CompositeWithFactor else CompositeNotPrimePower)"
  using coprime_pos [of x n] by (simp add: classify_composite_def big_sub_def)

lemma enhanced_squarings_sound:
  assumes "1 < n" "z < n" "z \<noteq> 1" "z \<noteq> n - 1" "coprime z n"
  shows "\<exists>r. enhanced_squarings n (n - 1) k z = Inr r \<and>
     (r = CompositeNotPrimePower \<longrightarrow> gcd (z ^ 2 ^ Suc k mod n - 1) n = 1)"
  using assms(2-5)
proof (induction k arbitrary: z)
  case 0
  let ?z = "z * z mod n"
  have c: "coprime ?z n" using 0(4) assms(1) by (rule coprime_square_mod)
  show ?case
  proof (cases "?z = 1")
    case True
    then have "gcd (z - 1) n > 1" using sqrt_one_factor [of z n] 0 assms(1) by blast
    then show ?thesis using True by (simp add: Let_def classify_total [OF 0(4) assms(1)])
  next
    case False
    have "gcd (?z - 1) n \<noteq> 0" using assms(1) by simp
    then have "\<not> 1 < gcd (?z - 1) n \<Longrightarrow> gcd (?z - 1) n = 1" by linarith
    then show ?thesis using False by (simp add: Let_def power2_eq_square classify_total [OF c assms(1)])
  qed
next
  case (Suc k)
  let ?z = "z * z mod n"
  have c: "coprime ?z n" using Suc.prems(4) assms(1) by (rule coprime_square_mod)
  have p: "?z ^ 2 ^ Suc k mod n = z ^ 2 ^ Suc (Suc k) mod n"
    by (simp add: power_mod power2_eq_square [symmetric] power_mult [symmetric])
  consider "?z = n - 1" | "?z = 1" "?z \<noteq> n - 1" | "?z \<noteq> 1" "?z \<noteq> n - 1" by blast
  then show ?case
  proof cases
    case 1
    then show ?thesis by (simp add: Let_def)
  next
    case 2
    have "gcd (z - 1) n > 1" using sqrt_one_factor [of z n] Suc.prems assms(1) 2(1) by blast
    then show ?thesis using 2 by (simp add: Let_def classify_total [OF Suc.prems(4) assms(1)])
  next
    case 3
    have "?z < n" using assms(1) by simp
    from Suc.IH [OF this 3 c] show ?thesis unfolding p using 3 by (simp add: Let_def)
  qed
qed

lemma fermat_residue_not_prime_power:
  assumes "1 < n" "coprime b n" "gcd (b ^ (n - 1) mod n - 1) n = 1"
  shows "not_prime_power n"
  unfolding not_prime_power_def
proof
  assume "\<exists>p k. is_prime p \<and> n = p ^ k"
  then obtain p k where p: "is_prime p" "n = p ^ k" by blast
  have k: "0 < k" using p(2) assms(1) by (cases k) auto
  have pn: "p dvd n" using p(2) k by (simp add: dvd_power)
  have p1: "1 < p" using p(1) by (rule is_primeD)
  have "\<not> p dvd b"
    using assms(2) pn p1 by (metis coprime_common_divisor nat_dvd_1_iff_1 nat_neq_iff)
  then have "b ^ (n - 1) mod p = 1" using prime_power_fermat [OF p(1,2) k] by blast
  then have "b ^ (n - 1) mod n mod p = 1 mod p" using pn p1 by (simp add: mod_mod_cancel)
  moreover have "1 \<le> b ^ (n - 1) mod n"
    using calculation p1 by (cases "b ^ (n - 1) mod n") simp_all
  ultimately have "p dvd b ^ (n - 1) mod n - 1" using mod_eq_dvd_iff_nat [of 1 "b ^ (n - 1) mod n" p] by blast
  then have "p dvd gcd (b ^ (n - 1) mod n - 1) n" using pn by (rule gcd_greatest)
  then show False unfolding assms(3) using p1 by simp
qed

lemma enhanced_round_sound:
  assumes "odd n" "1 < n" "n - 1 = 2 ^ a * m" "0 < a"
  shows "\<exists>r. enhanced_round n (n - 1) a m b = (Inr r :: 'e fault + Round) \<and> (r = CompositeNotPrimePower \<longrightarrow> not_prime_power n)"
proof (cases "gcd b n > 1 \<or> b ^ m mod n = 1 \<or> b ^ m mod n = n - 1")
  case True
  then show ?thesis by (auto simp: enhanced_round_def modpow_def Let_def)
next
  case False
  have "gcd b n \<noteq> 0" using assms(2) by simp
  with False have "gcd b n = 1" by linarith
  then have c: "coprime b n" by (simp add: coprime_iff_gcd_eq_1)
  then have cz: "coprime (b ^ m mod n) n" using assms(2) by (simp add: coprime_mod_left_iff)
  have "m * 2 ^ Suc (a - 1) = n - 1" unfolding assms(3) using assms(4) by (simp only: Suc_diff_1 mult.commute)
  then have e: "(b ^ m mod n) ^ 2 ^ Suc (a - 1) mod n = b ^ (n - 1) mod n"
    by (simp only: power_mod power_mult [symmetric])
  have "\<exists>r. enhanced_squarings n (n - 1) (a - 1) (b ^ m mod n) = (Inr r :: 'e fault + Round) \<and>
     (r = CompositeNotPrimePower \<longrightarrow> gcd ((b ^ m mod n) ^ 2 ^ Suc (a - 1) mod n - 1) n = 1)"
    using assms(2) False by (intro enhanced_squarings_sound [OF assms(2) _ _ _ cz]) (simp only: mod_less_divisor, blast+)
  then obtain r where "enhanced_squarings n (n - 1) (a - 1) (b ^ m mod n) = (Inr r :: 'e fault + Round)"
    "r = CompositeNotPrimePower \<longrightarrow> gcd (b ^ (n - 1) mod n - 1) n = 1" unfolding e by (elim exE conjE)
  then show ?thesis
    using False fermat_residue_not_prime_power [OF assms(2) c] by (auto simp: enhanced_round_def modpow_def Let_def)
qed


section \<open>Small factors\<close>

lemma set_odd_candidates: "set (odd_candidates bound) = {c. odd c \<and> 3 \<le> c \<and> c < bound}"
  by (auto simp: odd_candidates_def)

lemma prime_trial: "is_prime c \<Longrightarrow> trial_prime c"
  unfolding trial_prime_def list_all_iff set_odd_candidates mod_eq_0_iff_dvd
  using is_primeD(2) [of c] by fastforce

text \<open>The product of the selected candidates, for any list of them.\<close>

lemma product_keeps: "(c :: nat) dvd acc \<Longrightarrow> c dvd fold (\<lambda>c acc. if P c then acc * c else acc) cs acc"
  by (induction cs arbitrary: acc) simp_all

lemma product_dvd:
  "c \<in> set cs \<Longrightarrow> P c \<Longrightarrow> (c :: nat) dvd fold (\<lambda>c acc. if P c then acc * c else acc) cs acc"
  by (induction cs arbitrary: acc) (auto simp: product_keeps)

lemma product_coprime:
  "coprime n acc \<Longrightarrow> (\<And>c. c \<in> set cs \<Longrightarrow> coprime n c) \<Longrightarrow>
     coprime n (fold (\<lambda>c acc. if P c then acc * c else acc) cs acc)"
  for n :: nat
  by (induction cs arbitrary: acc) auto

lemma small_factors_dvd: "is_prime c \<Longrightarrow> odd c \<Longrightarrow> c \<le> 751 \<Longrightarrow> c dvd small_factors"
proof -
  assume c: "is_prime c" "odd c" "c \<le> 751"
  then have "3 \<le> c" using is_primeD(1) [of c] by (cases "c = 2") auto
  then show ?thesis unfolding small_factors_def
    using c by (intro product_dvd prime_trial) (simp_all add: set_odd_candidates)
qed

lemma coprime_small_factors:
  assumes "gcd n small_factors = 1" "odd n" "is_prime p" "p dvd n"
  shows "751 < p"
proof (rule ccontr)
  assume "\<not> 751 < p"
  moreover have "odd p" using assms(2,4) by (meson dvd_trans)
  ultimately have "p dvd small_factors" using small_factors_dvd [OF assms(3)] by simp
  then have "p dvd gcd n small_factors" using assms(4) by simp
  then show False unfolding assms(1) using is_primeD(1) [OF assms(3)] by simp
qed


section \<open>Public validation\<close>

lemma random_base_range: "settles (random_base_attempts fill n k) (\<lambda>e. e \<noteq> Panic) (\<lambda>b. 1 < b \<and> b < n - 1)"
proof (induction k)
  case 0
  show ?case by (simp add: settles_errE)
next
  case (Suc k)
  then show ?case unfolding random_base_attempts.simps Let_def
    by (intro settles_bindE [OF settles_map_errE]) (simp_all add: settles_okE)
qed

lemma public_rounds_sound:
  assumes "odd n" "1 < n" "n - 1 = 2 ^ a * m" "0 < a"
  shows "settles (public_rounds fill n (n - 1) a m k) (\<lambda>e. e \<noteq> Panic) (\<lambda>_. not_prime_power n)"
proof (induction k)
  case 0
  show ?case by (simp add: settles_errE)
next
  case (Suc k)
  have body: "settles (bindE (liftE (enhanced_round n (n - 1) a m b)) (\<lambda>outcome. case outcome of
       CompositeNotPrimePower \<Rightarrow> okE () | CompositeWithFactor \<Rightarrow> errE (Err Pub_InvalidPublicKey)
     | ProbablyPrime \<Rightarrow> public_rounds fill n (n - 1) a m k)) (\<lambda>e. e \<noteq> Panic) (\<lambda>_. not_prime_power n)" for b
  proof -
    obtain r where r: "enhanced_round n (n - 1) a m b = (Inr r :: RsaPublicValidationError fault + Round)"
      "r = CompositeNotPrimePower \<longrightarrow> not_prime_power n" using enhanced_round_sound [OF assms] by blast
    then show ?thesis using Suc by (cases r) (auto simp: settles_errE settles_okE)
  qed
  show ?case unfolding public_rounds.simps random_base_def
    by (rule settles_bindE [OF random_base_range body])
qed

lemma nat_bits_bounds: "nat_bits v = k \<Longrightarrow> 0 < k \<Longrightarrow> 2 ^ (k - 1) \<le> v \<and> v < 2 ^ k"
  using nat_bits_le_iff [of v k] nat_bits_le_iff [of v "k - 1"] by (cases k) (simp_all add: not_less)

lemma last_byte_odd: "modulus \<noteq> [] \<Longrightarrow> odd (be_nat modulus) \<longleftrightarrow> last modulus AND 1 \<noteq> 0"
proof -
  assume "modulus \<noteq> []"
  then obtain xs x where m: "modulus = xs @ [x]" by (metis append_butlast_last_id)
  have "odd (be_nat modulus) \<longleftrightarrow> odd (unat x)" by (simp add: m be_nat_def)
  also have "\<dots> \<longleftrightarrow> odd x"
    by (simp add: bit_unsigned_iff flip: bit_0)
  also have "\<dots> \<longleftrightarrow> x AND 1 \<noteq> 0" by (simp add: and_one_eq mod_2_eq_odd)
  finally show ?thesis by (simp add: m)
qed


lemma public_validation_settles:
  "settles (public_validate_with_rng estimate fill modulus exponent expected_bits) (\<lambda>e. e \<noteq> Panic)
    (\<lambda>_. MIN_RSA_BITS \<le> expected_bits \<and> expected_bits \<le> MAX_RSA_BITS
      \<and> nat_bits (be_nat modulus) = expected_bits \<and> odd (be_nat modulus)
      \<and> 3 \<le> be_nat exponent \<and> odd (be_nat exponent) \<and> be_nat exponent < be_nat modulus \<and> be_nat exponent < 2 ^ 256
      \<and> gcd (be_nat modulus) small_factors = 1 \<and> not_prime_power (be_nat modulus))"
  (is "settles _ _ (\<lambda>_. ?Q)")
  unfolding public_validate_with_rng_def Let_def
proof (intro settles_rejectE_bindE)
  let ?n = "be_nat modulus" and ?e = "be_nat exponent"
  assume g1: "\<not> (validation_strength estimate expected_bits = None \<or> length modulus \<noteq> div_ceil expected_bits 8
      \<or> modulus = [] \<or> last modulus AND 1 = 0 \<or> exponent = [] \<or> length exponent > 32)"
    and g2: "\<not> (nat_bits ?n \<noteq> expected_bits \<or> ?e < 3 \<or> ?e \<ge> ?n \<or> nat_bits ?e > 256 \<or> even ?e)"
    and g3: "\<not> gcd ?n small_factors \<noteq> 1"
  have o: "odd ?n" using g1 last_byte_odd by blast
  have n: "1 < ?n" using g2 by linarith
  obtain a m where am: "trailing_zeros (?n - 1) = Some a" "(?n - 1) div 2 ^ a = m" "?n - 1 = 2 ^ a * m" "0 < a"
    using trailing_zeros_odd_part [OF o n] by blast
  have Q: "not_prime_power ?n \<Longrightarrow> ?Q"
    using g1 g2 g3 o nat_bits_le_iff [of ?e 256] by (simp add: validation_strength_def not_le split: if_splits)
  have b: "big_sub ?n 1 = Inr (?n - 1)" using n by (simp add: big_sub_def)
  show "settles (bindE (liftE (big_sub ?n 1)) (\<lambda>upper. bindE (ok_orE Panic (trailing_zeros upper))
     (\<lambda>a. public_rounds fill ?n upper a (upper div 2 ^ a) MAX_ROUNDS))) (\<lambda>e. e \<noteq> Panic) (\<lambda>_. ?Q)"
    unfolding b liftE_simps bindE_okE am(1) ok_orE_simps am(2)
    by (rule settles_weaken [OF public_rounds_sound [OF o n am(3,4)] _ Q])
qed simp_all


section \<open>Miller-Rabin rounds of the private check\<close>

text \<open>The test of FIPS 186-5 B.3.1 for one base, with the exponents written out.\<close>

definition miller_rabin_passes :: "nat \<Rightarrow> nat \<Rightarrow> bool" where
  "miller_rabin_passes n b \<longleftrightarrow>
     (let a = count_trailing_zeros (n - 1); m = (n - 1) div 2 ^ a in
      b ^ m mod n = 1 \<or> (\<exists>i<a. b ^ (2 ^ i * m) mod n = n - 1))"

lemma one_stays_one: "1 < n \<Longrightarrow> z mod n = 1 \<Longrightarrow> z ^ 2 ^ i mod n = (1 :: nat)"
  using power_one_mod [of z n "2 ^ i"] by simp

lemma prime_squarings_iff:
  assumes "2 < n" "z < n"
  shows "prime_squarings n (n - 1) k z \<longleftrightarrow> (\<exists>i<k. z ^ 2 ^ Suc i mod n = n - 1)"
  using assms(2)
proof (induction k arbitrary: z)
  case 0
  show ?case by simp
next
  case (Suc k)
  let ?z = "z * z mod n"
  have ih: "prime_squarings n (n - 1) k ?z \<longleftrightarrow> (\<exists>i<k. ?z ^ 2 ^ Suc i mod n = n - 1)"
    using assms(1) by (intro Suc.IH) simp
  have p: "?z ^ 2 ^ i mod n = z ^ 2 ^ Suc i mod n" for i
    by (simp add: power_mod power2_eq_square [symmetric] power_mult [symmetric])
  have split: "(\<exists>i<Suc k. z ^ 2 ^ Suc i mod n = n - 1) \<longleftrightarrow> ?z = n - 1 \<or> (\<exists>i<k. ?z ^ 2 ^ Suc i mod n = n - 1)"
    unfolding p Ex_less_Suc2 by (simp add: power2_eq_square)
  have one: "?z = 1 \<Longrightarrow> \<not> (\<exists>i<k. ?z ^ 2 ^ Suc i mod n = n - 1)"
    using assms(1) by (cases "Suc 0 = n - Suc 0") simp_all
  show ?case unfolding split prime_squarings.simps Let_def ih using one assms(1) by auto
qed

lemma prime_round_iff:
  assumes "2 < n" "odd n"
  shows "prime_round n (n - 1) (count_trailing_zeros (n - 1)) ((n - 1) div 2 ^ count_trailing_zeros (n - 1)) b
     \<longleftrightarrow> miller_rabin_passes n b"
proof -
  let ?a = "count_trailing_zeros (n - 1)" and ?m = "(n - 1) div 2 ^ count_trailing_zeros (n - 1)"
  let ?z = "b ^ ?m mod n"
  obtain a m where "trailing_zeros (n - 1) = Some a" "0 < a"
    using trailing_zeros_odd_part [OF assms(2)] assms(1) by (metis One_nat_def Suc_1 Suc_lessD)
  then have a: "?a = Suc (?a - 1)" using assms(1) by (simp add: trailing_zeros_def)
  have p: "?z ^ 2 ^ i mod n = b ^ (2 ^ i * ?m) mod n" for i
    by (simp add: power_mod power_mult [symmetric] mult.commute)
  have split: "(\<exists>i<?a. b ^ (2 ^ i * ?m) mod n = n - 1) \<longleftrightarrow> ?z = n - 1 \<or> (\<exists>i<?a - 1. ?z ^ 2 ^ Suc i mod n = n - 1)"
    by (subst a) (simp only: Ex_less_Suc2 p power_0 mult_1)
  have sq: "prime_squarings n (n - 1) (?a - 1) ?z \<longleftrightarrow> (\<exists>i<?a - 1. ?z ^ 2 ^ Suc i mod n = n - 1)"
    using assms(1) by (intro prime_squarings_iff) simp_all
  show ?thesis
    unfolding prime_round_def miller_rabin_passes_def modpow_def Let_def split sq by simp
qed

text \<open>A prime passes for every base it does not divide.\<close>

lemma prime_passes:
  assumes "is_prime n" "odd n" "\<not> n dvd b"
  shows "miller_rabin_passes n b"
proof -
  let ?a = "count_trailing_zeros (n - 1)" and ?m = "(n - 1) div 2 ^ count_trailing_zeros (n - 1)"
  have n: "1 < n" using assms(1) by (rule is_primeD)
  have e: "n - 1 = 2 ^ ?a * ?m" using ctz_split [of "n - 1"] n by simp
  have "b ^ (2 ^ k * ?m) mod n = 1 \<Longrightarrow> b ^ ?m mod n = 1 \<or> (\<exists>i<k. b ^ (2 ^ i * ?m) mod n = n - 1)" for k
  proof (induction k)
    case (Suc k)
    let ?x = "b ^ (2 ^ k * ?m) mod n"
    have "?x * ?x mod n = b ^ (2 * (2 ^ k * ?m)) mod n" by (rule power_square_mod)
    also have "2 * (2 ^ k * ?m) = 2 ^ Suc k * ?m" by simp
    finally have "?x * ?x mod n = 1" using Suc.prems by (simp only:)
    then have "?x = 1 \<or> ?x = n - 1" using sqrt_one_prime [OF assms(1)] n by simp
    then show ?case using Suc.IH less_Suc_eq by blast
  qed simp
  moreover have "b ^ (2 ^ ?a * ?m) mod n = 1" using fermat_unit [OF assms(1,3)] unfolding e [symmetric] .
  ultimately show ?thesis unfolding miller_rabin_passes_def Let_def by blast
qed


lemma sample_base_range:
  "settles (sample_base fill n upper k) (\<lambda>e. e = Err Priv_RandomnessUnavailable) (\<lambda>b. 1 < b \<and> b < upper)"
proof (induction k)
  case 0
  show ?case by (simp add: settles_errE)
next
  case (Suc k)
  then show ?case unfolding sample_base.simps Let_def
    by (intro settles_bindE [OF settles_map_errE]) (simp_all add: settles_okE)
qed

lemma sample_base_returns:
  assumes "returns (fill (div_ceil (nat_bits n) 8)) buffer" "1 < masked_base n buffer" "masked_base n buffer < upper"
  shows "returns (sample_base fill n upper (Suc k)) (masked_base n buffer)"
  unfolding sample_base.simps Let_def
  by (rule returns_bindE [OF returns_map_errE [OF assms(1)]]) (use assms in simp)

lemma probable_prime_rounds:
  assumes "odd n" "3 < n"
  shows "probable_prime fill n rounds =
     prime_rounds fill n (n - 1) (count_trailing_zeros (n - 1)) ((n - 1) div 2 ^ count_trailing_zeros (n - 1)) rounds"
  using assms unfolding probable_prime_def Let_def by (simp add: big_sub_def trailing_zeros_def)

text \<open>
  The random source as a relation: the buffers that it yields from one state to another, a base drawn (at most 127 buffers
  out of range and one in range), the bases of consecutive rounds, and a source that gives no base (128 buffers out of range, or an error).
\<close>

inductive buffers_read :: "(nat \<Rightarrow> ('s, 'g, bytes) op) \<Rightarrow> nat \<Rightarrow> 's \<Rightarrow> bytes list \<Rightarrow> 's \<Rightarrow> bool" for fill len where
  read_none: "buffers_read fill len s [] s"
| read_more: "fill len s = (Inr b, s1) \<Longrightarrow> buffers_read fill len s1 bs s2 \<Longrightarrow> buffers_read fill len s (b # bs) s2"

inductive_simps buffers_read_simps: "buffers_read fill len s [] s'" "buffers_read fill len s (b # bs) s'"

definition base_in_range :: "nat \<Rightarrow> bytes \<Rightarrow> bool" where
  "base_in_range n buffer \<longleftrightarrow> 1 < masked_base n buffer \<and> masked_base n buffer < n - 1"

definition base_drawn :: "(nat \<Rightarrow> ('s, 'g, bytes) op) \<Rightarrow> nat \<Rightarrow> nat \<Rightarrow> 's \<Rightarrow> nat \<Rightarrow> 's \<Rightarrow> bool" where
  "base_drawn fill attempts n s base s' \<longleftrightarrow>
     (\<exists>rejected buffer. buffers_read fill (div_ceil (nat_bits n) 8) s (rejected @ [buffer]) s' \<and> length rejected < attempts
        \<and> (\<forall>r \<in> set rejected. \<not> base_in_range n r) \<and> base_in_range n buffer \<and> base = masked_base n buffer)"

definition no_base :: "(nat \<Rightarrow> ('s, 'g, bytes) op) \<Rightarrow> nat \<Rightarrow> nat \<Rightarrow> 's \<Rightarrow> 's \<Rightarrow> bool" where
  "no_base fill attempts n s s' \<longleftrightarrow>
     (\<exists>rejected s1. buffers_read fill (div_ceil (nat_bits n) 8) s rejected s1 \<and> (\<forall>r \<in> set rejected. \<not> base_in_range n r)
        \<and> (length rejected = attempts \<and> s' = s1 \<or> length rejected < attempts \<and> (\<exists>g. fill (div_ceil (nat_bits n) 8) s1 = (Inl g, s'))))"

inductive bases_drawn :: "(nat \<Rightarrow> ('s, 'g, bytes) op) \<Rightarrow> nat \<Rightarrow> 's \<Rightarrow> nat list \<Rightarrow> 's \<Rightarrow> bool" for fill n where
  drawn_none: "bases_drawn fill n s [] s"
| drawn_more: "base_drawn fill 128 n s b s1 \<Longrightarrow> bases_drawn fill n s1 bs s2 \<Longrightarrow> bases_drawn fill n s (b # bs) s2"

inductive_simps bases_drawn_simps: "bases_drawn fill n s [] s'" "bases_drawn fill n s (b # bs) s'"

lemma ex_list: "(\<exists>xs. P xs) \<longleftrightarrow> P [] \<or> (\<exists>x xs. P (x # xs))"
  by (metis list.exhaust)

lemma base_drawn_0: "\<not> base_drawn fill 0 n s b s'"
  by (simp add: base_drawn_def)

lemma base_drawn_Suc:
  "base_drawn fill (Suc k) n s b s' \<longleftrightarrow>
     (\<exists>buffer s1. fill (div_ceil (nat_bits n) 8) s = (Inr buffer, s1)
        \<and> (if base_in_range n buffer then b = masked_base n buffer \<and> s' = s1 else base_drawn fill k n s1 b s'))" (is "?L \<longleftrightarrow> ?R")
proof
  assume ?L
  then obtain rejected buffer where r: "buffers_read fill (div_ceil (nat_bits n) 8) s (rejected @ [buffer]) s'" "length rejected < Suc k"
      "\<forall>r \<in> set rejected. \<not> base_in_range n r" "base_in_range n buffer" "b = masked_base n buffer"
    unfolding base_drawn_def by blast
  show ?R
  proof (cases rejected)
    case Nil
    then show ?thesis using r by (simp add: buffers_read_simps)
  next
    case (Cons c cs)
    then obtain s1 where "fill (div_ceil (nat_bits n) 8) s = (Inr c, s1)"
        "buffers_read fill (div_ceil (nat_bits n) 8) s1 (cs @ [buffer]) s'"
      using r(1) by (auto simp: buffers_read_simps)
    then show ?thesis using r Cons unfolding base_drawn_def by auto
  qed
next
  assume ?R
  then obtain buffer s1 where f: "fill (div_ceil (nat_bits n) 8) s = (Inr buffer, s1)"
      and c: "if base_in_range n buffer then b = masked_base n buffer \<and> s' = s1 else base_drawn fill k n s1 b s'" by blast
  show ?L
  proof (cases "base_in_range n buffer")
    case True
    then have "buffers_read fill (div_ceil (nat_bits n) 8) s ([] @ [buffer]) s'" using f c by (simp add: buffers_read_simps)
    then show ?thesis using c True unfolding base_drawn_def by fastforce
  next
    case False
    then obtain rejected last where r: "buffers_read fill (div_ceil (nat_bits n) 8) s1 (rejected @ [last]) s'" "length rejected < k"
        "\<forall>r \<in> set rejected. \<not> base_in_range n r" "base_in_range n last" "b = masked_base n last"
      using c unfolding base_drawn_def by auto
    then have "buffers_read fill (div_ceil (nat_bits n) 8) s ((buffer # rejected) @ [last]) s'" using f by (simp add: buffers_read_simps)
    moreover have "length (buffer # rejected) < Suc k" "\<forall>r \<in> set (buffer # rejected). \<not> base_in_range n r" using r False by simp_all
    ultimately show ?thesis using r(4,5) unfolding base_drawn_def by blast
  qed
qed

lemma no_base_0: "no_base fill 0 n s s' \<longleftrightarrow> s' = s"
  by (simp add: no_base_def buffers_read_simps)

lemma no_base_Suc:
  "no_base fill (Suc k) n s s' \<longleftrightarrow> (\<exists>g. fill (div_ceil (nat_bits n) 8) s = (Inl g, s'))
     \<or> (\<exists>buffer s1. fill (div_ceil (nat_bits n) 8) s = (Inr buffer, s1) \<and> \<not> base_in_range n buffer \<and> no_base fill k n s1 s')"
  (is "?L \<longleftrightarrow> ?R")
proof
  assume ?L
  then obtain rejected t where r: "buffers_read fill (div_ceil (nat_bits n) 8) s rejected t" "\<forall>r \<in> set rejected. \<not> base_in_range n r"
      "length rejected = Suc k \<and> s' = t \<or> length rejected < Suc k \<and> (\<exists>g. fill (div_ceil (nat_bits n) 8) t = (Inl g, s'))"
    unfolding no_base_def by blast
  show ?R
  proof (cases rejected)
    case Nil
    then show ?thesis using r by (simp add: buffers_read_simps)
  next
    case (Cons c cs)
    then obtain s1 where "fill (div_ceil (nat_bits n) 8) s = (Inr c, s1)" "buffers_read fill (div_ceil (nat_bits n) 8) s1 cs t"
      using r(1) by (auto simp: buffers_read_simps)
    then show ?thesis using r Cons unfolding no_base_def by auto
  qed
next
  assume ?R
  then consider (failed) g where "fill (div_ceil (nat_bits n) 8) s = (Inl g, s')"
    | (more) buffer s1 where "fill (div_ceil (nat_bits n) 8) s = (Inr buffer, s1)" "\<not> base_in_range n buffer" "no_base fill k n s1 s'" by blast
  then show ?L
  proof cases
    case failed
    have "buffers_read fill (div_ceil (nat_bits n) 8) s [] s" by (rule read_none)
    then show ?thesis using failed unfolding no_base_def by fastforce
  next
    case more
    then obtain rejected t where r: "buffers_read fill (div_ceil (nat_bits n) 8) s1 rejected t" "\<forall>r \<in> set rejected. \<not> base_in_range n r"
        "length rejected = k \<and> s' = t \<or> length rejected < k \<and> (\<exists>g. fill (div_ceil (nat_bits n) 8) t = (Inl g, s'))"
      unfolding no_base_def by blast
    have "buffers_read fill (div_ceil (nat_bits n) 8) s (buffer # rejected) t" using more(1) r(1) by (rule read_more)
    moreover have "length (buffer # rejected) = Suc k \<and> s' = t
        \<or> length (buffer # rejected) < Suc k \<and> (\<exists>g. fill (div_ceil (nat_bits n) 8) t = (Inl g, s'))" using r(3) by simp
    moreover have "\<forall>r \<in> set (buffer # rejected). \<not> base_in_range n r" using r(2) more(2) by simp
    ultimately show ?thesis unfolding no_base_def by blast
  qed
qed

lemma sample_base_Suc:
  "sample_base fill n (n - 1) (Suc k) s = (case fill (div_ceil (nat_bits n) 8) s of
       (Inl g, s1) \<Rightarrow> (Inl (Err Priv_RandomnessUnavailable), s1)
     | (Inr buffer, s1) \<Rightarrow> if base_in_range n buffer then (Inr (masked_base n buffer), s1) else sample_base fill n (n - 1) k s1)"
  by (simp add: bindE_def map_errE_def map_errR_def Let_def okE_def base_in_range_def split: prod.split sum.split)

lemma sample_base_iff:
  "sample_base fill n (n - 1) k s = (Inr b, s') \<longleftrightarrow> base_drawn fill k n s b s'"
  "sample_base fill n (n - 1) k s = (Inl e, s') \<longleftrightarrow> e = Err Priv_RandomnessUnavailable \<and> no_base fill k n s s'"
proof (induction k arbitrary: s)
  case 0
  { case 1 show ?case by (simp add: errE_def base_drawn_0) }
  { case 2 show ?case by (auto simp: errE_def no_base_0) }
next
  case (Suc k)
  { case 1 show ?case unfolding sample_base_Suc base_drawn_Suc using Suc.IH(1) by (auto split: prod.split sum.split) }
  { case 2 show ?case unfolding sample_base_Suc no_base_Suc using Suc.IH(2) by (auto split: prod.split sum.split) }
qed

lemma no_base_iff: "no_base fill k n s s' \<longleftrightarrow> sample_base fill n (n - 1) k s = (Inl (Err Priv_RandomnessUnavailable), s')"
  unfolding sample_base_iff(2) by simp

lemma sample_base_error: "sample_base fill n (n - 1) k s = (Inl e, s') \<Longrightarrow> e = Err Priv_RandomnessUnavailable"
  unfolding sample_base_iff(2) by simp

text \<open>The rounds: which bases were drawn when the loop answers.\<close>

lemma probable_prime_iff:
  assumes "odd n" "3 < n"
  shows "probable_prime fill n rounds s = (Inr True, s') \<longleftrightarrow>
      (\<exists>bases. bases_drawn fill n s bases s' \<and> length bases = rounds \<and> (\<forall>b \<in> set bases. miller_rabin_passes n b))"
    "probable_prime fill n rounds s = (Inr False, s') \<longleftrightarrow>
      (\<exists>bases b. bases_drawn fill n s (bases @ [b]) s' \<and> length bases < rounds
         \<and> (\<forall>b \<in> set bases. miller_rabin_passes n b) \<and> \<not> miller_rabin_passes n b)"
    "probable_prime fill n rounds s = (Inl e, s') \<longleftrightarrow> e = Err Priv_RandomnessUnavailable \<and>
      (\<exists>bases s1. bases_drawn fill n s bases s1 \<and> length bases < rounds \<and> (\<forall>b \<in> set bases. miller_rabin_passes n b)
         \<and> no_base fill 128 n s1 s')"
proof (induction rounds arbitrary: s)
  case 0
  { case 1 show ?case by (auto simp: probable_prime_rounds [OF assms] okE_def bases_drawn_simps) }
  { case 2 show ?case by (simp add: probable_prime_rounds [OF assms] okE_def) }
  { case 3 show ?case by (simp add: probable_prime_rounds [OF assms] okE_def) }
next
  case (Suc k)
  have two: "2 < n" using assms(2) by simp
  have step: "probable_prime fill n (Suc k) s = (case sample_base fill n (n - 1) 128 s of (Inl e, s1) \<Rightarrow> (Inl e, s1)
      | (Inr b, s1) \<Rightarrow> if miller_rabin_passes n b then probable_prime fill n k s1 else (Inr False, s1))" for s
    unfolding probable_prime_rounds [OF assms] prime_rounds.simps prime_round_iff [OF two assms(1)] bindE_def okE_def
    by (simp split: prod.split sum.split)
  {
    case 1
    show ?case unfolding step using Suc.IH(1)
      by (subst ex_list [where 'a = nat]) (auto simp: bases_drawn_simps sample_base_iff(1) [symmetric] split: prod.splits sum.splits)
  next
    case 2
    show ?case unfolding step using Suc.IH(2)
      by (subst ex_list [where 'a = nat]) (auto simp: bases_drawn_simps sample_base_iff(1) [symmetric] split: prod.splits sum.splits)
  next
    case 3
    show ?case unfolding step using Suc.IH(3)
      by (subst ex_list [where 'a = nat]) (auto simp: bases_drawn_simps sample_base_iff(1) [symmetric] no_base_iff dest!: sample_base_error [simplified] split: prod.splits sum.splits)
  }
qed

lemma probable_prime_accepts_primes:
  assumes "is_prime n"
  shows "settles (probable_prime fill n rounds) (\<lambda>e. e = Err Priv_RandomnessUnavailable) (\<lambda>r. r)"
proof (cases "n \<le> 3")
  case True
  moreover have "1 < n" using assms by (rule is_primeD)
  ultimately have "n = 2 \<or> n = 3" by linarith
  then show ?thesis by (auto simp: probable_prime_def settles_okE)
next
  case False
  then have n: "3 < n" by simp
  then have o: "odd n" using is_primeD(2) [OF assms, of 2] by auto
  have pass: "1 < b \<and> b < n - 1 \<Longrightarrow> miller_rabin_passes n b" for b
    using prime_passes [OF assms o, of b] nat_dvd_not_less [of b n] by linarith
  have two: "2 < n" using n by simp
  show ?thesis unfolding probable_prime_rounds [OF o n]
  proof (induction rounds)
    case 0
    show ?case by (simp add: settles_okE)
  next
    case (Suc k)
    then show ?case unfolding prime_rounds.simps prime_round_iff [OF two o]
      by (intro settles_bindE [OF sample_base_range]) (simp add: pass)
  qed
qed

lemma probable_prime_constant:
  assumes "odd n" "3 < n" "returns (fill (div_ceil (nat_bits n) 8)) buffer"
    "1 < masked_base n buffer" "masked_base n buffer < n - 1"
  shows "0 < rounds \<Longrightarrow> returns (probable_prime fill n rounds) (miller_rabin_passes n (masked_base n buffer))"
    and "miller_rabin_passes n (masked_base n buffer) \<Longrightarrow> returns (probable_prime fill n rounds) True"
proof -
  let ?P = "miller_rabin_passes n (masked_base n buffer)"
  have two: "2 < n" using assms(2) by simp
  have s: "returns (sample_base fill n (n - 1) 128) (masked_base n buffer)"
    using sample_base_returns [of fill n buffer "n - 1" 127] assms(3-5) by simp
  have yes: "?P \<Longrightarrow> returns (probable_prime fill n k) True" for k
    unfolding probable_prime_rounds [OF assms(1,2)]
  proof (induction k)
    case (Suc k)
    then show ?case unfolding prime_rounds.simps prime_round_iff [OF two assms(1)]
      by (intro returns_bindE [OF s]) simp
  qed simp
  then show "?P \<Longrightarrow> returns (probable_prime fill n rounds) True" .
  assume "0 < rounds"
  then obtain k where k: "rounds = Suc k" by (cases rounds) auto
  show "returns (probable_prime fill n rounds) ?P"
  proof (cases ?P)
    case False
    show ?thesis unfolding probable_prime_rounds [OF assms(1,2)] k prime_rounds.simps prime_round_iff [OF two assms(1)]
      by (rule returns_bindE [OF s]) (simp add: False)
  qed (simp add: yes)
qed


section \<open>Private validation\<close>

definition has_proper_factor :: "nat \<Rightarrow> bool" where
  "has_proper_factor v \<longleftrightarrow> (\<exists>f. 1 < f \<and> f < v \<and> f dvd v)"

lemma no_proper_factor: "1 < v \<Longrightarrow> \<not> has_proper_factor v \<Longrightarrow> is_prime v"
  unfolding has_proper_factor_def is_prime_def
  by (metis dvd_0_left_iff dvd_imp_le le_neq_implies_less less_one linorder_neqE_nat not_less_zero zero_less_one less_trans)

lemma exponent_mod_divisor:
  assumes "k mod l = 1" "g dvd l"
  shows "k mod g = 1 mod (g :: nat)"
  using assms by (metis mod_mod_cancel)

lemma rsa_inverse:
  assumes "is_prime p" "is_prime q" "p \<noteq> q" "d * e mod lcm (p - 1) (q - 1) = 1" "m < p * q"
  shows "(m ^ e mod (p * q)) ^ d mod (p * q) = m"
proof -
  have pos: "0 < e * d" using assms(4) by (cases "e * d = 0") (auto simp: mult.commute)
  have k: "e * d mod (p - 1) = 1 mod (p - 1)" "e * d mod (q - 1) = 1 mod (q - 1)"
    using exponent_mod_divisor [OF assms(4)] by (simp_all add: mult.commute)
  have "m ^ (e * d) mod p = m mod p" "m ^ (e * d) mod q = m mod q"
    using fermat_exponent [OF assms(1) k(1) pos] fermat_exponent [OF assms(2) k(2) pos] by blast+
  moreover have "m \<le> m ^ (e * d)" using pos by (cases "m = 0") (simp_all add: self_le_power)
  ultimately have "p dvd m ^ (e * d) - m" "q dvd m ^ (e * d) - m" using mod_eq_dvd_iff_nat by blast+
  moreover have "coprime p q"
    using prime_coprime [OF assms(1), of q] is_primeD [OF assms(2)] is_primeD(1) [OF assms(1)] assms(3)
    by (metis nat_neq_iff)
  ultimately have "p * q dvd m ^ (e * d) - m" by (simp add: divides_mult)
  then have "m ^ (e * d) mod (p * q) = m mod (p * q)"
    using mod_eq_dvd_iff_nat [OF \<open>m \<le> m ^ (e * d)\<close>] by blast
  then show ?thesis using assms(5) by (simp add: power_mod power_mult)
qed


text \<open>The conditions of SP 800-56B on a two-prime key, as numbers.\<close>

definition sp800_56b_key :: "('k, 'p) rsa_key_crate \<Rightarrow> 'k \<Rightarrow> nat \<Rightarrow> bool" where
  "sp800_56b_key rsa key bits \<longleftrightarrow>
     (\<exists>p q. priv_primes rsa key = [p, q] \<and> priv_n rsa key = p * q \<and> odd p \<and> odd q
       \<and> MIN_RSA_BITS \<le> bits \<and> bits \<le> MAX_RSA_BITS \<and> nat_bits (p * q) = bits
       \<and> nat_bits p + nat_bits q = bits \<and> nat_bits p \<le> nat_bits q + 1 \<and> nat_bits q \<le> nat_bits p + 1
       \<and> 2 ^ (2 * nat_bits p - 1) \<le> p\<^sup>2 \<and> 2 ^ (2 * nat_bits q - 1) \<le> q\<^sup>2
       \<and> 2 ^ (bits div 2 - 100) < abs_diff p q
       \<and> 3 \<le> priv_e rsa key \<and> odd (priv_e rsa key) \<and> priv_e rsa key < 2 ^ 256
       \<and> coprime (priv_e rsa key) (p - 1) \<and> coprime (priv_e rsa key) (q - 1)
       \<and> 2 ^ (bits div 2) < priv_d rsa key \<and> priv_d rsa key < lcm (p - 1) (q - 1)
       \<and> priv_d rsa key * priv_e rsa key mod lcm (p - 1) (q - 1) = 1)"

lemma probable_prime_errors:
  "settles (probable_prime fill n rounds) (\<lambda>e. e = Err Priv_RandomnessUnavailable) (\<lambda>_. True)"
proof (cases "3 < n \<and> odd n")
  case True
  then have n: "odd n" "3 < n" by blast+
  show ?thesis unfolding probable_prime_rounds [OF n]
  proof (induction rounds)
    case (Suc k)
    then show ?case unfolding prime_rounds.simps
      by (intro settles_bindE [OF sample_base_range]) (simp add: settles_okE)
  qed (simp add: settles_okE)
qed (auto simp: probable_prime_def settles_okE)

lemma two_primes: "length ps = 2 \<Longrightarrow> ps = [ps ! 0, ps ! 1]"
  by (cases ps; cases "tl ps") simp_all

lemma private_validation_settles:
  "settles (private_validate_with_rng rsa estimate fill key bits) (\<lambda>e. e \<noteq> Panic) (\<lambda>_. sp800_56b_key rsa key bits)"
  unfolding private_validate_with_rng_def Let_def
proof (intro settles_ok_orE_bindE settles_rejectE_bindE settles_bindE [where R = "\<lambda>_. True"] settles_rejectE)
  let ?p = "priv_primes rsa key ! 0" and ?q = "priv_primes rsa key ! 1"
  fix strength rounds
  assume s: "validation_strength estimate bits = Some strength"
    and g1: "\<not> (nat_bits (priv_n rsa key) \<noteq> bits \<or> priv_e rsa key < 3 \<or> even (priv_e rsa key)
      \<or> nat_bits (priv_e rsa key) > 256 \<or> length (priv_primes rsa key) \<noteq> 2)"
    and g2: "\<not> (nat_bits ?p + nat_bits ?q \<noteq> bits \<or> abs_diff (nat_bits ?p) (nat_bits ?q) > 1 \<or> even ?p \<or> even ?q
      \<or> ?p * ?p < 2 ^ (2 * nat_bits ?p - 1) \<or> ?q * ?q < 2 ^ (2 * nat_bits ?q - 1) \<or> ?p * ?q \<noteq> priv_n rsa key)"
    and g3: "\<not> (if ?p > ?q then ?p - ?q else ?q - ?p) \<le> 2 ^ (bits div 2 - 100)"
    and g4: "\<not> (gcd (?p - 1) (priv_e rsa key) \<noteq> 1 \<or> gcd (?q - 1) (priv_e rsa key) \<noteq> 1)"
    and g5: "\<not> (priv_d rsa key \<le> 2 ^ (bits div 2) \<or> lcm (?p - 1) (?q - 1) \<le> priv_d rsa key
      \<or> priv_d rsa key * priv_e rsa key mod lcm (?p - 1) (?q - 1) \<noteq> 1)"
  have "MIN_RSA_BITS \<le> bits" "bits \<le> MAX_RSA_BITS" using s by (simp_all add: validation_strength_def split: if_splits)
  moreover have "priv_primes rsa key = [?p, ?q]" using g1 two_primes by blast
  moreover have "abs_diff ?p ?q = (if ?p > ?q then ?p - ?q else ?q - ?p)" by (simp add: abs_diff_def)
  moreover have "nat_bits ?p \<le> nat_bits ?q + 1" "nat_bits ?q \<le> nat_bits ?p + 1"
    using g2 by (auto simp: abs_diff_def split: if_splits)
  moreover have "coprime (priv_e rsa key) (?p - 1)" "coprime (priv_e rsa key) (?q - 1)"
    using g4 by (simp_all add: coprime_iff_gcd_eq_1 gcd.commute)
  moreover have "priv_e rsa key < 2 ^ 256" using g1 nat_bits_le_iff [of "priv_e rsa key" 256] by (simp only: not_less simp_thms de_Morgan_disj)
  ultimately show "sp800_56b_key rsa key bits"
    unfolding sp800_56b_key_def power2_eq_square
    using g1 g2 g3 g5 by (intro exI [of _ ?p] exI [of _ ?q]) (simp only: not_less not_le simp_thms de_Morgan_disj)
qed (auto intro: settles_weaken [OF probable_prime_errors] settles_okE)


section \<open>Sample keys\<close>

text \<open>
  Numbers with a base of small order, so that every power the checks take is a short computation:
  the product of the Mersenne factors \<open>2 ^ 527 - 1\<close> as a public modulus, and two cyclotomic values at
  seven as the factors of a private key.
\<close>

definition sample_modulus :: nat where "sample_modulus = 2 ^ 527 - 1"

definition sample_p :: nat where
  "sample_p = 1347137238494236011616409424554801312589016593551210172009792771818298600357148801"

definition sample_q :: nat where
  "sample_q = 1347137238494276547832006567721872890819289910086437183564644288902542085305628801"

definition sample_lambda :: nat where
  "sample_lambda = 1487815647197566926591998078772312487684646428736977931608823962826622263155613705087604645882580643278108800"

definition sample_d :: nat where
  "sample_d = 1352559679270515387810907344338465897895133117033616301462567238933292966505103368261458768984164221161917091"

text \<open>A random source that always returns the same small number, and a crate whose only private
  key is the sample key.\<close>

definition constant_fill :: "byte \<Rightarrow> nat \<Rightarrow> (unit, unit, bytes) op" where
  "constant_fill b k = okE (replicate (k - 1) 0 @ [b])"

definition sample_rsa :: "(nat list, nat \<times> nat) rsa_key_crate" where
  "sample_rsa = \<lparr> priv_n = (\<lambda>ps. ps ! 0 * ps ! 1), pub_n = fst,
     rsa_decrypt_and_check = (\<lambda>_ c. if c = 2048 then Some 2 else None),
     rsa_encrypt = (\<lambda>(n, e) m. Some (modpow m e n)),
     decrypt_blinded_pkcs1v15 = (\<lambda>_ _. None),
     priv_e = (\<lambda>_. 11), priv_d = (\<lambda>_. sample_d), priv_primes = (\<lambda>ps. ps), pub_e = snd,
     from_p_q = (\<lambda>p q e. if e = 11 \<and> p = sample_p \<and> q = sample_q then Some [p, q] else None),
     from_components = (\<lambda>n e d ps. if e = 11 \<and> d = sample_d \<and> ps = [sample_p, sample_q] then Some ps else None),
     precompute = Some, from_pkcs8_der = (\<lambda>_. None), from_pkcs1_der = (\<lambda>_. None),
     new_with_max_size = (\<lambda>n e _. Some (n, e)) \<rparr>"

lemma ctz_unique: "v = 2 ^ a * m \<Longrightarrow> odd m \<Longrightarrow> count_trailing_zeros v = a \<and> v div 2 ^ a = m"
proof (induction a arbitrary: v)
  case 0
  then show ?case by (simp add: count_trailing_zeros.simps)
next
  case (Suc a)
  have "0 < m" using Suc.prems(2) by (rule odd_pos)
  then have "v \<noteq> 0" "even v" "v div 2 = 2 ^ a * m" using Suc.prems(1) by simp_all
  moreover have "v div 2 ^ Suc a = v div 2 div 2 ^ a" by (simp add: div_mult2_eq)
  ultimately show ?case
    using Suc.IH [of "v div 2"] Suc.prems(2) by (subst count_trailing_zeros.simps) simp
qed

lemma power_order: "b ^ t mod n = 1 \<Longrightarrow> b ^ (t * k + r) mod n = b ^ r mod (n :: nat)"
proof -
  assume t: "b ^ t mod n = 1"
  have "b ^ (t * k + r) mod n = ((b ^ t mod n) ^ k mod n) * b ^ r mod n"
    by (simp add: power_add power_mult power_mod mod_mult_left_eq)
  then show ?thesis using t by (simp add: mod_mult_left_eq)
qed

lemma coprime_certificate: "u * a = v * b + 1 \<Longrightarrow> coprime a (b :: nat)"
  by (metis coprime_commute coprime_mult_left_iff coprime_add_one_right coprime_mult_right_iff)

lemma nat_bits_eqI: "2 ^ k \<le> v \<Longrightarrow> v < 2 ^ Suc k \<Longrightarrow> nat_bits v = Suc k"
  using nat_bits_le_iff [of v k] nat_bits_le_iff [of v "Suc k"] by linarith

lemma lcm_certificate: "coprime a b \<Longrightarrow> lcm (g * a) (g * b) = g * a * (b :: nat)"
  by (simp add: lcm_mult_left lcm_coprime mult.assoc)

lemma be_nat_small: "be_nat (replicate k 0 @ [b]) = unat b"
  using be_nat_leading_zeros [of k "[b]"] by (simp add: be_nat_def)

lemma masked_constant: "masked_base n (replicate (Suc k) 0 @ [b]) = unat b"
  using be_nat_small [of "Suc k" b] by (simp add: masked_base_def)

lemma constant_fill_returns: "returns (constant_fill b k) (replicate (k - 1) 0 @ [b])"
  by (simp add: constant_fill_def)


text \<open>A base of order \<open>2 * h\<close> passes when one of the tested exponents is an odd multiple of \<open>h\<close>.\<close>

lemma passes_by_order:
  assumes "n - 1 = 2 ^ a * m" "odd m" "i < a" "2 ^ i * m = (2 * h) * k + h" "b ^ h mod n = n - 1" "1 < n"
  shows "miller_rabin_passes n b"
proof -
  have c: "count_trailing_zeros (n - 1) = a" "(n - 1) div 2 ^ a = m" using ctz_unique [OF assms(1,2)] by blast+
  obtain n' where n: "n = Suc n'" "0 < n'" using assms(6) by (cases n) auto
  have "n' * n' = n * (n' - 1) + 1" using n by (simp add: diff_mult_distrib2)
  then have sq: "(n - 1) * (n - 1) mod n = 1" using n assms(6) by (simp only: diff_Suc_1 mod_mult_self4 mod_less)
  have "b ^ (2 * h) mod n = 1" unfolding power_square_mod [of b h n, symmetric] assms(5) by (rule sq)
  then have "b ^ (2 ^ i * m) mod n = n - 1" unfolding assms(4) assms(5) [symmetric] by (rule power_order)
  then show ?thesis unfolding miller_rabin_passes_def Let_def c using assms(3) by blast
qed

lemma sample_passes: "miller_rabin_passes sample_p 7" "miller_rabin_passes sample_q 7"
proof -
  show "miller_rabin_passes sample_p 7"
    by (rule passes_by_order [where a = 7 and i = 4 and h = 112
          and m = 10524509675736218840753198629334385254601692137118829468826506029830457815290225 and k = 751750691124015631482371330666741803900120866937059247773321859273604129663587])
      (simp_all add: sample_p_def)
  show "miller_rabin_passes sample_q 7"
    by (rule passes_by_order [where a = 7 and i = 4 and h = 144
          and m = 10524509675736535529937551310327131959525702422550290496598783507051110041450225 and k = 584694981985363084996530628351507331084761245697238360922154639280617224525012])
      (simp_all add: sample_q_def)
qed

lemma sample_lambda: "lcm (sample_p - 1) (sample_q - 1) = sample_lambda"
proof -
  have "coprime 1104427674243887413374729601 (1104427674243920646305299201 :: nat)"
    by (rule coprime_certificate [where u = 33232930569602 and v = 33232930569601]) simp
  moreover have "sample_p - 1 = 1219760487635835700138573862562971820755582061200668800 * 1104427674243887413374729601"
    "sample_q - 1 = 1219760487635835700138573862562971820755582061200668800 * 1104427674243920646305299201"
    "sample_lambda = 1219760487635835700138573862562971820755582061200668800 * 1104427674243887413374729601 * 1104427674243920646305299201"
    by (simp_all add: sample_p_def sample_q_def sample_lambda_def)
  ultimately show ?thesis by (simp only: lcm_certificate)
qed

lemma sample_bits: "nat_bits sample_p = 270" "nat_bits sample_q = 270" "nat_bits (sample_p * sample_q) = 540" "nat_bits 11 = 4"
  using nat_bits_eqI [of 269 sample_p] nat_bits_eqI [of 269 sample_q] nat_bits_eqI [of 539 "sample_p * sample_q"]
    nat_bits_eqI [of 3 11]
  by (simp_all add: sample_p_def sample_q_def)

lemma sample_private_accepted: "returns (private_validate_with_rng sample_rsa (\<lambda>_. 0) (constant_fill 7) [sample_p, sample_q] 540) ()"
proof -
  have strength: "validation_strength (\<lambda>_. 0) 540 = Some 112"
    by (simp add: validation_strength_def MIN_RSA_BITS_def MAX_RSA_BITS_def)
  have odds: "odd sample_p" "odd sample_q" "3 < sample_p" "3 < sample_q" "7 < sample_p - 1" "7 < sample_q - 1"
    by (simp_all add: sample_p_def sample_q_def)
  have prime: "returns (probable_prime (constant_fill 7) v k) True"
    if "odd v" "3 < v" "nat_bits v = 270" "7 < v - 1" "miller_rabin_passes v 7" for v k
  proof -
    have m: "masked_base v (replicate (34 - 1) 0 @ [7]) = 7" using masked_constant [of v 32 7] by simp
    have "returns (constant_fill 7 (div_ceil (nat_bits v) 8)) (replicate (34 - 1) 0 @ [7])"
      using constant_fill_returns [of 7 34] that(3) by (simp add: div_ceil_def)
    from probable_prime_constant(2) [where fill = "constant_fill 7", OF that(1,2) this, unfolded m] that
    show ?thesis by simp
  qed
  have pq: "returns (probable_prime (constant_fill 7) sample_p k) True"
    "returns (probable_prime (constant_fill 7) sample_q k) True" for k
    using prime odds sample_bits sample_passes by blast+
  have size: "2 ^ (2 * 270 - 1) \<le> sample_p * sample_p" "2 ^ (2 * 270 - 1) \<le> sample_q * sample_q"
    "sample_p < sample_q" "2 ^ (540 div 2 - 100) < sample_q - sample_p"
    by (simp_all add: sample_p_def sample_q_def)
  have g: "gcd (sample_p - 1) 11 = 1" "gcd (sample_q - 1) 11 = 1"
    unfolding coprime_iff_gcd_eq_1 [symmetric]
    by (rule coprime_certificate [where u = 5 and v = 612335108406470914371095192979455142085916633432368260004451259917408454707794909], simp add: sample_p_def)
      (rule coprime_certificate [where u = 2 and v = 244934043362595735969455739585795071058052710924806760648117143436825833691932509], simp add: sample_q_def)
  have d: "2 ^ (540 div 2) < sample_d" "sample_d < sample_lambda" "sample_d * 11 mod sample_lambda = 1"
    by (simp_all add: sample_d_def sample_lambda_def)
  have ct: "modpow 2 11 (sample_p * sample_q) = 2048" by (simp add: modpow_def sample_p_def sample_q_def)
  have parts: "priv_n sample_rsa [sample_p, sample_q] = sample_p * sample_q" "priv_e sample_rsa ks = 11"
    "priv_d sample_rsa ks = sample_d" "priv_primes sample_rsa ks = ks"
    "rsa_decrypt_and_check sample_rsa ks 2048 = Some 2" for ks
    by (simp_all add: sample_rsa_def)
  have at: "[sample_p, sample_q] ! 0 = sample_p" "[sample_p, sample_q] ! 1 = sample_q" "length [sample_p, sample_q] = 2" by simp_all
  have guards: "\<not> (nat_bits (sample_p * sample_q) \<noteq> 540 \<or> (11 :: nat) < 3 \<or> even (11 :: nat) \<or> nat_bits 11 > 256 \<or> (2 :: nat) \<noteq> 2)"
    "\<not> (270 + 270 \<noteq> (540 :: nat) \<or> abs_diff 270 270 > 1 \<or> even sample_p \<or> even sample_q
       \<or> sample_p * sample_p < 2 ^ (2 * 270 - 1) \<or> sample_q * sample_q < 2 ^ (2 * 270 - 1)
       \<or> sample_p * sample_q \<noteq> sample_p * sample_q)"
    "\<not> (if sample_q < sample_p then sample_p - sample_q else sample_q - sample_p) \<le> 2 ^ (540 div 2 - 100)"
    "\<not> (gcd (sample_p - 1) 11 \<noteq> 1 \<or> gcd (sample_q - 1) 11 \<noteq> 1)"
    "\<not> (sample_d \<le> 2 ^ (540 div 2) \<or> sample_lambda \<le> sample_d \<or> sample_d * 11 mod sample_lambda \<noteq> 1)"
    using sample_bits odds size g d by (simp_all add: abs_diff_def not_le not_less del: power_numeral)
  show ?thesis
    unfolding private_validate_with_rng_def Let_def parts at strength ok_orE_simps bindE_okE sample_bits(1,2) sample_lambda ct
    by (intro returns_bindE [OF returns_rejectE] returns_bindE [OF pq(1)] guards)
      (simp only: if_True simp_thms, intro returns_bindE [OF pq(2)] returns_bindE [OF returns_rejectE], simp_all)
qed

lemma power_gcd_one: "1 < r \<Longrightarrow> x ^ a mod r = 1 \<Longrightarrow> x ^ b mod r = 1 \<Longrightarrow> x ^ gcd a b mod r = (1 :: nat)"
proof (induction a b rule: gcd_nat_induct)
  case (base m)
  then show ?case by simp
next
  case (step m n)
  have "x ^ (n * (m div n) + m mod n) mod r = x ^ (m mod n) mod r" by (rule power_order) (rule step)
  then have "x ^ (m mod n) mod r = 1" unfolding mult_div_mod_eq step.prems(2) by (rule sym)
  then have "x ^ gcd n (m mod n) mod r = 1" using step by blast
  then show ?case unfolding gcd_red_nat [of m n] .
qed

text \<open>A prime factor \<open>r\<close> of \<open>2 ^ t - 1\<close> divides \<open>2 ^ gcd (r - 1) t - 1\<close> as well.\<close>

lemma mersenne_factor:
  assumes "is_prime r" "r dvd 2 ^ t - 1" "0 < t"
  shows "r dvd 2 ^ gcd (r - 1) t - 1"
proof -
  have r1: "1 < r" using assms(1) by (rule is_primeD)
  have pow: "2 ^ k mod r = 1 \<longleftrightarrow> r dvd 2 ^ k - 1" for k
    using mod_eq_dvd_iff_nat [of 1 "2 ^ k" r] r1 by simp
  have "odd (2 ^ t - 1 :: nat)" using assms(3) by simp
  then have "odd r" using assms(2) dvd_trans by blast
  then have "r \<noteq> 2" by auto
  then have "\<not> r dvd 2" using r1 dvd_imp_le [of r 2] by linarith
  then have "2 ^ (r - 1) mod r = 1" by (rule fermat_unit [OF assms(1)])
  then show ?thesis using power_gcd_one [OF r1] assms(2) unfolding pow [symmetric] by blast
qed

lemma dvd_527:
  assumes "d dvd 527"
  shows "d \<in> {1, 17, 31, 527 :: nat}"
proof -
  obtain k where k: "527 = d * k" using assms by (rule dvdE)
  have s: "list_all (\<lambda>j. 527 mod j = 0 \<longrightarrow> j = 17) [2..<23 :: nat]" by simp
  have small: "j = 1 \<or> j = 17" if j: "j dvd 527" "j < 23" for j :: nat
  proof (cases "j < 2")
    case True
    then show ?thesis using j(1) by (auto simp: less_2_cases_iff)
  next
    case False
    then have "j \<in> set [2..<23]" using j(2) by (simp only: set_upt atLeastLessThan_iff) simp
    then show ?thesis using s j(1) unfolding list_all_iff mod_eq_0_iff_dvd by blast
  qed
  have "d < 23 \<or> k < 23"
  proof (rule ccontr)
    assume "\<not> (d < 23 \<or> k < 23)"
    then have "23 * 23 \<le> d * k" by (intro mult_le_mono) simp_all
    then show False using k by simp
  qed
  then show ?thesis using small [of d] small [of k] k assms by (auto simp: dvd_def)
qed

lemma sample_modulus_prime_factors:
  assumes "is_prime r" "r dvd sample_modulus"
  shows "751 < r"
proof (rule ccontr)
  assume "\<not> 751 < r"
  then have small: "r \<le> 751" by simp
  have r1: "1 < r" using assms(1) by (rule is_primeD)
  let ?d = "gcd (r - 1) 527"
  have f: "r dvd 2 ^ ?d - 1" using assms unfolding sample_modulus_def by (rule mersenne_factor) simp
  have d: "?d dvd r - 1" by simp
  have seventeen: "list_all (\<lambda>j. 131071 mod (17 * j + 1) \<noteq> 0) [2..<45 :: nat]" by simp
  have thirtyone: "list_all (\<lambda>j. 2147483647 mod (31 * j + 1) \<noteq> 0) [2..<25 :: nat]" by simp
  consider "?d = 1" | "?d = 17" | "?d = 31" | "?d = 527" using dvd_527 [of ?d] by auto
  then show False
  proof cases
    case 1
    then show ?thesis using f r1 by simp
  next
    case 2
    then obtain j where j: "r - 1 = 17 * j" using d by (metis dvdE)
    then have r: "r = 17 * j + 1" "1 \<le> j" "j < 45" using r1 small by linarith+
    have "131071 mod r \<noteq> 0"
    proof (cases "j = 1")
      case True
      then show ?thesis using r by simp
    next
      case False
      then have "j \<in> set [2..<45]" using r by (simp only: set_upt atLeastLessThan_iff) simp
      then show ?thesis using seventeen unfolding list_all_iff r(1) by blast
    qed
    then show ?thesis using f 2 by (simp add: mod_eq_0_iff_dvd)
  next
    case 3
    then obtain j where j: "r - 1 = 31 * j" using d by (metis dvdE)
    then have r: "r = 31 * j + 1" "1 \<le> j" "j < 25" using r1 small by linarith+
    have "2147483647 mod r \<noteq> 0"
    proof (cases "j = 1")
      case True
      then show ?thesis using r by simp
    next
      case False
      then have "j \<in> set [2..<25]" using r by (simp only: set_upt atLeastLessThan_iff) simp
      then show ?thesis using thirtyone unfolding list_all_iff r(1) by blast
    qed
    then show ?thesis using f 3 by (simp add: mod_eq_0_iff_dvd)
  next
    case 4
    then obtain j where j: "r - 1 = 527 * j" using d by (metis dvdE)
    then have "j = 1" using r1 small by (cases j) simp_all
    then have "r = 528" using j r1 by simp
    then show ?thesis using is_primeD(2) [OF assms(1), of 2] by simp
  qed
qed

lemma sample_modulus_coprime: "gcd sample_modulus small_factors = 1"
proof -
  have "coprime sample_modulus c" if c: "c \<in> set (odd_candidates 752)" for c
  proof (rule ccontr)
    assume "\<not> coprime sample_modulus c"
    then have "gcd sample_modulus c \<noteq> 1" using coprime_iff_gcd_eq_1 by blast
    moreover have c0: "0 < c" "c \<le> 751" using c by (simp_all add: set_odd_candidates)
    moreover have "gcd sample_modulus c \<noteq> 0" using c0 by simp
    ultimately have "1 < gcd sample_modulus c" by linarith
    then obtain r where r: "is_prime r" "r dvd gcd sample_modulus c" using prime_factor_exists by blast
    then have "r dvd sample_modulus" "r dvd c" by (simp_all only: gcd_greatest_iff)
    then show False using sample_modulus_prime_factors [OF r(1)] c0 dvd_imp_le [of r c] by linarith
  qed
  then show ?thesis unfolding coprime_iff_gcd_eq_1 [symmetric] small_factors_def
    by (intro product_coprime) simp_all
qed

lemma sample_round: "enhanced_round sample_modulus (sample_modulus - 1) 1 219673525124179510879420825570604582952621929604585773100622830693937381868724993667921908501166545759273481964527387457187903615990932602002368905315681828863 2 = Inr CompositeNotPrimePower"
proof -
  have one: "2 ^ 527 mod sample_modulus = 1" by (simp add: sample_modulus_def)
  have e: "219673525124179510879420825570604582952621929604585773100622830693937381868724993667921908501166545759273481964527387457187903615990932602002368905315681828863 = 527 * (416837808584780855558673293302854996115032124486880024858866851411645885898908906390743659395002933129551199173676257034512151073986589377613603235893134400 :: nat) + 63" by simp
  have "2 ^ (527 * 416837808584780855558673293302854996115032124486880024858866851411645885898908906390743659395002933129551199173676257034512151073986589377613603235893134400 + 63) mod sample_modulus = 2 ^ 63 mod sample_modulus"
    using one by (rule power_order)
  moreover have "2 ^ 63 mod sample_modulus = 2 ^ 63" by (rule mod_less) (simp add: sample_modulus_def)
  ultimately have z: "modpow 2 219673525124179510879420825570604582952621929604585773100622830693937381868724993667921908501166545759273481964527387457187903615990932602002368905315681828863 sample_modulus = 2 ^ 63"
    unfolding modpow_def e by (rule trans)
  have "coprime (2 ^ 126 - 1 :: nat) sample_modulus"
    by (rule coprime_certificate [where u = 439132420547394633360247256018589084268104380091895109103864667853166813443936437497566463384196418750756685623287026307894380830189564262557611359669980229629 and v = 85029033068002554993780122444141424638]) (simp add: sample_modulus_def)
  then have g: "gcd (2 ^ 126 - 1) sample_modulus = 1" by (simp only: coprime_iff_gcd_eq_1)
  have sq: "2 ^ 63 * 2 ^ 63 mod sample_modulus = 2 ^ 126" "(2 :: nat) ^ 63 \<noteq> 1" "2 ^ 63 \<noteq> sample_modulus - 1"
    "(2 :: nat) ^ 126 \<noteq> 1" "(1 :: nat) \<le> 2 ^ 126"
    by (simp_all add: sample_modulus_def)
  have "odd sample_modulus" by (simp add: sample_modulus_def)
  then have "gcd 2 sample_modulus = 1" by (simp flip: coprime_iff_gcd_eq_1)
  then show ?thesis unfolding enhanced_round_def Let_def z
    using sq g by (simp add: Let_def classify_composite_def big_sub_def del: power_numeral)
qed

lemma random_base_returns:
  assumes "returns (fill (div_ceil (nat_bits n) 8)) buffer" "1 < masked_base n buffer" "masked_base n buffer < n - 1"
  shows "returns (random_base fill n) (masked_base n buffer)"
proof -
  have "returns (random_base_attempts fill n (Suc 127)) (masked_base n buffer)"
    unfolding random_base_attempts.simps Let_def
    by (rule returns_bindE [OF returns_map_errE [OF assms(1)]]) (use assms in simp)
  then show ?thesis by (simp add: random_base_def MAX_BASE_ATTEMPTS_def)
qed

lemma public_rounds_accept:
  assumes "returns (random_base fill n) b" "enhanced_round n upper a m b = (Inr CompositeNotPrimePower :: RsaPublicValidationError fault + Round)"
  shows "returns (public_rounds fill n upper a m MAX_ROUNDS) ()"
proof -
  have "returns (public_rounds fill n upper a m (Suc 4)) ()"
    unfolding public_rounds.simps by (rule returns_bindE [OF assms(1)]) (simp add: assms(2))
  then show ?thesis by (simp add: MAX_ROUNDS_def)
qed

lemma sample_public_accepted:
  "fst (validate_rsa_public_key (\<lambda>_. 0) (constant_fill 2) (be_bytes 66 sample_modulus) [1, 0, 1] 527 ()) = Inr ()"
proof -
  let ?m = "219673525124179510879420825570604582952621929604585773100622830693937381868724993667921908501166545759273481964527387457187903615990932602002368905315681828863 :: nat"
  have n: "be_nat (be_bytes 66 sample_modulus) = sample_modulus" by (simp add: be_nat_be_bytes sample_modulus_def)
  have e: "be_nat [1, 0, 1] = 65537" by (simp add: be_nat_def)
  have bits: "nat_bits sample_modulus = 527" "nat_bits 65537 = 17"
    using nat_bits_eqI [of 526 sample_modulus] nat_bits_eqI [of 16 65537] by (simp_all add: sample_modulus_def)
  have odd: "odd sample_modulus" "3 < sample_modulus" "65537 < sample_modulus" by (simp_all add: sample_modulus_def)
  have len: "length (be_bytes 66 sample_modulus) = 66" by simp
  then have ne: "be_bytes 66 sample_modulus \<noteq> []" by fastforce
  then have last: "last (be_bytes 66 sample_modulus) AND 1 \<noteq> 0" using last_byte_odd n odd(1) by metis
  have "sample_modulus - 1 = 2 ^ 1 * ?m" "odd ?m" by (simp_all add: sample_modulus_def)
  then have tz: "count_trailing_zeros (sample_modulus - 1) = 1" "(sample_modulus - 1) div 2 ^ 1 = ?m"
    using ctz_unique by blast+
  have tzs: "trailing_zeros (sample_modulus - 1) = Some 1" using odd(2) tz(1) by (simp add: trailing_zeros_def)
  have m: "masked_base sample_modulus (replicate (66 - 1) 0 @ [2]) = 2" using masked_constant [of sample_modulus 64 2] by simp
  have "returns (constant_fill 2 (div_ceil (nat_bits sample_modulus) 8)) (replicate (66 - 1) 0 @ [2])"
    using constant_fill_returns [of 2 66] bits by (simp add: div_ceil_def)
  then have "returns (random_base (constant_fill 2) sample_modulus) 2"
    using random_base_returns [of "constant_fill 2" sample_modulus "replicate (66 - 1) 0 @ [2]", unfolded m] odd by simp
  then have r: "returns (public_rounds (constant_fill 2) sample_modulus (sample_modulus - 1) 1 ?m MAX_ROUNDS) ()"
    using sample_round by (rule public_rounds_accept)
  have g: "\<not> (validation_strength (\<lambda>_. 0) 527 = None \<or> length (be_bytes 66 sample_modulus) \<noteq> div_ceil 527 8
      \<or> be_bytes 66 sample_modulus = [] \<or> last (be_bytes 66 sample_modulus) AND 1 = 0
      \<or> [1, 0, 1 :: byte] = [] \<or> length [1, 0, 1 :: byte] > 32)"
    "\<not> (nat_bits sample_modulus \<noteq> 527 \<or> (65537 :: nat) < 3 \<or> 65537 \<ge> sample_modulus \<or> nat_bits 65537 > 256 \<or> even (65537 :: nat))"
    using len ne last bits odd by (simp_all add: validation_strength_def MIN_RSA_BITS_def MAX_RSA_BITS_def div_ceil_def)
  have b: "big_sub sample_modulus 1 = (Inr (sample_modulus - 1) :: RsaPublicValidationError fault + nat)" using odd(2) by (simp add: big_sub_def)
  show ?thesis
    unfolding validate_rsa_public_key_def public_validate_with_rng_def Let_def n e
    using g r sample_modulus_coprime
    by (simp only: rejectE_simps bindE_okE b liftE_simps tzs tz(2) ok_orE_simps returns_def simp_thms)
qed



section \<open>What validation establishes\<close>

text \<open>
  C13: Validation of a public key never panics. If it accepts a modulus and an exponent, the modulus has
  exactly the expected size, between 512 and 16384 bits, is odd, has no prime factor up to 751, is not a
  power of a prime (so not a prime either), and the exponent is odd, at least three, below the modulus and
  below \<open>2 ^ 256\<close>, whatever the random source returns.
\<close>

theorem public_validation_sound:
  "fst (validate_rsa_public_key estimate os_rng modulus exponent bits s) \<noteq> Inl Panic \<and>
   (fst (validate_rsa_public_key estimate os_rng modulus exponent bits s) = Inr () \<longrightarrow>
      512 \<le> bits \<and> bits \<le> 16384 \<and> 2 ^ (bits - 1) \<le> be_nat modulus \<and> be_nat modulus < 2 ^ bits
      \<and> odd (be_nat modulus)
      \<and> (\<forall>p. is_prime p \<longrightarrow> p dvd be_nat modulus \<longrightarrow> 751 < p)
      \<and> \<not> (\<exists>p k. is_prime p \<and> be_nat modulus = p ^ k)
      \<and> 3 \<le> be_nat exponent \<and> odd (be_nat exponent)
      \<and> be_nat exponent < be_nat modulus \<and> be_nat exponent < 2 ^ 256)"
proof (intro conjI impI)
  note v = public_validation_settles [of estimate os_rng modulus exponent bits]
  let ?r = "fst (validate_rsa_public_key estimate os_rng modulus exponent bits s)"
  show "?r \<noteq> Inl Panic" unfolding validate_rsa_public_key_def using settles_err [OF v] by blast
  assume "?r = Inr ()"
  then have q: "MIN_RSA_BITS \<le> bits \<and> bits \<le> MAX_RSA_BITS \<and> nat_bits (be_nat modulus) = bits \<and> odd (be_nat modulus)
      \<and> 3 \<le> be_nat exponent \<and> odd (be_nat exponent) \<and> be_nat exponent < be_nat modulus \<and> be_nat exponent < 2 ^ 256
      \<and> gcd (be_nat modulus) small_factors = 1 \<and> not_prime_power (be_nat modulus)"
    unfolding validate_rsa_public_key_def by (rule settles_ok [OF v])
  then show "512 \<le> bits" "bits \<le> 16384" by (simp_all add: MIN_RSA_BITS_def MAX_RSA_BITS_def)
  then show "2 ^ (bits - 1) \<le> be_nat modulus" "be_nat modulus < 2 ^ bits"
    using nat_bits_bounds [of "be_nat modulus" bits] q by simp_all
  show "\<forall>p. is_prime p \<longrightarrow> p dvd be_nat modulus \<longrightarrow> 751 < p"
    using coprime_small_factors [of "be_nat modulus"] q by simp
  show "\<not> (\<exists>p k. is_prime p \<and> be_nat modulus = p ^ k)" using q unfolding not_prime_power_def by blast
qed (use public_validation_settles in \<open>auto simp: validate_rsa_public_key_def dest!: settles_ok [OF public_validation_settles]\<close>)

theorem public_validation_sound_witness:
  "\<not> (\<exists>p k. is_prime p \<and> sample_modulus = p ^ k) \<and> odd sample_modulus"
proof -
  have n: "be_nat (be_bytes 66 sample_modulus) = sample_modulus" by (simp add: be_nat_be_bytes sample_modulus_def)
  show ?thesis
    using public_validation_sound [of "\<lambda>_. 0" "constant_fill 2" "be_bytes 66 sample_modulus" "[1, 0, 1]" 527 "()"]
      sample_public_accepted unfolding n by blast
qed

text \<open>
  C14: The primality test of private validation is exact for every random source and every number of rounds. It never
  rejects a prime: it answers true or reports that the source failed. Numbers up to three and even numbers are
  answered without drawing. On every other number it answers true exactly when as many bases were drawn as there are rounds, one after the other, and the
  number passes the Miller-Rabin test of each; false exactly when a base was drawn that fails after bases that pass, at most as many as the
  rounds in all; and the error exactly when the source gives no base in some round. Each base is the first
  buffer in the range \<open>1 < base < n - 1\<close> among at most 128.
\<close>

theorem miller_rabin_exact:
  "(is_prime n \<longrightarrow> fst (probable_prime fill n rounds s) \<in> {Inr True, Inl (Err Priv_RandomnessUnavailable)})
   \<and> (n \<le> 3 \<or> even n \<longrightarrow> probable_prime fill n rounds s = (Inr (n = 2 \<or> n = 3), s))
   \<and> (odd n \<and> 3 < n \<longrightarrow>
       (probable_prime fill n rounds s = (Inr True, s') \<longleftrightarrow>
          (\<exists>bases. bases_drawn fill n s bases s' \<and> length bases = rounds \<and> (\<forall>b \<in> set bases. miller_rabin_passes n b)))
     \<and> (probable_prime fill n rounds s = (Inr False, s') \<longleftrightarrow>
          (\<exists>bases b. bases_drawn fill n s (bases @ [b]) s' \<and> length bases < rounds
             \<and> (\<forall>b \<in> set bases. miller_rabin_passes n b) \<and> \<not> miller_rabin_passes n b))
     \<and> (probable_prime fill n rounds s = (Inl e, s') \<longleftrightarrow> e = Err Priv_RandomnessUnavailable \<and>
          (\<exists>bases s1. bases_drawn fill n s bases s1 \<and> length bases < rounds \<and> (\<forall>b \<in> set bases. miller_rabin_passes n b)
             \<and> no_base fill 128 n s1 s')))"
proof (intro conjI impI)
  assume "is_prime n"
  then have p: "settles (probable_prime fill n rounds) (\<lambda>e. e = Err Priv_RandomnessUnavailable) (\<lambda>r. r)"
    by (rule probable_prime_accepts_primes)
  show "fst (probable_prime fill n rounds s) \<in> {Inr True, Inl (Err Priv_RandomnessUnavailable)}"
  proof (cases "fst (probable_prime fill n rounds s)")
    case (Inl e)
    then show ?thesis using settles_err [OF p Inl] by simp
  next
    case (Inr b)
    then show ?thesis using settles_ok [OF p Inr] by simp
  qed
next
  show "probable_prime fill n rounds s = (Inr (n = 2 \<or> n = 3), s)" if "n \<le> 3 \<or> even n"
    using that by (auto simp: probable_prime_def okE_def)
qed (elim conjE, erule (1) probable_prime_iff)+

text \<open>A source that yields the buffers of a list and then fails; of the three buffers, the first is out of range and the base of the third fails.\<close>

definition list_fill :: "nat \<Rightarrow> (bytes list, unit, bytes) op" where
  "list_fill k = (\<lambda>s. case s of [] \<Rightarrow> (Inl (), []) | b # bs \<Rightarrow> (Inr b, bs))"

theorem miller_rabin_exact_witness:
  "fst (probable_prime (constant_fill 3) 7 2 ()) \<in> {Inr True, Inl (Err Priv_RandomnessUnavailable)}
    \<and> probable_prime list_fill 25 2 [[0], [7], [2]] = (Inr False, [])
    \<and> probable_prime list_fill 25 1 [[0], [7], [2]] = (Inr True, [[2]])"
proof -
  have "(d :: nat) dvd 7 \<Longrightarrow> d = 1 \<or> d = 7" for d
  proof -
    assume d: "d dvd 7"
    then have "d \<le> 7" by (simp add: dvd_imp_le)
    then consider "d = 0" | "d = 1" | "d = 2" | "d = 3" | "d = 4" | "d = 5" | "d = 6" | "d = 7" by linarith
    then show ?thesis using d by cases simp_all
  qed
  then have p: "is_prime 7" by (simp add: is_prime_def)
  have bits: "nat_bits 25 = 5" by (simp add: nat_bits.simps)
  have m: "masked_base 25 [0] = 0" "masked_base 25 [7] = 7" "masked_base 25 [2] = 2"
    by (simp_all add: masked_base_def base_mask_def bits be_nat_def)
  have ctz: "count_trailing_zeros 24 = Suc (Suc (Suc 0))" by (simp add: count_trailing_zeros.simps)
  have passes: "miller_rabin_passes 25 7" "\<not> miller_rabin_passes 25 2"
    by (simp_all add: miller_rabin_passes_def Let_def ctz Ex_less_Suc)
  have read: "buffers_read list_fill k [[0], [7], [2]] ([[0]] @ [[7]]) [[2]]" "buffers_read list_fill k [[2]] ([] @ [[2]]) []" for k
    by (simp_all add: buffers_read_simps list_fill_def)
  have range: "base_in_range 25 [7]" "base_in_range 25 [2]" "\<not> base_in_range 25 [0]" by (simp_all add: base_in_range_def m)
  have "base_drawn list_fill 128 25 [[0], [7], [2]] 7 [[2]]"
    unfolding base_drawn_def using read(1) range m(2) by (intro exI [of _ "[[0]]"] exI [of _ "[7]"]) simp
  moreover have "base_drawn list_fill 128 25 [[2]] 2 []"
    unfolding base_drawn_def using read(2) range m(3) by (intro exI [of _ "[]"] exI [of _ "[2]"]) simp
  ultimately have "bases_drawn list_fill 25 [[0], [7], [2]] [7] [[2]]" "bases_drawn list_fill 25 [[0], [7], [2]] ([7] @ [2]) []"
    by (auto simp: bases_drawn_simps)
  note drawn = this
  have n: "odd (25 :: nat) \<and> 3 < (25 :: nat)" by simp
  note exact = miller_rabin_exact [of 25 list_fill _ "[[0], [7], [2]]", THEN conjunct2, THEN conjunct2, THEN mp, OF n]
  have "probable_prime list_fill 25 1 [[0], [7], [2]] = (Inr True, [[2]])"
    by (rule exact [THEN conjunct1, THEN iffD2]) (rule exI [of _ "[7]"], simp add: drawn passes)
  moreover have "probable_prime list_fill 25 2 [[0], [7], [2]] = (Inr False, [])"
    by (rule exact [THEN conjunct2, THEN conjunct1, THEN iffD2]) (rule exI [of _ "[7]"], rule exI [of _ 2], use drawn passes in simp)
  ultimately show ?thesis using miller_rabin_exact [of 7 "constant_fill 3" 2 "()"] p by simp
qed

text \<open>
  C12: Validation of a private key never panics. If it accepts a key, the key has two odd factors of equal size (up to
  one bit) whose product is the modulus, far enough apart and large enough for the modulus to have exactly
  the stated size; the public exponent is invertible modulo the factors minus one, and the private exponent
  is its canonical inverse. So unless a factor is composite, which the primality test makes improbable, encryption
  followed by decryption, and the reverse, is the identity on every message below the modulus.
\<close>

theorem private_validation_sound:
  "fst (validate_rsa_private_key rsa estimate os_rng key bits s) \<noteq> Inl Panic \<and>
   (fst (validate_rsa_private_key rsa estimate os_rng key bits s) = Inr () \<longrightarrow>
      sp800_56b_key rsa key bits \<and>
      (\<exists>p q. priv_primes rsa key = [p, q] \<and>
         (has_proper_factor p \<or> has_proper_factor q \<or>
          (\<forall>m < priv_n rsa key.
             modpow (modpow m (priv_e rsa key) (priv_n rsa key)) (priv_d rsa key) (priv_n rsa key) = m \<and>
             modpow (modpow m (priv_d rsa key) (priv_n rsa key)) (priv_e rsa key) (priv_n rsa key) = m))))"
proof (intro conjI impI)
  note v = private_validation_settles [of rsa estimate os_rng key bits]
  let ?r = "fst (validate_rsa_private_key rsa estimate os_rng key bits s)"
  show "?r \<noteq> Inl Panic" unfolding validate_rsa_private_key_def using settles_err [OF v] by blast
  assume "?r = Inr ()"
  then show k: "sp800_56b_key rsa key bits" unfolding validate_rsa_private_key_def by (rule settles_ok [OF v])
  then obtain p q where pq: "priv_primes rsa key = [p, q]" "priv_n rsa key = p * q" "odd p" "odd q"
    "2 ^ (bits div 2 - 100) < abs_diff p q" "2 ^ (bits div 2) < priv_d rsa key" "priv_d rsa key < lcm (p - 1) (q - 1)"
    "priv_d rsa key * priv_e rsa key mod lcm (p - 1) (q - 1) = 1" unfolding sp800_56b_key_def by blast
  have ne: "p \<noteq> q" using pq(5) by (auto simp: abs_diff_def)
  have "lcm (p - 1) (q - 1) \<noteq> 0" using pq(7) by linarith
  then have one: "1 < p" "1 < q" by (auto simp: lcm_eq_0_iff)
  have "\<not> has_proper_factor p \<Longrightarrow> \<not> has_proper_factor q \<Longrightarrow> m < p * q \<Longrightarrow>
     modpow (modpow m (priv_e rsa key) (p * q)) (priv_d rsa key) (p * q) = m \<and>
     modpow (modpow m (priv_d rsa key) (p * q)) (priv_e rsa key) (p * q) = m" for m
    unfolding modpow_def using pq(8) by (intro conjI rsa_inverse no_proper_factor one ne) (simp_all add: mult.commute)
  then show "\<exists>p q. priv_primes rsa key = [p, q] \<and>
         (has_proper_factor p \<or> has_proper_factor q \<or>
          (\<forall>m < priv_n rsa key.
             modpow (modpow m (priv_e rsa key) (priv_n rsa key)) (priv_d rsa key) (priv_n rsa key) = m \<and>
             modpow (modpow m (priv_d rsa key) (priv_n rsa key)) (priv_e rsa key) (priv_n rsa key) = m))"
    using pq(1,2) by auto
qed

theorem private_validation_sound_witness:
  "sp800_56b_key sample_rsa [sample_p, sample_q] 540"
  using private_validation_sound [of sample_rsa "\<lambda>_. 0" "constant_fill 7" "[sample_p, sample_q]" 540 "()"]
    sample_private_accepted unfolding validate_rsa_private_key_def returns_def by blast

end
