(* ===== verification/Rsa_Keys.thy ===== *)
theory Rsa_Keys
  imports Rsa_Validation
begin

text \<open>
  \<^verbatim>\<open>src/src/rsa_keys.rs\<close>: the key type \<open>RsaKey\<close>, which remembers whether its key passed
  validation, and every operation that creates one. The operating system's random source \<open>os_rng\<close> and
  the crate's key generator \<open>new_key\<close> are operations over the caller's state; \<open>Arc\<close> sharing of
  an immutable key has no observable effect.
\<close>

record 'k RsaKey =
  rk_key :: 'k
  rk_validated :: bool

type_synonym ('s, 'k) rsa_key_op = "('s, RsaPrivateValidationError fault, 'k RsaKey) op"

definition modulus_bits :: "('k, 'p) rsa_key_crate \<Rightarrow> 'k RsaKey \<Rightarrow> nat" where
  "modulus_bits rsa self = nat_bits (priv_n rsa (rk_key self))"

definition admit_normalized ::
  "('k, 'p) rsa_key_crate \<Rightarrow> (nat \<Rightarrow> nat) \<Rightarrow> (nat \<Rightarrow> ('s, 'g, bytes) op) \<Rightarrow> 'k \<Rightarrow> ('s, 'k) rsa_key_op" where
  "admit_normalized rsa estimate os_rng key =
     bindE (validate_rsa_private_key rsa estimate os_rng key (nat_bits (priv_n rsa key))) (\<lambda>_.
     okE \<lparr> rk_key = key, rk_validated = True \<rparr>)"

definition finish_import ::
  "('k, 'p) rsa_key_crate \<Rightarrow> (nat \<Rightarrow> nat) \<Rightarrow> (nat \<Rightarrow> ('s, 'g, bytes) op) \<Rightarrow> 'k \<Rightarrow> ('s, 'k) rsa_key_op" where
  "finish_import rsa estimate os_rng key =
     (let bits = nat_bits (priv_n rsa key) in
      bindE (ok_orE (Err Priv_InvalidPrivateKey) (validation_strength estimate bits)) (\<lambda>_.
      bindE (rejectE (length (priv_primes rsa key) \<noteq> 2) (Err Priv_InvalidPrivateKey)) (\<lambda>_.
      bindE (ok_orE (Err Priv_InvalidPrivateKey)
        (from_p_q rsa (priv_primes rsa key ! 0) (priv_primes rsa key ! 1) (priv_e rsa key))) (\<lambda>normalized.
      bindE (ok_orE (Err Priv_InvalidPrivateKey) (precompute rsa normalized)) (\<lambda>normalized.
      admit_normalized rsa estimate os_rng normalized)))))"

definition generate_with_rng ::
  "('k, 'p) rsa_key_crate \<Rightarrow> (nat \<Rightarrow> nat) \<Rightarrow> (nat \<Rightarrow> ('s, 'g, bytes) op) \<Rightarrow> (nat \<Rightarrow> ('s, 'f, 'k) op) \<Rightarrow> nat
     \<Rightarrow> ('s, 'k) rsa_key_op" where
  "generate_with_rng rsa estimate os_rng new_key bits =
     bindE (ok_orE (Err Priv_InvalidPrivateKey) (validation_strength estimate bits)) (\<lambda>_.
     bindE (map_errE (\<lambda>_. Err Priv_RandomnessUnavailable) (new_key bits)) (\<lambda>generated.
     finish_import rsa estimate os_rng generated))"

definition generate_key ::
  "('k, 'p) rsa_key_crate \<Rightarrow> (nat \<Rightarrow> nat) \<Rightarrow> (nat \<Rightarrow> ('s, 'g, bytes) op) \<Rightarrow> (nat \<Rightarrow> ('s, 'f, 'k) op) \<Rightarrow> nat
     \<Rightarrow> ('s, 'k) rsa_key_op" where
  "generate_key rsa estimate os_rng os_new_key bits = generate_with_rng rsa estimate os_rng os_new_key bits"

definition restore_primes ::
  "('k, 'p) rsa_key_crate \<Rightarrow> nat \<Rightarrow> nat \<Rightarrow> nat \<Rightarrow> RsaPrivateValidationError fault + 'k RsaKey" where
  "restore_primes rsa p q e =
     bindR (rejectR (nat_bits p > MAX_RSA_BITS div 2 \<or> nat_bits q > MAX_RSA_BITS div 2)
       (Err Priv_InvalidPrivateKey)) (\<lambda>_.
     bindR (ok_orR (Err Priv_InvalidPrivateKey) (from_p_q rsa p q e)) (\<lambda>key.
     Inr \<lparr> rk_key = key, rk_validated = False \<rparr>))"

definition import_primes ::
  "('k, 'p) rsa_key_crate \<Rightarrow> (nat \<Rightarrow> nat) \<Rightarrow> (nat \<Rightarrow> ('s, 'g, bytes) op) \<Rightarrow> nat \<Rightarrow> nat \<Rightarrow> nat
     \<Rightarrow> ('s, 'k) rsa_key_op" where
  "import_primes rsa estimate os_rng p q exponent =
     bindE (liftE (restore_primes rsa p q exponent)) (\<lambda>restored.
     admit_normalized rsa estimate os_rng (rk_key restored))"

definition import_components ::
  "('k, 'p) rsa_key_crate \<Rightarrow> (nat \<Rightarrow> nat) \<Rightarrow> (nat \<Rightarrow> ('s, 'g, bytes) op) \<Rightarrow> nat \<Rightarrow> nat \<Rightarrow> nat \<Rightarrow> nat list
     \<Rightarrow> ('s, 'k) rsa_key_op" where
  "import_components rsa estimate os_rng n e d primes =
     bindE (ok_orE (Err Priv_InvalidPrivateKey) (validation_strength estimate (nat_bits n))) (\<lambda>_.
     bindE (rejectE (nat_bits e > 256 \<or> nat_bits d > nat_bits n \<or> length primes = 1 \<or> length primes > 2
       \<or> (\<exists>p \<in> set primes. nat_bits p > nat_bits n)) (Err Priv_InvalidPrivateKey)) (\<lambda>_.
     bindE (ok_orE (Err Priv_InvalidPrivateKey) (new_with_max_size rsa n e MAX_RSA_BITS)) (\<lambda>_.
     bindE (ok_orE (Err Priv_InvalidPrivateKey) (from_components rsa n e d primes)) (\<lambda>key.
     finish_import rsa estimate os_rng key))))"

definition restore_pkcs8 :: "('k, 'p) rsa_key_crate \<Rightarrow> bytes \<Rightarrow> RsaPrivateValidationError fault + 'k RsaKey" where
  "restore_pkcs8 rsa encoded =
     bindR (ok_orR (Err Priv_InvalidPrivateKey) (from_pkcs8_der rsa encoded)) (\<lambda>key.
     Inr \<lparr> rk_key = key, rk_validated = False \<rparr>)"

definition restore_pkcs1 :: "('k, 'p) rsa_key_crate \<Rightarrow> bytes \<Rightarrow> RsaPrivateValidationError fault + 'k RsaKey" where
  "restore_pkcs1 rsa encoded =
     bindR (ok_orR (Err Priv_InvalidPrivateKey) (from_pkcs1_der rsa encoded)) (\<lambda>key.
     Inr \<lparr> rk_key = key, rk_validated = False \<rparr>)"

definition import_pkcs8 ::
  "('k, 'p) rsa_key_crate \<Rightarrow> (nat \<Rightarrow> nat) \<Rightarrow> (nat \<Rightarrow> ('s, 'g, bytes) op) \<Rightarrow> bytes \<Rightarrow> ('s, 'k) rsa_key_op" where
  "import_pkcs8 rsa estimate os_rng encoded =
     bindE (liftE (restore_pkcs8 rsa encoded)) (\<lambda>restored.
     finish_import rsa estimate os_rng (rk_key restored))"

definition validate_for_import ::
  "('k, 'p) rsa_key_crate \<Rightarrow> (nat \<Rightarrow> nat) \<Rightarrow> (nat \<Rightarrow> ('s, 'g, bytes) op) \<Rightarrow> 'k RsaKey \<Rightarrow> ('s, 'k) rsa_key_op" where
  "validate_for_import rsa estimate os_rng self =
     (if rk_validated self then okE self else finish_import rsa estimate os_rng (rk_key self))"

definition import_public ::
  "('k, 'p) rsa_key_crate \<Rightarrow> (nat \<Rightarrow> nat) \<Rightarrow> (nat \<Rightarrow> ('s, 'g, bytes) op) \<Rightarrow> nat \<Rightarrow> nat
     \<Rightarrow> ('s, RsaPublicValidationError fault, 'p) op" where
  "import_public rsa estimate os_rng n e =
     bindE (ok_orE (Err Pub_InvalidPublicKey) (new_with_max_size rsa n e MAX_RSA_BITS)) (\<lambda>key.
     bindE (validate_rsa_public_key estimate os_rng (to_bytes_be (pub_n rsa key)) (to_bytes_be (pub_e rsa key))
       (nat_bits (pub_n rsa key))) (\<lambda>_.
     okE key))"


section \<open>Keys that the module can hand out\<close>

text \<open>The fields of \<open>RsaKey\<close> are private to the module: a key exists only if one of these operations returned it.\<close>

inductive obtainable ::
  "('k, 'p) rsa_key_crate \<Rightarrow> (nat \<Rightarrow> nat) \<Rightarrow> (nat \<Rightarrow> ('s, 'g, bytes) op) \<Rightarrow> (nat \<Rightarrow> ('s, 'f, 'k) op) \<Rightarrow> 'k RsaKey \<Rightarrow> bool"
  for rsa estimate os_rng new_key where
  generated: "fst (generate_with_rng rsa estimate os_rng new_key bits s) = Inr k \<Longrightarrow> obtainable rsa estimate os_rng new_key k"
| primes: "fst (import_primes rsa estimate os_rng p q e s) = Inr k \<Longrightarrow> obtainable rsa estimate os_rng new_key k"
| components: "fst (import_components rsa estimate os_rng n e d ps s) = Inr k \<Longrightarrow> obtainable rsa estimate os_rng new_key k"
| pkcs8: "fst (import_pkcs8 rsa estimate os_rng der s) = Inr k \<Longrightarrow> obtainable rsa estimate os_rng new_key k"
| revalidated: "obtainable rsa estimate os_rng new_key k \<Longrightarrow>
    fst (validate_for_import rsa estimate os_rng k s) = Inr k' \<Longrightarrow> obtainable rsa estimate os_rng new_key k'"
| restored_primes: "restore_primes rsa p q e = Inr k \<Longrightarrow> obtainable rsa estimate os_rng new_key k"
| restored_pkcs8: "restore_pkcs8 rsa der = Inr k \<Longrightarrow> obtainable rsa estimate os_rng new_key k"
| restored_pkcs1: "restore_pkcs1 rsa der = Inr k \<Longrightarrow> obtainable rsa estimate os_rng new_key k"

definition sound_key :: "('k, 'p) rsa_key_crate \<Rightarrow> 'k RsaKey \<Rightarrow> bool" where
  "sound_key rsa k \<longleftrightarrow> rk_validated k \<and> sp800_56b_key rsa (rk_key k) (modulus_bits rsa k)"

lemma admit_settles: "settles (admit_normalized rsa estimate os_rng key) (\<lambda>e. e \<noteq> Panic) (sound_key rsa)"
  unfolding admit_normalized_def validate_rsa_private_key_def
  by (rule settles_bindE [OF private_validation_settles]) (simp add: settles_okE sound_key_def modulus_bits_def)

lemma finish_settles: "settles (finish_import rsa estimate os_rng key) (\<lambda>e. e \<noteq> Panic) (sound_key rsa)"
  unfolding finish_import_def Let_def by (intro settles_intro admit_settles) simp_all

lemma generate_settles:
  "settles (generate_with_rng rsa estimate os_rng new_key bits) (\<lambda>e. e \<noteq> Panic) (sound_key rsa)"
  unfolding generate_with_rng_def
  by (rule settles_ok_orE_bindE, simp, rule settles_bindE [OF settles_map_errE], simp, rule finish_settles)

lemma restore_primes_errors: "restore_primes rsa p q e = Inl err \<Longrightarrow> err \<noteq> Panic"
  by (auto simp: restore_primes_def rejectR_def ok_orR_def split: if_splits option.splits)

lemma restore_pkcs8_errors: "restore_pkcs8 rsa der = Inl err \<Longrightarrow> err \<noteq> Panic"
  by (auto simp: restore_pkcs8_def ok_orR_def split: option.splits)

lemma import_settles:
  "settles (import_primes rsa estimate os_rng p q e) (\<lambda>e. e \<noteq> Panic) (sound_key rsa)"
  "settles (import_components rsa estimate os_rng n e d ps) (\<lambda>e. e \<noteq> Panic) (sound_key rsa)"
  "settles (import_pkcs8 rsa estimate os_rng der) (\<lambda>e. e \<noteq> Panic) (sound_key rsa)"
  unfolding import_primes_def import_components_def import_pkcs8_def
  by (intro settles_intro admit_settles finish_settles; simp add: restore_primes_errors restore_pkcs8_errors)+

lemma revalidation_settles:
  "(rk_validated k \<Longrightarrow> sound_key rsa k) \<Longrightarrow>
     settles (validate_for_import rsa estimate os_rng k) (\<lambda>e. e \<noteq> Panic) (sound_key rsa)"
  by (simp add: validate_for_import_def settles_okE finish_settles)

lemma restored_unvalidated:
  "restore_primes rsa p q e = Inr k \<Longrightarrow> \<not> rk_validated k"
  "restore_pkcs8 rsa der = Inr k \<Longrightarrow> \<not> rk_validated k"
  "restore_pkcs1 rsa der = Inr k \<Longrightarrow> \<not> rk_validated k"
  by (auto simp: restore_primes_def restore_pkcs8_def restore_pkcs1_def result_iffs)

lemma obtainable_sound: "obtainable rsa estimate os_rng new_key k \<Longrightarrow> rk_validated k \<Longrightarrow> sound_key rsa k"
proof (induction rule: obtainable.induct)
  case (revalidated k s k')
  have "settles (validate_for_import rsa estimate os_rng k) (\<lambda>e. e \<noteq> Panic) (sound_key rsa)"
    by (rule revalidation_settles) (rule revalidated.IH)
  then show ?case using revalidated.hyps(2) by (rule settles_ok)
next
  case (restored_primes p q e k)
  then show ?case using restored_unvalidated(1) by blast
next
  case (restored_pkcs8 der k)
  then show ?case using restored_unvalidated(2) by blast
next
  case (restored_pkcs1 der k)
  then show ?case using restored_unvalidated(3) by blast
qed (erule settles_ok [OF generate_settles] settles_ok [OF import_settles(1)] settles_ok [OF import_settles(2)]
      settles_ok [OF import_settles(3)])+

text \<open>
  C15: Every RSA key the module hands out is either marked as not validated, which only the three restore
  operations produce, or satisfies the SP 800-56B conditions for its own modulus size, whichever sequence
  of generation, import, restoration and revalidation produced it. Revalidating any obtainable key returns
  a validated key or an error, and leaves an already validated key as it is without drawing randomness.
\<close>

theorem validated_keys_invariant:
  assumes "obtainable rsa estimate os_rng new_key k"
  shows "(rk_validated k \<longrightarrow> sp800_56b_key rsa (rk_key k) (modulus_bits rsa k)
        \<and> validate_for_import rsa estimate os_rng k s = (Inr k, s))
    \<and> (fst (validate_for_import rsa estimate os_rng k s) = Inr k' \<longrightarrow>
        rk_validated k' \<and> sp800_56b_key rsa (rk_key k') (modulus_bits rsa k'))
    \<and> fst (validate_for_import rsa estimate os_rng k s) \<noteq> Inl Panic"
proof -
  have s: "rk_validated k \<Longrightarrow> sound_key rsa k" using obtainable_sound [OF assms] .
  have r: "settles (validate_for_import rsa estimate os_rng k) (\<lambda>e. e \<noteq> Panic) (sound_key rsa)"
    by (rule revalidation_settles) (rule s)
  have "rk_validated k \<longrightarrow> validate_for_import rsa estimate os_rng k s = (Inr k, s)"
    by (simp add: validate_for_import_def okE_def)
  moreover have "fst (validate_for_import rsa estimate os_rng k s) = Inr k' \<Longrightarrow> sound_key rsa k'"
    by (rule settles_ok [OF r])
  moreover have "fst (validate_for_import rsa estimate os_rng k s) \<noteq> Inl Panic" using settles_err [OF r] by blast
  ultimately show ?thesis using s unfolding sound_key_def by blast
qed

lemma sample_imported:
  "fst (import_primes sample_rsa (\<lambda>_. 0) (constant_fill 7) sample_p sample_q 11 ())
     = Inr \<lparr> rk_key = [sample_p, sample_q], rk_validated = True \<rparr>"
proof -
  have r: "restore_primes sample_rsa sample_p sample_q 11 = Inr \<lparr> rk_key = [sample_p, sample_q], rk_validated = False \<rparr>"
    by (simp add: restore_primes_def sample_bits sample_rsa_def MAX_RSA_BITS_def)
  have n: "nat_bits (priv_n sample_rsa [sample_p, sample_q]) = 540" by (simp add: sample_rsa_def sample_bits)
  have "returns (import_primes sample_rsa (\<lambda>_. 0) (constant_fill 7) sample_p sample_q 11)
     \<lparr> rk_key = [sample_p, sample_q], rk_validated = True \<rparr>"
    unfolding import_primes_def r liftE_simps bindE_okE admit_normalized_def validate_rsa_private_key_def RsaKey.select_convs n
    by (rule returns_bindE [OF sample_private_accepted]) simp
  then show ?thesis by (simp add: returns_def)
qed

theorem validated_keys_invariant_witness:
  "sp800_56b_key sample_rsa [sample_p, sample_q] (modulus_bits sample_rsa \<lparr> rk_key = [sample_p, sample_q], rk_validated = True \<rparr>)"
proof -
  have "obtainable sample_rsa (\<lambda>_. 0) (constant_fill 7) (\<lambda>_. okE [] :: (unit, unit, nat list) op)
     \<lparr> rk_key = [sample_p, sample_q], rk_validated = True \<rparr>"
    by (rule obtainable.primes [OF sample_imported])
  from validated_keys_invariant [OF this] show ?thesis by simp
qed

text \<open>An imported public key satisfies the conditions of the public check.\<close>

lemma import_public_sound:
  assumes "fst (import_public rsa estimate os_rng n e s) = Inr key"
  shows "odd (pub_n rsa key) \<and> not_prime_power (pub_n rsa key) \<and> gcd (pub_n rsa key) small_factors = 1
    \<and> 3 \<le> pub_e rsa key \<and> odd (pub_e rsa key) \<and> pub_e rsa key < pub_n rsa key"
proof -
  have "settles (import_public rsa estimate os_rng n e) (\<lambda>e. e \<noteq> Panic)
     (\<lambda>key. odd (pub_n rsa key) \<and> not_prime_power (pub_n rsa key) \<and> gcd (pub_n rsa key) small_factors = 1
    \<and> 3 \<le> pub_e rsa key \<and> odd (pub_e rsa key) \<and> pub_e rsa key < pub_n rsa key)"
    unfolding import_public_def validate_rsa_public_key_def
    by (intro settles_ok_orE_bindE settles_bindE [OF public_validation_settles])
      (simp_all add: be_nat_to_bytes_be settles_okE)
  then show ?thesis using assms by (rule settles_ok)
qed

end
