(* ===== verification/State_Persistence.thy ===== *)
theory State_Persistence
  imports Contracts
begin

text \<open>
  \<^verbatim>\<open>src/src/state_persistence.rs\<close>: the lock on a device's state, the schedule shared by
  the clients and the background thread, the thread itself, and the atomic replacement of the state file.

  Every access to \<open>ScheduleState\<close> happens under its mutex, so each critical section is one
  function on the schedule. A wait on the condition variable is modelled by one evaluation of the loop
  around it, which either ends the wait or keeps waiting (\<open>None\<close>); the lock is free in between, and
  the evaluation may be repeated at any time, as spurious wake-ups allow. \<open>Instant\<close>s and durations are
  naturals. The background thread is a step relation over the states between its critical sections; the
  encoder, the writer, the clock and the clients are the environment.
\<close>

section \<open>Errors and modes\<close>

datatype io_kind = IK_AlreadyExists | IK_InvalidInput | IK_Interrupted | IK_Other | IK_Unlisted nat

record io_error =
  err_kind :: io_kind
  err_message :: string

definition io_other :: "string \<Rightarrow> io_error" where
  "io_other message = \<lparr> err_kind = IK_Other, err_message = message \<rparr>"

datatype PersistenceMode = Batched nat | Immediate

fun PersistenceMode_validate :: "PersistenceMode \<Rightarrow> io_error + unit" where
  "PersistenceMode_validate (Batched delay) =
     (if delay = 0 then Inl \<lparr> err_kind = IK_InvalidInput, err_message = ''persistence batching delay must be nonzero'' \<rparr>
      else Inr ())"
| "PersistenceMode_validate Immediate = Inr ()"

record StoredError =
  stored_kind :: io_kind
  stored_message :: string

definition StoredError_capture :: "io_error \<Rightarrow> StoredError" where
  "StoredError_capture error = \<lparr> stored_kind = err_kind error, stored_message = err_message error \<rparr>"

definition to_io_error :: "StoredError \<Rightarrow> io_error" where
  "to_io_error self = \<lparr> err_kind = stored_kind self, err_message = stored_message self \<rparr>"


section \<open>The state lock\<close>

text \<open>The file operations are operations of the operating system on the state \<open>'s\<close>.\<close>

record ('h) StateLock =
  lock_file :: 'h
  lock_path :: string

definition lock_error :: "string \<Rightarrow> string \<Rightarrow> io_error \<Rightarrow> io_error" where
  "lock_error path operation error =
     \<lparr> err_kind = err_kind error,
       err_message = operation @ '' persistent state lock '' @ path @ '': '' @ err_message error \<rparr>"

definition StateLock_acquire ::
  "(string \<Rightarrow> ('s, io_error, 'h) op) \<Rightarrow> ('h \<Rightarrow> ('s, io_error, unit) op) \<Rightarrow> string \<Rightarrow> ('s, io_error, 'h StateLock) op" where
  "StateLock_acquire open_nofollow flock_exclusive path =
     bindE (map_errE (lock_error path ''open'') (open_nofollow path)) (\<lambda>file.
     bindE (map_errE (lock_error path ''acquire'') (flock_exclusive file)) (\<lambda>_.
     okE \<lparr> lock_file = file, lock_path = path \<rparr>))"

text \<open>\<open>Drop\<close>: retry while the call is interrupted; \<open>None\<close> is a call that is interrupted forever.\<close>

partial_function (option) StateLock_drop :: "('s \<Rightarrow> (io_error + unit) \<times> 's) \<Rightarrow> 's \<Rightarrow> 's option" where
  "StateLock_drop flock_unlock s =
     (case flock_unlock s of
        (Inr _, s') \<Rightarrow> Some s'
      | (Inl e, s') \<Rightarrow> if err_kind e \<noteq> IK_Interrupted then Some s' else StateLock_drop flock_unlock s')"


section \<open>The schedule\<close>

record ScheduleState =
  mutation_epoch :: nat
  persisted_epoch :: nat
  deadline :: "nat option"
  force :: bool
  stopping :: bool
  failure :: "StoredError option"

definition ScheduleState_default :: ScheduleState where
  "ScheduleState_default =
     \<lparr> mutation_epoch = 0, persisted_epoch = 0, deadline = None, force = False, stopping = False, failure = None \<rparr>"

record MutationReceipt =
  receipt_epoch :: nat
  wait_for_persistence :: bool

definition check_failure :: "ScheduleState \<Rightarrow> io_error + unit" where
  "check_failure schedule = (case failure schedule of Some error \<Rightarrow> Inl (to_io_error error) | None \<Rightarrow> Inr ())"

definition record_mutation ::
  "PersistenceMode \<Rightarrow> nat \<Rightarrow> ScheduleState \<Rightarrow> (io_error + MutationReceipt) \<times> ScheduleState" where
  "record_mutation mode now schedule =
     (case check_failure schedule of
        Inl error \<Rightarrow> (Inl error, schedule)
      | Inr _ \<Rightarrow>
        (case checked_add (mutation_epoch schedule) 1 of
           None \<Rightarrow> (Inl (io_other ''persistence mutation epoch exhausted''), schedule)
         | Some epoch \<Rightarrow>
           let schedule = schedule\<lparr> mutation_epoch := epoch \<rparr>;
               wait = (mode = Immediate);
               schedule = (case mode of
                   Batched delay \<Rightarrow>
                     (if deadline schedule = None then schedule\<lparr> deadline := Some (now + delay) \<rparr> else schedule)
                 | Immediate \<Rightarrow> schedule\<lparr> force := True \<rparr>)
           in (Inr \<lparr> receipt_epoch = epoch, wait_for_persistence = wait \<rparr>, schedule)))"

text \<open>One evaluation of \<open>while schedule.persisted_epoch < target\<close> in \<open>wait_for_epoch\<close>.\<close>

definition wait_for_epoch :: "ScheduleState \<Rightarrow> nat \<Rightarrow> (io_error + unit) option" where
  "wait_for_epoch schedule target =
     (if persisted_epoch schedule < target then
        (case check_failure schedule of Inl error \<Rightarrow> Some (Inl error) | Inr _ \<Rightarrow> None)
      else Some (Inr ()))"

definition receipt_wait :: "MutationReceipt \<Rightarrow> ScheduleState \<Rightarrow> (io_error + unit) option" where
  "receipt_wait self schedule =
     (if wait_for_persistence self then wait_for_epoch schedule (receipt_epoch self)
      else Some (check_failure schedule))"

text \<open>The critical section of \<open>flush\<close>: an immediate result, or the epoch to wait for.\<close>

definition flush_request :: "ScheduleState \<Rightarrow> (io_error + nat option) \<times> ScheduleState" where
  "flush_request schedule =
     (case check_failure schedule of
        Inl error \<Rightarrow> (Inl error, schedule)
      | Inr _ \<Rightarrow>
        let target = mutation_epoch schedule in
        if persisted_epoch schedule \<ge> target then (Inr None, schedule)
        else (Inr (Some target), schedule\<lparr> force := True \<rparr>))"

definition check_health :: "ScheduleState \<Rightarrow> io_error + unit" where
  "check_health schedule = check_failure schedule"

definition request_stop :: "ScheduleState \<Rightarrow> ScheduleState" where
  "request_stop schedule = schedule\<lparr> stopping := True, force := True \<rparr>"

text \<open>One evaluation of the loop in \<open>wait_until_due\<close>.\<close>

definition wait_until_due :: "nat \<Rightarrow> ScheduleState \<Rightarrow> (io_error + bool) option \<times> ScheduleState" where
  "wait_until_due now schedule =
     (case check_failure schedule of
        Inl error \<Rightarrow> (Some (Inl error), schedule)
      | Inr _ \<Rightarrow>
        if mutation_epoch schedule = persisted_epoch schedule then
          (if stopping schedule then (Some (Inr False), schedule)
           else (None, schedule\<lparr> force := False, deadline := None \<rparr>))
        else if force schedule \<or> stopping schedule \<or> (case deadline schedule of Some d \<Rightarrow> d \<le> now | None \<Rightarrow> False) then
          (Some (Inr True), schedule\<lparr> force := False, deadline := None \<rparr>)
        else (None, schedule))"

text \<open>The critical section of \<open>run_persistence\<close> after a successful write.\<close>

definition commit_write :: "PersistenceMode \<Rightarrow> nat \<Rightarrow> nat \<Rightarrow> ScheduleState \<Rightarrow> ScheduleState" where
  "commit_write mode now snapshot_epoch schedule =
     (let schedule = schedule\<lparr> persisted_epoch := snapshot_epoch \<rparr> in
      if mutation_epoch schedule = snapshot_epoch then schedule\<lparr> deadline := None \<rparr>
      else if deadline schedule = None then
        (let schedule = schedule\<lparr> deadline := (case mode of Batched delay \<Rightarrow> Some (now + delay) | Immediate \<Rightarrow> None) \<rparr> in
         if mode = Immediate then schedule\<lparr> force := True \<rparr> else schedule)
      else schedule)"

text \<open>The handler of \<open>run_persistence\<close>'s error in \<open>start_with_writer\<close>.\<close>

definition store_failure :: "io_error \<Rightarrow> ScheduleState \<Rightarrow> ScheduleState" where
  "store_failure error schedule = schedule\<lparr> failure := Some (StoredError_capture error) \<rparr>"


section \<open>The background thread and its environment\<close>

text \<open>Where the thread stands: inside \<open>wait_until_due\<close>; past it; with a snapshot to write; with a
  written snapshot to commit; with an error to store; or gone, with its result or by a panic.\<close>

datatype worker =
    Waiting
  | Due
  | Writing bytes nat
  | Committing nat
  | Failing io_error
  | Exited "io_error fault + unit"

text \<open>
  Besides the shared state, the stored file and the clock, the system keeps a history: every value the
  state has had, and for each recorded mutation the position of its value in that history.
\<close>

record 'v system =
  sys_state :: 'v
  schedule :: ScheduleState
  thread :: worker
  disk :: "bytes option"
  clock :: nat
  versions :: "'v list"
  recorded :: "nat list"

definition start_with_writer :: "PersistenceMode \<Rightarrow> io_error + unit \<Rightarrow> 'v \<Rightarrow> bytes option \<Rightarrow> nat \<Rightarrow> io_error + 'v system" where
  "start_with_writer mode spawn state file now =
     bindR (PersistenceMode_validate mode) (\<lambda>_.
     bindR spawn (\<lambda>_.
     Inr \<lparr> sys_state = state, schedule = ScheduleState_default, thread = Waiting, disk = file, clock = now,
           versions = [state], recorded = [0] \<rparr>))"

text \<open>A client replaces the state and records the mutation while it holds the state mutex.\<close>

definition mutate :: "PersistenceMode \<Rightarrow> 'v \<Rightarrow> 'v system \<Rightarrow> (io_error + MutationReceipt) \<times> 'v system" where
  "mutate mode v sys =
     (let sys = sys\<lparr> sys_state := v, versions := versions sys @ [v] \<rparr> in
      case record_mutation mode (clock sys) (schedule sys) of
        (Inl error, sched) \<Rightarrow> (Inl error, sys\<lparr> schedule := sched \<rparr>)
      | (Inr receipt, sched) \<Rightarrow>
          (Inr receipt, sys\<lparr> schedule := sched, recorded := recorded sys @ [length (versions sys) - 1] \<rparr>))"

text \<open>The turns of \<open>run_persistence\<close>: the wait, the snapshot under both mutexes, the write, the commit.\<close>

definition worker_wait :: "'v system \<Rightarrow> 'v system" where
  "worker_wait sys =
     (case wait_until_due (clock sys) (schedule sys) of
        (None, sched) \<Rightarrow> sys\<lparr> schedule := sched \<rparr>
      | (Some (Inl error), sched) \<Rightarrow> sys\<lparr> schedule := sched, thread := Failing error \<rparr>
      | (Some (Inr False), sched) \<Rightarrow> sys\<lparr> schedule := sched, thread := Exited (Inr ()) \<rparr>
      | (Some (Inr True), sched) \<Rightarrow> sys\<lparr> schedule := sched, thread := Due \<rparr>)"

definition worker_snapshot :: "('v \<Rightarrow> io_error fault + bytes) \<Rightarrow> 'v system \<Rightarrow> 'v system" where
  "worker_snapshot encode sys =
     (case encode (sys_state sys) of
        Inr encoded \<Rightarrow> sys\<lparr> thread := Writing encoded (mutation_epoch (schedule sys)) \<rparr>
      | Inl (Err error) \<Rightarrow> sys\<lparr> thread := Failing error \<rparr>
      | Inl Panic \<Rightarrow> sys\<lparr> thread := Exited (Inl Panic) \<rparr>)"

definition worker_write :: "io_error fault + unit \<Rightarrow> bytes \<Rightarrow> nat \<Rightarrow> 'v system \<Rightarrow> 'v system" where
  "worker_write outcome encoded snapshot_epoch sys =
     (case outcome of
        Inr _ \<Rightarrow> sys\<lparr> disk := Some encoded, thread := Committing snapshot_epoch \<rparr>
      | Inl (Err error) \<Rightarrow> sys\<lparr> thread := Failing error \<rparr>
      | Inl Panic \<Rightarrow> sys\<lparr> thread := Exited (Inl Panic) \<rparr>)"

definition worker_commit :: "PersistenceMode \<Rightarrow> nat \<Rightarrow> 'v system \<Rightarrow> 'v system" where
  "worker_commit mode snapshot_epoch sys =
     sys\<lparr> schedule := commit_write mode (clock sys) snapshot_epoch (schedule sys), thread := Waiting \<rparr>"

definition worker_fail :: "io_error \<Rightarrow> 'v system \<Rightarrow> 'v system" where
  "worker_fail error sys =
     sys\<lparr> schedule := store_failure error (schedule sys), thread := Exited (Inl (Err error)) \<rparr>"

definition join_thread :: "'v system \<Rightarrow> (io_error + unit) option" where
  "join_thread sys =
     (case thread sys of
        Exited (Inr _) \<Rightarrow> Some (Inr ())
      | Exited (Inl (Err error)) \<Rightarrow> Some (Inl error)
      | Exited (Inl Panic) \<Rightarrow> Some (Inl (io_other ''state persistence thread panicked''))
      | _ \<Rightarrow> None)"

text \<open>
  One step of the system. A failed write leaves the old or the new file, which is what
  \<open>replace_file_atomically\<close> guarantees below.
\<close>

inductive step :: "PersistenceMode \<Rightarrow> ('v \<Rightarrow> io_error fault + bytes) \<Rightarrow> 'v system \<Rightarrow> 'v system \<Rightarrow> bool"
  for mode encode where
  mutate: "step mode encode sys (snd (mutate mode v sys))"
| flush: "step mode encode sys (sys\<lparr> schedule := snd (flush_request (schedule sys)) \<rparr>)"
| stop: "step mode encode sys (sys\<lparr> schedule := request_stop (schedule sys) \<rparr>)"
| tick: "step mode encode sys (sys\<lparr> clock := clock sys + d \<rparr>)"
| wait: "thread sys = Waiting \<Longrightarrow> step mode encode sys (worker_wait sys)"
| snapshot: "thread sys = Due \<Longrightarrow> step mode encode sys (worker_snapshot encode sys)"
| written: "thread sys = Writing encoded epoch \<Longrightarrow> step mode encode sys (worker_write (Inr ()) encoded epoch sys)"
| write_failed: "thread sys = Writing encoded epoch \<Longrightarrow> file \<in> {disk sys, Some encoded} \<Longrightarrow>
    step mode encode sys (worker_write (Inl problem) encoded epoch sys\<lparr> disk := file \<rparr>)"
| commit: "thread sys = Committing epoch \<Longrightarrow> step mode encode sys (worker_commit mode epoch sys)"
| fail: "thread sys = Failing error \<Longrightarrow> step mode encode sys (worker_fail error sys)"

inductive_cases stepE: "step mode encode sys sys'"

text \<open>The states the system reaches after a successful start.\<close>

inductive reachable :: "PersistenceMode \<Rightarrow> ('v \<Rightarrow> io_error fault + bytes) \<Rightarrow> 'v system \<Rightarrow> bool"
  for mode encode where
  start: "start_with_writer mode (Inr ()) state file now = Inr sys \<Longrightarrow> reachable mode encode sys"
| advance: "reachable mode encode sys \<Longrightarrow> step mode encode sys sys' \<Longrightarrow> reachable mode encode sys'"


section \<open>Invariants of the schedule and the thread\<close>

text \<open>The stored file encodes a version at least as new as the one recorded at an epoch.\<close>

definition newer_version :: "('v \<Rightarrow> io_error fault + bytes) \<Rightarrow> 'v system \<Rightarrow> nat \<Rightarrow> bytes \<Rightarrow> bool" where
  "newer_version encode sys epoch b \<longleftrightarrow>
     (\<exists>i < length (versions sys). recorded sys ! epoch \<le> i \<and> encode (versions sys ! i) = Inr b)"

definition durable :: "('v \<Rightarrow> io_error fault + bytes) \<Rightarrow> 'v system \<Rightarrow> nat \<Rightarrow> bool" where
  "durable encode sys epoch \<longleftrightarrow> (\<exists>b. disk sys = Some b \<and> newer_version encode sys epoch b)"

definition history_ok :: "'v system \<Rightarrow> bool" where
  "history_ok sys \<longleftrightarrow>
     length (recorded sys) = mutation_epoch (schedule sys) + 1 \<and> sorted (recorded sys)
     \<and> (\<forall>i \<in> set (recorded sys). i < length (versions sys))
     \<and> versions sys \<noteq> [] \<and> last (versions sys) = sys_state sys
     \<and> persisted_epoch (schedule sys) \<le> mutation_epoch (schedule sys)
     \<and> mutation_epoch (schedule sys) < usize_bound"

definition snapshot_ok :: "('v \<Rightarrow> io_error fault + bytes) \<Rightarrow> 'v system \<Rightarrow> bool" where
  "snapshot_ok encode sys \<longleftrightarrow>
     (\<forall>b e. thread sys = Writing b e \<longrightarrow>
        persisted_epoch (schedule sys) \<le> e \<and> e \<le> mutation_epoch (schedule sys) \<and> newer_version encode sys e b)
     \<and> (\<forall>e. thread sys = Committing e \<longrightarrow>
        persisted_epoch (schedule sys) \<le> e \<and> e \<le> mutation_epoch (schedule sys) \<and> durable encode sys e)
     \<and> (0 < persisted_epoch (schedule sys) \<longrightarrow> durable encode sys (persisted_epoch (schedule sys)))"

definition scheduling_ok :: "PersistenceMode \<Rightarrow> 'v system \<Rightarrow> bool" where
  "scheduling_ok mode sys \<longleftrightarrow>
     (failure (schedule sys) \<noteq> None \<longleftrightarrow> (\<exists>e. thread sys = Exited (Inl (Err e))))
     \<and> (mode = Immediate \<longrightarrow> deadline (schedule sys) = None)
     \<and> (thread sys = Waiting \<longrightarrow> mutation_epoch (schedule sys) \<noteq> persisted_epoch (schedule sys) \<longrightarrow>
          force (schedule sys) \<or> stopping (schedule sys) \<or> deadline (schedule sys) \<noteq> None)"

lemmas op_defs = mutate_def record_mutation_def flush_request_def request_stop_def worker_wait_def wait_until_due_def
  worker_snapshot_def worker_write_def worker_commit_def commit_write_def worker_fail_def store_failure_def check_failure_def

lemma newer_version_weaken:
  assumes "history_ok sys" "newer_version encode sys e b" "e' \<le> e" "e \<le> mutation_epoch (schedule sys)"
  shows "newer_version encode sys e' b"
proof -
  have "recorded sys ! e' \<le> recorded sys ! e"
    using assms by (intro sorted_nth_mono) (simp_all add: history_ok_def)
  then show ?thesis using assms(2) unfolding newer_version_def by (meson le_trans)
qed

text \<open>A step only extends the history.\<close>

definition extends :: "'v system \<Rightarrow> 'v system \<Rightarrow> bool" where
  "extends sys sys' \<longleftrightarrow>
     (\<exists>vs rs. versions sys' = versions sys @ vs \<and> recorded sys' = recorded sys @ rs)
     \<and> persisted_epoch (schedule sys) \<le> persisted_epoch (schedule sys')
     \<and> mutation_epoch (schedule sys) \<le> mutation_epoch (schedule sys')"

lemma newer_version_extends:
  assumes "history_ok sys" "extends sys sys'" "newer_version encode sys e b" "e \<le> mutation_epoch (schedule sys)"
  shows "newer_version encode sys' e b"
proof -
  obtain vs rs where v: "versions sys' = versions sys @ vs" "recorded sys' = recorded sys @ rs"
    using assms(2) by (auto simp: extends_def)
  obtain i where i: "i < length (versions sys)" "recorded sys ! e \<le> i" "encode (versions sys ! i) = Inr b"
    using assms(3) by (auto simp: newer_version_def)
  have "recorded sys' ! e = recorded sys ! e" using assms(1,4) v by (simp add: history_ok_def nth_append)
  then show ?thesis unfolding newer_version_def using i v by (intro exI [of _ i]) (simp add: nth_append)
qed

lemma durable_extends:
  "history_ok sys \<Longrightarrow> extends sys sys' \<Longrightarrow> disk sys' = disk sys \<Longrightarrow> durable encode sys e \<Longrightarrow>
     e \<le> mutation_epoch (schedule sys) \<Longrightarrow> durable encode sys' e"
  unfolding durable_def using newer_version_extends by metis

lemma step_extends: "history_ok sys \<Longrightarrow> snapshot_ok encode sys \<Longrightarrow> step mode encode sys sys' \<Longrightarrow> extends sys sys'"
  by (erule stepE)
    (auto simp: extends_def op_defs Let_def checked_add_def snapshot_ok_def
      split: sum.splits option.splits if_splits PersistenceMode.splits fault.splits prod.splits)

lemma step_history:
  assumes "history_ok sys" "snapshot_ok encode sys" "step mode encode sys sys'"
  shows "history_ok sys'"
  using assms(3)
proof (cases rule: step.cases)
  case (mutate v)
  have "recorded sys @ [length (versions sys)] \<noteq> []" by simp
  then show ?thesis using assms(1) mutate
    by (auto simp: history_ok_def op_defs Let_def checked_add_def sorted_append order.strict_implies_order less_SucI
        split: sum.splits option.splits if_splits PersistenceMode.splits)
qed (use assms(1,2) in \<open>auto simp: history_ok_def snapshot_ok_def op_defs Let_def
      split: sum.splits option.splits if_splits PersistenceMode.splits fault.splits\<close>)

lemma step_scheduling:
  assumes "scheduling_ok mode sys" "step mode encode sys sys'"
  shows "scheduling_ok mode sys'"
  using assms(2)
proof (cases rule: step.cases)
  case wait
  then show ?thesis using assms(1)
    by (auto simp: scheduling_ok_def op_defs Let_def split: sum.splits option.splits if_splits)
next
  case (mutate v)
  then show ?thesis using assms(1)
    by (auto simp: scheduling_ok_def op_defs Let_def checked_add_def
        split: sum.splits option.splits if_splits PersistenceMode.splits)
next
  case (commit e)
  then show ?thesis using assms(1)
    by (auto simp: scheduling_ok_def op_defs Let_def split: if_splits PersistenceMode.splits)
qed (use assms(1) in \<open>auto simp: scheduling_ok_def op_defs Let_def
      split: sum.splits option.splits if_splits fault.splits\<close>)

lemma snapshot_ok_unmoved:
  assumes "history_ok sys" "snapshot_ok encode sys" "extends sys sys'" "disk sys' = disk sys"
    "persisted_epoch (schedule sys') = persisted_epoch (schedule sys)"
    "thread sys' = thread sys \<or> (\<forall>b e. thread sys' \<noteq> Writing b e \<and> thread sys' \<noteq> Committing e)"
  shows "snapshot_ok encode sys'"
proof -
  have m: "mutation_epoch (schedule sys) \<le> mutation_epoch (schedule sys')" using assms(3) by (simp add: extends_def)
  have p: "persisted_epoch (schedule sys) \<le> mutation_epoch (schedule sys)" using assms(1) by (simp add: history_ok_def)
  show ?thesis unfolding snapshot_ok_def assms(5)
  proof (intro conjI allI impI)
    fix b e assume "thread sys' = Writing b e"
    then have "thread sys = Writing b e" using assms(6) by auto
    then have w: "persisted_epoch (schedule sys) \<le> e" "e \<le> mutation_epoch (schedule sys)" "newer_version encode sys e b"
      using assms(2) by (simp_all add: snapshot_ok_def)
    then show "persisted_epoch (schedule sys) \<le> e" "e \<le> mutation_epoch (schedule sys')" "newer_version encode sys' e b"
      using m newer_version_extends [OF assms(1,3)] by auto
  next
    fix e assume "thread sys' = Committing e"
    then have "thread sys = Committing e" using assms(6) by auto
    then have c: "persisted_epoch (schedule sys) \<le> e" "e \<le> mutation_epoch (schedule sys)" "durable encode sys e"
      using assms(2) by (simp_all add: snapshot_ok_def)
    then show "persisted_epoch (schedule sys) \<le> e" "e \<le> mutation_epoch (schedule sys')" "durable encode sys' e"
      using m durable_extends [OF assms(1,3,4)] by auto
  next
    assume "0 < persisted_epoch (schedule sys)"
    then have "durable encode sys (persisted_epoch (schedule sys))" using assms(2) by (simp add: snapshot_ok_def)
    then show "durable encode sys' (persisted_epoch (schedule sys))" using p by (rule durable_extends [OF assms(1,3,4)])
  qed
qed

lemma snapshot_taken:
  assumes "history_ok sys" "encode (sys_state sys) = Inr b"
  shows "newer_version encode sys (mutation_epoch (schedule sys)) b"
proof -
  let ?i = "length (versions sys) - 1"
  have "versions sys \<noteq> []" "versions sys ! ?i = sys_state sys"
    using assms(1) last_conv_nth [of "versions sys"] by (simp_all add: history_ok_def)
  moreover have "recorded sys ! mutation_epoch (schedule sys) \<in> set (recorded sys)"
    using assms(1) by (intro nth_mem) (simp add: history_ok_def)
  then have "recorded sys ! mutation_epoch (schedule sys) < length (versions sys)"
    using assms(1) by (simp add: history_ok_def)
  ultimately show ?thesis unfolding newer_version_def using assms(2) by (intro exI [of _ ?i]) auto
qed

lemma step_snapshot:
  assumes "history_ok sys" "snapshot_ok encode sys" "step mode encode sys sys'"
  shows "snapshot_ok encode sys'"
  using assms(3)
proof (cases rule: step.cases)
  case snapshot
  have p: "persisted_epoch (schedule sys) \<le> mutation_epoch (schedule sys)" using assms(1) by (simp add: history_ok_def)
  show ?thesis
  proof (cases "encode (sys_state sys)")
    case (Inr b)
    note newer = snapshot_taken [where encode = encode, OF assms(1) Inr]
    show ?thesis using snapshot Inr p newer assms(2)
      by (simp add: snapshot_ok_def worker_snapshot_def newer_version_def durable_def)
  next
    case (Inl f)
    then show ?thesis using assms(2) snapshot
      by (auto simp: snapshot_ok_def worker_snapshot_def newer_version_def durable_def split: fault.splits)
  qed
next
  case (written b e)
  then have w: "persisted_epoch (schedule sys) \<le> e" "e \<le> mutation_epoch (schedule sys)" "newer_version encode sys e b"
    using assms(2) by (simp_all add: snapshot_ok_def)
  note older = newer_version_weaken [where encode = encode, OF assms(1) w(3,1,2)]
  show ?thesis using written w older by (simp add: snapshot_ok_def worker_write_def newer_version_def durable_def)
next
  case (write_failed b e stored problem)
  then have w: "persisted_epoch (schedule sys) \<le> e" "e \<le> mutation_epoch (schedule sys)" "newer_version encode sys e b"
    using assms(2) by (simp_all add: snapshot_ok_def)
  note older = newer_version_weaken [where encode = encode, OF assms(1) w(3,1,2)]
  show ?thesis using write_failed older assms(2)
    by (auto simp: snapshot_ok_def worker_write_def newer_version_def durable_def split: fault.splits)
next
  case (commit e)
  then show ?thesis using assms(2)
    by (auto simp: snapshot_ok_def op_defs Let_def newer_version_def durable_def split: if_splits)
qed (use step_extends [OF assms] in \<open>auto intro!: snapshot_ok_unmoved [OF assms(1,2)] simp: op_defs Let_def
      split: sum.splits option.splits if_splits PersistenceMode.splits prod.splits\<close>)

lemma start_ok:
  assumes "start_with_writer mode (Inr ()) state file now = Inr sys"
  shows "history_ok sys \<and> snapshot_ok encode sys \<and> scheduling_ok mode sys"
  using assms by (auto simp: start_with_writer_def result_iffs history_ok_def snapshot_ok_def scheduling_ok_def
      ScheduleState_default_def usize_bound_def)

lemma reachable_ok: "reachable mode encode sys \<Longrightarrow> history_ok sys \<and> snapshot_ok encode sys \<and> scheduling_ok mode sys"
proof (induction rule: reachable.induct)
  case (start state stored now sys)
  then show ?case by (rule start_ok)
next
  case (advance sys sys')
  then show ?case using step_history step_snapshot step_scheduling by blast
qed


section \<open>What the schedule promises\<close>

text \<open>
  The abstract specification: a log of versions, a file, and the version up to which durability has
  been acknowledged. The file is only ever replaced by a version that is not older than what was
  acknowledged, and only what the file covers is acknowledged.
\<close>

record 'v durable_log =
  log_versions :: "'v list"
  log_acked :: nat
  log_file :: "bytes option"

inductive log_step :: "('v \<Rightarrow> io_error fault + bytes) \<Rightarrow> 'v durable_log \<Rightarrow> 'v durable_log \<Rightarrow> bool"
  for encode where
  append: "log_step encode l (l\<lparr> log_versions := log_versions l @ [v] \<rparr>)"
| store: "i < length (log_versions l) \<Longrightarrow> log_acked l \<le> i \<Longrightarrow> encode (log_versions l ! i) = Inr b \<Longrightarrow>
    log_step encode l (l\<lparr> log_file := Some b \<rparr>)"
| acknowledge: "log_acked l \<le> j \<Longrightarrow> j \<le> i \<Longrightarrow> i < length (log_versions l) \<Longrightarrow>
    log_file l = Some b \<Longrightarrow> encode (log_versions l ! i) = Inr b \<Longrightarrow> log_step encode l (l\<lparr> log_acked := j \<rparr>)"

definition durable_view :: "'v system \<Rightarrow> 'v durable_log" where
  "durable_view sys = \<lparr> log_versions = versions sys, log_acked = recorded sys ! persisted_epoch (schedule sys), log_file = disk sys \<rparr>"

lemma view_store:
  assumes "newer_version encode sys (persisted_epoch (schedule sys)) b"
  shows "log_step encode (durable_view sys) ((durable_view sys)\<lparr> log_file := Some b \<rparr>)"
proof -
  obtain i where "i < length (versions sys)" "recorded sys ! persisted_epoch (schedule sys) \<le> i"
    "encode (versions sys ! i) = Inr b" using assms by (auto simp: newer_version_def)
  then show ?thesis by (intro log_step.store [of i]) (simp_all add: durable_view_def)
qed

lemma view_acknowledge:
  assumes "recorded sys ! persisted_epoch (schedule sys) \<le> recorded sys ! e" "durable encode sys e"
  shows "log_step encode (durable_view sys) ((durable_view sys)\<lparr> log_acked := recorded sys ! e \<rparr>)"
proof -
  obtain i b where "i < length (versions sys)" "recorded sys ! e \<le> i" "encode (versions sys ! i) = Inr b" "disk sys = Some b"
    using assms(2) by (auto simp: durable_def newer_version_def)
  then show ?thesis using assms(1) by (intro log_step.acknowledge [of _ _ i]) (simp_all add: durable_view_def)
qed

lemma step_simulates:
  assumes "history_ok sys" "snapshot_ok encode sys" "step mode encode sys sys'"
  shows "log_step encode (durable_view sys) (durable_view sys') \<or> durable_view sys' = durable_view sys"
  using assms(3)
proof (cases rule: step.cases)
  case (mutate v)
  have "persisted_epoch (schedule sys) < length (recorded sys)" using assms(1) by (simp add: history_ok_def)
  then have "durable_view sys' = (durable_view sys)\<lparr> log_versions := versions sys @ [v] \<rparr>"
    using mutate by (auto simp: durable_view_def op_defs Let_def checked_add_def nth_append
        split: sum.splits option.splits if_splits PersistenceMode.splits)
  then show ?thesis using log_step.append [of encode "durable_view sys" v] by (simp add: durable_view_def)
next
  case (written b e)
  then have w: "persisted_epoch (schedule sys) \<le> e" "e \<le> mutation_epoch (schedule sys)" "newer_version encode sys e b"
    using assms(2) by (simp_all add: snapshot_ok_def)
  have "newer_version encode sys (persisted_epoch (schedule sys)) b" by (rule newer_version_weaken [OF assms(1) w(3,1,2)])
  then have "log_step encode (durable_view sys) ((durable_view sys)\<lparr> log_file := Some b \<rparr>)"
    by (rule view_store)
  moreover have "durable_view sys' = (durable_view sys)\<lparr> log_file := Some b \<rparr>"
    using written by (simp add: durable_view_def worker_write_def)
  ultimately show ?thesis by simp
next
  case (write_failed b e stored problem)
  then have w: "persisted_epoch (schedule sys) \<le> e" "e \<le> mutation_epoch (schedule sys)" "newer_version encode sys e b"
    using assms(2) by (simp_all add: snapshot_ok_def)
  have "newer_version encode sys (persisted_epoch (schedule sys)) b" by (rule newer_version_weaken [OF assms(1) w(3,1,2)])
  then have "log_step encode (durable_view sys) ((durable_view sys)\<lparr> log_file := Some b \<rparr>)"
    by (rule view_store)
  moreover have "durable_view sys' = (durable_view sys)\<lparr> log_file := stored \<rparr>"
    using write_failed by (simp add: durable_view_def worker_write_def split: fault.splits)
  ultimately show ?thesis using write_failed(3) by (auto simp: durable_view_def)
next
  case (commit e)
  then have c: "persisted_epoch (schedule sys) \<le> e" "e \<le> mutation_epoch (schedule sys)" "durable encode sys e"
    using assms(2) by (simp_all add: snapshot_ok_def)
  have "recorded sys ! persisted_epoch (schedule sys) \<le> recorded sys ! e"
    using assms(1) c by (intro sorted_nth_mono) (simp_all add: history_ok_def)
  then have "log_step encode (durable_view sys) ((durable_view sys)\<lparr> log_acked := recorded sys ! e \<rparr>)"
    using c(3) by (intro view_acknowledge)
  moreover have "durable_view sys' = (durable_view sys)\<lparr> log_acked := recorded sys ! e \<rparr>"
    using commit by (simp add: durable_view_def op_defs Let_def)
  ultimately show ?thesis by simp
qed (auto simp: durable_view_def op_defs Let_def split: sum.splits option.splits if_splits fault.splits)

interpretation persistence: refinement "step mode encode" "log_step encode"
    "\<lambda>sys. history_ok sys \<and> snapshot_ok encode sys" durable_view
  for mode encode
  by unfold_locales (use step_history step_snapshot step_simulates in blast)+

text \<open>
  C18: The detailed system refines the abstract durable log. From any successful start, every interleaving
  of mutations, flushes, stop requests, clock ticks and turns of the background thread, with writes that
  succeed or fail, is a run of the abstract log under the view that keeps the versions, the file and the
  newest acknowledged version.
\<close>

theorem persistence_refines:
  assumes "start_with_writer mode (Inr ()) state stored now = Inr sys\<^sub>0" "(step mode encode)\<^sup>*\<^sup>* sys\<^sub>0 sys"
  shows "durable_view sys\<^sub>0 = \<lparr> log_versions = [state], log_acked = 0, log_file = stored \<rparr>
    \<and> (log_step encode)\<^sup>*\<^sup>* (durable_view sys\<^sub>0) (durable_view sys)"
proof
  show "durable_view sys\<^sub>0 = \<lparr> log_versions = [state], log_acked = 0, log_file = stored \<rparr>"
    using assms(1) by (auto simp: start_with_writer_def result_iffs durable_view_def ScheduleState_default_def)
  show "(log_step encode)\<^sup>*\<^sup>* (durable_view sys\<^sub>0) (durable_view sys)"
    using persistence.runs_refine [OF assms(2)] start_ok [OF assms(1)] by blast
qed

text \<open>A small system: the state is a byte string and is its own encoding.\<close>

definition plain_encode :: "bytes \<Rightarrow> io_error fault + bytes" where
  "plain_encode v = Inr v"

definition plain_start :: "bytes system" where
  "plain_start = \<lparr> sys_state = [], schedule = ScheduleState_default, thread = Waiting, disk = None, clock = 0,
     versions = [[]], recorded = [0] \<rparr>"

lemma plain_started: "start_with_writer mode (Inr ()) [] None 0 = Inr plain_start" if "mode \<noteq> Batched 0"
  using that by (cases mode) (simp_all add: start_with_writer_def plain_start_def)

text \<open>The thread's own turn when the encoder and the writer succeed and a wait lasts until its deadline.\<close>

definition worker_turn :: "PersistenceMode \<Rightarrow> ('v \<Rightarrow> io_error fault + bytes) \<Rightarrow> 'v system \<Rightarrow> 'v system" where
  "worker_turn mode encode sys =
     (case thread sys of
        Waiting \<Rightarrow> worker_wait (sys\<lparr> clock := (case deadline (schedule sys) of None \<Rightarrow> clock sys | Some d \<Rightarrow> max (clock sys) d) \<rparr>)
      | Due \<Rightarrow> worker_snapshot encode sys
      | Writing encoded epoch \<Rightarrow> worker_write (Inr ()) encoded epoch sys
      | Committing epoch \<Rightarrow> worker_commit mode epoch sys
      | Failing error \<Rightarrow> worker_fail error sys
      | Exited _ \<Rightarrow> sys)"

lemma worker_turn_steps: "(step mode encode)\<^sup>*\<^sup>* sys (worker_turn mode encode sys)"
proof (cases "thread sys")
  case Waiting
  let ?c = "case deadline (schedule sys) of None \<Rightarrow> clock sys | Some d \<Rightarrow> max (clock sys) d"
  have "step mode encode sys (sys\<lparr> clock := clock sys + (?c - clock sys) \<rparr>)" by (rule step.tick)
  moreover have "clock sys \<le> ?c" by (auto split: option.splits)
  ultimately have "step mode encode sys (sys\<lparr> clock := ?c \<rparr>)" by simp
  moreover have "step mode encode (sys\<lparr> clock := ?c \<rparr>) (worker_wait (sys\<lparr> clock := ?c \<rparr>))"
    by (rule step.wait) (simp add: Waiting)
  ultimately show ?thesis by (simp add: worker_turn_def Waiting)
qed (auto simp: worker_turn_def intro: step.intros r_into_rtranclp)

lemma reachable_steps: "(step mode encode)\<^sup>*\<^sup>* sys sys' \<Longrightarrow> reachable mode encode sys \<Longrightarrow> reachable mode encode sys'"
  by (induction rule: rtranclp_induct) (auto intro: reachable.advance)

lemma worker_turns_steps: "(step mode encode)\<^sup>*\<^sup>* sys ((worker_turn mode encode ^^ n) sys)"
proof (induction n)
  case (Suc n)
  then show ?case using worker_turn_steps [of mode encode "(worker_turn mode encode ^^ n) sys"] by simp
qed simp

lemma persisted_durable:
  assumes "reachable mode encode sys" "0 < target" "target \<le> persisted_epoch (schedule sys)"
  shows "durable encode sys target"
proof -
  have ok: "history_ok sys" "snapshot_ok encode sys" using reachable_ok [OF assms(1)] by blast+
  then have "durable encode sys (persisted_epoch (schedule sys))" using assms(2,3) by (simp add: snapshot_ok_def)
  then show ?thesis
    using newer_version_weaken [OF ok(1) _ assms(3)] ok(1) by (auto simp: durable_def history_ok_def)
qed

lemma persisted_monotone:
  "(step mode encode)\<^sup>*\<^sup>* sys sys' \<Longrightarrow> reachable mode encode sys \<Longrightarrow>
     persisted_epoch (schedule sys) \<le> persisted_epoch (schedule sys')"
proof (induction rule: rtranclp_induct)
  case (step t u)
  then have "reachable mode encode t" using reachable_steps by blast
  then have "extends t u" using step_extends reachable_ok step by blast
  then show ?case using step by (simp add: extends_def)
qed simp

text \<open>
  C16: Nothing is acknowledged before it is durable, and what was acknowledged stays durable. When a receipt
  in immediate mode completes, when a flush returns at once, or when the thread ends its loop on a stop
  request, the file holds the encoding of a version at least as new as the acknowledged mutation, then and
  in every later state, whatever mutations, writes and failures follow. After a failure every receipt
  whose mutation is not yet durable completes with the stored error instead of waiting.
\<close>

theorem acknowledged_mutations_durable:
  assumes "reachable mode encode sys" "(step mode encode)\<^sup>*\<^sup>* sys sys'"
  shows "(wait_for_persistence r \<and> 0 < receipt_epoch r \<and> receipt_wait r (schedule sys) = Some (Inr ())
        \<longrightarrow> durable encode sys' (receipt_epoch r))
    \<and> (fst (flush_request (schedule sys)) = Inr None \<and> 0 < mutation_epoch (schedule sys)
        \<longrightarrow> durable encode sys' (mutation_epoch (schedule sys)))
    \<and> (thread sys = Waiting \<and> thread (worker_wait sys) = Exited (Inr ()) \<and> 0 < mutation_epoch (schedule sys)
        \<longrightarrow> durable encode sys' (mutation_epoch (schedule sys)))
    \<and> (failure (schedule sys) = Some err \<and> wait_for_persistence r \<and> persisted_epoch (schedule sys) < receipt_epoch r
        \<longrightarrow> receipt_wait r (schedule sys) = Some (Inl (to_io_error err)))"
proof -
  have r: "reachable mode encode sys'" using reachable_steps [OF assms(2,1)] .
  have d: "durable encode sys' target" if "0 < target" "target \<le> persisted_epoch (schedule sys)" for target
    using persisted_durable [OF r that(1)] persisted_monotone [OF assms(2,1)] that(2) by simp
  have w: "receipt_epoch r \<le> persisted_epoch (schedule sys)"
    if "wait_for_persistence r" "receipt_wait r (schedule sys) = Some (Inr ())"
    using that by (auto simp: receipt_wait_def wait_for_epoch_def split: if_splits sum.splits)
  have f: "mutation_epoch (schedule sys) \<le> persisted_epoch (schedule sys)"
    if "fst (flush_request (schedule sys)) = Inr None"
    using that by (auto simp: flush_request_def Let_def split: if_splits sum.splits)
  have s: "mutation_epoch (schedule sys) \<le> persisted_epoch (schedule sys)"
    if "thread sys = Waiting" "thread (worker_wait sys) = Exited (Inr ())"
    using that by (auto simp: worker_wait_def wait_until_due_def split: if_splits sum.splits option.splits)
  show ?thesis using d w f s by (auto simp: receipt_wait_def wait_for_epoch_def check_failure_def)
qed

text \<open>How many turns remain until everything recorded so far is persisted.\<close>

definition live :: "'v system \<Rightarrow> bool" where
  "live sys \<longleftrightarrow>
     (case thread sys of
        Failing _ \<Rightarrow> False
      | Exited r \<Rightarrow> r = Inr () \<and> persisted_epoch (schedule sys) = mutation_epoch (schedule sys)
      | _ \<Rightarrow> True)"

definition turns_left :: "'v system \<Rightarrow> nat" where
  "turns_left sys =
     (let current = mutation_epoch (schedule sys) in
      case thread sys of
        Waiting \<Rightarrow> if persisted_epoch (schedule sys) = current then 0 else 4
      | Due \<Rightarrow> 3
      | Writing _ epoch \<Rightarrow> if epoch = current then 2 else 6
      | Committing epoch \<Rightarrow> if epoch = current then 1 else 5
      | _ \<Rightarrow> 0)"

lemma turns_left_bound: "turns_left sys \<le> 6"
  by (simp add: turns_left_def Let_def split: worker.splits)

lemma turns_left_zero: "live sys \<Longrightarrow> turns_left sys = 0 \<Longrightarrow> persisted_epoch (schedule sys) = mutation_epoch (schedule sys)"
  by (auto simp: turns_left_def live_def Let_def split: worker.splits if_splits)

lemma turn_progress:
  assumes "reachable mode encode sys" "\<forall>v. \<exists>b. encode v = Inr b" "live sys"
  shows "turns_left (worker_turn mode encode sys) \<le> turns_left sys - 1 \<and> live (worker_turn mode encode sys)
     \<and> mutation_epoch (schedule (worker_turn mode encode sys)) = mutation_epoch (schedule sys)"
proof -
  have s: "scheduling_ok mode sys" using reachable_ok [OF assms(1)] by blast
  show ?thesis
  proof (cases "thread sys")
    case Waiting
    then have "failure (schedule sys) = None"
      "persisted_epoch (schedule sys) = mutation_epoch (schedule sys) \<or>
         force (schedule sys) \<or> stopping (schedule sys) \<or> deadline (schedule sys) \<noteq> None"
      using s by (auto simp: scheduling_ok_def)
    then show ?thesis using Waiting
      by (auto simp: worker_turn_def worker_wait_def wait_until_due_def check_failure_def turns_left_def live_def
          split: option.splits if_splits)
  next
    case Due
    obtain b where "encode (sys_state sys) = Inr b" using assms(2) by blast
    then show ?thesis using Due by (simp add: worker_turn_def worker_snapshot_def turns_left_def live_def)
  qed (use assms(3) in \<open>auto simp: worker_turn_def op_defs turns_left_def live_def Let_def split: PersistenceMode.splits\<close>)
qed

text \<open>
  C17: No recorded mutation is forgotten. In every reachable state whose thread has not ended or failed, in
  either mode, six turns of the thread with a working encoder and writer persist every mutation recorded so
  far, without any further client call: the waits end by a forced write or at a deadline that is always
  set while a mutation is pending.
\<close>

theorem pending_mutations_persist:
  assumes "reachable mode encode sys" "\<forall>v. \<exists>b. encode v = Inr b"
    "\<forall>r. thread sys \<noteq> Exited r" "\<forall>e. thread sys \<noteq> Failing e"
  shows "persisted_epoch (schedule ((worker_turn mode encode ^^ 6) sys)) = mutation_epoch (schedule sys)"
proof -
  have "live sys" using assms(3,4) by (cases "thread sys") (auto simp: live_def)
  then have "turns_left ((worker_turn mode encode ^^ n) sys) \<le> turns_left sys - n \<and> live ((worker_turn mode encode ^^ n) sys)
     \<and> mutation_epoch (schedule ((worker_turn mode encode ^^ n) sys)) = mutation_epoch (schedule sys)" for n
  proof (induction n)
    case (Suc n)
    have "reachable mode encode ((worker_turn mode encode ^^ n) sys)"
      using reachable_steps [OF worker_turns_steps assms(1)] .
    from turn_progress [OF this assms(2)] Suc show ?case by auto
  qed simp
  from this [of 6] show ?thesis
    using turns_left_bound [of sys] turns_left_zero [of "(worker_turn mode encode ^^ 6) sys"] by simp
qed

text \<open>
  C20: A mutation recorded after the thread has ended without an error is never persisted and its waiters
  never return. The handles outlive a shutdown, \<open>record_mutation\<close> looks at the failure but not at
  the stop request, and neither the normal end of the thread nor a panic in the encoder or the writer
  stores a failure: from such a state on, whatever steps follow, recording still succeeds (until the epoch
  is exhausted) and every wait for a later epoch, by a receipt in immediate mode or by a flush, keeps waiting.
\<close>

theorem waits_hang_after_exit:
  assumes "thread sys = Exited r" "failure (schedule sys) = None" "(step mode encode)\<^sup>*\<^sup>* sys sys'"
  shows "(persisted_epoch (schedule sys) < target \<longrightarrow> wait_for_epoch (schedule sys') target = None)
    \<and> (mutation_epoch (schedule sys') + 1 < usize_bound \<longrightarrow>
        fst (mutate mode v sys') = Inr \<lparr> receipt_epoch = mutation_epoch (schedule sys') + 1,
                                        wait_for_persistence = (mode = Immediate) \<rparr>)"
proof -
  have "thread sys' = Exited r \<and> failure (schedule sys') = None
     \<and> persisted_epoch (schedule sys') = persisted_epoch (schedule sys)"
    using assms(3)
  proof (induction rule: rtranclp_induct)
    case (step t u)
    from step.hyps(2) show ?case using step.IH
      by (cases rule: step.cases)
        (auto simp: op_defs Let_def checked_add_def split: sum.splits option.splits if_splits PersistenceMode.splits)
  qed (use assms in simp)
  then show ?thesis
    by (auto simp: wait_for_epoch_def check_failure_def mutate_def record_mutation_def Let_def checked_add_def
        split: PersistenceMode.splits)
qed

lemma plain_reachable: "mode \<noteq> Batched 0 \<Longrightarrow> reachable mode plain_encode plain_start"
  by (rule reachable.start [OF plain_started])

text \<open>The small system stopped before its first mutation.\<close>

definition plain_stopped :: "bytes system" where
  "plain_stopped = worker_wait (plain_start\<lparr> schedule := request_stop (schedule plain_start) \<rparr>)"

lemma plain_stopped_steps: "(step mode plain_encode)\<^sup>*\<^sup>* plain_start plain_stopped"
proof -
  let ?s = "plain_start\<lparr> schedule := request_stop (schedule plain_start) \<rparr>"
  have "step mode plain_encode plain_start ?s" by (rule step.stop)
  moreover have "step mode plain_encode ?s (worker_wait ?s)" by (rule step.wait) (simp add: plain_start_def)
  ultimately show ?thesis unfolding plain_stopped_def by simp
qed

theorem waits_hang_after_exit_witness:
  "reachable Immediate plain_encode plain_stopped
    \<and> fst (mutate Immediate [7] plain_stopped) = Inr \<lparr> receipt_epoch = 1, wait_for_persistence = True \<rparr>
    \<and> wait_for_epoch (schedule (snd (mutate Immediate [7] plain_stopped))) 1 = None"
proof -
  have e: "thread plain_stopped = Exited (Inr ())" "failure (schedule plain_stopped) = None"
    "persisted_epoch (schedule plain_stopped) = 0" "mutation_epoch (schedule plain_stopped) = 0"
    by (simp_all add: plain_stopped_def plain_start_def op_defs ScheduleState_default_def)
  have m: "(step Immediate plain_encode)\<^sup>*\<^sup>* plain_stopped (snd (mutate Immediate [7] plain_stopped))"
    by (rule r_into_rtranclp) (rule step.mutate)
  have "reachable Immediate plain_encode plain_stopped"
    using reachable_steps [OF plain_stopped_steps plain_reachable] by simp
  then show ?thesis
    using waits_hang_after_exit [OF e(1,2) m, of 1 "[7]"] waits_hang_after_exit [OF e(1,2) rtranclp.rtrancl_refl, of 1 Immediate "[7]"] e
    by (simp add: usize_bound_def)
qed

text \<open>The small system with one mutation, and after four turns of its thread.\<close>

definition plain_mutated :: "bytes system" where
  "plain_mutated = snd (mutate Immediate [7] plain_start)"

definition plain_stored :: "bytes system" where
  "plain_stored = (worker_turn Immediate plain_encode ^^ 4) plain_mutated"

lemma plain_mutated_steps: "(step Immediate plain_encode)\<^sup>*\<^sup>* plain_start plain_mutated"
  unfolding plain_mutated_def by (rule r_into_rtranclp) (rule step.mutate)

lemma plain_stored_steps: "(step Immediate plain_encode)\<^sup>*\<^sup>* plain_start plain_stored"
  unfolding plain_stored_def by (rule rtranclp_trans [OF plain_mutated_steps worker_turns_steps])

theorem persistence_refines_witness:
  "(log_step plain_encode)\<^sup>*\<^sup>* \<lparr> log_versions = [[]], log_acked = 0, log_file = None \<rparr> (durable_view plain_stored)"
proof -
  have "durable_view plain_start = \<lparr> log_versions = [[]], log_acked = 0, log_file = None \<rparr>
      \<and> (log_step plain_encode)\<^sup>*\<^sup>* (durable_view plain_start) (durable_view plain_stored)"
    by (rule persistence_refines [OF plain_started plain_stored_steps]) simp
  then show ?thesis by (elim conjE) (simp only:)
qed

text \<open>Its four turns, state by state.\<close>

definition plain_at :: "worker \<Rightarrow> nat \<Rightarrow> bool \<Rightarrow> bytes option \<Rightarrow> bytes system" where
  "plain_at w persisted forced stored =
     \<lparr> sys_state = [7],
       schedule = \<lparr> mutation_epoch = 1, persisted_epoch = persisted, deadline = None, force = forced, stopping = False, failure = None \<rparr>,
       thread = w, disk = stored, clock = 0, versions = [[], [7]], recorded = [0, 1] \<rparr>"

lemma plain_turns:
  "plain_mutated = plain_at Waiting 0 True None"
  "worker_turn Immediate plain_encode (plain_at Waiting 0 True None) = plain_at Due 0 False None"
  "worker_turn Immediate plain_encode (plain_at Due 0 False None) = plain_at (Writing [7] 1) 0 False None"
  "worker_turn Immediate plain_encode (plain_at (Writing [7] 1) 0 False None) = plain_at (Committing 1) 0 False (Some [7])"
  "worker_turn Immediate plain_encode (plain_at (Committing 1) 0 False (Some [7])) = plain_at Waiting 1 False (Some [7])"
  by (simp_all add: plain_mutated_def plain_start_def plain_at_def plain_encode_def worker_turn_def op_defs Let_def
      ScheduleState_default_def checked_add_def usize_bound_def)

lemma plain_stored_eq: "plain_stored = plain_at Waiting 1 False (Some [7])"
  by (simp add: plain_stored_def plain_turns [simplified] numeral_eq_Suc)

theorem acknowledged_mutations_durable_witness:
  "durable plain_encode plain_stored 1"
proof -
  have r: "reachable Immediate plain_encode plain_stored"
    using reachable_steps [OF plain_stored_steps plain_reachable] by simp
  have "receipt_wait \<lparr> receipt_epoch = 1, wait_for_persistence = True \<rparr> (schedule plain_stored) = Some (Inr ())"
    by (simp add: receipt_wait_def wait_for_epoch_def plain_stored_eq plain_at_def)
  then show ?thesis
    using acknowledged_mutations_durable [OF r rtranclp.rtrancl_refl, of "\<lparr> receipt_epoch = 1, wait_for_persistence = True \<rparr>"]
    by simp
qed

theorem pending_mutations_persist_witness:
  "persisted_epoch (schedule ((worker_turn Immediate plain_encode ^^ 6) plain_mutated)) = 1"
proof -
  have r: "reachable Immediate plain_encode plain_mutated"
    using reachable_steps [OF plain_mutated_steps plain_reachable] by simp
  have "thread plain_mutated = Waiting" "mutation_epoch (schedule plain_mutated) = 1"
    by (simp_all add: plain_mutated_def plain_start_def op_defs Let_def ScheduleState_default_def checked_add_def usize_bound_def)
  then show ?thesis using pending_mutations_persist [OF r] by (simp add: plain_encode_def)
qed

end
