(* ===== verification/State_File.thy ===== *)
theory State_File
  imports State_Persistence
begin

text \<open>
  \<^verbatim>\<open>replace_file_atomically\<close> of \<^verbatim>\<open>src/src/state_persistence.rs\<close> on a file system that maps
  paths to contents. Every call may fail: \<open>replace_faults\<close> says which calls do, and how much of the
  data a failing write leaves behind. The result carries every state of the file system on the way, so
  that a crash at any point is a prefix of that list.
\<close>

section \<open>Paths and calls\<close>

text \<open>A path: its parent (none for a root or an empty path, empty for a bare file name), stem and extension.\<close>

record file_path =
  path_parent :: "string option"
  path_stem :: string
  path_extension :: "string option"

type_synonym file_system = "file_path \<Rightarrow> bytes option"

definition with_extension :: "file_path \<Rightarrow> string \<Rightarrow> file_path" where
  "with_extension path ext = path\<lparr> path_extension := Some ext \<rparr>"

fun decimal :: "nat \<Rightarrow> string" where
  "decimal n = (if n < 10 then [char_of (48 + n)] else decimal (n div 10) @ [char_of (48 + n mod 10)])"

declare decimal.simps [simp del]

record replace_faults =
  create_fault :: "u64 \<Rightarrow> io_error option"
  write_fault :: "(nat \<times> io_error) option"
  sync_fault :: "io_error option"
  rename_fault :: "io_error option"
  open_parent_fault :: "io_error option"
  sync_parent_fault :: "io_error option"
  remove_fault :: "io_error option"

definition call :: "io_error option \<Rightarrow> io_error + unit" where
  "call f = (case f of None \<Rightarrow> Inr () | Some e \<Rightarrow> Inl e)"

definition temporary_name :: "nat \<Rightarrow> file_path \<Rightarrow> u64 \<Rightarrow> file_path" where
  "temporary_name pid path number =
     with_extension path (''tmp-'' @ decimal pid @ ''-'' @ decimal (unat number))"

text \<open>
  The loop that creates the temporary file. Creation with \<open>create_new\<close> fails with
  \<open>AlreadyExists\<close> on an existing name; the counter is shared and wraps. The result is the name or the
  error, and the counter afterwards.
\<close>

partial_function (option) create_temporary ::
  "(u64 \<Rightarrow> io_error option) \<Rightarrow> nat \<Rightarrow> file_path \<Rightarrow> file_system \<Rightarrow> u64 \<Rightarrow> ((io_error + file_path) \<times> u64) option" where
  "create_temporary fault pid path fs counter =
     (let number = counter; counter = counter + 1;
          temporary = temporary_name pid path number;
          outcome = (case fault number of
              Some e \<Rightarrow> Inl e
            | None \<Rightarrow> if fs temporary \<noteq> None then Inl \<lparr> err_kind = IK_AlreadyExists, err_message = [] \<rparr> else Inr ())
      in case outcome of
           Inr _ \<Rightarrow> Some (Inr temporary, counter)
         | Inl e \<Rightarrow> if err_kind e = IK_AlreadyExists then create_temporary fault pid path fs counter
                   else Some (Inl e, counter))"

text \<open>
  The closure: write, sync, rename, and sync of the parent directory. Opening the directory of a bare file name
  opens the empty path, which does not exist. Each entry of the list is the file system after a call.
\<close>

definition replace_calls ::
  "replace_faults \<Rightarrow> file_path \<Rightarrow> file_path \<Rightarrow> bytes \<Rightarrow> file_system \<Rightarrow> (io_error + unit) \<times> file_system list" where
  "replace_calls faults temporary path encoded fs =
     (case write_fault faults of
        Some (n, e) \<Rightarrow> (Inl e, [fs(temporary \<mapsto> take n encoded)])
      | None \<Rightarrow>
        let written = fs(temporary \<mapsto> encoded) in
        (case sync_fault faults of
           Some e \<Rightarrow> (Inl e, [written])
         | None \<Rightarrow>
           (case rename_fault faults of
              Some e \<Rightarrow> (Inl e, [written])
            | None \<Rightarrow>
              let renamed = (if temporary = path then written else (written(path := written temporary))(temporary := None)) in
              (case path_parent path of
                 None \<Rightarrow> (Inl (io_other ''persistent state has no parent directory''), [written, renamed])
               | Some parent \<Rightarrow>
                 (bindR (if parent = [] then Inl \<lparr> err_kind = IK_Unlisted 2, err_message = [] \<rparr>
                         else call (open_parent_fault faults)) (\<lambda>_.
                  call (sync_parent_fault faults)), [written, renamed])))))"

definition replace_file_atomically ::
  "replace_faults \<Rightarrow> nat \<Rightarrow> file_path \<Rightarrow> bytes \<Rightarrow> file_system \<Rightarrow> u64
     \<Rightarrow> ((io_error + unit) \<times> file_system list \<times> u64) option" where
  "replace_file_atomically faults pid path encoded fs counter =
     (case create_temporary (create_fault faults) pid path fs counter of
        None \<Rightarrow> None
      | Some (Inl e, counter) \<Rightarrow> Some (Inl e, [fs], counter)
      | Some (Inr temporary, counter) \<Rightarrow>
        let (result, trace) = replace_calls faults temporary path encoded fs;
            trace = fs # fs(temporary \<mapsto> []) # trace in
        Some (result,
          (case result of
             Inr _ \<Rightarrow> trace
           | Inl _ \<Rightarrow> if remove_fault faults = None then trace @ [(last trace)(temporary := None)] else trace),
          counter))"


section \<open>The loop ends\<close>

definition name_free :: "(u64 \<Rightarrow> io_error option) \<Rightarrow> nat \<Rightarrow> file_path \<Rightarrow> file_system \<Rightarrow> u64 \<Rightarrow> bool" where
  "name_free fault pid path fs number \<longleftrightarrow> fault number = None \<and> fs (temporary_name pid path number) = None"

lemma create_temporary_returns:
  "name_free fault pid path fs (counter + word_of_nat k) \<Longrightarrow> \<exists>r. create_temporary fault pid path fs counter = Some r"
proof (induction k arbitrary: counter)
  case 0
  then show ?case by (subst create_temporary.simps) (simp add: name_free_def Let_def)
next
  case (Suc k)
  then have "name_free fault pid path fs (counter + 1 + word_of_nat k)" by (simp only: of_nat_Suc add.assoc)
  then obtain r where "create_temporary fault pid path fs (counter + 1) = Some r" using Suc.IH by blast
  then show ?case by (subst create_temporary.simps) (auto simp: Let_def split: option.splits)
qed

definition fresh_result :: "nat \<Rightarrow> file_path \<Rightarrow> file_system \<Rightarrow> (io_error + file_path) \<times> u64 \<Rightarrow> bool" where
  "fresh_result pid path fs r \<longleftrightarrow>
     (\<forall>t. fst r = Inr t \<longrightarrow> fs t = None \<and> (\<exists>number. t = temporary_name pid path number))"

lemma create_temporary_fresh:
  assumes "create_temporary fault pid path fs counter = Some r"
  shows "fresh_result pid path fs r"
proof (rule create_temporary.raw_induct [where P = "\<lambda>fault pid path fs counter r. fresh_result pid path fs r", OF _ assms], goal_cases)
  case (1 rec fault pid path fs counter r)
  consider e where "fault counter = Some e" "err_kind e \<noteq> IK_AlreadyExists" | e where "fault counter = Some e" "err_kind e = IK_AlreadyExists"
    | "fault counter = None" "fs (temporary_name pid path counter) \<noteq> None"
    | "fault counter = None" "fs (temporary_name pid path counter) = None" by fastforce
  then show ?case
  proof cases
    case 4
    then show ?thesis using 1(2) by (auto simp: fresh_result_def Let_def)
  qed (use 1 in \<open>auto simp: fresh_result_def Let_def\<close>)
qed


section \<open>Every state on the way\<close>

text \<open>Apart from the temporary file, the file system is the old one or has the new file in full.\<close>

definition old_or_new :: "file_path \<Rightarrow> file_path \<Rightarrow> bytes \<Rightarrow> file_system \<Rightarrow> file_system \<Rightarrow> bool" where
  "old_or_new temporary path encoded fs fs' \<longleftrightarrow>
     (\<forall>p. p \<noteq> temporary \<longrightarrow> p \<noteq> path \<longrightarrow> fs' p = fs p) \<and> (fs' path = fs path \<or> fs' path = Some encoded)"

lemma replace_calls_states:
  assumes "temporary \<noteq> path" "fs' \<in> set (snd (replace_calls faults temporary path encoded fs))"
  shows "old_or_new temporary path encoded fs fs'"
  using assms by (auto simp: replace_calls_def Let_def old_or_new_def split: option.splits prod.splits)

lemma replace_calls_done:
  assumes "temporary \<noteq> path" "fst (replace_calls faults temporary path encoded fs) = Inr ()"
  shows "snd (replace_calls faults temporary path encoded fs) \<noteq> []"
    "last (snd (replace_calls faults temporary path encoded fs)) = (fs(path \<mapsto> encoded))(temporary := None)"
  using assms by (auto simp: replace_calls_def Let_def fun_eq_iff split: option.splits prod.splits if_splits)

lemma temporary_differs: "path_extension path = None \<or> (\<exists>c cs. path_extension path = Some (c # cs) \<and> c \<noteq> CHR ''t'') \<Longrightarrow>
    temporary_name pid path number \<noteq> path"
  by (cases path) (auto simp: temporary_name_def with_extension_def)

text \<open>
  C19: Replacement is atomic and ends. If some later value of the counter names a file that can be created, the
  call returns. Every state of the file system on the way, so also the state after a crash, has under the path
  either its old content or exactly the new bytes, and leaves every other file but the temporary one
  alone. When the call returns without an error, the path holds the new bytes, the temporary file is gone and
  nothing else has changed.
\<close>

theorem replacement_atomic:
  assumes "name_free (create_fault faults) pid path fs (counter + word_of_nat k)"
    and "\<forall>number. temporary_name pid path number \<noteq> path"
  shows "\<exists>result trace counter' temporary.
    replace_file_atomically faults pid path encoded fs counter = Some (result, trace, counter')
    \<and> trace \<noteq> [] \<and> hd trace = fs
    \<and> (\<forall>fs' \<in> set trace. (fs' path = fs path \<or> fs' path = Some encoded)
         \<and> (\<forall>p. p \<noteq> path \<longrightarrow> p \<noteq> temporary \<longrightarrow> fs' p = fs p))
    \<and> (result = Inr () \<longrightarrow> fs temporary = None \<and> last trace = fs(path \<mapsto> encoded))"
proof -
  obtain r counter' where c: "create_temporary (create_fault faults) pid path fs counter = Some (r, counter')"
    using create_temporary_returns [OF assms(1)] by force
  show ?thesis
  proof (cases r)
    case (Inl e)
    then show ?thesis using c by (auto simp: replace_file_atomically_def)
  next
    case (Inr temporary)
    have t: "fs temporary = None" "temporary \<noteq> path"
      using create_temporary_fresh [OF c] Inr assms(2) by (auto simp: fresh_result_def)
    obtain result calls where rc: "replace_calls faults temporary path encoded fs = (result, calls)" by force
    have calls: "old_or_new temporary path encoded fs fs'" if "fs' \<in> set (fs # fs(temporary \<mapsto> []) # calls)" for fs'
      using that replace_calls_states [OF t(2), of fs' faults encoded fs] rc t(2) by (auto simp: old_or_new_def)
    define trace where "trace = fs # fs(temporary \<mapsto> []) # calls"
    have lst: "old_or_new temporary path encoded fs (last trace)"
      by (rule calls) (use last_in_set [of trace] in \<open>simp add: trace_def\<close>)
    define full where "full = (case result of Inr _ \<Rightarrow> trace
      | Inl _ \<Rightarrow> if remove_fault faults = None then trace @ [(last trace)(temporary := None)] else trace)"
    have eq: "replace_file_atomically faults pid path encoded fs counter = Some (result, full, counter')"
      unfolding replace_file_atomically_def c Inr by (simp add: rc full_def flip: trace_def)
    have all: "old_or_new temporary path encoded fs fs'" if "fs' \<in> set full" for fs'
    proof -
      have "fs' \<in> set trace \<or> fs' = (last trace)(temporary := None)"
        using that by (auto simp: full_def split: sum.splits if_splits)
      then show ?thesis using calls [folded trace_def] lst t(2) by (auto simp: old_or_new_def)
    qed
    have "last full = fs(path \<mapsto> encoded)" if "result = Inr ()"
    proof -
      have d: "calls \<noteq> []" "last calls = (fs(path \<mapsto> encoded))(temporary := None)"
        using replace_calls_done [OF t(2), of faults encoded fs] rc that by simp_all
      then show ?thesis using that t by (simp add: full_def trace_def fun_upd_idem)
    qed
    moreover have "full \<noteq> []" "hd full = fs" by (auto simp: full_def trace_def split: sum.splits)
    ultimately show ?thesis using eq all t(1) unfolding old_or_new_def by blast
  qed
qed


theorem replacement_atomic_witness:
  "\<exists>trace counter' temporary.
    replace_file_atomically \<lparr> create_fault = (\<lambda>_. None), write_fault = None, sync_fault = None, rename_fault = None,
        open_parent_fault = None, sync_parent_fault = None, remove_fault = None \<rparr> 2
      \<lparr> path_parent = Some ''d'', path_stem = ''s'', path_extension = None \<rparr> [1, 2] Map.empty 0
      = Some (Inr (), trace, counter')
    \<and> last trace = [\<lparr> path_parent = Some ''d'', path_stem = ''s'', path_extension = None \<rparr> \<mapsto> [1, 2]]"
proof -
  let ?faults = "\<lparr> create_fault = (\<lambda>_. None), write_fault = None, sync_fault = None, rename_fault = None,
        open_parent_fault = None, sync_parent_fault = None, remove_fault = None \<rparr>"
    and ?path = "\<lparr> path_parent = Some ''d'', path_stem = ''s'', path_extension = None \<rparr>"
  have f: "name_free (create_fault ?faults) 2 ?path Map.empty (0 + word_of_nat 0)" by (simp add: name_free_def)
  have n: "\<forall>number. temporary_name 2 ?path number \<noteq> ?path" by (simp add: temporary_differs)
  have c: "create_temporary (\<lambda>_. None) 2 ?path Map.empty 0 = Some (Inr (temporary_name 2 ?path 0), 1)"
    by (subst create_temporary.simps) (simp add: Let_def)
  have ok: "fst (the (replace_file_atomically ?faults 2 ?path [1, 2] Map.empty 0)) = Inr ()"
    by (simp add: replace_file_atomically_def c replace_calls_def call_def Let_def)
  from replacement_atomic [OF f n, of "[1, 2]"] ok show ?thesis by auto
qed

text \<open>
  A bare file name is replaced and then reported as a failure: its parent is the empty path, which cannot be
  opened, so the directory is not synced.
\<close>

lemma bare_name_fails:
  assumes "path_parent path = Some []" "create_temporary (create_fault faults) pid path fs counter = Some (Inr temporary, counter')"
    "write_fault faults = None" "sync_fault faults = None" "rename_fault faults = None" "remove_fault faults = None" "temporary \<noteq> path"
  shows "\<exists>e trace. replace_file_atomically faults pid path encoded fs counter = Some (Inl e, trace, counter')
     \<and> last trace path = Some encoded"
  using assms by (simp add: replace_file_atomically_def replace_calls_def Let_def)

end
