(* ===== verification/Ml_Kem.thy ===== *)
theory Ml_Kem
  imports Contracts
begin

text \<open>
  \<^verbatim>\<open>src/src/post_quantum.rs\<close>, the ML-KEM half: parameter sets, private keys in their three raw
  representations, import checks, encapsulation and decapsulation. The crate \<open>ml_kem\<close> is the record
  \<open>ml_kem_crate\<close>, indexed by the parameter set its types carry; \<open>fill\<close> is the random source
  \<open>getrandom\<close>. The PKCS \#8 forms are in \<open>Pqc_Encoding\<close>.
\<close>

datatype MlKemParameterSet = MlKem512 | MlKem768 | MlKem1024

fun MlKem_public_key_length :: "MlKemParameterSet \<Rightarrow> nat" where
  "MlKem_public_key_length MlKem512 = 800"
| "MlKem_public_key_length MlKem768 = 1184"
| "MlKem_public_key_length MlKem1024 = 1568"

fun MlKem_expanded_length :: "MlKemParameterSet \<Rightarrow> nat" where
  "MlKem_expanded_length MlKem512 = 1632"
| "MlKem_expanded_length MlKem768 = 2400"
| "MlKem_expanded_length MlKem1024 = 3168"

fun MlKem_ciphertext_length :: "MlKemParameterSet \<Rightarrow> nat" where
  "MlKem_ciphertext_length MlKem512 = 768"
| "MlKem_ciphertext_length MlKem768 = 1088"
| "MlKem_ciphertext_length MlKem1024 = 1568"

datatype MlKemError =
    Kem_InvalidSeedLength
  | Kem_InvalidExpandedPrivateKey
  | Kem_InvalidPublicKey
  | Kem_InvalidCiphertext
  | Kem_InvalidPrivateKey
  | Kem_RandomnessUnavailable
  | Kem_EncodingFailed

text \<open>
  The crate: array sizes of encapsulation keys, ciphertexts and expanded keys (a slice of another length is
  refused), and the operations on decapsulation keys \<open>'d\<close> and encapsulation keys \<open>'e\<close>.
\<close>

record ('d, 'e) ml_kem_crate =
  mk_ek_size :: "MlKemParameterSet \<Rightarrow> nat"
  mk_ct_size :: "MlKemParameterSet \<Rightarrow> nat"
  mk_dk_size :: "MlKemParameterSet \<Rightarrow> nat"
  mk_from_seed :: "MlKemParameterSet \<Rightarrow> bytes \<Rightarrow> 'd"
  mk_from_expanded :: "MlKemParameterSet \<Rightarrow> bytes \<Rightarrow> 'd option"
  mk_to_seed :: "MlKemParameterSet \<Rightarrow> 'd \<Rightarrow> bytes option"
  mk_to_expanded :: "MlKemParameterSet \<Rightarrow> 'd \<Rightarrow> bytes"
  mk_encapsulation_key :: "MlKemParameterSet \<Rightarrow> 'd \<Rightarrow> bytes"
  mk_decapsulate :: "MlKemParameterSet \<Rightarrow> 'd \<Rightarrow> bytes \<Rightarrow> bytes"
  mk_new_ek :: "MlKemParameterSet \<Rightarrow> bytes \<Rightarrow> 'e option"
  mk_encapsulate :: "MlKemParameterSet \<Rightarrow> 'e \<Rightarrow> bytes \<Rightarrow> bytes \<times> bytes"

datatype 'd MlKemPrivateKey = Key_MlKem512 'd | Key_MlKem768 'd | Key_MlKem1024 'd

fun MlKem_parameter_set :: "'d MlKemPrivateKey \<Rightarrow> MlKemParameterSet" where
  "MlKem_parameter_set (Key_MlKem512 key) = MlKem512"
| "MlKem_parameter_set (Key_MlKem768 key) = MlKem768"
| "MlKem_parameter_set (Key_MlKem1024 key) = MlKem1024"

fun MlKem_from_seed :: "('d, 'e) ml_kem_crate \<Rightarrow> MlKemParameterSet \<Rightarrow> bytes \<Rightarrow> 'd MlKemPrivateKey" where
  "MlKem_from_seed crate MlKem512 seed = Key_MlKem512 (mk_from_seed crate MlKem512 seed)"
| "MlKem_from_seed crate MlKem768 seed = Key_MlKem768 (mk_from_seed crate MlKem768 seed)"
| "MlKem_from_seed crate MlKem1024 seed = Key_MlKem1024 (mk_from_seed crate MlKem1024 seed)"

definition MlKem_from_seed_slice ::
  "('d, 'e) ml_kem_crate \<Rightarrow> MlKemParameterSet \<Rightarrow> bytes \<Rightarrow> MlKemError + 'd MlKemPrivateKey" where
  "MlKem_from_seed_slice crate parameters seed =
     bindR (rejectR (length seed \<noteq> 64) Kem_InvalidSeedLength) (\<lambda>_. Inr (MlKem_from_seed crate parameters seed))"

fun MlKem_seed :: "('d, 'e) ml_kem_crate \<Rightarrow> 'd MlKemPrivateKey \<Rightarrow> bytes option" where
  "MlKem_seed crate (Key_MlKem512 key) = mk_to_seed crate MlKem512 key"
| "MlKem_seed crate (Key_MlKem768 key) = mk_to_seed crate MlKem768 key"
| "MlKem_seed crate (Key_MlKem1024 key) = mk_to_seed crate MlKem1024 key"

fun MlKem_expanded_private_key :: "('d, 'e) ml_kem_crate \<Rightarrow> 'd MlKemPrivateKey \<Rightarrow> bytes" where
  "MlKem_expanded_private_key crate (Key_MlKem512 key) = mk_to_expanded crate MlKem512 key"
| "MlKem_expanded_private_key crate (Key_MlKem768 key) = mk_to_expanded crate MlKem768 key"
| "MlKem_expanded_private_key crate (Key_MlKem1024 key) = mk_to_expanded crate MlKem1024 key"

fun MlKem_public_key :: "('d, 'e) ml_kem_crate \<Rightarrow> 'd MlKemPrivateKey \<Rightarrow> bytes" where
  "MlKem_public_key crate (Key_MlKem512 key) = mk_encapsulation_key crate MlKem512 key"
| "MlKem_public_key crate (Key_MlKem768 key) = mk_encapsulation_key crate MlKem768 key"
| "MlKem_public_key crate (Key_MlKem1024 key) = mk_encapsulation_key crate MlKem1024 key"

text \<open>The macro \<open>decapsulate!\<close> for one parameter set, and the method.\<close>

definition decapsulate_with ::
  "('d, 'e) ml_kem_crate \<Rightarrow> MlKemParameterSet \<Rightarrow> 'd \<Rightarrow> bytes \<Rightarrow> MlKemError + bytes" where
  "decapsulate_with crate parameters key ciphertext =
     bindR (rejectR (length ciphertext \<noteq> mk_ct_size crate parameters) Kem_InvalidCiphertext) (\<lambda>_.
     Inr (mk_decapsulate crate parameters key ciphertext))"

fun MlKem_decapsulate :: "('d, 'e) ml_kem_crate \<Rightarrow> 'd MlKemPrivateKey \<Rightarrow> bytes \<Rightarrow> MlKemError + bytes" where
  "MlKem_decapsulate crate (Key_MlKem512 key) ciphertext = decapsulate_with crate MlKem512 key ciphertext"
| "MlKem_decapsulate crate (Key_MlKem768 key) ciphertext = decapsulate_with crate MlKem768 key ciphertext"
| "MlKem_decapsulate crate (Key_MlKem1024 key) ciphertext = decapsulate_with crate MlKem1024 key ciphertext"

definition ml_kem_encapsulate_deterministic ::
  "('d, 'e) ml_kem_crate \<Rightarrow> MlKemParameterSet \<Rightarrow> bytes \<Rightarrow> bytes \<Rightarrow> MlKemError + bytes \<times> bytes" where
  "ml_kem_encapsulate_deterministic crate parameters public_key randomness =
     bindR (rejectR (length public_key \<noteq> mk_ek_size crate parameters) Kem_InvalidPublicKey) (\<lambda>_.
     bindR (ok_orR Kem_InvalidPublicKey (mk_new_ek crate parameters public_key)) (\<lambda>key.
     Inr (mk_encapsulate crate parameters key randomness)))"

definition ml_kem_encapsulate ::
  "('d, 'e) ml_kem_crate \<Rightarrow> (nat \<Rightarrow> ('s, 'g, bytes) op) \<Rightarrow> MlKemParameterSet \<Rightarrow> bytes
     \<Rightarrow> ('s, MlKemError, bytes \<times> bytes) op" where
  "ml_kem_encapsulate crate fill parameters public_key =
     bindE (map_errE (\<lambda>_. Kem_RandomnessUnavailable) (fill 32)) (\<lambda>randomness.
     liftE (ml_kem_encapsulate_deterministic crate parameters public_key randomness))"

text \<open>The macro \<open>decode!\<close> for one parameter set.\<close>

definition decode_expanded ::
  "('d, 'e) ml_kem_crate \<Rightarrow> MlKemParameterSet \<Rightarrow> ('d \<Rightarrow> 'd MlKemPrivateKey) \<Rightarrow> bytes \<Rightarrow> MlKemError + 'd MlKemPrivateKey" where
  "decode_expanded crate parameters variant expanded =
     bindR (rejectR (length expanded \<noteq> mk_dk_size crate parameters) Kem_InvalidExpandedPrivateKey) (\<lambda>_.
     bindR (ok_orR Kem_InvalidExpandedPrivateKey (mk_from_expanded crate parameters expanded)) (\<lambda>key. Inr (variant key)))"

definition from_expanded_private_key_with_randomness ::
  "('d, 'e) ml_kem_crate \<Rightarrow> (nat \<Rightarrow> ('s, MlKemError, bytes) op) \<Rightarrow> MlKemParameterSet \<Rightarrow> bytes
     \<Rightarrow> ('s, MlKemError, 'd MlKemPrivateKey) op" where
  "from_expanded_private_key_with_randomness crate fill_randomness parameters expanded =
     bindE (liftE (case parameters of
         MlKem512 \<Rightarrow> decode_expanded crate MlKem512 Key_MlKem512 expanded
       | MlKem768 \<Rightarrow> decode_expanded crate MlKem768 Key_MlKem768 expanded
       | MlKem1024 \<Rightarrow> decode_expanded crate MlKem1024 Key_MlKem1024 expanded)) (\<lambda>key.
     bindE (fill_randomness 32) (\<lambda>randomness.
     bindE (liftE (ml_kem_encapsulate_deterministic crate parameters (MlKem_public_key crate key) randomness))
       (\<lambda>(ciphertext, expected).
     bindE (liftE (MlKem_decapsulate crate key ciphertext)) (\<lambda>actual.
     bindE (rejectE (expected \<noteq> actual) Kem_InvalidExpandedPrivateKey) (\<lambda>_.
     okE key)))))"

definition MlKem_from_expanded ::
  "('d, 'e) ml_kem_crate \<Rightarrow> (nat \<Rightarrow> ('s, 'g, bytes) op) \<Rightarrow> MlKemParameterSet \<Rightarrow> bytes
     \<Rightarrow> ('s, MlKemError, 'd MlKemPrivateKey) op" where
  "MlKem_from_expanded crate fill parameters expanded =
     from_expanded_private_key_with_randomness crate
       (\<lambda>n. map_errE (\<lambda>_. Kem_RandomnessUnavailable) (fill n)) parameters expanded"

definition MlKem_from_seed_and_expanded ::
  "('d, 'e) ml_kem_crate \<Rightarrow> MlKemParameterSet \<Rightarrow> bytes \<Rightarrow> bytes \<Rightarrow> MlKemError + 'd MlKemPrivateKey" where
  "MlKem_from_seed_and_expanded crate parameters seed expanded =
     bindR (MlKem_from_seed_slice crate parameters seed) (\<lambda>key.
     bindR (rejectR (MlKem_expanded_private_key crate key \<noteq> expanded) Kem_InvalidExpandedPrivateKey) (\<lambda>_.
     Inr key))"

fun MlKem_from_components ::
  "('d, 'e) ml_kem_crate \<Rightarrow> (nat \<Rightarrow> ('s, 'g, bytes) op) \<Rightarrow> MlKemParameterSet \<Rightarrow> bytes option \<Rightarrow> bytes option
     \<Rightarrow> ('s, MlKemError, 'd MlKemPrivateKey) op" where
  "MlKem_from_components crate fill parameters (Some seed) (Some expanded) =
     liftE (MlKem_from_seed_and_expanded crate parameters seed expanded)"
| "MlKem_from_components crate fill parameters (Some seed) None = liftE (MlKem_from_seed_slice crate parameters seed)"
| "MlKem_from_components crate fill parameters None (Some expanded) = MlKem_from_expanded crate fill parameters expanded"
| "MlKem_from_components crate fill parameters None None = errE Kem_InvalidPrivateKey"

definition MlKem_from_serialized ::
  "('d, 'e) ml_kem_crate \<Rightarrow> (nat \<Rightarrow> ('s, 'g, bytes) op) \<Rightarrow> MlKemParameterSet \<Rightarrow> bytes
     \<Rightarrow> ('s, MlKemError, 'd MlKemPrivateKey) op" where
  "MlKem_from_serialized crate fill parameters encoded =
     (if length encoded = 64 then MlKem_from_components crate fill parameters (Some encoded) None
      else if length encoded = 64 + MlKem_expanded_length parameters then
        MlKem_from_components crate fill parameters (Some (take 64 encoded)) (Some (drop 64 encoded))
      else MlKem_from_components crate fill parameters None (Some encoded))"

definition MlKem_serialized :: "('d, 'e) ml_kem_crate \<Rightarrow> 'd MlKemPrivateKey \<Rightarrow> bytes" where
  "MlKem_serialized crate self =
     (case MlKem_seed crate self of Some seed \<Rightarrow> seed | None \<Rightarrow> MlKem_expanded_private_key crate self)"

definition MlKem_generate ::
  "('d, 'e) ml_kem_crate \<Rightarrow> (nat \<Rightarrow> ('s, 'g, bytes) op) \<Rightarrow> MlKemParameterSet \<Rightarrow> ('s, MlKemError, 'd MlKemPrivateKey) op" where
  "MlKem_generate crate fill parameters =
     bindE (map_errE (\<lambda>_. Kem_RandomnessUnavailable) (fill 64)) (\<lambda>seed.
     okE (MlKem_from_seed crate parameters seed))"


section \<open>Keys by parameter set\<close>

lemma from_seed_simps [simp]:
  "MlKem_parameter_set (MlKem_from_seed crate ps x) = ps"
  "MlKem_seed crate (MlKem_from_seed crate ps x) = mk_to_seed crate ps (mk_from_seed crate ps x)"
  "MlKem_expanded_private_key crate (MlKem_from_seed crate ps x) = mk_to_expanded crate ps (mk_from_seed crate ps x)"
  "MlKem_public_key crate (MlKem_from_seed crate ps x) = mk_encapsulation_key crate ps (mk_from_seed crate ps x)"
  "MlKem_decapsulate crate (MlKem_from_seed crate ps x) c = decapsulate_with crate ps (mk_from_seed crate ps x) c"
  by (cases ps; simp)+

text \<open>
  What the code relies on in the crate: the array sizes are those of FIPS 203, as are the lengths of what the
  operations produce, a key remembers the seed it was made from, and the crate accepts the public keys it makes.
\<close>

definition ml_kem_ok :: "('d, 'e) ml_kem_crate \<Rightarrow> bool" where
  "ml_kem_ok crate \<longleftrightarrow>
     (\<forall>ps. mk_ek_size crate ps = MlKem_public_key_length ps \<and> mk_ct_size crate ps = MlKem_ciphertext_length ps
        \<and> mk_dk_size crate ps = MlKem_expanded_length ps)
     \<and> (\<forall>ps d. length (mk_to_expanded crate ps d) = mk_dk_size crate ps
        \<and> length (mk_encapsulation_key crate ps d) = mk_ek_size crate ps
        \<and> mk_new_ek crate ps (mk_encapsulation_key crate ps d) \<noteq> None)
     \<and> (\<forall>ps e r. length (fst (mk_encapsulate crate ps e r)) = mk_ct_size crate ps)
     \<and> (\<forall>ps x. length x = 64 \<longrightarrow> mk_to_seed crate ps (mk_from_seed crate ps x) = Some x)"

text \<open>Decapsulation returns the secret that encapsulation with this randomness produced.\<close>

definition pairwise_consistent ::
  "('d, 'e) ml_kem_crate \<Rightarrow> 'd MlKemPrivateKey \<Rightarrow> bytes \<Rightarrow> bool" where
  "pairwise_consistent crate key randomness \<longleftrightarrow>
     (\<exists>ciphertext shared.
        ml_kem_encapsulate_deterministic crate (MlKem_parameter_set key) (MlKem_public_key crate key) randomness
          = Inr (ciphertext, shared)
        \<and> MlKem_decapsulate crate key ciphertext = Inr shared)"

text \<open>
  What it relies on for expanded keys: a key read from its expanded form of the right size is written back as the same
  bytes and has no seed.
\<close>

definition ml_kem_expanded_ok :: "('d, 'e) ml_kem_crate \<Rightarrow> bool" where
  "ml_kem_expanded_ok crate \<longleftrightarrow>
     (\<forall>ps x d. length x = mk_dk_size crate ps \<and> mk_from_expanded crate ps x = Some d \<longrightarrow>
        mk_to_expanded crate ps d = x \<and> mk_to_seed crate ps d = None)"

fun kem_key :: "MlKemParameterSet \<Rightarrow> 'd \<Rightarrow> 'd MlKemPrivateKey" where
  "kem_key MlKem512 d = Key_MlKem512 d"
| "kem_key MlKem768 d = Key_MlKem768 d"
| "kem_key MlKem1024 d = Key_MlKem1024 d"

lemma kem_key_simps [simp]:
  "MlKem_parameter_set (kem_key ps d) = ps"
  "MlKem_seed crate (kem_key ps d) = mk_to_seed crate ps d"
  "MlKem_expanded_private_key crate (kem_key ps d) = mk_to_expanded crate ps d"
  "MlKem_public_key crate (kem_key ps d) = mk_encapsulation_key crate ps d"
  "MlKem_decapsulate crate (kem_key ps d) c = decapsulate_with crate ps d c"
  by (cases ps; simp)+

lemma kem_key_from_seed: "MlKem_from_seed crate ps seed = kem_key ps (mk_from_seed crate ps seed)"
  by (cases ps) simp_all

text \<open>
  The last step of an expanded import: the source is asked for 32 bytes, and the key is returned when encapsulation with them
  and decapsulation agree.
\<close>

definition pairwise_checked ::
  "('d, 'e) ml_kem_crate \<Rightarrow> (nat \<Rightarrow> ('s, 'g, bytes) op) \<Rightarrow> 'd MlKemPrivateKey \<Rightarrow> ('s, MlKemError, 'd MlKemPrivateKey) op" where
  "pairwise_checked crate fill key = (\<lambda>s. case fill 32 s of
       (Inl _, s') \<Rightarrow> (Inl Kem_RandomnessUnavailable, s')
     | (Inr r, s') \<Rightarrow> (if pairwise_consistent crate key r then Inr key else Inl Kem_InvalidExpandedPrivateKey, s'))"

lemma encapsulation_returns:
  assumes "ml_kem_ok crate"
  obtains ciphertext shared actual where
    "ml_kem_encapsulate_deterministic crate ps (mk_encapsulation_key crate ps d) r = Inr (ciphertext, shared)"
    "decapsulate_with crate ps d ciphertext = Inr actual"
proof -
  obtain e where e: "mk_new_ek crate ps (mk_encapsulation_key crate ps d) = Some e" "length (mk_encapsulation_key crate ps d) = mk_ek_size crate ps"
    using assms unfolding ml_kem_ok_def by blast
  obtain c x where c: "mk_encapsulate crate ps e r = (c, x)" by force
  then have "length c = mk_ct_size crate ps" using assms unfolding ml_kem_ok_def by (metis fst_conv)
  then show ?thesis using e c that by (simp add: ml_kem_encapsulate_deterministic_def decapsulate_with_def)
qed

lemma expanded_import_eq:
  assumes "ml_kem_ok crate"
  shows "MlKem_from_expanded crate fill ps expanded =
    (case if length expanded = MlKem_expanded_length ps then mk_from_expanded crate ps expanded else None of
       None \<Rightarrow> errE Kem_InvalidExpandedPrivateKey | Some d \<Rightarrow> pairwise_checked crate fill (kem_key ps d))"
proof -
  have decode: "(case ps of MlKem512 \<Rightarrow> decode_expanded crate MlKem512 Key_MlKem512 expanded
      | MlKem768 \<Rightarrow> decode_expanded crate MlKem768 Key_MlKem768 expanded
      | MlKem1024 \<Rightarrow> decode_expanded crate MlKem1024 Key_MlKem1024 expanded)
    = (case if length expanded = MlKem_expanded_length ps then mk_from_expanded crate ps expanded else None of
         None \<Rightarrow> Inl Kem_InvalidExpandedPrivateKey | Some d \<Rightarrow> Inr (kem_key ps d))"
    using assms by (cases ps) (auto simp: decode_expanded_def ml_kem_ok_def bindR_def rejectR_def ok_orR_def split: option.split)
  show ?thesis
  proof (cases "if length expanded = MlKem_expanded_length ps then mk_from_expanded crate ps expanded else None")
    case None
    then show ?thesis
      by (simp add: MlKem_from_expanded_def from_expanded_private_key_with_randomness_def decode bindE_def liftE_def errE_def)
  next
    case (Some d)
    have "bindE (map_errE (\<lambda>_. Kem_RandomnessUnavailable) (fill 32)) (\<lambda>r.
        bindE (liftE (ml_kem_encapsulate_deterministic crate ps (MlKem_public_key crate (kem_key ps d)) r)) (\<lambda>(ciphertext, expected).
        bindE (liftE (MlKem_decapsulate crate (kem_key ps d) ciphertext)) (\<lambda>actual.
        bindE (rejectE (expected \<noteq> actual) Kem_InvalidExpandedPrivateKey) (\<lambda>_. okE (kem_key ps d))))) s
      = pairwise_checked crate fill (kem_key ps d) s" for s
    proof (cases "fst (fill 32 s)")
      case (Inl g)
      then show ?thesis by (cases "fill 32 s") (simp add: bindE_def map_errE_def map_errR_def pairwise_checked_def)
    next
      case (Inr r)
      obtain c x y where e: "ml_kem_encapsulate_deterministic crate ps (mk_encapsulation_key crate ps d) r = Inr (c, x)"
          "decapsulate_with crate ps d c = Inr y" using encapsulation_returns [OF assms] .
      then have "pairwise_consistent crate (kem_key ps d) r \<longleftrightarrow> x = y" by (auto simp: pairwise_consistent_def)
      then show ?thesis using Inr e
        by (cases "fill 32 s") (simp add: bindE_def map_errE_def map_errR_def pairwise_checked_def liftE_def rejectE_def okE_def errE_def)
    qed
    then show ?thesis using Some
      by (simp add: MlKem_from_expanded_def from_expanded_private_key_with_randomness_def decode fun_eq_iff)
  qed
qed

lemma stored_kem_key_cases:
  assumes "ml_kem_ok crate" "ml_kem_expanded_ok crate" "fst (MlKem_from_serialized crate fill ps stored s) = Inr key"
  obtains (seeded) seed where "length seed = 64" "key = MlKem_from_seed crate ps seed" "seed = take 64 stored"
      "length stored \<noteq> MlKem_expanded_length ps"
  | (expanded) d r where "length stored = MlKem_expanded_length ps" "mk_from_expanded crate ps stored = Some d" "key = kem_key ps d"
      "mk_to_seed crate ps d = None" "mk_to_expanded crate ps d = stored" "pairwise_consistent crate key r"
proof -
  have len: "MlKem_expanded_length ps > 1000" by (cases ps) simp_all
  consider "length stored = 64" | "length stored = 64 + MlKem_expanded_length ps"
    | "length stored \<noteq> 64" "length stored \<noteq> 64 + MlKem_expanded_length ps" by blast
  then show ?thesis
  proof cases
    case 1
    then show ?thesis using assms(3) len by (intro seeded [of stored]) (auto simp: MlKem_from_serialized_def MlKem_from_seed_slice_def okE_def)
  next
    case 2
    then show ?thesis using assms(3) len
      by (intro seeded [of "take 64 stored"])
        (auto simp: MlKem_from_serialized_def MlKem_from_seed_and_expanded_def MlKem_from_seed_slice_def liftE_def result_iffs)
  next
    case 3
    then have "fst (MlKem_from_expanded crate fill ps stored s) = Inr key" using assms(3) by (simp add: MlKem_from_serialized_def)
    then obtain d r where d: "length stored = MlKem_expanded_length ps" "mk_from_expanded crate ps stored = Some d" "key = kem_key ps d"
        "pairwise_consistent crate key r"
      unfolding expanded_import_eq [OF assms(1)]
      by (auto simp: pairwise_checked_def errE_def split: option.splits if_splits prod.splits sum.splits)
    moreover have "mk_to_seed crate ps d = None" "mk_to_expanded crate ps d = stored"
      using assms(1,2) d unfolding ml_kem_expanded_ok_def ml_kem_ok_def by simp_all
    ultimately show ?thesis using expanded by blast
  qed
qed


text \<open>A stand-in crate with the sizes of FIPS 203: the public key repeats the seed and the secret is the randomness.\<close>

definition sample_ml_kem :: "(bytes option \<times> bytes, bytes) ml_kem_crate" where
  "sample_ml_kem =
     \<lparr> mk_ek_size = MlKem_public_key_length, mk_ct_size = MlKem_ciphertext_length, mk_dk_size = MlKem_expanded_length,
       mk_from_seed = (\<lambda>ps x. (Some x, resize (MlKem_expanded_length ps) 0 x)),
       mk_from_expanded = (\<lambda>ps x. Some (None, x)),
       mk_to_seed = (\<lambda>ps. fst), mk_to_expanded = (\<lambda>ps d. resize (MlKem_expanded_length ps) 0 (snd d)),
       mk_encapsulation_key = (\<lambda>ps d. resize (MlKem_public_key_length ps) 0 (snd d)),
       mk_decapsulate = (\<lambda>ps d c. take 32 c),
       mk_new_ek = (\<lambda>ps x. Some x),
       mk_encapsulate = (\<lambda>ps e r. (resize (MlKem_ciphertext_length ps) 0 (take 32 r), resize 32 0 (take 32 r))) \<rparr>"

lemma sample_ml_kem_ok: "ml_kem_ok sample_ml_kem"
  by (auto simp: ml_kem_ok_def sample_ml_kem_def)

lemma sample_ml_kem_expanded_ok: "ml_kem_expanded_ok sample_ml_kem"
  by (auto simp: ml_kem_expanded_ok_def sample_ml_kem_def resize_def)

lemma sample_expanded_import:
  "fst (MlKem_from_serialized sample_ml_kem (\<lambda>n. okE (replicate n 7)) MlKem768 (replicate 2400 5) ()) = Inr (Key_MlKem768 (None, replicate 2400 5))"
proof -
  have "pairwise_consistent sample_ml_kem (kem_key MlKem768 (None, x)) (replicate 32 7)" for x
    by (simp add: pairwise_consistent_def ml_kem_encapsulate_deterministic_def decapsulate_with_def sample_ml_kem_def resize_def min_def)
  moreover have "mk_from_expanded sample_ml_kem MlKem768 x = Some (None, x)" for x by (simp add: sample_ml_kem_def)
  ultimately show ?thesis by (simp add: MlKem_from_serialized_def expanded_import_eq [OF sample_ml_kem_ok] pairwise_checked_def okE_def)
qed


end
