(* ===== verification/Hybrid_Kem.thy ===== *)
theory Hybrid_Kem
  imports Digest_Kdf Ml_Kem
begin

text \<open>
  \<^verbatim>\<open>src/src/hybrid_kem.rs\<close>: key encapsulation that combines ML-KEM with P-256, X25519 or
  P-384. A private key is one 32-byte seed, expanded with SHAKE256 into the component keys. Parameters:
  the curve crates, SHAKE256, the hash crates and the crate \<open>ml_kem\<close> behind \<open>Ml_Kem\<close>. The
  two curves with SEC1 points have the same type of secret key and of public key in the model.
\<close>

definition HYBRID_KEM_SECRET_LENGTH :: nat where "HYBRID_KEM_SECRET_LENGTH = 32"
definition HYBRID_KEM_SEED_LENGTH :: nat where "HYBRID_KEM_SEED_LENGTH = 32"

datatype HybridKemConstruction = MlKem768P256 | MlKem768X25519 | MlKem1024P384

fun Hybrid_public_key_length :: "HybridKemConstruction \<Rightarrow> nat" where
  "Hybrid_public_key_length MlKem768P256 = 1249"
| "Hybrid_public_key_length MlKem768X25519 = 1216"
| "Hybrid_public_key_length MlKem1024P384 = 1665"

fun Hybrid_ciphertext_length :: "HybridKemConstruction \<Rightarrow> nat" where
  "Hybrid_ciphertext_length MlKem768P256 = 1153"
| "Hybrid_ciphertext_length MlKem768X25519 = 1120"
| "Hybrid_ciphertext_length MlKem1024P384 = 1665"

fun traditional_seed_length :: "HybridKemConstruction \<Rightarrow> nat" where
  "traditional_seed_length MlKem768P256 = 128"
| "traditional_seed_length MlKem768X25519 = 32"
| "traditional_seed_length MlKem1024P384 = 48"

definition encapsulation_randomness_length :: "HybridKemConstruction \<Rightarrow> nat" where
  "encapsulation_randomness_length self = 32 + traditional_seed_length self"

fun Hybrid_ml_kem :: "HybridKemConstruction \<Rightarrow> MlKemParameterSet" where
  "Hybrid_ml_kem MlKem768P256 = MlKem768"
| "Hybrid_ml_kem MlKem768X25519 = MlKem768"
| "Hybrid_ml_kem MlKem1024P384 = MlKem1024"

fun traditional_public_key_length :: "HybridKemConstruction \<Rightarrow> nat" where
  "traditional_public_key_length MlKem768P256 = 65"
| "traditional_public_key_length MlKem768X25519 = 32"
| "traditional_public_key_length MlKem1024P384 = 97"

text \<open>The byte string of an ASCII literal; \<open>b"..."\<close> in the source.\<close>

definition ascii :: "string \<Rightarrow> bytes" where
  "ascii s = map (\<lambda>c. word_of_nat (of_char c)) s"

fun Hybrid_label :: "HybridKemConstruction \<Rightarrow> bytes" where
  "Hybrid_label MlKem768P256 = ascii ''MLKEM768-P256''"
| "Hybrid_label MlKem768X25519 = [0x5c, 0x2e, 0x2f, 0x2f, 0x5e, 0x5c]"
| "Hybrid_label MlKem1024P384 = ascii ''MLKEM1024-P384''"

datatype HybridKemError =
    Hyb_InvalidSeedLength
  | Hyb_InvalidPrivateKey
  | Hyb_InvalidPublicKey
  | Hyb_InvalidCiphertext
  | Hyb_InvalidRandomnessLength
  | Hyb_NonContributoryPublicKey
  | Hyb_RandomnessUnavailable

fun HybridKemError_from :: "MlKemError \<Rightarrow> HybridKemError" where
  "HybridKemError_from Kem_InvalidCiphertext = Hyb_InvalidCiphertext"
| "HybridKemError_from Kem_InvalidPublicKey = Hyb_InvalidPublicKey"
| "HybridKemError_from Kem_RandomnessUnavailable = Hyb_RandomnessUnavailable"
| "HybridKemError_from _ = Hyb_InvalidPrivateKey"

record HybridKemPrivateKey =
  hk_construction :: HybridKemConstruction
  hk_seed :: bytes

text \<open>
  A curve crate with SEC1 points: the secret key from a slice, the uncompressed public point of a secret
  key, the public key from bytes, and the raw shared secret. X25519 has no invalid keys of 32 bytes but tells
  whether the peer contributed.
\<close>

record ('k, 'p) ecdh_crate =
  sk_from_slice :: "bytes \<Rightarrow> 'k option"
  sk_public :: "'k \<Rightarrow> bytes"
  pk_from_sec1 :: "bytes \<Rightarrow> 'p option"
  ecdh :: "'k \<Rightarrow> 'p \<Rightarrow> bytes"

record ('k, 'p, 'x) curve_crates =
  crate_p256 :: "('k, 'p) ecdh_crate"
  crate_p384 :: "('k, 'p) ecdh_crate"
  x_from :: "bytes \<Rightarrow> 'x"
  x_public :: "'x \<Rightarrow> bytes"
  x_shared :: "'x \<Rightarrow> bytes \<Rightarrow> bytes"
  x_contributory :: "'x \<Rightarrow> bytes \<Rightarrow> bool"

datatype ('k, 'x) TraditionalPrivate = Trad_P256 'k | Trad_X25519 'x | Trad_P384 'k

fun Trad_from_seed ::
  "('k, 'p, 'x) curve_crates \<Rightarrow> HybridKemConstruction \<Rightarrow> bytes \<Rightarrow> HybridKemError + ('k, 'x) TraditionalPrivate" where
  "Trad_from_seed curves construction seed =
     bindR (rejectR (length seed \<noteq> traditional_seed_length construction) Hyb_InvalidRandomnessLength) (\<lambda>_.
     case construction of
       MlKem768P256 \<Rightarrow>
         ok_orR Hyb_InvalidPrivateKey (map_option Trad_P256
           (find_map (sk_from_slice (crate_p256 curves)) (chunks_exact 32 seed)))
     | MlKem768X25519 \<Rightarrow>
         bindR (rejectR (length seed \<noteq> 32) Hyb_InvalidPrivateKey) (\<lambda>_. Inr (Trad_X25519 (x_from curves seed)))
     | MlKem1024P384 \<Rightarrow>
         ok_orR Hyb_InvalidPrivateKey (map_option Trad_P384 (sk_from_slice (crate_p384 curves) seed)))"

fun Trad_public_key :: "('k, 'p, 'x) curve_crates \<Rightarrow> ('k, 'x) TraditionalPrivate \<Rightarrow> bytes" where
  "Trad_public_key curves (Trad_P256 key) = sk_public (crate_p256 curves) key"
| "Trad_public_key curves (Trad_X25519 key) = x_public curves key"
| "Trad_public_key curves (Trad_P384 key) = sk_public (crate_p384 curves) key"

fun Trad_derive :: "('k, 'p, 'x) curve_crates \<Rightarrow> ('k, 'x) TraditionalPrivate \<Rightarrow> bytes \<Rightarrow> HybridKemError + bytes" where
  "Trad_derive curves (Trad_P256 key) peer =
     bindR (ok_orR Hyb_InvalidPublicKey (pk_from_sec1 (crate_p256 curves) peer)) (\<lambda>peer.
     Inr (ecdh (crate_p256 curves) key peer))"
| "Trad_derive curves (Trad_X25519 key) peer =
     bindR (rejectR (length peer \<noteq> 32) Hyb_InvalidPublicKey) (\<lambda>_.
     bindR (rejectR (\<not> x_contributory curves key peer) Hyb_NonContributoryPublicKey) (\<lambda>_.
     Inr (x_shared curves key peer)))"
| "Trad_derive curves (Trad_P384 key) peer =
     bindR (ok_orR Hyb_InvalidPublicKey (pk_from_sec1 (crate_p384 curves) peer)) (\<lambda>peer.
     Inr (ecdh (crate_p384 curves) key peer))"

definition validate_traditional_public ::
  "('k, 'p, 'x) curve_crates \<Rightarrow> HybridKemConstruction \<Rightarrow> bytes \<Rightarrow> HybridKemError + unit" where
  "validate_traditional_public curves construction public =
     bindR (rejectR (length public \<noteq> traditional_public_key_length construction) Hyb_InvalidPublicKey) (\<lambda>_.
     case construction of
       MlKem768P256 \<Rightarrow> ok_orR Hyb_InvalidPublicKey (map_option (\<lambda>_. ()) (pk_from_sec1 (crate_p256 curves) public))
     | MlKem768X25519 \<Rightarrow>
         bindR (rejectR (length public \<noteq> 32) Hyb_InvalidPublicKey) (\<lambda>_.
         if public = replicate 32 0 then Inl Hyb_NonContributoryPublicKey else Inr ())
     | MlKem1024P384 \<Rightarrow> ok_orR Hyb_InvalidPublicKey (map_option (\<lambda>_. ()) (pk_from_sec1 (crate_p384 curves) public)))"

definition Hybrid_combine ::
  "('h, 'q) hash_crates \<Rightarrow> HybridKemConstruction \<Rightarrow> bytes \<Rightarrow> bytes \<Rightarrow> bytes \<Rightarrow> bytes \<Rightarrow> bytes" where
  "Hybrid_combine hashes construction shared_pq shared_t ciphertext_t public_t =
     (let state = hc_new hashes Sha3_256;
          state = hc_update hashes Sha3_256 state shared_pq;
          state = hc_update hashes Sha3_256 state shared_t;
          state = hc_update hashes Sha3_256 state ciphertext_t;
          state = hc_update hashes Sha3_256 state public_t;
          state = hc_update hashes Sha3_256 state (Hybrid_label construction)
      in hc_finalize hashes Sha3_256 state)"

text \<open>Everything the component calls of other crates.\<close>

record ('k, 'p, 'x, 'h, 'q, 'd, 'e) hybrid_crates =
  hy_curves :: "('k, 'p, 'x) curve_crates"
  hy_hashes :: "('h, 'q) hash_crates"
  hy_ml_kem :: "('d, 'e) ml_kem_crate"
  hy_shake256 :: "bytes \<Rightarrow> nat \<Rightarrow> bytes"

record ('k, 'x, 'd) ExpandedPrivate =
  ex_ml_kem :: "'d MlKemPrivateKey"
  ex_traditional :: "('k, 'x) TraditionalPrivate"
  ex_traditional_public :: bytes

definition expand_private ::
  "('k, 'p, 'x, 'h, 'q, 'd, 'e) hybrid_crates \<Rightarrow> HybridKemConstruction \<Rightarrow> bytes
     \<Rightarrow> HybridKemError + ('k, 'x, 'd) ExpandedPrivate" where
  "expand_private crates construction seed =
     (let out_len = 64 + traditional_seed_length construction;
          expanded = hy_shake256 crates seed out_len;
          ml_seed = take 64 expanded in
      bindR (rejectR (length ml_seed \<noteq> 64) Hyb_InvalidPrivateKey) (\<lambda>_.
      bindR (Trad_from_seed (hy_curves crates) construction (drop 64 expanded)) (\<lambda>traditional.
      Inr \<lparr> ex_ml_kem = MlKem_from_seed (hy_ml_kem crates) (Hybrid_ml_kem construction) ml_seed,
            ex_traditional = traditional,
            ex_traditional_public = Trad_public_key (hy_curves crates) traditional \<rparr>)))"

definition Hybrid_from_seed :: "HybridKemConstruction \<Rightarrow> bytes \<Rightarrow> HybridKemPrivateKey" where
  "Hybrid_from_seed construction seed = \<lparr> hk_construction = construction, hk_seed = seed \<rparr>"

definition Hybrid_from_seed_slice :: "HybridKemConstruction \<Rightarrow> bytes \<Rightarrow> HybridKemError + HybridKemPrivateKey" where
  "Hybrid_from_seed_slice construction seed =
     bindR (rejectR (length seed \<noteq> 32) Hyb_InvalidSeedLength) (\<lambda>_. Inr (Hybrid_from_seed construction seed))"

definition Hybrid_generate ::
  "(nat \<Rightarrow> ('s, 'g, bytes) op) \<Rightarrow> HybridKemConstruction \<Rightarrow> ('s, HybridKemError, HybridKemPrivateKey) op" where
  "Hybrid_generate fill construction =
     bindE (map_errE (\<lambda>_. Hyb_RandomnessUnavailable) (fill HYBRID_KEM_SEED_LENGTH)) (\<lambda>seed.
     okE (Hybrid_from_seed construction seed))"

definition Hybrid_public_key ::
  "('k, 'p, 'x, 'h, 'q, 'd, 'e) hybrid_crates \<Rightarrow> HybridKemPrivateKey \<Rightarrow> HybridKemError + bytes" where
  "Hybrid_public_key crates self =
     bindR (expand_private crates (hk_construction self) (hk_seed self)) (\<lambda>components.
     Inr (MlKem_public_key (hy_ml_kem crates) (ex_ml_kem components) @ ex_traditional_public components))"

definition Hybrid_decapsulate ::
  "('k, 'p, 'x, 'h, 'q, 'd, 'e) hybrid_crates \<Rightarrow> HybridKemPrivateKey \<Rightarrow> bytes \<Rightarrow> HybridKemError + bytes" where
  "Hybrid_decapsulate crates self ciphertext =
     bindR (rejectR (length ciphertext \<noteq> Hybrid_ciphertext_length (hk_construction self)) Hyb_InvalidCiphertext) (\<lambda>_.
     bindR (expand_private crates (hk_construction self) (hk_seed self)) (\<lambda>components.
     let pq_length = MlKem_ciphertext_length (Hybrid_ml_kem (hk_construction self));
         ciphertext_pq = take pq_length ciphertext;
         ciphertext_t = drop pq_length ciphertext in
     bindR (map_errR HybridKemError_from (MlKem_decapsulate (hy_ml_kem crates) (ex_ml_kem components) ciphertext_pq)) (\<lambda>shared_pq.
     bindR (Trad_derive (hy_curves crates) (ex_traditional components) ciphertext_t) (\<lambda>shared_t.
     Inr (Hybrid_combine (hy_hashes crates) (hk_construction self) shared_pq shared_t ciphertext_t
       (ex_traditional_public components))))))"

definition hybrid_kem_encapsulate_deterministic ::
  "('k, 'p, 'x, 'h, 'q, 'd, 'e) hybrid_crates \<Rightarrow> HybridKemConstruction \<Rightarrow> bytes \<Rightarrow> bytes
     \<Rightarrow> HybridKemError + bytes \<times> bytes" where
  "hybrid_kem_encapsulate_deterministic crates construction public_key randomness =
     bindR (rejectR (length public_key \<noteq> Hybrid_public_key_length construction) Hyb_InvalidPublicKey) (\<lambda>_.
     bindR (rejectR (length randomness \<noteq> encapsulation_randomness_length construction) Hyb_InvalidRandomnessLength) (\<lambda>_.
     let pq_public_length = MlKem_public_key_length (Hybrid_ml_kem construction);
         public_pq = take pq_public_length public_key;
         public_t = drop pq_public_length public_key in
     bindR (validate_traditional_public (hy_curves crates) construction public_t) (\<lambda>_.
     let randomness_pq = take 32 randomness; randomness_t = drop 32 randomness in
     bindR (rejectR (length randomness_pq \<noteq> 32) Hyb_InvalidRandomnessLength) (\<lambda>_.
     bindR (map_errR HybridKemError_from
       (ml_kem_encapsulate_deterministic (hy_ml_kem crates) (Hybrid_ml_kem construction) public_pq randomness_pq))
       (\<lambda>(ciphertext_pq, shared_pq).
     bindR (Trad_from_seed (hy_curves crates) construction randomness_t) (\<lambda>ephemeral.
     let ciphertext_t = Trad_public_key (hy_curves crates) ephemeral in
     bindR (Trad_derive (hy_curves crates) ephemeral public_t) (\<lambda>shared_t.
     let shared = Hybrid_combine (hy_hashes crates) construction shared_pq shared_t ciphertext_t public_t
     in Inr (ciphertext_pq @ ciphertext_t, shared))))))))"

definition hybrid_kem_encapsulate ::
  "('k, 'p, 'x, 'h, 'q, 'd, 'e) hybrid_crates \<Rightarrow> (nat \<Rightarrow> ('s, 'g, bytes) op) \<Rightarrow> HybridKemConstruction \<Rightarrow> bytes
     \<Rightarrow> ('s, HybridKemError, bytes \<times> bytes) op" where
  "hybrid_kem_encapsulate crates fill construction public_key =
     bindE (map_errE (\<lambda>_. Hyb_RandomnessUnavailable) (fill (encapsulation_randomness_length construction))) (\<lambda>randomness.
     liftE (hybrid_kem_encapsulate_deterministic crates construction public_key randomness))"


section \<open>Agreement of the two sides\<close>

text \<open>
  The contract of a key exchange: on keys of one group, either side derives the same secret from the
  other's public key.
\<close>

locale key_exchange =
  fixes valid :: "'c \<Rightarrow> bool"
    and same_group :: "'k \<Rightarrow> 'k \<Rightarrow> bool"
    and public_of :: "'c \<Rightarrow> 'k \<Rightarrow> bytes"
    and derive :: "'c \<Rightarrow> 'k \<Rightarrow> bytes \<Rightarrow> 'e + bytes"
  assumes agree: "valid c \<Longrightarrow> same_group a b \<Longrightarrow> derive c a (public_of c b) = derive c b (public_of c a)"
begin

lemma receiver_derives:
  "valid c \<Longrightarrow> same_group a b \<Longrightarrow> derive c a (public_of c b) = Inr s \<Longrightarrow> derive c b (public_of c a) = Inr s"
  using agree by metis

end

text \<open>What the curve crates promise: public keys decode, have their SEC1 size, and Diffie-Hellman agrees.\<close>

definition ecdh_ok :: "('k, 'p) ecdh_crate \<Rightarrow> nat \<Rightarrow> bool" where
  "ecdh_ok crate n \<longleftrightarrow>
     (\<forall>a. length (sk_public crate a) = n)
     \<and> (\<forall>a b. \<exists>pa pb. pk_from_sec1 crate (sk_public crate a) = Some pa \<and> pk_from_sec1 crate (sk_public crate b) = Some pb
          \<and> ecdh crate a pb = ecdh crate b pa)"

definition curves_ok :: "('k, 'p, 'x) curve_crates \<Rightarrow> bool" where
  "curves_ok curves \<longleftrightarrow>
     ecdh_ok (crate_p256 curves) 65 \<and> ecdh_ok (crate_p384 curves) 97
     \<and> (\<forall>a. length (x_public curves a) = 32)
     \<and> (\<forall>a b. x_shared curves a (x_public curves b) = x_shared curves b (x_public curves a)
          \<and> x_contributory curves a (x_public curves b) = x_contributory curves b (x_public curves a))"

fun same_curve :: "('k, 'x) TraditionalPrivate \<Rightarrow> ('k, 'x) TraditionalPrivate \<Rightarrow> bool" where
  "same_curve (Trad_P256 a) (Trad_P256 b) = True"
| "same_curve (Trad_X25519 a) (Trad_X25519 b) = True"
| "same_curve (Trad_P384 a) (Trad_P384 b) = True"
| "same_curve _ _ = False"

lemma ecdh_agrees:
  assumes "ecdh_ok crate n"
  shows "bindR (ok_orR e (pk_from_sec1 crate (sk_public crate b))) (\<lambda>p. Inr (ecdh crate a p))
       = bindR (ok_orR e (pk_from_sec1 crate (sk_public crate a))) (\<lambda>p. Inr (ecdh crate b p))"
proof -
  obtain pa pb where "pk_from_sec1 crate (sk_public crate a) = Some pa" "pk_from_sec1 crate (sk_public crate b) = Some pb"
    "ecdh crate a pb = ecdh crate b pa" using assms unfolding ecdh_ok_def by meson
  then show ?thesis by simp
qed

interpretation traditional: key_exchange curves_ok same_curve Trad_public_key Trad_derive
proof unfold_locales
  fix c :: "('k, 'p, 'x) curve_crates" and a b :: "('k, 'x) TraditionalPrivate"
  assume "curves_ok c" "same_curve a b"
  then show "Trad_derive c a (Trad_public_key c b) = Trad_derive c b (Trad_public_key c a)"
    by (cases a; cases b) (auto simp: curves_ok_def intro: ecdh_agrees)
qed

declare Trad_from_seed.simps [simp del]

fun curve_of :: "('k, 'x) TraditionalPrivate \<Rightarrow> HybridKemConstruction" where
  "curve_of (Trad_P256 _) = MlKem768P256"
| "curve_of (Trad_X25519 _) = MlKem768X25519"
| "curve_of (Trad_P384 _) = MlKem1024P384"

lemma from_seed_curve: "Trad_from_seed curves c seed = Inr key \<Longrightarrow> curve_of key = c"
  by (cases c) (auto simp: Trad_from_seed.simps result_iffs)

lemma same_curve_iff: "same_curve a b \<longleftrightarrow> curve_of a = curve_of b"
  by (cases a; cases b) simp_all

lemma traditional_public_length:
  "curves_ok curves \<Longrightarrow> length (Trad_public_key curves key) = traditional_public_key_length (curve_of key)"
  by (cases key) (simp_all add: curves_ok_def ecdh_ok_def)

lemma expand_private_parts:
  assumes "expand_private crates c seed = Inr comps"
  shows "\<exists>ms trad. curve_of trad = c
    \<and> comps = \<lparr> ex_ml_kem = MlKem_from_seed (hy_ml_kem crates) (Hybrid_ml_kem c) ms, ex_traditional = trad,
                 ex_traditional_public = Trad_public_key (hy_curves crates) trad \<rparr>"
  using assms unfolding expand_private_def Let_def bindR_Inr_iff by (elim exE conjE) (auto dest: from_seed_curve)

text \<open>
  C22: Both sides of the hybrid KEM obtain the same secret. For each of the three constructions: a public key has the advertised
  length; whatever encapsulation to it returns has the advertised ciphertext length and decapsulates, with
  the private key, to exactly the returned secret, provided ML-KEM decapsulates its own ciphertext for this
  key and randomness (which FIPS 203 guarantees up to a negligible failure rate). Public keys, randomness and
  ciphertexts of any other length are refused with their own error before any component is used.
\<close>

theorem hybrid_kem_agrees:
  assumes "curves_ok (hy_curves crates)" "ml_kem_ok (hy_ml_kem crates)"
    "Hybrid_public_key crates key = Inr pk"
  shows "length pk = Hybrid_public_key_length (hk_construction key)
    \<and> (hybrid_kem_encapsulate_deterministic crates (hk_construction key) pk randomness = Inr (ct, secret)
        \<and> (\<forall>components. expand_private crates (hk_construction key) (hk_seed key) = Inr components
              \<longrightarrow> pairwise_consistent (hy_ml_kem crates) (ex_ml_kem components) (take 32 randomness))
        \<longrightarrow> length ct = Hybrid_ciphertext_length (hk_construction key) \<and> Hybrid_decapsulate crates key ct = Inr secret)
    \<and> (length randomness \<noteq> encapsulation_randomness_length (hk_construction key)
        \<longrightarrow> hybrid_kem_encapsulate_deterministic crates (hk_construction key) pk randomness = Inl Hyb_InvalidRandomnessLength)
    \<and> (length other \<noteq> Hybrid_public_key_length (hk_construction key)
        \<longrightarrow> hybrid_kem_encapsulate_deterministic crates (hk_construction key) other randomness = Inl Hyb_InvalidPublicKey)
    \<and> (length other \<noteq> Hybrid_ciphertext_length (hk_construction key)
        \<longrightarrow> Hybrid_decapsulate crates key other = Inl Hyb_InvalidCiphertext)"
proof -
  let ?c = "hk_construction key" and ?ps = "Hybrid_ml_kem (hk_construction key)"
  obtain comps where comps: "expand_private crates ?c (hk_seed key) = Inr comps"
    and pk: "pk = MlKem_public_key (hy_ml_kem crates) (ex_ml_kem comps) @ ex_traditional_public comps"
    using assms(3) by (auto simp: Hybrid_public_key_def result_iffs)
  obtain ms trad where ms: "ex_ml_kem comps = MlKem_from_seed (hy_ml_kem crates) ?ps ms"
    and trad: "ex_traditional comps = trad" "ex_traditional_public comps = Trad_public_key (hy_curves crates) trad" "curve_of trad = ?c"
    using expand_private_parts [OF comps] by auto
  have lpq: "length (MlKem_public_key (hy_ml_kem crates) (ex_ml_kem comps)) = MlKem_public_key_length ?ps"
    using assms(2) by (simp add: ms ml_kem_ok_def)
  have lt: "length (ex_traditional_public comps) = traditional_public_key_length ?c"
    using traditional_public_length [OF assms(1), of trad] trad by simp
  have len: "length pk = Hybrid_public_key_length ?c" unfolding pk using lpq lt by (cases ?c) simp_all
  have agree: "length ct = Hybrid_ciphertext_length ?c \<and> Hybrid_decapsulate crates key ct = Inr secret"
    if e: "hybrid_kem_encapsulate_deterministic crates ?c pk randomness = Inr (ct, secret)"
      and pc: "pairwise_consistent (hy_ml_kem crates) (ex_ml_kem comps) (take 32 randomness)"
  proof -
    have split: "take (MlKem_public_key_length ?ps) pk = MlKem_public_key (hy_ml_kem crates) (ex_ml_kem comps)"
      "drop (MlKem_public_key_length ?ps) pk = ex_traditional_public comps" using lpq by (simp_all add: pk)
    obtain cpq spq eph st where
      enc: "ml_kem_encapsulate_deterministic (hy_ml_kem crates) ?ps (MlKem_public_key (hy_ml_kem crates) (ex_ml_kem comps)) (take 32 randomness) = Inr (cpq, spq)"
      and eph: "Trad_from_seed (hy_curves crates) ?c (drop 32 randomness) = Inr eph"
      and st: "Trad_derive (hy_curves crates) eph (ex_traditional_public comps) = Inr st"
      and ct: "ct = cpq @ Trad_public_key (hy_curves crates) eph"
      and sec: "secret = Hybrid_combine (hy_hashes crates) ?c spq st (Trad_public_key (hy_curves crates) eph) (ex_traditional_public comps)"
      using e by (auto simp: hybrid_kem_encapsulate_deterministic_def Let_def result_iffs split)
    have dec: "MlKem_decapsulate (hy_ml_kem crates) (ex_ml_kem comps) cpq = Inr spq"
      using pc enc by (simp add: pairwise_consistent_def ms)
    have lc: "length cpq = MlKem_ciphertext_length ?ps"
      using enc assms(2) by (auto simp: ml_kem_encapsulate_deterministic_def ml_kem_ok_def result_iffs) (metis fst_conv)
    have ce: "curve_of eph = ?c" using from_seed_curve [OF eph] .
    have le: "length (Trad_public_key (hy_curves crates) eph) = traditional_public_key_length ?c"
      using traditional_public_length [OF assms(1), of eph] ce by simp
    have l: "length ct = Hybrid_ciphertext_length ?c" unfolding ct using lc le by (cases ?c) simp_all
    have recv: "Trad_derive (hy_curves crates) trad (Trad_public_key (hy_curves crates) eph) = Inr st"
      using traditional.receiver_derives [OF assms(1), of eph trad st] st trad ce by (simp add: same_curve_iff)
    have "take (MlKem_ciphertext_length ?ps) ct = cpq" "drop (MlKem_ciphertext_length ?ps) ct = Trad_public_key (hy_curves crates) eph"
      using lc by (simp_all add: ct)
    then show ?thesis using l comps dec recv trad sec by (simp add: Hybrid_decapsulate_def Let_def)
  qed
  show ?thesis using len agree comps
    by (auto simp: hybrid_kem_encapsulate_deterministic_def Hybrid_decapsulate_def)
qed


text \<open>Stand-in curve crates: a public key is the secret key padded to size, and the secret is a sum.\<close>

definition sample_ecdh :: "nat \<Rightarrow> (byte, byte) ecdh_crate" where
  "sample_ecdh n = \<lparr> sk_from_slice = (\<lambda>bs. if bs = [] \<or> hd bs = 0 then None else Some (hd bs)),
     sk_public = (\<lambda>k. replicate (n - 1) 4 @ [k]), pk_from_sec1 = (\<lambda>bs. Some (last bs)), ecdh = (\<lambda>k p. [k + p]) \<rparr>"

definition sample_hybrid :: "(byte, byte, byte, bytes, bytes, bytes option \<times> bytes, bytes) hybrid_crates" where
  "sample_hybrid =
     \<lparr> hy_curves = \<lparr> crate_p256 = sample_ecdh 65, crate_p384 = sample_ecdh 97,
         x_from = hd, x_public = (\<lambda>k. replicate 31 9 @ [k]), x_shared = (\<lambda>k p. [k + last p]), x_contributory = (\<lambda>_ _. True) \<rparr>,
       hy_hashes = sample_hashes, hy_ml_kem = sample_ml_kem, hy_shake256 = (\<lambda>seed n. replicate n 5) \<rparr>"

lemma sample_hybrid_ok: "curves_ok (hy_curves sample_hybrid)" "ml_kem_ok (hy_ml_kem sample_hybrid)"
  using sample_ml_kem_ok by (auto simp: sample_hybrid_def curves_ok_def ecdh_ok_def sample_ecdh_def add.commute)

definition sample_hybrid_pk :: bytes where
  "sample_hybrid_pk = resize 1184 0 (resize 2400 0 (replicate 64 5)) @ replicate 31 9 @ [5]"

lemma sample_hybrid_expanded:
  "expand_private sample_hybrid MlKem768X25519 seed =
     Inr \<lparr> ex_ml_kem = Key_MlKem768 (Some (replicate 64 5), resize 2400 0 (replicate 64 5)),
           ex_traditional = Trad_X25519 5, ex_traditional_public = replicate 31 9 @ [5] \<rparr>"
proof -
  have "replicate 32 (5 :: byte) = 5 # replicate 31 5" by (simp add: numeral_eq_Suc)
  then show ?thesis
    by (simp add: expand_private_def sample_hybrid_def Trad_from_seed.simps sample_ml_kem_def rejectR_def min_def Let_def)
qed

theorem hybrid_kem_agrees_witness:
  "\<exists>ct secret. hybrid_kem_encapsulate_deterministic sample_hybrid MlKem768X25519 sample_hybrid_pk (replicate 64 3) = Inr (ct, secret)
     \<and> length ct = 1120 \<and> Hybrid_decapsulate sample_hybrid \<lparr> hk_construction = MlKem768X25519, hk_seed = replicate 32 1 \<rparr> ct = Inr secret"
proof -
  let ?key = "\<lparr> hk_construction = MlKem768X25519, hk_seed = replicate 32 1 \<rparr>"
  have pk: "Hybrid_public_key sample_hybrid ?key = Inr sample_hybrid_pk"
    by (simp add: Hybrid_public_key_def sample_hybrid_expanded sample_hybrid_pk_def) (simp add: sample_hybrid_def sample_ml_kem_def)
  have len: "length sample_hybrid_pk = 1216" by (simp add: sample_hybrid_pk_def)
  have "last (replicate 31 9 @ [5 :: byte]) \<noteq> last (replicate 32 0)" by simp
  then have zero: "replicate 31 9 @ [5 :: byte] \<noteq> replicate 32 0" by fastforce
  have "validate_traditional_public (hy_curves sample_hybrid) MlKem768X25519 (replicate 31 9 @ [5]) = Inr ()"
    using zero by (simp add: validate_traditional_public_def)
  moreover have "drop 1184 sample_hybrid_pk = replicate 31 9 @ [5]" by (simp add: sample_hybrid_pk_def)
  moreover have "Trad_from_seed (hy_curves sample_hybrid) MlKem768X25519 (replicate 32 3) = Inr (Trad_X25519 3)"
    by (simp add: Trad_from_seed.simps sample_hybrid_def rejectR_def)
  moreover have "Trad_derive (hy_curves sample_hybrid) (Trad_X25519 3) (replicate 31 9 @ [5]) = Inr [8]"
    by (simp add: sample_hybrid_def)
  ultimately obtain ct secret where
    e: "hybrid_kem_encapsulate_deterministic sample_hybrid MlKem768X25519 sample_hybrid_pk (replicate 64 3) = Inr (ct, secret)"
    using len by (auto simp: hybrid_kem_encapsulate_deterministic_def Let_def encapsulation_randomness_length_def
        ml_kem_encapsulate_deterministic_def rejectR_def sample_hybrid_def sample_ml_kem_def)
  have "pairwise_consistent (hy_ml_kem sample_hybrid) (Key_MlKem768 (Some (replicate 64 5), resize 2400 0 (replicate 64 5))) (take 32 (replicate 64 3))"
    by (simp add: pairwise_consistent_def ml_kem_encapsulate_deterministic_def decapsulate_with_def rejectR_def
        sample_hybrid_def sample_ml_kem_def resize_def)
  then show ?thesis
    using hybrid_kem_agrees [OF sample_hybrid_ok pk, where randomness = "replicate 64 3" and ct = ct and secret = secret] e
    by (auto simp: sample_hybrid_expanded)
qed

end
