(* ===== verification/Arkg.thy ===== *)
theory Arkg
  imports Hybrid_Kem
begin

text \<open>
  \<^verbatim>\<open>src/src/arkg.rs\<close>: asynchronous remote key generation on P-256. The public side derives a
  verification key and a ticket from two public seed points; the private side authenticates the ticket
  and derives the matching scalar. Parameters: the group and scalar field of the crate \<open>p256\<close>
  (\<open>p256_crate\<close>, scalars as naturals below the group order), and the hash crates.
\<close>

definition ARKG_P256_POINT_LENGTH :: nat where "ARKG_P256_POINT_LENGTH = 65"
definition ARKG_P256_TICKET_LENGTH :: nat where "ARKG_P256_TICKET_LENGTH = 16 + ARKG_P256_POINT_LENGTH"
definition ARKG_P256_MAX_CONTEXT_LENGTH :: nat where "ARKG_P256_MAX_CONTEXT_LENGTH = 64"
definition ARKG_P256_MIN_IKM_LENGTH :: nat where "ARKG_P256_MIN_IKM_LENGTH = 32"
definition HASH_TO_SCALAR_LENGTH :: nat where "HASH_TO_SCALAR_LENGTH = 48"
definition DERIVE_KEY_KEM_LABEL :: bytes where "DERIVE_KEY_KEM_LABEL = ascii ''ARKG-Derive-Key-KEM.''"
definition DERIVE_KEY_BL_LABEL :: bytes where "DERIVE_KEY_BL_LABEL = ascii ''ARKG-Derive-Key-BL.''"
definition KEM_KEY_GENERATION_LABEL :: bytes where "KEM_KEY_GENERATION_LABEL = ascii ''ARKG-KEM-ECDH-KG.ARKG-ECDH.ARKG-P256''"
definition ECDH_AUGMENTED_DST :: bytes where "ECDH_AUGMENTED_DST = ascii ''ARKG-ECDH.ARKG-P256''"
definition KEM_MAC_LABEL :: bytes where "KEM_MAC_LABEL = ascii ''ARKG-KEM-HMAC-mac.''"
definition KEM_SHARED_LABEL :: bytes where "KEM_SHARED_LABEL = ascii ''ARKG-KEM-HMAC-shared.''"
definition BLINDING_PRF_LABEL :: bytes where "BLINDING_PRF_LABEL = ascii ''ARKG-BL-EC.ARKG-P256''"

datatype ArkgP256Error =
    Arkg_ContextTooLong
  | Arkg_InputKeyingMaterialTooShort
  | Arkg_InvalidPrivateScalar
  | Arkg_InvalidPublicPoint
  | Arkg_InvalidTicketPoint
  | Arkg_TicketAuthenticationFailed
  | Arkg_DerivedZeroScalar
  | Arkg_InvalidDomain
  | Arkg_InvalidKdfLength
  | Arkg_IdentityPoint

record ArkgP256PublicDerivation =
  arkg_public_key :: bytes
  arkg_ticket :: bytes

record 'pt p256_crate =
  pg_order :: nat
  pg_generator :: 'pt
  pg_mul :: "'pt \<Rightarrow> nat \<Rightarrow> 'pt"
  pg_add :: "'pt \<Rightarrow> 'pt \<Rightarrow> 'pt"
  pg_is_identity :: "'pt \<Rightarrow> bool"
  pg_to_sec1 :: "'pt \<Rightarrow> bytes"
  pg_from_sec1 :: "bytes \<Rightarrow> 'pt option"

text \<open>\<open>Scalar::from_repr\<close>, and the field operations on scalars.\<close>

definition scalar_from_repr :: "'pt p256_crate \<Rightarrow> bytes \<Rightarrow> nat option" where
  "scalar_from_repr p256 bs = (if be_nat bs < pg_order p256 then Some (be_nat bs) else None)"

definition scalar_add :: "'pt p256_crate \<Rightarrow> nat \<Rightarrow> nat \<Rightarrow> nat" where
  "scalar_add p256 a b = (a + b) mod pg_order p256"

definition scalar_mul :: "'pt p256_crate \<Rightarrow> nat \<Rightarrow> nat \<Rightarrow> nat" where
  "scalar_mul p256 a b = a * b mod pg_order p256"

definition concatenate :: "bytes list \<Rightarrow> bytes" where
  "concatenate parts = fold (\<lambda>part output. output @ part) parts []"

definition projective_to_uncompressed :: "'pt p256_crate \<Rightarrow> 'pt \<Rightarrow> ArkgP256Error + bytes" where
  "projective_to_uncompressed p256 point =
     bindR (rejectR (pg_is_identity p256 point) Arkg_IdentityPoint) (\<lambda>_.
     let encoded = pg_to_sec1 p256 point in
     bindR (rejectR (length encoded \<noteq> ARKG_P256_POINT_LENGTH) Arkg_InvalidPublicPoint) (\<lambda>_. Inr encoded))"

definition parse_scalar :: "'pt p256_crate \<Rightarrow> bytes \<Rightarrow> ArkgP256Error + nat" where
  "parse_scalar p256 bs =
     ok_orR Arkg_InvalidPrivateScalar
       (case scalar_from_repr p256 bs of Some k \<Rightarrow> if k \<noteq> 0 then Some k else None | None \<Rightarrow> None)"

definition scalar_from_24_bytes :: "'pt p256_crate \<Rightarrow> bytes \<Rightarrow> ArkgP256Error + nat" where
  "scalar_from_24_bytes p256 input =
     bindR (rejectR (length input \<noteq> 24) Arkg_InvalidPrivateScalar) (\<lambda>_.
     ok_orR Arkg_InvalidPrivateScalar (scalar_from_repr p256 (copy_at 8 input (replicate 32 0))))"

definition reduce_48_bytes :: "'pt p256_crate \<Rightarrow> bytes \<Rightarrow> ArkgP256Error + nat" where
  "reduce_48_bytes p256 uniform =
     bindR (scalar_from_24_bytes p256 (take 24 uniform)) (\<lambda>high.
     bindR (scalar_from_24_bytes p256 (drop 24 uniform)) (\<lambda>low.
     bindR (ok_orR Arkg_InvalidPrivateScalar (scalar_from_repr p256 ((replicate 32 0)[7 := 1]))) (\<lambda>two_to_192.
     Inr (scalar_add p256 (scalar_mul p256 high two_to_192) low))))"

text \<open>A chain of \<open>update\<close> calls on a fresh SHA-256 state.\<close>

definition sha256_of :: "('h, 'q) hash_crates \<Rightarrow> bytes list \<Rightarrow> bytes" where
  "sha256_of hashes parts =
     hc_finalize hashes Sha256 (fold (\<lambda>part state. hc_update hashes Sha256 state part) parts (hc_new hashes Sha256))"

definition hash_to_scalar ::
  "'pt p256_crate \<Rightarrow> ('h, 'q) hash_crates \<Rightarrow> bytes \<Rightarrow> bytes \<Rightarrow> ArkgP256Error + nat" where
  "hash_to_scalar p256 hashes message domain =
     bindR (rejectR (length domain > 255) Arkg_InvalidDomain) (\<lambda>_.
     let domain_prime = domain @ [word_of_nat (length domain)];
         b0 = sha256_of hashes [replicate 64 0, message, [0, word_of_nat HASH_TO_SCALAR_LENGTH], [0], domain_prime];
         b1 = sha256_of hashes [b0, [1], domain_prime];
         xored = xor_bytes b0 b1;
         b2 = sha256_of hashes [xored, [2], domain_prime]
     in reduce_48_bytes p256 (b1 @ take 16 b2))"

definition hkdf_sha256 :: "('h, 'q) hash_crates \<Rightarrow> bytes \<Rightarrow> bytes \<Rightarrow> ArkgP256Error + bytes" where
  "hkdf_sha256 hashes input_keying_material info =
     (let (_, k) = hc_hkdf_extract hashes Sha256 None input_keying_material
      in ok_orR Arkg_InvalidKdfLength (hc_hkdf_expand hashes Sha256 k info 32))"

definition derivation_contexts :: "bytes \<Rightarrow> ArkgP256Error + bytes \<times> bytes" where
  "derivation_contexts context =
     bindR (rejectR (length context > 255) Arkg_ContextTooLong) (\<lambda>_.
     bindR (rejectR (length context > ARKG_P256_MAX_CONTEXT_LENGTH) Arkg_ContextTooLong) (\<lambda>_.
     let context_prime = [word_of_nat (length context)] @ context
     in Inr (concatenate [DERIVE_KEY_KEM_LABEL, context_prime], concatenate [DERIVE_KEY_BL_LABEL, context_prime])))"

definition arkg_p256_public_point :: "'pt p256_crate \<Rightarrow> bytes \<Rightarrow> ArkgP256Error + bytes" where
  "arkg_p256_public_point p256 private_scalar =
     bindR (parse_scalar p256 private_scalar) (\<lambda>k.
     projective_to_uncompressed p256 (pg_mul p256 (pg_generator p256) k))"

definition arkg_p256_derive_public ::
  "'pt p256_crate \<Rightarrow> ('h, 'q) hash_crates \<Rightarrow> bytes \<Rightarrow> bytes \<Rightarrow> bytes \<Rightarrow> bytes \<Rightarrow> ArkgP256Error + ArkgP256PublicDerivation" where
  "arkg_p256_derive_public p256 hashes blinding_public_key kem_public_key input_keying_material context =
     bindR (rejectR (length input_keying_material < ARKG_P256_MIN_IKM_LENGTH) Arkg_InputKeyingMaterialTooShort) (\<lambda>_.
     bindR (derivation_contexts context) (\<lambda>(context_kem, context_bl).
     bindR (ok_orR Arkg_InvalidPublicPoint (pg_from_sec1 p256 blinding_public_key)) (\<lambda>blinding_public_key.
     bindR (ok_orR Arkg_InvalidPublicPoint (pg_from_sec1 p256 kem_public_key)) (\<lambda>kem_public_key.
     bindR (hash_to_scalar p256 hashes input_keying_material KEM_KEY_GENERATION_LABEL) (\<lambda>ephemeral_scalar.
     bindR (rejectR (ephemeral_scalar = 0) Arkg_DerivedZeroScalar) (\<lambda>_.
     bindR (projective_to_uncompressed p256 (pg_mul p256 (pg_generator p256) ephemeral_scalar)) (\<lambda>ephemeral_public_key.
     bindR (projective_to_uncompressed p256 (pg_mul p256 kem_public_key ephemeral_scalar)) (\<lambda>shared_point.
     let shared_secret = slice_range 1 33 shared_point;
         mac_info = concatenate [KEM_MAC_LABEL, ECDH_AUGMENTED_DST, context_kem] in
     bindR (hkdf_sha256 hashes shared_secret mac_info) (\<lambda>mac_key.
     bindR (ok_orR Arkg_InvalidKdfLength (hc_hmac hashes Sha256 mac_key ephemeral_public_key)) (\<lambda>tag.
     let shared_info = concatenate [KEM_SHARED_LABEL, ECDH_AUGMENTED_DST, context_kem] in
     bindR (hkdf_sha256 hashes shared_secret shared_info) (\<lambda>blinding_input.
     let blinding_dst = concatenate [BLINDING_PRF_LABEL, context_bl] in
     bindR (hash_to_scalar p256 hashes blinding_input blinding_dst) (\<lambda>tau.
     bindR (projective_to_uncompressed p256
       (pg_add p256 blinding_public_key (pg_mul p256 (pg_generator p256) tau))) (\<lambda>public_key.
     Inr \<lparr> arkg_public_key = public_key, arkg_ticket = take 16 tag @ ephemeral_public_key \<rparr>)))))))))))))"

definition arkg_p256_derive_private ::
  "'pt p256_crate \<Rightarrow> ('h, 'q) hash_crates \<Rightarrow> bytes \<Rightarrow> bytes \<Rightarrow> bytes \<Rightarrow> bytes \<Rightarrow> ArkgP256Error + bytes" where
  "arkg_p256_derive_private p256 hashes blinding_private_key kem_private_key ticket context =
     bindR (derivation_contexts context) (\<lambda>(context_kem, context_bl).
     bindR (parse_scalar p256 blinding_private_key) (\<lambda>blinding_private_key.
     bindR (parse_scalar p256 kem_private_key) (\<lambda>kem_private_key.
     bindR (ok_orR Arkg_InvalidTicketPoint (pg_from_sec1 p256 (drop 16 ticket))) (\<lambda>ephemeral.
     bindR (projective_to_uncompressed p256 (pg_mul p256 ephemeral kem_private_key)) (\<lambda>shared.
     let shared_secret = slice_range 1 33 shared;
         mac_info = concatenate [KEM_MAC_LABEL, ECDH_AUGMENTED_DST, context_kem] in
     bindR (hkdf_sha256 hashes shared_secret mac_info) (\<lambda>mac_key.
     bindR (ok_orR Arkg_InvalidKdfLength (hc_hmac hashes Sha256 mac_key (drop 16 ticket))) (\<lambda>mac.
     bindR (rejectR (take 16 ticket \<noteq> take 16 mac) Arkg_TicketAuthenticationFailed) (\<lambda>_.
     let shared_info = concatenate [KEM_SHARED_LABEL, ECDH_AUGMENTED_DST, context_kem] in
     bindR (hkdf_sha256 hashes shared_secret shared_info) (\<lambda>blinding_input.
     let blinding_dst = concatenate [BLINDING_PRF_LABEL, context_bl] in
     bindR (hash_to_scalar p256 hashes blinding_input blinding_dst) (\<lambda>tau.
     let private = scalar_add p256 blinding_private_key tau in
     bindR (rejectR (private = 0) Arkg_DerivedZeroScalar) (\<lambda>_.
     Inr (be_bytes 32 private))))))))))))"


section \<open>Both sides derive one key pair\<close>

text \<open>
  What the crate \<open>p256\<close> promises: the multiples of the generator form the cyclic group of the
  given order, and SEC1 encodings of points other than the identity have 65 bytes and decode.
\<close>

definition p256_ok :: "'pt p256_crate \<Rightarrow> bool" where
  "p256_ok p256 \<longleftrightarrow>
     (let n = pg_order p256; G = pg_mul p256 (pg_generator p256) in
      2 ^ 192 < n \<and> n < 2 ^ 256
      \<and> (\<forall>a < n. \<forall>b < n. pg_mul p256 (G a) b = G (a * b mod n))
      \<and> (\<forall>a < n. \<forall>b < n. pg_add p256 (G a) (G b) = G ((a + b) mod n))
      \<and> (\<forall>a < n. pg_is_identity p256 (G a) \<longleftrightarrow> a = 0)
      \<and> (\<forall>a < n. a \<noteq> 0 \<longrightarrow> length (pg_to_sec1 p256 (G a)) = ARKG_P256_POINT_LENGTH
           \<and> pg_from_sec1 p256 (pg_to_sec1 p256 (G a)) = Some (G a)))"

abbreviation base_mul :: "'pt p256_crate \<Rightarrow> nat \<Rightarrow> 'pt" where
  "base_mul p256 \<equiv> pg_mul p256 (pg_generator p256)"

lemma p256_laws:
  assumes "p256_ok p256"
  shows "2 ^ 192 < pg_order p256" "pg_order p256 < 256 ^ 32"
    "\<And>a b. a < pg_order p256 \<Longrightarrow> b < pg_order p256 \<Longrightarrow> pg_mul p256 (base_mul p256 a) b = base_mul p256 (scalar_mul p256 a b)"
    "\<And>a b. a < pg_order p256 \<Longrightarrow> b < pg_order p256 \<Longrightarrow> pg_add p256 (base_mul p256 a) (base_mul p256 b) = base_mul p256 (scalar_add p256 a b)"
    "\<And>a. a < pg_order p256 \<Longrightarrow> projective_to_uncompressed p256 (base_mul p256 a) =
        (if a = 0 then Inl Arkg_IdentityPoint else Inr (pg_to_sec1 p256 (base_mul p256 a)))"
    "\<And>a. a < pg_order p256 \<Longrightarrow> a \<noteq> 0 \<Longrightarrow> pg_from_sec1 p256 (pg_to_sec1 p256 (base_mul p256 a)) = Some (base_mul p256 a)"
    "\<And>a. a < pg_order p256 \<Longrightarrow> a \<noteq> 0 \<Longrightarrow> length (pg_to_sec1 p256 (base_mul p256 a)) = ARKG_P256_POINT_LENGTH"
  using assms unfolding p256_ok_def Let_def
  by (simp_all add: scalar_mul_def scalar_add_def projective_to_uncompressed_def Let_def rejectR_def)

lemma scalar_ops_bounded:
  assumes "p256_ok p256"
  shows "scalar_add p256 a b < pg_order p256" "scalar_mul p256 a b < pg_order p256"
proof -
  have "0 < pg_order p256" using p256_laws(1) [OF assms] by linarith
  then show "scalar_add p256 a b < pg_order p256" "scalar_mul p256 a b < pg_order p256"
    by (simp_all add: scalar_add_def scalar_mul_def)
qed

lemma parse_scalar_iff: "parse_scalar p256 bs = Inr k \<longleftrightarrow> k = be_nat bs \<and> 0 < k \<and> k < pg_order p256"
  by (auto simp: parse_scalar_def scalar_from_repr_def)

lemma public_point_iff:
  assumes "p256_ok p256"
  shows "arkg_p256_public_point p256 bs = Inr pk \<longleftrightarrow>
    parse_scalar p256 bs = Inr (be_nat bs) \<and> pk = pg_to_sec1 p256 (base_mul p256 (be_nat bs))"
  by (auto simp: arkg_p256_public_point_def bindR_Inr_iff parse_scalar_iff p256_laws(5) [OF assms])

lemma reduce_48_bytes_exact:
  assumes "p256_ok p256" "length uniform = 48"
  shows "reduce_48_bytes p256 uniform = Inr (be_nat uniform mod pg_order p256)"
proof -
  have half: "scalar_from_24_bytes p256 half = Inr (be_nat half)" if "length half = 24" for half
  proof -
    have "be_nat half < 2 ^ 192" using be_nat_bound [of half] that by simp
    then have "be_nat half < pg_order p256" using p256_laws(1) [OF assms(1)] by (rule less_trans)
    moreover have "copy_at 8 half (replicate 32 0) = replicate 8 0 @ half" using that by (simp add: copy_at_def)
    ultimately show ?thesis using that
      by (simp add: scalar_from_24_bytes_def scalar_from_repr_def be_nat_leading_zeros)
  qed
  have "(replicate 32 0)[7 := 1 :: byte] = replicate 7 0 @ 1 # replicate 24 0"
    by (simp add: numeral_eq_Suc)
  then have "be_nat ((replicate 32 0)[7 := 1]) = 2 ^ 192"
    by (simp add: be_nat_leading_zeros be_nat_Cons)
  then have "scalar_from_repr p256 ((replicate 32 0)[7 := 1]) = Some (2 ^ 192)"
    using p256_laws(1) [OF assms(1)] by (simp only: scalar_from_repr_def if_True)
  moreover have "be_nat (take 24 uniform) * 2 ^ 192 + be_nat (drop 24 uniform) = be_nat uniform"
  proof -
    have "be_nat (take 24 uniform @ drop 24 uniform) = be_nat (take 24 uniform) * 256 ^ length (drop 24 uniform) + be_nat (drop 24 uniform)"
      by (rule be_nat_append)
    then show ?thesis using assms(2) by simp
  qed
  ultimately show ?thesis using assms(2)
    by (simp only: reduce_48_bytes_def half length_take length_drop bindR_simps ok_orR_simps scalar_add_def scalar_mul_def)
       (simp add: half mod_simps)
qed

text \<open>Stages shared by the two derivations: what a successful public derivation computed.\<close>

definition arkg_tau ::
  "'pt p256_crate \<Rightarrow> ('h, 'q) hash_crates \<Rightarrow> bytes \<Rightarrow> bytes \<Rightarrow> bytes \<Rightarrow> ArkgP256Error + nat" where
  "arkg_tau p256 hashes shared context_kem context_bl =
     bindR (hkdf_sha256 hashes (slice_range 1 33 shared) (concatenate [KEM_SHARED_LABEL, ECDH_AUGMENTED_DST, context_kem]))
       (\<lambda>blinding_input. hash_to_scalar p256 hashes blinding_input (concatenate [BLINDING_PRF_LABEL, context_bl]))"

definition arkg_mac :: "('h, 'q) hash_crates \<Rightarrow> bytes \<Rightarrow> bytes \<Rightarrow> bytes \<Rightarrow> ArkgP256Error + bytes" where
  "arkg_mac hashes shared context_kem point =
     bindR (hkdf_sha256 hashes (slice_range 1 33 shared) (concatenate [KEM_MAC_LABEL, ECDH_AUGMENTED_DST, context_kem]))
       (\<lambda>mac_key. ok_orR Arkg_InvalidKdfLength (hc_hmac hashes Sha256 mac_key point))"

lemma derive_public_stages:
  assumes "arkg_p256_derive_public p256 hashes bl_pk kem_pk ikm ctx = Inr d"
  obtains kem bl B K e E S tag tau pk where
    "derivation_contexts ctx = Inr (kem, bl)" "pg_from_sec1 p256 bl_pk = Some B" "pg_from_sec1 p256 kem_pk = Some K"
    "hash_to_scalar p256 hashes ikm KEM_KEY_GENERATION_LABEL = Inr e" "e \<noteq> 0"
    "projective_to_uncompressed p256 (base_mul p256 e) = Inr E" "projective_to_uncompressed p256 (pg_mul p256 K e) = Inr S"
    "arkg_mac hashes S kem E = Inr tag" "arkg_tau p256 hashes S kem bl = Inr tau"
    "projective_to_uncompressed p256 (pg_add p256 B (base_mul p256 tau)) = Inr pk"
    "d = \<lparr> arkg_public_key = pk, arkg_ticket = take 16 tag @ E \<rparr>"
  using assms unfolding arkg_p256_derive_public_def Let_def result_iffs split_beta
  by (elim exE conjE) (simp add: arkg_mac_def arkg_tau_def result_iffs split_beta; metis prod.collapse)

lemma derive_private_stages:
  assumes "derivation_contexts ctx = Inr (kem, bl)" "parse_scalar p256 bl_sk = Inr b" "parse_scalar p256 kem_sk = Inr k"
    "pg_from_sec1 p256 (drop 16 ticket) = Some P" "projective_to_uncompressed p256 (pg_mul p256 P k) = Inr S"
    "arkg_mac hashes S kem (drop 16 ticket) = Inr tag" "arkg_tau p256 hashes S kem bl = Inr tau"
  shows "arkg_p256_derive_private p256 hashes bl_sk kem_sk ticket ctx =
    (if take 16 ticket \<noteq> take 16 tag then Inl Arkg_TicketAuthenticationFailed
     else if scalar_add p256 b tau = 0 then Inl Arkg_DerivedZeroScalar else Inr (be_bytes 32 (scalar_add p256 b tau)))"
  using assms
  by (auto simp: arkg_p256_derive_private_def arkg_mac_def arkg_tau_def result_iffs Let_def rejectR_def)

lemma hash_to_scalar_bounded: "p256_ok p256 \<Longrightarrow> hash_to_scalar p256 hashes m dst = Inr t \<Longrightarrow> t < pg_order p256"
  by (auto simp: hash_to_scalar_def reduce_48_bytes_def result_iffs Let_def scalar_ops_bounded)

text \<open>
  C23: ARKG yields one key pair on both sides. Take the public points of two seed scalars: whenever the
  public side derives a key and a ticket from them, the ticket has its 81 bytes, the private side accepts
  it under the same context and returns a scalar whose public point is exactly the derived key; the same
  point with any other tag is refused with \<open>TicketAuthenticationFailed\<close>. The hashed
  scalar is the 48-byte number reduced modulo the group order, although the code multiplies two halves.
\<close>

theorem arkg_keys_match:
  assumes "p256_ok p256" "\<And>key x mac. hc_hmac hashes Sha256 key x = Some mac \<Longrightarrow> 16 \<le> length mac"
    "arkg_p256_public_point p256 bl_sk = Inr bl_pk" "arkg_p256_public_point p256 kem_sk = Inr kem_pk"
    "arkg_p256_derive_public p256 hashes bl_pk kem_pk ikm ctx = Inr d"
  shows "length (arkg_ticket d) = ARKG_P256_TICKET_LENGTH
    \<and> (\<exists>sk. arkg_p256_derive_private p256 hashes bl_sk kem_sk (arkg_ticket d) ctx = Inr sk \<and> length sk = 32
          \<and> arkg_p256_public_point p256 sk = Inr (arkg_public_key d))
    \<and> (\<forall>tag. length tag = 16 \<and> tag \<noteq> take 16 (arkg_ticket d)
          \<longrightarrow> arkg_p256_derive_private p256 hashes bl_sk kem_sk (tag @ drop 16 (arkg_ticket d)) ctx = Inl Arkg_TicketAuthenticationFailed)
    \<and> (\<forall>uniform. length uniform = 48 \<longrightarrow> reduce_48_bytes p256 uniform = Inr (be_nat uniform mod pg_order p256))"
proof -
  note laws = p256_laws [OF assms(1)] and bounded = scalar_ops_bounded [OF assms(1)]
  have b: "parse_scalar p256 bl_sk = Inr (be_nat bl_sk)" "bl_pk = pg_to_sec1 p256 (base_mul p256 (be_nat bl_sk))"
    and k: "parse_scalar p256 kem_sk = Inr (be_nat kem_sk)" "kem_pk = pg_to_sec1 p256 (base_mul p256 (be_nat kem_sk))"
    using assms(3,4) by (simp_all add: public_point_iff [OF assms(1)])
  have lb: "be_nat bl_sk < pg_order p256" "be_nat bl_sk \<noteq> 0" and lk: "be_nat kem_sk < pg_order p256" "be_nat kem_sk \<noteq> 0"
    using b(1) k(1) by (simp_all add: parse_scalar_iff)
  obtain kem bl B K e E S tag tau pk where
    st: "derivation_contexts ctx = Inr (kem, bl)" "pg_from_sec1 p256 bl_pk = Some B" "pg_from_sec1 p256 kem_pk = Some K"
      "hash_to_scalar p256 hashes ikm KEM_KEY_GENERATION_LABEL = Inr e" "e \<noteq> 0"
      "projective_to_uncompressed p256 (base_mul p256 e) = Inr E" "projective_to_uncompressed p256 (pg_mul p256 K e) = Inr S"
      "arkg_mac hashes S kem E = Inr tag" "arkg_tau p256 hashes S kem bl = Inr tau"
      "projective_to_uncompressed p256 (pg_add p256 B (base_mul p256 tau)) = Inr pk"
      "d = \<lparr> arkg_public_key = pk, arkg_ticket = take 16 tag @ E \<rparr>"
    using derive_public_stages [OF assms(5)] by blast
  have e: "e < pg_order p256" and tau: "tau < pg_order p256"
    using hash_to_scalar_bounded [OF assms(1)] st(4,9) by (auto simp: arkg_tau_def result_iffs)
  have BK: "B = base_mul p256 (be_nat bl_sk)" "K = base_mul p256 (be_nat kem_sk)"
    using st(2,3) b(2) k(2) laws(6) lb lk by simp_all
  have E: "E = pg_to_sec1 p256 (base_mul p256 e)" "length E = ARKG_P256_POINT_LENGTH"
    "pg_from_sec1 p256 E = Some (base_mul p256 e)" using st(5,6) laws(5,6,7) e by auto
  have S: "projective_to_uncompressed p256 (pg_mul p256 (base_mul p256 e) (be_nat kem_sk)) = Inr S"
    using st(7) BK(2) laws(3) e lk(1) by (simp add: scalar_mul_def mult.commute)
  have tag: "16 \<le> length tag" using st(8) assms(2) by (auto simp: arkg_mac_def result_iffs)
  let ?sk = "scalar_add p256 (be_nat bl_sk) tau"
  have pk: "projective_to_uncompressed p256 (base_mul p256 ?sk) = Inr pk" using st(10) BK(1) laws(4) lb(1) tau by simp
  then have "?sk \<noteq> 0" "pk = pg_to_sec1 p256 (base_mul p256 ?sk)" using laws(5) bounded(1) by (auto split: if_splits)
  moreover have "be_nat (be_bytes 32 ?sk) = ?sk" using bounded(1) [of "be_nat bl_sk" tau] laws(2) by (simp add: be_nat_be_bytes)
  ultimately have pub: "arkg_p256_public_point p256 (be_bytes 32 ?sk) = Inr pk"
    using bounded(1) [of "be_nat bl_sk" tau] by (simp add: public_point_iff [OF assms(1)] parse_scalar_iff)
  have priv: "arkg_p256_derive_private p256 hashes bl_sk kem_sk (t @ E) ctx =
      (if t \<noteq> take 16 tag then Inl Arkg_TicketAuthenticationFailed else Inr (be_bytes 32 ?sk))" if "length t = 16" for t
    using derive_private_stages [OF st(1) b(1) k(1), of "t @ E" "base_mul p256 e" S hashes tag tau] that E(3) S st(8,9) \<open>?sk \<noteq> 0\<close>
    by simp
  show ?thesis
    using priv [of "take 16 tag"] priv pub tag E(2) reduce_48_bytes_exact [OF assms(1)]
    by (simp add: st(11) ARKG_P256_TICKET_LENGTH_def)
qed

text \<open>A stand-in for the crates: the additive group of the order of P-256, and constant hashes.\<close>

definition sample_p256 :: "nat p256_crate" where
  "sample_p256 = (let n = 115792089210356248762697446949407573529996955224135760342422259061068512044369 in
     \<lparr> pg_order = n, pg_generator = 1, pg_mul = (\<lambda>P a. P * a mod n), pg_add = (\<lambda>P Q. (P + Q) mod n),
       pg_is_identity = (\<lambda>P. P = 0), pg_to_sec1 = (\<lambda>P. 4 # be_bytes 64 P),
       pg_from_sec1 = (\<lambda>bs. if be_nat (tl bs) = 0 \<or> n \<le> be_nat (tl bs) then None else Some (be_nat (tl bs))) \<rparr>)"

definition sample_arkg_hashes :: "(bytes, bytes) hash_crates" where
  "sample_arkg_hashes = sample_hashes
     \<lparr> hc_finalize := (\<lambda>_ _. replicate 31 0 @ [1]), hc_hmac := (\<lambda>_ _ _. Some (replicate 32 3)),
       hc_hkdf_expand := (\<lambda>_ _ _ n. Some (replicate n 7)) \<rparr>"

definition sample_scalar :: "byte \<Rightarrow> bytes" where
  "sample_scalar b = replicate 31 0 @ [b]"

lemma sample_p256_ok: "p256_ok sample_p256"
  by (simp add: p256_ok_def sample_p256_def Let_def ARKG_P256_POINT_LENGTH_def be_nat_be_bytes mod_simps)

lemma sample_base_mul: "a < 2 ^ 192 \<Longrightarrow> base_mul sample_p256 a = a" "a < 2 ^ 192 \<Longrightarrow> a < pg_order sample_p256"
  by (simp_all add: sample_p256_def)

lemma sample_public_point:
  assumes "b \<noteq> 0"
  shows "arkg_p256_public_point sample_p256 (sample_scalar b) = Inr (4 # be_bytes 64 (unat b))"
proof -
  have "be_nat (sample_scalar b) = unat b" by (simp add: sample_scalar_def be_nat_leading_zeros be_nat_Cons)
  moreover have "unat b < 2 ^ 192" using unsigned_less [of b, where ?'a = nat] by simp
  ultimately show ?thesis using assms sample_base_mul
    by (simp add: public_point_iff [OF sample_p256_ok] parse_scalar_iff unat_gt_0) (simp add: sample_p256_def)
qed

lemma sample_hash_to_scalar:
  assumes "length dst \<le> 255"
  shows "hash_to_scalar sample_p256 sample_arkg_hashes msg dst = Inr (2 ^ 128)"
proof -
  have "be_nat ((replicate 31 0 @ [1]) @ replicate 16 0) = 2 ^ 128"
    by (simp add: be_nat_append be_nat_leading_zeros be_nat_Cons)
  then have "reduce_48_bytes sample_p256 ((replicate 31 0 @ [1]) @ replicate 16 0) = Inr (2 ^ 128)"
    using reduce_48_bytes_exact [OF sample_p256_ok, of "(replicate 31 0 @ [1]) @ replicate 16 0"] sample_base_mul(2) by simp
  then show ?thesis using assms by (simp add: hash_to_scalar_def sha256_of_def sample_arkg_hashes_def Let_def)
qed

theorem arkg_keys_match_witness:
  "\<exists>d sk. arkg_p256_derive_public sample_p256 sample_arkg_hashes (4 # be_bytes 64 2) (4 # be_bytes 64 3) (replicate 32 9) [1] = Inr d
     \<and> arkg_p256_derive_private sample_p256 sample_arkg_hashes (sample_scalar 2) (sample_scalar 3) (arkg_ticket d) [1] = Inr sk
     \<and> arkg_p256_public_point sample_p256 sk = Inr (arkg_public_key d)"
proof -
  have pts: "arkg_p256_public_point sample_p256 (sample_scalar 2) = Inr (4 # be_bytes 64 2)"
    "arkg_p256_public_point sample_p256 (sample_scalar 3) = Inr (4 # be_bytes 64 3)"
    using sample_public_point [of 2] sample_public_point [of 3] by simp_all
  have h: "hash_to_scalar sample_p256 sample_arkg_hashes (replicate 32 9) KEM_KEY_GENERATION_LABEL = Inr (2 ^ 128)"
    by (rule sample_hash_to_scalar) (simp add: KEM_KEY_GENERATION_LABEL_def ascii_def)
  obtain d where d: "arkg_p256_derive_public sample_p256 sample_arkg_hashes (4 # be_bytes 64 2) (4 # be_bytes 64 3) (replicate 32 9) [1] = Inr d"
  proof -
    have point: "projective_to_uncompressed sample_p256 a = Inr (4 # be_bytes 64 a)" if "a \<noteq> 0" for a
      using that by (simp add: projective_to_uncompressed_def sample_p256_def Let_def ARKG_P256_POINT_LENGTH_def)
    have dst: "hash_to_scalar sample_p256 sample_arkg_hashes m (concatenate [BLINDING_PRF_LABEL, concatenate [DERIVE_KEY_BL_LABEL, [1, 1]]]) = Inr (2 ^ 128)" for m
      by (rule sample_hash_to_scalar) (simp add: concatenate_def BLINDING_PRF_LABEL_def DERIVE_KEY_BL_LABEL_def ascii_def)
    have decode: "pg_from_sec1 sample_p256 (4 # be_bytes 64 2) = Some 2" "pg_from_sec1 sample_p256 (4 # be_bytes 64 3) = Some 3"
      by (simp_all add: sample_p256_def Let_def be_nat_be_bytes)
    have ops: "base_mul sample_p256 (2 ^ 128) = 2 ^ 128" "pg_mul sample_p256 3 (2 ^ 128) = 3 * 2 ^ 128"
      "pg_add sample_p256 2 (2 ^ 128) = 2 + 2 ^ 128" by (simp_all add: sample_p256_def Let_def)
    have ctx: "derivation_contexts [1] = Inr (concatenate [DERIVE_KEY_KEM_LABEL, [1, 1]], concatenate [DERIVE_KEY_BL_LABEL, [1, 1]])"
      by (simp add: derivation_contexts_def ARKG_P256_MAX_CONTEXT_LENGTH_def Let_def)
    have kdf: "hkdf_sha256 sample_arkg_hashes m i = Inr (replicate 32 7)" "hc_hmac sample_arkg_hashes Sha256 m i = Some (replicate 32 3)" for m i
      by (simp_all add: hkdf_sha256_def sample_arkg_hashes_def split_beta)
    show ?thesis
      by (rule that, unfold arkg_p256_derive_public_def Let_def ctx decode h kdf ops dst)
         (simp add: point kdf ops [simplified] dst ARKG_P256_MIN_IKM_LENGTH_def)
  qed
  show ?thesis
    using arkg_keys_match [OF sample_p256_ok _ pts d] d by (auto simp: sample_arkg_hashes_def)
qed

end
