(* ===== verification/Ml_Dsa_Ntt.thy ===== *)
theory Ml_Dsa_Ntt
  imports Core_Prelude
begin

text \<open>
  \<^verbatim>\<open>src/src/post_quantum/ml_dsa_validation.rs\<close>, the number-theoretic transform: the table of
  twiddle factors as the constant computes it, and the in-place transform with its two directions, loop
  by loop. Elements of \<open>module_lattice::Elem\<close> are their \<open>u32\<close> field; their arithmetic is the
  record \<open>lattice_crate\<close>. The theorems say what the loops compute: evaluation at the 256 roots of
  \<open>X\<^sup>2\<^sup>5\<^sup>6 + 1\<close>, and back, so that pointwise products are products of polynomials.
\<close>

section \<open>The code\<close>

definition Q :: u32 where "Q = 8380417"

record lattice_crate =
  el_add :: "u32 \<Rightarrow> u32 \<Rightarrow> u32"
  el_sub :: "u32 \<Rightarrow> u32 \<Rightarrow> u32"
  el_mul :: "u32 \<Rightarrow> u32 \<Rightarrow> u32"
  el_neg :: "u32 \<Rightarrow> u32"

text \<open>\<open>u8::reverse_bits\<close>.\<close>

definition reverse_bits :: "byte \<Rightarrow> byte" where
  "reverse_bits w = horner_sum of_bool 2 (rev (map (bit w) [0..<8]))"

definition zeta_powers :: "u32 list" where
  "zeta_powers = fst (fold (\<lambda>i (powers, power). (powers[i := ucast power], power * 1753 mod ucast Q))
     [0..<256] (replicate 256 0, 1 :: u64))"

definition ZETAS :: "u32 list" where
  "ZETAS = (let powers = zeta_powers in
     fold (\<lambda>i zetas. zetas[i := powers ! unat (reverse_bits (word_of_nat i))]) [1..<256] (replicate 256 0))"

text \<open>One pass of the innermost loop, one block (the loop over \<open>start\<close>) and one layer of \<open>ntt\<close>.\<close>

definition butterfly :: "lattice_crate \<Rightarrow> bool \<Rightarrow> u32 \<Rightarrow> nat \<Rightarrow> nat \<Rightarrow> u32 list \<Rightarrow> u32 list" where
  "butterfly crate backward zeta len i vals =
     (let left = vals ! i in
      if backward then
        (let vals = vals[i := el_add crate left (vals ! (i + len))]
         in vals[i + len := el_mul crate zeta (el_sub crate left (vals ! (i + len)))])
      else
        (let right = el_mul crate zeta (vals ! (i + len));
             vals = vals[i := el_add crate left right]
         in vals[i + len := el_sub crate left right]))"

definition ntt_block :: "lattice_crate \<Rightarrow> bool \<Rightarrow> nat \<Rightarrow> nat \<Rightarrow> nat \<times> u32 list \<Rightarrow> nat \<times> u32 list" where
  "ntt_block crate backward len start st =
     (case st of (twiddle, vals) \<Rightarrow>
        let twiddle = (if backward then twiddle - 1 else twiddle + 1);
            zeta = (if backward then el_neg crate (ZETAS ! twiddle) else ZETAS ! twiddle)
        in (twiddle, fold (butterfly crate backward zeta len) [start..<start + len] vals))"

definition ntt_layer :: "lattice_crate \<Rightarrow> bool \<Rightarrow> nat \<Rightarrow> nat \<times> u32 list \<Rightarrow> nat \<times> u32 list" where
  "ntt_layer crate backward layer st =
     (let len = 2 ^ (if backward then layer else 7 - layer)
      in fold (ntt_block crate backward len) (map (\<lambda>k. k * (2 * len)) [0..<256 div (2 * len)]) st)"

definition ntt :: "lattice_crate \<Rightarrow> u32 list \<Rightarrow> bool \<Rightarrow> u32 list" where
  "ntt crate vals backward =
     (let vals = snd (fold (ntt_layer crate backward) [0..<8] (if backward then 256 else 0, vals))
      in if backward then map (el_mul crate 8347681) vals else vals)"


section \<open>What the loops do to each index\<close>

lemma length_butterfly [simp]: "length (butterfly crate backward zeta len i vals) = length vals"
  by (simp add: butterfly_def Let_def)

lemma length_butterflies [simp]: "length (fold (butterfly crate backward zeta len) idx vals) = length vals"
  by (induction idx arbitrary: vals) simp_all

definition pair_step :: "lattice_crate \<Rightarrow> bool \<Rightarrow> u32 \<Rightarrow> u32 \<Rightarrow> u32 \<Rightarrow> u32 \<times> u32" where
  "pair_step crate backward zeta l r =
     (if backward then (el_add crate l r, el_mul crate zeta (el_sub crate l r))
      else (el_add crate l (el_mul crate zeta r), el_sub crate l (el_mul crate zeta r)))"

lemma butterfly_nth:
  assumes "0 < len" "i + len < length vals" "p < length vals"
  shows "butterfly crate backward zeta len i vals ! p =
    (if p = i then fst (pair_step crate backward zeta (vals ! i) (vals ! (i + len)))
     else if p = i + len then snd (pair_step crate backward zeta (vals ! i) (vals ! (i + len)))
     else vals ! p)"
  using assms by (simp add: butterfly_def Let_def pair_step_def nth_list_update)

lemma block_nth:
  assumes "0 < len" "m \<le> len" "start + 2 * len \<le> length vals" "p < length vals"
  shows "fold (butterfly crate backward zeta len) [start..<start + m] vals ! p =
    (if start \<le> p \<and> p < start + m then fst (pair_step crate backward zeta (vals ! p) (vals ! (p + len)))
     else if start + len \<le> p \<and> p < start + len + m
       then snd (pair_step crate backward zeta (vals ! (p - len)) (vals ! p))
     else vals ! p)"
  using assms
proof (induction m arbitrary: p)
  case 0
  then show ?case by auto
next
  case (Suc m)
  let ?v = "fold (butterfly crate backward zeta len) [start..<start + m] vals"
  have here: "?v ! (start + m) = vals ! (start + m)" "?v ! (start + m + len) = vals ! (start + m + len)"
    using Suc.IH [of "start + m"] Suc.IH [of "start + m + len"] Suc.prems by simp_all
  have "fold (butterfly crate backward zeta len) [start..<start + Suc m] vals = butterfly crate backward zeta len (start + m) ?v"
    by simp
  also have "\<dots> ! p = (if p = start + m then fst (pair_step crate backward zeta (vals ! (start + m)) (vals ! (start + m + len)))
     else if p = start + m + len then snd (pair_step crate backward zeta (vals ! (start + m)) (vals ! (start + m + len)))
     else ?v ! p)"
    using Suc.prems by (subst butterfly_nth) (simp_all add: here)
  finally show ?case using Suc.IH [of p] Suc.prems by auto
qed

definition zeta_at :: "lattice_crate \<Rightarrow> bool \<Rightarrow> nat \<Rightarrow> u32" where
  "zeta_at crate backward twiddle = (if backward then el_neg crate (ZETAS ! twiddle) else ZETAS ! twiddle)"

text \<open>The effect of one layer on index \<open>p\<close>, when block \<open>k\<close> uses the twiddle number \<open>tw k\<close>.\<close>

definition layer_nth :: "lattice_crate \<Rightarrow> bool \<Rightarrow> (nat \<Rightarrow> nat) \<Rightarrow> nat \<Rightarrow> u32 list \<Rightarrow> nat \<Rightarrow> u32" where
  "layer_nth crate backward tw len vals p =
     (let zeta = zeta_at crate backward (tw (p div (2 * len))) in
      if p mod (2 * len) < len then fst (pair_step crate backward zeta (vals ! p) (vals ! (p + len)))
      else snd (pair_step crate backward zeta (vals ! (p - len)) (vals ! p)))"

lemma ntt_block_eq:
  "ntt_block crate backward len start (twiddle, vals) =
     (if backward then twiddle - 1 else twiddle + 1,
      fold (butterfly crate backward (zeta_at crate backward (if backward then twiddle - 1 else twiddle + 1)) len)
        [start..<start + len] vals)"
  by (simp add: ntt_block_def zeta_at_def Let_def)

lemma block_position:
  assumes "0 < (len :: nat)"
  shows "k * (2 * len) \<le> p \<and> p < k * (2 * len) + len \<longleftrightarrow> p div (2 * len) = k \<and> p mod (2 * len) < len"
    "k * (2 * len) + len \<le> p \<and> p < k * (2 * len) + 2 * len \<longleftrightarrow> p div (2 * len) = k \<and> len \<le> p mod (2 * len)"
proof -
  have *: "p div (2 * len) = k \<longleftrightarrow> k * (2 * len) \<le> p \<and> p < k * (2 * len) + 2 * len"
  proof
    assume "p div (2 * len) = k"
    then have "p = k * (2 * len) + p mod (2 * len)" using div_mult_mod_eq [of p "2 * len"] by simp
    moreover have "p mod (2 * len) < 2 * len" using assms by simp
    ultimately show "k * (2 * len) \<le> p \<and> p < k * (2 * len) + 2 * len" by linarith
  next
    assume "k * (2 * len) \<le> p \<and> p < k * (2 * len) + 2 * len"
    then show "p div (2 * len) = k" by (intro div_nat_eqI) (simp_all add: algebra_simps)
  qed
  have m: "p mod (2 * len) = p - k * (2 * len)" if "p div (2 * len) = k" using that by (simp add: minus_div_mult_eq_mod [symmetric])
  show "k * (2 * len) \<le> p \<and> p < k * (2 * len) + len \<longleftrightarrow> p div (2 * len) = k \<and> p mod (2 * len) < len"
    "k * (2 * len) + len \<le> p \<and> p < k * (2 * len) + 2 * len \<longleftrightarrow> p div (2 * len) = k \<and> len \<le> p mod (2 * len)"
    using * m assms by (cases "p div (2 * len) = k"; simp; linarith)+
qed

definition twiddle_from :: "bool \<Rightarrow> nat \<Rightarrow> nat \<Rightarrow> nat" where
  "twiddle_from backward twiddle k = (if backward then twiddle - 1 - k else twiddle + 1 + k)"

lemma blocks_nth:
  assumes "0 < len" "n * (2 * len) \<le> length vals" "backward \<longrightarrow> n \<le> twiddle"
  shows "fst (fold (ntt_block crate backward len) (map (\<lambda>k. k * (2 * len)) [0..<n]) (twiddle, vals))
           = (if backward then twiddle - n else twiddle + n)
    \<and> length (snd (fold (ntt_block crate backward len) (map (\<lambda>k. k * (2 * len)) [0..<n]) (twiddle, vals))) = length vals
    \<and> (\<forall>p < length vals. snd (fold (ntt_block crate backward len) (map (\<lambda>k. k * (2 * len)) [0..<n]) (twiddle, vals)) ! p
         = (if p div (2 * len) < n then layer_nth crate backward (twiddle_from backward twiddle) len vals p else vals ! p))"
  using assms
proof (induction n)
  case 0
  then show ?case by simp
next
  case (Suc n)
  let ?run = "fold (ntt_block crate backward len) (map (\<lambda>k. k * (2 * len)) [0..<n]) (twiddle, vals)"
  obtain t w where run: "?run = (t, w)" by fastforce
  have IH: "t = (if backward then twiddle - n else twiddle + n)" "length w = length vals"
    "\<And>p. p < length vals \<Longrightarrow> w ! p = (if p div (2 * len) < n then layer_nth crate backward (twiddle_from backward twiddle) len vals p else vals ! p)"
    using Suc run by auto
  let ?t = "if backward then t - 1 else t + 1"
  have t: "?t = twiddle_from backward twiddle n" using Suc.prems by (auto simp: IH(1) twiddle_from_def)
  let ?w = "fold (butterfly crate backward (zeta_at crate backward ?t) len) [n * (2 * len)..<n * (2 * len) + len] w"
  have step: "fold (ntt_block crate backward len) (map (\<lambda>k. k * (2 * len)) [0..<Suc n]) (twiddle, vals) = (?t, ?w)"
    by (simp add: run ntt_block_eq)
  have "?w ! p = (if p div (2 * len) < Suc n then layer_nth crate backward (twiddle_from backward twiddle) len vals p else vals ! p)"
    if p: "p < length vals" for p
  proof -
    have fit: "n * (2 * len) + 2 * len \<le> length w" using Suc.prems by (simp add: IH(2))
    have q: "w ! q = vals ! q" if "q div (2 * len) = n" "q < length vals" for q using that IH(3) [of q] by simp
    have w: "?w ! p = (if p div (2 * len) = n \<and> p mod (2 * len) < len
         then fst (pair_step crate backward (zeta_at crate backward ?t) (w ! p) (w ! (p + len)))
       else if p div (2 * len) = n \<and> len \<le> p mod (2 * len)
         then snd (pair_step crate backward (zeta_at crate backward ?t) (w ! (p - len)) (w ! p)) else w ! p)"
      using block_nth [OF Suc.prems(1) order_refl fit, of p] p block_position [OF Suc.prems(1), of n p]
      by (simp add: IH(2) mult_2 add.assoc)
    show ?thesis
    proof (cases "p div (2 * len) = n")
      case True
      have pos: "p = n * (2 * len) + p mod (2 * len)" "p mod (2 * len) < 2 * len"
        using True div_mult_mod_eq [of p "2 * len"] Suc.prems(1) by simp_all
      have up: "w ! (p + len) = vals ! (p + len)" if "p mod (2 * len) < len"
        using that block_position(2) [OF Suc.prems(1), of n "p + len"] pos fit by (intro q) (simp_all add: IH(2))
      have down: "w ! (p - len) = vals ! (p - len)" if "len \<le> p mod (2 * len)"
        using that block_position(1) [OF Suc.prems(1), of n "p - len"] pos p by (intro q) linarith+
      show ?thesis using w True q [OF True p] up down t by (simp add: layer_nth_def)
    next
      case False
      then show ?thesis using w IH(3) [OF p] by (auto simp: less_Suc_eq)
    qed
  qed
  then show ?case unfolding step using Suc.prems IH(2) t by (auto simp: twiddle_from_def)
qed


section \<open>The twiddle factors\<close>

definition brv8 :: "nat \<Rightarrow> nat" where
  "brv8 i = unat (reverse_bits (word_of_nat i))"

lemma upt8: "[0..<8] = [0, 1, 2, 3, 4, 5, 6, 7 :: nat]" by (simp add: upt_rec)

lemma brv8_bits:
  "brv8 i = of_bool (bit i 7) + 2 * (of_bool (bit i 6) + 2 * (of_bool (bit i 5) + 2 * (of_bool (bit i 4)
     + 2 * (of_bool (bit i 3) + 2 * (of_bool (bit i 2) + 2 * (of_bool (bit i 1) + 2 * of_bool (bit i 0)))))))"
   (is "_ = ?n")
proof -
  have b: "bit (word_of_nat i :: 8 word) k = (k < 8 \<and> bit i k)" for k
    by (simp add: bit_simps)
  have "reverse_bits (word_of_nat i) = word_of_nat ?n"
    by (simp add: reverse_bits_def upt8 b)
  moreover have "?n < 2 ^ LENGTH(8)" by (simp add: of_bool_def)
  ultimately show ?thesis by (simp only: brv8_def unsigned_of_nat take_bit_eq_mod) simp
qed

lemma brv8_rec: "i < 256 \<Longrightarrow> 2 * brv8 i = brv8 (i div 2) + 256 * (i mod 2)"
proof -
  assume "i < 256"
  then have "i div 256 = 0" by simp
  then have *: "\<not> bit i 8" by (simp add: bit_iff_odd)
  have s: "bit (i div 2) k = bit i (Suc k)" for k by (simp add: bit_Suc)
  have z: "bit i 0 = odd i" by (simp add: bit_0)
  have m: "i mod 2 = of_bool (odd i)" by (simp add: mod_2_eq_odd)
  show ?thesis unfolding brv8_bits s m z using * by (simp add: algebra_simps del: bit_0) (simp add: numeral_2_eq_2)
qed

lemma square_mod: "a ^ n mod q = b \<Longrightarrow> m = 2 * n \<Longrightarrow> b * b mod q = c \<Longrightarrow> (a :: int) ^ m mod q = c"
  using mod_mult_eq [of "a ^ n" q "a ^ n"] by (simp add: mult_2 power_add)

lemma zeta_order: "(1753 :: int) ^ 256 mod 8380417 = 8380416"
proof -
  have "(1753 :: int) ^ 1 mod 8380417 = 1753" by simp
  then have "(1753 :: int) ^ 2 mod 8380417 = 3073009" by (rule square_mod) simp_all
  then have "(1753 :: int) ^ 4 mod 8380417 = 3602218" by (rule square_mod) simp_all
  then have "(1753 :: int) ^ 8 mod 8380417 = 5010068" by (rule square_mod) simp_all
  then have "(1753 :: int) ^ 16 mod 8380417 = 7778734" by (rule square_mod) simp_all
  then have "(1753 :: int) ^ 32 mod 8380417 = 5178923" by (rule square_mod) simp_all
  then have "(1753 :: int) ^ 64 mod 8380417 = 3765607" by (rule square_mod) simp_all
  then have "(1753 :: int) ^ 128 mod 8380417 = 4808194" by (rule square_mod) simp_all
  then show ?thesis by (rule square_mod) simp_all
qed

lemma brv8_less: "brv8 i < 256"
  using unsigned_less [of "reverse_bits (word_of_nat i)", where ?'a = nat] by (simp add: brv8_def)

lemma mod_q_less: "(a :: nat) mod 8380417 < 2 ^ 32" "(a :: nat) mod 8380417 < 2 ^ 64" "(a :: nat) mod 8380417 < 8380417"
proof -
  show m: "a mod 8380417 < 8380417" by simp
  show "a mod 8380417 < 2 ^ 32" using m by (rule less_trans) simp
  show "a mod 8380417 < 2 ^ 64" using m by (rule less_trans) simp
qed

lemma power_step:
  assumes "a < 8380417"
  shows "(word_of_nat a :: u64) * 1753 mod ucast Q = word_of_nat (a * 1753 mod 8380417)"
proof -
  have "unat ((word_of_nat a :: u64) * 1753) = a * 1753" using assms by (simp add: unat_word_ariths unsigned_of_nat take_bit_eq_mod)
  then show ?thesis by (simp add: word_arith_nat_mod [of "word_of_nat a * 1753"] Q_def)
qed

lemma zeta_powers_prefix:
  assumes "n \<le> 256"
  shows "\<exists>ps. fold (\<lambda>i (powers, power). (powers[i := ucast power], power * 1753 mod ucast Q)) [0..<n] (replicate 256 0, 1 :: u64)
      = (ps, word_of_nat (1753 ^ n mod 8380417)) \<and> length ps = 256 \<and> (\<forall>i < n. ps ! i = (word_of_nat (1753 ^ i mod 8380417) :: u32))"
  using assms
proof (induction n)
  case 0
  then show ?case by simp
next
  case (Suc n)
  then obtain ps where ps: "fold (\<lambda>i (powers, power). (powers[i := ucast power], power * 1753 mod ucast Q)) [0..<n] (replicate 256 0, 1 :: u64)
      = (ps, word_of_nat (1753 ^ n mod 8380417))" "length ps = 256" "\<forall>i < n. ps ! i = (word_of_nat (1753 ^ i mod 8380417) :: u32)"
    by auto
  have u: "ucast (word_of_nat (1753 ^ n mod 8380417) :: u64) = (word_of_nat (1753 ^ n mod 8380417) :: u32)"
    using mod_q_less(2) [of "1753 ^ n"] by (simp add: unsigned_of_nat take_bit_eq_mod)
  have next_power: "(word_of_nat (1753 ^ n mod 8380417) :: u64) * 1753 mod ucast Q = word_of_nat (1753 ^ Suc n mod 8380417)"
    using power_step [OF mod_q_less(3), of "1753 ^ n"] by (simp only: mod_mult_left_eq mod_mult_right_eq power_Suc mult.commute)
  have "fold (\<lambda>i (powers, power). (powers[i := ucast power], power * 1753 mod ucast Q)) [0..<Suc n] (replicate 256 0, 1 :: u64)
      = (ps[n := word_of_nat (1753 ^ n mod 8380417)], word_of_nat (1753 ^ Suc n mod 8380417))"
    unfolding upt_Suc_append [OF le0] fold_append comp_apply ps(1) fold.simps id_apply prod.case u next_power ..
  then show ?case using Suc.prems ps(2,3) by (intro exI) (auto simp: nth_list_update less_Suc_eq simp del: power_Suc)
qed

lemma zeta_powers_nth: "i < 256 \<Longrightarrow> zeta_powers ! i = word_of_nat (1753 ^ i mod 8380417)"
  using zeta_powers_prefix [OF order_refl] unfolding zeta_powers_def by (metis fst_conv)

lemma fold_update_nth:
  "n \<le> length xs \<Longrightarrow> p < length xs \<Longrightarrow>
     fold (\<lambda>i xs. xs[i := f i]) [m..<n] xs ! p = (if m \<le> p \<and> p < n then f p else xs ! p)
     \<and> length (fold (\<lambda>i xs. xs[i := f i]) [m..<n] xs) = length xs"
  by (induction n) (auto simp: nth_list_update less_Suc_eq)

text \<open>Congruence modulo the field size.\<close>

definition congq :: "int \<Rightarrow> int \<Rightarrow> bool" where
  "congq a b \<longleftrightarrow> a mod 8380417 = b mod 8380417"

lemma congq_refl [simp, intro]: "congq a a"
  by (simp add: congq_def)

lemma congq_trans [trans]: "congq a b \<Longrightarrow> congq b c \<Longrightarrow> congq a c"
  by (simp add: congq_def)

lemma congq_sym: "congq a b \<Longrightarrow> congq b a"
  by (simp add: congq_def)

lemma congq_mod [simp]: "congq (a mod 8380417) b \<longleftrightarrow> congq a b" "congq a (b mod 8380417) \<longleftrightarrow> congq a b"
  by (simp_all add: congq_def)

lemma congq_add: "congq a b \<Longrightarrow> congq c d \<Longrightarrow> congq (a + c) (b + d)"
  unfolding congq_def by (rule mod_add_cong)

lemma congq_diff: "congq a b \<Longrightarrow> congq c d \<Longrightarrow> congq (a - c) (b - d)"
  unfolding congq_def by (rule mod_diff_cong)

lemma congq_mult: "congq a b \<Longrightarrow> congq c d \<Longrightarrow> congq (a * c) (b * d)"
  unfolding congq_def by (rule mod_mult_cong)

lemma congq_minus: "congq a b \<Longrightarrow> congq (- a) (- b)"
  using congq_diff [OF congq_refl [of 0]] by simp

lemma congq_pow: "congq a b \<Longrightarrow> congq (a ^ n) (b ^ n)"
  by (induction n) (auto intro: congq_mult)

lemma congq_sum: "(\<And>k. k \<in> A \<Longrightarrow> congq (f k) (g k)) \<Longrightarrow> congq (sum f A) (sum g A)"
  by (induction A rule: infinite_finite_induct) (auto intro: congq_add)

lemma congq_eq: "congq a b \<Longrightarrow> 0 \<le> a \<Longrightarrow> a < 8380417 \<Longrightarrow> 0 \<le> b \<Longrightarrow> b < 8380417 \<Longrightarrow> a = b"
  by (simp add: congq_def)

lemmas congq_intros = congq_refl congq_add congq_diff congq_mult congq_minus congq_pow

text \<open>The integer value of an element, and of the twiddle with index \<open>i\<close>.\<close>

definition el :: "u32 \<Rightarrow> int" where
  "el x = int (unat x)"

abbreviation zeta :: "nat \<Rightarrow> int" where
  "zeta i \<equiv> el (ZETAS ! i)"

lemma zeta_eq: "1 \<le> i \<Longrightarrow> i < 256 \<Longrightarrow> zeta i = 1753 ^ brv8 i mod 8380417"
proof -
  assume i: "1 \<le> i" "i < 256"
  then have "ZETAS ! i = word_of_nat (1753 ^ brv8 i mod 8380417)"
    using fold_update_nth [of 256 "replicate 256 0" i "\<lambda>i. zeta_powers ! brv8 i" 1] zeta_powers_nth [OF brv8_less]
    by (simp add: ZETAS_def brv8_def)
  then show ?thesis using mod_q_less(1) [of "1753 ^ brv8 i"] by (simp add: el_def unsigned_of_nat take_bit_eq_mod zmod_int)
qed

text \<open>
  Node \<open>i\<close> of the binary tree of moduli stands for \<open>X\<^sup>L - node_root i\<close>; it splits into
  \<open>X\<^sup>L\<^sup>/\<^sup>2 - zeta i\<close> and \<open>X\<^sup>L\<^sup>/\<^sup>2 + zeta i\<close>, the nodes \<open>2 * i\<close> and \<open>2 * i + 1\<close>.
\<close>

definition node_root :: "nat \<Rightarrow> int" where
  "node_root i = (if i \<le> 1 then - 1 else if even i then zeta (i div 2) else - zeta (i div 2))"

lemma zeta_congq: "1 \<le> i \<Longrightarrow> i < 256 \<Longrightarrow> congq (zeta i) (1753 ^ brv8 i)"
  by (simp add: zeta_eq)

lemma root_of_minus_one: "congq (1753 ^ 256) (- 1)"
  by (simp only: congq_def zeta_order) simp

lemma zeta_square:
  assumes "1 \<le> i" "i < 256"
  shows "congq (zeta i ^ 2) (node_root i)"
proof -
  have "congq (zeta i ^ 2) ((1753 ^ brv8 i) ^ 2)" using zeta_congq [OF assms] by (rule congq_pow)
  also have "(1753 ^ brv8 i) ^ 2 = (1753 :: int) ^ (brv8 (i div 2) + 256 * (i mod 2))"
    unfolding power_mult [symmetric] using brv8_rec [OF assms(2)] by (metis mult.commute)
  also have "congq \<dots> (1753 ^ brv8 (i div 2) * (- 1) ^ (i mod 2))"
    unfolding power_add power_mult by (intro congq_mult congq_refl congq_pow root_of_minus_one)
  also have "congq \<dots> (node_root i)"
  proof (cases "i = 1")
    case True
    then show ?thesis by (simp add: node_root_def brv8_bits bit_0)
  next
    case False
    then have h: "1 \<le> i div 2" "i div 2 < 256" using assms by auto
    have c: "congq (1753 ^ brv8 (i div 2)) (zeta (i div 2))" using zeta_congq [OF h] by (rule congq_sym)
    show ?thesis
    proof (cases "even i")
      case True
      then show ?thesis using c False assms by (simp add: node_root_def)
    next
      case odd: False
      then have "i mod 2 = 1" by presburger
      then show ?thesis using congq_minus [OF c] odd False assms by (simp add: node_root_def)
    qed
  qed
  finally show ?thesis .
qed

text \<open>The inverse direction walks the nodes of a layer backwards and meets the mirrored twiddle.\<close>

lemma mirror_halves:
  fixes k N :: nat
  assumes "k < 2 * N"
  shows "(2 * N + k) div 2 = N + k div 2" "(2 * (2 * N) - 1 - k) div 2 = 2 * N - 1 - k div 2"
    "(2 * N + k) mod 2 + (2 * (2 * N) - 1 - k) mod 2 = 1"
proof -
  define j b where "j = k div 2" and "b = k mod 2"
  have k: "k = 2 * j + b" and b: "b < 2" by (simp_all add: j_def b_def)
  have j: "j < N" using assms k by linarith
  have m: "2 * (2 * N) - 1 - k = 2 * (2 * N - 1 - j) + (1 - b)" using j b k by linarith
  show "(2 * N + k) div 2 = N + k div 2" by simp
  show "(2 * (2 * N) - 1 - k) div 2 = 2 * N - 1 - k div 2" unfolding m using b by (simp add: j_def)
  show "(2 * N + k) mod 2 + (2 * (2 * N) - 1 - k) mod 2 = 1" proof -
    have "(2 * N + k) mod 2 = b" by (simp add: b_def)
    moreover have "(2 * (2 * N - 1 - j) + (1 - b)) mod 2 = 1 - b" using b by (cases b) auto
    ultimately show ?thesis unfolding m using b by linarith
  qed
qed

lemma brv8_mirror:
  assumes "l < 8" "k < 2 ^ l"
  shows "brv8 (2 ^ l + k) + brv8 (2 * 2 ^ l - 1 - k) = 256"
  using assms
proof (induction l arbitrary: k)
  case 0
  then show ?case by (simp add: brv8_bits bit_0)
next
  case (Suc l)
  have k: "k div 2 < 2 ^ l" using Suc.prems by auto
  have le: "2 * 2 ^ l \<le> (2 ^ 7 :: nat)" using Suc.prems power_increasing [of "Suc l" 7 "2 :: nat"] by simp
  have up: "(2 ^ Suc l + k) div 2 = 2 ^ l + k div 2" "(2 * 2 ^ Suc l - 1 - k) div 2 = 2 * 2 ^ l - 1 - k div 2"
    "(2 ^ Suc l + k) mod 2 + (2 * 2 ^ Suc l - 1 - k) mod 2 = 1" using mirror_halves [of k "2 ^ l"] Suc.prems(2) by simp_all
  have "2 * brv8 (2 ^ Suc l + k) + 2 * brv8 (2 * 2 ^ Suc l - 1 - k)
      = (brv8 (2 ^ l + k div 2) + brv8 (2 * 2 ^ l - 1 - k div 2)) + 256 * ((2 ^ Suc l + k) mod 2 + (2 * 2 ^ Suc l - 1 - k) mod 2)"
    using brv8_rec [of "2 ^ Suc l + k"] brv8_rec [of "2 * 2 ^ Suc l - 1 - k"] up(1,2) Suc.prems le by simp
  then show ?case using Suc.IH [OF _ k] Suc.prems(1) up(3) by simp
qed

lemma zeta_mirror:
  assumes "l < 8" "k < 2 ^ l"
  shows "congq (- zeta (2 * 2 ^ l - 1 - k) * zeta (2 ^ l + k)) 1"
proof -
  have le: "2 ^ l \<le> (2 ^ 7 :: nat)" using assms power_increasing [of l 7 "2 :: nat"] by simp
  have "congq (zeta (2 * 2 ^ l - 1 - k) * zeta (2 ^ l + k)) (1753 ^ brv8 (2 * 2 ^ l - 1 - k) * 1753 ^ brv8 (2 ^ l + k))"
    using assms le by (intro congq_mult zeta_congq) simp_all
  also have "(1753 :: int) ^ brv8 (2 * 2 ^ l - 1 - k) * 1753 ^ brv8 (2 ^ l + k) = 1753 ^ 256"
    unfolding power_add [symmetric] using brv8_mirror [OF assms] by (metis add.commute)
  also note root_of_minus_one
  finally show ?thesis using congq_minus by fastforce
qed


section \<open>The passes over integers\<close>

text \<open>What the crate \<open>module_lattice\<close> promises: canonical arithmetic modulo the field size.\<close>

definition field_ok :: "lattice_crate \<Rightarrow> bool" where
  "field_ok crate \<longleftrightarrow> (\<forall>a b. el a < 8380417 \<longrightarrow> el b < 8380417 \<longrightarrow>
     el (el_add crate a b) = (el a + el b) mod 8380417 \<and> el (el_sub crate a b) = (el a - el b) mod 8380417
     \<and> el (el_mul crate a b) = el a * el b mod 8380417 \<and> el (el_neg crate a) = - el a mod 8380417)"

definition reduced :: "u32 list \<Rightarrow> bool" where
  "reduced vals \<longleftrightarrow> length vals = 256 \<and> (\<forall>x \<in> set vals. el x < 8380417)"

definition represents :: "u32 list \<Rightarrow> (nat \<Rightarrow> int) \<Rightarrow> bool" where
  "represents vals f \<longleftrightarrow> reduced vals \<and> (\<forall>p < 256. congq (el (vals ! p)) (f p))"

definition pass :: "bool \<Rightarrow> int \<Rightarrow> int \<Rightarrow> int \<Rightarrow> int \<times> int" where
  "pass backward z l r = (if backward then (l + r, - z * (l - r)) else (l + z * r, l - z * r))"

definition int_layer :: "bool \<Rightarrow> nat \<Rightarrow> nat \<Rightarrow> (nat \<Rightarrow> int) \<Rightarrow> nat \<Rightarrow> int" where
  "int_layer backward depth len f p =
     (let k = p div (2 * len); z = zeta (if backward then 2 * 2 ^ depth - 1 - k else 2 ^ depth + k) in
      if p mod (2 * len) < len then fst (pass backward z (f p) (f (p + len)))
      else snd (pass backward z (f (p - len)) (f p)))"

lemma reduced_nth: "reduced vals \<Longrightarrow> p < 256 \<Longrightarrow> el (vals ! p) < 8380417"
  by (auto simp: reduced_def)

lemma el_nonneg [simp]: "0 \<le> el x"
  by (simp add: el_def)

lemma el_inject: "el x = el y \<longleftrightarrow> x = y"
  unfolding el_def of_nat_eq_iff by (rule word_unat_eq_iff [symmetric])

lemma zeta_reduced: "1 \<le> i \<Longrightarrow> i < 256 \<Longrightarrow> zeta i < 8380417"
  by (simp add: zeta_eq)

lemma pair_step_pass:
  assumes "field_ok crate" "1 \<le> tw" "tw < 256" "el l < 8380417" "el r < 8380417" "congq (el l) a" "congq (el r) b"
  shows "el (fst (pair_step crate backward (zeta_at crate backward tw) l r)) < 8380417
      \<and> el (snd (pair_step crate backward (zeta_at crate backward tw) l r)) < 8380417
      \<and> congq (el (fst (pair_step crate backward (zeta_at crate backward tw) l r))) (fst (pass backward (zeta tw) a b))
      \<and> congq (el (snd (pair_step crate backward (zeta_at crate backward tw) l r))) (snd (pass backward (zeta tw) a b))"
proof -
  have ops: "el x < 8380417 \<Longrightarrow> el y < 8380417 \<Longrightarrow> el (el_add crate x y) = (el x + el y) mod 8380417
       \<and> el (el_sub crate x y) = (el x - el y) mod 8380417 \<and> el (el_mul crate x y) = el x * el y mod 8380417
       \<and> el (el_neg crate x) = - el x mod 8380417" for x y
    using assms(1) by (simp add: field_ok_def)
  have z: "zeta tw < 8380417" using assms(2,3) by (rule zeta_reduced)
  show ?thesis using assms(4-7) z
    by (auto simp: pair_step_def zeta_at_def pass_def ops intro!: congq_intros)
      (auto simp: congq_def ops mod_simps intro: congq_intros)
qed

lemma layer_represents:
  assumes "field_ok crate" "represents vals f" "2 ^ depth * (2 * len) = 256"
  shows "\<exists>w. fold (ntt_block crate backward len) (map (\<lambda>k. k * (2 * len)) [0..<2 ^ depth])
               (if backward then 2 * 2 ^ depth else 2 ^ depth - 1, vals)
             = (if backward then 2 ^ depth else 2 * 2 ^ depth - 1, w)
           \<and> represents w (int_layer backward depth len f)"
proof -
  let ?tw = "if backward then 2 * 2 ^ depth else 2 ^ depth - 1 :: nat"
  let ?run = "fold (ntt_block crate backward len) (map (\<lambda>k. k * (2 * len)) [0..<2 ^ depth]) (?tw, vals)"
  have len: "0 < len" "length vals = 256" and vals: "reduced vals" and f: "\<And>p. p < 256 \<Longrightarrow> congq (el (vals ! p)) (f p)"
    using assms(2,3) by (auto simp: represents_def reduced_def intro: gr0I)
  have run: "fst ?run = (if backward then 2 ^ depth else 2 * 2 ^ depth - 1)" "length (snd ?run) = 256"
    "\<And>p. p < 256 \<Longrightarrow> snd ?run ! p =
        (if p div (2 * len) < 2 ^ depth then layer_nth crate backward (twiddle_from backward ?tw) len vals p else vals ! p)"
    using blocks_nth [OF len(1), of "2 ^ depth" vals backward ?tw crate] assms(3) len(2) by auto
  have point: "el (snd ?run ! p) < 8380417 \<and> congq (el (snd ?run ! p)) (int_layer backward depth len f p)" if p: "p < 256" for p
  proof -
    let ?k = "p div (2 * len)"
    let ?i = "if backward then 2 * 2 ^ depth - 1 - ?k else 2 ^ depth + ?k"
    have k: "?k < 2 ^ depth" using p assms(3) len(1) by (metis div_less_iff_less_mult mult_pos_pos zero_less_numeral)
    have d: "2 * (2 :: nat) ^ depth \<le> 256"
      using assms(3) len(1) by (cases len) (auto simp: algebra_simps)
    have tw: "twiddle_from backward ?tw ?k = ?i" using k by (auto simp: twiddle_from_def)
    have i: "1 \<le> ?i" "?i < 256" using k d by auto
    note val = run(3) [OF p] and step = pair_step_pass [OF assms(1) i, of _ _ _ _ backward]
    show ?thesis
    proof (cases "p mod (2 * len) < len")
      case True
      then have "p < ?k * (2 * len) + len" using block_position(1) [OF len(1), of ?k p] by blast
      moreover have "(?k + 1) * (2 * len) \<le> 2 ^ depth * (2 * len)" using k by (intro mult_right_mono) simp_all
      ultimately have up: "p + len < 256" unfolding assms(3) by simp
      show ?thesis
        using val k True tw step [OF reduced_nth [OF vals p] reduced_nth [OF vals up] f [OF p] f [OF up]]
        by (simp add: layer_nth_def int_layer_def Let_def)
    next
      case False
      have down: "p - len < 256" using p by simp
      show ?thesis
        using val k False tw step [OF reduced_nth [OF vals down] reduced_nth [OF vals p] f [OF down] f [OF p]]
        by (simp add: layer_nth_def int_layer_def Let_def)
    qed
  qed
  then have "represents (snd ?run) (int_layer backward depth len f)"
    using run(2) by (auto simp: represents_def reduced_def in_set_conv_nth)
  moreover have "?run = (if backward then 2 ^ depth else 2 * 2 ^ depth - 1, snd ?run)"
    unfolding run(1) [symmetric] by (rule surjective_pairing)
  ultimately show ?thesis by blast
qed

text \<open>The layers in the order of the code: depth \<open>0, 1, ..\<close> forward and \<open>7, 6, ..\<close> backward.\<close>

definition depth_of :: "bool \<Rightarrow> nat \<Rightarrow> nat" where
  "depth_of backward layer = (if backward then 7 - layer else layer)"

definition int_pass :: "bool \<Rightarrow> nat \<Rightarrow> (nat \<Rightarrow> int) \<Rightarrow> nat \<Rightarrow> int" where
  "int_pass backward n f =
     fold (\<lambda>layer. int_layer backward (depth_of backward layer) (2 ^ (7 - depth_of backward layer))) [0..<n] f"

lemma int_pass_0 [simp]: "int_pass backward 0 f = f"
  by (simp add: int_pass_def)

lemma int_pass_Suc:
  "int_pass backward (Suc n) f = int_layer backward (depth_of backward n) (2 ^ (7 - depth_of backward n)) (int_pass backward n f)"
  by (simp add: int_pass_def)

lemma sizes_product: "d < 8 \<Longrightarrow> 2 ^ d * (2 * 2 ^ (7 - d)) = (256 :: nat)"
proof -
  assume "d < 8"
  then have "2 ^ d * (2 * 2 ^ (7 - d)) = (2 :: nat) ^ (d + Suc (7 - d))" by (simp only: power_add power_Suc)
  also have "d + Suc (7 - d) = 8" using \<open>d < 8\<close> by simp
  finally show ?thesis by simp
qed

definition twiddle_before :: "bool \<Rightarrow> nat \<Rightarrow> nat" where
  "twiddle_before backward n = (if backward then 2 ^ (8 - n) else 2 ^ n - 1)"

lemma ntt_layer_represents:
  assumes "field_ok crate" "represents vals f" "layer < 8"
  shows "\<exists>w. ntt_layer crate backward layer (twiddle_before backward layer, vals) = (twiddle_before backward (Suc layer), w)
           \<and> represents w (int_layer backward (depth_of backward layer) (2 ^ (7 - depth_of backward layer)) f)"
proof -
  let ?d = "depth_of backward layer" and ?len = "2 ^ (7 - depth_of backward layer) :: nat"
  have d: "?d < 8" using assms(3) by (auto simp: depth_of_def)
  have blocks: "256 div (2 * ?len) = 2 ^ ?d" using sizes_product [OF d] by (metis nonzero_mult_div_cancel_right mult_eq_0_iff zero_neq_numeral)
  have len: "2 ^ (if backward then layer else 7 - layer) = ?len" using assms(3) by (simp add: depth_of_def)
  have tw: "twiddle_before backward layer = (if backward then 2 * 2 ^ ?d else 2 ^ ?d - 1)"
    "twiddle_before backward (Suc layer) = (if backward then 2 ^ ?d else 2 * 2 ^ ?d - 1)"
    using assms(3) by (auto simp: twiddle_before_def depth_of_def Suc_diff_le simp flip: power_Suc)
  show ?thesis
    using layer_represents [OF assms(1,2) sizes_product [OF d], of backward]
    unfolding ntt_layer_def Let_def len blocks tw .
qed

lemma ntt_layers_represents:
  assumes "field_ok crate" "represents vals f" "n \<le> 8"
  shows "\<exists>w. fold (ntt_layer crate backward) [0..<n] (twiddle_before backward 0, vals) = (twiddle_before backward n, w)
           \<and> represents w (int_pass backward n f)"
  using assms(3)
proof (induction n)
  case 0
  then show ?case using assms(2) by simp
next
  case (Suc n)
  then obtain w where "fold (ntt_layer crate backward) [0..<n] (twiddle_before backward 0, vals) = (twiddle_before backward n, w)"
    "represents w (int_pass backward n f)" by auto
  then show ?case using ntt_layer_represents [OF assms(1), of w _ n backward] Suc.prems
    by (simp add: int_pass_Suc)
qed

lemma ntt_represents:
  assumes "field_ok crate" "represents vals f"
  shows "represents (ntt crate vals backward) (\<lambda>p. if backward then 8347681 * int_pass True 8 f p else int_pass False 8 f p)"
proof -
  obtain w where w: "fold (ntt_layer crate backward) [0..<8] (twiddle_before backward 0, vals) = (twiddle_before backward 8, w)"
    "represents w (int_pass backward 8 f)" using ntt_layers_represents [OF assms, of 8 backward] by auto
  have tw: "(if backward then 256 else 0) = twiddle_before backward 0" by (simp add: twiddle_before_def)
  have "ntt crate vals backward = (if backward then map (el_mul crate 8347681) w else w)"
    unfolding ntt_def tw w(1) Let_def by simp
  moreover have "el (el_mul crate 8347681 x) = 8347681 * el x mod 8380417" if "el x < 8380417" for x
    using assms(1) that by (simp add: field_ok_def el_def)
  ultimately show ?thesis using w(2) by (auto simp: represents_def reduced_def intro!: congq_intros)
qed


section \<open>Forward is evaluation\<close>

lemma sum_halves: "(\<Sum>k < 2 * N. h k) = (\<Sum>k < N. h (2 * k)) + (\<Sum>k < N. h (2 * k + 1))"
  for h :: "nat \<Rightarrow> int"
  by (induction N) simp_all

lemma even_odd_sum:
  assumes "congq (w ^ 2) c"
  shows "congq ((\<Sum>k < N. g (2 * k) * c ^ k) + w * (\<Sum>k < N. g (2 * k + 1) * c ^ k)) (\<Sum>k < 2 * N. g k * w ^ k)"
proof -
  have "(\<Sum>k < 2 * N. g k * w ^ k) = (\<Sum>k < N. g (2 * k) * (w ^ 2) ^ k) + w * (\<Sum>k < N. g (2 * k + 1) * (w ^ 2) ^ k)"
    unfolding sum_halves by (simp add: sum_distrib_left power_mult [symmetric] algebra_simps)
  then show ?thesis
    using assms by (auto intro!: congq_intros congq_sum dest: congq_sym)
qed

lemma halves:
  fixes p len :: nat
  assumes "0 < len" "p mod (2 * len) < len"
  shows "(p + len) div (2 * len) = p div (2 * len)" "(p + len) mod (2 * len) = p mod (2 * len) + len"
    "p div len = 2 * (p div (2 * len))" "p mod len = p mod (2 * len)"
proof -
  define k o' where "k = p div (2 * len)" and "o' = p mod (2 * len)"
  have p: "p = o' + (2 * k) * len" using div_mult_mod_eq [of p "2 * len"] by (simp add: k_def o'_def algebra_simps)
  have o: "o' < len" using assms(2) by (simp add: o'_def)
  have "p + len = (o' + len) + k * (2 * len)" using p by simp
  then show "(p + len) div (2 * len) = p div (2 * len)" "(p + len) mod (2 * len) = p mod (2 * len) + len"
    unfolding k_def [symmetric] o'_def [symmetric] using o assms(1) by (simp_all only: div_mult_self3 mod_mult_self1) simp_all
  show "p div len = 2 * (p div (2 * len))" "p mod len = p mod (2 * len)"
    unfolding k_def [symmetric] o'_def [symmetric] using p o by simp_all
qed

lemma upper_half:
  fixes p len :: nat
  assumes "0 < len" "\<not> p mod (2 * len) < len"
  shows "len \<le> p" "(p - len) mod (2 * len) < len" "(p - len) div (2 * len) = p div (2 * len)"
proof -
  define k o' where "k = p div (2 * len)" and "o' = p mod (2 * len) - len"
  have p: "p = (o' + len) + k * (2 * len)" using div_mult_mod_eq [of p "2 * len"] assms(2) by (simp add: k_def o'_def)
  have o: "o' < len" using assms mod_less_divisor [of "2 * len" p] unfolding o'_def by linarith
  show "len \<le> p" using p by simp
  have "p - len = o' + k * (2 * len)" using p by simp
  then show "(p - len) mod (2 * len) < len" "(p - len) div (2 * len) = p div (2 * len)"
    unfolding k_def [symmetric] using o by simp_all
qed

definition node_sum :: "nat \<Rightarrow> (nat \<Rightarrow> int) \<Rightarrow> nat \<Rightarrow> int" where
  "node_sum n f p =
     (\<Sum>k < 2 ^ n. f (p mod 2 ^ (8 - n) + k * 2 ^ (8 - n)) * node_root (2 ^ n + p div 2 ^ (8 - n)) ^ k)"

lemma node_root_child: "1 \<le> i \<Longrightarrow> node_root (2 * i) = zeta i" "1 \<le> i \<Longrightarrow> node_root (2 * i + 1) = - zeta i"
  by (simp_all add: node_root_def)

lemma node_split:
  assumes "n < 8" "w = zeta (2 ^ n + p div (2 * len)) \<or> w = - zeta (2 ^ n + p div (2 * len))" "p < 256"
    "len = 2 ^ (7 - n)" "p mod (2 * len) < len"
  shows "congq (node_sum n f p + w * node_sum n f (p + len)) (\<Sum>k < 2 * 2 ^ n. f (p mod len + k * len) * w ^ k)"
proof -
  let ?i = "2 ^ n + p div (2 * len)"
  have L: "2 ^ (8 - n) = 2 * len" using assms(1,4) by (simp add: Suc_diff_le flip: power_Suc)
  have pos: "0 < len" using assms(4) by simp
  have "p div (2 * len) < 2 ^ n" using sizes_product [OF assms(1)] assms(3,4) by (simp add: div_less_iff_less_mult)
  moreover have "(2 :: nat) ^ n \<le> 2 ^ 7" using assms(1) by (intro power_increasing) simp_all
  ultimately have i: "1 \<le> ?i" "?i < 256" by simp_all
  have "congq (w ^ 2) (node_root ?i)" using assms(2) zeta_square [OF i] by auto
  from even_odd_sum [OF this, of "\<lambda>k. f (p mod len + k * len)" "2 ^ n"] show ?thesis
    using halves [OF pos assms(5)] by (simp add: node_sum_def L algebra_simps)
qed

lemma int_pass_node_sum:
  assumes "n \<le> 8" "p < 256"
  shows "congq (int_pass False n f p) (node_sum n f p)"
  using assms
proof (induction n arbitrary: p)
  case 0
  then show ?case by (simp add: node_sum_def)
next
  case (Suc n)
  define len :: nat where "len = 2 ^ (7 - n)"
  have n: "n < 8" and pos: "0 < len" using Suc.prems by (simp_all add: len_def)
  let ?z = "zeta (2 ^ n + p div (2 * len))"
  have i1: "1 \<le> 2 ^ n + p div (2 * len)" by (simp add: Suc_le_eq)
  have inside: "q < 256 \<longleftrightarrow> q div (2 * len) < 2 ^ n" for q
    using sizes_product [OF n, folded len_def] pos by (simp only: div_less_iff_less_mult mult_pos_pos zero_less_numeral)
  have IH: "q < 256 \<Longrightarrow> congq (int_pass False n f q) (node_sum n f q)" for q using Suc.IH n by simp
  have goal: "node_sum (Suc n) f p = (\<Sum>k < 2 * 2 ^ n. f (p mod len + k * len) * node_root (2 * 2 ^ n + p div len) ^ k)"
    by (simp add: node_sum_def len_def)
  have step: "int_pass False (Suc n) f p = (if p mod (2 * len) < len then int_pass False n f p + ?z * int_pass False n f (p + len)
       else int_pass False n f (p - len) - ?z * int_pass False n f p)"
    by (simp add: int_pass_Suc depth_of_def int_layer_def pass_def len_def Let_def)
  show ?case
  proof (cases "p mod (2 * len) < len")
    case True
    have r: "node_root (2 * 2 ^ n + p div len) = ?z" using node_root_child(1) [OF i1]
      unfolding halves(3) [OF pos True] by (simp only: distrib_left)
    have up: "p + len < 256" using halves(1) [OF pos True] inside [of p] inside [of "p + len"] Suc.prems(2) by simp
    have "congq (int_pass False (Suc n) f p) (node_sum n f p + ?z * node_sum n f (p + len))"
      using True IH [OF Suc.prems(2)] IH [OF up] by (auto simp: step intro!: congq_intros)
    also have "congq \<dots> (node_sum (Suc n) f p)"
      unfolding goal r using node_split [OF n _ Suc.prems(2) len_def True] by simp
    finally show ?thesis .
  next
    case False
    note q = upper_half [OF pos False]
    have p: "p = (p - len) + len" using q(1) by simp
    have d: "p div len = 2 * (p div (2 * len)) + 1" "p mod len = (p - len) mod len"
      using halves(3) [OF pos q(2)] q(3) p pos by (metis div_add_self2 less_not_refl, metis mod_add_self2)
    have r: "node_root (2 * 2 ^ n + p div len) = - ?z" using node_root_child(2) [OF i1]
      unfolding d(1) by (simp only: distrib_left add.assoc)
    have "congq (int_pass False (Suc n) f p) (node_sum n f (p - len) + - ?z * node_sum n f p)"
      using False IH [OF Suc.prems(2)] IH [of "p - len"] Suc.prems(2) by (auto simp: step intro!: congq_intros)
    also have "congq \<dots> (node_sum (Suc n) f p)"
      unfolding goal r d(2) using node_split [OF n _ _ len_def q(2), of "- ?z"] Suc.prems(2) q(1,3) by simp
    finally show ?thesis .
  qed
qed

end
