(* ===== verification/Ml_Dsa_Ring.thy ===== *)
theory Ml_Dsa_Ring
  imports Ml_Dsa_Ntt
begin

text \<open>
  What the transform of \<^verbatim>\<open>src/src/post_quantum/ml_dsa_validation.rs\<close> is for: the two
  directions are inverse to each other, and pointwise products of transformed polynomials are products modulo
  \<open>X\<^sup>2\<^sup>5\<^sup>6 + 1\<close>.
\<close>

section \<open>The two directions undo each other\<close>

lemma partner_inside:
  fixes p len :: nat
  assumes "d < 8" "len = 2 ^ (7 - d)" "p < 256" "p mod (2 * len) < len"
  shows "p + len < 256"
proof -
  have pos: "0 < len" and size: "2 ^ d * (2 * len) = 256" using assms(2) sizes_product [OF assms(1)] by simp_all
  have inside: "q < 256 \<longleftrightarrow> q div (2 * len) < 2 ^ d" for q
    using size pos by (simp only: div_less_iff_less_mult mult_pos_pos zero_less_numeral)
  show ?thesis using halves(1) [OF pos assms(4)] inside [of p] inside [of "p + len"] assms(3) by simp
qed

lemma int_layer_cong:
  assumes "d < 8" "len = 2 ^ (7 - d)" "p < 256" "\<And>q. q < 256 \<Longrightarrow> congq (f q) (g q)"
  shows "congq (int_layer backward d len f p) (int_layer backward d len g p)"
  using assms(3,4) partner_inside [OF assms(1-3)]
  by (auto simp: int_layer_def pass_def Let_def intro!: congq_intros)

lemma int_layer_scale: "int_layer backward d len (\<lambda>q. c * f q) p = c * int_layer backward d len f p"
  by (simp add: int_layer_def pass_def Let_def algebra_simps)

lemma pass_undo:
  assumes "congq (- zb * zf) 1"
  shows "(let (l', r') = pass False zf l r; (l'', r'') = pass True zb l' r' in congq l'' (2 * l) \<and> congq r'' (2 * r))
       \<and> (let (l', r') = pass True zb l r; (l'', r'') = pass False zf l' r' in congq l'' (2 * l) \<and> congq r'' (2 * r))"
proof -
  have *: "congq ((- zb * zf) * x) x" for x using congq_mult [OF assms congq_refl [of x]] by simp
  have "congq (- zb * (l + zf * r - (l - zf * r))) (2 * r)" using * [of "2 * r"] by (simp add: algebra_simps)
  moreover have "congq (l + r + zf * (- zb * (l - r))) (2 * l)"
    using congq_add [OF congq_refl [of "l + r"] * [of "l - r"]] by (simp add: algebra_simps)
  moreover have "congq (l + r - zf * (- zb * (l - r))) (2 * r)"
    using congq_diff [OF congq_refl [of "l + r"] * [of "l - r"]] by (simp add: algebra_simps)
  ultimately show ?thesis by (simp add: pass_def)
qed

lemma int_layer_undo:
  assumes "d < 8" "len = 2 ^ (7 - d)" "p < 256"
  shows "congq (int_layer (\<not> backward) d len (int_layer backward d len f) p) (2 * f p)"
proof -
  let ?k = "p div (2 * len)"
  have pos: "0 < len" and size: "2 ^ d * (2 * len) = 256" using assms(2) sizes_product [OF assms(1)] by simp_all
  have "?k < 2 ^ d" using size pos assms(3) by (simp only: div_less_iff_less_mult mult_pos_pos zero_less_numeral)
  note undo = pass_undo [OF zeta_mirror [OF assms(1) this]]
  show ?thesis
  proof (cases "p mod (2 * len) < len")
    case True
    have "\<not> (p + len) mod (2 * len) < len" using halves(2) [OF pos True] by simp
    then show ?thesis using True halves(1) [OF pos True] undo [of "f p" "f (p + len)"]
      by (cases backward) (simp_all add: int_layer_def Let_def split_beta)
  next
    case False
    note q = upper_half [OF pos False]
    show ?thesis using False q undo [of "f (p - len)" "f p"]
      by (cases backward) (simp_all add: int_layer_def Let_def split_beta)
  qed
qed

lemma int_pass_undo:
  assumes "m \<le> 8" "p < 256"
  shows "congq (int_pass (\<not> backward) m (int_pass backward 8 f) p) (2 ^ m * int_pass backward (8 - m) f p)"
  using assms
proof (induction m arbitrary: p)
  case 0
  then show ?case by simp
next
  case (Suc m)
  define d len where "d = depth_of (\<not> backward) m" and "len = (2 :: nat) ^ (7 - d)"
  have d: "d < 8" using Suc.prems by (auto simp: d_def depth_of_def)
  have last: "int_pass backward (8 - m) f = int_layer backward d len (int_pass backward (8 - Suc m) f)"
  proof -
    have "8 - m = Suc (8 - Suc m)" "depth_of backward (8 - Suc m) = d" using Suc.prems by (auto simp: d_def depth_of_def)
    then show ?thesis using int_pass_Suc [of backward "8 - Suc m" f] by (simp add: len_def)
  qed
  have "congq (int_pass (\<not> backward) (Suc m) (int_pass backward 8 f) p)
      (int_layer (\<not> backward) d len (\<lambda>q. 2 ^ m * int_pass backward (8 - m) f q) p)"
    unfolding int_pass_Suc d_def [symmetric] len_def [symmetric]
    using Suc.IH Suc.prems by (intro int_layer_cong [OF d len_def]) simp_all
  also have "congq \<dots> (2 ^ m * (2 * int_pass backward (8 - Suc m) f p))"
    unfolding int_layer_scale last
    by (intro congq_mult congq_refl int_layer_undo [OF d len_def Suc.prems(2)])
  finally show ?case by (simp add: algebra_simps)
qed

lemma represents_self: "reduced vals \<Longrightarrow> represents vals (\<lambda>p. el (vals ! p))"
  by (simp add: represents_def)

lemma represents_unique:
  assumes "represents vals f" "represents w g" "\<And>p. p < 256 \<Longrightarrow> congq (f p) (g p)"
  shows "vals = w"
proof (rule nth_equalityI)
  show "length vals = length w" using assms by (simp add: represents_def reduced_def)
  fix p assume "p < length vals"
  then have p: "p < 256" using assms(1) by (simp add: represents_def reduced_def)
  have "congq (el (vals ! p)) (el (w ! p))"
    using assms p by (meson congq_sym congq_trans represents_def)
  then have "el (vals ! p) = el (w ! p)"
    using assms(1,2) p by (intro congq_eq) (auto simp: represents_def reduced_nth)
  then show "vals ! p = w ! p" by (simp add: el_inject)
qed

lemma ntt_undo:
  assumes "field_ok crate" "reduced vals"
  shows "ntt crate (ntt crate vals backward) (\<not> backward) = vals"
proof -
  let ?s = "\<lambda>backward x. if backward then 8347681 * x else (x :: int)"
  have 256: "congq (8347681 * (2 ^ 8 * x)) x" for x using congq_mult [of "8347681 * 256" 1 x x] by (simp add: congq_def)
  have first: "represents (ntt crate vals backward) (\<lambda>p. ?s backward (int_pass backward 8 (\<lambda>p. el (vals ! p)) p))"
    using ntt_represents [OF assms(1) represents_self [OF assms(2)], of backward] by (simp cong: if_cong)
  have scale: "int_pass b n (\<lambda>q. c * f q) p = c * int_pass b n f p" for b n c f p
  proof (induction n arbitrary: p)
    case (Suc n)
    have "int_pass b n (\<lambda>q. c * f q) = (\<lambda>q. c * int_pass b n f q)" using Suc by (intro ext)
    then show ?case by (simp add: int_pass_Suc int_layer_scale)
  qed simp
  have both: "represents (ntt crate (ntt crate vals backward) (\<not> backward))
      (\<lambda>p. 8347681 * int_pass (\<not> backward) 8 (int_pass backward 8 (\<lambda>p. el (vals ! p))) p)"
    using ntt_represents [OF assms(1) first, of "\<not> backward"] by (cases backward) (simp_all add: scale)
  show ?thesis
  proof (rule represents_unique [OF both represents_self [OF assms(2)]])
    fix p :: nat assume p: "p < 256"
    have "congq (8347681 * int_pass (\<not> backward) 8 (int_pass backward 8 (\<lambda>p. el (vals ! p))) p) (8347681 * (2 ^ 8 * el (vals ! p)))"
      using int_pass_undo [of 8 p backward "\<lambda>p. el (vals ! p)"] p by (intro congq_mult congq_refl) simp
    also note 256
    finally show "congq (8347681 * int_pass (\<not> backward) 8 (int_pass backward 8 (\<lambda>p. el (vals ! p))) p) (el (vals ! p))" .
  qed
qed


section \<open>Evaluation at the roots\<close>

text \<open>The points of FIPS 204, and the value of a polynomial at one of them.\<close>

definition ntt_point :: "nat \<Rightarrow> int" where
  "ntt_point j = 1753 ^ (2 * brv8 j + 1)"

definition poly_at :: "(nat \<Rightarrow> int) \<Rightarrow> int \<Rightarrow> int" where
  "poly_at f x = (\<Sum>k < 256. f k * x ^ k)"

lemma brv8_upper:
  assumes "h < 128"
  shows "brv8 (128 + h) = brv8 h + 1"
proof -
  have "(128 + h) div 128 = 1" "h div 128 = 0" using assms by (auto intro: div_nat_eqI)
  moreover have "(128 + h) div c = 128 div c + h div c" if "c dvd 128" for c
    using that by (rule div_plus_div_distrib_dvd_left)
  ultimately show ?thesis by (simp add: brv8_bits bit_iff_odd)
qed

lemma leaf_root: "j < 256 \<Longrightarrow> congq (node_root (256 + j)) (ntt_point j)"
proof -
  assume j: "j < 256"
  let ?h = "j div 2"
  have h: "128 + ?h < 256" "1 \<le> 128 + ?h" "?h < 128" using j by auto
  have split: "ntt_point j = 1753 ^ brv8 (128 + ?h) * (1753 ^ 256) ^ (j mod 2)"
    using brv8_rec [OF j] brv8_upper [OF h(3)] unfolding ntt_point_def power_mult [symmetric] power_add [symmetric] by simp
  have "congq (zeta (128 + ?h) * (- 1) ^ (j mod 2)) (ntt_point j)"
    unfolding split by (intro congq_mult congq_pow congq_sym [OF root_of_minus_one] zeta_congq h)
  moreover have "(256 + j) div 2 = 128 + ?h" by simp
  then have "node_root (256 + j) = zeta (128 + ?h) * (- 1) ^ (j mod 2)"
    by (cases "even j") (simp_all add: node_root_def mod2_eq_if)
  ultimately show ?thesis by simp
qed

lemma poly_at_cong: "congq x y \<Longrightarrow> congq (poly_at f x) (poly_at f y)"
  unfolding poly_at_def by (intro congq_sum congq_mult congq_refl congq_pow)

lemma ntt_eval:
  assumes "field_ok crate" "reduced vals"
  shows "represents (ntt crate vals False) (\<lambda>j. poly_at (\<lambda>k. el (vals ! k)) (ntt_point j))"
proof -
  have "congq (int_pass False 8 (\<lambda>k. el (vals ! k)) j) (poly_at (\<lambda>k. el (vals ! k)) (ntt_point j))" if "j < 256" for j
  proof -
    have "congq (int_pass False 8 (\<lambda>k. el (vals ! k)) j) (node_sum 8 (\<lambda>k. el (vals ! k)) j)"
      using int_pass_node_sum [of 8 j] that by simp
    also have "node_sum 8 (\<lambda>k. el (vals ! k)) j = poly_at (\<lambda>k. el (vals ! k)) (node_root (256 + j))"
      by (simp add: node_sum_def poly_at_def)
    also have "congq \<dots> (poly_at (\<lambda>k. el (vals ! k)) (ntt_point j))" using leaf_root [OF that] by (rule poly_at_cong)
    finally show ?thesis .
  qed
  then show ?thesis using ntt_represents [OF assms(1) represents_self [OF assms(2)], of False]
    by (auto simp: represents_def intro: congq_trans)
qed

section \<open>Products modulo \<open>X\<^sup>2\<^sup>5\<^sup>6 + 1\<close>\<close>

definition negacyclic :: "(nat \<Rightarrow> int) \<Rightarrow> (nat \<Rightarrow> int) \<Rightarrow> nat \<Rightarrow> int" where
  "negacyclic a b n = (\<Sum>i < 256. if i \<le> n then a i * b (n - i) else - (a i * b (256 + n - i)))"

lemma point_power: "congq (ntt_point j ^ 256) (- 1)"
proof -
  have "ntt_point j ^ 256 = (1753 ^ 256) ^ (2 * brv8 j + 1)" unfolding ntt_point_def by (simp only: power_mult [symmetric] mult.commute [of 256])
  also have "congq \<dots> ((- 1) ^ (2 * brv8 j + 1))" by (intro congq_pow root_of_minus_one)
  finally show ?thesis by simp
qed

lemma shift_row:
  assumes "congq (x ^ 256) (- 1)" "i < 256"
  shows "congq (\<Sum>n < 256. (if i \<le> n then b (n - i) else - b (256 + n - i)) * x ^ n) (x ^ i * poly_at b x)"
proof -
  have "(\<Sum>n < 256. (if i \<le> n then b (n - i) else - b (256 + n - i)) * x ^ n)
      = (\<Sum>n < i. - b (256 + n - i) * x ^ n) + (\<Sum>n = i..<256. b (n - i) * x ^ n)"
  proof -
    have "{..<256} = {..<i} \<union> {i..<256}" using assms(2) by auto
    then have "(\<Sum>n < 256. (if i \<le> n then b (n - i) else - b (256 + n - i)) * x ^ n)
      = (\<Sum>n < i. (if i \<le> n then b (n - i) else - b (256 + n - i)) * x ^ n)
        + (\<Sum>n = i..<256. (if i \<le> n then b (n - i) else - b (256 + n - i)) * x ^ n)"
      by (simp only: sum.union_disjoint finite_lessThan finite_atLeastLessThan ivl_disj_int)
    then show ?thesis by simp
  qed
  also have "(\<Sum>n = i..<256. b (n - i) * x ^ n) = (\<Sum>k < 256 - i. b k * x ^ (i + k))"
    by (rule sum.reindex_bij_witness [of _ "\<lambda>k. i + k" "\<lambda>n. n - i"]) auto
  also have "(\<Sum>n < i. - b (256 + n - i) * x ^ n) = (\<Sum>k = 256 - i..<256. - b k * x ^ (i + k - 256))"
    using assms(2) by (intro sum.reindex_bij_witness [of _ "\<lambda>k. i + k - 256" "\<lambda>n. 256 + n - i"]) auto
  also have "congq ((\<Sum>k = 256 - i..<256. - b k * x ^ (i + k - 256)) + (\<Sum>k < 256 - i. b k * x ^ (i + k)))
      ((\<Sum>k = 256 - i..<256. b k * x ^ (i + k)) + (\<Sum>k < 256 - i. b k * x ^ (i + k)))"
  proof (intro congq_add congq_sum congq_refl)
    fix k assume k: "k \<in> {256 - i..<256}"
    have "x ^ (i + k) = x ^ 256 * x ^ (i + k - 256)" using k by (subst power_add [symmetric]) auto
    moreover have "congq (- b k * x ^ (i + k - 256)) (b k * (x ^ 256 * x ^ (i + k - 256)))"
      using congq_mult [OF congq_refl [of "b k"] congq_mult [OF congq_sym [OF assms(1)] congq_refl [of "x ^ (i + k - 256)"]]] by simp
    ultimately show "congq (- b k * x ^ (i + k - 256)) (b k * x ^ (i + k))" by simp
  qed
  also have "(\<Sum>k = 256 - i..<256. b k * x ^ (i + k)) + (\<Sum>k < 256 - i. b k * x ^ (i + k)) = x ^ i * poly_at b x"
  proof -
    have eq: "{..<256} = {256 - i..<256} \<union> {..<256 - i}" using assms(2) by auto
    have "(\<Sum>k < 256. b k * x ^ (i + k)) = (\<Sum>k = 256 - i..<256. b k * x ^ (i + k)) + (\<Sum>k < 256 - i. b k * x ^ (i + k))"
      by (rule trans [OF sum.cong [OF eq refl] sum.union_disjoint]) auto
    moreover have "(\<Sum>k < 256. b k * x ^ (i + k)) = x ^ i * poly_at b x"
      unfolding poly_at_def sum_distrib_left power_add by (intro sum.cong refl) simp
    ultimately show ?thesis by simp
  qed
  finally show ?thesis .
qed

lemma negacyclic_at:
  assumes "congq (x ^ 256) (- 1)"
  shows "congq (poly_at (negacyclic a b) x) (poly_at a x * poly_at b x)"
proof -
  have "poly_at (negacyclic a b) x
      = (\<Sum>n < 256. \<Sum>i < 256. a i * ((if i \<le> n then b (n - i) else - b (256 + n - i)) * x ^ n))"
    unfolding poly_at_def negacyclic_def sum_distrib_right by (intro sum.cong refl) auto
  also have "\<dots> = (\<Sum>i < 256. a i * (\<Sum>n < 256. (if i \<le> n then b (n - i) else - b (256 + n - i)) * x ^ n))"
    unfolding sum_distrib_left by (rule sum.swap)
  also have "congq \<dots> (\<Sum>i < 256. a i * (x ^ i * poly_at b x))"
    by (intro congq_sum congq_mult congq_refl shift_row [OF assms]) simp
  also have "\<dots> = poly_at a x * poly_at b x" unfolding poly_at_def [of a] by (simp add: sum_distrib_right mult.assoc)
  finally show ?thesis .
qed

lemma represents_product:
  assumes "field_ok crate" "represents u f" "represents v g"
  shows "represents (map2 (el_mul crate) u v) (\<lambda>p. f p * g p)"
proof -
  have l: "length u = 256" "length v = 256" using assms(2,3) by (simp_all add: represents_def reduced_def)
  have "el (el_mul crate (u ! p) (v ! p)) = el (u ! p) * el (v ! p) mod 8380417" if "p < 256" for p
    using assms that by (simp add: field_ok_def represents_def reduced_nth)
  then show ?thesis using l assms(2,3)
    by (auto simp: represents_def reduced_def in_set_conv_nth intro!: congq_mult)
qed

lemma el_word_of_mod: "el (word_of_int (x mod 8380417)) = x mod 8380417"
proof -
  have "0 \<le> x mod 8380417" "x mod 8380417 < 8380417" by simp_all
  then have "uint (word_of_int (x mod 8380417) :: u32) = x mod 8380417" by (simp add: uint_word_of_int_eq take_bit_eq_mod)
  then show ?thesis by (simp add: el_def)
qed

lemma reduced_values:
  "reduced (map (\<lambda>n. word_of_int (f n mod 8380417)) [0..<256])
   \<and> represents (map (\<lambda>n. word_of_int (f n mod 8380417)) [0..<256]) f"
  by (auto simp: represents_def reduced_def el_word_of_mod)

lemma ntt_product:
  assumes "field_ok crate" "reduced u" "reduced v"
  shows "ntt crate (map2 (el_mul crate) (ntt crate u False) (ntt crate v False)) True
       = map (\<lambda>n. word_of_int (negacyclic (\<lambda>k. el (u ! k)) (\<lambda>k. el (v ! k)) n mod 8380417)) [0..<256]"
proof -
  let ?c = "negacyclic (\<lambda>k. el (u ! k)) (\<lambda>k. el (v ! k))"
  let ?w = "map (\<lambda>n. word_of_int (?c n mod 8380417)) [0..<256] :: u32 list"
  have w: "reduced ?w" "represents ?w ?c" using reduced_values [of ?c] by blast+
  have "congq (poly_at (\<lambda>k. el (?w ! k)) x) (poly_at ?c x)" for x
    using w(2) unfolding poly_at_def by (intro congq_sum congq_mult congq_refl) (simp only: represents_def lessThan_iff)
  then have eval: "congq (poly_at (\<lambda>k. el (?w ! k)) (ntt_point p)) (poly_at (\<lambda>k. el (u ! k)) (ntt_point p) * poly_at (\<lambda>k. el (v ! k)) (ntt_point p))" for p
    using negacyclic_at [OF point_power] by (rule congq_trans)
  have "ntt crate ?w False = map2 (el_mul crate) (ntt crate u False) (ntt crate v False)"
    by (rule represents_unique [OF ntt_eval [OF assms(1) w(1)] represents_product [OF assms(1) ntt_eval [OF assms(1,2)] ntt_eval [OF assms(1,3)]]])
       (rule eval)
  then show ?thesis using ntt_undo [OF assms(1) w(1), of False] by simp
qed

text \<open>
  C37: The transform of the code is the one of FIPS 204 and computes products. On 256 reduced elements, over canonical field
  arithmetic: the forward direction returns the values of the polynomial at the points
  \<open>1753\<close> to the power \<open>2 * BitRev8 j + 1\<close>; each direction undoes the other exactly; and transforming two
  polynomials, multiplying pointwise and transforming back gives their product modulo \<open>X\<^sup>2\<^sup>5\<^sup>6 + 1\<close>.
\<close>

theorem ntt_exact:
  assumes "field_ok crate" "reduced u" "reduced v"
  shows "(\<forall>j < 256. el (ntt crate u False ! j)
            = (\<Sum>k < 256. el (u ! k) * (1753 ^ (2 * unat (reverse_bits (word_of_nat j)) + 1)) ^ k) mod 8380417)
       \<and> ntt crate (ntt crate u False) True = u \<and> ntt crate (ntt crate u True) False = u
       \<and> ntt crate (map2 (el_mul crate) (ntt crate u False) (ntt crate v False)) True
           = map (\<lambda>n. word_of_int (negacyclic (\<lambda>k. el (u ! k)) (\<lambda>k. el (v ! k)) n mod 8380417)) [0..<256]"
proof (intro conjI allI impI)
  fix j :: nat assume j: "j < 256"
  have "el (ntt crate u False ! j) = poly_at (\<lambda>k. el (u ! k)) (ntt_point j) mod 8380417"
    using ntt_eval [OF assms(1,2)] j by (intro congq_eq) (auto simp: represents_def reduced_nth)
  then show "el (ntt crate u False ! j)
      = (\<Sum>k < 256. el (u ! k) * (1753 ^ (2 * unat (reverse_bits (word_of_nat j)) + 1)) ^ k) mod 8380417"
    by (simp only: poly_at_def ntt_point_def brv8_def)
qed (use ntt_undo [OF assms(1,2), of False] ntt_undo [OF assms(1,2), of True] ntt_product [OF assms] in simp_all)

text \<open>Field arithmetic by reduction of the integer results.\<close>

definition sample_field :: lattice_crate where
  "sample_field = \<lparr> el_add = (\<lambda>a b. word_of_int ((el a + el b) mod 8380417)), el_sub = (\<lambda>a b. word_of_int ((el a - el b) mod 8380417)),
     el_mul = (\<lambda>a b. word_of_int (el a * el b mod 8380417)), el_neg = (\<lambda>a. word_of_int (- el a mod 8380417)) \<rparr>"

lemma sample_field_ok: "field_ok sample_field"
  by (simp add: field_ok_def sample_field_def el_word_of_mod)

theorem ntt_exact_witness:
  "ntt sample_field (ntt sample_field (replicate 256 3) False) True = replicate 256 3
   \<and> el (ntt sample_field (replicate 256 3) False ! 5) = (\<Sum>k < 256. 3 * (1753 ^ (2 * unat (reverse_bits 5) + 1)) ^ k) mod 8380417"
proof -
  have r: "reduced (replicate 256 3)" by (simp add: reduced_def el_def)
  have "(\<Sum>k < 256. el (replicate 256 3 ! k) * x ^ k) = (\<Sum>k < 256. 3 * x ^ k)" for x
    by (intro sum.cong refl) (simp add: el_def)
  moreover have five: "(5 :: nat) < 256" "word_of_nat 5 = (5 :: byte)" by simp_all
  note e = ntt_exact [OF sample_field_ok r r]
  have "el (ntt sample_field (replicate 256 3) False ! 5)
      = (\<Sum>k < 256. el (replicate 256 3 ! k) * (1753 ^ (2 * unat (reverse_bits (word_of_nat 5)) + 1)) ^ k) mod 8380417"
    using e [THEN conjunct1] five(1) by blast
  ultimately show ?thesis using e [THEN conjunct2, THEN conjunct1] by (simp only: five(2) simp_thms)
qed

end
