(* ===== verification/Ml_Dsa_Validation.thy ===== *)
theory Ml_Dsa_Validation
  imports Ml_Dsa_Ring
begin

text \<open>
  \<^verbatim>\<open>src/src/post_quantum/ml_dsa_validation.rs\<close>, the check of an expanded ML-DSA private key before it
  is decoded: the packed small secrets are in range, and the low part of the public vector in the encoding is the one
  that \<open>A * s1 + s2\<close> gives. The parameter sets of the crate \<open>ml_dsa\<close> (splitting, packing and
  unpacking of the encoding), its elements and SHAKE128 are parameters. Sampling of the matrix is the source's
  unbounded loop, as a partial function.
\<close>

datatype MlDsaParameterSet = MlDsa44 | MlDsa65 | MlDsa87

datatype MlDsaError =
    Dsa_InvalidSeedLength
  | Dsa_InvalidExpandedPrivateKey
  | Dsa_InvalidPrivateKey
  | Dsa_InvalidContext
  | Dsa_InvalidPublicKey
  | Dsa_InvalidSignature
  | Dsa_RandomnessUnavailable
  | Dsa_SigningFailed

text \<open>
  \<open>MlDsaParams\<close> of the crate: the six parts of an expanded key, the range of the secrets, and the codecs of
  the vectors. \<open>vp_shake128\<close> is the output stream after the given \<open>update\<close> calls.
\<close>

record validation_crate =
  vp_split_sk :: "bytes \<Rightarrow> bytes \<times> bytes \<times> bytes \<times> bytes \<times> bytes \<times> bytes"
  vp_eta :: u32
  vp_decode_s1 :: "bytes \<Rightarrow> u32 list list"
  vp_decode_s2 :: "bytes \<Rightarrow> u32 list list"
  vp_encode_t0 :: "u32 list list \<Rightarrow> bytes"
  vp_field :: lattice_crate
  vp_shake128 :: "bytes list \<Rightarrow> nat \<Rightarrow> byte"

text \<open>\<open>u32::ilog2\<close>, which panics on zero; the result is the position of the highest bit.\<close>

definition ilog2 :: "u32 \<Rightarrow> 'e fault + nat" where
  "ilog2 w = (if w = 0 then Inl Panic else Inr (hd (filter (bit w) (rev [0..<32]))))"

text \<open>
  The inner \<open>while\<close> loop. The guard on the width only makes the recursion total: \<open>width\<close> is a logarithm
  plus one.
\<close>

function drain_fields :: "nat \<Rightarrow> u32 \<Rightarrow> u32 \<Rightarrow> u32 \<times> nat \<times> bool \<Rightarrow> u32 \<times> nat \<times> bool" where
  "drain_fields width field_mask limit (accumulator, available, valid) =
     (if width = 0 \<or> available < width then (accumulator, available, valid)
      else drain_fields width field_mask limit
             (drop_bit width accumulator, available - width, valid \<and> accumulator AND field_mask \<le> limit))"
  by pat_completeness auto

termination
  by (relation "measure (\<lambda>(width, field_mask, limit, accumulator, available, valid). available)") auto

declare drain_fields.simps [simp del]

definition valid_small_secret_encoding :: "bytes \<Rightarrow> u32 \<Rightarrow> 'e fault + bool" where
  "valid_small_secret_encoding encoded eta =
     bindR (ilog2 (2 * eta)) (\<lambda>log.
     let width = log + 1;
         field_mask = push_bit width 1 - 1 in
     Inr (snd (snd (fold (\<lambda>byte (accumulator, available, valid).
         drain_fields width field_mask (2 * eta) (accumulator OR push_bit available (ucast byte), available + 8, valid))
       encoded (0, 0, True)))))"

text \<open>One candidate of the sampling loop, and the loop.\<close>

definition sample_value :: "(nat \<Rightarrow> byte) \<Rightarrow> nat \<Rightarrow> u32" where
  "sample_value reader pos =
     ucast (reader pos) OR push_bit 8 (ucast (reader (pos + 1))) OR push_bit 16 (ucast (reader (pos + 2) AND 0x7f))"

partial_function (option) sample_coefficient :: "(nat \<Rightarrow> byte) \<Rightarrow> nat \<Rightarrow> (u32 \<times> nat) option" where
  "sample_coefficient reader pos =
     (if sample_value reader pos < Q then Some (sample_value reader pos, pos + 3)
      else sample_coefficient reader (pos + 3))"

fun accumulate_column :: "lattice_crate \<Rightarrow> (nat \<Rightarrow> byte) \<Rightarrow> nat \<Rightarrow> u32 list \<Rightarrow> u32 list \<Rightarrow> u32 list option" where
  "accumulate_column crate reader pos (accumulator # product) (secret # column) =
     Option.bind (sample_coefficient reader pos) (\<lambda>(coefficient, pos).
     Option.bind (accumulate_column crate reader pos product column) (\<lambda>product.
     Some (el_add crate accumulator (el_mul crate coefficient secret) # product)))"
| "accumulate_column crate reader pos product _ = Some product"

definition row_product :: "validation_crate \<Rightarrow> bytes \<Rightarrow> nat \<Rightarrow> u32 list list \<Rightarrow> u32 list \<Rightarrow> u32 list option" where
  "row_product params rho row_index s1_hat row =
     fold (\<lambda>(column_index, column) product. Option.bind product (\<lambda>product.
         accumulate_column (vp_field params)
           (vp_shake128 params [rho, [word_of_nat column_index, word_of_nat row_index]]) 0 product column))
       (enumerate 0 s1_hat) (Some (replicate (length row) 0))"

text \<open>The last loop of a row: \<open>Power2Round\<close> of the sum.\<close>

definition power2_low :: "lattice_crate \<Rightarrow> u32 \<Rightarrow> u32 \<Rightarrow> u32" where
  "power2_low crate coefficient product =
     (let value = el_add crate coefficient product;
          high = drop_bit 13 (value + 4095)
      in el_sub crate value (push_bit 13 high))"

definition validate_row :: "validation_crate \<Rightarrow> bytes \<Rightarrow> u32 list list \<Rightarrow> nat \<times> u32 list \<Rightarrow> u32 list option" where
  "validate_row params rho s1_hat indexed =
     (case indexed of (row_index, row) \<Rightarrow>
        Option.bind (row_product params rho row_index s1_hat row) (\<lambda>product.
        let product = ntt (vp_field params) product True
        in Some (map2 (power2_low (vp_field params)) row product)))"

text \<open>The rows in order; a row whose sampling does not end ends nothing.\<close>

fun validate_rows :: "validation_crate \<Rightarrow> bytes \<Rightarrow> u32 list list \<Rightarrow> (nat \<times> u32 list) list \<Rightarrow> u32 list list option" where
  "validate_rows params rho s1_hat [] = Some []"
| "validate_rows params rho s1_hat (indexed # rows) =
     Option.bind (validate_row params rho s1_hat indexed) (\<lambda>row.
     Option.bind (validate_rows params rho s1_hat rows) (\<lambda>rows. Some (row # rows)))"

definition ml_dsa_validate :: "validation_crate \<Rightarrow> bytes \<Rightarrow> (MlDsaError fault + unit) option" where
  "ml_dsa_validate params encoded =
     (case vp_split_sk params encoded of (rho, _, _, s1, s2, t0) \<Rightarrow>
      case bindR (valid_small_secret_encoding s1 (vp_eta params)) (\<lambda>first.
           if \<not> first then Inr False else valid_small_secret_encoding s2 (vp_eta params)) of
        Inl fault \<Rightarrow> Some (Inl fault)
      | Inr False \<Rightarrow> Some (Inl (Err Dsa_InvalidExpandedPrivateKey))
      | Inr True \<Rightarrow>
          let s1_hat = map (\<lambda>polynomial. ntt (vp_field params) polynomial False) (vp_decode_s1 params s1) in
          Option.bind (validate_rows params rho s1_hat (enumerate 0 (vp_decode_s2 params s2))) (\<lambda>t.
          let expected_t0 = vp_encode_t0 params t
          in Some (if expected_t0 \<noteq> t0 then Inl (Err Dsa_InvalidExpandedPrivateKey) else Inr ())))"


section \<open>Packed fields\<close>

definition le_nat :: "bytes \<Rightarrow> nat" where
  "le_nat bs = be_nat (rev bs)"

lemma le_nat_snoc: "le_nat (bs @ [b]) = le_nat bs + unat b * 256 ^ length bs"
  by (simp add: le_nat_def be_nat_Cons)

lemma le_nat_bound: "le_nat bs < 2 ^ (8 * length bs)"
  using be_nat_bound [of "rev bs"] by (simp add: le_nat_def power_mult)

text \<open>Field \<open>j\<close> of a little-endian packing, and what it means that the first \<open>k\<close> are in range.\<close>

definition packed_field :: "nat \<Rightarrow> nat \<Rightarrow> nat \<Rightarrow> nat" where
  "packed_field width n j = n div 2 ^ (width * j) mod 2 ^ width"

definition fields_ok :: "nat \<Rightarrow> nat \<Rightarrow> nat \<Rightarrow> nat \<Rightarrow> bool" where
  "fields_ok width limit n k \<longleftrightarrow> (\<forall>j < k. packed_field width n j \<le> limit)"

lemma field_mask_and: "unat (x AND (push_bit width 1 - 1)) = unat (x :: u32) mod 2 ^ width"
proof -
  have "push_bit width (1 :: u32) - 1 = mask width" by (simp add: mask_eq_exp_minus_1)
  then show ?thesis by (simp only: take_bit_eq_mask [symmetric] unsigned_take_bit_eq) (rule take_bit_eq_mod)
qed

lemma unat_drop_bit: "unat (drop_bit n (x :: u32)) = unat x div 2 ^ n"
  using unsigned_less [of x, where ?'a = nat]
  by (simp only: unsigned_drop_bit_eq take_bit_nat_eq_self) (rule drop_bit_eq_div)

lemma fields_ok_Suc:
  "fields_ok width limit n (Suc k) \<longleftrightarrow> n mod 2 ^ width \<le> limit \<and> fields_ok width limit (n div 2 ^ width) k"
proof -
  have "packed_field width n (Suc j) = packed_field width (n div 2 ^ width) j" for j
    by (simp add: packed_field_def power_add div_mult2_eq)
  moreover have "packed_field width n 0 = n mod 2 ^ width" by (simp add: packed_field_def)
  ultimately show ?thesis unfolding fields_ok_def by (metis less_Suc_eq_0_disj)
qed

lemma drain_exact:
  assumes "0 < width"
  shows "\<exists>rest. drain_fields width (push_bit width 1 - 1) limit (accumulator, available, valid)
      = (rest, available mod width, valid \<and> fields_ok width (unat limit) (unat accumulator) (available div width))
    \<and> unat rest = unat accumulator div 2 ^ (width * (available div width))"
proof (induction "available div width" arbitrary: accumulator available valid)
  case 0
  then have "available < width" using assms by (simp add: div_eq_0_iff)
  then show ?case by (simp add: drain_fields.simps fields_ok_def)
next
  case (Suc k)
  have ge: "width \<le> available" using Suc(2) by (metis div_less not_le nat.distinct(1))
  then have k: "k = (available - width) div width" "(available - width) mod width = available mod width"
    using Suc(2) assms by (simp_all add: le_div_geq le_mod_geq)
  have test: "accumulator AND (push_bit width 1 - 1) \<le> limit \<longleftrightarrow> unat accumulator mod 2 ^ width \<le> unat limit"
    by (simp only: word_le_nat_alt field_mask_and)
  show ?case
    using Suc(1) [OF k(1), of "drop_bit width accumulator" "valid \<and> accumulator AND (push_bit width 1 - 1) \<le> limit"] ge assms
    by (subst drain_fields.simps)
       (simp add: test [simplified] unat_drop_bit fields_ok_Suc k Suc(2) [symmetric] conj_assoc power_add div_mult2_eq)
qed

lemma fields_ok_add:
  "fields_ok width limit n (k + m) \<longleftrightarrow> fields_ok width limit n k \<and> fields_ok width limit (n div 2 ^ (width * k)) m"
proof -
  have "packed_field width n (k + j) = packed_field width (n div 2 ^ (width * k)) j" for j
    by (simp add: packed_field_def distrib_left power_add div_mult2_eq)
  moreover have "(\<forall>j < k + m. P j) \<longleftrightarrow> (\<forall>j < k. P j) \<and> (\<forall>j < m. P (k + j))" for P
  proof (intro iffI allI impI)
    fix j assume "(\<forall>j < k. P j) \<and> (\<forall>j < m. P (k + j))" "j < k + m"
    then show "P j" by (cases "j < k") (use spec [of "\<lambda>i. i < m \<longrightarrow> P (k + i)" "j - k"] in auto)
  qed simp
  ultimately show ?thesis by (simp add: fields_ok_def)
qed

lemma fields_ok_low:
  assumes "width * k \<le> e"
  shows "fields_ok width limit (n + b * 2 ^ e) k \<longleftrightarrow> fields_ok width limit n k"
proof -
  have "packed_field width (n + b * 2 ^ e) j = packed_field width n j" if "j < k" for j
  proof -
    have "width * j + width \<le> width * k" using that mult_le_mono2 [of "Suc j" k width] by simp
    then obtain r where "e = width * j + (width + r)" using assms by (metis add.assoc le_Suc_ex le_trans)
    then have "n + b * 2 ^ e = n + 2 ^ (width * j) * (2 ^ width * (b * 2 ^ r))" by (simp add: power_add)
    then show ?thesis by (simp only: packed_field_def div_mult_self2 power_not_zero) simp
  qed
  then show ?thesis by (simp add: fields_ok_def)
qed

lemma unat_or_push:
  assumes "unat (x :: u32) < 2 ^ n" "n \<le> 24"
  shows "unat (x OR push_bit n (ucast (b :: byte))) = unat x + unat b * 2 ^ n"
proof -
  have b: "unat b < 256" using unsigned_less [of b, where ?'a = nat] by simp
  have le: "(2 :: nat) ^ n \<le> 2 ^ 24" using assms(2) by (intro power_increasing) simp_all
  have "unat b * 2 ^ n < 256 * 2 ^ n" using b by simp
  also have "\<dots> \<le> 2 ^ 32" using le by simp
  finally have small: "unat b * 2 ^ n < 2 ^ 32" .
  have p: "unat (push_bit n (ucast b :: u32)) = push_bit n (unat b)"
  proof -
    have "unat (ucast b :: u32) = unat b" using b by (simp add: unsigned_ucast_eq take_bit_nat_eq_self)
    moreover have "take_bit LENGTH(32) (push_bit n (unat b)) = push_bit n (unat b)"
      using small by (intro take_bit_nat_eq_self) (simp add: push_bit_eq_mult)
    ultimately show ?thesis by (simp only: unsigned_push_bit_eq)
  qed
  have "take_bit n (unat x) AND push_bit n (unat b) = 0"
    by (auto simp: bit_eq_iff bit_take_bit_iff bit_push_bit_iff bit_and_iff)
  then have "unat x AND push_bit n (unat b) = 0" by (simp only: take_bit_nat_eq_self [OF assms(1)])
  then have "unat x OR push_bit n (unat b) = unat x + push_bit n (unat b)" by (rule disjunctive_add_eq_or [symmetric])
  then show ?thesis by (simp only: unsigned_or_eq p) (simp only: push_bit_eq_mult)
qed

lemma packing_scan:
  assumes "0 < width" "width \<le> 16"
  shows "\<exists>accumulator. fold (\<lambda>byte (accumulator, available, valid).
         drain_fields width (push_bit width 1 - 1) limit (accumulator OR push_bit available (ucast byte), available + 8, valid))
       bs (0, 0, True)
     = (accumulator, 8 * length bs mod width, fields_ok width (unat limit) (le_nat bs) (8 * length bs div width))
     \<and> unat accumulator = le_nat bs div 2 ^ (width * (8 * length bs div width))"
proof (induction bs rule: rev_induct)
  case Nil
  then show ?case by (simp add: fields_ok_def le_nat_def)
next
  case (snoc b bs)
  define k r where "k = 8 * length bs div width" and "r = 8 * length bs mod width"
  have e: "8 * length bs = width * k + r" by (simp add: k_def r_def)
  have r: "r < width" using assms(1) by (simp add: r_def)
  obtain acc where IH: "fold (\<lambda>byte (accumulator, available, valid).
         drain_fields width (push_bit width 1 - 1) limit (accumulator OR push_bit available (ucast byte), available + 8, valid))
       bs (0, 0, True) = (acc, r, fields_ok width (unat limit) (le_nat bs) k)" "unat acc = le_nat bs div 2 ^ (width * k)"
    using snoc unfolding k_def r_def by blast
  have n: "le_nat (bs @ [b]) = le_nat bs + unat b * 2 ^ (8 * length bs)" by (simp add: le_nat_snoc power_mult)
  have "le_nat bs < 2 ^ (width * k) * 2 ^ r" using le_nat_bound [of bs] by (simp add: e power_add)
  then have "unat acc < 2 ^ r" unfolding IH(2) by (simp add: div_less_iff_less_mult mult.commute)
  then have acc: "unat (acc OR push_bit r (ucast b)) = le_nat (bs @ [b]) div 2 ^ (width * k)"
  proof -
    have "le_nat bs + unat b * 2 ^ (width * k + r) = le_nat bs + (unat b * 2 ^ r) * 2 ^ (width * k)" by (simp add: power_add)
    then have "le_nat (bs @ [b]) div 2 ^ (width * k) = unat b * 2 ^ r + le_nat bs div 2 ^ (width * k)"
      unfolding n e by (simp only: div_mult_self1 power_not_zero zero_neq_numeral not_False_eq_True simp_thms)
    then show ?thesis using \<open>unat acc < 2 ^ r\<close> r assms(2) by (simp add: unat_or_push IH(2))
  qed
  obtain rest where "drain_fields width (push_bit width 1 - 1) limit
        (acc OR push_bit r (ucast b), r + 8, fields_ok width (unat limit) (le_nat bs) k)
      = (rest, (r + 8) mod width, fields_ok width (unat limit) (le_nat bs) k
          \<and> fields_ok width (unat limit) (le_nat (bs @ [b]) div 2 ^ (width * k)) ((r + 8) div width))"
    "unat rest = le_nat (bs @ [b]) div 2 ^ (width * k) div 2 ^ (width * ((r + 8) div width))"
    using drain_exact [OF assms(1), of limit "acc OR push_bit r (ucast b)" "r + 8"] unfolding acc by blast
  moreover have "8 * length (bs @ [b]) = (r + 8) + k * width" using e by simp
  then have "8 * length (bs @ [b]) mod width = (r + 8) mod width" "8 * length (bs @ [b]) div width = k + (r + 8) div width"
    using assms(1) by (simp_all only: mod_mult_self1 div_mult_self1 neq0_conv)
  moreover have "fields_ok width (unat limit) (le_nat bs) k \<longleftrightarrow> fields_ok width (unat limit) (le_nat (bs @ [b])) k"
    unfolding n using e by (intro fields_ok_low [symmetric]) simp
  ultimately show ?case using IH(1)
    by (simp add: fields_ok_add div_mult2_eq distrib_left power_add)
qed

definition secret_width :: "u32 \<Rightarrow> nat" where
  "secret_width eta = (if eta = 2 then 3 else 4)"

definition secrets_in_range :: "u32 \<Rightarrow> bytes \<Rightarrow> bool" where
  "secrets_in_range eta encoded \<longleftrightarrow>
     fields_ok (secret_width eta) (unat (2 * eta)) (le_nat encoded) (8 * length encoded div secret_width eta)"

lemma valid_small_exact:
  assumes "eta \<in> {2, 4}"
  shows "valid_small_secret_encoding encoded eta = (Inr (secrets_in_range eta encoded) :: 'e fault + bool)"
proof -
  have log: "ilog2 4 = (Inr 2 :: 'e fault + nat)" "ilog2 8 = (Inr 3 :: 'e fault + nat)"
    by (simp_all add: ilog2_def upt_rec bit_numeral_rec)
  have l: "ilog2 (2 * eta) = (Inr (secret_width eta - 1) :: 'e fault + nat)" using assms log by (auto simp: secret_width_def)
  have w: "0 < secret_width eta" "secret_width eta \<le> 16" "secret_width eta - 1 + 1 = secret_width eta"
    by (simp_all add: secret_width_def)
  obtain accumulator where "fold (\<lambda>byte (accumulator, available, valid).
         drain_fields (secret_width eta) (push_bit (secret_width eta) 1 - 1) (2 * eta)
           (accumulator OR push_bit available (ucast byte), available + 8, valid)) encoded (0, 0, True)
     = (accumulator, 8 * length encoded mod secret_width eta, secrets_in_range eta encoded)"
    using packing_scan [OF w(1,2), of "2 * eta" encoded] unfolding secrets_in_range_def by blast
  then show ?thesis by (simp only: valid_small_secret_encoding_def l bindR_simps Let_def w(3) snd_conv)
qed

section \<open>Sampling\<close>

text \<open>A stream on which the sampling loop ends from every position.\<close>

definition productive :: "(nat \<Rightarrow> byte) \<Rightarrow> bool" where
  "productive reader \<longleftrightarrow> (\<forall>pos. \<exists>k. sample_value reader (pos + 3 * k) < Q)"

lemma sample_coefficient_returns:
  assumes "productive reader"
  shows "\<exists>c p. sample_coefficient reader pos = Some (c, p) \<and> c < Q"
proof -
  obtain k where "sample_value reader (pos + 3 * k) < Q" using assms by (auto simp: productive_def)
  then show ?thesis
  proof (induction k arbitrary: pos)
    case 0
    then show ?case by (subst sample_coefficient.simps) simp
  next
    case (Suc k)
    then have "\<exists>c p. sample_coefficient reader (pos + 3) = Some (c, p) \<and> c < Q" by (intro Suc.IH) (simp add: algebra_simps)
    then show ?case by (subst (1) sample_coefficient.simps) auto
  qed
qed

text \<open>The coefficients that the loop takes from a stream.\<close>

fun sampled :: "(nat \<Rightarrow> byte) \<Rightarrow> nat \<Rightarrow> nat \<Rightarrow> u32 list" where
  "sampled reader pos 0 = []"
| "sampled reader pos (Suc n) = (case sample_coefficient reader pos of Some (c, p) \<Rightarrow> c # sampled reader p n | None \<Rightarrow> [])"

lemma sampled_reduced:
  assumes "productive reader"
  shows "length (sampled reader pos n) = n \<and> (\<forall>x \<in> set (sampled reader pos n). el x < 8380417)"
proof (induction n arbitrary: pos)
  case (Suc n)
  obtain c p where "sample_coefficient reader pos = Some (c, p)" "c < Q"
    using sample_coefficient_returns [OF assms] by blast
  moreover have "el c < 8380417" using \<open>c < Q\<close> unfolding el_def Q_def word_less_nat_alt by (simp del: of_nat_unat)
  ultimately show ?case using Suc [of p] by simp
qed simp

lemma accumulate_column_eq:
  assumes "productive reader"
  shows "length product = length column \<Longrightarrow>
    accumulate_column crate reader pos product column
      = Some (map2 (el_add crate) product (map2 (el_mul crate) (sampled reader pos (length column)) column))"
proof (induction product column arbitrary: pos rule: list_induct2')
  case (4 x xs y ys)
  obtain c p where "sample_coefficient reader pos = Some (c, p)" using sample_coefficient_returns [OF assms] by blast
  then show ?case using 4 by simp
qed simp_all


section \<open>Rows in the polynomial ring\<close>

lemma represents_add_product:
  assumes "field_ok crate" "represents w f" "reduced u" "reduced v"
  shows "represents (map2 (el_add crate) w (map2 (el_mul crate) u v)) (\<lambda>p. f p + el (u ! p) * el (v ! p))"
proof -
  define m where "m = map2 (el_mul crate) u v"
  have uv: "represents m (\<lambda>p. el (u ! p) * el (v ! p))"
    unfolding m_def by (rule represents_product [OF assms(1) represents_self [OF assms(3)] represents_self [OF assms(4)]])
  have l: "length w = 256" "length m = 256" using assms(2) uv by (simp_all add: represents_def reduced_def)
  have "el (el_add crate (w ! p) (m ! p)) = (el (w ! p) + el (m ! p)) mod 8380417" if "p < 256" for p
    using assms(1,2) uv that unfolding field_ok_def represents_def by (meson reduced_nth)
  then have "represents (map2 (el_add crate) w m) (\<lambda>p. el (w ! p) + el (m ! p))"
    using l by (auto simp: represents_def reduced_def in_set_conv_nth)
  then show ?thesis using assms(2) uv unfolding represents_def m_def [symmetric] by (meson congq_add congq_trans)
qed

definition matrix_stream :: "validation_crate \<Rightarrow> bytes \<Rightarrow> nat \<Rightarrow> nat \<Rightarrow> nat \<Rightarrow> byte" where
  "matrix_stream params rho row column = vp_shake128 params [rho, [word_of_nat column, word_of_nat row]]"

definition matrix_hat :: "validation_crate \<Rightarrow> bytes \<Rightarrow> nat \<Rightarrow> nat \<Rightarrow> u32 list" where
  "matrix_hat params rho row column = sampled (matrix_stream params rho row column) 0 256"

lemma matrix_hat_reduced: "productive (matrix_stream params rho row column) \<Longrightarrow> reduced (matrix_hat params rho row column)"
  using sampled_reduced by (simp add: matrix_hat_def reduced_def)

lemma row_product_eq:
  assumes "field_ok (vp_field params)" "\<And>column. productive (matrix_stream params rho row column)"
    "length coefficients = 256" "\<forall>s \<in> set s1_hat. reduced s"
  shows "\<exists>product. row_product params rho row s1_hat coefficients = Some product
    \<and> represents product (\<lambda>p. \<Sum>c < length s1_hat. el (matrix_hat params rho row c ! p) * el (s1_hat ! c ! p))"
  using assms(4)
proof (induction s1_hat rule: rev_induct)
  case Nil
  have "represents (replicate 256 0) (\<lambda>p. 0)" by (simp add: represents_def reduced_def el_def)
  then show ?case by (simp add: row_product_def assms(3))
next
  case (snoc s ss)
  let ?n = "length ss"
  obtain product where IH: "row_product params rho row ss coefficients = Some product"
    "represents product (\<lambda>p. \<Sum>c < ?n. el (matrix_hat params rho row c ! p) * el (ss ! c ! p))" using snoc by auto
  have s: "reduced s" "length s = 256" "length product = 256" using snoc.prems IH(2) by (auto simp: represents_def reduced_def)
  have "row_product params rho row (ss @ [s]) coefficients
      = accumulate_column (vp_field params) (matrix_stream params rho row ?n) 0 product s"
    using IH(1) by (simp add: row_product_def enumerate_append_eq matrix_stream_def)
  also have "\<dots> = Some (map2 (el_add (vp_field params)) product (map2 (el_mul (vp_field params)) (matrix_hat params rho row ?n) s))"
    using s by (simp add: accumulate_column_eq [OF assms(2)] matrix_hat_def)
  finally have "row_product params rho row (ss @ [s]) coefficients = \<dots>" .
  moreover have "represents (map2 (el_add (vp_field params)) product (map2 (el_mul (vp_field params)) (matrix_hat params rho row ?n) s))
      (\<lambda>p. (\<Sum>c < ?n. el (matrix_hat params rho row c ! p) * el (ss ! c ! p)) + el (matrix_hat params rho row ?n ! p) * el (s ! p))"
    using assms(2) by (intro represents_add_product [OF assms(1) IH(2) _ s(1)] matrix_hat_reduced)
  moreover have "(\<Sum>c < ?n. el (matrix_hat params rho row c ! p) * el (ss ! c ! p)) + el (matrix_hat params rho row ?n ! p) * el (s ! p)
      = (\<Sum>c < length (ss @ [s]). el (matrix_hat params rho row c ! p) * el ((ss @ [s]) ! c ! p))" for p
    by (simp add: nth_append)
  ultimately show ?case by auto
qed

text \<open>An entry of the matrix as a polynomial, and the vector \<open>A * s1\<close> in the ring.\<close>

definition matrix_poly :: "validation_crate \<Rightarrow> bytes \<Rightarrow> nat \<Rightarrow> nat \<Rightarrow> nat \<Rightarrow> int" where
  "matrix_poly params rho row column k = el (ntt (vp_field params) (matrix_hat params rho row column) True ! k)"

definition ring_row :: "validation_crate \<Rightarrow> bytes \<Rightarrow> u32 list list \<Rightarrow> nat \<Rightarrow> nat \<Rightarrow> int" where
  "ring_row params rho s1 row n = (\<Sum>c < length s1. negacyclic (matrix_poly params rho row c) (\<lambda>k. el (s1 ! c ! k)) n)"

lemma ntt_reduced: "field_ok crate \<Longrightarrow> reduced vals \<Longrightarrow> reduced (ntt crate vals backward)"
  using ntt_represents [OF _ represents_self] by (fastforce simp: represents_def)

lemma inverse_row:
  assumes "field_ok (vp_field params)" "\<And>column. productive (matrix_stream params rho row column)" "\<forall>s \<in> set s1. reduced s"
    "represents product (\<lambda>p. \<Sum>c < length s1. el (matrix_hat params rho row c ! p) * el (ntt (vp_field params) (s1 ! c) False ! p))"
  shows "represents (ntt (vp_field params) product True) (ring_row params rho s1 row)"
proof -
  let ?f = "vp_field params" and ?r = "ring_row params rho s1 row"
  let ?w = "map (\<lambda>n. word_of_int (?r n mod 8380417)) [0..<256] :: u32 list"
  have w: "reduced ?w" "represents ?w ?r" using reduced_values [of ?r] by blast+
  have entry: "congq (el (matrix_hat params rho row c ! p) * el (ntt ?f (s1 ! c) False ! p))
      (poly_at (negacyclic (matrix_poly params rho row c) (\<lambda>k. el (s1 ! c ! k))) (ntt_point p))" if "p < 256" "c < length s1" for c p
  proof -
    have m: "reduced (matrix_hat params rho row c)" using assms(2) by (rule matrix_hat_reduced)
    have "represents (matrix_hat params rho row c) (\<lambda>j. poly_at (matrix_poly params rho row c) (ntt_point j))"
      using ntt_eval [OF assms(1) ntt_reduced [OF assms(1) m, of True]] ntt_undo [OF assms(1) m, of True]
      by (simp add: matrix_poly_def [abs_def])
    then have "congq (el (matrix_hat params rho row c ! p) * el (ntt ?f (s1 ! c) False ! p))
        (poly_at (matrix_poly params rho row c) (ntt_point p) * poly_at (\<lambda>k. el (s1 ! c ! k)) (ntt_point p))"
      using ntt_eval [OF assms(1), of "s1 ! c"] assms(3) that by (intro congq_mult) (auto simp: represents_def)
    also have "congq \<dots> (poly_at (negacyclic (matrix_poly params rho row c) (\<lambda>k. el (s1 ! c ! k))) (ntt_point p))"
      by (rule congq_sym [OF negacyclic_at [OF point_power]])
    finally show ?thesis .
  qed
  have "ntt ?f ?w False = product"
  proof (rule represents_unique [OF ntt_eval [OF assms(1) w(1)] assms(4)])
    fix p :: nat assume p: "p < 256"
    have "congq (poly_at (\<lambda>k. el (?w ! k)) (ntt_point p)) (poly_at ?r (ntt_point p))"
      using w(2) unfolding poly_at_def by (intro congq_sum congq_mult congq_refl) (simp only: represents_def lessThan_iff)
    also have "poly_at ?r (ntt_point p)
        = (\<Sum>c < length s1. poly_at (negacyclic (matrix_poly params rho row c) (\<lambda>k. el (s1 ! c ! k))) (ntt_point p))"
      unfolding poly_at_def ring_row_def sum_distrib_right by (rule sum.swap)
    also have "congq \<dots> (\<Sum>c < length s1. el (matrix_hat params rho row c ! p) * el (ntt ?f (s1 ! c) False ! p))"
      using entry p by (intro congq_sum congq_sym [OF entry]) auto
    finally show "congq (poly_at (\<lambda>k. el (?w ! k)) (ntt_point p))
        (\<Sum>c < length s1. el (matrix_hat params rho row c ! p) * el (ntt ?f (s1 ! c) False ! p))" .
  qed
  then show ?thesis using ntt_undo [OF assms(1) w(1), of False] w(2) by simp
qed


section \<open>The check\<close>

definition low_part :: "int \<Rightarrow> int" where
  "low_part x = x - (x + 4095) div 8192 * 8192"

lemma low_part_range: "- 4096 < low_part x \<and> low_part x \<le> 4096 \<and> 8192 dvd x - low_part x"
proof -
  have "(x + 4095) div 8192 * 8192 + (x + 4095) mod 8192 = x + 4095" by (rule div_mult_mod_eq)
  moreover have "0 \<le> (x + 4095) mod 8192" "(x + 4095) mod 8192 < 8192" by simp_all
  moreover have "x - low_part x = (x + 4095) div 8192 * 8192" by (simp add: low_part_def)
  ultimately show ?thesis unfolding low_part_def by (intro conjI) (linarith, linarith, simp)
qed

lemma power2_low_el:
  assumes "field_ok crate" "el a < 8380417" "el b < 8380417"
  shows "el (power2_low crate a b) = low_part ((el a + el b) mod 8380417) mod 8380417"
proof -
  define v where "v = el_add crate a b"
  let ?x = "unat v"
  have v: "el v = (el a + el b) mod 8380417" using assms by (simp add: field_ok_def v_def)
  then have x: "?x < 8380417" unfolding el_def by (metis of_nat_less_iff of_nat_numeral pos_mod_bound zero_less_numeral)
  have sum: "unat (v + 4095) = ?x + 4095" using x by (simp add: unat_word_ariths)
  let ?h = "(?x + 4095) div 8192"
  have h: "?h \<le> 1023" using x by (simp add: less_Suc_eq_le [symmetric] div_less_iff_less_mult)
  have "unat (push_bit 13 (drop_bit 13 (v + 4095))) = ?h * 8192"
  proof -
    have "unat (drop_bit 13 (v + 4095)) = ?h" by (simp only: unat_drop_bit sum) simp
    moreover have "take_bit LENGTH(32) (push_bit 13 ?h) = push_bit 13 ?h"
      using h by (intro take_bit_nat_eq_self) (simp add: push_bit_eq_mult)
    ultimately show ?thesis by (simp only: unsigned_push_bit_eq) (simp add: push_bit_eq_mult)
  qed
  then have high: "el (push_bit 13 (drop_bit 13 (v + 4095))) = int ?h * 8192" unfolding el_def by simp
  have "el v < 8380417" "el (push_bit 13 (drop_bit 13 (v + 4095))) < 8380417" using h v by (simp_all add: high)
  then have "el (power2_low crate a b) = (el v - int ?h * 8192) mod 8380417"
    using assms(1) unfolding power2_low_def Let_def v_def [symmetric] field_ok_def by (simp only: high)
  moreover have "el v - int ?h * 8192 = low_part (el v)" unfolding low_part_def el_def by (simp add: zdiv_int)
  ultimately show ?thesis by (simp only: v)
qed

text \<open>The vector \<open>t0\<close> that FIPS 204 key generation would encode.\<close>

definition expected_row :: "validation_crate \<Rightarrow> bytes \<Rightarrow> u32 list list \<Rightarrow> nat \<times> u32 list \<Rightarrow> u32 list" where
  "expected_row params rho s1 indexed =
     map (\<lambda>n. word_of_int (low_part ((el (snd indexed ! n) + ring_row params rho s1 (fst indexed) n) mod 8380417) mod 8380417)) [0..<256]"

lemma validate_row_eq:
  assumes "field_ok (vp_field params)" "\<And>column. productive (matrix_stream params rho row column)"
    "reduced coefficients" "\<forall>s \<in> set s1. reduced s"
  shows "validate_row params rho (map (\<lambda>s. ntt (vp_field params) s False) s1) (row, coefficients)
       = Some (expected_row params rho s1 (row, coefficients))"
proof -
  let ?f = "vp_field params" and ?s = "map (\<lambda>s. ntt (vp_field params) s False) s1"
  have "\<forall>s \<in> set ?s. reduced s" using assms(1,4) by (auto intro: ntt_reduced)
  moreover have "length coefficients = 256" using assms(3) by (simp add: reduced_def)
  ultimately obtain product where product: "row_product params rho row ?s coefficients = Some product"
    "represents product (\<lambda>p. \<Sum>c < length ?s. el (matrix_hat params rho row c ! p) * el (?s ! c ! p))"
    using row_product_eq [OF assms(1,2)] by blast
  have "represents product (\<lambda>p. \<Sum>c < length s1. el (matrix_hat params rho row c ! p) * el (ntt ?f (s1 ! c) False ! p))"
    using product(2) by simp
  note inv = inverse_row [OF assms(1,2,4) this]
  define t where "t = ntt ?f product True"
  have t: "length t = 256" "\<And>p. p < 256 \<Longrightarrow> el (t ! p) < 8380417" "\<And>p. p < 256 \<Longrightarrow> congq (el (t ! p)) (ring_row params rho s1 row p)"
    using inv unfolding t_def [symmetric] by (auto simp: represents_def reduced_nth reduced_def)
  have c: "length coefficients = 256" "\<And>p. p < 256 \<Longrightarrow> el (coefficients ! p) < 8380417" using assms(3) by (auto simp: reduced_nth reduced_def)
  have "map2 (power2_low ?f) coefficients t = expected_row params rho s1 (row, coefficients)"
  proof (rule nth_equalityI)
    fix n assume "n < length (map2 (power2_low ?f) coefficients t)"
    then have n: "n < 256" using c t by simp
    have "(el (coefficients ! n) + el (t ! n)) mod 8380417 = (el (coefficients ! n) + ring_row params rho s1 row n) mod 8380417"
      using t(3) [OF n] unfolding congq_def by (intro mod_add_cong refl)
    then have "el (power2_low ?f (coefficients ! n) (t ! n)) = el (expected_row params rho s1 (row, coefficients) ! n)"
      using n power2_low_el [OF assms(1) c(2) [OF n] t(2) [OF n]] by (simp add: expected_row_def el_word_of_mod)
    then have "power2_low ?f (coefficients ! n) (t ! n) = expected_row params rho s1 (row, coefficients) ! n" by (simp only: el_inject)
    then show "map2 (power2_low ?f) coefficients t ! n = expected_row params rho s1 (row, coefficients) ! n"
      using n c(1) t(1) by simp
  qed (simp add: expected_row_def c t)
  then show ?thesis by (simp add: validate_row_def product(1) t_def)
qed

lemma validate_rows_eq:
  assumes "field_ok (vp_field params)" "\<And>row column. productive (matrix_stream params rho row column)"
    "\<forall>s \<in> set s1. reduced s" "\<forall>r \<in> set rows. reduced (snd r)"
  shows "validate_rows params rho (map (\<lambda>s. ntt (vp_field params) s False) s1) rows = Some (map (expected_row params rho s1) rows)"
  using assms(4)
proof (induction rows)
  case (Cons r rows)
  then show ?case using validate_row_eq [OF assms(1,2) _ assms(3), where row = "fst r" and coefficients = "snd r"] by simp
qed simp

text \<open>
  C38: The check of an expanded ML-DSA key decides the relation of FIPS 204 key generation. For a parameter set with
  secrets of range 2 or 4, canonical field arithmetic, decoders into reduced polynomials and matrix streams on which sampling ends,
  \<open>validate\<close> returns, and accepts exactly when every packed coefficient of \<open>s1\<close> and
  \<open>s2\<close> is at most twice the range and \<open>t0\<close> encodes the centered low 13 bits of \<open>A * s1 + s2\<close>,
  computed in the polynomial ring modulo \<open>X\<^sup>2\<^sup>5\<^sup>6 + 1\<close> although the code multiplies transformed
  polynomials pointwise. Everything else is refused with \<open>InvalidExpandedPrivateKey\<close>.
\<close>

theorem expanded_key_check_exact:
  assumes "field_ok (vp_field params)" "vp_eta params \<in> {2, 4}" "vp_split_sk params encoded = (rho, K, tr, s1, s2, t0)"
    "\<forall>s \<in> set (vp_decode_s1 params s1) \<union> set (vp_decode_s2 params s2). reduced s"
    "\<And>row column. productive (matrix_stream params rho row column)"
  shows "ml_dsa_validate params encoded =
      Some (if secrets_in_range (vp_eta params) s1 \<and> secrets_in_range (vp_eta params) s2
              \<and> vp_encode_t0 params (map (expected_row params rho (vp_decode_s1 params s1)) (enumerate 0 (vp_decode_s2 params s2))) = t0
            then Inr () else Inl (Err Dsa_InvalidExpandedPrivateKey))
    \<and> (\<forall>x. - 4096 < low_part x \<and> low_part x \<le> 4096 \<and> 8192 dvd x - low_part x)"
proof -
  have rows: "validate_rows params rho (map (\<lambda>s. ntt (vp_field params) s False) (vp_decode_s1 params s1)) (enumerate 0 (vp_decode_s2 params s2))
      = Some (map (expected_row params rho (vp_decode_s1 params s1)) (enumerate 0 (vp_decode_s2 params s2)))"
    using assms(4) by (intro validate_rows_eq [OF assms(1,5)]) (auto simp: in_set_enumerate_eq)
  show ?thesis
    using rows low_part_range by (auto simp: ml_dsa_validate_def assms(3) valid_small_exact [OF assms(2)] split: bool.splits)
qed

text \<open>A stand-in parameter set: one row and one column of zero secrets, and a constant stream.\<close>

definition sample_params :: validation_crate where
  "sample_params = \<lparr> vp_split_sk = (\<lambda>encoded. ([], [], [], encoded, [0], [7])), vp_eta = 2,
     vp_decode_s1 = (\<lambda>_. [replicate 256 0]), vp_decode_s2 = (\<lambda>_. [replicate 256 0]), vp_encode_t0 = (\<lambda>_. [7]),
     vp_field = sample_field, vp_shake128 = (\<lambda>_ _. 0) \<rparr>"

theorem expanded_key_check_exact_witness:
  "ml_dsa_validate sample_params [0] = Some (Inr ()) \<and> ml_dsa_validate sample_params [0xff] = Some (Inl (Err Dsa_InvalidExpandedPrivateKey))"
proof -
  have sv: "sample_value (\<lambda>_. 0) pos < Q" for pos by (simp add: sample_value_def Q_def)
  have "productive (matrix_stream sample_params rho row column)" for rho row column
    using sv by (simp add: productive_def matrix_stream_def sample_params_def)
  moreover have "\<forall>s \<in> set (vp_decode_s1 sample_params s1) \<union> set (vp_decode_s2 sample_params s2). reduced s" for s1 s2
    by (auto simp: sample_params_def reduced_def el_def)
  moreover have "field_ok (vp_field sample_params)" "vp_eta sample_params \<in> {2, 4}"
    "vp_split_sk sample_params encoded = ([], [], [], encoded, [0], [7])" for encoded
    using sample_field_ok by (simp_all add: sample_params_def)
  ultimately have check: "ml_dsa_validate sample_params encoded =
      Some (if secrets_in_range 2 encoded \<and> secrets_in_range 2 [0] then Inr () else Inl (Err Dsa_InvalidExpandedPrivateKey))" for encoded
    using expanded_key_check_exact [of sample_params encoded "[]" "[]" "[]" encoded "[0]" "[7]"] by (simp add: sample_params_def)
  have "packed_field 3 255 0 = 7" by (simp add: packed_field_def)
  then have "\<not> fields_ok 3 4 255 2" by (auto simp: fields_ok_def intro!: exI [of _ 0])
  then have "secrets_in_range 2 [0]" "\<not> secrets_in_range 2 [0xff]"
    by (auto simp: secrets_in_range_def secret_width_def fields_ok_def packed_field_def le_nat_def be_nat_def)
  then show ?thesis using check [of "[0]"] check [of "[0xff]"] by simp
qed

end
