(* ===== verification/Ml_Dsa.thy ===== *)
theory Ml_Dsa
  imports Ml_Dsa_Validation Digest_Kdf
begin

text \<open>
  \<^verbatim>\<open>src/src/post_quantum.rs\<close>, the ML-DSA half: parameter sets, private keys from a seed or from an
  expanded encoding (which passes through the check of \<open>Ml_Dsa_Validation\<close>), signing with its three ways of
  randomization, HashML-DSA prehashing, and verification. The crate \<open>ml_dsa\<close> is the record
  \<open>ml_dsa_crate\<close>, indexed by the parameter set; SHAKE and the random source are parameters too. An import whose
  matrix sampling does not end is \<open>None\<close>.
\<close>

section \<open>Parameter sets and keys\<close>

fun MlDsa_expanded_length :: "MlDsaParameterSet \<Rightarrow> nat" where
  "MlDsa_expanded_length MlDsa44 = 2560"
| "MlDsa_expanded_length MlDsa65 = 4032"
| "MlDsa_expanded_length MlDsa87 = 4896"

fun MlDsa_public_key_length :: "MlDsaParameterSet \<Rightarrow> nat" where
  "MlDsa_public_key_length MlDsa44 = 1312"
| "MlDsa_public_key_length MlDsa65 = 1952"
| "MlDsa_public_key_length MlDsa87 = 2592"

fun MlDsa_signature_length :: "MlDsaParameterSet \<Rightarrow> nat" where
  "MlDsa_signature_length MlDsa44 = 2420"
| "MlDsa_signature_length MlDsa65 = 3309"
| "MlDsa_signature_length MlDsa87 = 4627"

datatype MlDsaRandomization = Deterministic | Randomized | HedgePreferred

record ('k, 'x, 'v, 'g, 's) ml_dsa_crate =
  md_params :: "MlDsaParameterSet \<Rightarrow> validation_crate"
  md_sk_size :: "MlDsaParameterSet \<Rightarrow> nat"
  md_vk_size :: "MlDsaParameterSet \<Rightarrow> nat"
  md_from_seed :: "MlDsaParameterSet \<Rightarrow> bytes \<Rightarrow> 'k"
  md_as_seed :: "MlDsaParameterSet \<Rightarrow> 'k \<Rightarrow> bytes"
  md_expanded_key :: "MlDsaParameterSet \<Rightarrow> 'k \<Rightarrow> 'x"
  md_seeded_public :: "MlDsaParameterSet \<Rightarrow> 'k \<Rightarrow> 'v"
  md_from_expanded :: "MlDsaParameterSet \<Rightarrow> bytes \<Rightarrow> 'x"
  md_to_expanded :: "MlDsaParameterSet \<Rightarrow> 'x \<Rightarrow> bytes"
  md_verifying_key :: "MlDsaParameterSet \<Rightarrow> 'x \<Rightarrow> 'v"
  md_encode_vk :: "MlDsaParameterSet \<Rightarrow> 'v \<Rightarrow> bytes"
  md_decode_vk :: "MlDsaParameterSet \<Rightarrow> bytes \<Rightarrow> 'v"
  md_encode_signature :: "MlDsaParameterSet \<Rightarrow> 'g \<Rightarrow> bytes"
  md_decode_signature :: "MlDsaParameterSet \<Rightarrow> bytes \<Rightarrow> 'g option"
  md_sign_deterministic :: "MlDsaParameterSet \<Rightarrow> 'x \<Rightarrow> bytes \<Rightarrow> bytes \<Rightarrow> 'g option"
  md_sign_randomized :: "MlDsaParameterSet \<Rightarrow> 'x \<Rightarrow> bytes \<Rightarrow> bytes \<Rightarrow> ('s, unit, 'g) op"
  md_sign_internal :: "MlDsaParameterSet \<Rightarrow> 'x \<Rightarrow> bytes list \<Rightarrow> bytes \<Rightarrow> 'g"
  md_verify :: "MlDsaParameterSet \<Rightarrow> 'v \<Rightarrow> bytes \<Rightarrow> 'g \<Rightarrow> bool"
  md_verify_with_context :: "MlDsaParameterSet \<Rightarrow> 'v \<Rightarrow> bytes \<Rightarrow> bytes \<Rightarrow> 'g \<Rightarrow> bool"
  md_verify_internal :: "MlDsaParameterSet \<Rightarrow> 'v \<Rightarrow> bytes \<Rightarrow> 'g \<Rightarrow> bool"
  md_shake256 :: "bytes \<Rightarrow> nat \<Rightarrow> bytes"

datatype ('k, 'x, 'v) MlDsaKeyMaterial = Seeded 'k | Expanded 'x 'v

definition MlDsaKey_from_seed :: "('k, 'x, 'v, 'g, 's) ml_dsa_crate \<Rightarrow> MlDsaParameterSet \<Rightarrow> bytes \<Rightarrow> ('k, 'x, 'v) MlDsaKeyMaterial" where
  "MlDsaKey_from_seed crate ps seed = Seeded (md_from_seed crate ps seed)"

text \<open>Runs that may not return, or return an error or a panic.\<close>

type_synonym 'a dsa_run = "(MlDsaError fault + 'a) option"

definition bindP :: "'a dsa_run \<Rightarrow> ('a \<Rightarrow> 'b dsa_run) \<Rightarrow> 'b dsa_run" where
  "bindP m f = (case m of None \<Rightarrow> None | Some (Inl e) \<Rightarrow> Some (Inl e) | Some (Inr x) \<Rightarrow> f x)"

definition liftP :: "MlDsaError + 'a \<Rightarrow> 'a dsa_run" where
  "liftP r = Some (map_errR Err r)"

definition decode_expanded_ml_dsa :: "('k, 'x, 'v, 'g, 's) ml_dsa_crate \<Rightarrow> MlDsaParameterSet \<Rightarrow> bytes \<Rightarrow> 'x dsa_run" where
  "decode_expanded_ml_dsa crate ps encoded =
     bindP (liftP (rejectR (length encoded \<noteq> md_sk_size crate ps) Dsa_InvalidExpandedPrivateKey)) (\<lambda>_.
     bindP (ml_dsa_validate (md_params crate ps) encoded) (\<lambda>_.
     Some (Inr (md_from_expanded crate ps encoded))))"

definition pairwise_message :: bytes where
  "pairwise_message = map (\<lambda>c. word_of_nat (of_char c)) ''software-key-core ML-DSA expanded-import pairwise test''"

definition MlDsaKey_from_expanded ::
  "('k, 'x, 'v, 'g, 's) ml_dsa_crate \<Rightarrow> MlDsaParameterSet \<Rightarrow> bytes \<Rightarrow> ('k, 'x, 'v) MlDsaKeyMaterial dsa_run" where
  "MlDsaKey_from_expanded crate ps encoded =
     bindP (decode_expanded_ml_dsa crate ps encoded) (\<lambda>key.
     let public = md_verifying_key crate ps key;
         expected_tr = md_shake256 crate (md_encode_vk crate ps public) 64 in
     liftP (
       bindR (rejectR (expected_tr \<noteq> slice_range 64 128 encoded) Dsa_InvalidExpandedPrivateKey) (\<lambda>_.
       bindR (ok_orR Dsa_InvalidExpandedPrivateKey (md_sign_deterministic crate ps key pairwise_message [])) (\<lambda>signature.
       bindR (rejectR (\<not> md_verify crate ps public pairwise_message signature) Dsa_InvalidExpandedPrivateKey) (\<lambda>_.
       Inr (Expanded key public))))))"

fun MlDsaKey_expanded_key :: "('k, 'x, 'v, 'g, 's) ml_dsa_crate \<Rightarrow> MlDsaParameterSet \<Rightarrow> ('k, 'x, 'v) MlDsaKeyMaterial \<Rightarrow> 'x" where
  "MlDsaKey_expanded_key crate ps (Seeded key) = md_expanded_key crate ps key"
| "MlDsaKey_expanded_key crate ps (Expanded key public) = key"

fun MlDsaKey_public_key :: "('k, 'x, 'v, 'g, 's) ml_dsa_crate \<Rightarrow> MlDsaParameterSet \<Rightarrow> ('k, 'x, 'v) MlDsaKeyMaterial \<Rightarrow> bytes" where
  "MlDsaKey_public_key crate ps (Seeded key) = md_encode_vk crate ps (md_seeded_public crate ps key)"
| "MlDsaKey_public_key crate ps (Expanded key public) = md_encode_vk crate ps public"

fun MlDsaKey_seed :: "('k, 'x, 'v, 'g, 's) ml_dsa_crate \<Rightarrow> MlDsaParameterSet \<Rightarrow> ('k, 'x, 'v) MlDsaKeyMaterial \<Rightarrow> bytes option" where
  "MlDsaKey_seed crate ps (Seeded key) = Some (md_as_seed crate ps key)"
| "MlDsaKey_seed crate ps (Expanded key public) = None"

datatype ('k, 'x, 'v) MlDsaPrivateKey =
    Key_MlDsa44 "('k, 'x, 'v) MlDsaKeyMaterial"
  | Key_MlDsa65 "('k, 'x, 'v) MlDsaKeyMaterial"
  | Key_MlDsa87 "('k, 'x, 'v) MlDsaKeyMaterial"

fun MlDsa_parameter_set :: "('k, 'x, 'v) MlDsaPrivateKey \<Rightarrow> MlDsaParameterSet" where
  "MlDsa_parameter_set (Key_MlDsa44 key) = MlDsa44"
| "MlDsa_parameter_set (Key_MlDsa65 key) = MlDsa65"
| "MlDsa_parameter_set (Key_MlDsa87 key) = MlDsa87"

fun MlDsa_seed :: "('k, 'x, 'v, 'g, 's) ml_dsa_crate \<Rightarrow> ('k, 'x, 'v) MlDsaPrivateKey \<Rightarrow> bytes option" where
  "MlDsa_seed crate (Key_MlDsa44 key) = MlDsaKey_seed crate MlDsa44 key"
| "MlDsa_seed crate (Key_MlDsa65 key) = MlDsaKey_seed crate MlDsa65 key"
| "MlDsa_seed crate (Key_MlDsa87 key) = MlDsaKey_seed crate MlDsa87 key"

fun MlDsa_expanded_private_key :: "('k, 'x, 'v, 'g, 's) ml_dsa_crate \<Rightarrow> ('k, 'x, 'v) MlDsaPrivateKey \<Rightarrow> bytes" where
  "MlDsa_expanded_private_key crate (Key_MlDsa44 key) = md_to_expanded crate MlDsa44 (MlDsaKey_expanded_key crate MlDsa44 key)"
| "MlDsa_expanded_private_key crate (Key_MlDsa65 key) = md_to_expanded crate MlDsa65 (MlDsaKey_expanded_key crate MlDsa65 key)"
| "MlDsa_expanded_private_key crate (Key_MlDsa87 key) = md_to_expanded crate MlDsa87 (MlDsaKey_expanded_key crate MlDsa87 key)"

fun MlDsa_public_key :: "('k, 'x, 'v, 'g, 's) ml_dsa_crate \<Rightarrow> ('k, 'x, 'v) MlDsaPrivateKey \<Rightarrow> bytes" where
  "MlDsa_public_key crate (Key_MlDsa44 key) = MlDsaKey_public_key crate MlDsa44 key"
| "MlDsa_public_key crate (Key_MlDsa65 key) = MlDsaKey_public_key crate MlDsa65 key"
| "MlDsa_public_key crate (Key_MlDsa87 key) = MlDsaKey_public_key crate MlDsa87 key"

definition MlDsa_from_seed_slice ::
  "('k, 'x, 'v, 'g, 's) ml_dsa_crate \<Rightarrow> MlDsaParameterSet \<Rightarrow> bytes \<Rightarrow> MlDsaError + ('k, 'x, 'v) MlDsaPrivateKey" where
  "MlDsa_from_seed_slice crate ps seed =
     bindR (rejectR (length seed \<noteq> 32) Dsa_InvalidSeedLength) (\<lambda>_.
     Inr (case ps of
         MlDsa44 \<Rightarrow> Key_MlDsa44 (MlDsaKey_from_seed crate MlDsa44 seed)
       | MlDsa65 \<Rightarrow> Key_MlDsa65 (MlDsaKey_from_seed crate MlDsa65 seed)
       | MlDsa87 \<Rightarrow> Key_MlDsa87 (MlDsaKey_from_seed crate MlDsa87 seed)))"

definition MlDsa_from_seed ::
  "('k, 'x, 'v, 'g, 's) ml_dsa_crate \<Rightarrow> MlDsaParameterSet \<Rightarrow> bytes \<Rightarrow> 'e fault + ('k, 'x, 'v) MlDsaPrivateKey" where
  "MlDsa_from_seed crate ps seed = map_errR (\<lambda>_. Panic) (MlDsa_from_seed_slice crate ps seed)"

definition MlDsa_generate ::
  "('k, 'x, 'v, 'g, 's) ml_dsa_crate \<Rightarrow> (nat \<Rightarrow> ('s, 'r, bytes) op) \<Rightarrow> MlDsaParameterSet
     \<Rightarrow> ('s, MlDsaError, ('k, 'x, 'v) MlDsaPrivateKey) op" where
  "MlDsa_generate crate fill ps =
     bindE (map_errE (\<lambda>_. Dsa_RandomnessUnavailable) (fill 32)) (\<lambda>seed. liftE (MlDsa_from_seed_slice crate ps seed))"

definition MlDsa_from_seed_and_expanded ::
  "('k, 'x, 'v, 'g, 's) ml_dsa_crate \<Rightarrow> MlDsaParameterSet \<Rightarrow> bytes \<Rightarrow> bytes \<Rightarrow> MlDsaError + ('k, 'x, 'v) MlDsaPrivateKey" where
  "MlDsa_from_seed_and_expanded crate ps seed expanded =
     bindR (MlDsa_from_seed_slice crate ps seed) (\<lambda>key.
     bindR (rejectR (MlDsa_expanded_private_key crate key \<noteq> expanded) Dsa_InvalidExpandedPrivateKey) (\<lambda>_. Inr key))"

fun MlDsa_from_expanded ::
  "('k, 'x, 'v, 'g, 's) ml_dsa_crate \<Rightarrow> MlDsaParameterSet \<Rightarrow> bytes \<Rightarrow> ('k, 'x, 'v) MlDsaPrivateKey dsa_run" where
  "MlDsa_from_expanded crate MlDsa44 encoded = bindP (MlDsaKey_from_expanded crate MlDsa44 encoded) (\<lambda>key. Some (Inr (Key_MlDsa44 key)))"
| "MlDsa_from_expanded crate MlDsa65 encoded = bindP (MlDsaKey_from_expanded crate MlDsa65 encoded) (\<lambda>key. Some (Inr (Key_MlDsa65 key)))"
| "MlDsa_from_expanded crate MlDsa87 encoded = bindP (MlDsaKey_from_expanded crate MlDsa87 encoded) (\<lambda>key. Some (Inr (Key_MlDsa87 key)))"

fun MlDsa_from_components ::
  "('k, 'x, 'v, 'g, 's) ml_dsa_crate \<Rightarrow> MlDsaParameterSet \<Rightarrow> bytes option \<Rightarrow> bytes option \<Rightarrow> ('k, 'x, 'v) MlDsaPrivateKey dsa_run" where
  "MlDsa_from_components crate ps (Some seed) (Some expanded) = liftP (MlDsa_from_seed_and_expanded crate ps seed expanded)"
| "MlDsa_from_components crate ps (Some seed) None = liftP (MlDsa_from_seed_slice crate ps seed)"
| "MlDsa_from_components crate ps None (Some expanded) = MlDsa_from_expanded crate ps expanded"
| "MlDsa_from_components crate ps None None = Some (Inl (Err Dsa_InvalidPrivateKey))"

definition MlDsa_from_serialized ::
  "('k, 'x, 'v, 'g, 's) ml_dsa_crate \<Rightarrow> MlDsaParameterSet \<Rightarrow> bytes \<Rightarrow> ('k, 'x, 'v) MlDsaPrivateKey dsa_run" where
  "MlDsa_from_serialized crate ps encoded =
     (if length encoded = 32 then MlDsa_from_components crate ps (Some encoded) None
      else if length encoded = 32 + MlDsa_expanded_length ps then
        MlDsa_from_components crate ps (Some (take 32 encoded)) (Some (drop 32 encoded))
      else MlDsa_from_components crate ps None (Some encoded))"

definition MlDsa_serialized :: "('k, 'x, 'v, 'g, 's) ml_dsa_crate \<Rightarrow> ('k, 'x, 'v) MlDsaPrivateKey \<Rightarrow> bytes" where
  "MlDsa_serialized crate self =
     (case MlDsa_seed crate self of Some seed \<Rightarrow> seed | None \<Rightarrow> MlDsa_expanded_private_key crate self)"


section \<open>Prehashing\<close>

datatype MlDsaPrehash = MlDsaPrehash byte

definition MlDsaPrehash_from_id :: "byte \<Rightarrow> MlDsaPrehash option" where
  "MlDsaPrehash_from_id i = (if 1 \<le> i \<and> i \<le> 4 \<or> 7 \<le> i \<and> i \<le> 12 then Some (MlDsaPrehash i) else None)"

fun MlDsaPrehash_id :: "MlDsaPrehash \<Rightarrow> byte" where
  "MlDsaPrehash_id (MlDsaPrehash i) = i"

definition MlDsaPrehash_digest_length :: "MlDsaPrehash \<Rightarrow> nat" where
  "MlDsaPrehash_digest_length self =
     (let i = MlDsaPrehash_id self in
      if i = 4 \<or> i = 7 then 28 else if i = 1 \<or> i = 8 \<or> i = 11 then 32 else if i = 2 \<or> i = 9 then 48 else 64)"

text \<open>SHAKE states of the crate \<open>sha3\<close>.\<close>

record 'z shake_crate =
  sk_new :: 'z
  sk_update :: "'z \<Rightarrow> bytes \<Rightarrow> 'z"
  sk_read :: "'z \<Rightarrow> nat \<Rightarrow> bytes"

datatype ('h, 'z) MlDsaPrehashState = Pre_Hash "'h HashContext" | Pre_Shake128 'z | Pre_Shake256 'z

record ('h, 'z) MlDsaPrehashContext =
  pc_hash :: MlDsaPrehash
  pc_state :: "('h, 'z) MlDsaPrehashState"

record ('h, 'q, 'z) prehash_crates =
  ph_hashes :: "('h, 'q) hash_crates"
  ph_shake128 :: "'z shake_crate"
  ph_shake256 :: "'z shake_crate"

definition prehash_algorithm :: "byte \<Rightarrow> HashAlgorithm" where
  "prehash_algorithm i =
     (if i = 1 then Sha256 else if i = 2 then Sha384 else if i = 3 then Sha512 else if i = 4 then Sha224
      else if i = 7 then Sha3_224 else if i = 8 then Sha3_256 else if i = 9 then Sha3_384 else Sha3_512)"

definition MlDsaPrehash_context :: "('h, 'q, 'z) prehash_crates \<Rightarrow> MlDsaPrehash \<Rightarrow> ('h, 'z) MlDsaPrehashContext" where
  "MlDsaPrehash_context crates self =
     (let i = MlDsaPrehash_id self;
          state = (if i = 11 then Pre_Shake128 (sk_new (ph_shake128 crates))
                   else if i = 12 then Pre_Shake256 (sk_new (ph_shake256 crates))
                   else Pre_Hash (HashContext_new (ph_hashes crates) (prehash_algorithm i)))
      in \<lparr> pc_hash = self, pc_state = state \<rparr>)"

fun prehash_state_update :: "('h, 'q, 'z) prehash_crates \<Rightarrow> ('h, 'z) MlDsaPrehashState \<Rightarrow> bytes \<Rightarrow> ('h, 'z) MlDsaPrehashState" where
  "prehash_state_update crates (Pre_Hash hash) message = Pre_Hash (HashContext_update (ph_hashes crates) hash message)"
| "prehash_state_update crates (Pre_Shake128 hash) message = Pre_Shake128 (sk_update (ph_shake128 crates) hash message)"
| "prehash_state_update crates (Pre_Shake256 hash) message = Pre_Shake256 (sk_update (ph_shake256 crates) hash message)"

definition MlDsaPrehashContext_update ::
  "('h, 'q, 'z) prehash_crates \<Rightarrow> ('h, 'z) MlDsaPrehashContext \<Rightarrow> bytes \<Rightarrow> ('h, 'z) MlDsaPrehashContext" where
  "MlDsaPrehashContext_update crates self message = self\<lparr> pc_state := prehash_state_update crates (pc_state self) message \<rparr>"

definition MlDsaPrehashContext_finalize :: "('h, 'q, 'z) prehash_crates \<Rightarrow> ('h, 'z) MlDsaPrehashContext \<Rightarrow> bytes" where
  "MlDsaPrehashContext_finalize crates self =
     (case pc_state self of
        Pre_Hash hash \<Rightarrow> HashContext_finalize (ph_hashes crates) hash
      | Pre_Shake128 hash \<Rightarrow> sk_read (ph_shake128 crates) hash (MlDsaPrehash_digest_length (pc_hash self))
      | Pre_Shake256 hash \<Rightarrow> sk_read (ph_shake256 crates) hash (MlDsaPrehash_digest_length (pc_hash self)))"

definition MlDsaPrehash_digest :: "('h, 'q, 'z) prehash_crates \<Rightarrow> MlDsaPrehash \<Rightarrow> bytes \<Rightarrow> bytes" where
  "MlDsaPrehash_digest crates self message =
     MlDsaPrehashContext_finalize crates (MlDsaPrehashContext_update crates (MlDsaPrehash_context crates self) message)"

definition MlDsaPrehash_encode :: "MlDsaPrehash \<Rightarrow> bytes \<Rightarrow> bytes \<Rightarrow> MlDsaError + bytes" where
  "MlDsaPrehash_encode self dig context =
     bindR (rejectR (length context > 255) Dsa_InvalidContext) (\<lambda>_.
     bindR (rejectR (length dig \<noteq> MlDsaPrehash_digest_length self) Dsa_InvalidSignature) (\<lambda>_.
     Inr ([1, word_of_nat (length context)] @ context
          @ [0x06, 0x09, 0x60, 0x86, 0x48, 0x01, 0x65, 0x03, 0x04, 0x02, MlDsaPrehash_id self] @ dig)))"


section \<open>Signing and verification\<close>

text \<open>\<open>Result::or_else\<close>.\<close>

definition or_elseE :: "('s, 'e, 'a) op \<Rightarrow> ('s, 'f, 'a) op \<Rightarrow> ('s, 'f, 'a) op" where
  "or_elseE m f = (\<lambda>s. case m s of (Inl e, s') \<Rightarrow> f s' | (Inr x, s') \<Rightarrow> (Inr x, s'))"

text \<open>The macro \<open>sign!\<close> of \<open>sign\<close> for one parameter set.\<close>

definition sign_with ::
  "('k, 'x, 'v, 'g, 's) ml_dsa_crate \<Rightarrow> MlDsaParameterSet \<Rightarrow> ('k, 'x, 'v) MlDsaKeyMaterial \<Rightarrow> bytes \<Rightarrow> bytes
     \<Rightarrow> MlDsaRandomization \<Rightarrow> ('s, MlDsaError, bytes) op" where
  "sign_with crate ps key message context randomization =
     (let expanded = MlDsaKey_expanded_key crate ps key in
      bindE (case randomization of
          Deterministic \<Rightarrow> ok_orE Dsa_SigningFailed (md_sign_deterministic crate ps expanded message context)
        | Randomized \<Rightarrow> map_errE (\<lambda>_. Dsa_RandomnessUnavailable) (md_sign_randomized crate ps expanded message context)
        | HedgePreferred \<Rightarrow> or_elseE (md_sign_randomized crate ps expanded message context)
            (ok_orE Dsa_SigningFailed (md_sign_deterministic crate ps expanded message context))) (\<lambda>signature.
      okE (md_encode_signature crate ps signature)))"

definition MlDsa_sign ::
  "('k, 'x, 'v, 'g, 's) ml_dsa_crate \<Rightarrow> ('k, 'x, 'v) MlDsaPrivateKey \<Rightarrow> bytes \<Rightarrow> bytes \<Rightarrow> MlDsaRandomization
     \<Rightarrow> ('s, MlDsaError, bytes) op" where
  "MlDsa_sign crate self message context randomization =
     bindE (rejectE (length context > 255) Dsa_InvalidContext) (\<lambda>_.
     case self of
       Key_MlDsa44 key \<Rightarrow> sign_with crate MlDsa44 key message context randomization
     | Key_MlDsa65 key \<Rightarrow> sign_with crate MlDsa65 key message context randomization
     | Key_MlDsa87 key \<Rightarrow> sign_with crate MlDsa87 key message context randomization)"

definition MlDsa_sign_hedged ::
  "('k, 'x, 'v, 'g, 's) ml_dsa_crate \<Rightarrow> ('k, 'x, 'v) MlDsaPrivateKey \<Rightarrow> bytes \<Rightarrow> bytes \<Rightarrow> ('s, MlDsaError, bytes) op" where
  "MlDsa_sign_hedged crate self message context = MlDsa_sign crate self message context HedgePreferred"

definition MlDsa_sign_deterministic ::
  "('k, 'x, 'v, 'g, 's) ml_dsa_crate \<Rightarrow> ('k, 'x, 'v) MlDsaPrivateKey \<Rightarrow> bytes \<Rightarrow> bytes \<Rightarrow> ('s, MlDsaError, bytes) op" where
  "MlDsa_sign_deterministic crate self message context = MlDsa_sign crate self message context Deterministic"

text \<open>The randomizer of \<open>sign_prehash\<close>: a failed random source leaves zeros, or is an error when randomness is required.\<close>

definition prehash_randomizer :: "(nat \<Rightarrow> ('s, 'r, bytes) op) \<Rightarrow> MlDsaRandomization \<Rightarrow> ('s, MlDsaError, bytes) op" where
  "prehash_randomizer fill randomization =
     (if randomization \<noteq> Deterministic then
        or_elseE (fill 32)
          (bindE (rejectE (randomization = Randomized) Dsa_RandomnessUnavailable) (\<lambda>_. okE (replicate 32 0)))
      else okE (replicate 32 0))"

definition MlDsa_sign_prehash ::
  "('k, 'x, 'v, 'g, 's) ml_dsa_crate \<Rightarrow> (nat \<Rightarrow> ('s, 'r, bytes) op) \<Rightarrow> ('k, 'x, 'v) MlDsaPrivateKey \<Rightarrow> bytes \<Rightarrow> bytes
     \<Rightarrow> MlDsaPrehash \<Rightarrow> MlDsaRandomization \<Rightarrow> ('s, MlDsaError, bytes) op" where
  "MlDsa_sign_prehash crate fill self dig context hash randomization =
     bindE (liftE (MlDsaPrehash_encode hash dig context)) (\<lambda>message.
     bindE (prehash_randomizer fill randomization) (\<lambda>rnd.
     okE (case self of
         Key_MlDsa44 key \<Rightarrow> md_encode_signature crate MlDsa44 (md_sign_internal crate MlDsa44 (MlDsaKey_expanded_key crate MlDsa44 key) [message] rnd)
       | Key_MlDsa65 key \<Rightarrow> md_encode_signature crate MlDsa65 (md_sign_internal crate MlDsa65 (MlDsaKey_expanded_key crate MlDsa65 key) [message] rnd)
       | Key_MlDsa87 key \<Rightarrow> md_encode_signature crate MlDsa87 (md_sign_internal crate MlDsa87 (MlDsaKey_expanded_key crate MlDsa87 key) [message] rnd))))"

definition verify_ml_dsa ::
  "('k, 'x, 'v, 'g, 's) ml_dsa_crate \<Rightarrow> MlDsaParameterSet \<Rightarrow> bytes \<Rightarrow> bytes \<Rightarrow> bytes \<Rightarrow> bytes \<Rightarrow> MlDsaError + unit" where
  "verify_ml_dsa crate ps public_key message context signature =
     bindR (rejectR (length context > 255) Dsa_InvalidContext) (\<lambda>_.
     bindR (rejectR (length public_key \<noteq> md_vk_size crate ps) Dsa_InvalidPublicKey) (\<lambda>_.
     let key = md_decode_vk crate ps public_key in
     bindR (ok_orR Dsa_InvalidSignature (md_decode_signature crate ps signature)) (\<lambda>signature.
     if md_verify_with_context crate ps key message context signature then Inr () else Inl Dsa_InvalidSignature)))"

definition verify_ml_dsa_prehash ::
  "('k, 'x, 'v, 'g, 's) ml_dsa_crate \<Rightarrow> MlDsaParameterSet \<Rightarrow> bytes \<Rightarrow> bytes \<Rightarrow> bytes \<Rightarrow> bytes \<Rightarrow> MlDsaPrehash \<Rightarrow> MlDsaError + unit" where
  "verify_ml_dsa_prehash crate ps public_key message context signature hash =
     bindR (rejectR (length context > 255) Dsa_InvalidContext) (\<lambda>_.
     bindR (MlDsaPrehash_encode hash message context) (\<lambda>message.
     bindR (rejectR (length public_key \<noteq> md_vk_size crate ps) Dsa_InvalidPublicKey) (\<lambda>_.
     let key = md_decode_vk crate ps public_key in
     bindR (ok_orR Dsa_InvalidSignature (md_decode_signature crate ps signature)) (\<lambda>signature.
     if md_verify_internal crate ps key message signature then Inr () else Inl Dsa_InvalidSignature))))"

definition validate_ml_dsa_public_key :: "MlDsaParameterSet \<Rightarrow> bytes \<Rightarrow> MlDsaError + unit" where
  "validate_ml_dsa_public_key ps public_key = rejectR (length public_key \<noteq> MlDsa_public_key_length ps) Dsa_InvalidPublicKey"


section \<open>Storage\<close>

text \<open>
  What the crate promises: sizes, keys that remember their seed, expanded keys that encode back to the checked
  encoding they were decoded from, exact encodings of public keys and signatures, and signatures that verify.
\<close>

definition ml_dsa_ok :: "('k, 'x, 'v, 'g, 's) ml_dsa_crate \<Rightarrow> bool" where
  "ml_dsa_ok crate \<longleftrightarrow> (\<forall>ps.
     md_sk_size crate ps = MlDsa_expanded_length ps \<and> md_vk_size crate ps = MlDsa_public_key_length ps
     \<and> (\<forall>seed. length seed = 32 \<longrightarrow> md_as_seed crate ps (md_from_seed crate ps seed) = seed)
     \<and> (\<forall>x. length (md_to_expanded crate ps x) = md_sk_size crate ps)
     \<and> (\<forall>b. length b = md_sk_size crate ps \<and> ml_dsa_validate (md_params crate ps) b = Some (Inr ())
           \<longrightarrow> md_to_expanded crate ps (md_from_expanded crate ps b) = b)
     \<and> (\<forall>k. md_seeded_public crate ps k = md_verifying_key crate ps (md_expanded_key crate ps k))
     \<and> (\<forall>v. length (md_encode_vk crate ps v) = md_vk_size crate ps \<and> md_decode_vk crate ps (md_encode_vk crate ps v) = v)
     \<and> (\<forall>g. md_decode_signature crate ps (md_encode_signature crate ps g) = Some g))"

lemma bindP_simps [simp]: "bindP None f = None" "bindP (Some (Inl e)) f = Some (Inl e)" "bindP (Some (Inr x)) f = f x"
  by (simp_all add: bindP_def)

lemma bindP_ok: "bindP m f = Some (Inr y) \<longleftrightarrow> (\<exists>x. m = Some (Inr x) \<and> f x = Some (Inr y))"
  by (auto simp: bindP_def split: option.splits sum.splits)

lemma liftP_ok: "liftP r = Some (Inr x) \<longleftrightarrow> r = Inr x"
  by (cases r) (simp_all add: liftP_def map_errR_def)

lemma liftP_Inr [simp]: "liftP (Inr x) = Some (Inr x)" "liftP (Inl e) = Some (Inl (Err e))"
  by (simp_all add: liftP_def map_errR_def)

definition wrap_key :: "MlDsaParameterSet \<Rightarrow> ('k, 'x, 'v) MlDsaKeyMaterial \<Rightarrow> ('k, 'x, 'v) MlDsaPrivateKey" where
  "wrap_key ps material = (case ps of MlDsa44 \<Rightarrow> Key_MlDsa44 material | MlDsa65 \<Rightarrow> Key_MlDsa65 material | MlDsa87 \<Rightarrow> Key_MlDsa87 material)"

lemma wrap_key_simps [simp]:
  "MlDsa_parameter_set (wrap_key ps material) = ps"
  "MlDsa_seed crate (wrap_key ps material) = MlDsaKey_seed crate ps material"
  "MlDsa_expanded_private_key crate (wrap_key ps material) = md_to_expanded crate ps (MlDsaKey_expanded_key crate ps material)"
  "MlDsa_public_key crate (wrap_key ps material) = MlDsaKey_public_key crate ps material"
  by (cases ps; simp add: wrap_key_def)+

lemma wrap_key_cases: obtains material where "key = wrap_key (MlDsa_parameter_set key) material"
  by (cases key) (auto simp: wrap_key_def)

lemma from_seed_slice_eq:
  "MlDsa_from_seed_slice crate ps seed =
     (if length seed = 32 then Inr (wrap_key ps (Seeded (md_from_seed crate ps seed))) else Inl Dsa_InvalidSeedLength)"
  by (cases ps) (simp_all add: MlDsa_from_seed_slice_def wrap_key_def MlDsaKey_from_seed_def)

lemma from_expanded_eq:
  "MlDsa_from_expanded crate ps encoded = bindP (MlDsaKey_from_expanded crate ps encoded) (\<lambda>material. Some (Inr (wrap_key ps material)))"
  by (cases ps) (simp_all add: wrap_key_def)

text \<open>An expanded encoding that import accepts, and the key it gives.\<close>

definition importable :: "('k, 'x, 'v, 'g, 's) ml_dsa_crate \<Rightarrow> MlDsaParameterSet \<Rightarrow> bytes \<Rightarrow> bool" where
  "importable crate ps encoded \<longleftrightarrow>
     (let key = md_from_expanded crate ps encoded; public = md_verifying_key crate ps key in
      length encoded = MlDsa_expanded_length ps
      \<and> ml_dsa_validate (md_params crate ps) encoded = Some (Inr ())
      \<and> slice_range 64 128 encoded = md_shake256 crate (md_encode_vk crate ps public) 64
      \<and> (\<exists>g. md_sign_deterministic crate ps key pairwise_message [] = Some g \<and> md_verify crate ps public pairwise_message g))"

definition imported_key :: "('k, 'x, 'v, 'g, 's) ml_dsa_crate \<Rightarrow> MlDsaParameterSet \<Rightarrow> bytes \<Rightarrow> ('k, 'x, 'v) MlDsaPrivateKey" where
  "imported_key crate ps encoded =
     (let key = md_from_expanded crate ps encoded in wrap_key ps (Expanded key (md_verifying_key crate ps key)))"

lemma from_expanded_ok:
  assumes "ml_dsa_ok crate"
  shows "MlDsa_from_expanded crate ps encoded = Some (Inr key) \<longleftrightarrow> importable crate ps encoded \<and> key = imported_key crate ps encoded"
proof -
  have "md_sk_size crate ps = MlDsa_expanded_length ps" using assms by (simp add: ml_dsa_ok_def)
  then show ?thesis
    by (auto simp: from_expanded_eq MlDsaKey_from_expanded_def decode_expanded_ml_dsa_def bindP_ok liftP_ok result_iffs Let_def
        importable_def imported_key_def)
qed

lemma stored_key_cases:
  assumes "ml_dsa_ok crate" "MlDsa_from_serialized crate ps encoded = Some (Inr key)"
  shows "(\<exists>seed. length seed = 32 \<and> key = wrap_key ps (Seeded (md_from_seed crate ps seed)))
    \<or> importable crate ps encoded \<and> key = imported_key crate ps encoded"
  using assms(2)
  by (auto simp: MlDsa_from_serialized_def from_expanded_ok [OF assms(1)] liftP_ok from_seed_slice_eq MlDsa_from_seed_and_expanded_def
      result_iffs split: if_splits dest!: spec [of _ "take 32 encoded"])

lemma imported_key_stored:
  assumes "ml_dsa_ok crate" "importable crate ps b"
  shows "MlDsa_seed crate (imported_key crate ps b) = None" "MlDsa_expanded_private_key crate (imported_key crate ps b) = b"
  using assms by (auto simp: imported_key_def importable_def Let_def ml_dsa_ok_def)

lemma expanded_length_large: "64 < MlDsa_expanded_length ps"
  by (cases ps) simp_all

lemma seeded_key_stored:
  assumes "ml_dsa_ok crate" "length seed = 32"
  shows "MlDsa_serialized crate (wrap_key ps (Seeded (md_from_seed crate ps seed))) = seed
    \<and> MlDsa_from_serialized crate ps seed = Some (Inr (wrap_key ps (Seeded (md_from_seed crate ps seed))))"
proof -
  have "md_as_seed crate ps (md_from_seed crate ps seed) = seed" using assms by (simp add: ml_dsa_ok_def)
  then show ?thesis by (simp add: MlDsa_serialized_def MlDsa_from_serialized_def from_seed_slice_eq assms(2))
qed

lemma expanded_key_stored:
  assumes "ml_dsa_ok crate" "importable crate ps encoded"
  shows "MlDsa_serialized crate (imported_key crate ps encoded) = encoded
    \<and> MlDsa_from_serialized crate ps encoded = Some (Inr (imported_key crate ps encoded))"
proof -
  have "length encoded \<noteq> 32" "length encoded \<noteq> 32 + MlDsa_expanded_length ps"
    using assms(2) expanded_length_large [of ps] by (auto simp: importable_def Let_def)
  then show ?thesis
    using assms from_expanded_ok [OF assms(1)] by (simp add: MlDsa_serialized_def imported_key_stored MlDsa_from_serialized_def)
qed

lemma stored_key_restored:
  assumes "ml_dsa_ok crate" "MlDsa_from_serialized crate ps encoded = Some (Inr key)"
  shows "MlDsa_parameter_set key = ps \<and> MlDsa_from_serialized crate ps (MlDsa_serialized crate key) = Some (Inr key)"
  using stored_key_cases [OF assms] seeded_key_stored [OF assms(1)] expanded_key_stored [OF assms(1)]
  by (auto simp: imported_key_def Let_def)

text \<open>
  C39: ML-DSA import and storage. A key made from a seed is stored as that seed. An expanded encoding is accepted exactly
  when it has the length of the parameter set, passes the FIPS 204 relation check, carries the hash of its own
  public key, and signs and verifies the pairwise test message; what is stored for it is the encoding itself. Every key
  that import returns, from any of the three raw forms, has the requested parameter set and is restored
  exactly from its stored form. A seed with another expanded key is refused.
\<close>

theorem ml_dsa_storage_exact:
  assumes "ml_dsa_ok crate"
  shows "(length seed = 32 \<longrightarrow> (\<exists>key. MlDsa_from_seed crate ps seed = (Inr key :: 'e fault + _) \<and> MlDsa_serialized crate key = seed))
    \<and> (length encoded \<noteq> 32 \<and> length encoded \<noteq> 32 + MlDsa_expanded_length ps \<longrightarrow>
        (MlDsa_from_serialized crate ps encoded = Some (Inr key) \<longleftrightarrow> importable crate ps encoded \<and> key = imported_key crate ps encoded)
        \<and> (MlDsa_from_serialized crate ps encoded = Some (Inr key) \<longrightarrow> MlDsa_serialized crate key = encoded))
    \<and> (MlDsa_from_serialized crate ps encoded = Some (Inr key) \<longrightarrow>
        MlDsa_parameter_set key = ps \<and> MlDsa_from_serialized crate ps (MlDsa_serialized crate key) = Some (Inr key))
    \<and> (length seed = 32 \<and> length expanded = MlDsa_expanded_length ps
        \<and> expanded \<noteq> md_to_expanded crate ps (md_expanded_key crate ps (md_from_seed crate ps seed))
        \<longrightarrow> MlDsa_from_serialized crate ps (seed @ expanded) = Some (Inl (Err Dsa_InvalidExpandedPrivateKey)))"
proof -
  have plain: "MlDsa_from_serialized crate ps b = MlDsa_from_expanded crate ps b"
    if "length b \<noteq> 32" "length b \<noteq> 32 + MlDsa_expanded_length ps" for b
    using that by (simp add: MlDsa_from_serialized_def)
  have stored: "importable crate ps b \<Longrightarrow> MlDsa_serialized crate (imported_key crate ps b) = b" for b
    using expanded_key_stored [OF assms] by blast
  have mismatch: "MlDsa_from_serialized crate ps (seed @ expanded) = Some (Inl (Err Dsa_InvalidExpandedPrivateKey))"
    if "length seed = 32" "length expanded = MlDsa_expanded_length ps"
      "expanded \<noteq> md_to_expanded crate ps (md_expanded_key crate ps (md_from_seed crate ps seed))"
    using that expanded_length_large [of ps]
    by (auto simp: MlDsa_from_serialized_def MlDsa_from_seed_and_expanded_def from_seed_slice_eq rejectR_def)
  show ?thesis using seeded_key_stored [OF assms] plain from_expanded_ok [OF assms] stored stored_key_restored [OF assms] mismatch
    by (auto simp: MlDsa_from_seed_def from_seed_slice_eq map_errR_def)
qed


section \<open>Signatures verify\<close>

definition ml_dsa_signs :: "('k, 'x, 'v, 'g, 's) ml_dsa_crate \<Rightarrow> bool" where
  "ml_dsa_signs crate \<longleftrightarrow> (\<forall>ps x m c.
     (\<forall>g. md_sign_deterministic crate ps x m c = Some g \<longrightarrow> md_verify_with_context crate ps (md_verifying_key crate ps x) m c g)
     \<and> (\<forall>s g s'. md_sign_randomized crate ps x m c s = (Inr g, s') \<longrightarrow> md_verify_with_context crate ps (md_verifying_key crate ps x) m c g)
     \<and> (\<forall>r. md_verify_internal crate ps (md_verifying_key crate ps x) m (md_sign_internal crate ps x [m] r)))"

lemma sign_wrapped:
  "MlDsa_sign crate (wrap_key ps material) m c r = bindE (rejectE (length c > 255) Dsa_InvalidContext) (\<lambda>_. sign_with crate ps material m c r)"
  by (cases ps) (simp_all add: MlDsa_sign_def wrap_key_def)

lemma sign_prehash_wrapped:
  "MlDsa_sign_prehash crate fill (wrap_key ps material) d c h r =
     bindE (liftE (MlDsaPrehash_encode h d c)) (\<lambda>message. bindE (prehash_randomizer fill r) (\<lambda>rnd.
     okE (md_encode_signature crate ps (md_sign_internal crate ps (MlDsaKey_expanded_key crate ps material) [message] rnd))))"
  by (cases ps) (simp_all add: MlDsa_sign_prehash_def wrap_key_def)

text \<open>Every key that import returns carries the public key of its expanded key.\<close>

lemma stored_key_public:
  assumes "ml_dsa_ok crate" "MlDsa_from_serialized crate ps stored = Some (Inr key)"
  obtains material where "key = wrap_key ps material"
    "MlDsa_public_key crate key = md_encode_vk crate ps (md_verifying_key crate ps (MlDsaKey_expanded_key crate ps material))"
  using stored_key_cases [OF assms] assms(1) that by (fastforce simp: imported_key_def Let_def ml_dsa_ok_def)

lemma fst_bindE_ok: "fst (bindE m f s) = Inr y \<longleftrightarrow> (\<exists>x s'. m s = (Inr x, s') \<and> fst (f x s') = Inr y)"
  by (auto simp: bindE_def split: sum.splits prod.splits)

lemma sign_with_verifies:
  assumes "ml_dsa_ok crate" "ml_dsa_signs crate" "fst (sign_with crate ps material m c r s) = Inr sig"
  shows "\<exists>g. md_decode_signature crate ps sig = Some g
    \<and> md_verify_with_context crate ps (md_verifying_key crate ps (MlDsaKey_expanded_key crate ps material)) m c g"
proof -
  have decode: "md_decode_signature crate ps (md_encode_signature crate ps g) = Some g" for g
    using assms(1) by (simp add: ml_dsa_ok_def)
  have signs: "md_sign_deterministic crate ps x m c = Some g \<Longrightarrow> md_verify_with_context crate ps (md_verifying_key crate ps x) m c g"
    "md_sign_randomized crate ps x m c s = (Inr g, s') \<Longrightarrow> md_verify_with_context crate ps (md_verifying_key crate ps x) m c g" for x g s s'
    using assms(2) unfolding ml_dsa_signs_def by blast+
  obtain g where "sig = md_encode_signature crate ps g"
    "md_verify_with_context crate ps (md_verifying_key crate ps (MlDsaKey_expanded_key crate ps material)) m c g"
    using assms(3) unfolding sign_with_def Let_def fst_bindE_ok
    by (cases r) (auto simp: ok_orE_def okE_def errE_def map_errE_def or_elseE_def intro: signs split: option.splits sum.splits prod.splits)
  then show ?thesis using decode by blast
qed

text \<open>
  Signing with an imported ML-DSA key. For a crate whose signatures verify under the key's own public key:
  every signature that \<open>sign\<close> or \<open>sign_prehash\<close> returns, with any randomization and any random
  source, is accepted by the matching verification with the key's public key. A context above 255 bytes
  is refused by all four operations before the random source is used. A hedged signature never fails for lack of
  randomness, and a required randomizer that cannot be drawn gives \<open>RandomnessUnavailable\<close>.
\<close>

theorem ml_dsa_sign_verify:
  assumes "ml_dsa_ok crate" "ml_dsa_signs crate" "MlDsa_from_serialized crate ps stored = Some (Inr key)"
  shows "(fst (MlDsa_sign crate key m c r s) = Inr sig \<longrightarrow> verify_ml_dsa crate ps (MlDsa_public_key crate key) m c sig = Inr ())
    \<and> (fst (MlDsa_sign_prehash crate fill key d c h r s) = Inr sig
        \<longrightarrow> verify_ml_dsa_prehash crate ps (MlDsa_public_key crate key) d c sig h = Inr ())
    \<and> (length c > 255 \<longrightarrow> MlDsa_sign crate key m c r = errE Dsa_InvalidContext \<and> MlDsa_sign_prehash crate fill key d c h r = errE Dsa_InvalidContext
        \<and> verify_ml_dsa crate ps pk m c sig = Inl Dsa_InvalidContext \<and> verify_ml_dsa_prehash crate ps pk d c sig h = Inl Dsa_InvalidContext)
    \<and> (length c \<le> 255 \<and> length d = MlDsaPrehash_digest_length h \<longrightarrow>
        (\<exists>sig. fst (MlDsa_sign_prehash crate fill key d c h HedgePreferred s) = Inr sig)
        \<and> (fst (MlDsa_sign_prehash crate fill key d c h Randomized s) = Inl Dsa_RandomnessUnavailable \<longleftrightarrow> (\<exists>e. fst (fill 32 s) = Inl e)))"
proof -
  obtain material where key: "key = wrap_key ps material"
    "MlDsa_public_key crate key = md_encode_vk crate ps (md_verifying_key crate ps (MlDsaKey_expanded_key crate ps material))"
    using stored_key_public [OF assms(1,3)] .
  have vk: "length (MlDsa_public_key crate key) = md_vk_size crate ps"
    "md_decode_vk crate ps (MlDsa_public_key crate key) = md_verifying_key crate ps (MlDsaKey_expanded_key crate ps material)"
    using assms(1) by (simp_all add: key(2) ml_dsa_ok_def)
  have decode: "md_decode_signature crate ps (md_encode_signature crate ps g) = Some g" for g using assms(1) by (simp add: ml_dsa_ok_def)
  have "verify_ml_dsa crate ps (MlDsa_public_key crate key) m c sig = Inr ()" if "fst (MlDsa_sign crate key m c r s) = Inr sig"
  proof -
    have "length c \<le> 255" "fst (sign_with crate ps material m c r s) = Inr sig"
      using that by (auto simp: key(1) sign_wrapped bindE_def rejectE_def okE_def errE_def split: if_splits)
    then show ?thesis using sign_with_verifies [OF assms(1,2)] vk by (fastforce simp: verify_ml_dsa_def Let_def)
  qed
  moreover have "verify_ml_dsa_prehash crate ps (MlDsa_public_key crate key) d c sig h = Inr ()"
    if signed: "fst (MlDsa_sign_prehash crate fill key d c h r s) = Inr sig"
  proof -
    obtain x rnd where x: "MlDsaPrehash_encode h d c = Inr x"
      "sig = md_encode_signature crate ps (md_sign_internal crate ps (MlDsaKey_expanded_key crate ps material) [x] rnd)"
      using signed unfolding key(1) sign_prehash_wrapped fst_bindE_ok
      by (auto simp: liftE_def okE_def errE_def split: sum.splits)
    moreover have "length c \<le> 255" using x(1) by (auto simp: MlDsaPrehash_encode_def result_iffs)
    ultimately show ?thesis using assms(2) vk decode by (simp add: verify_ml_dsa_prehash_def ml_dsa_signs_def Let_def)
  qed
  moreover have "MlDsaPrehash_encode h d c = Inl Dsa_InvalidContext" if "length c > 255" using that by (simp add: MlDsaPrehash_encode_def)
  moreover have "\<exists>x. MlDsaPrehash_encode h d c = Inr x" if "length c \<le> 255" "length d = MlDsaPrehash_digest_length h"
    using that by (simp add: MlDsaPrehash_encode_def)
  ultimately show ?thesis
    by (auto simp: key(1) sign_wrapped sign_prehash_wrapped verify_ml_dsa_def verify_ml_dsa_prehash_def prehash_randomizer_def
        bindE_def liftE_def okE_def errE_def rejectE_def or_elseE_def split: sum.splits prod.splits)
qed


section \<open>Prehashing is exact\<close>

text \<open>Incremental hashing: absorbing two parts is absorbing their concatenation, and digests have their lengths.\<close>

definition prehash_ok :: "('h, 'q, 'z) prehash_crates \<Rightarrow> bool" where
  "prehash_ok crates \<longleftrightarrow>
     (\<forall>alg h a b. hc_update (ph_hashes crates) alg (hc_update (ph_hashes crates) alg h a) b = hc_update (ph_hashes crates) alg h (a @ b))
     \<and> (\<forall>alg h. length (hc_finalize (ph_hashes crates) alg h) = output_length alg)
     \<and> (\<forall>z a b. sk_update (ph_shake128 crates) (sk_update (ph_shake128 crates) z a) b = sk_update (ph_shake128 crates) z (a @ b))
     \<and> (\<forall>z a b. sk_update (ph_shake256 crates) (sk_update (ph_shake256 crates) z a) b = sk_update (ph_shake256 crates) z (a @ b))
     \<and> (\<forall>z n. length (sk_read (ph_shake128 crates) z n) = n \<and> length (sk_read (ph_shake256 crates) z n) = n)"

lemma prehash_update_append:
  assumes "prehash_ok crates"
  shows "MlDsaPrehashContext_update crates (MlDsaPrehashContext_update crates ctx a) b = MlDsaPrehashContext_update crates ctx (a @ b)"
proof -
  have hash: "HashContext_update (ph_hashes crates) (HashContext_update (ph_hashes crates) h a) b = HashContext_update (ph_hashes crates) h (a @ b)" for h
    using assms by (cases h) (simp_all add: prehash_ok_def)
  have "prehash_state_update crates (prehash_state_update crates z a) b = prehash_state_update crates z (a @ b)" for z
    using assms hash by (cases z) (simp_all add: prehash_ok_def)
  then show ?thesis by (simp add: MlDsaPrehashContext_update_def)
qed

lemma prehash_update_chunks:
  assumes "prehash_ok crates"
  shows "fold (\<lambda>part ctx. MlDsaPrehashContext_update crates ctx part) parts (MlDsaPrehashContext_update crates ctx a)
       = MlDsaPrehashContext_update crates ctx (a @ concat parts)"
  by (induction parts arbitrary: a) (simp_all add: prehash_update_append [OF assms])

lemma prehash_ids:
  assumes "MlDsaPrehash_from_id i = Some h"
  shows "h = MlDsaPrehash i \<and> i \<in> {1, 2, 3, 4, 7, 8, 9, 10, 11, 12}"
proof -
  have h: "h = MlDsaPrehash i" and i: "1 \<le> i \<and> i \<le> 4 \<or> 7 \<le> i \<and> i \<le> 12" using assms by (auto simp: MlDsaPrehash_from_id_def split: if_splits)
  have "unat i \<in> {1, 2, 3, 4, 7, 8, 9, 10, 11, 12}" using i by (auto simp: word_le_nat_alt)
  moreover have "i = word_of_nat (unat i)" by simp
  ultimately have "i \<in> {1, 2, 3, 4, 7, 8, 9, 10, 11, 12}" by (auto simp del: of_nat_unat)
  then show ?thesis using h by blast
qed

text \<open>
  HashML-DSA prehashing. For every identifier that \<open>from_id\<close> accepts and crates that hash incrementally: however a message is cut into
  updates, the context finishes with the one-shot digest of the whole message, and that digest has the length that
  \<open>encode\<close> requires, so a context of at most 255 bytes always encodes. The encoding starts with the domain byte 1 and
  determines the hash, the digest and the context; every other context or digest length is refused with its own error.
\<close>

theorem prehash_exact:
  assumes "prehash_ok crates" "MlDsaPrehash_from_id i = Some h"
  shows "MlDsaPrehashContext_finalize crates (fold (\<lambda>part ctx. MlDsaPrehashContext_update crates ctx part) parts
            (MlDsaPrehashContext_update crates (MlDsaPrehash_context crates h) first)) = MlDsaPrehash_digest crates h (first @ concat parts)
    \<and> length (MlDsaPrehash_digest crates h message) = MlDsaPrehash_digest_length h
    \<and> MlDsaPrehash_encode h d c =
        (if length c > 255 then Inl Dsa_InvalidContext else if length d \<noteq> MlDsaPrehash_digest_length h then Inl Dsa_InvalidSignature
         else Inr (1 # word_of_nat (length c) # c @ [0x06, 0x09, 0x60, 0x86, 0x48, 0x01, 0x65, 0x03, 0x04, 0x02, i] @ d))
    \<and> (MlDsaPrehash_encode h d c = Inr x \<and> MlDsaPrehash_encode h' d' c' = Inr x \<longrightarrow> h' = h \<and> d' = d \<and> c' = c)"
proof (intro conjI impI)
  show "MlDsaPrehashContext_finalize crates (fold (\<lambda>part ctx. MlDsaPrehashContext_update crates ctx part) parts
      (MlDsaPrehashContext_update crates (MlDsaPrehash_context crates h) first)) = MlDsaPrehash_digest crates h (first @ concat parts)"
    by (simp add: prehash_update_chunks [OF assms(1)] MlDsaPrehash_digest_def)
  have hi: "h = MlDsaPrehash i" "i \<in> {1, 2, 3, 4, 7, 8, 9, 10, 11, 12}" using prehash_ids [OF assms(2)] by blast+
  show "length (MlDsaPrehash_digest crates h message) = MlDsaPrehash_digest_length h"
    using assms(1) hi(2)
    by (auto simp: hi(1) prehash_ok_def MlDsaPrehash_digest_def MlDsaPrehash_context_def MlDsaPrehashContext_update_def
        MlDsaPrehashContext_finalize_def MlDsaPrehash_digest_length_def prehash_algorithm_def Let_def)
  show "MlDsaPrehash_encode h d c =
      (if length c > 255 then Inl Dsa_InvalidContext else if length d \<noteq> MlDsaPrehash_digest_length h then Inl Dsa_InvalidSignature
       else Inr (1 # word_of_nat (length c) # c @ [0x06, 0x09, 0x60, 0x86, 0x48, 0x01, 0x65, 0x03, 0x04, 0x02, i] @ d))"
    by (simp add: MlDsaPrehash_encode_def hi(1))
next
  assume e: "MlDsaPrehash_encode h d c = Inr x \<and> MlDsaPrehash_encode h' d' c' = Inr x"
  then have "length c < 2 ^ LENGTH(8)" "length c' < 2 ^ LENGTH(8)" by (auto simp: MlDsaPrehash_encode_def result_iffs)
  moreover have "(word_of_nat (length c) :: byte) = word_of_nat (length c')" using e by (auto simp: MlDsaPrehash_encode_def result_iffs)
  ultimately have "length c = length c'" by (metis of_nat_inverse)
  moreover have "c @ [0x06, 0x09, 0x60, 0x86, 0x48, 0x01, 0x65, 0x03, 0x04, 0x02, MlDsaPrehash_id h] @ d
      = c' @ [0x06, 0x09, 0x60, 0x86, 0x48, 0x01, 0x65, 0x03, 0x04, 0x02, MlDsaPrehash_id h'] @ d'"
    using e by (auto simp: MlDsaPrehash_encode_def result_iffs)
  ultimately have "c' = c \<and> MlDsaPrehash_id h' = MlDsaPrehash_id h \<and> d' = d" by simp
  then show "h' = h" "d' = d" "c' = c" by (cases h; cases h'; simp)+
qed

text \<open>Stand-in crates.\<close>

definition sample_shake :: "bytes shake_crate" where
  "sample_shake = \<lparr> sk_new = [], sk_update = (\<lambda>z a. z @ a), sk_read = (\<lambda>z n. resize n 5 (rev z)) \<rparr>"

definition sample_prehash :: "(bytes, bytes, bytes) prehash_crates" where
  "sample_prehash = \<lparr> ph_hashes = sample_hashes, ph_shake128 = sample_shake, ph_shake256 = sample_shake \<rparr>"

theorem prehash_exact_witness:
  "length (MlDsaPrehash_digest sample_prehash (MlDsaPrehash 11) [1, 2, 3]) = 32
   \<and> MlDsaPrehashContext_finalize sample_prehash (fold (\<lambda>part ctx. MlDsaPrehashContext_update sample_prehash ctx part) [[2], [3]]
        (MlDsaPrehashContext_update sample_prehash (MlDsaPrehash_context sample_prehash (MlDsaPrehash 11)) [1]))
      = MlDsaPrehash_digest sample_prehash (MlDsaPrehash 11) [1, 2, 3]"
proof -
  have ok: "prehash_ok sample_prehash" by (simp add: prehash_ok_def sample_prehash_def sample_hashes_def sample_shake_def)
  have h: "MlDsaPrehash_from_id 11 = Some (MlDsaPrehash 11)" by (simp add: MlDsaPrehash_from_id_def)
  show ?thesis using prehash_exact [OF ok h, where parts = "[[2], [3]]" and first = "[1]" and message = "[1, 2, 3]"]
    by (simp add: MlDsaPrehash_digest_length_def)
qed

definition sample_ml_dsa :: "(bytes, bytes, byte, bytes, unit) ml_dsa_crate" where
  "sample_ml_dsa =
     \<lparr> md_params = (\<lambda>_. sample_params), md_sk_size = MlDsa_expanded_length, md_vk_size = MlDsa_public_key_length,
       md_from_seed = (\<lambda>ps seed. seed), md_as_seed = (\<lambda>ps k. k), md_expanded_key = (\<lambda>ps k. resize (MlDsa_expanded_length ps) 0 k),
       md_seeded_public = (\<lambda>ps k. last (resize (MlDsa_expanded_length ps) 0 k)), md_from_expanded = (\<lambda>ps b. b),
       md_to_expanded = (\<lambda>ps x. resize (MlDsa_expanded_length ps) 0 x), md_verifying_key = (\<lambda>ps x. last x),
       md_encode_vk = (\<lambda>ps v. replicate (MlDsa_public_key_length ps) v), md_decode_vk = (\<lambda>ps. hd),
       md_encode_signature = (\<lambda>ps g. g), md_decode_signature = (\<lambda>ps. Some),
       md_sign_deterministic = (\<lambda>ps x m c. Some (last x # m)), md_sign_randomized = (\<lambda>ps x m c s. (Inr (last x # m), s)),
       md_sign_internal = (\<lambda>ps x ms r. last x # concat ms),
       md_verify = (\<lambda>ps v m g. g = v # m), md_verify_with_context = (\<lambda>ps v m c g. g = v # m), md_verify_internal = (\<lambda>ps v m g. g = v # m),
       md_shake256 = (\<lambda>b n. resize n 0 b) \<rparr>"

lemma sample_ml_dsa_ok: "ml_dsa_ok sample_ml_dsa" "ml_dsa_signs sample_ml_dsa"
proof -
  have "replicate (MlDsa_public_key_length ps) v \<noteq> []" for ps and v :: byte by (cases ps) simp_all
  then show "ml_dsa_ok sample_ml_dsa" by (auto simp: ml_dsa_ok_def sample_ml_dsa_def resize_def)
  show "ml_dsa_signs sample_ml_dsa" by (auto simp: ml_dsa_signs_def sample_ml_dsa_def)
qed

lemma sample_ml_dsa_key:
  "MlDsa_from_serialized sample_ml_dsa MlDsa65 (replicate 32 1) = Some (Inr (Key_MlDsa65 (Seeded (replicate 32 1))))"
  by (simp add: MlDsa_from_serialized_def MlDsa_from_seed_slice_def MlDsaKey_from_seed_def sample_ml_dsa_def)

theorem ml_dsa_storage_exact_witness:
  "MlDsa_from_serialized sample_ml_dsa MlDsa65 (MlDsa_serialized sample_ml_dsa (Key_MlDsa65 (Seeded (replicate 32 1))))
     = Some (Inr (Key_MlDsa65 (Seeded (replicate 32 1))))"
  using ml_dsa_storage_exact [OF sample_ml_dsa_ok(1), where ps = MlDsa65 and encoded = "replicate 32 1"] sample_ml_dsa_key by blast

theorem ml_dsa_sign_verify_witness:
  "\<exists>sig. fst (MlDsa_sign sample_ml_dsa (Key_MlDsa65 (Seeded (replicate 32 1))) [4] [] Randomized ()) = Inr sig
     \<and> verify_ml_dsa sample_ml_dsa MlDsa65 (MlDsa_public_key sample_ml_dsa (Key_MlDsa65 (Seeded (replicate 32 1)))) [4] [] sig = Inr ()"
proof -
  obtain sig where "fst (MlDsa_sign sample_ml_dsa (Key_MlDsa65 (Seeded (replicate 32 1))) [4] [] Randomized ()) = Inr sig"
    by (simp add: MlDsa_sign_def sign_with_def Let_def bindE_def rejectE_def okE_def map_errE_def sample_ml_dsa_def)
  then show ?thesis using ml_dsa_sign_verify [OF sample_ml_dsa_ok sample_ml_dsa_key] by blast
qed

end
