(* ===== verification/Pqc_Encoding.thy ===== *)
theory Pqc_Encoding
  imports Ml_Kem Ml_Dsa
begin

text \<open>
  \<^verbatim>\<open>src/src/pqc_key_encoding.rs\<close>, the private-key CHOICE of RFC 9881 and RFC 9935, and its two clients in
  \<^verbatim>\<open>src/src/post_quantum.rs\<close>: PKCS \#8 import and export of ML-KEM and ML-DSA keys, and the public-key
  documents. The readers and writers of the crates \<open>der\<close> and \<open>pkcs8\<close> are the record
  \<open>der_crate\<close>; a reader consumes a prefix of the bytes. All errors of those crates are one value, as the
  callers drop them.
\<close>

section \<open>The encoding\<close>

datatype PrivateEncoding = Enc_Seed bytes | Enc_Expanded bytes | Enc_Both bytes bytes

record PrivateKey =
  pk_encoding :: PrivateEncoding
  pk_public :: "bytes option"

text \<open>Types of the crates: tags, algorithm identifiers, and the fields of a private-key document. A bit string has a number of unused bits.\<close>

datatype der_tag = Tag_Context nat bool | Tag_OctetString | Tag_Sequence | Tag_Other nat

record AlgorithmIdentifier =
  ai_oid :: "nat list"
  ai_parameters :: "bytes option"

record PrivateKeyInfo =
  pi_algorithm :: AlgorithmIdentifier
  pi_private_key :: bytes
  pi_public_key :: "(nat \<times> bytes) option"

record der_crate =
  dc_info_from_der :: "bytes \<Rightarrow> PrivateKeyInfo option"
  dc_info_to_der :: "PrivateKeyInfo \<Rightarrow> bytes option"
  dc_reader_new :: "bytes \<Rightarrow> bytes option"
  dc_peek :: "bytes \<Rightarrow> der_tag option"
  dc_decode_implicit :: "nat \<Rightarrow> bytes \<Rightarrow> (bytes option \<times> bytes) option"
  dc_decode_octets :: "bytes \<Rightarrow> (bytes \<times> bytes) option"
  dc_decode_any :: "bytes \<Rightarrow> (bytes \<times> bytes) option"
  dc_octets_new :: "bytes \<Rightarrow> bytes option"
  dc_octets_to_der :: "bytes \<Rightarrow> bytes option"
  dc_implicit_to_der :: "nat \<Rightarrow> bytes \<Rightarrow> bytes option"
  dc_sequence_to_der :: "bytes \<Rightarrow> bytes option"
  dc_bits_from_bytes :: "bytes \<Rightarrow> (nat \<times> bytes) option"

text \<open>\<open>AnyRef::sequence\<close>: a reader over the content, which the closure has to use up.\<close>

definition any_sequence :: "der_crate \<Rightarrow> bytes \<Rightarrow> (bytes \<Rightarrow> ('a \<times> bytes) option) \<Rightarrow> unit + 'a" where
  "any_sequence der content f =
     bindR (ok_orR () (dc_reader_new der content)) (\<lambda>inner.
     bindR (ok_orR () (f inner)) (\<lambda>(value, rest).
     bindR (rejectR (rest \<noteq> []) ()) (\<lambda>_. Inr value)))"

definition bits_as_bytes :: "nat \<times> bytes \<Rightarrow> bytes option" where
  "bits_as_bytes bits = (if fst bits = 0 then Some (snd bits) else None)"

definition decode_both :: "der_crate \<Rightarrow> bytes \<Rightarrow> (PrivateEncoding \<times> bytes) option" where
  "decode_both der inner =
     Option.bind (dc_decode_octets der inner) (\<lambda>(seed, inner).
     Option.bind (dc_decode_octets der inner) (\<lambda>(expanded, inner).
     Some (Enc_Both seed expanded, inner)))"

definition decode_choice :: "der_crate \<Rightarrow> bytes \<Rightarrow> unit + PrivateEncoding \<times> bytes" where
  "decode_choice der reader =
     bindR (ok_orR () (dc_peek der reader)) (\<lambda>tag.
     case tag of
       Tag_Context number constructed \<Rightarrow>
         if number = 0 \<and> \<not> constructed then
           bindR (ok_orR () (dc_decode_implicit der 0 reader)) (\<lambda>(found, reader).
           bindR (ok_orR () found) (\<lambda>seed. Inr (Enc_Seed seed, reader)))
         else Inl ()
     | Tag_OctetString \<Rightarrow>
         bindR (ok_orR () (dc_decode_octets der reader)) (\<lambda>(expanded, reader). Inr (Enc_Expanded expanded, reader))
     | Tag_Sequence \<Rightarrow>
         bindR (ok_orR () (dc_decode_any der reader)) (\<lambda>(both, reader).
         bindR (any_sequence der both (decode_both der)) (\<lambda>encoding. Inr (encoding, reader)))
     | Tag_Other _ \<Rightarrow> Inl ())"

definition pqc_decode :: "der_crate \<Rightarrow> AlgorithmIdentifier \<Rightarrow> bytes \<Rightarrow> unit + PrivateKey" where
  "pqc_decode der algorithm encoded =
     bindR (ok_orR () (dc_info_from_der der encoded)) (\<lambda>info.
     bindR (rejectR (ai_oid (pi_algorithm info) \<noteq> ai_oid algorithm) ()) (\<lambda>_.
     bindR (rejectR (ai_parameters (pi_algorithm info) \<noteq> None) ()) (\<lambda>_.
     bindR (ok_orR () (dc_reader_new der (pi_private_key info))) (\<lambda>reader.
     bindR (decode_choice der reader) (\<lambda>(encoding, reader).
     bindR (rejectR (reader \<noteq> []) ()) (\<lambda>_.
     bindR (case pi_public_key info of None \<Rightarrow> Inr None
            | Some key \<Rightarrow> bindR (ok_orR () (bits_as_bytes key)) (\<lambda>bytes. Inr (Some bytes))) (\<lambda>public.
     Inr \<lparr> pk_encoding = encoding, pk_public = public \<rparr>)))))))"

text \<open>The match on the encoding in \<open>encode\<close>.\<close>

fun encode_choice :: "der_crate \<Rightarrow> PrivateEncoding \<Rightarrow> bytes option" where
  "encode_choice der (Enc_Seed seed) =
     Option.bind (dc_octets_new der seed) (\<lambda>seed. dc_implicit_to_der der 0 seed)"
| "encode_choice der (Enc_Expanded expanded) =
     Option.bind (dc_octets_new der expanded) (\<lambda>expanded. dc_octets_to_der der expanded)"
| "encode_choice der (Enc_Both seed expanded) =
     Option.bind (Option.bind (dc_octets_new der seed) (dc_octets_to_der der)) (\<lambda>content.
     Option.bind (Option.bind (dc_octets_new der expanded) (dc_octets_to_der der)) (\<lambda>encoded_expanded.
     dc_sequence_to_der der (content @ encoded_expanded)))"

definition pqc_encode :: "der_crate \<Rightarrow> AlgorithmIdentifier \<Rightarrow> PrivateEncoding \<Rightarrow> bytes option \<Rightarrow> unit + bytes" where
  "pqc_encode der algorithm encoding public =
     bindR (ok_orR () (encode_choice der encoding)) (\<lambda>inner.
     bindR (ok_orR () (dc_octets_new der inner)) (\<lambda>inner.
     bindR (case public of None \<Rightarrow> Inr None
            | Some bytes \<Rightarrow> bindR (ok_orR () (dc_bits_from_bytes der bytes)) (\<lambda>bits. Inr (Some bits))) (\<lambda>public_key.
     ok_orR () (dc_info_to_der der \<lparr> pi_algorithm = algorithm, pi_private_key = inner, pi_public_key = public_key \<rparr>))))"


section \<open>Keys as documents\<close>

definition MlKem_from_pkcs8_der ::
  "('d, 'e) ml_kem_crate \<Rightarrow> der_crate \<Rightarrow> (MlKemParameterSet \<Rightarrow> AlgorithmIdentifier) \<Rightarrow> (nat \<Rightarrow> ('s, 'g, bytes) op)
     \<Rightarrow> MlKemParameterSet \<Rightarrow> bytes \<Rightarrow> ('s, MlKemError, 'd MlKemPrivateKey) op" where
  "MlKem_from_pkcs8_der crate der algorithm_for fill ps encoded =
     bindE (liftE (map_errR (\<lambda>_. Kem_InvalidPrivateKey) (pqc_decode der (algorithm_for ps) encoded))) (\<lambda>decoded.
     bindE (case pk_encoding decoded of
         Enc_Seed seed \<Rightarrow> liftE (MlKem_from_seed_slice crate ps seed)
       | Enc_Expanded expanded \<Rightarrow> MlKem_from_expanded crate fill ps expanded
       | Enc_Both seed expanded \<Rightarrow> liftE (MlKem_from_seed_and_expanded crate ps seed expanded)) (\<lambda>key.
     bindE (rejectE (case pk_public decoded of None \<Rightarrow> False | Some public \<Rightarrow> MlKem_public_key crate key \<noteq> public)
       Kem_InvalidPrivateKey) (\<lambda>_. okE key)))"

definition MlKem_to_pkcs8_der ::
  "('d, 'e) ml_kem_crate \<Rightarrow> der_crate \<Rightarrow> (MlKemParameterSet \<Rightarrow> AlgorithmIdentifier) \<Rightarrow> 'd MlKemPrivateKey \<Rightarrow> MlKemError + bytes" where
  "MlKem_to_pkcs8_der crate der algorithm_for self =
     (let algorithm = algorithm_for (MlKem_parameter_set self) in
      map_errR (\<lambda>_. Kem_EncodingFailed)
        (case MlKem_seed crate self of
           Some seed \<Rightarrow> pqc_encode der algorithm (Enc_Seed seed) None
         | None \<Rightarrow> pqc_encode der algorithm (Enc_Expanded (MlKem_expanded_private_key crate self)) None))"

definition MlDsa_from_pkcs8_der ::
  "('k, 'x, 'v, 'g, 's) ml_dsa_crate \<Rightarrow> der_crate \<Rightarrow> (MlDsaParameterSet \<Rightarrow> AlgorithmIdentifier)
     \<Rightarrow> MlDsaParameterSet \<Rightarrow> bytes \<Rightarrow> ('k, 'x, 'v) MlDsaPrivateKey dsa_run" where
  "MlDsa_from_pkcs8_der crate der algorithm_for ps encoded =
     bindP (liftP (map_errR (\<lambda>_. Dsa_InvalidPrivateKey) (pqc_decode der (algorithm_for ps) encoded))) (\<lambda>decoded.
     bindP (case pk_encoding decoded of
         Enc_Seed seed \<Rightarrow> liftP (MlDsa_from_seed_slice crate ps seed)
       | Enc_Expanded expanded \<Rightarrow> MlDsa_from_expanded crate ps expanded
       | Enc_Both seed expanded \<Rightarrow> liftP (MlDsa_from_seed_and_expanded crate ps seed expanded)) (\<lambda>key.
     liftP (bindR (rejectR (case pk_public decoded of None \<Rightarrow> False | Some public \<Rightarrow> MlDsa_public_key crate key \<noteq> public)
       Dsa_InvalidPrivateKey) (\<lambda>_. Inr key))))"

definition MlDsa_to_pkcs8_der ::
  "('k, 'x, 'v, 'g, 's) ml_dsa_crate \<Rightarrow> der_crate \<Rightarrow> (MlDsaParameterSet \<Rightarrow> AlgorithmIdentifier)
     \<Rightarrow> ('k, 'x, 'v) MlDsaPrivateKey \<Rightarrow> MlDsaError + bytes" where
  "MlDsa_to_pkcs8_der crate der algorithm_for self =
     map_errR (\<lambda>_. Dsa_InvalidPrivateKey)
       (case MlDsa_seed crate self of
          Some seed \<Rightarrow> pqc_encode der (algorithm_for (MlDsa_parameter_set self)) (Enc_Seed seed) None
        | None \<Rightarrow> pqc_encode der (algorithm_for (MlDsa_parameter_set self)) (Enc_Expanded (MlDsa_expanded_private_key crate self)) None)"

text \<open>Public-key documents; the writers of the crates \<open>ml_kem\<close> and \<open>spki\<close> are arguments.\<close>

definition ml_kem_public_key_info ::
  "('d, 'e) ml_kem_crate \<Rightarrow> (MlKemParameterSet \<Rightarrow> 'e \<Rightarrow> bytes option) \<Rightarrow> MlKemParameterSet \<Rightarrow> bytes \<Rightarrow> MlKemError + bytes" where
  "ml_kem_public_key_info crate to_public_key_der ps public_key =
     bindR (rejectR (length public_key \<noteq> mk_ek_size crate ps) Kem_InvalidPublicKey) (\<lambda>_.
     bindR (ok_orR Kem_InvalidPublicKey (mk_new_ek crate ps public_key)) (\<lambda>key.
     ok_orR Kem_EncodingFailed (to_public_key_der ps key)))"

definition ml_dsa_public_key_info ::
  "(nat \<Rightarrow> bytes \<Rightarrow> (nat \<times> bytes) option) \<Rightarrow> (AlgorithmIdentifier \<Rightarrow> nat \<times> bytes \<Rightarrow> bytes option)
     \<Rightarrow> (MlDsaParameterSet \<Rightarrow> AlgorithmIdentifier) \<Rightarrow> MlDsaParameterSet \<Rightarrow> bytes \<Rightarrow> MlDsaError + bytes" where
  "ml_dsa_public_key_info bits_new spki_to_der algorithm_for ps public_key =
     bindR (validate_ml_dsa_public_key ps public_key) (\<lambda>_.
     bindR (ok_orR Dsa_InvalidPublicKey (bits_new 0 public_key)) (\<lambda>subject_public_key.
     ok_orR Dsa_InvalidPublicKey (spki_to_der (algorithm_for ps) subject_public_key)))"


section \<open>Documents come back\<close>

text \<open>
  What the crates promise: a value that is written is read back from the front of any input, with the tag of its
  type, and its bytes fit a reader.
\<close>

definition der_ok :: "der_crate \<Rightarrow> bool" where
  "der_ok der \<longleftrightarrow>
     (\<forall>info b. dc_info_to_der der info = Some b \<longrightarrow> dc_info_from_der der b = Some info
        \<and> dc_reader_new der (pi_private_key info) = Some (pi_private_key info))
     \<and> (\<forall>x y. dc_octets_new der x = Some y \<longrightarrow> y = x)
     \<and> (\<forall>x b rest. dc_octets_to_der der x = Some b \<longrightarrow> dc_peek der (b @ rest) = Some Tag_OctetString \<and> dc_decode_octets der (b @ rest) = Some (x, rest))
     \<and> (\<forall>x b rest. dc_implicit_to_der der 0 x = Some b \<longrightarrow>
          dc_peek der (b @ rest) = Some (Tag_Context 0 False) \<and> dc_decode_implicit der 0 (b @ rest) = Some (Some x, rest))
     \<and> (\<forall>x b rest. dc_sequence_to_der der x = Some b \<longrightarrow>
          dc_peek der (b @ rest) = Some Tag_Sequence \<and> dc_decode_any der (b @ rest) = Some (x, rest) \<and> dc_reader_new der x = Some x)
     \<and> (\<forall>x bits. dc_bits_from_bytes der x = Some bits \<longrightarrow> bits = (0, x))"

lemma der_laws:
  assumes "der_ok der"
  shows "dc_info_to_der der info = Some b \<Longrightarrow> dc_info_from_der der b = Some info \<and> dc_reader_new der (pi_private_key info) = Some (pi_private_key info)"
    "dc_octets_new der x = Some y \<Longrightarrow> y = x"
    "dc_octets_to_der der x = Some b \<Longrightarrow> dc_peek der (b @ rest) = Some Tag_OctetString \<and> dc_decode_octets der (b @ rest) = Some (x, rest)"
    "dc_implicit_to_der der 0 x = Some b \<Longrightarrow> dc_peek der (b @ rest) = Some (Tag_Context 0 False) \<and> dc_decode_implicit der 0 (b @ rest) = Some (Some x, rest)"
    "dc_sequence_to_der der x = Some b \<Longrightarrow> dc_peek der (b @ rest) = Some Tag_Sequence \<and> dc_decode_any der (b @ rest) = Some (x, rest) \<and> dc_reader_new der x = Some x"
    "dc_bits_from_bytes der x = Some bits \<Longrightarrow> bits = (0, x)"
  using assms unfolding der_ok_def by blast+

lemma decode_choice_encode:
  assumes "der_ok der" "encode_choice der encoding = Some b"
  shows "decode_choice der b = Inr (encoding, [])"
proof -
  note laws = der_laws [OF assms(1)]
  have split: "Option.bind (dc_octets_new der x) f = Some y \<Longrightarrow> f x = Some y" for x y and f :: "bytes \<Rightarrow> bytes option"
    using laws(2) by (cases "dc_octets_new der x") auto
  show ?thesis
  proof (cases encoding)
    case (Enc_Seed seed)
    then have "dc_implicit_to_der der 0 seed = Some b" using assms(2) split by simp
    from laws(4) [OF this, of "[]"] show ?thesis by (simp add: decode_choice_def Enc_Seed)
  next
    case (Enc_Expanded expanded)
    then have "dc_octets_to_der der expanded = Some b" using assms(2) split by simp
    from laws(3) [OF this, of "[]"] show ?thesis by (simp add: decode_choice_def Enc_Expanded)
  next
    case (Enc_Both seed expanded)
    then obtain c e where c: "dc_octets_to_der der seed = Some c" and e: "dc_octets_to_der der expanded = Some e"
      and s: "dc_sequence_to_der der (c @ e) = Some b"
      using assms(2) unfolding Enc_Both encode_choice.simps bind_eq_Some_conv [of "Option.bind _ _"] by (blast dest: split)
    have "decode_both der (c @ e) = Some (Enc_Both seed expanded, [])"
      using laws(3) [OF c, of e] laws(3) [OF e, of "[]"] by (simp add: decode_both_def)
    then show ?thesis using laws(5) [OF s, of "[]"] Enc_Both by (simp add: decode_choice_def any_sequence_def)
  qed
qed

lemma pqc_decode_encode:
  assumes "der_ok der" "ai_parameters algorithm = None" "pqc_encode der algorithm encoding public = Inr b"
  shows "pqc_decode der algorithm b = Inr \<lparr> pk_encoding = encoding, pk_public = public \<rparr>"
    "ai_oid other \<noteq> ai_oid algorithm \<Longrightarrow> pqc_decode der other b = Inl ()"
proof -
  note laws = der_laws [OF assms(1)]
  obtain inner pub where inner: "encode_choice der encoding = Some inner"
    and pub: "(case public of None \<Rightarrow> Inr None | Some bytes \<Rightarrow> bindR (ok_orR () (dc_bits_from_bytes der bytes)) (\<lambda>bits. Inr (Some bits))) = Inr pub"
    and info: "dc_info_to_der der \<lparr> pi_algorithm = algorithm, pi_private_key = inner, pi_public_key = pub \<rparr> = Some b"
    using assms(3) laws(2) by (auto simp: pqc_encode_def result_iffs)
  have "(case pub of None \<Rightarrow> Inr None | Some key \<Rightarrow> bindR (ok_orR () (bits_as_bytes key)) (\<lambda>bytes. Inr (Some bytes))) = Inr public"
    using pub laws(6) by (cases public) (auto simp: result_iffs bits_as_bytes_def)
  then show "pqc_decode der algorithm b = Inr \<lparr> pk_encoding = encoding, pk_public = public \<rparr>"
    using laws(1) [OF info] decode_choice_encode [OF assms(1) inner] assms(2) by (simp add: pqc_decode_def)
  show "pqc_decode der other b = Inl ()" if "ai_oid other \<noteq> ai_oid algorithm"
    using that laws(1) [OF info] by (simp add: pqc_decode_def eq_commute)
qed

text \<open>The encoding is a codec in the sense of the shared contract; both key types rely on it.\<close>

definition pqc_encodable :: "der_crate \<times> AlgorithmIdentifier \<Rightarrow> PrivateKey \<Rightarrow> bool" where
  "pqc_encodable c x \<longleftrightarrow> der_ok (fst c) \<and> ai_parameters (snd c) = None
     \<and> (\<exists>b. pqc_encode (fst c) (snd c) (pk_encoding x) (pk_public x) = Inr b)"

interpretation pqc: result_codec pqc_encodable
  "\<lambda>c x. pqc_encode (fst c) (snd c) (pk_encoding x) (pk_public x)" "\<lambda>c b. pqc_decode (fst c) (snd c) b"
proof unfold_locales
  fix c :: "der_crate \<times> AlgorithmIdentifier" and x :: PrivateKey
  assume "pqc_encodable c x"
  then show "\<exists>b. pqc_encode (fst c) (snd c) (pk_encoding x) (pk_public x) = Inr b \<and> pqc_decode (fst c) (snd c) b = Inr x"
    unfolding pqc_encodable_def by (cases x) (auto dest: pqc_decode_encode(1))
qed

lemma pqc_document:
  assumes "der_ok der" "ai_parameters algorithm = None" "pqc_encode der algorithm encoding public = Inr b"
  shows "pqc_decode der algorithm b = Inr \<lparr> pk_encoding = encoding, pk_public = public \<rparr>"
  using pqc.dec_of_enc [of "(der, algorithm)" "\<lparr> pk_encoding = encoding, pk_public = public \<rparr>" b] assms
  by (simp add: pqc_encodable_def)

text \<open>Every ML-DSA key that import returned comes back from its document.\<close>

lemma ml_dsa_document:
  assumes "der_ok der" "\<And>ps. ai_parameters (dsa_algorithm ps) = None" "ml_dsa_ok dsa"
    "MlDsa_from_serialized dsa ps stored = Some (Inr key)" "MlDsa_to_pkcs8_der dsa der dsa_algorithm key = Inr b"
  shows "MlDsa_from_pkcs8_der dsa der dsa_algorithm ps b = Some (Inr key)"
proof -
  have keys: "(\<exists>seed. length seed = 32 \<and> key = wrap_key ps (Seeded (md_from_seed dsa ps seed)))
      \<or> importable dsa ps stored \<and> key = imported_key dsa ps stored" using stored_key_cases [OF assms(3,4)] .
  then show ?thesis
  proof
    assume "\<exists>seed. length seed = 32 \<and> key = wrap_key ps (Seeded (md_from_seed dsa ps seed))"
    then obtain seed where k: "length seed = 32" "key = wrap_key ps (Seeded (md_from_seed dsa ps seed))" by blast
    then have "md_as_seed dsa ps (md_from_seed dsa ps seed) = seed" using assms(3) by (simp add: ml_dsa_ok_def)
    then have "pqc_encode der (dsa_algorithm ps) (Enc_Seed seed) None = Inr b"
      using assms(5) k by (simp add: MlDsa_to_pkcs8_der_def map_errR_Inr_iff)
    from pqc_document [OF assms(1,2) this] show ?thesis
      using k by (simp add: MlDsa_from_pkcs8_der_def from_seed_slice_eq map_errR_def)
  next
    assume i: "importable dsa ps stored \<and> key = imported_key dsa ps stored"
    then have "MlDsa_from_expanded dsa ps stored = Some (Inr key)" using from_expanded_ok [OF assms(3)] by blast
    moreover have "pqc_encode der (dsa_algorithm ps) (Enc_Expanded stored) None = Inr b"
      using assms(5) i imported_key_stored [OF assms(3)] by (auto simp: MlDsa_to_pkcs8_der_def map_errR_Inr_iff imported_key_def Let_def)
    ultimately show ?thesis using pqc_document [OF assms(1,2)] by (simp add: MlDsa_from_pkcs8_der_def map_errR_def)
  qed
qed

text \<open>The parts that a document carries, as the optional components that raw imports take.\<close>

fun choice_seed :: "PrivateEncoding \<Rightarrow> bytes option" where
  "choice_seed (Enc_Seed seed) = Some seed"
| "choice_seed (Enc_Expanded expanded) = None"
| "choice_seed (Enc_Both seed expanded) = Some seed"

fun choice_expanded :: "PrivateEncoding \<Rightarrow> bytes option" where
  "choice_expanded (Enc_Seed seed) = None"
| "choice_expanded (Enc_Expanded expanded) = Some expanded"
| "choice_expanded (Enc_Both seed expanded) = Some expanded"

text \<open>The imported key, refused when the document names another public key.\<close>

definition public_checked :: "'r \<Rightarrow> ('k \<Rightarrow> bytes) \<Rightarrow> bytes option \<Rightarrow> 'r + 'k \<Rightarrow> 'r + 'k" where
  "public_checked refused public_key public result =
     (case result of Inl e \<Rightarrow> Inl e | Inr key \<Rightarrow> if public = None \<or> public = Some (public_key key) then Inr key else Inl refused)"

lemma ml_dsa_document_import:
  assumes "der_ok der" "ai_parameters (dsa_algorithm ps) = None" "pqc_encode der (dsa_algorithm ps) encoding public = Inr b"
  shows "MlDsa_from_pkcs8_der dsa der dsa_algorithm ps b =
    map_option (public_checked (Err Dsa_InvalidPrivateKey) (MlDsa_public_key dsa) public)
      (MlDsa_from_components dsa ps (choice_seed encoding) (choice_expanded encoding))"
proof -
  have check: "liftP (bindR (rejectR (case public of None \<Rightarrow> False | Some public \<Rightarrow> MlDsa_public_key dsa key \<noteq> public)
      Dsa_InvalidPrivateKey) (\<lambda>_. Inr key)) = Some (public_checked (Err Dsa_InvalidPrivateKey) (MlDsa_public_key dsa) public (Inr key))" for key
    by (auto simp: public_checked_def rejectR_def bindR_def liftP_def split: option.split)
  have import: "(case encoding of Enc_Seed seed \<Rightarrow> liftP (MlDsa_from_seed_slice dsa ps seed)
      | Enc_Expanded expanded \<Rightarrow> MlDsa_from_expanded dsa ps expanded
      | Enc_Both seed expanded \<Rightarrow> liftP (MlDsa_from_seed_and_expanded dsa ps seed expanded))
    = MlDsa_from_components dsa ps (choice_seed encoding) (choice_expanded encoding)" by (cases encoding) simp_all
  show ?thesis
    using pqc_document [OF assms] import
    by (auto simp: MlDsa_from_pkcs8_der_def check bindP_def map_errR_def public_checked_def split: option.splits sum.splits)
qed

lemma ml_kem_document_import:
  assumes "der_ok der" "ai_parameters (kem_algorithm ps) = None" "pqc_encode der (kem_algorithm ps) encoding public = Inr b"
  shows "MlKem_from_pkcs8_der kem der kem_algorithm fill ps b s =
    (case MlKem_from_components kem fill ps (choice_seed encoding) (choice_expanded encoding) s of
       (result, s') \<Rightarrow> (public_checked Kem_InvalidPrivateKey (MlKem_public_key kem) public result, s'))"
proof -
  have import: "(case encoding of Enc_Seed seed \<Rightarrow> liftE (MlKem_from_seed_slice kem ps seed)
      | Enc_Expanded expanded \<Rightarrow> MlKem_from_expanded kem fill ps expanded
      | Enc_Both seed expanded \<Rightarrow> liftE (MlKem_from_seed_and_expanded kem ps seed expanded))
    = MlKem_from_components kem fill ps (choice_seed encoding) (choice_expanded encoding)" by (cases encoding) simp_all
  show ?thesis
    using pqc_document [OF assms] import
    by (auto simp: MlKem_from_pkcs8_der_def map_errR_def public_checked_def bindE_def rejectE_def okE_def errE_def split: prod.splits sum.splits option.splits)
qed

lemma ml_kem_document:
  assumes "der_ok der" "\<And>ps. ai_parameters (kem_algorithm ps) = None" "ml_kem_ok kem" "ml_kem_expanded_ok kem"
    "fst (MlKem_from_serialized kem fill ps stored s) = Inr key" "MlKem_to_pkcs8_der kem der kem_algorithm key = Inr b"
  shows "MlKem_from_pkcs8_der kem der kem_algorithm fill ps b =
    (if length stored = MlKem_expanded_length ps then pairwise_checked kem fill key else okE key)"
  using stored_kem_key_cases [OF assms(3-5)]
proof cases
  case (1 seed)
  then have "mk_to_seed kem ps (mk_from_seed kem ps seed) = Some seed" using assms(3) by (simp add: ml_kem_ok_def)
  then have "pqc_encode der (kem_algorithm ps) (Enc_Seed seed) None = Inr b"
    using assms(6) 1 by (simp add: MlKem_to_pkcs8_der_def Let_def map_errR_Inr_iff)
  from ml_kem_document_import [where kem = kem and fill = fill and kem_algorithm = kem_algorithm and ps = ps, OF assms(1,2) this] show ?thesis
    using 1 by (simp add: fun_eq_iff MlKem_from_seed_slice_def public_checked_def okE_def)
next
  case (2 d r)
  then have "pqc_encode der (kem_algorithm ps) (Enc_Expanded stored) None = Inr b"
    using assms(6) by (simp add: MlKem_to_pkcs8_der_def Let_def map_errR_Inr_iff)
  from ml_kem_document_import [where kem = kem and fill = fill and kem_algorithm = kem_algorithm and ps = ps, OF assms(1,2) this] show ?thesis
    using 2 by (simp add: fun_eq_iff expanded_import_eq [OF assms(3)] public_checked_def pairwise_checked_def split: prod.split sum.split)
qed


text \<open>Stand-in crates: one tag byte and two length bytes, and a document that holds the private key only.\<close>

definition sample_write :: "byte \<Rightarrow> bytes \<Rightarrow> bytes option" where
  "sample_write tag x = (if length x < 65536 then Some (tag # be_bytes 2 (length x) @ x) else None)"

definition sample_read :: "bytes \<Rightarrow> (bytes \<times> bytes) option" where
  "sample_read b = (let n = be_nat (take 2 (drop 1 b)); rest = drop 3 b in if n \<le> length rest then Some (take n rest, drop n rest) else None)"

definition sample_algorithm :: AlgorithmIdentifier where
  "sample_algorithm = \<lparr> ai_oid = [1], ai_parameters = None \<rparr>"

definition sample_der :: der_crate where
  "sample_der =
     \<lparr> dc_info_from_der = (\<lambda>b. Some \<lparr> pi_algorithm = sample_algorithm, pi_private_key = b, pi_public_key = None \<rparr>),
       dc_info_to_der = (\<lambda>info. if pi_algorithm info = sample_algorithm \<and> pi_public_key info = None then Some (pi_private_key info) else None),
       dc_reader_new = Some,
       dc_peek = (\<lambda>b. if hd b = 0x80 then Some (Tag_Context 0 False) else if hd b = 4 then Some Tag_OctetString else Some Tag_Sequence),
       dc_decode_implicit = (\<lambda>_ b. map_option (\<lambda>(x, rest). (Some x, rest)) (sample_read b)),
       dc_decode_octets = sample_read, dc_decode_any = sample_read,
       dc_octets_new = Some, dc_octets_to_der = sample_write 4, dc_implicit_to_der = (\<lambda>_. sample_write 0x80),
       dc_sequence_to_der = sample_write 0x30, dc_bits_from_bytes = (\<lambda>x. Some (0, x)) \<rparr>"

lemma sample_read_cons: "length x < 65536 \<Longrightarrow> sample_read (tag # be_bytes 2 (length x) @ x @ rest) = Some (x, rest)"
  by (simp add: sample_read_def be_nat_be_bytes Let_def drop_Cons')

lemma sample_der_ok: "der_ok sample_der"
  by (auto simp: der_ok_def sample_der_def sample_write_def sample_read_cons split: if_splits)

text \<open>The same crates with documents that also carry a public key, after the private key.\<close>

definition sample_der_public :: der_crate where
  "sample_der_public = sample_der
     \<lparr> dc_info_from_der := (\<lambda>b. map_option (\<lambda>(x, rest). \<lparr> pi_algorithm = sample_algorithm, pi_private_key = x,
           pi_public_key = if rest = [] then None else Some (0, tl rest) \<rparr>) (sample_read b)),
       dc_info_to_der := (\<lambda>info. if pi_algorithm info = sample_algorithm \<and> (case pi_public_key info of None \<Rightarrow> True | Some (n, _) \<Rightarrow> n = 0)
         then map_option (\<lambda>x. x @ (case pi_public_key info of None \<Rightarrow> [] | Some (_, p) \<Rightarrow> 1 # p)) (sample_write 9 (pi_private_key info)) else None) \<rparr>"

lemma sample_der_public_ok: "der_ok sample_der_public"
proof -
  have fields: "dc_octets_new sample_der_public = Some" "dc_reader_new sample_der_public = Some"
    "dc_octets_to_der sample_der_public = dc_octets_to_der sample_der" "dc_implicit_to_der sample_der_public = dc_implicit_to_der sample_der"
    "dc_sequence_to_der sample_der_public = dc_sequence_to_der sample_der" "dc_bits_from_bytes sample_der_public = dc_bits_from_bytes sample_der"
    "dc_peek sample_der_public = dc_peek sample_der" "dc_decode_octets sample_der_public = dc_decode_octets sample_der"
    "dc_decode_implicit sample_der_public = dc_decode_implicit sample_der" "dc_decode_any sample_der_public = dc_decode_any sample_der"
    by (simp_all add: sample_der_public_def sample_der_def)
  have "dc_info_from_der sample_der_public b = Some info" if b: "dc_info_to_der sample_der_public info = Some b" for info b
  proof -
    let ?tail = "case pi_public_key info of None \<Rightarrow> [] | Some (_, p) \<Rightarrow> 1 # p"
    have i: "pi_algorithm info = sample_algorithm" "case pi_public_key info of None \<Rightarrow> True | Some (n, _) \<Rightarrow> n = 0"
        "length (pi_private_key info) < 65536" "b = 9 # be_bytes 2 (length (pi_private_key info)) @ pi_private_key info @ ?tail"
      using b by (auto simp: sample_der_public_def sample_write_def simp del: be_bytes.simps split: if_splits)
    then have "sample_read b = Some (pi_private_key info, ?tail)" by (simp add: sample_read_cons)
    then show ?thesis using i(1,2) by (cases "pi_public_key info") (auto simp: sample_der_public_def)
  qed
  then show ?thesis using der_laws [OF sample_der_ok] unfolding der_ok_def fields by simp
qed


end
