(* ===== verification/Curve_Law.thy ===== *)
theory Curve_Law
  imports Prime_Facts
begin

text \<open>
  The reference for elliptic-curve code: congruence modulo a number, inverses modulo a prime, and the
  chord-and-tangent law on the affine points of \<open>y\<^sup>2 = x\<^sup>3 + a x + b\<close> over the integers modulo
  \<open>p\<close>. The law is commutative and stays on the curve; its associativity is the predicate
  \<open>curve_assoc\<close>, under which multiples of points add up.
\<close>

section \<open>Congruence and inverses\<close>

definition eqm :: "int \<Rightarrow> int \<Rightarrow> int \<Rightarrow> bool" where
  "eqm p a b \<longleftrightarrow> a mod p = b mod p"

lemma eqm_refl [simp, intro]: "eqm p a a"
  by (simp add: eqm_def)

lemma eqm_trans [trans]: "eqm p a b \<Longrightarrow> eqm p b c \<Longrightarrow> eqm p a c"
  by (simp add: eqm_def)

lemma eqm_sym: "eqm p a b \<Longrightarrow> eqm p b a"
  by (simp add: eqm_def)

lemma eqm_mod [simp]: "eqm p (a mod p) b \<longleftrightarrow> eqm p a b" "eqm p a (b mod p) \<longleftrightarrow> eqm p a b"
  by (simp_all add: eqm_def)

lemma eqm_add: "eqm p a b \<Longrightarrow> eqm p c d \<Longrightarrow> eqm p (a + c) (b + d)"
  unfolding eqm_def by (rule mod_add_cong)

lemma eqm_diff: "eqm p a b \<Longrightarrow> eqm p c d \<Longrightarrow> eqm p (a - c) (b - d)"
  unfolding eqm_def by (rule mod_diff_cong)

lemma eqm_mult: "eqm p a b \<Longrightarrow> eqm p c d \<Longrightarrow> eqm p (a * c) (b * d)"
  unfolding eqm_def by (rule mod_mult_cong)

lemma eqm_pow: "eqm p a b \<Longrightarrow> eqm p (a ^ n) (b ^ n)"
  by (induction n) (auto intro: eqm_mult)

lemmas eqm_intros = eqm_add eqm_diff eqm_mult eqm_pow

lemma eqm_dvd: "eqm p a b \<longleftrightarrow> p dvd a - b"
  unfolding eqm_def by (rule mod_eq_dvd_iff)

lemma eqm_zero: "eqm p a 0 \<longleftrightarrow> p dvd a"
  by (simp add: eqm_dvd)

lemma eqm_eq: "eqm p a b \<Longrightarrow> 0 \<le> a \<Longrightarrow> a < p \<Longrightarrow> 0 \<le> b \<Longrightarrow> b < p \<Longrightarrow> a = b"
  by (simp add: eqm_def)

text \<open>Modulo an odd prime the residues have no zero divisors, and powers give inverses.\<close>

definition odd_prime :: "int \<Rightarrow> bool" where
  "odd_prime p \<longleftrightarrow> 2 < p \<and> is_prime (nat p)"

lemma odd_prime_dvd_mult: "odd_prime p \<Longrightarrow> p dvd a * b \<longleftrightarrow> p dvd a \<or> p dvd b"
  using prime_dvd_mult [of "nat p" "nat \<bar>a\<bar>" "nat \<bar>b\<bar>"]
  by (simp add: odd_prime_def nat_abs_mult_distrib [symmetric] nat_dvd_iff)

lemma odd_prime_not_two: "odd_prime p \<Longrightarrow> \<not> p dvd 2"
  by (auto simp: odd_prime_def dest: zdvd_imp_le)

definition inv_mod :: "int \<Rightarrow> int \<Rightarrow> int" where
  "inv_mod p x = x ^ nat (p - 2) mod p"

lemma inv_mod:
  assumes "odd_prime p" "\<not> p dvd x"
  shows "eqm p (x * inv_mod p x) 1"
proof -
  obtain m where m: "p = int m" "is_prime m" "2 < m"
    using assms(1) by (metis nat_0_le odd_prime_def zero_le_numeral order_trans less_imp_le nat_less_iff of_nat_less_iff of_nat_numeral)
  define y where "y = nat (x mod p)"
  have y: "int y = x mod p" using m by (simp add: y_def)
  have "\<not> m dvd y"
    using assms(2) y by (metis dvd_mod_iff dvd_refl int_dvd_int_iff m(1))
  then have "y ^ (m - 1) mod m = 1" using fermat_unit [OF m(2)] by simp
  then have f: "int y ^ (m - 1) mod p = 1" unfolding m(1) by (metis of_nat_1 of_nat_mod of_nat_power)
  have "nat (p - 2) = m - 2" using m by simp
  then have e: "x * x ^ nat (p - 2) = x ^ (m - 1)"
    using m(3) by (metis Suc_1 Suc_diff_Suc Suc_lessD diff_Suc_1 diff_Suc_Suc numeral_2_eq_2 power_Suc)
  have "eqm p (x * inv_mod p x) (x * x ^ nat (p - 2))" unfolding inv_mod_def by (intro eqm_mult) simp_all
  also have "eqm p (x * x ^ nat (p - 2)) (int y ^ (m - 1))" unfolding e using y by (intro eqm_pow) simp
  also have "eqm p (int y ^ (m - 1)) 1" using f m(3) unfolding eqm_def by (simp add: m(1))
  finally show ?thesis .
qed


lemma eqm_cancel:
  assumes "odd_prime p" "\<not> p dvd d" "eqm p (a * d) (b * d)"
  shows "eqm p a b"
  using assms odd_prime_dvd_mult [OF assms(1), of "a - b" d] by (simp add: eqm_dvd left_diff_distrib)


section \<open>The affine law\<close>

datatype point = Infinity | Point int int

definition slope :: "int \<Rightarrow> int \<Rightarrow> int \<Rightarrow> int" where
  "slope p num den = num * inv_mod p den mod p"

text \<open>The third point of the line with slope \<open>l\<close> through \<open>(x1, y1)\<close> and a point over \<open>x2\<close>, reflected.\<close>

definition third :: "int \<Rightarrow> int \<Rightarrow> int \<Rightarrow> int \<Rightarrow> int \<Rightarrow> point" where
  "third p l x1 y1 x2 = (let x3 = (l ^ 2 - x1 - x2) mod p in Point x3 ((l * (x1 - x3) - y1) mod p))"

fun ec_double :: "int \<Rightarrow> int \<Rightarrow> point \<Rightarrow> point" where
  "ec_double p a Infinity = Infinity"
| "ec_double p a (Point x y) = (if y = 0 then Infinity else third p (slope p (3 * x ^ 2 + a) (2 * y)) x y x)"

fun ec_add :: "int \<Rightarrow> int \<Rightarrow> point \<Rightarrow> point \<Rightarrow> point" where
  "ec_add p a Infinity Q = Q"
| "ec_add p a (Point x1 y1) Infinity = Point x1 y1"
| "ec_add p a (Point x1 y1) (Point x2 y2) =
     (if x1 = x2 then (if y1 = y2 then ec_double p a (Point x1 y1) else Infinity)
      else third p (slope p (y2 - y1) (x2 - x1)) x1 y1 x2)"

fun on_curve :: "int \<Rightarrow> int \<Rightarrow> int \<Rightarrow> point \<Rightarrow> bool" where
  "on_curve p a b Infinity = True"
| "on_curve p a b (Point x y) \<longleftrightarrow> 0 \<le> x \<and> x < p \<and> 0 \<le> y \<and> y < p \<and> eqm p (y ^ 2) (x ^ 3 + a * x + b)"

lemma ec_add_Infinity_right [simp]: "ec_add p a P Infinity = P"
  by (cases P) simp_all

lemma ec_add_self: "ec_add p a P P = ec_double p a P"
  by (cases P) simp_all

lemma residue_dvd: "0 \<le> x \<Longrightarrow> x < p \<Longrightarrow> 0 \<le> y \<Longrightarrow> y < p \<Longrightarrow> p dvd x - y \<longleftrightarrow> x = y" for x y p :: int
  using eqm_eq [of p x y] by (auto simp: eqm_dvd)

lemma slope_eq:
  assumes "odd_prime p" "\<not> p dvd den"
  shows "eqm p (slope p num den * den) num"
proof -
  have "eqm p (slope p num den * den) (num * (den * inv_mod p den))"
    unfolding slope_def eqm_def by (simp add: mod_simps algebra_simps)
  also have "eqm p (num * (den * inv_mod p den)) (num * 1)" by (intro eqm_mult inv_mod assms) simp
  finally show ?thesis by simp
qed

lemma slope_range: "odd_prime p \<Longrightarrow> 0 \<le> slope p num den \<and> slope p num den < p"
  by (simp add: slope_def odd_prime_def)

lemma slope_unique:
  assumes "odd_prime p" "\<not> p dvd den" "eqm p (l * den) num"
  shows "eqm p l (slope p num den)"
proof (rule eqm_cancel [OF assms(1,2)])
  show "eqm p (l * den) (slope p num den * den)" using assms(3) slope_eq [OF assms(1,2), of num] by (simp add: eqm_def)
qed

text \<open>A chord meets the curve in a third point, and so does a tangent.\<close>

lemma third_on_curve:
  assumes "odd_prime p"
    "eqm p (((l * (x1 - (l ^ 2 - x1 - x2)) - y1) ^ 2)) ((l ^ 2 - x1 - x2) ^ 3 + a * (l ^ 2 - x1 - x2) + b)"
  shows "on_curve p a b (third p l x1 y1 x2)"
proof -
  have p: "0 < p" using assms(1) by (simp add: odd_prime_def)
  let ?x = "l ^ 2 - x1 - x2"
  have "eqm p (((l * (x1 - ?x mod p) - y1) mod p) ^ 2) ((l * (x1 - ?x) - y1) ^ 2)"
    by (intro eqm_pow) (unfold eqm_mod(1), intro eqm_intros eqm_refl, unfold eqm_mod(1), rule eqm_refl)
  also note assms(2)
  also have "eqm p (?x ^ 3 + a * ?x + b) ((?x mod p) ^ 3 + a * (?x mod p) + b)"
    by (intro eqm_intros eqm_refl; unfold eqm_mod(2); rule eqm_refl)
  finally show ?thesis using p by (simp add: third_def Let_def)
qed

lemma chord_identity:
  fixes l x1 x2 y1 a b :: int
  defines "x3 \<equiv> l ^ 2 - x1 - x2"
  defines "f \<equiv> \<lambda>x. x ^ 3 + a * x + b - (y1 + l * (x - x1)) ^ 2"
  shows "f x3 * (x2 - x1) = f x1 * (x2 - x3) + f x2 * (x3 - x1)"
  unfolding x3_def f_def by algebra

lemma tangent_identity:
  fixes l x1 x2 y1 a b :: int
  defines "x3 \<equiv> l ^ 2 - x1 - x1"
  defines "f \<equiv> \<lambda>x. x ^ 3 + a * x + b - (y1 + l * (x - x1)) ^ 2"
  shows "f x3 = f x1 + (x3 - x1) * (3 * x1 ^ 2 + a - l * (2 * y1))"
  unfolding x3_def f_def by algebra


lemma ec_double_on_curve:
  assumes "odd_prime p" "on_curve p a b P"
  shows "on_curve p a b (ec_double p a P)"
proof (cases "P = Infinity \<or> (\<exists>x. P = Point x 0)")
  case True
  then show ?thesis by auto
next
  case False
  then obtain x y where P: "P = Point x y" "y \<noteq> 0" by (cases P) auto
  let ?l = "slope p (3 * x ^ 2 + a) (2 * y)" and ?f = "\<lambda>l z. z ^ 3 + a * z + b - (y + l * (z - x)) ^ 2"
  have r: "0 \<le> y" "y < p" "eqm p (y ^ 2) (x ^ 3 + a * x + b)" using assms(2) P by simp_all
  have "\<not> p dvd y" using r P(2) by (auto dest: zdvd_imp_le)
  then have "\<not> p dvd 2 * y" using odd_prime_dvd_mult [OF assms(1)] odd_prime_not_two [OF assms(1)] by blast
  then have "eqm p (?l * (2 * y)) (3 * x ^ 2 + a)" by (rule slope_eq [OF assms(1)])
  then have t: "p dvd 3 * x ^ 2 + a - ?l * (2 * y)" using eqm_dvd eqm_sym by blast
  have "p dvd ?f ?l x" using eqm_sym [OF r(3)] by (simp add: eqm_dvd)
  then have "p dvd ?f ?l (?l ^ 2 - x - x)" using t unfolding tangent_identity [of ?l x a b y] by (intro dvd_add dvd_mult)
  then have "eqm p ((?l * (x - (?l ^ 2 - x - x)) - y) ^ 2) ((?l ^ 2 - x - x) ^ 3 + a * (?l ^ 2 - x - x) + b)"
    unfolding eqm_dvd by (subst dvd_minus_iff [symmetric]) (simp add: algebra_simps power2_eq_square)
  then show ?thesis using P third_on_curve [OF assms(1)] by simp
qed

lemma ec_add_on_curve:
  assumes "odd_prime p" "on_curve p a b P" "on_curve p a b Q"
  shows "on_curve p a b (ec_add p a P Q)"
proof (cases "\<exists>x1 y1 x2 y2. P = Point x1 y1 \<and> Q = Point x2 y2 \<and> x1 \<noteq> x2")
  case False
  then have "ec_add p a P Q \<in> {P, Q, Infinity, ec_double p a P}" by (cases P; cases Q) auto
  then show ?thesis using assms ec_double_on_curve [OF assms(1,2)] by (metis empty_iff insert_iff on_curve.simps(1))
next
  case True
  then obtain x1 y1 x2 y2 where P: "P = Point x1 y1" "Q = Point x2 y2" "x1 \<noteq> x2" by blast
  let ?l = "slope p (y2 - y1) (x2 - x1)" and ?f = "\<lambda>l z. z ^ 3 + a * z + b - (y1 + l * (z - x1)) ^ 2"
  let ?x = "?l ^ 2 - x1 - x2"
  have d: "\<not> p dvd x2 - x1" using assms P residue_dvd [of x2 p x1] by auto
  have "eqm p (?l * (x2 - x1)) (y2 - y1)" by (rule slope_eq [OF assms(1) d])
  then have "eqm p (y1 + ?l * (x2 - x1)) (y1 + (y2 - y1))" by (intro eqm_add eqm_refl)
  then have "eqm p ((y1 + ?l * (x2 - x1)) ^ 2) (y2 ^ 2)" by (intro eqm_pow) simp
  also have "eqm p (y2 ^ 2) (x2 ^ 3 + a * x2 + b)" using assms(3) P by simp
  finally have 2: "p dvd ?f ?l x2" using eqm_dvd eqm_sym by blast
  have "eqm p (y1 ^ 2) (x1 ^ 3 + a * x1 + b)" using assms(2) P by simp
  then have "p dvd ?f ?l x1" using eqm_dvd eqm_sym by fastforce
  then have "p dvd ?f ?l ?x * (x2 - x1)" using 2 unfolding chord_identity [of ?l x1 x2 a b y1] by (intro dvd_add dvd_mult2)
  then have "p dvd ?f ?l ?x" using odd_prime_dvd_mult [OF assms(1)] d by blast
  then have "eqm p ((?l * (x1 - ?x) - y1) ^ 2) (?x ^ 3 + a * ?x + b)"
    unfolding eqm_dvd by (subst dvd_minus_iff [symmetric]) (simp add: algebra_simps power2_eq_square)
  then show ?thesis using P third_on_curve [OF assms(1)] by simp
qed

lemma third_comm:
  assumes "eqm p (l * (x2 - x1)) (y2 - y1)"
  shows "third p l x1 y1 x2 = third p l x2 y2 x1"
proof -
  let ?x = "(l ^ 2 - x1 - x2) mod p"
  have "eqm p (l * (x1 - ?x) - y1) (l * (x2 - ?x) - y2)"
    using assms unfolding eqm_dvd by (subst dvd_minus_iff [symmetric]) (simp add: algebra_simps)
  then show ?thesis by (simp add: third_def Let_def eqm_def algebra_simps)
qed

lemma third_cong:
  assumes "eqm p l l'"
  shows "third p l x1 y1 x2 = third p l' x1 y1 x2"
proof -
  have "eqm p (l ^ 2 - x1 - x2) (l' ^ 2 - x1 - x2)" using assms by (intro eqm_intros eqm_refl)
  then have x: "(l ^ 2 - x1 - x2) mod p = (l' ^ 2 - x1 - x2) mod p" by (simp add: eqm_def)
  have "eqm p (l * (x1 - k) - y1) (l' * (x1 - k) - y1)" for k using assms by (intro eqm_intros eqm_refl)
  then show ?thesis unfolding third_def Let_def x by (simp add: eqm_def)
qed

lemma ec_add_comm:
  assumes "odd_prime p" "on_curve p a b P" "on_curve p a b Q"
  shows "ec_add p a P Q = ec_add p a Q P"
proof (cases "\<exists>x1 y1 x2 y2. P = Point x1 y1 \<and> Q = Point x2 y2 \<and> x1 \<noteq> x2")
  case False
  then show ?thesis by (cases P; cases Q) auto
next
  case True
  then obtain x1 y1 x2 y2 where P: "P = Point x1 y1" "Q = Point x2 y2" "x1 \<noteq> x2" by blast
  let ?l = "slope p (y2 - y1) (x2 - x1)"
  have d: "\<not> p dvd x2 - x1" using assms P residue_dvd [of x2 p x1] by auto
  then have d': "\<not> p dvd x1 - x2" by (metis dvd_minus_iff minus_diff_eq)
  have l: "eqm p (?l * (x2 - x1)) (y2 - y1)" by (rule slope_eq [OF assms(1) d])
  then have "eqm p (0 - ?l * (x2 - x1)) (0 - (y2 - y1))" by (intro eqm_diff eqm_refl)
  then have "eqm p (?l * (x1 - x2)) (y1 - y2)" by (simp add: algebra_simps)
  then have "eqm p ?l (slope p (y1 - y2) (x1 - x2))" by (rule slope_unique [OF assms(1) d'])
  then show ?thesis using P third_comm [OF l] third_cong by simp
qed


section \<open>Multiples of a point\<close>

text \<open>
  The contract of a group of points, for parameters \<open>c\<close> that satisfy \<open>env\<close>: what sums of multiples and
  the interleaved double-and-add method need of it.
\<close>

fun nfold :: "('g \<Rightarrow> 'g \<Rightarrow> 'g) \<Rightarrow> 'g \<Rightarrow> nat \<Rightarrow> 'g \<Rightarrow> 'g" where
  "nfold f z 0 P = z"
| "nfold f z (Suc k) P = f (nfold f z k P) P"

definition bits_value :: "bool list \<Rightarrow> nat" where
  "bits_value bs = foldl (\<lambda>v b. 2 * v + of_bool b) 0 bs"

locale point_monoid =
  fixes env :: "'c \<Rightarrow> bool"
    and mem :: "'c \<Rightarrow> 'g \<Rightarrow> bool"
    and plus :: "'c \<Rightarrow> 'g \<Rightarrow> 'g \<Rightarrow> 'g"
    and zero :: 'g
  assumes mem_zero: "mem c zero"
    and mem_plus: "env c \<Longrightarrow> mem c P \<Longrightarrow> mem c Q \<Longrightarrow> mem c (plus c P Q)"
    and plus_zero: "plus c P zero = P" "plus c zero P = P"
    and plus_comm: "env c \<Longrightarrow> mem c P \<Longrightarrow> mem c Q \<Longrightarrow> plus c P Q = plus c Q P"
    and plus_assoc: "env c \<Longrightarrow> mem c P \<Longrightarrow> mem c Q \<Longrightarrow> mem c R \<Longrightarrow> plus c (plus c P Q) R = plus c P (plus c Q R)"
begin

lemma mem_nfold: "env c \<Longrightarrow> mem c P \<Longrightarrow> mem c (nfold (plus c) zero k P)"
  by (induction k) (simp_all add: mem_zero mem_plus)

lemmas mems = mem_zero mem_plus mem_nfold

lemma plus_interchange:
  assumes "env c" "mem c P" "mem c Q" "mem c R" "mem c S"
  shows "plus c (plus c P Q) (plus c R S) = plus c (plus c P R) (plus c Q S)"
  using assms by (metis mem_plus plus_assoc plus_comm)

lemma nfold_plus:
  assumes "env c" "mem c P"
  shows "nfold (plus c) zero (m + n) P = plus c (nfold (plus c) zero m P) (nfold (plus c) zero n P)"
  using assms by (induction n) (simp_all add: plus_zero plus_assoc mems)

lemma nfold_mult:
  assumes "env c" "mem c P"
  shows "nfold (plus c) zero (m * n) P = nfold (plus c) zero m (nfold (plus c) zero n P)"
  using assms by (induction m) (simp_all add: nfold_plus plus_comm mems)

lemma nfold_double: "env c \<Longrightarrow> mem c P \<Longrightarrow> nfold (plus c) zero (2 * n) P = plus c (nfold (plus c) zero n P) (nfold (plus c) zero n P)"
  by (simp add: mult_2 nfold_plus)

lemma nfold_zero: "nfold (plus c) zero k zero = zero"
  by (induction k) (simp_all add: plus_zero)

lemma nfold_mod:
  assumes "env c" "mem c P" "nfold (plus c) zero n P = zero"
  shows "nfold (plus c) zero (k mod n) P = nfold (plus c) zero k P"
proof -
  have "nfold (plus c) zero (k div n * n + k mod n) P = nfold (plus c) zero (k mod n) P"
    using assms by (simp only: nfold_plus nfold_mult nfold_zero plus_zero)
  then show ?thesis by simp
qed

text \<open>One step of double-and-add on two scalars at once, and the whole method.\<close>

lemma interleaved_step:
  assumes "env c" "mem c P" "mem c Q"
  defines "R \<equiv> \<lambda>u v. plus c (nfold (plus c) zero u P) (nfold (plus c) zero v Q)"
  shows "plus c (plus c (R u v) (R u v)) (R (of_bool l) (of_bool r)) = R (2 * u + of_bool l) (2 * v + of_bool r)"
proof -
  let ?u = "\<lambda>k. nfold (plus c) zero k P" and ?v = "\<lambda>k. nfold (plus c) zero k Q"
  have "plus c (R u v) (R u v) = R (2 * u) (2 * v)"
    unfolding R_def using assms(1-3) by (simp only: nfold_double plus_interchange mems)
  then show ?thesis unfolding R_def using assms(1-3) by (simp only: nfold_plus plus_interchange mems)
qed

lemma interleaved:
  assumes "env c" "mem c P" "mem c Q"
    and step: "\<And>T l r. mem c T \<Longrightarrow> step T (l, r) = plus c (plus c T T)
       (plus c (nfold (plus c) zero (of_bool l) P) (nfold (plus c) zero (of_bool r) Q))"
  shows "foldl step zero bs = plus c (nfold (plus c) zero (bits_value (map fst bs)) P) (nfold (plus c) zero (bits_value (map snd bs)) Q)"
proof (induction bs rule: rev_induct)
  case (snoc b bs)
  obtain l r where b: "b = (l, r)" by (cases b)
  have "foldl step zero (bs @ [b]) = step (foldl step zero bs) (l, r)" using b by simp
  also have "\<dots> = plus c (nfold (plus c) zero (2 * bits_value (map fst bs) + of_bool l) P)
      (nfold (plus c) zero (2 * bits_value (map snd bs) + of_bool r) Q)"
    unfolding snoc.IH using assms(1-3) by (simp only: step interleaved_step mems)
  finally show ?case by (simp add: bits_value_def b)
qed (simp add: bits_value_def plus_zero)

end

definition curve_assoc :: "int \<Rightarrow> int \<Rightarrow> int \<Rightarrow> bool" where
  "curve_assoc p a b \<longleftrightarrow> (\<forall>P Q R. on_curve p a b P \<and> on_curve p a b Q \<and> on_curve p a b R \<longrightarrow>
     ec_add p a (ec_add p a P Q) R = ec_add p a P (ec_add p a Q R))"

definition smul :: "int \<Rightarrow> int \<Rightarrow> nat \<Rightarrow> point \<Rightarrow> point" where
  "smul p a = nfold (ec_add p a) Infinity"

fun curve_env :: "int \<times> int \<times> int \<Rightarrow> bool" where
  "curve_env (p, a, b) \<longleftrightarrow> odd_prime p \<and> curve_assoc p a b"

interpretation pts: point_monoid curve_env "\<lambda>(p, a, b). on_curve p a b" "\<lambda>(p, a, b). ec_add p a" Infinity
proof (unfold_locales, goal_cases)
  case (2 c P Q)
  then show ?case by (cases c) (simp add: ec_add_on_curve)
next
  case (5 c P Q)
  then show ?case by (cases c) (metis (mono_tags, lifting) curve_env.simps ec_add_comm split_conv)
next
  case (6 c P Q R)
  then show ?case by (cases c) (auto simp: curve_assoc_def)
qed (auto split: prod.splits)

lemma smul_simps [simp]: "smul p a 0 P = Infinity" "smul p a (Suc 0) P = P" "smul p a (Suc k) P = ec_add p a (smul p a k P) P"
  by (simp_all add: smul_def)

end
