(* ===== verification/Brainpool512.thy ===== *)
theory Brainpool512
  imports Curve_Law Rsa_Encoding
begin

text \<open>
  \<^verbatim>\<open>src/src/brainpool512.rs\<close>: verification of ECDSA signatures on brainpoolP512r1, written on big
  integers: points in Jacobian coordinates, their doubling and addition, the interleaved multiplication of
  two points, and the verification itself. The big integers are natural numbers; the only operation of their crate
  that is not plain arithmetic, \<open>mod_inverse\<close>, is a parameter. The trait implementations of the
  file hand the same constants to the field and curve crates.

  The arithmetic is proved equal to the affine law of \<open>Curve_Law\<close> for every prime modulus, and the
  verification to the equation of SEC 1 for every curve; the constants of brainpoolP512r1 are checked to be a point
  on a nonsingular curve.
\<close>

section \<open>Points\<close>

record PublicPoint =
  pt_x :: nat
  pt_y :: nat
  pt_z :: nat

definition mod_sub :: "nat \<Rightarrow> nat \<Rightarrow> nat \<Rightarrow> nat" where
  "mod_sub left right modulus =
     (if left \<ge> right then (left - right) mod modulus else modulus - ((right - left) mod modulus))"

definition point_double :: "PublicPoint \<Rightarrow> nat \<Rightarrow> nat \<Rightarrow> PublicPoint" where
  "point_double point p a =
     (if pt_z point = 0 \<or> pt_y point = 0 then \<lparr> pt_x = 0, pt_y = 1, pt_z = 0 \<rparr>
      else
        let xx = (pt_x point * pt_x point) mod p;
            yy = (pt_y point * pt_y point) mod p;
            yyyy = (yy * yy) mod p;
            zz = (pt_z point * pt_z point) mod p;
            x_plus_yy = (pt_x point + yy) mod p;
            s = mod_sub ((x_plus_yy * x_plus_yy) mod p) xx p;
            s = mod_sub s yyyy p;
            s = (s * 2) mod p;
            m = (xx * 3 + a * zz * zz) mod p;
            x = mod_sub ((m * m) mod p) ((s * 2) mod p) p;
            y = (m * mod_sub s x p) mod p;
            y = mod_sub y ((yyyy * 8) mod p) p;
            z = ((pt_y point * pt_z point) * 2) mod p
        in \<lparr> pt_x = x, pt_y = y, pt_z = z \<rparr>)"

definition point_add :: "PublicPoint \<Rightarrow> PublicPoint \<Rightarrow> nat \<Rightarrow> nat \<Rightarrow> PublicPoint" where
  "point_add left right p a =
     (if pt_z left = 0 then right
      else if pt_z right = 0 then left
      else
        let z1z1 = (pt_z left * pt_z left) mod p;
            z2z2 = (pt_z right * pt_z right) mod p;
            u1 = (pt_x left * z2z2) mod p;
            u2 = (pt_x right * z1z1) mod p;
            s1 = ((pt_y left * pt_z right) * z2z2) mod p;
            s2 = ((pt_y right * pt_z left) * z1z1) mod p
        in
          if u1 = u2 then
            (if s1 = s2 then point_double left p a else \<lparr> pt_x = 0, pt_y = 1, pt_z = 0 \<rparr>)
          else
            let h = mod_sub u2 u1 p;
                two_h = (h * 2) mod p;
                i = (two_h * two_h) mod p;
                j = (h * i) mod p;
                r = (mod_sub s2 s1 p * 2) mod p;
                v = (u1 * i) mod p;
                x = mod_sub ((r * r) mod p) j p;
                x = mod_sub x ((v * 2) mod p) p;
                y = (r * mod_sub v x p) mod p;
                y = mod_sub y (((s1 * j) * 2) mod p) p;
                z_sum = (pt_z left + pt_z right) mod p;
                z = mod_sub ((z_sum * z_sum) mod p) z1z1 p;
                z = mod_sub z z2z2 p;
                z = (z * h) mod p
            in \<lparr> pt_x = x, pt_y = y, pt_z = z \<rparr>)"

text \<open>The body of the two nested loops of \<open>multiply_sum\<close>.\<close>

definition multiply_bit ::
  "PublicPoint \<Rightarrow> PublicPoint \<Rightarrow> PublicPoint \<Rightarrow> nat \<Rightarrow> nat \<Rightarrow> byte \<Rightarrow> byte \<Rightarrow> nat \<Rightarrow> PublicPoint \<Rightarrow> PublicPoint" where
  "multiply_bit left right combined p a left_byte right_byte k result =
     (let result = point_double result p a in
      case (left_byte AND push_bit k 1 \<noteq> 0, right_byte AND push_bit k 1 \<noteq> 0) of
        (False, False) \<Rightarrow> result
      | (True, False) \<Rightarrow> point_add result left p a
      | (False, True) \<Rightarrow> point_add result right p a
      | (True, True) \<Rightarrow> point_add result combined p a)"

definition multiply_sum :: "nat \<Rightarrow> PublicPoint \<Rightarrow> nat \<Rightarrow> PublicPoint \<Rightarrow> nat \<Rightarrow> nat \<Rightarrow> PublicPoint" where
  "multiply_sum left_scalar left right_scalar right p a =
     (let left_bytes = to_bytes_be left_scalar;
          right_bytes = to_bytes_be right_scalar;
          len = max (length left_bytes) (length right_bytes);
          combined = point_add left right p a;
          left_offset = len - length left_bytes;
          right_offset = len - length right_bytes
      in fold (\<lambda>index result.
           let left_byte = (if index < left_offset then 0 else left_bytes ! (index - left_offset));
               right_byte = (if index < right_offset then 0 else right_bytes ! (index - right_offset))
           in fold (multiply_bit left right combined p a left_byte right_byte) (rev [0..<8]) result)
         [0..<len] \<lparr> pt_x = 0, pt_y = 1, pt_z = 0 \<rparr>)"


section \<open>Verification\<close>

datatype BrainpoolP512VerifyError = BrainpoolP512VerifyError

text \<open>The constants of a curve, and those of brainpoolP512r1.\<close>

record curve_constants =
  cc_p :: nat
  cc_a :: nat
  cc_b :: nat
  cc_n :: nat
  cc_gx :: nat
  cc_gy :: nat

definition brainpoolP512r1 :: curve_constants where
  "brainpoolP512r1 = \<lparr>
     cc_p = 0xaadd9db8dbe9c48b3fd4e6ae33c9fc07cb308db3b3c9d20ed6639cca703308717d4d9b009bc66842aecda12ae6a380e62881ff2f2d82c68528aa6056583a48f3,
     cc_a = 0x7830a3318b603b89e2327145ac234cc594cbdd8d3df91610a83441caea9863bc2ded5d5aa8253aa10a2ef1c98b9ac8b57f1117a72bf2c7b9e7c1ac4d77fc94ca,
     cc_b = 0x3df91610a83441caea9863bc2ded5d5aa8253aa10a2ef1c98b9ac8b57f1117a72bf2c7b9e7c1ac4d77fc94cadc083e67984050b75ebae5dd2809bd638016f723,
     cc_n = 0xaadd9db8dbe9c48b3fd4e6ae33c9fc07cb308db3b3c9d20ed6639cca70330870553e5c414ca92619418661197fac10471db1d381085ddaddb58796829ca90069,
     cc_gx = 0x81aee4bdd82ed9645a21322e9c4c6a9385ed9f70b5d916c1b43b62eef4d0098eff3b1f78e2d0d48d50d1687b93b97d5f7c6d5047406a5e688b352209bcb9f822,
     cc_gy = 0x7dde385d566332ecc0eabfa9cf7822fdf209f70024a57b1aa000c55b881f8111b2dcde494a5f485e5bca4bd88a2763aed1ca2b2fa8f0540678cd1e0f3ad80892 \<rparr>"

definition to_biguint :: "int \<Rightarrow> nat option" where
  "to_biguint i = (if i < 0 then None else Some (nat i))"

text \<open>The body of \<open>verify_prehash\<close> for given constants.\<close>

definition verify_prehash_on ::
  "curve_constants \<Rightarrow> (nat \<Rightarrow> nat \<Rightarrow> int option) \<Rightarrow> bytes \<Rightarrow> bytes \<Rightarrow> bytes \<Rightarrow> BrainpoolP512VerifyError + unit" where
  "verify_prehash_on cc mod_inverse public_key dig signature =
     bindR (rejectR (length public_key \<noteq> 1 + 2 * 64 \<or> public_key ! 0 \<noteq> 0x04 \<or> length signature \<noteq> 2 * 64)
       BrainpoolP512VerifyError) (\<lambda>_.
     let p = cc_p cc; a = cc_a cc; b = cc_b cc; n = cc_n cc;
         generator = \<lparr> pt_x = cc_gx cc, pt_y = cc_gy cc, pt_z = 1 \<rparr>;
         public = \<lparr> pt_x = be_nat (slice_range 1 65 public_key), pt_y = be_nat (drop 65 public_key), pt_z = 1 \<rparr> in
     bindR (rejectR (pt_x public \<ge> p \<or> pt_y public \<ge> p) BrainpoolP512VerifyError) (\<lambda>_.
     let lhs = (pt_y public * pt_y public) mod p;
         rhs = (pt_x public * pt_x public * pt_x public + a * pt_x public + b) mod p in
     bindR (rejectR (lhs \<noteq> rhs) BrainpoolP512VerifyError) (\<lambda>_.
     let r = be_nat (take 64 signature);
         s = be_nat (drop 64 signature) in
     bindR (rejectR (r = 0 \<or> r \<ge> n \<or> s = 0 \<or> s \<ge> n) BrainpoolP512VerifyError) (\<lambda>_.
     let z = be_nat dig;
         z = (if length dig * 8 > nat_bits n then drop_bit (length dig * 8 - nat_bits n) z else z) in
     bindR (ok_orR BrainpoolP512VerifyError (Option.bind (mod_inverse s n) to_biguint)) (\<lambda>w.
     let point = multiply_sum ((z * w) mod n) generator ((r * w) mod n) public p a in
     bindR (rejectR (pt_z point = 0) BrainpoolP512VerifyError) (\<lambda>_.
     bindR (ok_orR BrainpoolP512VerifyError (Option.bind (mod_inverse (pt_z point) p) to_biguint)) (\<lambda>inv.
     let x = (pt_x point * inv * inv) mod p in
     if x mod n = r then Inr () else Inl BrainpoolP512VerifyError)))))))"

definition verify_prehash :: "(nat \<Rightarrow> nat \<Rightarrow> int option) \<Rightarrow> bytes \<Rightarrow> bytes \<Rightarrow> bytes \<Rightarrow> BrainpoolP512VerifyError + unit" where
  "verify_prehash mod_inverse public_key dig signature = verify_prehash_on brainpoolP512r1 mod_inverse public_key dig signature"



section \<open>Jacobian and affine coordinates\<close>

text \<open>Coordinates below the modulus, kept by every operation; the affine point of a Jacobian one.\<close>

definition reduced :: "nat \<Rightarrow> PublicPoint \<Rightarrow> bool" where
  "reduced p P \<longleftrightarrow> pt_x P < p \<and> pt_y P < p \<and> pt_z P < p"

definition affine :: "nat \<Rightarrow> PublicPoint \<Rightarrow> point" where
  "affine p P =
     (if pt_z P = 0 then Infinity
      else let i = inv_mod (int p) (int (pt_z P)) in
           Point (int (pt_x P) * i ^ 2 mod int p) (int (pt_y P) * i ^ 3 mod int p))"

lemma mod_sub_less: "0 < p \<Longrightarrow> l < p \<Longrightarrow> r < p \<Longrightarrow> mod_sub l r p < p"
  by (auto simp: mod_sub_def)

lemma eqm_mod_sub: "0 < p \<Longrightarrow> eqm (int p) (int (mod_sub l r p)) (int l - int r)"
proof -
  assume p: "0 < p"
  have "(r - l) mod p \<le> p" using p by (simp add: less_imp_le)
  then show ?thesis
    unfolding mod_sub_def eqm_def
    by (auto simp: of_nat_diff zmod_int of_nat_mod mod_simps)
qed

lemma eqm_int_mod: "eqm (int p) (int (k mod p)) (int k)"
  by (simp add: zmod_int)

text \<open>What a computed value is congruent to, from the values it is computed from.\<close>

lemma eqm_calc:
  "eqm (int p) (int k) k' \<Longrightarrow> eqm (int p) (int l) l' \<Longrightarrow> eqm (int p) (int (k * l mod p)) (k' * l')"
  "eqm (int p) (int k) k' \<Longrightarrow> eqm (int p) (int l) l' \<Longrightarrow> eqm (int p) (int ((k + l) mod p)) (k' + l')"
  "0 < p \<Longrightarrow> eqm (int p) (int k) k' \<Longrightarrow> eqm (int p) (int l) l' \<Longrightarrow> eqm (int p) (int (mod_sub k l p)) (k' - l')"
proof -
  show "eqm (int p) (int (k * l mod p)) (k' * l')" if "eqm (int p) (int k) k'" "eqm (int p) (int l) l'"
    using eqm_mult [OF that] by (simp add: zmod_int)
  show "eqm (int p) (int ((k + l) mod p)) (k' + l')" if "eqm (int p) (int k) k'" "eqm (int p) (int l) l'"
    using eqm_add [OF that] by (simp add: zmod_int)
  show "eqm (int p) (int (mod_sub k l p)) (k' - l')" if "0 < p" "eqm (int p) (int k) k'" "eqm (int p) (int l) l'"
    using eqm_trans [OF eqm_mod_sub [OF that(1)] eqm_diff [OF that(2,3)]] .
qed


lemma eqm_calc3: "eqm (int p) (int k) k' \<Longrightarrow> eqm (int p) (int l) l' \<Longrightarrow> eqm (int p) (int m) m' \<Longrightarrow> eqm (int p) (int (k * l * m mod p)) (k' * l' * m')"
  by (rule eqm_calc(1)) (simp_all add: eqm_mult)

lemma eqm_numeral: "eqm (int p) (int (numeral k)) (numeral k)"
  by simp

lemmas calc = eqm_calc(1,2) eqm_calc3 eqm_numeral eqm_refl

text \<open>The affine point of a Jacobian one is the only one with the right multiples.\<close>

lemma not_dvd_residue: "0 < z \<Longrightarrow> z < p \<Longrightarrow> \<not> int p dvd int z"
  by (auto dest: zdvd_imp_le)

lemma reduced_z: "reduced p P \<Longrightarrow> pt_z P \<noteq> 0 \<Longrightarrow> \<not> int p dvd int (pt_z P)"
  by (intro not_dvd_residue) (auto simp: reduced_def)

lemma affineI:
  assumes "odd_prime (int p)" "0 < pt_z P" "pt_z P < p" "0 \<le> X" "X < int p" "0 \<le> Y" "Y < int p"
    "eqm (int p) (int (pt_x P)) (X * int (pt_z P) ^ 2)" "eqm (int p) (int (pt_y P)) (Y * int (pt_z P) ^ 3)"
  shows "affine p P = Point X Y"
proof -
  let ?z = "int (pt_z P)" and ?i = "inv_mod (int p) (int (pt_z P))"
  have z: "eqm (int p) (?z * ?i) 1" using assms(2,3) by (intro inv_mod assms(1) not_dvd_residue)
  have c: "eqm (int p) (v * ?i ^ k) V" if "eqm (int p) v (V * ?z ^ k)" for v V k
  proof -
    have "eqm (int p) (v * ?i ^ k) (V * ?z ^ k * ?i ^ k)" using that by (intro eqm_mult eqm_refl)
    also have "V * ?z ^ k * ?i ^ k = V * (?z * ?i) ^ k" by (simp add: power_mult_distrib)
    also have "eqm (int p) (V * (?z * ?i) ^ k) (V * 1 ^ k)" using z by (intro eqm_intros eqm_refl)
    finally show ?thesis by simp
  qed
  show ?thesis using c [OF assms(8)] c [OF assms(9)] assms(2,4-7) by (simp add: affine_def Let_def eqm_def)
qed

lemma affineE:
  assumes "odd_prime (int p)" "reduced p P" "pt_z P \<noteq> 0"
  obtains X Y where "affine p P = Point X Y" "0 \<le> X" "X < int p" "0 \<le> Y" "Y < int p"
    "eqm (int p) (int (pt_x P)) (X * int (pt_z P) ^ 2)" "eqm (int p) (int (pt_y P)) (Y * int (pt_z P) ^ 3)"
proof -
  let ?z = "int (pt_z P)" and ?i = "inv_mod (int p) (int (pt_z P))"
  have p: "0 < int p" using assms(1) by (simp add: odd_prime_def)
  have z: "eqm (int p) (?z * ?i) 1"
    by (rule inv_mod [OF assms(1) reduced_z [OF assms(2,3)]])
  have c: "eqm (int p) v (v * ?i ^ k mod int p * ?z ^ k)" for v k
  proof -
    have "eqm (int p) (v * ?i ^ k mod int p * ?z ^ k) (v * ?i ^ k * ?z ^ k)" by (intro eqm_mult eqm_refl) simp
    also have "v * ?i ^ k * ?z ^ k = v * (?z * ?i) ^ k" by (simp add: power_mult_distrib)
    also have "eqm (int p) (v * (?z * ?i) ^ k) (v * 1 ^ k)" using z by (intro eqm_intros eqm_refl)
    finally show ?thesis by (simp add: eqm_sym)
  qed
  show thesis
    by (rule that [of "int (pt_x P) * ?i ^ 2 mod int p" "int (pt_y P) * ?i ^ 3 mod int p"])
      (use p assms(3) c in \<open>simp_all add: affine_def Let_def\<close>)
qed

lemma thirdI:
  assumes "odd_prime (int p)" "0 < pt_z P" "pt_z P < p"
    "eqm (int p) (int (pt_x P)) ((l ^ 2 - x1 - x2) * int (pt_z P) ^ 2)"
    "eqm (int p) (int (pt_y P)) ((l * (x1 - (l ^ 2 - x1 - x2)) - y1) * int (pt_z P) ^ 3)"
  shows "affine p P = third (int p) l x1 y1 x2"
  unfolding third_def Let_def
proof (rule affineI [OF assms(1-3)])
  let ?x = "l ^ 2 - x1 - x2"
  have "eqm (int p) (?x * int (pt_z P) ^ 2) (?x mod int p * int (pt_z P) ^ 2)" by (intro eqm_mult eqm_refl) simp
  then show "eqm (int p) (int (pt_x P)) (?x mod int p * int (pt_z P) ^ 2)" by (rule eqm_trans [OF assms(4)])
  have "eqm (int p) ((l * (x1 - ?x) - y1) * int (pt_z P) ^ 3) ((l * (x1 - ?x mod int p) - y1) mod int p * int (pt_z P) ^ 3)"
    by (intro eqm_mult eqm_refl, unfold eqm_mod(2), intro eqm_intros eqm_refl, simp only: eqm_mod(2) eqm_refl)
  then show "eqm (int p) (int (pt_y P)) ((l * (x1 - ?x mod int p) - y1) mod int p * int (pt_z P) ^ 3)"
    by (rule eqm_trans [OF assms(5)])
qed (use assms(1) in \<open>simp_all add: odd_prime_def\<close>)

definition jacobian_infinity :: PublicPoint where
  "jacobian_infinity = \<lparr> pt_x = 0, pt_y = 1, pt_z = 0 \<rparr>"

lemma infinity_affine: "1 < p \<Longrightarrow> reduced p jacobian_infinity \<and> affine p jacobian_infinity = Infinity"
  by (simp add: reduced_def affine_def jacobian_infinity_def)

lemma eqm_dvd_cong: "eqm p a b \<Longrightarrow> p dvd a \<longleftrightarrow> p dvd b"
  by (metis eqm_sym eqm_trans eqm_zero)

lemma residue_zero:
  assumes "odd_prime (int p)" "k < p" "eqm (int p) (int k) (K * d)" "\<not> int p dvd d" "0 \<le> K" "K < int p"
  shows "k = 0 \<longleftrightarrow> K = 0"
proof -
  have "k = 0 \<longleftrightarrow> int p dvd int k" using assms(2) by (auto dest: zdvd_imp_le)
  also have "\<dots> \<longleftrightarrow> int p dvd K * d" using assms(3) by (metis eqm_sym eqm_trans eqm_zero)
  also have "\<dots> \<longleftrightarrow> K = 0" using assms(4-6) odd_prime_dvd_mult [OF assms(1)] by (auto dest: zdvd_imp_le)
  finally show ?thesis .
qed

lemma not_dvd_power: "odd_prime p \<Longrightarrow> \<not> p dvd z \<Longrightarrow> \<not> p dvd z ^ k"
  by (induction k) (auto simp: odd_prime_dvd_mult odd_prime_def)

text \<open>
  What doubling computes for a point that is not its own inverse, modulo \<open>p\<close>: polynomials in the affine
  coordinates, the third coordinate and the slope \<open>l\<close> of the tangent.
\<close>

lemma double_values:
  assumes p: "0 < p" and nz: "pt_z P \<noteq> 0" "pt_y P \<noteq> 0"
    and A: "eqm (int p) (int (pt_x P)) (X * int (pt_z P) ^ 2)" "eqm (int p) (int (pt_y P)) (Y * int (pt_z P) ^ 3)"
    and l: "eqm (int p) (3 * X ^ 2 + int a) (l * (2 * Y))"
  defines "z \<equiv> int (pt_z P)"
  obtains x y z' where "point_double P p a = \<lparr> pt_x = x, pt_y = y, pt_z = z' \<rparr>" "x < p" "y < p" "z' < p"
    "eqm (int p) (int x) ((l ^ 2 - X - X) * (Y * z ^ 4 * 2) ^ 2)"
    "eqm (int p) (int y) ((l * (X - (l ^ 2 - X - X)) - Y) * (Y * z ^ 4 * 2) ^ 3)"
    "eqm (int p) (int z') (Y * z ^ 4 * 2)"
proof -
  define xx where "xx = (pt_x P * pt_x P) mod p"
  define yy where "yy = (pt_y P * pt_y P) mod p"
  define yyyy where "yyyy = (yy * yy) mod p"
  define zz where "zz = (pt_z P * pt_z P) mod p"
  define t where "t = (pt_x P + yy) mod p"
  define s where "s = (mod_sub (mod_sub ((t * t) mod p) xx p) yyyy p * 2) mod p"
  define m where "m = (xx * 3 + a * zz * zz) mod p"
  define x where "x = mod_sub ((m * m) mod p) ((s * 2) mod p) p"
  define y where "y = mod_sub ((m * mod_sub s x p) mod p) ((yyyy * 8) mod p) p"
  define z' where "z' = ((pt_y P * pt_z P) * 2) mod p"
  note sub = eqm_calc(3) [OF p] and A = A [folded z_def]
  let ?yy = "Y * z ^ 3 * (Y * z ^ 3)" and ?xx = "X * z ^ 2 * (X * z ^ 2)" and ?t = "X * z ^ 2 + Y * z ^ 3 * (Y * z ^ 3)"
  let ?m = "z ^ 4 * (l * (2 * Y))" and ?s = "(?t * ?t - ?xx - ?yy * ?yy) * 2"
  have xx: "eqm (int p) (int xx) ?xx" and yy: "eqm (int p) (int yy) ?yy" unfolding xx_def yy_def by (intro calc A)+
  have yyyy: "eqm (int p) (int yyyy) (?yy * ?yy)" unfolding yyyy_def by (intro calc yy)
  have zz: "eqm (int p) (int zz) (z * z)" unfolding zz_def z_def by (intro calc)
  have t: "eqm (int p) (int t) ?t" unfolding t_def by (intro calc yy A)
  have s: "eqm (int p) (int s) ?s" unfolding s_def by (intro calc sub t xx yyyy)
  have "eqm (int p) (int m) (?xx * 3 + int a * (z * z) * (z * z))"
    unfolding m_def by (intro calc) (simp only: of_nat_mult of_nat_numeral, intro eqm_intros eqm_refl xx zz)+
  also have "?xx * 3 + int a * (z * z) * (z * z) = z ^ 4 * (3 * X ^ 2 + int a)" by algebra
  also have "eqm (int p) (z ^ 4 * (3 * X ^ 2 + int a)) ?m" by (intro eqm_mult eqm_refl l)
  finally have m: "eqm (int p) (int m) ?m" .
  have x: "eqm (int p) (int x) (?m * ?m - ?s * 2)" unfolding x_def by (intro calc sub m s)
  have "eqm (int p) (int y) (?m * (?s - (?m * ?m - ?s * 2)) - ?yy * ?yy * 8)" unfolding y_def by (intro calc sub m s x yyyy)
  moreover have "?m * (?s - (?m * ?m - ?s * 2)) - ?yy * ?yy * 8 = (l * (X - (l ^ 2 - X - X)) - Y) * (Y * z ^ 4 * 2) ^ 3" by algebra
  moreover have "?m * ?m - ?s * 2 = (l ^ 2 - X - X) * (Y * z ^ 4 * 2) ^ 2" by algebra
  moreover have "eqm (int p) (int z') (Y * z ^ 3 * z * 2)" unfolding z'_def z_def by (intro calc A [unfolded z_def])
  moreover have "Y * z ^ 3 * z * 2 = Y * z ^ 4 * 2" by algebra
  moreover have "point_double P p a = \<lparr> pt_x = x, pt_y = y, pt_z = z' \<rparr>"
    unfolding point_double_def x_def y_def z'_def m_def s_def t_def zz_def yyyy_def yy_def xx_def Let_def using nz by (simp only: simp_thms if_False)
  moreover have "x < p" "y < p" "z' < p" using p by (simp_all add: x_def y_def z'_def mod_sub_less)
  ultimately show thesis using that [of x y z'] x by metis
qed

lemma third_of_values:
  assumes "odd_prime (int p)" "P = \<lparr> pt_x = x, pt_y = y, pt_z = z \<rparr>" "x < p" "y < p" "z < p"
    "eqm (int p) (int x) ((l ^ 2 - X1 - X2) * d ^ 2)" "eqm (int p) (int y) ((l * (X1 - (l ^ 2 - X1 - X2)) - Y1) * d ^ 3)"
    "eqm (int p) (int z) d" "\<not> int p dvd d"
  shows "reduced p P \<and> affine p P = third (int p) l X1 Y1 X2"
proof -
  have "\<not> int p dvd int z" unfolding eqm_dvd_cong [OF assms(8)] by (rule assms(9))
  then have "0 < z" by (cases z) simp_all
  moreover have "eqm (int p) (c * d ^ k) (c * int z ^ k)" for c k by (intro eqm_intros eqm_refl eqm_sym [OF assms(8)])
  then have "eqm (int p) (int x) ((l ^ 2 - X1 - X2) * int z ^ 2)" "eqm (int p) (int y) ((l * (X1 - (l ^ 2 - X1 - X2)) - Y1) * int z ^ 3)"
    using assms(6,7) eqm_trans by blast+
  ultimately show ?thesis using thirdI [OF assms(1), of P l X1 X2 Y1] assms(2-5) by (simp add: reduced_def)
qed

lemma double_tangent:
  assumes "odd_prime (int p)" "reduced p P" "pt_z P \<noteq> 0" "pt_y P \<noteq> 0"
    "eqm (int p) (int (pt_x P)) (X * int (pt_z P) ^ 2)" "eqm (int p) (int (pt_y P)) (Y * int (pt_z P) ^ 3)"
    "eqm (int p) (3 * X ^ 2 + int a) (l * (2 * Y))" "\<not> int p dvd Y"
  shows "reduced p (point_double P p a) \<and> affine p (point_double P p a) = third (int p) l X Y X"
proof -
  have p: "0 < p" using assms(1) by (simp add: odd_prime_def)
  have "\<not> int p dvd Y * int (pt_z P) ^ 4 * 2"
    unfolding odd_prime_dvd_mult [OF assms(1)]
    using not_dvd_power [OF assms(1) reduced_z [OF assms(2,3)]] odd_prime_not_two [OF assms(1)] assms(8) by blast
  then show ?thesis using double_values [OF p assms(3-7)] third_of_values [OF assms(1)] by metis
qed

lemma double_affine:
  assumes "odd_prime (int p)" "reduced p P"
  shows "reduced p (point_double P p a) \<and> affine p (point_double P p a) = ec_double (int p) (int a) (affine p P)"
proof (cases "pt_z P = 0")
  case True
  then have "point_double P p a = jacobian_infinity" by (simp add: point_double_def jacobian_infinity_def)
  then show ?thesis using True assms(1) infinity_affine [of p] by (simp add: affine_def odd_prime_def)
next
  case False
  obtain X Y where A: "affine p P = Point X Y" "0 \<le> X" "X < int p" "0 \<le> Y" "Y < int p"
    "eqm (int p) (int (pt_x P)) (X * int (pt_z P) ^ 2)" "eqm (int p) (int (pt_y P)) (Y * int (pt_z P) ^ 3)"
    using affineE [OF assms False] by metis
  have "\<not> int p dvd int (pt_z P) ^ 3" by (rule not_dvd_power [OF assms(1) reduced_z [OF assms(2) False]])
  then have y0: "pt_y P = 0 \<longleftrightarrow> Y = 0"
    using assms(2) A(4,5,7) by (intro residue_zero [OF assms(1)]) (auto simp: reduced_def)
  show ?thesis
  proof (cases "pt_y P = 0")
    case True
    then have "point_double P p a = jacobian_infinity" by (simp add: point_double_def jacobian_infinity_def)
    then show ?thesis using True assms(1) infinity_affine [of p] y0 A(1) by (simp add: odd_prime_def)
  next
    case False
    then have Y: "\<not> int p dvd Y" using y0 A(4,5) by (auto dest: zdvd_imp_le)
    then have "\<not> int p dvd 2 * Y" using odd_prime_dvd_mult [OF assms(1)] odd_prime_not_two [OF assms(1)] by blast
    then have "eqm (int p) (3 * X ^ 2 + int a) (slope (int p) (3 * X ^ 2 + int a) (2 * Y) * (2 * Y))"
      using slope_eq [OF assms(1)] eqm_sym by blast
    then show ?thesis using double_tangent [OF assms \<open>pt_z P \<noteq> 0\<close> False A(6,7) _ Y] A(1) y0 False by simp
  qed
qed

text \<open>What addition computes for points with different first coordinates.\<close>

lemma add_values:
  assumes p: "0 < p" and nz: "pt_z P \<noteq> 0" "pt_z Q \<noteq> 0"
    and A: "eqm (int p) (int (pt_x P)) (X1 * int (pt_z P) ^ 2)" "eqm (int p) (int (pt_y P)) (Y1 * int (pt_z P) ^ 3)"
    and B: "eqm (int p) (int (pt_x Q)) (X2 * int (pt_z Q) ^ 2)" "eqm (int p) (int (pt_y Q)) (Y2 * int (pt_z Q) ^ 3)"
    and l: "eqm (int p) (Y2 - Y1) (l * (X2 - X1))"
  defines "w \<equiv> int (pt_z P) * int (pt_z Q)"
  assumes ne: "\<not> int p dvd (X2 - X1) * w ^ 2"
  obtains x y z' where "point_add P Q p a = \<lparr> pt_x = x, pt_y = y, pt_z = z' \<rparr>" "x < p" "y < p" "z' < p"
    "eqm (int p) (int x) ((l ^ 2 - X1 - X2) * (2 * w * ((X2 - X1) * w ^ 2)) ^ 2)"
    "eqm (int p) (int y) ((l * (X1 - (l ^ 2 - X1 - X2)) - Y1) * (2 * w * ((X2 - X1) * w ^ 2)) ^ 3)"
    "eqm (int p) (int z') (2 * w * ((X2 - X1) * w ^ 2))"
proof -
  let ?z1 = "int (pt_z P)" and ?z2 = "int (pt_z Q)"
  define z1z1 where "z1z1 = (pt_z P * pt_z P) mod p"
  define z2z2 where "z2z2 = (pt_z Q * pt_z Q) mod p"
  define u1 where "u1 = (pt_x P * z2z2) mod p"
  define u2 where "u2 = (pt_x Q * z1z1) mod p"
  define s1 where "s1 = ((pt_y P * pt_z Q) * z2z2) mod p"
  define s2 where "s2 = ((pt_y Q * pt_z P) * z1z1) mod p"
  define h where "h = mod_sub u2 u1 p"
  define i where "i = ((h * 2 mod p) * (h * 2 mod p)) mod p"
  define j where "j = (h * i) mod p"
  define r where "r = (mod_sub s2 s1 p * 2) mod p"
  define v where "v = (u1 * i) mod p"
  define x where "x = mod_sub (mod_sub ((r * r) mod p) j p) ((v * 2) mod p) p"
  define y where "y = mod_sub ((r * mod_sub v x p) mod p) (((s1 * j) * 2) mod p) p"
  define z_sum where "z_sum = (pt_z P + pt_z Q) mod p"
  define z' where "z' = (mod_sub (mod_sub ((z_sum * z_sum) mod p) z1z1 p) z2z2 p * h) mod p"
  note sub = eqm_calc(3) [OF p] and defs = x_def y_def z'_def z_sum_def r_def v_def j_def i_def h_def u1_def u2_def s1_def s2_def z1z1_def z2z2_def
  have z1z1: "eqm (int p) (int z1z1) (?z1 * ?z1)" and z2z2: "eqm (int p) (int z2z2) (?z2 * ?z2)" unfolding z1z1_def z2z2_def by (intro calc)+
  let ?h = "(X2 - X1) * w ^ 2" and ?r = "l * (X2 - X1) * w ^ 3 * 2" and ?x3 = "l ^ 2 - X1 - X2"
  let ?i = "?h * 2 * (?h * 2)" and ?v = "X1 * w ^ 2 * (?h * 2 * (?h * 2))"
  have "X1 * ?z1 ^ 2 * (?z2 * ?z2) = X1 * w ^ 2" "X2 * ?z2 ^ 2 * (?z1 * ?z1) = X2 * w ^ 2"
    "Y1 * ?z1 ^ 3 * ?z2 * (?z2 * ?z2) = Y1 * w ^ 3" "Y2 * ?z2 ^ 3 * ?z1 * (?z1 * ?z1) = Y2 * w ^ 3"
    unfolding w_def by algebra+
  moreover have "eqm (int p) (int u1) (X1 * ?z1 ^ 2 * (?z2 * ?z2))" "eqm (int p) (int u2) (X2 * ?z2 ^ 2 * (?z1 * ?z1))"
    "eqm (int p) (int s1) (Y1 * ?z1 ^ 3 * ?z2 * (?z2 * ?z2))" "eqm (int p) (int s2) (Y2 * ?z2 ^ 3 * ?z1 * (?z1 * ?z1))"
    unfolding u1_def u2_def s1_def s2_def by (intro calc A B z1z1 z2z2)+
  ultimately have us: "eqm (int p) (int u1) (X1 * w ^ 2)" "eqm (int p) (int u2) (X2 * w ^ 2)"
    "eqm (int p) (int s1) (Y1 * w ^ 3)" "eqm (int p) (int s2) (Y2 * w ^ 3)" by metis+
  have "eqm (int p) (int h) (X2 * w ^ 2 - X1 * w ^ 2)" unfolding h_def by (intro sub us)
  then have h: "eqm (int p) (int h) ?h" by (simp add: left_diff_distrib)
  then have "u1 \<noteq> u2" using ne eqm_dvd_cong [OF h] p by (auto simp: h_def mod_sub_def)
  then have P: "point_add P Q p a = \<lparr> pt_x = x, pt_y = y, pt_z = z' \<rparr>"
    using nz unfolding point_add_def defs Let_def by (simp only: simp_thms if_False)
  have i: "eqm (int p) (int i) ?i" unfolding i_def by (intro calc h)
  have j: "eqm (int p) (int j) (?h * ?i)" and v: "eqm (int p) (int v) ?v" unfolding j_def v_def by (intro calc h i us)+
  have "eqm (int p) (int r) ((Y2 * w ^ 3 - Y1 * w ^ 3) * 2)" unfolding r_def by (intro calc sub us)
  also have "(Y2 * w ^ 3 - Y1 * w ^ 3) * 2 = (Y2 - Y1) * w ^ 3 * 2" by (simp add: left_diff_distrib)
  also have "eqm (int p) ((Y2 - Y1) * w ^ 3 * 2) ?r" by (intro eqm_mult eqm_refl l)
  finally have r: "eqm (int p) (int r) ?r" .
  have x: "eqm (int p) (int x) (?r * ?r - ?h * ?i - ?v * 2)" unfolding x_def by (intro calc sub r j v)
  have "eqm (int p) (int y) (?r * (?v - (?r * ?r - ?h * ?i - ?v * 2)) - Y1 * w ^ 3 * (?h * ?i) * 2)"
    unfolding y_def by (intro calc sub r v x us j)
  moreover have "eqm (int p) (int z_sum) (?z1 + ?z2)" unfolding z_sum_def by (intro calc)
  then have "eqm (int p) (int z') (((?z1 + ?z2) * (?z1 + ?z2) - ?z1 * ?z1 - ?z2 * ?z2) * ?h)"
    unfolding z'_def by (intro calc sub z1z1 z2z2 h)
  moreover have "((?z1 + ?z2) * (?z1 + ?z2) - ?z1 * ?z1 - ?z2 * ?z2) * ?h = 2 * w * ?h" unfolding w_def by algebra
  moreover have "?r * ?r - ?h * ?i - ?v * 2 = ?x3 * (2 * w * ?h) ^ 2" by algebra
  moreover have "?r * (?v - (?r * ?r - ?h * ?i - ?v * 2)) - Y1 * w ^ 3 * (?h * ?i) * 2 = (l * (X1 - ?x3) - Y1) * (2 * w * ?h) ^ 3" by algebra
  moreover have "x < p" "y < p" "z' < p" using p by (simp_all add: x_def y_def z'_def j_def mod_sub_less)
  ultimately show thesis using that [OF P] x by metis
qed

lemma add_chord:
  assumes "odd_prime (int p)" "reduced p P" "reduced p Q" "pt_z P \<noteq> 0" "pt_z Q \<noteq> 0"
    "eqm (int p) (int (pt_x P)) (X1 * int (pt_z P) ^ 2)" "eqm (int p) (int (pt_y P)) (Y1 * int (pt_z P) ^ 3)"
    "eqm (int p) (int (pt_x Q)) (X2 * int (pt_z Q) ^ 2)" "eqm (int p) (int (pt_y Q)) (Y2 * int (pt_z Q) ^ 3)"
    "eqm (int p) (Y2 - Y1) (l * (X2 - X1))" "\<not> int p dvd X2 - X1"
  shows "reduced p (point_add P Q p a) \<and> affine p (point_add P Q p a) = third (int p) l X1 Y1 X2"
proof -
  let ?w = "int (pt_z P) * int (pt_z Q)"
  have p: "0 < p" using assms(1) by (simp add: odd_prime_def)
  have w: "\<not> int p dvd ?w" using reduced_z assms(2-5) unfolding odd_prime_dvd_mult [OF assms(1)] by blast
  then have h: "\<not> int p dvd (X2 - X1) * ?w ^ 2"
    using not_dvd_power [OF assms(1) w] assms(11) unfolding odd_prime_dvd_mult [OF assms(1)] by blast
  then have "\<not> int p dvd 2 * ?w * ((X2 - X1) * ?w ^ 2)"
    using w odd_prime_not_two [OF assms(1)] odd_prime_dvd_mult [OF assms(1)] by blast
  then show ?thesis using add_values [OF p assms(4-10) h] third_of_values [OF assms(1)] by metis
qed

lemma cross_eqm:
  assumes "eqm p k (K * d)" "eqm p l e"
  shows "eqm p (k * l) (K * (d * e))"
  using eqm_mult [OF assms] by (simp add: mult.assoc)

lemma residue_eq:
  assumes "odd_prime (int p)" "eqm (int p) (int k) (K * d)" "eqm (int p) (int l) (L * d)" "\<not> int p dvd d"
    "0 \<le> K" "K < int p" "0 \<le> L" "L < int p"
  shows "k mod p = l mod p \<longleftrightarrow> K = L"
proof -
  have "k mod p = l mod p \<longleftrightarrow> eqm (int p) (int k) (int l)"
    by (simp add: eqm_def zmod_int [symmetric])
  also have "\<dots> \<longleftrightarrow> eqm (int p) (K * d) (L * d)" using assms(2,3) by (simp add: eqm_def)
  also have "\<dots> \<longleftrightarrow> K = L" using eqm_cancel [OF assms(1,4)] eqm_eq assms(5-8) by blast
  finally show ?thesis .
qed

lemma point_add_zero:
  "pt_z P = 0 \<Longrightarrow> point_add P Q p a = Q"
  "pt_z P \<noteq> 0 \<Longrightarrow> pt_z Q = 0 \<Longrightarrow> point_add P Q p a = P"
  unfolding point_add_def by (simp_all only: if_True if_False simp_thms)

lemma add_affine:
  assumes "odd_prime (int p)" "reduced p P" "reduced p Q"
  shows "reduced p (point_add P Q p a) \<and> affine p (point_add P Q p a) = ec_add (int p) (int a) (affine p P) (affine p Q)"
proof (cases "pt_z P = 0 \<or> pt_z Q = 0")
  case True
  then show ?thesis using assms(2,3) point_add_zero [of P Q p a] by (cases "pt_z P = 0") (simp_all add: affine_def)
next
  case False
  then have nz: "pt_z P \<noteq> 0" "pt_z Q \<noteq> 0" by simp_all
  obtain X1 Y1 where A: "affine p P = Point X1 Y1" "0 \<le> X1" "X1 < int p" "0 \<le> Y1" "Y1 < int p"
    "eqm (int p) (int (pt_x P)) (X1 * int (pt_z P) ^ 2)" "eqm (int p) (int (pt_y P)) (Y1 * int (pt_z P) ^ 3)"
    using affineE [OF assms(1,2) nz(1)] by metis
  obtain X2 Y2 where B: "affine p Q = Point X2 Y2" "0 \<le> X2" "X2 < int p" "0 \<le> Y2" "Y2 < int p"
    "eqm (int p) (int (pt_x Q)) (X2 * int (pt_z Q) ^ 2)" "eqm (int p) (int (pt_y Q)) (Y2 * int (pt_z Q) ^ 3)"
    using affineE [OF assms(1,3) nz(2)] by metis
  show ?thesis
  proof (cases "X1 = X2")
    case False
    then have d: "\<not> int p dvd X2 - X1" using A B residue_dvd [of X2 "int p" X1] by auto
    then have l: "eqm (int p) (Y2 - Y1) (slope (int p) (Y2 - Y1) (X2 - X1) * (X2 - X1))"
      using slope_eq [OF assms(1)] eqm_sym by blast
    show ?thesis using add_chord [OF assms nz A(6,7) B(6,7) l d] False A(1) B(1) by simp
  next
    case True
    let ?w = "int (pt_z P) * int (pt_z Q)" and ?zz = "\<lambda>P. pt_z P * pt_z P mod p"
    have zz: "eqm (int p) (int (?zz T)) (int (pt_z T) ^ 2)" for T by (simp add: zmod_int power2_eq_square)
    have w: "\<not> int p dvd ?w ^ k" for k
      using reduced_z assms nz odd_prime_dvd_mult [OF assms(1)] by (intro not_dvd_power [OF assms(1)]) blast
    have "eqm (int p) (int (pt_x P * ?zz Q)) (X1 * ?w ^ 2)"
      using cross_eqm [OF A(6) zz [of Q]] by (simp add: power_mult_distrib)
    moreover have "eqm (int p) (int (pt_x Q * ?zz P)) (X2 * ?w ^ 2)"
      using cross_eqm [OF B(6) zz [of P]] by (simp add: power_mult_distrib mult.commute)
    ultimately have u: "(pt_x P * ?zz Q) mod p = (pt_x Q * ?zz P) mod p"
      using residue_eq [OF assms(1) _ _ w] A B True by blast
    have "eqm (int p) (int (pt_y P * pt_z Q * ?zz Q)) (Y1 * ?w ^ 3)"
      using cross_eqm [OF A(7) eqm_mult [OF eqm_refl [of _ "int (pt_z Q)"] zz [of Q]]]
      by (simp add: power3_eq_cube power2_eq_square ac_simps)
    moreover have "eqm (int p) (int (pt_y Q * pt_z P * ?zz P)) (Y2 * ?w ^ 3)"
      using cross_eqm [OF B(7) eqm_mult [OF eqm_refl [of _ "int (pt_z P)"] zz [of P]]]
      by (simp add: power3_eq_cube power2_eq_square ac_simps)
    ultimately have s: "(pt_y P * pt_z Q * ?zz Q) mod p = (pt_y Q * pt_z P * ?zz P) mod p \<longleftrightarrow> Y1 = Y2"
      using residue_eq [OF assms(1) _ _ w] A B by blast
    have "point_add P Q p a = (if Y1 = Y2 then point_double P p a else jacobian_infinity)"
      unfolding point_add_def Let_def u s jacobian_infinity_def using nz by (simp only: simp_thms if_True if_False)
    then show ?thesis
      using double_affine [OF assms(1,2), of a] infinity_affine [of p] assms(1) True A(1) B(1)
      by (auto simp: odd_prime_def)
  qed
qed



section \<open>The interleaved multiplication\<close>

definition byte_bits :: "byte \<Rightarrow> bool list" where
  "byte_bits w = map (bit w) (rev [0..<8])"

lemma horner_bits: "foldl (\<lambda>v b. 2 * v + of_bool b) v (rev bs) = v * 2 ^ length bs + horner_sum of_bool 2 bs" for v :: nat
  by (induction bs) (simp_all add: algebra_simps)

lemma byte_bits_value: "foldl (\<lambda>v b. 2 * v + of_bool b) v (byte_bits w) = v * 256 + unat w"
proof -
  have "horner_sum of_bool 2 (map (bit w) [0..<8]) = unat w"
  proof -
    have "horner_sum of_bool 2 (map (bit (unat w)) [0..<8]) = take_bit 8 (unat w)" by (rule horner_sum_bit_eq_take_bit)
    also have "\<dots> = unat w" by (simp add: unsigned_take_bit_eq [symmetric] take_bit_word_eq_self)
    also have "map (bit (unat w)) [0..<8] = map (bit w) [0..<8]" by (simp add: bit_unsigned_iff bit_imp_le_length)
    finally show ?thesis .
  qed
  then show ?thesis using horner_bits [of v "map (bit w) [0..<8]"] by (simp add: byte_bits_def rev_map)
qed

lemma bytes_bits_value: "bits_value (concat (map byte_bits bs)) = be_nat bs"
proof -
  have "foldl (\<lambda>v b. 2 * v + of_bool b) v (concat (map byte_bits bs)) = foldl (\<lambda>acc b. acc * 256 + unat b) v bs" for v
    by (induction bs arbitrary: v) (simp_all add: byte_bits_value)
  then show ?thesis by (simp add: bits_value_def be_nat_def)
qed

text \<open>The bytes the loop sees: both scalars, extended by zero bytes to the same length.\<close>

definition extended :: "nat \<Rightarrow> bytes \<Rightarrow> bytes" where
  "extended len bs = replicate (len - length bs) 0 @ bs"

lemma be_nat_extended: "be_nat (extended len bs) = be_nat bs"
  by (simp add: extended_def be_nat_append be_nat_zeros)

lemma length_extended: "length bs \<le> len \<Longrightarrow> length (extended len bs) = len"
  by (simp add: extended_def)

lemma nth_extended: "i < len \<Longrightarrow> length bs \<le> len \<Longrightarrow>
  (if i < len - length bs then 0 else bs ! (i - (len - length bs))) = extended len bs ! i"
  by (simp add: extended_def nth_append)

lemma fold_indexes:
  assumes "length xs = n" "length ys = n"
  shows "fold (\<lambda>i. f (xs ! i) (ys ! i)) [0..<n] s = fold (\<lambda>(x, y). f x y) (zip xs ys) s"
proof -
  have "zip xs ys = map (\<lambda>i. (xs ! i, ys ! i)) [0..<n]"
    using assms by (intro nth_equalityI) simp_all
  then show ?thesis by (simp add: fold_map comp_def)
qed

lemma multiply_sum_bits:
  fixes u v p a :: nat
  assumes l: "l = max (length (to_bytes_be u)) (length (to_bytes_be v))"
  defines "lb \<equiv> extended l (to_bytes_be u)" and "rb \<equiv> extended l (to_bytes_be v)"
  shows "multiply_sum u P v Q p a =
    fold (\<lambda>(x, y). fold (multiply_bit P Q (point_add P Q p a) p a x y) (rev [0..<8])) (zip lb rb) jacobian_infinity"
proof -
  have "multiply_sum u P v Q p a =
    fold (\<lambda>i. fold (multiply_bit P Q (point_add P Q p a) p a (lb ! i) (rb ! i)) (rev [0..<8])) [0..<l] jacobian_infinity"
    unfolding multiply_sum_def Let_def l [symmetric] jacobian_infinity_def lb_def rb_def
    by (rule fold_cong) (auto simp: l nth_extended [symmetric])
  also have "\<dots> = fold (\<lambda>(x, y). fold (multiply_bit P Q (point_add P Q p a) p a x y) (rev [0..<8])) (zip lb rb) jacobian_infinity"
    by (rule fold_indexes [where f = "\<lambda>x y. fold (multiply_bit P Q (point_add P Q p a) p a x y) (rev [0..<8])"])
      (simp_all add: lb_def rb_def length_extended l)
  finally show ?thesis .
qed


text \<open>One step on affine points, and the steps of one byte.\<close>

definition affine_step :: "int \<Rightarrow> int \<Rightarrow> point \<Rightarrow> point \<Rightarrow> point \<Rightarrow> bool \<times> bool \<Rightarrow> point" where
  "affine_step p a P Q T b =
     (let T = ec_double p a T in
      case b of (False, False) \<Rightarrow> T | (True, False) \<Rightarrow> ec_add p a T P | (False, True) \<Rightarrow> ec_add p a T Q
        | (True, True) \<Rightarrow> ec_add p a T (ec_add p a P Q))"

lemma multiply_bit_affine:
  assumes "odd_prime (int p)" "reduced p P" "reduced p Q" "reduced p T"
  shows "reduced p (multiply_bit P Q (point_add P Q p a) p a x y k T)
    \<and> affine p (multiply_bit P Q (point_add P Q p a) p a x y k T) =
       affine_step (int p) (int a) (affine p P) (affine p Q) (affine p T) (bit x k, bit y k)"
proof -
  note d = double_affine [OF assms(1,4), of a]
  note pq = add_affine [OF assms(1-3), of a]
  note r = conjunct1 [OF d]
  show ?thesis
    using d add_affine [OF assms(1) r assms(2), of a] add_affine [OF assms(1) r assms(3), of a] add_affine [OF assms(1) r conjunct1 [OF pq], of a] pq
    unfolding multiply_bit_def affine_step_def Let_def bit_iff_and_push_bit_not_eq_0 [symmetric]
    by (auto split: bool.splits)
qed

lemma multiply_byte_affine:
  fixes a :: nat and x y :: byte and ks :: "nat list"
  assumes "odd_prime (int p)" "reduced p P" "reduced p Q" "reduced p T"
  defines "step \<equiv> affine_step (int p) (int a) (affine p P) (affine p Q)"
    and "R \<equiv> fold (multiply_bit P Q (point_add P Q p a) p a x y) ks T"
  shows "reduced p R \<and> affine p R = foldl step (affine p T) (map (\<lambda>k. (bit x k, bit y k)) ks)"
  unfolding R_def using assms(4)
proof (induction ks arbitrary: T)
  case (Cons k ks)
  note s = multiply_bit_affine [OF assms(1-3) Cons.prems, of a x y k]
  show ?case using Cons.IH [OF conjunct1 [OF s]] s by (simp add: step_def)
qed simp

definition bit_pairs :: "(byte \<times> byte) list \<Rightarrow> (bool \<times> bool) list" where
  "bit_pairs xys = concat (map (\<lambda>(x, y). map (\<lambda>k. (bit x k, bit y k)) (rev [0..<8])) xys)"

lemma bit_pairs_values:
  "bits_value (map fst (bit_pairs xys)) = be_nat (map fst xys)" "bits_value (map snd (bit_pairs xys)) = be_nat (map snd xys)"
proof -
  have "map fst (bit_pairs xys) = concat (map byte_bits (map fst xys))" "map snd (bit_pairs xys) = concat (map byte_bits (map snd xys))"
    by (simp_all add: bit_pairs_def byte_bits_def map_concat comp_def split_def)
  then show "bits_value (map fst (bit_pairs xys)) = be_nat (map fst xys)" "bits_value (map snd (bit_pairs xys)) = be_nat (map snd xys)"
    by (simp_all only: bytes_bits_value)
qed

lemma multiply_bytes_affine:
  fixes a :: nat and xys :: "(byte \<times> byte) list"
  assumes "odd_prime (int p)" "reduced p P" "reduced p Q" "reduced p T"
  defines "R \<equiv> fold (\<lambda>(x, y). fold (multiply_bit P Q (point_add P Q p a) p a x y) (rev [0..<8])) xys T"
  shows "reduced p R \<and> affine p R = foldl (affine_step (int p) (int a) (affine p P) (affine p Q)) (affine p T) (bit_pairs xys)"
  unfolding R_def using assms(4)
proof (induction xys arbitrary: T)
  case (Cons xy xys)
  obtain x y where xy: "xy = (x, y)" by (cases xy)
  note s = multiply_byte_affine [OF assms(1-3) Cons.prems, of a x y "rev [0..<8]"]
  show ?case using Cons.IH [OF conjunct1 [OF s]] s by (simp add: xy bit_pairs_def)
qed (simp add: bit_pairs_def)

lemma affine_step_monoid:
  assumes "on_curve p a b T"
  shows "affine_step p a P Q T (l, r) = ec_add p a (ec_add p a T T)
     (ec_add p a (nfold (ec_add p a) Infinity (of_bool l) P) (nfold (ec_add p a) Infinity (of_bool r) Q))"
  by (auto simp: affine_step_def Let_def ec_add_self split: bool.splits)

lemma multiply_sum_affine:
  assumes "odd_prime (int p)" "curve_assoc (int p) (int a) b" "reduced p P" "reduced p Q"
    "on_curve (int p) (int a) b (affine p P)" "on_curve (int p) (int a) b (affine p Q)"
  shows "reduced p (multiply_sum u P v Q p a)
    \<and> affine p (multiply_sum u P v Q p a) =
        ec_add (int p) (int a) (smul (int p) (int a) u (affine p P)) (smul (int p) (int a) v (affine p Q))"
proof -
  let ?l = "max (length (to_bytes_be u)) (length (to_bytes_be v))"
  let ?xys = "zip (extended ?l (to_bytes_be u)) (extended ?l (to_bytes_be v))"
  have 1: "1 < p" using assms(1) by (simp add: odd_prime_def)
  note i = infinity_affine [OF 1]
  have f: "map fst ?xys = extended ?l (to_bytes_be u)" "map snd ?xys = extended ?l (to_bytes_be v)"
    by (simp_all add: length_extended)
  have "foldl (affine_step (int p) (int a) (affine p P) (affine p Q)) Infinity (bit_pairs ?xys) =
     ec_add (int p) (int a) (nfold (ec_add (int p) (int a)) Infinity (bits_value (map fst (bit_pairs ?xys))) (affine p P))
       (nfold (ec_add (int p) (int a)) Infinity (bits_value (map snd (bit_pairs ?xys))) (affine p Q))"
    using pts.interleaved [of "(int p, int a, b)" "affine p P" "affine p Q" "affine_step (int p) (int a) (affine p P) (affine p Q)" "bit_pairs ?xys"]
      assms affine_step_monoid by fastforce
  then show ?thesis
    using multiply_bytes_affine [OF assms(1,3,4) conjunct1 [OF i], of a ?xys] i
    by (simp add: multiply_sum_bits [OF refl] bit_pairs_values f be_nat_extended be_nat_to_bytes_be smul_def)
qed



section \<open>The verification equation\<close>

text \<open>
  What a curve promises: a prime field, a prime order, an associative law and a generator on the curve; and what
  \<open>mod_inverse\<close> promises: the inverse of a number that has one, and nothing otherwise.
\<close>

definition curve_ok :: "curve_constants \<Rightarrow> bool" where
  "curve_ok cc \<longleftrightarrow> odd_prime (int (cc_p cc)) \<and> is_prime (cc_n cc) \<and> curve_assoc (int (cc_p cc)) (int (cc_a cc)) (int (cc_b cc))
     \<and> on_curve (int (cc_p cc)) (int (cc_a cc)) (int (cc_b cc)) (Point (int (cc_gx cc)) (int (cc_gy cc)))"

definition inverse_ok :: "(nat \<Rightarrow> nat \<Rightarrow> int option) \<Rightarrow> bool" where
  "inverse_ok mod_inverse \<longleftrightarrow> (\<forall>x m. 1 < m \<longrightarrow>
     (if coprime x m then \<exists>i. mod_inverse x m = Some i \<and> 0 \<le> i \<and> i < int m \<and> (int x * i) mod int m = 1
      else mod_inverse x m = None))"

definition cc_add :: "curve_constants \<Rightarrow> point \<Rightarrow> point \<Rightarrow> point" where
  "cc_add cc = ec_add (int (cc_p cc)) (int (cc_a cc))"

definition cc_mul :: "curve_constants \<Rightarrow> nat \<Rightarrow> point \<Rightarrow> point" where
  "cc_mul cc = smul (int (cc_p cc)) (int (cc_a cc))"

definition cc_generator :: "curve_constants \<Rightarrow> point" where
  "cc_generator cc = Point (int (cc_gx cc)) (int (cc_gy cc))"

definition cc_on_curve :: "curve_constants \<Rightarrow> point \<Rightarrow> bool" where
  "cc_on_curve cc = on_curve (int (cc_p cc)) (int (cc_a cc)) (int (cc_b cc))"

text \<open>The number signed for a digest: its leftmost bits, as many as the order has.\<close>

definition digest_number :: "nat \<Rightarrow> bytes \<Rightarrow> nat" where
  "digest_number n dig = be_nat dig div 2 ^ (length dig * 8 - nat_bits n)"

text \<open>The verification of SEC 1, section 4.1.4.\<close>

definition ecdsa_valid :: "curve_constants \<Rightarrow> point \<Rightarrow> nat \<Rightarrow> nat \<Rightarrow> nat \<Rightarrow> bool" where
  "ecdsa_valid cc Q e r s \<longleftrightarrow> 0 < r \<and> r < cc_n cc \<and> 0 < s \<and> s < cc_n cc \<and>
     (\<exists>w X Y. w < cc_n cc \<and> s * w mod cc_n cc = 1
        \<and> cc_add cc (cc_mul cc (e * w mod cc_n cc) (cc_generator cc)) (cc_mul cc (r * w mod cc_n cc) Q) = Point X Y
        \<and> nat X mod cc_n cc = r)"

lemma inverse_prime:
  assumes "inverse_ok mod_inverse" "is_prime m" "0 < x" "x < m"
  shows "\<exists>w. w < m \<and> x * w mod m = 1 \<and> Option.bind (mod_inverse x m) to_biguint = Some w"
proof -
  have m: "1 < m" using assms(2) by (rule is_primeD)
  have "\<not> m dvd x" using assms(3,4) by (auto dest: dvd_imp_le)
  then have "coprime x m" using prime_coprime [OF assms(2)] coprime_commute by blast
  then obtain i where i: "mod_inverse x m = Some i" "0 \<le> i" "i < int m" "(int x * i) mod int m = 1"
    using assms(1) m unfolding inverse_ok_def by metis
  have "int (x * nat i mod m) = 1" using i(2,4) by (simp add: zmod_int)
  then show ?thesis using i by (intro exI [of _ "nat i"]) (simp add: to_biguint_def nat_less_iff)
qed

lemma inverse_unique:
  assumes "is_prime n" "s * w mod n = 1" "s * w' mod n = 1" "w < n" "w' < n"
  shows "w = w'"
proof -
  have "w * (s * w') mod n = w" using assms(3,4) by (metis mod_mult_right_eq mult.right_neutral mod_less)
  moreover have "w' * (s * w) mod n = w'" using assms(2,5) by (metis mod_mult_right_eq mult.right_neutral mod_less)
  ultimately show ?thesis by (simp add: ac_simps)
qed

lemma affine_x:
  assumes "odd_prime (int p)" "reduced p P" "affine p P = Point X Y" "pt_z P * i mod p = 1"
  shows "pt_x P * i * i mod p = nat X"
proof -
  have z: "pt_z P \<noteq> 0" using assms(3) by (simp add: affine_def split: if_splits)
  obtain X' Y' where A: "affine p P = Point X' Y'" "0 \<le> X'" "X' < int p" "0 \<le> Y'" "Y' < int p"
    "eqm (int p) (int (pt_x P)) (X' * int (pt_z P) ^ 2)" "eqm (int p) (int (pt_y P)) (Y' * int (pt_z P) ^ 3)"
    using affineE [OF assms(1,2) z] by metis
  have p: "1 < p" using assms(1) by (simp add: odd_prime_def)
  have "int (pt_z P * i mod p) = 1" using assms(4) by simp
  then have e: "eqm (int p) (int (pt_z P) * int i) 1" using p by (simp add: eqm_def zmod_int)
  have "eqm (int p) (int (pt_x P) * int i ^ 2) (X' * int (pt_z P) ^ 2 * int i ^ 2)" by (intro eqm_mult A eqm_refl)
  also have "X' * int (pt_z P) ^ 2 * int i ^ 2 = X' * (int (pt_z P) * int i) ^ 2" by (simp add: power_mult_distrib)
  also have "eqm (int p) (X' * (int (pt_z P) * int i) ^ 2) (X' * 1 ^ 2)" by (intro eqm_intros e eqm_refl)
  finally have "eqm (int p) (int (pt_x P) * int i ^ 2) X'" by simp
  then have "int (pt_x P * i * i mod p) = X'" using A(2,3) by (simp add: eqm_def zmod_int power2_eq_square mult.assoc)
  then show ?thesis using assms(3) A(1) by simp
qed


lemma affine_unit: "odd_prime (int p) \<Longrightarrow> x < p \<Longrightarrow> y < p \<Longrightarrow>
  reduced p \<lparr> pt_x = x, pt_y = y, pt_z = 1 \<rparr> \<and> affine p \<lparr> pt_x = x, pt_y = y, pt_z = 1 \<rparr> = Point (int x) (int y)"
  using affineI [of p "\<lparr> pt_x = x, pt_y = y, pt_z = 1 \<rparr>" "int x" "int y"] by (simp add: reduced_def odd_prime_def)

lemma affine_zero: "affine p P = Infinity \<longleftrightarrow> pt_z P = 0"
  by (simp add: affine_def Let_def)

text \<open>The last steps of the verification, for values in range and a point on the curve.\<close>

definition verify_tail ::
  "curve_constants \<Rightarrow> (nat \<Rightarrow> nat \<Rightarrow> int option) \<Rightarrow> PublicPoint \<Rightarrow> nat \<Rightarrow> nat \<Rightarrow> nat \<Rightarrow> BrainpoolP512VerifyError + unit" where
  "verify_tail cc mod_inverse public z r s =
     bindR (ok_orR BrainpoolP512VerifyError (Option.bind (mod_inverse s (cc_n cc)) to_biguint)) (\<lambda>w.
     let point = multiply_sum ((z * w) mod cc_n cc) \<lparr> pt_x = cc_gx cc, pt_y = cc_gy cc, pt_z = 1 \<rparr> ((r * w) mod cc_n cc) public
           (cc_p cc) (cc_a cc) in
     bindR (rejectR (pt_z point = 0) BrainpoolP512VerifyError) (\<lambda>_.
     bindR (ok_orR BrainpoolP512VerifyError (Option.bind (mod_inverse (pt_z point) (cc_p cc)) to_biguint)) (\<lambda>inv.
     let x = (pt_x point * inv * inv) mod cc_p cc in
     if x mod cc_n cc = r then Inr () else Inl BrainpoolP512VerifyError)))"

lemma verify_tail_iff:
  assumes "curve_ok cc" "inverse_ok mod_inverse" "reduced (cc_p cc) Q" "cc_on_curve cc (affine (cc_p cc) Q)"
    "0 < r" "r < cc_n cc" "0 < s" "s < cc_n cc"
  shows "verify_tail cc mod_inverse Q z r s = Inr () \<longleftrightarrow> ecdsa_valid cc (affine (cc_p cc) Q) z r s"
proof -
  let ?p = "cc_p cc" and ?n = "cc_n cc" and ?G = "\<lparr> pt_x = cc_gx cc, pt_y = cc_gy cc, pt_z = 1 \<rparr>"
  have ok: "odd_prime (int ?p)" "is_prime ?n" "curve_assoc (int ?p) (int (cc_a cc)) (int (cc_b cc))" "is_prime ?p"
    "on_curve (int ?p) (int (cc_a cc)) (int (cc_b cc)) (cc_generator cc)"
    using assms(1) by (simp_all add: curve_ok_def odd_prime_def cc_generator_def)
  have G: "reduced ?p ?G" "affine ?p ?G = cc_generator cc"
    using affine_unit [OF ok(1)] ok(5) by (simp_all add: cc_generator_def)
  obtain w where w: "w < ?n" "s * w mod ?n = 1" "Option.bind (mod_inverse s ?n) to_biguint = Some w"
    using inverse_prime [OF assms(2) ok(2) assms(7,8)] by blast
  define R where "R = multiply_sum ((z * w) mod ?n) ?G ((r * w) mod ?n) Q ?p (cc_a cc)"
  define S where "S = cc_add cc (cc_mul cc (z * w mod ?n) (cc_generator cc)) (cc_mul cc (r * w mod ?n) (affine ?p Q))"
  have R: "reduced ?p R" "affine ?p R = S"
    using multiply_sum_affine [OF ok(1,3) G(1) assms(3)] ok(5) assms(4)
    unfolding R_def S_def cc_add_def cc_mul_def cc_on_curve_def G(2) by blast+
  have valid: "ecdsa_valid cc (affine ?p Q) z r s \<longleftrightarrow> (\<exists>X Y. S = Point X Y \<and> nat X mod ?n = r)"
    unfolding ecdsa_valid_def S_def using assms(5-8) w(1,2) inverse_unique [OF ok(2) w(2) _ w(1)] by blast
  show ?thesis
  proof (cases "pt_z R = 0")
    case True
    then have "S = Infinity" using R(2) affine_zero by metis
    then show ?thesis unfolding valid verify_tail_def w(3) Let_def using True by (simp add: R_def [symmetric] ok_orR_def del: One_nat_def)
  next
    case False
    then obtain X Y where XY: "S = Point X Y" using R(2) affine_zero by (metis point.exhaust)
    obtain i where i: "pt_z R * i mod ?p = 1" "Option.bind (mod_inverse (pt_z R) ?p) to_biguint = Some i"
      using inverse_prime [OF assms(2) ok(4), of "pt_z R"] False R(1) by (auto simp: reduced_def)
    have "pt_x R * i * i mod ?p = nat X" using affine_x [OF ok(1) R(1) _ i(1)] R(2) XY by simp
    then show ?thesis unfolding valid verify_tail_def w(3) Let_def using False i(2) XY by (simp add: R_def [symmetric] ok_orR_def del: One_nat_def)
  qed
qed

lemma digest_shift:
  "(if length dig * 8 > nat_bits n then drop_bit (length dig * 8 - nat_bits n) (be_nat dig) else be_nat dig) = digest_number n dig"
  by (simp add: digest_number_def drop_bit_eq_div)

lemma on_curve_nat:
  "on_curve (int p) (int a) (int b) (Point (int x) (int y)) \<longleftrightarrow>
     x < p \<and> y < p \<and> y * y mod p = (x * x * x + a * x + b) mod p"
proof -
  have "eqm (int p) (int y ^ 2) (int x ^ 3 + int a * int x + int b) \<longleftrightarrow> int (y * y mod p) = int ((x * x * x + a * x + b) mod p)"
    unfolding eqm_def of_nat_mod by (simp add: power2_eq_square power3_eq_cube)
  then show ?thesis by auto
qed

lemma verify_iff:
  fixes public_key dig signature :: bytes and cc
  defines "x \<equiv> be_nat (slice_range 1 65 public_key)" and "y \<equiv> be_nat (drop 65 public_key)"
    and "r \<equiv> be_nat (take 64 signature)" and "s \<equiv> be_nat (drop 64 signature)"
  shows "verify_prehash_on cc mod_inverse public_key dig signature = Inr () \<longleftrightarrow>
    (length public_key = 129 \<and> public_key ! 0 = 0x04 \<and> length signature = 128)
    \<and> cc_on_curve cc (Point (int x) (int y)) \<and> (0 < r \<and> r < cc_n cc \<and> 0 < s \<and> s < cc_n cc)
    \<and> verify_tail cc mod_inverse \<lparr> pt_x = x, pt_y = y, pt_z = 1 \<rparr> (digest_number (cc_n cc) dig) r s = Inr ()"
  unfolding verify_prehash_on_def Let_def verify_tail_def cc_on_curve_def on_curve_nat x_def [symmetric] y_def [symmetric]
    r_def [symmetric] s_def [symmetric] digest_shift bindR_Inr_iff rejectR_Inr_iff
  by (auto simp: not_le simp del: One_nat_def)

lemma key_parts: "length xs = 64 \<Longrightarrow> slice_range 1 65 (c # xs @ ys) = xs" "length xs = 64 \<Longrightarrow> drop 65 (c # xs @ ys) = ys"
  by (simp_all add: slice_range_def)

lemma bytes_split:
  "length bs = 129 \<and> bs ! 0 = c \<longleftrightarrow> (\<exists>xs ys. length xs = 64 \<and> length ys = 64 \<and> bs = c # xs @ ys)"
proof
  assume a: "length bs = 129 \<and> bs ! 0 = c"
  then obtain t where t: "bs = c # t" "length t = 128" by (cases bs) auto
  then show "\<exists>xs ys. length xs = 64 \<and> length ys = 64 \<and> bs = c # xs @ ys"
    by (intro exI [of _ "take 64 t"] exI [of _ "drop 64 t"]) simp
qed auto

lemma verify_exact:
  assumes "curve_ok cc" "inverse_ok mod_inverse"
  shows "verify_prehash_on cc mod_inverse public_key dig signature = Inr () \<longleftrightarrow>
    (\<exists>xs ys rs ss. length xs = 64 \<and> length ys = 64 \<and> length rs = 64 \<and> length ss = 64
       \<and> public_key = 0x04 # xs @ ys \<and> signature = rs @ ss
       \<and> cc_on_curve cc (Point (int (be_nat xs)) (int (be_nat ys)))
       \<and> ecdsa_valid cc (Point (int (be_nat xs)) (int (be_nat ys))) (digest_number (cc_n cc) dig) (be_nat rs) (be_nat ss))"
  (is "?l \<longleftrightarrow> ?exact")
proof -
  let ?x = "be_nat (slice_range 1 65 public_key)" and ?y = "be_nat (drop 65 public_key)"
  let ?r = "be_nat (take 64 signature)" and ?s = "be_nat (drop 64 signature)"
  let ?Q = "\<lparr> pt_x = ?x, pt_y = ?y, pt_z = 1 \<rparr>" and ?P = "Point (int ?x) (int ?y)"
  let ?shape = "length public_key = 129 \<and> public_key ! 0 = 0x04 \<and> length signature = 128"
  have p: "odd_prime (int (cc_p cc))" using assms(1) by (simp add: curve_ok_def)
  have tail: "verify_tail cc mod_inverse ?Q (digest_number (cc_n cc) dig) ?r ?s = Inr () \<longleftrightarrow>
      ecdsa_valid cc ?P (digest_number (cc_n cc) dig) ?r ?s"
    if c: "cc_on_curve cc ?P" "0 < ?r \<and> ?r < cc_n cc \<and> 0 < ?s \<and> ?s < cc_n cc"
  proof -
    have "?x < cc_p cc" "?y < cc_p cc" using c(1) by (simp_all add: cc_on_curve_def)
    from affine_unit [OF p this] show ?thesis using verify_tail_iff [OF assms, of ?Q ?r ?s] c by simp
  qed
  have "?l \<longleftrightarrow> ?shape \<and> cc_on_curve cc ?P \<and> (0 < ?r \<and> ?r < cc_n cc \<and> 0 < ?s \<and> ?s < cc_n cc)
      \<and> verify_tail cc mod_inverse ?Q (digest_number (cc_n cc) dig) ?r ?s = Inr ()"
    by (rule verify_iff)
  also have "\<dots> \<longleftrightarrow> ?shape \<and> cc_on_curve cc ?P \<and> ecdsa_valid cc ?P (digest_number (cc_n cc) dig) ?r ?s"
    using tail unfolding ecdsa_valid_def by blast
  also have "\<dots> \<longleftrightarrow> ?exact"
  proof
    assume a: "?shape \<and> cc_on_curve cc ?P \<and> ecdsa_valid cc ?P (digest_number (cc_n cc) dig) ?r ?s"
    then have "length public_key = 129 \<and> public_key ! 0 = 0x04" by (simp only: simp_thms)
    then obtain xs ys where "length xs = 64" "length ys = 64" "public_key = 0x04 # xs @ ys" unfolding bytes_split by blast
    then show ?exact using a key_parts [of xs 4 ys]
      by (intro exI [of _ xs] exI [of _ ys] exI [of _ "take 64 signature"] exI [of _ "drop 64 signature"]) simp
  qed (auto simp: key_parts simp del: One_nat_def)
  finally show ?thesis .
qed


text \<open>
  C30: Verification of a brainpoolP512r1 signature accepts exactly the signatures of SEC 1: the public key is the
  uncompressed encoding of a point of the curve with reduced coordinates, both halves of the signature are
  between 1 and the order, and the first coordinate of the combined multiple of the generator and the public key is congruent to
  the first half. Nothing else is accepted, and nothing that satisfies the equation is refused. It holds for every
  curve over a prime field with a prime order.
\<close>

theorem brainpool_verify_exact:
  assumes "curve_ok cc" "inverse_ok mod_inverse"
  shows "verify_prehash_on cc mod_inverse public_key dig signature = Inr () \<longleftrightarrow>
    (\<exists>xs ys rs ss. length xs = 64 \<and> length ys = 64 \<and> length rs = 64 \<and> length ss = 64
       \<and> public_key = 0x04 # xs @ ys \<and> signature = rs @ ss
       \<and> cc_on_curve cc (Point (int (be_nat xs)) (int (be_nat ys)))
       \<and> ecdsa_valid cc (Point (int (be_nat xs)) (int (be_nat ys))) (digest_number (cc_n cc) dig) (be_nat rs) (be_nat ss))"
  using assms by (rule verify_exact)

lemma mod_inverse_step:
  assumes "s * w mod n = 1" "s * k mod n = (e + r * d) mod n"
  shows "(e * w mod n + r * w mod n * d) mod n = k mod (n :: nat)"
proof -
  have "(e * w mod n + r * w mod n * d) mod n = (w * ((e + r * d) mod n)) mod n"
    by (simp add: mod_simps algebra_simps) (metis mod_add_right_eq mod_mult_right_eq)
  also have "\<dots> = (w * (s * k mod n)) mod n" by (simp only: assms(2))
  also have "\<dots> = ((s * w mod n) * k) mod n" by (simp add: mod_simps ac_simps)
  finally show ?thesis by (simp add: assms(1))
qed

text \<open>The signing equation implies the verification equation.\<close>

lemma signed_verifies:
  assumes "curve_ok cc" "inverse_ok mod_inverse" "cc_p cc \<le> 256 ^ 64" "cc_n cc \<le> 256 ^ 64"
    "cc_mul cc (cc_n cc) (cc_generator cc) = Infinity"
    "cc_mul cc d (cc_generator cc) = Point x y" "cc_mul cc k (cc_generator cc) = Point rx ry"
    "r = nat rx mod cc_n cc" "r \<noteq> 0" "0 < s" "s < cc_n cc"
    "s * k mod cc_n cc = (digest_number (cc_n cc) dig + r * d) mod cc_n cc"
  shows "verify_prehash_on cc mod_inverse (0x04 # be_bytes 64 (nat x) @ be_bytes 64 (nat y)) dig
     (be_bytes 64 r @ be_bytes 64 s) = Inr ()"
proof -
  let ?n = "cc_n cc" and ?G = "cc_generator cc" and ?Q = "Point x y" and ?e = "digest_number (cc_n cc) dig"
  let ?c = "(int (cc_p cc), int (cc_a cc), int (cc_b cc))"
  have env: "curve_env ?c" "is_prime ?n" "on_curve (int (cc_p cc)) (int (cc_a cc)) (int (cc_b cc)) ?G"
    using assms(1) by (simp_all add: curve_ok_def cc_generator_def)
  note mul = cc_mul_def smul_def
  have Q: "cc_on_curve cc ?Q"
    using pts.mem_nfold [of ?c ?G d] env assms(6) by (simp add: cc_on_curve_def mul)
  then have xy: "0 \<le> x" "x < int (cc_p cc)" "0 \<le> y" "y < int (cc_p cc)" by (simp_all add: cc_on_curve_def)
  obtain w where w: "w < ?n" "s * w mod ?n = 1" using inverse_prime [OF assms(2) env(2) assms(10,11)] by blast
  have rn: "r < ?n" using assms(8,11) by simp
  have "cc_mul cc (r * w mod ?n) ?Q = cc_mul cc (r * w mod ?n * d) ?G"
    using pts.nfold_mult [of ?c ?G "r * w mod ?n" d] env assms(6) by (simp add: mul)
  then have "cc_add cc (cc_mul cc (?e * w mod ?n) ?G) (cc_mul cc (r * w mod ?n) ?Q) = cc_mul cc (?e * w mod ?n + r * w mod ?n * d) ?G"
    using pts.nfold_plus [of ?c ?G "?e * w mod ?n" "r * w mod ?n * d"] env by (simp add: mul cc_add_def)
  also have "\<dots> = cc_mul cc ((?e * w mod ?n + r * w mod ?n * d) mod ?n) ?G"
    using pts.nfold_mod [of ?c ?G ?n] env assms(5) by (simp add: mul)
  also have "\<dots> = cc_mul cc k ?G"
    unfolding mod_inverse_step [OF w(2) assms(12)] using pts.nfold_mod [of ?c ?G ?n k] env assms(5) by (simp add: mul)
  finally have "ecdsa_valid cc ?Q ?e r s"
    unfolding ecdsa_valid_def using assms(7-11) rn w by (intro conjI exI [of _ w] exI [of _ rx] exI [of _ ry]) auto
  moreover have "nat x < 256 ^ 64" "nat y < 256 ^ 64" "r < 256 ^ 64" "s < 256 ^ 64"
    using xy assms(3,4,11) rn by linarith+
  ultimately show ?thesis
    unfolding verify_exact [OF assms(1,2)]
    using Q xy(1,3)
    by (intro exI [of _ "be_bytes 64 (nat x)"] exI [of _ "be_bytes 64 (nat y)"] exI [of _ "be_bytes 64 r"] exI [of _ "be_bytes 64 s"])
      (simp only: be_nat_be_bytes mod_less length_be_bytes int_nat_eq if_True simp_thms)
qed

text \<open>
  C31: Every signature made by the ECDSA signing equation is accepted. For a key pair \<open>d\<close> and
  \<open>d G\<close>, a nonce \<open>k\<close> whose multiple of the generator has the first coordinate \<open>r\<close> modulo the order,
  and \<open>s\<close> with \<open>s k = e + r d\<close> modulo the order, verification of the pair \<open>(r, s)\<close> returns
  without an error.
\<close>

theorem ecdsa_signatures_verify:
  assumes "curve_ok cc" "inverse_ok mod_inverse" "cc_p cc \<le> 256 ^ 64" "cc_n cc \<le> 256 ^ 64"
    "cc_mul cc (cc_n cc) (cc_generator cc) = Infinity"
    "cc_mul cc d (cc_generator cc) = Point x y" "cc_mul cc k (cc_generator cc) = Point rx ry"
    "r = nat rx mod cc_n cc" "r \<noteq> 0" "0 < s" "s < cc_n cc"
    "s * k mod cc_n cc = (digest_number (cc_n cc) dig + r * d) mod cc_n cc"
  shows "verify_prehash_on cc mod_inverse (0x04 # be_bytes 64 (nat x) @ be_bytes 64 (nat y)) dig
     (be_bytes 64 r @ be_bytes 64 s) = Inr ()"
  using assms by (rule signed_verifies)



section \<open>A small curve, and the constants\<close>

text \<open>The curve \<open>y\<^sup>2 = x\<^sup>3 + 2 x + 1\<close> modulo 5 has seven points, the multiples of \<open>(0, 1)\<close>.\<close>

definition tiny_curve :: curve_constants where
  "tiny_curve = \<lparr> cc_p = 5, cc_a = 2, cc_b = 1, cc_n = 7, cc_gx = 0, cc_gy = 1 \<rparr>"

definition tiny_points :: "point list" where
  "tiny_points = [Infinity, Point 0 1, Point 1 3, Point 3 3, Point 3 2, Point 1 2, Point 0 4]"

lemma tiny_table: "\<forall>i \<in> set [0..<7]. \<forall>j \<in> set [0..<7]. ec_add 5 2 (tiny_points ! i) (tiny_points ! j) = tiny_points ! ((i + j) mod 7)"
  by code_simp

lemma tiny_add: "i < 7 \<Longrightarrow> j < 7 \<Longrightarrow> ec_add 5 2 (tiny_points ! i) (tiny_points ! j) = tiny_points ! ((i + j) mod 7)"
  using tiny_table by simp

lemma tiny_complete:
  assumes "on_curve 5 2 1 P"
  shows "\<exists>i < 7. P = tiny_points ! i"
proof (cases P)
  case Infinity
  then show ?thesis by (intro exI [of _ 0]) (simp add: tiny_points_def)
next
  case (Point x y)
  have "\<forall>x \<in> set [0, 1, 2, 3, 4]. \<forall>y \<in> set [0, 1, 2, 3, 4]. on_curve 5 2 1 (Point x y) \<longrightarrow> Point x y \<in> set tiny_points"
    unfolding eqm_def on_curve.simps by code_simp
  moreover have "x \<in> set [0, 1, 2, 3, 4]" "y \<in> set [0, 1, 2, 3, 4]" using assms Point by auto
  ultimately have "P \<in> set tiny_points" using assms Point by blast
  moreover have "length tiny_points = 7" by (simp add: tiny_points_def)
  ultimately show ?thesis unfolding in_set_conv_nth by metis
qed

lemma tiny_assoc: "curve_assoc 5 2 1"
  unfolding curve_assoc_def
proof (intro allI impI, goal_cases)
  case (1 P Q R)
  then obtain i j k where "i < 7" "j < 7" "k < 7" "P = tiny_points ! i" "Q = tiny_points ! j" "R = tiny_points ! k"
    using tiny_complete by meson
  then show ?case by (simp add: tiny_add mod_simps add.assoc)
qed

lemma small_primes: "is_prime 5" "is_prime 7"
proof -
  have "d = 1 \<or> d = p" if "\<forall>d \<in> {2..<p}. \<not> d dvd p" "1 < p" "d dvd p" for d p :: nat
    using that dvd_imp_le [of d p] by (cases "d = 0") (auto simp: less_Suc_eq_le atLeastLessThan_def intro: le_neq_implies_less)
  then have c: "(\<forall>d \<in> {2..<p}. \<not> d dvd p) \<Longrightarrow> 1 < p \<Longrightarrow> is_prime p" for p unfolding is_prime_def by blast
  show "is_prime 5" by (rule c) (simp_all add: atLeastLessThan_nat_numeral)
  show "is_prime 7" by (rule c) (simp_all add: atLeastLessThan_nat_numeral)
qed

lemma tiny_ok: "curve_ok tiny_curve"
  by (simp add: curve_ok_def tiny_curve_def odd_prime_def small_primes tiny_assoc eqm_def)

definition sample_inverse :: "nat \<Rightarrow> nat \<Rightarrow> int option" where
  "sample_inverse x m = map_option int (find (\<lambda>i. x * i mod m = 1) [0..<m])"

lemma sample_inverse_ok: "inverse_ok sample_inverse"
  unfolding inverse_ok_def
proof (intro allI impI)
  fix x m :: nat
  assume m: "1 < m"
  show "if coprime x m then \<exists>i. sample_inverse x m = Some i \<and> 0 \<le> i \<and> i < int m \<and> int x * i mod int m = 1
      else sample_inverse x m = None"
  proof (cases "find (\<lambda>i. x * i mod m = 1) [0..<m]")
    case None
    have "\<not> coprime x m"
    proof
      assume c: "coprime x m"
      then have "x \<noteq> 0" using m by (metis coprime_0_left_iff nat_dvd_1_iff_1 less_irrefl)
      then obtain u v where "x * u = m * v + 1" using bezout_nat [of x m] c by auto
      then have "x * (u mod m) mod m = (m * v + 1) mod m" by (simp only: mod_mult_right_eq)
      then have "x * (u mod m) mod m = 1" using m by (simp only: mod_mult_self4 mod_less)
      then show False using None m by (auto simp: find_None_iff)
    qed
    then show ?thesis using None by (simp add: sample_inverse_def)
  next
    case (Some i)
    then have i: "i < m" "x * i mod m = 1" by (auto simp: find_Some_iff)
    have "coprime x m"
    proof (rule coprimeI)
      fix d assume "d dvd x" "d dvd m"
      then have "d dvd x * i mod m" by (simp add: dvd_mod)
      then show "d dvd 1" by (simp add: i(2))
    qed
    moreover have "int (x * i mod m) = 1" using i(2) by simp
    ultimately show ?thesis using i(1) Some by (simp add: sample_inverse_def zmod_int)
  qed
qed


lemma tiny_multiples:
  "cc_mul tiny_curve 7 (cc_generator tiny_curve) = Infinity" "cc_mul tiny_curve 2 (cc_generator tiny_curve) = Point 1 3"
  "cc_mul tiny_curve 3 (cc_generator tiny_curve) = Point 3 3" "digest_number 7 [0x50] = 2"
  by code_simp+

lemma be_nat_width64: "v < 256 ^ 64 \<Longrightarrow> be_nat (be_bytes 64 v) = v"
  by (simp only: be_nat_be_bytes mod_less)

lemma tiny_valid: "cc_on_curve tiny_curve (Point 1 3)" "ecdsa_valid tiny_curve (Point 1 3) 2 3 5"
proof -
  show "cc_on_curve tiny_curve (Point 1 3)" by (simp add: cc_on_curve_def tiny_curve_def eqm_def)
  have "cc_add tiny_curve (cc_mul tiny_curve 6 (cc_generator tiny_curve)) (cc_mul tiny_curve 2 (Point 1 3)) = Point 3 3" by code_simp
  moreover have "cc_n tiny_curve = 7" by (simp add: tiny_curve_def)
  ultimately show "ecdsa_valid tiny_curve (Point 1 3) 2 3 5"
    unfolding ecdsa_valid_def by (intro conjI exI [of _ 3] exI [of _ "3 :: int"]) simp_all
qed

theorem brainpool_verify_exact_witness:
  "verify_prehash_on tiny_curve sample_inverse (0x04 # be_bytes 64 1 @ be_bytes 64 3) [0x50] (be_bytes 64 3 @ be_bytes 64 5) = Inr ()
   \<and> verify_prehash_on tiny_curve sample_inverse (0x04 # be_bytes 64 1 @ be_bytes 64 3) [0x50] (be_bytes 64 0 @ be_bytes 64 5) \<noteq> Inr ()"
proof -
  note e = brainpool_verify_exact [OF tiny_ok sample_inverse_ok]
  have b: "be_nat (be_bytes 64 1) = 1" "be_nat (be_bytes 64 3) = 3" "be_nat (be_bytes 64 5) = 5" "be_nat (be_bytes 64 0) = 0"
    by (rule be_nat_width64; simp)+
  have n: "cc_n tiny_curve = 7" by (simp add: tiny_curve_def)
  have "verify_prehash_on tiny_curve sample_inverse (0x04 # be_bytes 64 1 @ be_bytes 64 3) [0x50] (be_bytes 64 3 @ be_bytes 64 5) = Inr ()"
    unfolding e n tiny_multiples(4)
    by (intro exI [of _ "be_bytes 64 1"] exI [of _ "be_bytes 64 3"] exI [of _ "be_bytes 64 5"] conjI length_be_bytes refl)
      (use tiny_valid in \<open>simp_all only: b of_nat_1 of_nat_numeral\<close>)
  moreover have "\<not> ecdsa_valid tiny_curve Q e (be_nat rs) s" if "rs @ ss = be_bytes 64 0 @ be_bytes 64 5" "length rs = 64" for Q e rs ss s
    using that b(4) by (simp add: ecdsa_valid_def)
  ultimately show ?thesis unfolding e by metis
qed

theorem ecdsa_signatures_verify_witness:
  "verify_prehash_on tiny_curve sample_inverse (0x04 # be_bytes 64 1 @ be_bytes 64 3) [0x50] (be_bytes 64 3 @ be_bytes 64 5) = Inr ()"
proof -
  have "verify_prehash_on tiny_curve sample_inverse (0x04 # be_bytes 64 (nat 1) @ be_bytes 64 (nat 3)) [0x50] (be_bytes 64 3 @ be_bytes 64 5) = Inr ()"
    by (rule ecdsa_signatures_verify [OF tiny_ok sample_inverse_ok, where d = 2 and k = 3 and rx = 3 and ry = 3])
      (use tiny_multiples in \<open>simp_all add: tiny_curve_def\<close>)
  moreover have "nat 1 = 1" "nat 3 = 3" by simp_all
  ultimately show ?thesis by metis
qed


text \<open>
  C32: The arithmetic on Jacobian coordinates implements the affine chord-and-tangent law for every odd prime modulus
  and all points with reduced coordinates, on a curve or not: doubling and addition of any two such points, the point at
  infinity, a point with itself and a point with its inverse included, give reduced coordinates of the affine double and sum.
\<close>

theorem jacobian_refines_affine:
  assumes "odd_prime (int p)" "reduced p P" "reduced p Q"
  shows "reduced p (point_double P p a) \<and> affine p (point_double P p a) = ec_double (int p) (int a) (affine p P)
    \<and> reduced p (point_add P Q p a) \<and> affine p (point_add P Q p a) = ec_add (int p) (int a) (affine p P) (affine p Q)"
  using double_affine [OF assms(1,2)] add_affine [OF assms] by blast

theorem jacobian_refines_affine_witness:
  "affine 5 (point_add \<lparr> pt_x = 0, pt_y = 3, pt_z = 2 \<rparr> \<lparr> pt_x = 1, pt_y = 3, pt_z = 1 \<rparr> 5 2) = ec_add 5 2 (Point 0 1) (Point 1 3)
   \<and> ec_add 5 2 (Point 0 1) (Point 1 3) = Point 3 3"
proof -
  have "odd_prime (int 5)" by (simp add: odd_prime_def small_primes)
  moreover have "reduced 5 \<lparr> pt_x = 0, pt_y = 3, pt_z = 2 \<rparr>" "reduced 5 \<lparr> pt_x = 1, pt_y = 3, pt_z = 1 \<rparr>" by (simp_all add: reduced_def)
  moreover have "affine 5 \<lparr> pt_x = 0, pt_y = 3, pt_z = 2 \<rparr> = Point 0 1" "affine 5 \<lparr> pt_x = 1, pt_y = 3, pt_z = 1 \<rparr> = Point 1 3"
    "ec_add 5 2 (Point 0 1) (Point 1 3) = Point 3 3" by code_simp+
  ultimately show ?thesis
    using jacobian_refines_affine [of 5 "\<lparr> pt_x = 0, pt_y = 3, pt_z = 2 \<rparr>" "\<lparr> pt_x = 1, pt_y = 3, pt_z = 1 \<rparr>" 2] by simp
qed

text \<open>
  The interleaved multiplication returns the sum of the two multiples, for all scalars, of any byte lengths, and all
  points of a curve whose law is associative.
\<close>

theorem multiply_sum_exact:
  assumes "odd_prime (int p)" "curve_assoc (int p) (int a) b" "reduced p P" "reduced p Q"
    "on_curve (int p) (int a) b (affine p P)" "on_curve (int p) (int a) b (affine p Q)"
  shows "reduced p (multiply_sum u P v Q p a)
    \<and> affine p (multiply_sum u P v Q p a) =
        ec_add (int p) (int a) (smul (int p) (int a) u (affine p P)) (smul (int p) (int a) v (affine p Q))"
  using assms by (rule multiply_sum_affine)

theorem multiply_sum_exact_witness:
  "affine 5 (multiply_sum 1000 \<lparr> pt_x = 0, pt_y = 3, pt_z = 2 \<rparr> 3 \<lparr> pt_x = 1, pt_y = 3, pt_z = 1 \<rparr> 5 2)
     = ec_add 5 2 (smul 5 2 1000 (Point 0 1)) (smul 5 2 3 (Point 1 3))"
proof -
  let ?P = "\<lparr> pt_x = 0, pt_y = 3, pt_z = 2 \<rparr>" and ?Q = "\<lparr> pt_x = 1, pt_y = 3, pt_z = 1 \<rparr>"
  have "odd_prime (int 5)" by (simp add: odd_prime_def small_primes)
  moreover have "reduced 5 ?P" "reduced 5 ?Q" by (simp_all add: reduced_def)
  moreover have a: "affine 5 ?P = Point 0 1" "affine 5 ?Q = Point 1 3" by code_simp+
  moreover have "on_curve (int 5) (int 2) 1 (Point 0 1)" "on_curve (int 5) (int 2) 1 (Point 1 3)" by (simp_all add: eqm_def)
  moreover have "curve_assoc (int 5) (int 2) 1" using tiny_assoc by simp
  ultimately have "affine 5 (multiply_sum 1000 ?P 3 ?Q 5 2) =
      ec_add (int 5) (int 2) (smul (int 5) (int 2) 1000 (affine 5 ?P)) (smul (int 5) (int 2) 3 (affine 5 ?Q))"
    by (intro conjunct2 [OF multiply_sum_exact [where b = 1]]) simp_all
  then show ?thesis by (simp only: a of_nat_numeral)
qed

end
