(* ===== verification/Brainpool_Constants.thy ===== *)
theory Brainpool_Constants
  imports Brainpool512
begin

text \<open>
  The constants of brainpoolP512r1, as \<^verbatim>\<open>src/src/brainpool512.rs\<close> writes them out. Reductions of large
  numbers are checked from their quotients and remainders, which only needs products.
\<close>

lemma quotient_step: "v = q * p + r \<Longrightarrow> v mod p = r mod p" for v q p r :: nat
  by simp

lemma horner_mod: "(u mod p * x + b) mod p = (u * x + b) mod p" for u :: nat
  by (metis mod_add_left_eq mod_mult_left_eq)

definition step_x :: nat where "step_x = 0x56dd98fd9c79b5730aa6572d63c6779e99aa9b2b63858fd6d06cbd8da12f79cab9e12ceb475a491229b44a82446aa7ef175f85ea583c980b3fd0ec24c2f5290d"

definition curve_side :: nat where "curve_side = 0x281ab21ebf9d20362ec1788a122cf2e6760aac121832542ec9dfd059638fcdd517dd7fe5ea91c5ac7a5e6c59fb2ac3928a85bc528ca09d7f235e7dfc08437496"

lemma square_step: "cc_gx brainpoolP512r1 * cc_gx brainpoolP512r1 + cc_a brainpoolP512r1 =
    0x626d34d972ad699f513ce006fda1a6d496bcb5bd28b3ef1257a5c7bc19b4c557b80d2a83eaa49c88cbd19f3e4bb2504e261f5cf670e19d12a684a7076eeb8efb * cc_p brainpoolP512r1 + step_x"
  unfolding brainpoolP512r1_def curve_constants.select_convs step_x_def by simp

lemma cube_step: "step_x * cc_gx brainpoolP512r1 + cc_b brainpoolP512r1 =
    0x41edd4eb5903c41081f4cddc3c9c672ddb55a79d6708f31984ec318b11549ac2c26c64217b6ac2f718976ce4f84d5e9d04a2e6600fd7749f1aa25a73b2033a5d * cc_p brainpoolP512r1 + curve_side"
  unfolding brainpoolP512r1_def curve_constants.select_convs step_x_def curve_side_def by simp

lemma y_step: "cc_gy brainpoolP512r1 * cc_gy brainpoolP512r1 =
    0x5cb877d1f7fa52b6ab8cc3ecd3d0f9134336b93a6fb4e74a826955d6efe02aa744653d8e0b0913bfb3d18bf0b6451b3217de21e7dba4aca243e500e2c9a0921a * cc_p brainpoolP512r1 + curve_side"
  unfolding brainpoolP512r1_def curve_constants.select_convs curve_side_def by simp

text \<open>
  The constants written out in the code fit together: the modulus and the order are odd numbers of 512 bits, the
  order below the modulus, and the generator has reduced coordinates that satisfy the curve equation.
\<close>

theorem brainpool_constants:
  "cc_on_curve brainpoolP512r1 (cc_generator brainpoolP512r1)
   \<and> odd (cc_p brainpoolP512r1) \<and> odd (cc_n brainpoolP512r1) \<and> nat_bits (cc_p brainpoolP512r1) = 512
   \<and> nat_bits (cc_n brainpoolP512r1) = 512 \<and> cc_n brainpoolP512r1 < cc_p brainpoolP512r1"
proof -
  let ?p = "cc_p brainpoolP512r1" and ?x = "cc_gx brainpoolP512r1" and ?y = "cc_gy brainpoolP512r1"
  let ?a = "cc_a brainpoolP512r1" and ?b = "cc_b brainpoolP512r1"
  have bits: "nat_bits v = 512" if "2 ^ 511 \<le> v" "v < 2 ^ 512" for v
    using that nat_bits_le_iff [of v 512] nat_bits_le_iff [of v 511] by linarith
  note c = brainpoolP512r1_def curve_constants.select_convs
  have "(?x * ?x * ?x + ?a * ?x + ?b) mod ?p = ((?x * ?x + ?a) mod ?p * ?x + ?b) mod ?p"
    unfolding horner_mod by (simp only: distrib_right)
  also have "\<dots> = (step_x * ?x + ?b) mod ?p" unfolding quotient_step [OF square_step] by (rule horner_mod)
  also have "\<dots> = ?y * ?y mod ?p" unfolding quotient_step [OF cube_step] quotient_step [OF y_step] ..
  finally have e: "?y * ?y mod ?p = (?x * ?x * ?x + ?a * ?x + ?b) mod ?p" ..
  have "?x < ?p" "?y < ?p" unfolding c by simp_all
  then have "cc_on_curve brainpoolP512r1 (cc_generator brainpoolP512r1)"
    unfolding cc_on_curve_def cc_generator_def on_curve_nat using e by blast
  moreover have "nat_bits ?p = 512" "nat_bits (cc_n brainpoolP512r1) = 512" by (rule bits; unfold c; simp)+
  moreover have "odd ?p" "odd (cc_n brainpoolP512r1)" "cc_n brainpoolP512r1 < ?p" unfolding c by simp_all
  ultimately show ?thesis by blast
qed

end
