(* ===== verification/Signing_Types.thy ===== *)
theory Signing_Types
  imports Rsa_Encoding Ml_Dsa_Validation
begin

text \<open>
  \<^verbatim>\<open>src/src/software_signing.rs\<close>, the parts without keys: curves, signature schemes, key kinds, public
  keys and errors, the RSA profile of a scheme, and the conversion of DER-encoded ECDSA signatures to their
  fixed-width form. The conversion is proved to accept exactly the canonical encodings.
\<close>

section \<open>Schemes, curves, keys and errors\<close>

datatype EcCurve = EC_P224 | EC_P256 | EC_P384 | EC_P521 | EC_Secp256k1 | EC_BrainpoolP256 | EC_BrainpoolP384 | EC_BrainpoolP512

datatype EdwardsCurve = Curve_Ed25519 | Curve_Ed448

datatype SignatureScheme =
    EcdsaP224Sha224
  | EcdsaP256Sha256
  | Scheme_Ed25519
  | Scheme_Ed448
  | EcdsaP384Sha384
  | EcdsaP521Sha512
  | EcdsaSecp256k1Sha256
  | EcdsaBrainpoolP256Sha256
  | EcdsaBrainpoolP384Sha384
  | EcdsaBrainpoolP512Sha512
  | RsaPssSha256
  | RsaPssSha384
  | RsaPssSha512
  | RsaPkcs1Sha256
  | RsaPkcs1Sha384
  | RsaPkcs1Sha512
  | Scheme_MlDsa MlDsaParameterSet

datatype SoftwareSigningError =
    Sig_AlgorithmMismatch
  | Sig_InvalidPublicKey
  | Sig_InvalidPrivateKey
  | Sig_InvalidSignature
  | Sig_RandomnessUnavailable
  | Sig_SigningFailed

datatype SoftwarePublicKey =
    Pub_Ec EcCurve bytes
  | Pub_Edwards EdwardsCurve bytes
  | Pub_MlDsa MlDsaParameterSet bytes
  | Pub_Rsa bytes bytes

datatype KeyKind = Kind_Ec EcCurve | Kind_Edwards EdwardsCurve | Kind_Rsa nat | Kind_MlDsa MlDsaParameterSet

definition is_rsa :: "SignatureScheme \<Rightarrow> bool" where
  "is_rsa self \<longleftrightarrow> self \<in> {RsaPssSha256, RsaPssSha384, RsaPssSha512, RsaPkcs1Sha256, RsaPkcs1Sha384, RsaPkcs1Sha512}"

fun ec_curve :: "SignatureScheme \<Rightarrow> EcCurve option" where
  "ec_curve EcdsaP224Sha224 = Some EC_P224"
| "ec_curve EcdsaP256Sha256 = Some EC_P256"
| "ec_curve EcdsaP384Sha384 = Some EC_P384"
| "ec_curve EcdsaP521Sha512 = Some EC_P521"
| "ec_curve EcdsaSecp256k1Sha256 = Some EC_Secp256k1"
| "ec_curve EcdsaBrainpoolP256Sha256 = Some EC_BrainpoolP256"
| "ec_curve EcdsaBrainpoolP384Sha384 = Some EC_BrainpoolP384"
| "ec_curve EcdsaBrainpoolP512Sha512 = Some EC_BrainpoolP512"
| "ec_curve _ = None"

fun Edwards_signature_scheme :: "EdwardsCurve \<Rightarrow> SignatureScheme" where
  "Edwards_signature_scheme Curve_Ed25519 = Scheme_Ed25519"
| "Edwards_signature_scheme Curve_Ed448 = Scheme_Ed448"

fun Edwards_private_key_length :: "EdwardsCurve \<Rightarrow> nat" where
  "Edwards_private_key_length Curve_Ed25519 = 32"
| "Edwards_private_key_length Curve_Ed448 = 57"

definition Edwards_public_key_length :: "EdwardsCurve \<Rightarrow> nat" where
  "Edwards_public_key_length self = Edwards_private_key_length self"

fun Edwards_signature_length :: "EdwardsCurve \<Rightarrow> nat" where
  "Edwards_signature_length Curve_Ed25519 = 64"
| "Edwards_signature_length Curve_Ed448 = 114"

fun Ec_signature_scheme :: "EcCurve \<Rightarrow> SignatureScheme" where
  "Ec_signature_scheme EC_P224 = EcdsaP224Sha224"
| "Ec_signature_scheme EC_P256 = EcdsaP256Sha256"
| "Ec_signature_scheme EC_P384 = EcdsaP384Sha384"
| "Ec_signature_scheme EC_P521 = EcdsaP521Sha512"
| "Ec_signature_scheme EC_Secp256k1 = EcdsaSecp256k1Sha256"
| "Ec_signature_scheme EC_BrainpoolP256 = EcdsaBrainpoolP256Sha256"
| "Ec_signature_scheme EC_BrainpoolP384 = EcdsaBrainpoolP384Sha384"
| "Ec_signature_scheme EC_BrainpoolP512 = EcdsaBrainpoolP512Sha512"

fun rsa_profile :: "SignatureScheme \<Rightarrow> (HashAlgorithm \<times> bool) option" where
  "rsa_profile RsaPssSha256 = Some (Sha256, True)"
| "rsa_profile RsaPssSha384 = Some (Sha384, True)"
| "rsa_profile RsaPssSha512 = Some (Sha512, True)"
| "rsa_profile RsaPkcs1Sha256 = Some (Sha256, False)"
| "rsa_profile RsaPkcs1Sha384 = Some (Sha384, False)"
| "rsa_profile RsaPkcs1Sha512 = Some (Sha512, False)"
| "rsa_profile _ = None"

fun map_rsa_verification_error :: "RsaConstructionError \<Rightarrow> SoftwareSigningError" where
  "map_rsa_verification_error Rsa_InvalidKey = Sig_InvalidPublicKey"
| "map_rsa_verification_error _ = Sig_InvalidSignature"

fun map_rsa_signing_error :: "RsaConstructionError \<Rightarrow> SoftwareSigningError" where
  "map_rsa_signing_error Rsa_InvalidKey = Sig_InvalidPrivateKey"
| "map_rsa_signing_error Rsa_RandomnessUnavailable = Sig_RandomnessUnavailable"
| "map_rsa_signing_error _ = Sig_SigningFailed"

lemma scheme_of_curve: "ec_curve scheme = Some curve \<longleftrightarrow> scheme = Ec_signature_scheme curve"
  by (cases scheme; cases curve) simp_all

lemma ec_curve_of [simp]: "ec_curve (Ec_signature_scheme curve) = Some curve"
  by (cases curve) simp_all

lemma rsa_profile_iff: "is_rsa scheme \<longleftrightarrow> rsa_profile scheme \<noteq> None"
  by (cases scheme) (simp_all add: is_rsa_def)


section \<open>DER-encoded ECDSA signatures\<close>

text \<open>\<open>encoded.get(i)\<close> and \<open>encoded.get(lo..hi)\<close>.\<close>

definition get_at :: "'a list \<Rightarrow> nat \<Rightarrow> 'a option" where
  "get_at xs i = (if i < length xs then Some (xs ! i) else None)"

definition get_range :: "'a list \<Rightarrow> nat \<Rightarrow> nat \<Rightarrow> 'a list option" where
  "get_range xs lo hi = (if lo \<le> hi \<and> hi \<le> length xs then Some (slice_range lo hi xs) else None)"

text \<open>The readers take the offset and return the value with the new offset.\<close>

definition der_length :: "bytes \<Rightarrow> nat \<Rightarrow> (nat \<times> nat) option" where
  "der_length encoded offset =
     Option.bind (get_at encoded offset) (\<lambda>first.
     let offset = offset + 1 in
     if first \<le> 0x7f then Some (unat first, offset)
     else if first = 0x81 then
       Option.bind (get_at encoded offset) (\<lambda>b.
       let len = unat b; offset = offset + 1 in
       if len \<ge> 0x80 then Some (len, offset) else None)
     else None)"

definition der_positive_integer :: "bytes \<Rightarrow> nat \<Rightarrow> (bytes \<times> nat) option" where
  "der_positive_integer encoded offset =
     Option.bind (get_at encoded offset) (\<lambda>tag.
     if tag \<noteq> 0x02 then None
     else
       let offset = offset + 1 in
       Option.bind (der_length encoded offset) (\<lambda>(len, offset).
       Option.bind (checked_add offset len) (\<lambda>upper.
       Option.bind (get_range encoded offset upper) (\<lambda>val.
       let offset = offset + len in
       if val = [] \<or> val ! 0 AND 0x80 \<noteq> 0 then None
       else if length val > 1 \<and> val ! 0 = 0 then
         (if val ! 1 AND 0x80 = 0 then None else Some (drop 1 val, offset))
       else Some (val, offset)))))"

definition ecdsa_signature_from_der :: "bytes \<Rightarrow> nat \<Rightarrow> SoftwareSigningError + bytes" where
  "ecdsa_signature_from_der signature coordinate_length =
     (let offset = 0 in
      bindR (rejectR (coordinate_length = 0 \<or> get_at signature offset \<noteq> Some 0x30) Sig_InvalidSignature) (\<lambda>_.
      let offset = offset + 1 in
      bindR (ok_orR Sig_InvalidSignature (der_length signature offset)) (\<lambda>(sequence_length, offset).
      bindR (rejectR (checked_add offset sequence_length \<noteq> Some (length signature)) Sig_InvalidSignature) (\<lambda>_.
      bindR (ok_orR Sig_InvalidSignature (der_positive_integer signature offset)) (\<lambda>(r, offset).
      bindR (ok_orR Sig_InvalidSignature (der_positive_integer signature offset)) (\<lambda>(s, offset).
      bindR (rejectR (offset \<noteq> length signature \<or> length r > coordinate_length \<or> length s > coordinate_length) Sig_InvalidSignature) (\<lambda>_.
      bindR (ok_orR Sig_InvalidSignature (checked_mul coordinate_length 2)) (\<lambda>output_length.
      let output = replicate output_length 0;
          output = copy_at (coordinate_length - length r) r output;
          output = copy_at (output_length - length s) s output
      in Inr output))))))))"

text \<open>The canonical encodings: lengths below 256, and integers with as few bytes as their sign bit allows.\<close>

definition der_len :: "nat \<Rightarrow> bytes" where
  "der_len v = (if v < 128 then [word_of_nat v] else [0x81, word_of_nat v])"

definition der_content :: "nat \<Rightarrow> bytes" where
  "der_content v = (let bs = to_bytes_be v in if hd bs AND 0x80 = 0 then bs else 0 # bs)"

definition der_int :: "nat \<Rightarrow> bytes" where
  "der_int v = 0x02 # der_len (length (der_content v)) @ der_content v"

definition der_signature :: "nat \<Rightarrow> nat \<Rightarrow> bytes" where
  "der_signature r s = 0x30 # der_len (length (der_int r @ der_int s)) @ der_int r @ der_int s"

lemma get_at_append [simp]: "get_at (pre @ rest) (length pre) = (case rest of [] \<Rightarrow> None | b # _ \<Rightarrow> Some b)"
  by (cases rest) (simp_all add: get_at_def)

lemma get_at_snoc [simp]: "get_at (pre @ b # rest) (Suc (length pre)) = (case rest of [] \<Rightarrow> None | c # _ \<Rightarrow> Some c)"
  using get_at_append [of "pre @ [b]" rest] by simp

lemma get_at_end [simp]: "get_at xs (length xs) = None" "get_at xs (Suc (length xs)) = None"
  by (simp_all add: get_at_def)

lemma unat_byte_less: "unat (b :: byte) < 256"
  by (rule unat_u_bounds)

lemma byte_le_iff: "(b :: byte) \<le> 0x7f \<longleftrightarrow> unat b < 128"
  by (simp add: word_le_nat_alt) arith

lemma der_length_iff:
  "der_length (pre @ rest) (length pre) = Some (v, offset) \<longleftrightarrow>
     (\<exists>rest'. rest = der_len v @ rest' \<and> v < 256 \<and> offset = length pre + length (der_len v))"
  (is "?l \<longleftrightarrow> ?r")
proof
  assume ?l
  then obtain first tl where f: "rest = first # tl" by (cases rest) (auto simp: der_length_def)
  show ?r
  proof (cases "first \<le> 0x7f")
    case True
    then show ?thesis using \<open>?l\<close> f by (auto simp: der_length_def der_len_def Let_def byte_le_iff word_of_nat_eq_iff)
  next
    case False
    then obtain b tl' where b: "first = 0x81" "tl = b # tl'" "v = unat b" "unat b \<ge> 128" "offset = length pre + 2"
      using \<open>?l\<close> f by (cases tl) (auto simp: der_length_def Let_def split: if_splits)
    then show ?thesis using f unat_byte_less [of b] by (auto simp: der_len_def)
  qed
next
  assume ?r
  then show ?l by (cases "v < 128") (auto simp: der_length_def der_len_def Let_def byte_le_iff unsigned_of_nat take_bit_nat_eq_self)
qed


text \<open>The shortest big-endian form of a number is the one without a leading zero byte.\<close>

lemma be_nat_hd:
  assumes "bs \<noteq> []" "hd bs \<noteq> 0"
  shows "256 ^ (length bs - 1) \<le> be_nat bs"
proof (cases bs)
  case (Cons b tl)
  have "be_nat bs = be_nat [b] * 256 ^ length tl + be_nat tl" using be_nat_append [of "[b]" tl] Cons by simp
  moreover have "1 \<le> be_nat [b]" using assms Cons by (simp add: be_nat_def unat_gt_0 Suc_le_eq)
  ultimately show ?thesis using Cons by (simp add: trans_le_add1)
qed (use assms in simp)

lemma to_bytes_be_be_nat:
  assumes "bs \<noteq> []" "hd bs \<noteq> 0"
  shows "to_bytes_be (be_nat bs) = bs"
proof -
  let ?v = "be_nat bs" and ?n = "length bs"
  have l: "256 ^ (?n - 1) \<le> ?v" "?v < 256 ^ ?n" using be_nat_hd [OF assms] be_nat_bound by auto
  have "0 < (256 :: nat) ^ (?n - 1)" by simp
  then have v: "0 < ?v" using l(1) by linarith
  have "nat_bits ?v \<le> 8 * ?n" "\<not> nat_bits ?v \<le> 8 * (?n - 1)"
    unfolding nat_bits_le_iff using l by (simp_all add: pow256 mult.commute)
  moreover have "?n = Suc (?n - 1)" using assms(1) by (cases bs) simp_all
  ultimately have "div_ceil (nat_bits ?v) 8 = ?n" using div_ceil_bounds [of 8 "nat_bits ?v"] by linarith
  then show ?thesis using v be_bytes_be_nat [of bs] by (simp add: to_bytes_be_def)
qed

lemma to_bytes_be_zero: "to_bytes_be 0 = [0]"
  by (simp add: to_bytes_be_def)

lemma to_bytes_be_shape: "v \<noteq> 0 \<Longrightarrow> to_bytes_be v \<noteq> [] \<and> hd (to_bytes_be v) \<noteq> 0"
proof -
  assume v: "v \<noteq> 0"
  let ?bs = "to_bytes_be v" and ?n = "div_ceil (nat_bits v) 8"
  have len: "length ?bs = ?n" using v by (simp add: to_bytes_be_def)
  have pos: "0 < nat_bits v" using v nat_bits.simps [of v] by simp
  then have n: "0 < ?n" "8 * (?n - 1) < nat_bits v" by (simp_all add: div_ceil_def) presburger+
  have "hd ?bs \<noteq> 0"
  proof
    assume h: "hd ?bs = 0"
    then obtain tl where "?bs = 0 # tl" using len n(1) by (cases ?bs) auto
    moreover from this have "?n - 1 = length tl" using len by simp
    ultimately have "be_nat ?bs < 256 ^ (?n - 1)" using be_nat_bound [of tl] by (simp add: be_nat_def)
    then have "v < 2 ^ (8 * (?n - 1))" by (simp add: be_nat_to_bytes_be pow256 mult.commute)
    then show False using n(2) nat_bits_le_iff [of v "8 * (?n - 1)"] by simp
  qed
  then show ?thesis using len n(1) by auto
qed


lemma der_content_facts:
  shows der_content_ne: "der_content v \<noteq> []" and der_content_top: "der_content v ! 0 AND 0x80 = 0"
    and der_content_strip: "(if length (der_content v) > 1 \<and> der_content v ! 0 = 0 then drop 1 (der_content v) else der_content v) = to_bytes_be v"
    and der_content_minimal: "length (der_content v) > 1 \<Longrightarrow> der_content v ! 0 = 0 \<Longrightarrow> der_content v ! 1 AND 0x80 \<noteq> 0"
proof -
  have "to_bytes_be v \<noteq> []" using to_bytes_be_shape [of v] to_bytes_be_zero by (cases "v = 0") simp_all
  then obtain b tl where b: "to_bytes_be v = b # tl" by (cases "to_bytes_be v") simp_all
  have c: "v \<noteq> 0 \<Longrightarrow> b \<noteq> 0" "v = 0 \<Longrightarrow> b = 0 \<and> tl = []"
    using to_bytes_be_shape [of v] b to_bytes_be_zero by (metis list.sel(1), metis list.inject)
  then have e: "b = 0 \<Longrightarrow> tl = []" by blast
  have d: "der_content v = (if b AND 0x80 = 0 then b # tl else 0 # b # tl)" by (simp add: der_content_def b Let_def)
  show "der_content v \<noteq> []" "der_content v ! 0 AND 0x80 = 0" by (simp_all add: d)
  show "(if length (der_content v) > 1 \<and> der_content v ! 0 = 0 then drop 1 (der_content v) else der_content v) = to_bytes_be v"
    unfolding d b using e by (cases "b AND 0x80 = 0") auto
  show "length (der_content v) > 1 \<Longrightarrow> der_content v ! 0 = 0 \<Longrightarrow> der_content v ! 1 AND 0x80 \<noteq> 0"
    unfolding d using e by (cases "b AND 0x80 = 0") auto
qed

text \<open>Every content the reader accepts is the content of its number.\<close>

lemma der_content_unique:
  assumes "val \<noteq> []" "val ! 0 AND 0x80 = 0" "length val > 1 \<Longrightarrow> val ! 0 = 0 \<Longrightarrow> val ! 1 AND 0x80 \<noteq> 0"
  shows "val = der_content (be_nat val)"
proof (cases "length val > 1 \<and> val ! 0 = 0")
  case True
  then obtain c tl where v: "val = 0 # c # tl" by (cases val; cases "tl val") auto
  have c: "c AND 0x80 \<noteq> 0" using assms(3) True by (simp add: v)
  then have "c \<noteq> 0" by auto
  then have "to_bytes_be (be_nat (c # tl)) = c # tl" by (simp add: to_bytes_be_be_nat)
  moreover have "be_nat val = be_nat (c # tl)" by (simp add: v be_nat_def)
  ultimately show ?thesis using c by (simp add: der_content_def v)
next
  case False
  then consider "val = [0]" | "val \<noteq> []" "hd val \<noteq> 0" using assms(1) by (cases val; cases "tl val") auto
  then show ?thesis
  proof cases
    case 1
    then show ?thesis by (simp add: be_nat_def der_content_def to_bytes_be_zero)
  next
    case 2
    then show ?thesis using assms(1,2) by (simp add: der_content_def to_bytes_be_be_nat hd_conv_nth)
  qed
qed

lemma get_range_append:
  "get_range (pre @ rest) (length pre) (length pre + n) = Some val \<longleftrightarrow> (\<exists>rest'. rest = val @ rest' \<and> length val = n)"
proof -
  have "slice_range (length pre) (length pre + n) (pre @ rest) = take n rest" by (simp add: slice_range_def)
  then show ?thesis by (auto simp: get_range_def intro: append_take_drop_id [symmetric])
qed


lemma checked_get_range:
  assumes "length xs < usize_bound"
  shows "Option.bind (checked_add lo n) (\<lambda>hi. Option.bind (get_range xs lo hi) f) = Option.bind (get_range xs lo (lo + n)) f"
  using assms by (auto simp: checked_add_def get_range_def)

definition strip_sign :: "bytes \<Rightarrow> bytes option" where
  "strip_sign val =
     (if val = [] \<or> val ! 0 AND 0x80 \<noteq> 0 then None
      else if length val > 1 \<and> val ! 0 = 0 then (if val ! 1 AND 0x80 = 0 then None else Some (drop 1 val))
      else Some val)"

lemma strip_sign_iff: "strip_sign val = Some bs \<longleftrightarrow> (\<exists>v. val = der_content v \<and> bs = to_bytes_be v)"
proof
  assume a: "strip_sign val = Some bs"
  then have ne: "val \<noteq> []" "val ! 0 AND 0x80 = 0" by (simp_all add: strip_sign_def split: if_splits)
  have m: "length val > 1 \<Longrightarrow> val ! 0 = 0 \<Longrightarrow> val ! 1 AND 0x80 \<noteq> 0" using a ne by (simp add: strip_sign_def split: if_splits)
  have val: "val = der_content (be_nat val)" by (rule der_content_unique [OF ne m])
  have "bs = (if length val > 1 \<and> val ! 0 = 0 then drop 1 val else val)" using a by (auto simp: strip_sign_def split: if_splits)
  then show "\<exists>v. val = der_content v \<and> bs = to_bytes_be v" using val der_content_strip [of "be_nat val"] by metis
next
  assume "\<exists>v. val = der_content v \<and> bs = to_bytes_be v"
  then obtain v where v: "val = der_content v" "bs = to_bytes_be v" by blast
  show "strip_sign val = Some bs"
    unfolding strip_sign_def v using der_content_ne der_content_top der_content_minimal der_content_strip [of v]
    by (auto split: if_splits)
qed

lemma strip_sign_pair:
  "(if val = [] \<or> val ! 0 AND 0x80 \<noteq> 0 then None
    else if length val > 1 \<and> val ! 0 = 0 then (if val ! 1 AND 0x80 = 0 then None else Some (drop 1 val, n))
    else Some (val, n)) = map_option (\<lambda>bs. (bs, n)) (strip_sign val)"
  by (simp add: strip_sign_def)

lemma der_integer_steps:
  assumes "length (pre @ rest) < usize_bound"
  shows "der_positive_integer (pre @ rest) (length pre) = Some (val, offset) \<longleftrightarrow>
    (\<exists>tl len off c. rest = 0x02 # tl \<and> der_length (pre @ rest) (Suc (length pre)) = Some (len, off)
       \<and> get_range (pre @ rest) off (off + len) = Some c \<and> strip_sign c = Some val \<and> offset = off + len)"
proof (cases rest)
  case (Cons b tl)
  show ?thesis
    unfolding der_positive_integer_def Let_def checked_get_range [OF assms] strip_sign_pair get_at_append
    by (cases "b = 0x02") (auto simp: bind_eq_Some_conv Cons)
qed (simp add: der_positive_integer_def)

lemma der_integer_iff:
  assumes "length (pre @ rest) < usize_bound"
  shows "der_positive_integer (pre @ rest) (length pre) = Some (val, offset) \<longleftrightarrow>
     (\<exists>v rest'. rest = der_int v @ rest' \<and> val = to_bytes_be v \<and> length (der_content v) < 256 \<and> offset = length pre + length (der_int v))"
  (is "?l \<longleftrightarrow> ?r")
proof
  assume ?l
  then obtain tl len off c where s: "rest = 0x02 # tl" "der_length (pre @ rest) (Suc (length pre)) = Some (len, off)"
    "get_range (pre @ rest) off (off + len) = Some c" "strip_sign c = Some val" "offset = off + len"
    unfolding der_integer_steps [OF assms] by blast
  obtain v where v: "c = der_content v" "val = to_bytes_be v" using s(4) strip_sign_iff by blast
  obtain tl' where tl': "tl = der_len len @ tl'" "len < 256" "off = Suc (length pre) + length (der_len len)"
    using s(2) der_length_iff [of "pre @ [0x02]" tl] by (auto simp: s(1))
  have "get_range ((pre @ [0x02] @ der_len len) @ tl') (length (pre @ [0x02] @ der_len len)) (length (pre @ [0x02] @ der_len len) + len) = Some c"
    using s(3) by (simp add: s(1) tl')
  then obtain rest' where "tl' = c @ rest'" "length c = len" unfolding get_range_append by blast
  then show ?r using s(1,5) tl' v by (intro exI [of _ v] exI [of _ rest']) (simp add: der_int_def)
next
  assume ?r
  then obtain v rest' where r: "rest = der_int v @ rest'" "val = to_bytes_be v" "length (der_content v) < 256"
    "offset = length pre + length (der_int v)" by blast
  let ?c = "der_content v" and ?p = "pre @ [0x02] @ der_len (length (der_content v))"
  have "der_length ((pre @ [0x02]) @ der_len (length ?c) @ ?c @ rest') (length (pre @ [0x02])) = Some (length ?c, length ?p)"
    unfolding der_length_iff using r(3) by simp
  moreover have "get_range (?p @ ?c @ rest') (length ?p) (length ?p + length ?c) = Some ?c" unfolding get_range_append by blast
  moreover have "strip_sign ?c = Some val" unfolding strip_sign_iff r(2) by blast
  ultimately show ?l unfolding der_integer_steps [OF assms] using r(1,4) by (auto simp: der_int_def)
qed


lemma to_bytes_be_fits: "0 < n \<Longrightarrow> length (to_bytes_be v) \<le> n \<longleftrightarrow> v < 256 ^ n"
proof
  assume "length (to_bytes_be v) \<le> n"
  then have "256 ^ length (to_bytes_be v) \<le> (256 :: nat) ^ n" by (simp add: power_increasing)
  moreover have "v < 256 ^ length (to_bytes_be v)" using be_nat_bound [of "to_bytes_be v"] by (simp add: be_nat_to_bytes_be)
  ultimately show "v < 256 ^ n" by linarith
next
  assume n: "0 < n" "v < 256 ^ n"
  show "length (to_bytes_be v) \<le> n"
  proof (cases "v = 0")
    case False
    have "256 ^ (length (to_bytes_be v) - 1) \<le> v"
      using be_nat_hd to_bytes_be_shape [OF False] by (metis be_nat_to_bytes_be)
    then have "(256 :: nat) ^ (length (to_bytes_be v) - 1) < 256 ^ n" using n(2) by linarith
    then show ?thesis by simp
  qed (use n in \<open>simp add: to_bytes_be_zero\<close>)
qed

lemma padded_bytes:
  assumes "length (to_bytes_be v) \<le> n"
  shows "replicate (n - length (to_bytes_be v)) 0 @ to_bytes_be v = be_bytes n v"
proof -
  have "be_nat (replicate (n - length (to_bytes_be v)) 0 @ to_bytes_be v) = v" by (simp add: be_nat_append be_nat_zeros be_nat_to_bytes_be)
  moreover have "length (replicate (n - length (to_bytes_be v)) 0 @ to_bytes_be v) = n" using assms by simp
  ultimately show ?thesis using be_bytes_be_nat by metis
qed

lemma fixed_width_output:
  assumes "length r \<le> n" "length s \<le> n"
  shows "copy_at (n * 2 - length s) s (copy_at (n - length r) r (replicate (n * 2) 0))
    = (replicate (n - length r) 0 @ r) @ replicate (n - length s) 0 @ s"
proof -
  have "copy_at (n - length r) r (replicate (n * 2) 0) = (replicate (n - length r) 0 @ r) @ replicate n 0"
    using assms by (simp add: copy_at_def mult_2_right)
  then show ?thesis using assms by (simp add: copy_at_def)
qed

lemma from_der_steps:
  assumes "0 < n" "2 * n < usize_bound"
  shows "ecdsa_signature_from_der signature n = Inr output \<longleftrightarrow>
    (\<exists>len off r off' s. get_at signature 0 = Some 0x30 \<and> der_length signature 1 = Some (len, off)
       \<and> checked_add off len = Some (length signature) \<and> der_positive_integer signature off = Some (r, off')
       \<and> der_positive_integer signature off' = Some (s, length signature) \<and> length r \<le> n \<and> length s \<le> n
       \<and> output = (replicate (n - length r) 0 @ r) @ replicate (n - length s) 0 @ s)"
proof -
  have "checked_mul n 2 = Some (n * 2)" using assms by (simp add: checked_mul_def)
  then show ?thesis
    using assms(1) unfolding ecdsa_signature_from_der_def Let_def
    by (auto simp: result_iffs fixed_width_output)
qed

lemma from_der_error: "ecdsa_signature_from_der signature n = Inl e \<Longrightarrow> e = Sig_InvalidSignature"
  by (auto simp: ecdsa_signature_from_der_def Let_def bindR_def rejectR_def ok_orR_def split: if_splits option.splits sum.splits prod.splits)

lemma from_der_body:
  assumes "length body < usize_bound - length pre"
  shows "(\<exists>r off s. der_positive_integer (pre @ body) (length pre) = Some (r, off) \<and> der_positive_integer (pre @ body) off = Some (s, length (pre @ body)) \<and> Ok r s)
    \<longleftrightarrow> (\<exists>u v. body = der_int u @ der_int v \<and> length (der_content u) < 256 \<and> length (der_content v) < 256 \<and> Ok (to_bytes_be u) (to_bytes_be v))"
  (is "?l \<longleftrightarrow> ?r")
proof
  have b: "length (pre @ body) < usize_bound" using assms by simp
  assume ?l
  then obtain r off s where a: "der_positive_integer (pre @ body) (length pre) = Some (r, off)"
    "der_positive_integer (pre @ body) off = Some (s, length (pre @ body))" "Ok r s" by blast
  obtain u rest where u: "body = der_int u @ rest" "r = to_bytes_be u" "length (der_content u) < 256" "off = length pre + length (der_int u)"
    using a(1) unfolding der_integer_iff [OF b] by blast
  have "length ((pre @ der_int u) @ rest) < usize_bound" using b u(1) by simp
  moreover have "der_positive_integer ((pre @ der_int u) @ rest) (length (pre @ der_int u)) = Some (s, length (pre @ body))"
    using a(2) u by simp
  ultimately obtain v rest' where v: "rest = der_int v @ rest'" "s = to_bytes_be v" "length (der_content v) < 256"
    "length (pre @ body) = length (pre @ der_int u) + length (der_int v)"
    using der_integer_iff by blast
  then have "rest' = []" using u(1) by simp
  then show ?r using u v a(3) by auto
next
  have b: "length (pre @ body) < usize_bound" using assms by simp
  assume ?r
  then obtain u v where a: "body = der_int u @ der_int v" "length (der_content u) < 256" "length (der_content v) < 256"
    "Ok (to_bytes_be u) (to_bytes_be v)" by blast
  have "der_positive_integer (pre @ body) (length pre) = Some (to_bytes_be u, length pre + length (der_int u))"
    unfolding der_integer_iff [OF b] using a by blast
  moreover have "der_positive_integer ((pre @ der_int u) @ der_int v) (length (pre @ der_int u)) = Some (to_bytes_be v, length (pre @ body))"
    using b a(1,3) by (subst der_integer_iff) auto
  ultimately show ?l using a by auto
qed

lemma der_signature_body:
  assumes "length signature < usize_bound"
  shows "(\<exists>len off. get_at signature 0 = Some 0x30 \<and> der_length signature 1 = Some (len, off) \<and> checked_add off len = Some (length signature) \<and> Ok off)
    \<longleftrightarrow> (\<exists>body. signature = 0x30 # der_len (length body) @ body \<and> length body < 256 \<and> Ok (Suc (length (der_len (length body)))))"
  (is "?l \<longleftrightarrow> ?r")
proof
  assume ?l
  then obtain len off where a: "get_at signature 0 = Some 0x30" "der_length signature 1 = Some (len, off)"
    "checked_add off len = Some (length signature)" "Ok off" by blast
  obtain tl where tl: "signature = [0x30] @ tl" using a(1) by (cases signature) (auto simp: get_at_def)
  obtain body where b: "tl = der_len len @ body" "len < 256" "off = Suc (length (der_len len))"
    using a(2) der_length_iff [of "[0x30]" tl len off] by (auto simp: tl)
  then have "len = length body" using a(3) by (auto simp: checked_add_def tl split: if_splits)
  then show ?r using a(4) b tl by auto
next
  assume ?r
  then obtain body where a: "signature = 0x30 # der_len (length body) @ body" "length body < 256" "Ok (Suc (length (der_len (length body))))" by blast
  have "der_length ([0x30] @ der_len (length body) @ body) (length [0x30 :: byte]) = Some (length body, Suc (length (der_len (length body))))"
    unfolding der_length_iff using a(2) by simp
  moreover have "checked_add (Suc (length (der_len (length body)))) (length body) = Some (length signature)"
    using assms a(1) by (simp add: checked_add_def)
  ultimately show ?l using a by (auto simp: get_at_def)
qed

text \<open>What the DER reader accepts.\<close>

lemma der_reader_exact:
  assumes "0 < n" "2 * n < usize_bound" "length signature < usize_bound"
  shows "(ecdsa_signature_from_der signature n = Inr output \<longleftrightarrow>
    (\<exists>r s. r < 256 ^ n \<and> s < 256 ^ n \<and> length (der_int r @ der_int s) < 256
       \<and> signature = der_signature r s \<and> output = be_bytes n r @ be_bytes n s))
    \<and> (\<forall>e. ecdsa_signature_from_der signature n = Inl e \<longrightarrow> e = Sig_InvalidSignature)"
proof -
  let ?out = "\<lambda>r s. length r \<le> n \<and> length s \<le> n \<and> output = (replicate (n - length r) 0 @ r) @ replicate (n - length s) 0 @ s"
  let ?ints = "\<lambda>off. \<exists>r off' s. der_positive_integer signature off = Some (r, off') \<and> der_positive_integer signature off' = Some (s, length signature) \<and> ?out r s"
  have "ecdsa_signature_from_der signature n = Inr output \<longleftrightarrow>
    (\<exists>len off. get_at signature 0 = Some 0x30 \<and> der_length signature 1 = Some (len, off) \<and> checked_add off len = Some (length signature) \<and> ?ints off)"
    unfolding from_der_steps [OF assms(1,2)] by blast
  also have "\<dots> \<longleftrightarrow> (\<exists>body. signature = 0x30 # der_len (length body) @ body \<and> length body < 256 \<and> ?ints (Suc (length (der_len (length body)))))"
    by (rule der_signature_body [OF assms(3)])
  also have "\<dots> \<longleftrightarrow> (\<exists>body. signature = 0x30 # der_len (length body) @ body \<and> length body < 256
      \<and> (\<exists>u v. body = der_int u @ der_int v \<and> length (der_content u) < 256 \<and> length (der_content v) < 256 \<and> ?out (to_bytes_be u) (to_bytes_be v)))"
  proof (intro ex_cong1 conj_cong refl)
    fix body assume s: "signature = 0x30 # der_len (length body) @ body"
    show "?ints (Suc (length (der_len (length body)))) \<longleftrightarrow> (\<exists>u v. body = der_int u @ der_int v \<and> length (der_content u) < 256 \<and> length (der_content v) < 256 \<and> ?out (to_bytes_be u) (to_bytes_be v))"
      using from_der_body [of body "0x30 # der_len (length body)" ?out] assms(3) by (simp add: s)
  qed
  also have "\<dots> \<longleftrightarrow> (\<exists>r s. r < 256 ^ n \<and> s < 256 ^ n \<and> length (der_int r @ der_int s) < 256
       \<and> signature = der_signature r s \<and> output = be_bytes n r @ be_bytes n s)"
  proof -
    have o: "?out (to_bytes_be u) (to_bytes_be v) \<longleftrightarrow> u < 256 ^ n \<and> v < 256 ^ n \<and> output = be_bytes n u @ be_bytes n v" for u v
      using padded_bytes [of u n] padded_bytes [of v n] unfolding to_bytes_be_fits [OF assms(1), symmetric] by auto
    have c: "length (der_int u @ der_int v) < 256 \<Longrightarrow> length (der_content u) < 256 \<and> length (der_content v) < 256" for u v
      by (simp add: der_int_def)
    show ?thesis unfolding o der_signature_def using c by blast
  qed
  finally show ?thesis using from_der_error by blast
qed

text \<open>
  C29: Conversion of an ECDSA signature from DER accepts exactly the canonical encodings of two numbers that fit
  the coordinate length, with the sequence shorter than 256 bytes, and returns both numbers at that width. Every other
  byte string is refused with \<open>InvalidSignature\<close>: wrong tags, lengths that are not minimal, negative or
  padded integers, and missing or trailing bytes. In particular no two byte strings decode to the same pair.
\<close>

theorem ecdsa_der_exact:
  assumes "0 < n" "2 * n < usize_bound" "length signature < usize_bound"
  shows "(ecdsa_signature_from_der signature n = Inr output \<longleftrightarrow>
    (\<exists>r s. r < 256 ^ n \<and> s < 256 ^ n \<and> length (der_int r @ der_int s) < 256
       \<and> signature = der_signature r s \<and> output = be_bytes n r @ be_bytes n s))
    \<and> (\<forall>e. ecdsa_signature_from_der signature n = Inl e \<longrightarrow> e = Sig_InvalidSignature)"
  using assms by (rule der_reader_exact)


theorem ecdsa_der_exact_witness:
  "ecdsa_signature_from_der [0x30, 0x07, 0x02, 0x01, 0x05, 0x02, 0x02, 0x00, 0x80] 2 = Inr [0, 5, 0, 0x80]
   \<and> der_signature 5 0x80 = [0x30, 0x07, 0x02, 0x01, 0x05, 0x02, 0x02, 0x00, 0x80]"
proof -
  have i: "der_int 5 = [0x02, 0x01, 0x05]" "der_int 0x80 = [0x02, 0x02, 0x00, 0x80]" by code_simp+
  then have d: "der_signature 5 0x80 = [0x30, 0x07, 0x02, 0x01, 0x05, 0x02, 0x02, 0x00, 0x80]" by (simp add: der_signature_def der_len_def)
  have o: "[0, 5, 0, 0x80] = be_bytes 2 5 @ be_bytes 2 0x80" by code_simp
  have "ecdsa_signature_from_der (der_signature 5 0x80) 2 = Inr [0, 5, 0, 0x80]"
    by (rule iffD2 [OF conjunct1 [OF ecdsa_der_exact]]; (intro exI [of _ 5] exI [of _ "0x80"] conjI o refl)?) (simp_all add: d i usize_bound_def)
  then show ?thesis unfolding d by simp
qed

end
