(* ===== verification/Software_Signing.thy ===== *)
theory Software_Signing
  imports Signing_Types Rsa_Keys Pqc_Encoding Brainpool512
begin

text \<open>
  \<^verbatim>\<open>src/src/software_signing.rs\<close>: private keys of the four families, their generation, import, storage and
  public projection, signing and decryption, and verification and encryption with public keys. The curve crates are
  records indexed by the curve, their values of one opaque type; the RSA and ML-DSA parts, the PKCS \#8
  documents and the Brainpool verification are those of the other theories. The record \<open>signing_world\<close>
  collects what an operation can call.

  Loops that draw until a candidate is accepted need not end: such runs are options, \<open>None\<close> for a run that
  does not return. \<open>Panic\<close> is kept apart from the errors of the code.
\<close>

section \<open>The crates\<close>

record 'o ec_crates =
  ec_from_slice :: "EcCurve \<Rightarrow> bytes \<Rightarrow> 'o option"
  ec_to_bytes :: "EcCurve \<Rightarrow> 'o \<Rightarrow> bytes"
  ec_from_pkcs8 :: "EcCurve \<Rightarrow> bytes \<Rightarrow> 'o option"
  ec_to_pkcs8 :: "EcCurve \<Rightarrow> 'o \<Rightarrow> bytes option"
  ec_public_key :: "EcCurve \<Rightarrow> 'o \<Rightarrow> 'o"
  ec_to_sec1 :: "EcCurve \<Rightarrow> 'o \<Rightarrow> bool \<Rightarrow> bytes"
  ec_public_from_sec1 :: "EcCurve \<Rightarrow> bytes \<Rightarrow> 'o option"
  ec_diffie_hellman :: "EcCurve \<Rightarrow> 'o \<Rightarrow> 'o \<Rightarrow> bytes"
  ecdsa_sign :: "EcCurve \<Rightarrow> 'o \<Rightarrow> bytes \<Rightarrow> 'o"
  ecdsa_sign_prehash :: "EcCurve \<Rightarrow> 'o \<Rightarrow> bytes \<Rightarrow> 'o option"
  ecdsa_to_bytes :: "EcCurve \<Rightarrow> 'o \<Rightarrow> bytes"
  ecdsa_from_slice :: "EcCurve \<Rightarrow> bytes \<Rightarrow> 'o option"
  ecdsa_to_der :: "EcCurve \<Rightarrow> 'o \<Rightarrow> bytes"
  ecdsa_normalize_s :: "EcCurve \<Rightarrow> 'o \<Rightarrow> 'o"
  ecdsa_key_from_sec1 :: "EcCurve \<Rightarrow> bytes \<Rightarrow> 'o option"
  ecdsa_verify :: "EcCurve \<Rightarrow> 'o \<Rightarrow> bytes \<Rightarrow> 'o \<Rightarrow> bool"
  ecdsa_verify_prehash :: "EcCurve \<Rightarrow> 'o \<Rightarrow> bytes \<Rightarrow> 'o \<Rightarrow> bool"

record 'o edwards_crates =
  ed25519_from_bytes :: "bytes \<Rightarrow> 'o"
  ed25519_to_bytes :: "'o \<Rightarrow> bytes"
  ed25519_from_pkcs8 :: "bytes \<Rightarrow> 'o option"
  ed25519_to_pkcs8 :: "'o \<Rightarrow> bytes option"
  ed25519_verifying_key_bytes :: "'o \<Rightarrow> bytes"
  ed25519_sign :: "'o \<Rightarrow> bytes \<Rightarrow> bytes"
  ed25519_verifying_key :: "bytes \<Rightarrow> 'o option"
  ed25519_is_weak :: "'o \<Rightarrow> bool"
  ed25519_compress :: "'o \<Rightarrow> bytes"
  ed25519_signature :: "bytes \<Rightarrow> 'o option"
  ed25519_verify_strict :: "'o \<Rightarrow> bytes \<Rightarrow> 'o \<Rightarrow> bool"
  ed448_try_from :: "bytes \<Rightarrow> 'o option"
  ed448_to_bytes :: "'o \<Rightarrow> bytes"
  ed448_from_pkcs8 :: "bytes \<Rightarrow> 'o option"
  ed448_to_pkcs8 :: "'o \<Rightarrow> bytes option"
  ed448_verifying_key_bytes :: "'o \<Rightarrow> bytes"
  ed448_sign_raw :: "'o \<Rightarrow> bytes \<Rightarrow> bytes"
  ed448_verifying_key :: "bytes \<Rightarrow> 'o option"
  ed448_compress :: "'o \<Rightarrow> bytes"
  ed448_decompress :: "bytes \<Rightarrow> 'o option"
  ed448_is_identity :: "'o \<Rightarrow> bool"
  ed448_point_compress :: "'o \<Rightarrow> bytes"
  ed448_signature :: "bytes \<Rightarrow> 'o option"
  ed448_verify_raw :: "'o \<Rightarrow> 'o \<Rightarrow> bytes \<Rightarrow> bool"

record ('k, 'p) rsa_signing_crate = "('k, 'p) rsa_key_crate" +
  rsa_public_new :: "nat \<Rightarrow> nat \<Rightarrow> 'p option"
  rsa_to_pkcs8 :: "'k \<Rightarrow> bytes option"
  rsa_dp :: "'k \<Rightarrow> nat option"
  rsa_dq :: "'k \<Rightarrow> nat option"
  rsa_qinv :: "'k \<Rightarrow> int option"

record ('o, 'k, 'p, 'h, 'q, 'dk, 'dx, 'dv, 'dg, 's, 'e) signing_world =
  sw_ec :: "'o ec_crates"
  sw_ed :: "'o edwards_crates"
  sw_rsa :: "('k, 'p) rsa_signing_crate"
  sw_hash :: "('h, 'q) hash_crates"
  sw_dsa :: "('dk, 'dx, 'dv, 'dg, 's) ml_dsa_crate"
  sw_der :: der_crate
  sw_dsa_algorithm :: "MlDsaParameterSet \<Rightarrow> AlgorithmIdentifier"
  sw_mod_inverse :: "nat \<Rightarrow> nat \<Rightarrow> int option"
  sw_fill :: "nat \<Rightarrow> ('s, 'e, bytes) op"
  sw_estimate :: "nat \<Rightarrow> nat"
  sw_os_rng :: "nat \<Rightarrow> ('s, 'e, bytes) op"
  sw_new_key :: "nat \<Rightarrow> ('s, 'e, 'k) op"

text \<open>The RSA operations of the other theories see the part of the crate they use.\<close>

definition sw_rsa_keys :: "('o, 'k, 'p, 'h, 'q, 'dk, 'dx, 'dv, 'dg, 's, 'e) signing_world \<Rightarrow> ('k, 'p) rsa_key_crate" where
  "sw_rsa_keys w = rsa_key_crate.truncate (sw_rsa w)"

definition sw_rsa_ops :: "('o, 'k, 'p, 'h, 'q, 'dk, 'dx, 'dv, 'dg, 's, 'e) signing_world \<Rightarrow> ('k, 'p) rsa_crate" where
  "sw_rsa_ops w = rsa_crate.truncate (sw_rsa w)"

text \<open>Runs that may not return, and operations and results as runs.\<close>

type_synonym ('s, 'a) run = "'s \<Rightarrow> ((SoftwareSigningError fault + 'a) \<times> 's) option"

definition run_op :: "('s, SoftwareSigningError fault, 'a) op \<Rightarrow> ('s, 'a) run" where
  "run_op m = (\<lambda>s. Some (m s))"

definition run_result :: "(SoftwareSigningError fault + 'a) option \<Rightarrow> ('s, 'a) run" where
  "run_result r = (\<lambda>s. map_option (\<lambda>v. (v, s)) r)"

definition run_bind :: "('s, 'a) run \<Rightarrow> ('a \<Rightarrow> ('s, 'b) run) \<Rightarrow> ('s, 'b) run" where
  "run_bind m f = (\<lambda>s. case m s of None \<Rightarrow> None | Some (Inl e, s') \<Rightarrow> Some (Inl e, s') | Some (Inr x, s') \<Rightarrow> f x s')"

definition run_map :: "('a \<Rightarrow> 'b) \<Rightarrow> ('s, 'a) run \<Rightarrow> ('s, 'b) run" where
  "run_map f m = run_bind m (\<lambda>x. run_op (okE (f x)))"

text \<open>A result of ML-DSA import, which maps every error to one of this module.\<close>

definition dsa_result :: "SoftwareSigningError \<Rightarrow> 'a dsa_run \<Rightarrow> (SoftwareSigningError fault + 'a) option" where
  "dsa_result e r = map_option (map_errR (map_fault (\<lambda>_. e))) r"


section \<open>Public keys\<close>

definition verify_ecdsa :: "'o ec_crates \<Rightarrow> EcCurve \<Rightarrow> bytes \<Rightarrow> bytes \<Rightarrow> bytes \<Rightarrow> SoftwareSigningError + unit" where
  "verify_ecdsa ec curve public message signature =
     bindR (ok_orR Sig_InvalidPublicKey (ecdsa_key_from_sec1 ec curve public)) (\<lambda>key.
     bindR (ok_orR Sig_InvalidSignature (ecdsa_from_slice ec curve signature)) (\<lambda>signature.
     let signature = ecdsa_normalize_s ec curve signature in
     if ecdsa_verify ec curve key message signature then Inr () else Inl Sig_InvalidSignature))"

definition verify_ecdsa_prehash :: "'o ec_crates \<Rightarrow> EcCurve \<Rightarrow> bytes \<Rightarrow> bytes \<Rightarrow> bytes \<Rightarrow> SoftwareSigningError + unit" where
  "verify_ecdsa_prehash ec curve public prehash signature =
     bindR (ok_orR Sig_InvalidPublicKey (ecdsa_key_from_sec1 ec curve public)) (\<lambda>key.
     bindR (ok_orR Sig_InvalidSignature (ecdsa_from_slice ec curve signature)) (\<lambda>signature.
     let signature = ecdsa_normalize_s ec curve signature in
     if ecdsa_verify_prehash ec curve key prehash signature then Inr () else Inl Sig_InvalidSignature))"

definition verify_generic_ecdsa :: "'o ec_crates \<Rightarrow> EcCurve \<Rightarrow> bytes \<Rightarrow> bytes \<Rightarrow> bytes \<Rightarrow> SoftwareSigningError + unit" where
  "verify_generic_ecdsa ec curve public message signature =
     bindR (ok_orR Sig_InvalidPublicKey (ecdsa_key_from_sec1 ec curve public)) (\<lambda>key.
     bindR (ok_orR Sig_InvalidSignature (ecdsa_from_slice ec curve signature)) (\<lambda>signature.
     let signature = ecdsa_normalize_s ec curve signature in
     if ecdsa_verify ec curve key message signature then Inr () else Inl Sig_InvalidSignature))"

definition verify_generic_ecdsa_prehash :: "'o ec_crates \<Rightarrow> EcCurve \<Rightarrow> bytes \<Rightarrow> bytes \<Rightarrow> bytes \<Rightarrow> SoftwareSigningError + unit" where
  "verify_generic_ecdsa_prehash ec curve public prehash signature =
     bindR (ok_orR Sig_InvalidPublicKey (ecdsa_key_from_sec1 ec curve public)) (\<lambda>key.
     bindR (ok_orR Sig_InvalidSignature (ecdsa_from_slice ec curve signature)) (\<lambda>signature.
     let signature = ecdsa_normalize_s ec curve signature in
     if ecdsa_verify_prehash ec curve key prehash signature then Inr () else Inl Sig_InvalidSignature))"

definition checked_ed25519_verifying_key :: "'o edwards_crates \<Rightarrow> bytes \<Rightarrow> SoftwareSigningError + 'o" where
  "checked_ed25519_verifying_key ed encoded =
     bindR (rejectR (length encoded \<noteq> 32) Sig_InvalidPublicKey) (\<lambda>_.
     bindR (ok_orR Sig_InvalidPublicKey (ed25519_verifying_key ed encoded)) (\<lambda>key.
     bindR (rejectR (ed25519_is_weak ed key \<or> ed25519_compress ed key \<noteq> encoded) Sig_InvalidPublicKey) (\<lambda>_.
     Inr key)))"

definition checked_ed448_verifying_key :: "'o edwards_crates \<Rightarrow> bytes \<Rightarrow> SoftwareSigningError + 'o" where
  "checked_ed448_verifying_key ed encoded =
     bindR (rejectR (length encoded \<noteq> 57) Sig_InvalidPublicKey) (\<lambda>_.
     bindR (ok_orR Sig_InvalidPublicKey (ed448_verifying_key ed encoded)) (\<lambda>key.
     bindR (rejectR (ed448_compress ed key \<noteq> encoded) Sig_InvalidPublicKey) (\<lambda>_.
     Inr key)))"

definition canonical_ed448_point :: "'o edwards_crates \<Rightarrow> bytes \<Rightarrow> bool" where
  "canonical_ed448_point ed encoded =
     (if length encoded \<noteq> 57 then False
      else case ed448_decompress ed encoded of
             None \<Rightarrow> False
           | Some point \<Rightarrow> \<not> ed448_is_identity ed point \<and> ed448_point_compress ed point = encoded)"

definition rsa_public_key :: "('k, 'p) rsa_signing_crate \<Rightarrow> bytes \<Rightarrow> bytes \<Rightarrow> SoftwareSigningError + 'p" where
  "rsa_public_key rsa modulus exponent = ok_orR Sig_InvalidPublicKey (rsa_public_new rsa (be_nat modulus) (be_nat exponent))"

text \<open>The macro \<open>validate_ec!\<close>.\<close>

definition validate_ec :: "'o ec_crates \<Rightarrow> EcCurve \<Rightarrow> bytes \<Rightarrow> SoftwareSigningError + unit" where
  "validate_ec ec curve uncompressed =
     bindR (ok_orR Sig_InvalidPublicKey (ecdsa_key_from_sec1 ec curve uncompressed)) (\<lambda>_. Inr ())"

definition PublicKey_validate ::
  "('o, 'k, 'p, 'h, 'q, 'dk, 'dx, 'dv, 'dg, 's, 'e) signing_world \<Rightarrow> SoftwarePublicKey \<Rightarrow> SoftwareSigningError + unit" where
  "PublicKey_validate w self =
     (case self of
        Pub_Ec curve uncompressed \<Rightarrow>
          (case curve of
             EC_P224 \<Rightarrow> validate_ec (sw_ec w) EC_P224 uncompressed
           | EC_P256 \<Rightarrow> validate_ec (sw_ec w) EC_P256 uncompressed
           | EC_P384 \<Rightarrow> validate_ec (sw_ec w) EC_P384 uncompressed
           | EC_P521 \<Rightarrow> validate_ec (sw_ec w) EC_P521 uncompressed
           | EC_Secp256k1 \<Rightarrow> validate_ec (sw_ec w) EC_Secp256k1 uncompressed
           | EC_BrainpoolP256 \<Rightarrow> validate_ec (sw_ec w) EC_BrainpoolP256 uncompressed
           | EC_BrainpoolP384 \<Rightarrow> validate_ec (sw_ec w) EC_BrainpoolP384 uncompressed
           | EC_BrainpoolP512 \<Rightarrow> validate_ec (sw_ec w) EC_BrainpoolP512 uncompressed)
      | Pub_Edwards Curve_Ed25519 public_key \<Rightarrow> bindR (checked_ed25519_verifying_key (sw_ed w) public_key) (\<lambda>_. Inr ())
      | Pub_Edwards Curve_Ed448 public_key \<Rightarrow> bindR (checked_ed448_verifying_key (sw_ed w) public_key) (\<lambda>_. Inr ())
      | Pub_MlDsa parameter_set public_key \<Rightarrow>
          map_errR (\<lambda>_. Sig_InvalidPublicKey) (validate_ml_dsa_public_key parameter_set public_key)
      | Pub_Rsa modulus exponent \<Rightarrow> bindR (rsa_public_key (sw_rsa w) modulus exponent) (\<lambda>_. Inr ()))"


text \<open>Results that may also be a panic of the RSA code.\<close>

type_synonym 'a sig_result = "SoftwareSigningError fault + 'a"

definition verify_rsa_prehash where
  "verify_rsa_prehash w algorithm key prehash signature pss_salt =
     bindR (ok_orR (Err Sig_AlgorithmMismatch) (rsa_profile algorithm)) (\<lambda>(hash, pss).
     let result =
       (if pss then
          rsa_verify_pss_digest (sw_rsa_ops w) (sw_hash w) key
            \<lparr> pss_hash = hash, pss_mgf_hash = hash,
               pss_salt_length = (case pss_salt of Some len \<Rightarrow> len | None \<Rightarrow> output_length hash) \<rparr>
            prehash signature
        else rsa_verify_pkcs1v15_digest (sw_rsa_ops w) key hash prehash signature)
     in map_errR (map_fault map_rsa_verification_error) result)"

definition verify_rsa_message where
  "verify_rsa_message w algorithm key message signature =
     bindR (ok_orR (Err Sig_AlgorithmMismatch) (rsa_profile algorithm)) (\<lambda>(hash, _).
     verify_rsa_prehash w algorithm key (digest (sw_hash w) hash message) signature None)"

definition encrypt_rsa_pkcs1v15 where
  "encrypt_rsa_pkcs1v15 w self plaintext =
     (case self of
        Pub_Rsa modulus exponent \<Rightarrow>
          run_bind (run_op (liftE (map_errR Err (rsa_public_key (sw_rsa w) modulus exponent)))) (\<lambda>key s.
          case rsa_encrypt_pkcs1v15 (sw_rsa_ops w) (sw_fill w) key plaintext s of
            None \<Rightarrow> None
          | Some (r, s') \<Rightarrow> Some (map_errR (map_fault map_rsa_signing_error) r, s'))
      | _ \<Rightarrow> run_op (errE (Err Sig_AlgorithmMismatch)))"

definition encrypt_rsa_oaep_digest where
  "encrypt_rsa_oaep_digest w self plaintext label_digest mgf_hash =
     (case self of
        Pub_Rsa modulus exponent \<Rightarrow>
          bindE (liftE (map_errR Err (rsa_public_key (sw_rsa w) modulus exponent))) (\<lambda>key.
          map_errE (map_fault map_rsa_signing_error)
            (rsa_encrypt_oaep_digest (sw_rsa_ops w) (sw_hash w) (sw_fill w) key plaintext label_digest mgf_hash))
      | _ \<Rightarrow> errE (Err Sig_AlgorithmMismatch))"

definition PublicKey_verify_rsa_raw where
  "PublicKey_verify_rsa_raw w self input signature =
     (case self of
        Pub_Rsa modulus exponent \<Rightarrow>
          bindR (map_errR Err (rsa_public_key (sw_rsa w) modulus exponent)) (\<lambda>key.
          map_errR (map_fault map_rsa_verification_error) (rsa_verify_raw (sw_rsa_ops w) key input signature))
      | _ \<Rightarrow> Inl (Err Sig_AlgorithmMismatch))"

definition verify_ed25519_message where
  "verify_ed25519_message ed public_key message signature =
     bindR (checked_ed25519_verifying_key ed public_key) (\<lambda>key.
     bindR (ok_orR Sig_InvalidSignature (ed25519_signature ed signature)) (\<lambda>signature.
     if ed25519_verify_strict ed key message signature then Inr () else Inl Sig_InvalidSignature))"

definition verify_ed448_message where
  "verify_ed448_message ed public_key message signature =
     bindR (checked_ed448_verifying_key ed public_key) (\<lambda>key.
     bindR (rejectR (length signature \<noteq> 114 \<or> \<not> canonical_ed448_point ed (take 57 signature)) Sig_InvalidSignature) (\<lambda>_.
     bindR (ok_orR Sig_InvalidSignature (ed448_signature ed signature)) (\<lambda>signature.
     if ed448_verify_raw ed key signature message then Inr () else Inl Sig_InvalidSignature)))"

text \<open>\<open>match (algorithm, self)\<close>, one row for each scheme.\<close>

definition PublicKey_verify_message where
  "PublicKey_verify_message w self algorithm message signature =
     (case (algorithm, self) of
        (EcdsaP224Sha224, Pub_Ec EC_P224 uncompressed) \<Rightarrow> map_errR Err (verify_ecdsa (sw_ec w) EC_P224 uncompressed message signature)
      | (EcdsaP256Sha256, Pub_Ec EC_P256 uncompressed) \<Rightarrow> map_errR Err (verify_ecdsa (sw_ec w) EC_P256 uncompressed message signature)
      | (EcdsaP384Sha384, Pub_Ec EC_P384 uncompressed) \<Rightarrow> map_errR Err (verify_ecdsa (sw_ec w) EC_P384 uncompressed message signature)
      | (EcdsaP521Sha512, Pub_Ec EC_P521 uncompressed) \<Rightarrow> map_errR Err (verify_ecdsa (sw_ec w) EC_P521 uncompressed message signature)
      | (EcdsaSecp256k1Sha256, Pub_Ec EC_Secp256k1 uncompressed) \<Rightarrow>
          map_errR Err (verify_ecdsa (sw_ec w) EC_Secp256k1 uncompressed message signature)
      | (EcdsaBrainpoolP256Sha256, Pub_Ec EC_BrainpoolP256 uncompressed) \<Rightarrow>
          map_errR Err (verify_generic_ecdsa (sw_ec w) EC_BrainpoolP256 uncompressed message signature)
      | (EcdsaBrainpoolP384Sha384, Pub_Ec EC_BrainpoolP384 uncompressed) \<Rightarrow>
          map_errR Err (verify_generic_ecdsa (sw_ec w) EC_BrainpoolP384 uncompressed message signature)
      | (EcdsaBrainpoolP512Sha512, Pub_Ec EC_BrainpoolP512 uncompressed) \<Rightarrow>
          map_errR (\<lambda>_. Err Sig_InvalidSignature)
            (verify_prehash (sw_mod_inverse w) uncompressed (digest (sw_hash w) Sha512 message) signature)
      | (Scheme_Ed25519, Pub_Edwards Curve_Ed25519 public_key) \<Rightarrow>
          map_errR Err (verify_ed25519_message (sw_ed w) public_key message signature)
      | (Scheme_Ed448, Pub_Edwards Curve_Ed448 public_key) \<Rightarrow>
          map_errR Err (verify_ed448_message (sw_ed w) public_key message signature)
      | (Scheme_MlDsa expected, Pub_MlDsa parameter_set public_key) \<Rightarrow>
          if expected = parameter_set
          then map_errR (\<lambda>_. Err Sig_InvalidSignature) (verify_ml_dsa (sw_dsa w) parameter_set public_key message [] signature)
          else Inl (Err Sig_AlgorithmMismatch)
      | (algorithm, Pub_Rsa modulus exponent) \<Rightarrow>
          if is_rsa algorithm
          then bindR (map_errR Err (rsa_public_key (sw_rsa w) modulus exponent)) (\<lambda>key.
            verify_rsa_message w algorithm key message signature)
          else Inl (Err Sig_AlgorithmMismatch)
      | _ \<Rightarrow> Inl (Err Sig_AlgorithmMismatch))"

definition PublicKey_verify_prehash where
  "PublicKey_verify_prehash w self algorithm prehash signature =
     (case (algorithm, self) of
        (EcdsaP224Sha224, Pub_Ec EC_P224 uncompressed) \<Rightarrow> map_errR Err (verify_ecdsa_prehash (sw_ec w) EC_P224 uncompressed prehash signature)
      | (EcdsaP256Sha256, Pub_Ec EC_P256 uncompressed) \<Rightarrow> map_errR Err (verify_ecdsa_prehash (sw_ec w) EC_P256 uncompressed prehash signature)
      | (EcdsaP384Sha384, Pub_Ec EC_P384 uncompressed) \<Rightarrow> map_errR Err (verify_ecdsa_prehash (sw_ec w) EC_P384 uncompressed prehash signature)
      | (EcdsaP521Sha512, Pub_Ec EC_P521 uncompressed) \<Rightarrow> map_errR Err (verify_ecdsa_prehash (sw_ec w) EC_P521 uncompressed prehash signature)
      | (EcdsaSecp256k1Sha256, Pub_Ec EC_Secp256k1 uncompressed) \<Rightarrow>
          map_errR Err (verify_ecdsa_prehash (sw_ec w) EC_Secp256k1 uncompressed prehash signature)
      | (EcdsaBrainpoolP256Sha256, Pub_Ec EC_BrainpoolP256 uncompressed) \<Rightarrow>
          map_errR Err (verify_generic_ecdsa_prehash (sw_ec w) EC_BrainpoolP256 uncompressed prehash signature)
      | (EcdsaBrainpoolP384Sha384, Pub_Ec EC_BrainpoolP384 uncompressed) \<Rightarrow>
          map_errR Err (verify_generic_ecdsa_prehash (sw_ec w) EC_BrainpoolP384 uncompressed prehash signature)
      | (EcdsaBrainpoolP512Sha512, Pub_Ec EC_BrainpoolP512 uncompressed) \<Rightarrow>
          map_errR (\<lambda>_. Err Sig_InvalidSignature) (verify_prehash (sw_mod_inverse w) uncompressed prehash signature)
      | (algorithm, Pub_Rsa modulus exponent) \<Rightarrow>
          if is_rsa algorithm
          then bindR (map_errR Err (rsa_public_key (sw_rsa w) modulus exponent)) (\<lambda>key.
            verify_rsa_prehash w algorithm key prehash signature None)
          else Inl (Err Sig_AlgorithmMismatch)
      | _ \<Rightarrow> Inl (Err Sig_AlgorithmMismatch))"

definition PublicKey_verify_rsa_pss_prehash where
  "PublicKey_verify_rsa_pss_prehash w self algorithm prehash salt_length signature =
     (case self of
        Pub_Rsa modulus exponent \<Rightarrow>
          bindR (map_errR Err (rsa_public_key (sw_rsa w) modulus exponent)) (\<lambda>key.
          verify_rsa_prehash w algorithm key prehash signature (Some salt_length))
      | _ \<Rightarrow> Inl (Err Sig_AlgorithmMismatch))"

text \<open>\<open>SoftwareSignature\<close>, and its conversion to DER with the macro \<open>encode!\<close>.\<close>

record SoftwareSignature =
  sig_bytes :: bytes

definition encode_ecdsa where
  "encode_ecdsa ec curve signature = ok_orR Sig_InvalidSignature (map_option (ecdsa_to_der ec curve) (ecdsa_from_slice ec curve signature))"

definition to_ecdsa_der where
  "to_ecdsa_der w self curve =
     (case curve of
        EC_P224 \<Rightarrow> encode_ecdsa (sw_ec w) EC_P224 (sig_bytes self)
      | EC_P256 \<Rightarrow> encode_ecdsa (sw_ec w) EC_P256 (sig_bytes self)
      | EC_P384 \<Rightarrow> encode_ecdsa (sw_ec w) EC_P384 (sig_bytes self)
      | EC_P521 \<Rightarrow> encode_ecdsa (sw_ec w) EC_P521 (sig_bytes self)
      | EC_Secp256k1 \<Rightarrow> encode_ecdsa (sw_ec w) EC_Secp256k1 (sig_bytes self)
      | EC_BrainpoolP256 \<Rightarrow> encode_ecdsa (sw_ec w) EC_BrainpoolP256 (sig_bytes self)
      | EC_BrainpoolP384 \<Rightarrow> encode_ecdsa (sw_ec w) EC_BrainpoolP384 (sig_bytes self)
      | EC_BrainpoolP512 \<Rightarrow> encode_ecdsa (sw_ec w) EC_BrainpoolP512 (sig_bytes self))"

end
