(* ===== verification/Signing_Keys.thy ===== *)
theory Signing_Keys
  imports Software_Signing
begin

text \<open>
  \<^verbatim>\<open>src/src/software_signing.rs\<close>: the private keys \<open>SoftwareEcKey\<close>, \<open>SoftwareEdwardsKey\<close> and
  \<open>SoftwareSigningKey\<close>. Each operation has one clause for each curve, as the source has. The properties say
  that a key keeps the identity it was asked for, that stored and exported keys come back, that signatures verify under
  the public key, and that the loops which draw a secret return the first candidate the curve accepts.
\<close>

section \<open>Elliptic-curve keys\<close>

text \<open>The body shared by the functions \<open>random_*_secret\<close>: a loop that draws until a secret is accepted.\<close>

partial_function (option) random_secret ::
  "(bytes \<Rightarrow> 'o option) \<Rightarrow> (nat \<Rightarrow> ('s, 'e, bytes) op) \<Rightarrow> nat \<Rightarrow> ('s, 'o) run" where
  "random_secret from_slice fill len s =
     (case fill len s of
        (Inl _, s') \<Rightarrow> Some (Inl (Err Sig_RandomnessUnavailable), s')
      | (Inr bs, s') \<Rightarrow> (case from_slice bs of Some secret \<Rightarrow> Some (Inr secret, s') | None \<Rightarrow> random_secret from_slice fill len s'))"

definition random_p256_secret where
  "random_p256_secret w = random_secret (ec_from_slice (sw_ec w) EC_P256) (sw_fill w) 32"

definition random_p224_secret where
  "random_p224_secret w = random_secret (ec_from_slice (sw_ec w) EC_P224) (sw_fill w) 28"

definition random_p384_secret where
  "random_p384_secret w = random_secret (ec_from_slice (sw_ec w) EC_P384) (sw_fill w) 48"

definition random_p521_secret where
  "random_p521_secret w = random_secret (ec_from_slice (sw_ec w) EC_P521) (sw_fill w) 66"

definition random_k256_secret where
  "random_k256_secret w = random_secret (ec_from_slice (sw_ec w) EC_Secp256k1) (sw_fill w) 32"

definition random_brainpool_p256_secret where
  "random_brainpool_p256_secret w = random_secret (ec_from_slice (sw_ec w) EC_BrainpoolP256) (sw_fill w) 32"

definition random_brainpool_p384_secret where
  "random_brainpool_p384_secret w = random_secret (ec_from_slice (sw_ec w) EC_BrainpoolP384) (sw_fill w) 48"

definition random_brainpool_p512_secret where
  "random_brainpool_p512_secret w = random_secret (ec_from_slice (sw_ec w) EC_BrainpoolP512) (sw_fill w) 64"

datatype 'o EcKeyBackend =
    Back_P224 'o
  | Back_P256 'o
  | Back_P384 'o
  | Back_P521 'o
  | Back_Secp256k1 'o
  | Back_BrainpoolP256 'o
  | Back_BrainpoolP384 'o
  | Back_BrainpoolP512 'o

text \<open>The newtype \<open>SoftwareEcKey\<close> adds nothing to its backend.\<close>

type_synonym 'o SoftwareEcKey = "'o EcKeyBackend"

fun EcKey_generate where
  "EcKey_generate w EC_P224 = run_map Back_P224 (random_p224_secret w)"
| "EcKey_generate w EC_P256 = run_map Back_P256 (random_p256_secret w)"
| "EcKey_generate w EC_P384 = run_map Back_P384 (random_p384_secret w)"
| "EcKey_generate w EC_P521 = run_map Back_P521 (random_p521_secret w)"
| "EcKey_generate w EC_Secp256k1 = run_map Back_Secp256k1 (random_k256_secret w)"
| "EcKey_generate w EC_BrainpoolP256 = run_map Back_BrainpoolP256 (random_brainpool_p256_secret w)"
| "EcKey_generate w EC_BrainpoolP384 = run_map Back_BrainpoolP384 (random_brainpool_p384_secret w)"
| "EcKey_generate w EC_BrainpoolP512 = run_map Back_BrainpoolP512 (random_brainpool_p512_secret w)"

fun EcKey_from_serialized :: "'o ec_crates \<Rightarrow> EcCurve \<Rightarrow> bytes \<Rightarrow> SoftwareSigningError + 'o SoftwareEcKey" where
  "EcKey_from_serialized ec EC_P224 serialized = ok_orR Sig_InvalidPrivateKey (map_option Back_P224 (ec_from_slice ec EC_P224 serialized))"
| "EcKey_from_serialized ec EC_P256 serialized = ok_orR Sig_InvalidPrivateKey (map_option Back_P256 (ec_from_slice ec EC_P256 serialized))"
| "EcKey_from_serialized ec EC_P384 serialized = ok_orR Sig_InvalidPrivateKey (map_option Back_P384 (ec_from_slice ec EC_P384 serialized))"
| "EcKey_from_serialized ec EC_P521 serialized = ok_orR Sig_InvalidPrivateKey (map_option Back_P521 (ec_from_slice ec EC_P521 serialized))"
| "EcKey_from_serialized ec EC_Secp256k1 serialized = ok_orR Sig_InvalidPrivateKey (map_option Back_Secp256k1 (ec_from_slice ec EC_Secp256k1 serialized))"
| "EcKey_from_serialized ec EC_BrainpoolP256 serialized = ok_orR Sig_InvalidPrivateKey (map_option Back_BrainpoolP256 (ec_from_slice ec EC_BrainpoolP256 serialized))"
| "EcKey_from_serialized ec EC_BrainpoolP384 serialized = ok_orR Sig_InvalidPrivateKey (map_option Back_BrainpoolP384 (ec_from_slice ec EC_BrainpoolP384 serialized))"
| "EcKey_from_serialized ec EC_BrainpoolP512 serialized = ok_orR Sig_InvalidPrivateKey (map_option Back_BrainpoolP512 (ec_from_slice ec EC_BrainpoolP512 serialized))"

fun EcKey_from_pkcs8_der :: "'o ec_crates \<Rightarrow> EcCurve \<Rightarrow> bytes \<Rightarrow> SoftwareSigningError + 'o SoftwareEcKey" where
  "EcKey_from_pkcs8_der ec EC_P224 serialized = ok_orR Sig_InvalidPrivateKey (map_option Back_P224 (ec_from_pkcs8 ec EC_P224 serialized))"
| "EcKey_from_pkcs8_der ec EC_P256 serialized = ok_orR Sig_InvalidPrivateKey (map_option Back_P256 (ec_from_pkcs8 ec EC_P256 serialized))"
| "EcKey_from_pkcs8_der ec EC_P384 serialized = ok_orR Sig_InvalidPrivateKey (map_option Back_P384 (ec_from_pkcs8 ec EC_P384 serialized))"
| "EcKey_from_pkcs8_der ec EC_P521 serialized = ok_orR Sig_InvalidPrivateKey (map_option Back_P521 (ec_from_pkcs8 ec EC_P521 serialized))"
| "EcKey_from_pkcs8_der ec EC_Secp256k1 serialized = ok_orR Sig_InvalidPrivateKey (map_option Back_Secp256k1 (ec_from_pkcs8 ec EC_Secp256k1 serialized))"
| "EcKey_from_pkcs8_der ec EC_BrainpoolP256 serialized = ok_orR Sig_InvalidPrivateKey (map_option Back_BrainpoolP256 (ec_from_pkcs8 ec EC_BrainpoolP256 serialized))"
| "EcKey_from_pkcs8_der ec EC_BrainpoolP384 serialized = ok_orR Sig_InvalidPrivateKey (map_option Back_BrainpoolP384 (ec_from_pkcs8 ec EC_BrainpoolP384 serialized))"
| "EcKey_from_pkcs8_der ec EC_BrainpoolP512 serialized = ok_orR Sig_InvalidPrivateKey (map_option Back_BrainpoolP512 (ec_from_pkcs8 ec EC_BrainpoolP512 serialized))"

fun EcKey_to_pkcs8_der :: "'o ec_crates \<Rightarrow> 'o SoftwareEcKey \<Rightarrow> SoftwareSigningError + bytes" where
  "EcKey_to_pkcs8_der ec (Back_P224 key) = ok_orR Sig_InvalidPrivateKey (ec_to_pkcs8 ec EC_P224 key)"
| "EcKey_to_pkcs8_der ec (Back_P256 key) = ok_orR Sig_InvalidPrivateKey (ec_to_pkcs8 ec EC_P256 key)"
| "EcKey_to_pkcs8_der ec (Back_P384 key) = ok_orR Sig_InvalidPrivateKey (ec_to_pkcs8 ec EC_P384 key)"
| "EcKey_to_pkcs8_der ec (Back_P521 key) = ok_orR Sig_InvalidPrivateKey (ec_to_pkcs8 ec EC_P521 key)"
| "EcKey_to_pkcs8_der ec (Back_Secp256k1 key) = ok_orR Sig_InvalidPrivateKey (ec_to_pkcs8 ec EC_Secp256k1 key)"
| "EcKey_to_pkcs8_der ec (Back_BrainpoolP256 key) = ok_orR Sig_InvalidPrivateKey (ec_to_pkcs8 ec EC_BrainpoolP256 key)"
| "EcKey_to_pkcs8_der ec (Back_BrainpoolP384 key) = ok_orR Sig_InvalidPrivateKey (ec_to_pkcs8 ec EC_BrainpoolP384 key)"
| "EcKey_to_pkcs8_der ec (Back_BrainpoolP512 key) = ok_orR Sig_InvalidPrivateKey (ec_to_pkcs8 ec EC_BrainpoolP512 key)"

fun EcKey_curve :: "'o SoftwareEcKey \<Rightarrow> EcCurve" where
  "EcKey_curve (Back_P224 key) = EC_P224"
| "EcKey_curve (Back_P256 key) = EC_P256"
| "EcKey_curve (Back_P384 key) = EC_P384"
| "EcKey_curve (Back_P521 key) = EC_P521"
| "EcKey_curve (Back_Secp256k1 key) = EC_Secp256k1"
| "EcKey_curve (Back_BrainpoolP256 key) = EC_BrainpoolP256"
| "EcKey_curve (Back_BrainpoolP384 key) = EC_BrainpoolP384"
| "EcKey_curve (Back_BrainpoolP512 key) = EC_BrainpoolP512"

definition EcKey_kind_name :: "'o SoftwareEcKey \<Rightarrow> string" where
  "EcKey_kind_name self =
     (case EcKey_curve self of
        EC_P224 \<Rightarrow> ''P-224''
      | EC_P256 \<Rightarrow> ''P-256''
      | EC_P384 \<Rightarrow> ''P-384''
      | EC_P521 \<Rightarrow> ''P-521''
      | EC_Secp256k1 \<Rightarrow> ''secp256k1''
      | EC_BrainpoolP256 \<Rightarrow> ''brainpoolP256r1''
      | EC_BrainpoolP384 \<Rightarrow> ''brainpoolP384r1''
      | EC_BrainpoolP512 \<Rightarrow> ''brainpoolP512r1'')"

fun EcKey_serialized :: "'o ec_crates \<Rightarrow> 'o SoftwareEcKey \<Rightarrow> bytes" where
  "EcKey_serialized ec (Back_P224 key) = ec_to_bytes ec EC_P224 key"
| "EcKey_serialized ec (Back_P256 key) = ec_to_bytes ec EC_P256 key"
| "EcKey_serialized ec (Back_P384 key) = ec_to_bytes ec EC_P384 key"
| "EcKey_serialized ec (Back_P521 key) = ec_to_bytes ec EC_P521 key"
| "EcKey_serialized ec (Back_Secp256k1 key) = ec_to_bytes ec EC_Secp256k1 key"
| "EcKey_serialized ec (Back_BrainpoolP256 key) = ec_to_bytes ec EC_BrainpoolP256 key"
| "EcKey_serialized ec (Back_BrainpoolP384 key) = ec_to_bytes ec EC_BrainpoolP384 key"
| "EcKey_serialized ec (Back_BrainpoolP512 key) = ec_to_bytes ec EC_BrainpoolP512 key"

fun EcKey_public_key :: "'o ec_crates \<Rightarrow> 'o SoftwareEcKey \<Rightarrow> bytes" where
  "EcKey_public_key ec (Back_P224 key) = ec_to_sec1 ec EC_P224 (ec_public_key ec EC_P224 key) False"
| "EcKey_public_key ec (Back_P256 key) = ec_to_sec1 ec EC_P256 (ec_public_key ec EC_P256 key) False"
| "EcKey_public_key ec (Back_P384 key) = ec_to_sec1 ec EC_P384 (ec_public_key ec EC_P384 key) False"
| "EcKey_public_key ec (Back_P521 key) = ec_to_sec1 ec EC_P521 (ec_public_key ec EC_P521 key) False"
| "EcKey_public_key ec (Back_Secp256k1 key) = ec_to_sec1 ec EC_Secp256k1 (ec_public_key ec EC_Secp256k1 key) False"
| "EcKey_public_key ec (Back_BrainpoolP256 key) = ec_to_sec1 ec EC_BrainpoolP256 (ec_public_key ec EC_BrainpoolP256 key) False"
| "EcKey_public_key ec (Back_BrainpoolP384 key) = ec_to_sec1 ec EC_BrainpoolP384 (ec_public_key ec EC_BrainpoolP384 key) False"
| "EcKey_public_key ec (Back_BrainpoolP512 key) = ec_to_sec1 ec EC_BrainpoolP512 (ec_public_key ec EC_BrainpoolP512 key) False"

fun EcKey_sign_message :: "'o ec_crates \<Rightarrow> 'o SoftwareEcKey \<Rightarrow> bytes \<Rightarrow> bytes" where
  "EcKey_sign_message ec (Back_P224 key) message = ecdsa_to_bytes ec EC_P224 (ecdsa_sign ec EC_P224 key message)"
| "EcKey_sign_message ec (Back_P256 key) message = ecdsa_to_bytes ec EC_P256 (ecdsa_sign ec EC_P256 key message)"
| "EcKey_sign_message ec (Back_P384 key) message = ecdsa_to_bytes ec EC_P384 (ecdsa_sign ec EC_P384 key message)"
| "EcKey_sign_message ec (Back_P521 key) message = ecdsa_to_bytes ec EC_P521 (ecdsa_sign ec EC_P521 key message)"
| "EcKey_sign_message ec (Back_Secp256k1 key) message = ecdsa_to_bytes ec EC_Secp256k1 (ecdsa_sign ec EC_Secp256k1 key message)"
| "EcKey_sign_message ec (Back_BrainpoolP256 key) message = ecdsa_to_bytes ec EC_BrainpoolP256 (ecdsa_sign ec EC_BrainpoolP256 key message)"
| "EcKey_sign_message ec (Back_BrainpoolP384 key) message = ecdsa_to_bytes ec EC_BrainpoolP384 (ecdsa_sign ec EC_BrainpoolP384 key message)"
| "EcKey_sign_message ec (Back_BrainpoolP512 key) message = ecdsa_to_bytes ec EC_BrainpoolP512 (ecdsa_sign ec EC_BrainpoolP512 key message)"

text \<open>The macro \<open>sign!\<close>, and its uses.\<close>

definition sign_ecdsa_prehash :: "'o ec_crates \<Rightarrow> EcCurve \<Rightarrow> 'o \<Rightarrow> bytes \<Rightarrow> SoftwareSigningError + bytes" where
  "sign_ecdsa_prehash ec curve key prehash =
     bindR (ok_orR Sig_SigningFailed (ecdsa_sign_prehash ec curve key prehash)) (\<lambda>signature.
     Inr (ecdsa_to_bytes ec curve signature))"

fun EcKey_sign_prehash :: "'o ec_crates \<Rightarrow> 'o SoftwareEcKey \<Rightarrow> bytes \<Rightarrow> SoftwareSigningError + bytes" where
  "EcKey_sign_prehash ec (Back_P224 key) prehash = sign_ecdsa_prehash ec EC_P224 key prehash"
| "EcKey_sign_prehash ec (Back_P256 key) prehash = sign_ecdsa_prehash ec EC_P256 key prehash"
| "EcKey_sign_prehash ec (Back_P384 key) prehash = sign_ecdsa_prehash ec EC_P384 key prehash"
| "EcKey_sign_prehash ec (Back_P521 key) prehash = sign_ecdsa_prehash ec EC_P521 key prehash"
| "EcKey_sign_prehash ec (Back_Secp256k1 key) prehash = sign_ecdsa_prehash ec EC_Secp256k1 key prehash"
| "EcKey_sign_prehash ec (Back_BrainpoolP256 key) prehash = sign_ecdsa_prehash ec EC_BrainpoolP256 key prehash"
| "EcKey_sign_prehash ec (Back_BrainpoolP384 key) prehash = sign_ecdsa_prehash ec EC_BrainpoolP384 key prehash"
| "EcKey_sign_prehash ec (Back_BrainpoolP512 key) prehash = sign_ecdsa_prehash ec EC_BrainpoolP512 key prehash"


section \<open>Edwards-curve keys\<close>

datatype 'o EdwardsKeyBackend = Curve25519 'o | Curve448 'o

type_synonym 'o SoftwareEdwardsKey = "'o EdwardsKeyBackend"

fun EdwardsKey_generate ::
  "'o edwards_crates \<Rightarrow> (nat \<Rightarrow> ('s, 'e, bytes) op) \<Rightarrow> EdwardsCurve \<Rightarrow> ('s, SoftwareSigningError, 'o SoftwareEdwardsKey) op" where
  "EdwardsKey_generate ed fill Curve_Ed25519 =
     bindE (map_errE (\<lambda>_. Sig_RandomnessUnavailable) (fill 32)) (\<lambda>seed.
     okE (Curve25519 (ed25519_from_bytes ed seed)))"
| "EdwardsKey_generate ed fill Curve_Ed448 =
     bindE (map_errE (\<lambda>_. Sig_RandomnessUnavailable) (fill 57)) (\<lambda>seed.
     ok_orE Sig_InvalidPrivateKey (map_option Curve448 (ed448_try_from ed seed)))"

fun EdwardsKey_from_serialized ::
  "'o edwards_crates \<Rightarrow> EdwardsCurve \<Rightarrow> bytes \<Rightarrow> SoftwareSigningError + 'o SoftwareEdwardsKey" where
  "EdwardsKey_from_serialized ed Curve_Ed25519 serialized =
     bindR (rejectR (length serialized \<noteq> 32) Sig_InvalidPrivateKey) (\<lambda>_.
     Inr (Curve25519 (ed25519_from_bytes ed serialized)))"
| "EdwardsKey_from_serialized ed Curve_Ed448 serialized =
     ok_orR Sig_InvalidPrivateKey (map_option Curve448 (ed448_try_from ed serialized))"

fun EdwardsKey_from_pkcs8_der ::
  "'o edwards_crates \<Rightarrow> EdwardsCurve \<Rightarrow> bytes \<Rightarrow> SoftwareSigningError + 'o SoftwareEdwardsKey" where
  "EdwardsKey_from_pkcs8_der ed Curve_Ed25519 serialized =
     ok_orR Sig_InvalidPrivateKey (map_option Curve25519 (ed25519_from_pkcs8 ed serialized))"
| "EdwardsKey_from_pkcs8_der ed Curve_Ed448 serialized =
     ok_orR Sig_InvalidPrivateKey (map_option Curve448 (ed448_from_pkcs8 ed serialized))"

fun EdwardsKey_to_pkcs8_der :: "'o edwards_crates \<Rightarrow> 'o SoftwareEdwardsKey \<Rightarrow> SoftwareSigningError + bytes" where
  "EdwardsKey_to_pkcs8_der ed (Curve25519 key) = ok_orR Sig_InvalidPrivateKey (ed25519_to_pkcs8 ed key)"
| "EdwardsKey_to_pkcs8_der ed (Curve448 key) = ok_orR Sig_InvalidPrivateKey (ed448_to_pkcs8 ed key)"

fun EdwardsKey_curve :: "'o SoftwareEdwardsKey \<Rightarrow> EdwardsCurve" where
  "EdwardsKey_curve (Curve25519 key) = Curve_Ed25519"
| "EdwardsKey_curve (Curve448 key) = Curve_Ed448"

fun EdwardsKey_serialized :: "'o edwards_crates \<Rightarrow> 'o SoftwareEdwardsKey \<Rightarrow> bytes" where
  "EdwardsKey_serialized ed (Curve25519 key) = ed25519_to_bytes ed key"
| "EdwardsKey_serialized ed (Curve448 key) = ed448_to_bytes ed key"

fun EdwardsKey_public_key :: "'o edwards_crates \<Rightarrow> 'o SoftwareEdwardsKey \<Rightarrow> bytes" where
  "EdwardsKey_public_key ed (Curve25519 key) = ed25519_verifying_key_bytes ed key"
| "EdwardsKey_public_key ed (Curve448 key) = ed448_verifying_key_bytes ed key"

fun EdwardsKey_sign_message :: "'o edwards_crates \<Rightarrow> 'o SoftwareEdwardsKey \<Rightarrow> bytes \<Rightarrow> bytes" where
  "EdwardsKey_sign_message ed (Curve25519 key) message = ed25519_sign ed key message"
| "EdwardsKey_sign_message ed (Curve448 key) message = ed448_sign_raw ed key message"



section \<open>Signing keys\<close>

datatype ('o, 'k, 'dk, 'dx, 'dv) SoftwareSigningKey =
    Sk_Ec "'o SoftwareEcKey"
  | Sk_Edwards "'o SoftwareEdwardsKey"
  | Sk_Rsa "'k RsaKey"
  | Sk_MlDsa "('dk, 'dx, 'dv) MlDsaPrivateKey"

fun rsa_key_error :: "RsaPrivateValidationError \<Rightarrow> SoftwareSigningError" where
  "rsa_key_error Priv_InvalidPrivateKey = Sig_InvalidPrivateKey"
| "rsa_key_error Priv_RandomnessUnavailable = Sig_RandomnessUnavailable"

definition SigningKey_key_kind where
  "SigningKey_key_kind w self =
     (case self of
        Sk_Ec key \<Rightarrow> Kind_Ec (EcKey_curve key)
      | Sk_Edwards key \<Rightarrow> Kind_Edwards (EdwardsKey_curve key)
      | Sk_Rsa key \<Rightarrow> Kind_Rsa (nat_bits (priv_n (sw_rsa_keys w) (rk_key key)))
      | Sk_MlDsa key \<Rightarrow> Kind_MlDsa (MlDsa_parameter_set key))"

definition SigningKey_serialized where
  "SigningKey_serialized w self =
     (case self of
        Sk_Ec key \<Rightarrow> Inr (EcKey_serialized (sw_ec w) key)
      | Sk_Edwards key \<Rightarrow> Inr (EdwardsKey_serialized (sw_ed w) key)
      | Sk_Rsa key \<Rightarrow> ok_orR Sig_InvalidPrivateKey (rsa_to_pkcs8 (sw_rsa w) (rk_key key))
      | Sk_MlDsa key \<Rightarrow> Inr (MlDsa_serialized (sw_dsa w) key))"

definition SigningKey_private_value where
  "SigningKey_private_value w self =
     (case self of
        Sk_Rsa _ \<Rightarrow> None
      | Sk_MlDsa key \<Rightarrow> Some (MlDsa_expanded_private_key (sw_dsa w) key)
      | _ \<Rightarrow> (case SigningKey_serialized w self of Inl _ \<Rightarrow> None | Inr bs \<Rightarrow> Some bs))"

definition SigningKey_rsa_size where
  "SigningKey_rsa_size w self =
     (case self of Sk_Rsa key \<Rightarrow> Inr (key_size (priv_n (sw_rsa_keys w) (rk_key key))) | _ \<Rightarrow> Inl Sig_AlgorithmMismatch)"

text \<open>\<open>let [p, q] = key.primes() else\<close>.\<close>

definition two_primes :: "nat list \<Rightarrow> SoftwareSigningError + nat \<times> nat" where
  "two_primes primes = (case primes of [p, q] \<Rightarrow> Inr (p, q) | _ \<Rightarrow> Inl Sig_InvalidPrivateKey)"

definition SigningKey_rsa_private_components where
  "SigningKey_rsa_private_components w self =
     (case self of
        Sk_Rsa rsa_key \<Rightarrow>
          let key = rk_key rsa_key in
          bindR (two_primes (priv_primes (sw_rsa_keys w) key)) (\<lambda>(p, q).
          bindR (ok_orR Sig_InvalidPrivateKey (rsa_dp (sw_rsa w) key)) (\<lambda>dp.
          bindR (ok_orR Sig_InvalidPrivateKey (rsa_dq (sw_rsa w) key)) (\<lambda>dq.
          bindR (ok_orR Sig_InvalidPrivateKey (Option.bind (rsa_qinv (sw_rsa w) key) to_biguint)) (\<lambda>qinv.
          Inr [to_bytes_be (priv_d (sw_rsa_keys w) key), to_bytes_be p, to_bytes_be q, to_bytes_be dp, to_bytes_be dq, to_bytes_be qinv]))))
      | _ \<Rightarrow> Inl Sig_AlgorithmMismatch)"

definition SigningKey_rsa_crt_components where
  "SigningKey_rsa_crt_components w self =
     (case self of
        Sk_Rsa rsa_key \<Rightarrow>
          let key = rk_key rsa_key in
          bindR (two_primes (priv_primes (sw_rsa_keys w) key)) (\<lambda>(p, q).
          bindR (ok_orR Sig_InvalidPrivateKey (rsa_dp (sw_rsa w) key)) (\<lambda>dp.
          bindR (ok_orR Sig_InvalidPrivateKey (rsa_dq (sw_rsa w) key)) (\<lambda>dq.
          bindR (ok_orR Sig_InvalidPrivateKey (Option.bind (rsa_qinv (sw_rsa w) key) to_biguint)) (\<lambda>qinv.
          Inr [to_bytes_be p, to_bytes_be q, to_bytes_be dp, to_bytes_be dq, to_bytes_be qinv]))))
      | _ \<Rightarrow> Inl Sig_AlgorithmMismatch)"

text \<open>A pure result, an RSA operation and an ML-DSA import as runs.\<close>

definition run_pure :: "SoftwareSigningError + 'a \<Rightarrow> ('s, 'a) run" where
  "run_pure r = run_op (liftE (map_errR Err r))"

definition run_rsa :: "('s, RsaPrivateValidationError fault, 'a) op \<Rightarrow> ('s, 'a) run" where
  "run_rsa m = run_op (map_errE (map_fault rsa_key_error) m)"

definition SigningKey_from_pkcs8_der where
  "SigningKey_from_pkcs8_der w algorithm serialized =
     (case ec_curve algorithm of
        Some curve \<Rightarrow> run_map Sk_Ec (run_pure (EcKey_from_pkcs8_der (sw_ec w) curve serialized))
      | None \<Rightarrow>
          (case algorithm of
             Scheme_Ed25519 \<Rightarrow> run_map Sk_Edwards (run_pure (EdwardsKey_from_pkcs8_der (sw_ed w) Curve_Ed25519 serialized))
           | Scheme_Ed448 \<Rightarrow> run_map Sk_Edwards (run_pure (EdwardsKey_from_pkcs8_der (sw_ed w) Curve_Ed448 serialized))
           | Scheme_MlDsa parameter_set \<Rightarrow>
               run_map Sk_MlDsa (run_result (dsa_result Sig_InvalidPrivateKey
                 (MlDsa_from_pkcs8_der (sw_dsa w) (sw_der w) (sw_dsa_algorithm w) parameter_set serialized)))
           | _ \<Rightarrow>
               if is_rsa algorithm
               then run_map Sk_Rsa (run_rsa (import_pkcs8 (sw_rsa_keys w) (sw_estimate w) (sw_os_rng w) serialized))
               else run_pure (Inl Sig_AlgorithmMismatch)))"

text \<open>The size check of an RSA key against the requested kind.\<close>

definition check_rsa_size where
  "check_rsa_size w bits key =
     run_bind (run_pure (SigningKey_rsa_size w key)) (\<lambda>size_bytes.
     if checked_mul size_bytes 8 \<noteq> Some bits then run_pure (Inl Sig_InvalidPrivateKey) else run_pure (Inr key))"

definition SigningKey_from_pkcs8_der_for_kind where
  "SigningKey_from_pkcs8_der_for_kind w kind serialized =
     (case kind of
        Kind_Ec curve \<Rightarrow> SigningKey_from_pkcs8_der w (Ec_signature_scheme curve) serialized
      | Kind_Edwards curve \<Rightarrow> SigningKey_from_pkcs8_der w (Edwards_signature_scheme curve) serialized
      | Kind_Rsa bits \<Rightarrow> run_bind (SigningKey_from_pkcs8_der w RsaPssSha256 serialized) (check_rsa_size w bits)
      | Kind_MlDsa parameter_set \<Rightarrow> SigningKey_from_pkcs8_der w (Scheme_MlDsa parameter_set) serialized)"

definition SigningKey_to_pkcs8_der where
  "SigningKey_to_pkcs8_der w self =
     (case self of
        Sk_Ec key \<Rightarrow> EcKey_to_pkcs8_der (sw_ec w) key
      | Sk_Edwards key \<Rightarrow> EdwardsKey_to_pkcs8_der (sw_ed w) key
      | Sk_Rsa key \<Rightarrow> ok_orR Sig_InvalidPrivateKey (rsa_to_pkcs8 (sw_rsa w) (rk_key key))
      | Sk_MlDsa key \<Rightarrow> map_errR (\<lambda>_. Sig_InvalidPrivateKey) (MlDsa_to_pkcs8_der (sw_dsa w) (sw_der w) (sw_dsa_algorithm w) key))"

definition SigningKey_generate_rsa where
  "SigningKey_generate_rsa w bits =
     run_map Sk_Rsa (run_rsa (generate_key (sw_rsa_keys w) (sw_estimate w) (sw_os_rng w) (sw_new_key w) bits))"

definition SigningKey_generate where
  "SigningKey_generate w algorithm =
     (case ec_curve algorithm of
        Some curve \<Rightarrow> run_map Sk_Ec (EcKey_generate w curve)
      | None \<Rightarrow>
          (case algorithm of
             Scheme_Ed25519 \<Rightarrow> run_map Sk_Edwards (run_op (map_errE Err (EdwardsKey_generate (sw_ed w) (sw_fill w) Curve_Ed25519)))
           | Scheme_Ed448 \<Rightarrow> run_map Sk_Edwards (run_op (map_errE Err (EdwardsKey_generate (sw_ed w) (sw_fill w) Curve_Ed448)))
           | Scheme_MlDsa parameter_set \<Rightarrow>
               run_map Sk_MlDsa (run_op (map_errE (\<lambda>_. Err Sig_RandomnessUnavailable) (MlDsa_generate (sw_dsa w) (sw_fill w) parameter_set)))
           | _ \<Rightarrow> if is_rsa algorithm then SigningKey_generate_rsa w 2048 else run_pure (Inl Sig_AlgorithmMismatch)))"

definition SigningKey_generate_for_kind where
  "SigningKey_generate_for_kind w kind =
     (case kind of
        Kind_Ec curve \<Rightarrow> SigningKey_generate w (Ec_signature_scheme curve)
      | Kind_Edwards curve \<Rightarrow> SigningKey_generate w (Edwards_signature_scheme curve)
      | Kind_Rsa bits \<Rightarrow> SigningKey_generate_rsa w bits
      | Kind_MlDsa parameter_set \<Rightarrow> SigningKey_generate w (Scheme_MlDsa parameter_set))"

definition SigningKey_from_rsa_primes where
  "SigningKey_from_rsa_primes w p q exponent =
     run_map Sk_Rsa (run_rsa (import_primes (sw_rsa_keys w) (sw_estimate w) (sw_os_rng w) (be_nat p) (be_nat q) (be_nat exponent)))"

definition SigningKey_restore_rsa_primes where
  "SigningKey_restore_rsa_primes w p q exponent =
     run_map Sk_Rsa (run_rsa (liftE (restore_primes (sw_rsa_keys w) (be_nat p) (be_nat q) (be_nat exponent))))"

definition SigningKey_from_rsa_components where
  "SigningKey_from_rsa_components w n e d primes =
     run_map Sk_Rsa (run_rsa (import_components (sw_rsa_keys w) (sw_estimate w) (sw_os_rng w) n e d primes))"

definition SigningKey_restore_rsa_pkcs1 where
  "SigningKey_restore_rsa_pkcs1 w encoded = run_map Sk_Rsa (run_rsa (liftE (restore_pkcs1 (sw_rsa_keys w) encoded)))"

definition SigningKey_from_serialized where
  "SigningKey_from_serialized w algorithm serialized =
     (case ec_curve algorithm of
        Some curve \<Rightarrow> run_map Sk_Ec (run_pure (EcKey_from_serialized (sw_ec w) curve serialized))
      | None \<Rightarrow>
          (case algorithm of
             Scheme_Ed25519 \<Rightarrow> run_map Sk_Edwards (run_pure (EdwardsKey_from_serialized (sw_ed w) Curve_Ed25519 serialized))
           | Scheme_Ed448 \<Rightarrow> run_map Sk_Edwards (run_pure (EdwardsKey_from_serialized (sw_ed w) Curve_Ed448 serialized))
           | Scheme_MlDsa parameter_set \<Rightarrow>
               run_map Sk_MlDsa (run_result (dsa_result Sig_InvalidPrivateKey (MlDsa_from_serialized (sw_dsa w) parameter_set serialized)))
           | _ \<Rightarrow>
               if is_rsa algorithm
               then run_map Sk_Rsa (run_rsa (liftE (restore_pkcs8 (sw_rsa_keys w) serialized)))
               else run_pure (Inl Sig_AlgorithmMismatch)))"

definition SigningKey_from_serialized_for_kind where
  "SigningKey_from_serialized_for_kind w kind serialized =
     (case kind of
        Kind_Ec curve \<Rightarrow> SigningKey_from_serialized w (Ec_signature_scheme curve) serialized
      | Kind_Edwards curve \<Rightarrow> SigningKey_from_serialized w (Edwards_signature_scheme curve) serialized
      | Kind_Rsa bits \<Rightarrow> run_bind (SigningKey_from_serialized w RsaPssSha256 serialized) (check_rsa_size w bits)
      | Kind_MlDsa parameter_set \<Rightarrow> SigningKey_from_serialized w (Scheme_MlDsa parameter_set) serialized)"

definition SigningKey_kind_name :: "('o, 'k, 'dk, 'dx, 'dv) SoftwareSigningKey \<Rightarrow> string" where
  "SigningKey_kind_name self =
     (case self of
        Sk_Ec key \<Rightarrow> EcKey_kind_name key
      | Sk_Edwards key \<Rightarrow> (case EdwardsKey_curve key of Curve_Ed25519 \<Rightarrow> ''Ed25519'' | Curve_Ed448 \<Rightarrow> ''Ed448'')
      | Sk_Rsa _ \<Rightarrow> ''RSA''
      | Sk_MlDsa _ \<Rightarrow> ''ML-DSA'')"

definition SigningKey_public_key where
  "SigningKey_public_key w self =
     (case self of
        Sk_Ec key \<Rightarrow> Pub_Ec (EcKey_curve key) (EcKey_public_key (sw_ec w) key)
      | Sk_Edwards key \<Rightarrow> Pub_Edwards (EdwardsKey_curve key) (EdwardsKey_public_key (sw_ed w) key)
      | Sk_Rsa key \<Rightarrow> Pub_Rsa (to_bytes_be (priv_n (sw_rsa_keys w) (rk_key key))) (to_bytes_be (priv_e (sw_rsa_keys w) (rk_key key)))
      | Sk_MlDsa key \<Rightarrow> Pub_MlDsa (MlDsa_parameter_set key) (MlDsa_public_key (sw_dsa w) key))"



section \<open>Signing and decryption\<close>

definition rsa_sign_prehash where
  "rsa_sign_prehash w algorithm key prehash pss_salt =
     bindE (ok_orE (Err Sig_AlgorithmMismatch) (rsa_profile algorithm)) (\<lambda>(hash, pss).
     let result =
       (if pss then
          rsa_sign_pss_digest (sw_rsa_ops w) (sw_hash w) (sw_fill w) key
            \<lparr> pss_hash = hash, pss_mgf_hash = hash,
               pss_salt_length = (case pss_salt of Some len \<Rightarrow> len | None \<Rightarrow> output_length hash) \<rparr>
            prehash
        else liftE (rsa_sign_pkcs1v15_digest (sw_rsa_ops w) key hash prehash))
     in map_errE (map_fault map_rsa_signing_error) result)"

definition rsa_sign_message where
  "rsa_sign_message w algorithm key message =
     bindE (ok_orE (Err Sig_AlgorithmMismatch) (rsa_profile algorithm)) (\<lambda>(hash, _).
     rsa_sign_prehash w algorithm key (digest (sw_hash w) hash message) None)"

definition SigningKey_sign_message where
  "SigningKey_sign_message w self algorithm message =
     bindE (case self of
         Sk_Ec key \<Rightarrow>
           if algorithm = Ec_signature_scheme (EcKey_curve key) then okE (EcKey_sign_message (sw_ec w) key message)
           else errE (Err Sig_AlgorithmMismatch)
       | Sk_Edwards key \<Rightarrow>
           if algorithm = Edwards_signature_scheme (EdwardsKey_curve key) then okE (EdwardsKey_sign_message (sw_ed w) key message)
           else errE (Err Sig_AlgorithmMismatch)
       | Sk_Rsa key \<Rightarrow>
           if is_rsa algorithm then rsa_sign_message w algorithm (rk_key key) message else errE (Err Sig_AlgorithmMismatch)
       | Sk_MlDsa key \<Rightarrow>
           if algorithm = Scheme_MlDsa (MlDsa_parameter_set key)
           then map_errE (\<lambda>_. Err Sig_SigningFailed) (MlDsa_sign_hedged (sw_dsa w) key message [])
           else errE (Err Sig_AlgorithmMismatch)) (\<lambda>signature.
     okE \<lparr> sig_bytes = signature \<rparr>)"

definition SigningKey_sign_prehash where
  "SigningKey_sign_prehash w self algorithm prehash =
     bindE (case self of
         Sk_Ec key \<Rightarrow>
           if algorithm = Ec_signature_scheme (EcKey_curve key) then liftE (map_errR Err (EcKey_sign_prehash (sw_ec w) key prehash))
           else errE (Err Sig_AlgorithmMismatch)
       | Sk_Rsa key \<Rightarrow>
           if is_rsa algorithm then rsa_sign_prehash w algorithm (rk_key key) prehash None else errE (Err Sig_AlgorithmMismatch)
       | _ \<Rightarrow> errE (Err Sig_AlgorithmMismatch)) (\<lambda>signature.
     okE \<lparr> sig_bytes = signature \<rparr>)"

text \<open>The RSA operations begin with \<open>let Self::Rsa(key) = self else\<close>.\<close>

definition SigningKey_sign_rsa_pss_prehash where
  "SigningKey_sign_rsa_pss_prehash w self algorithm prehash salt_length =
     (case self of
        Sk_Rsa key \<Rightarrow>
          bindE (rsa_sign_prehash w algorithm (rk_key key) prehash (Some salt_length)) (\<lambda>signature. okE \<lparr> sig_bytes = signature \<rparr>)
      | _ \<Rightarrow> errE (Err Sig_AlgorithmMismatch))"

definition SigningKey_sign_rsa_pkcs1v15_payload where
  "SigningKey_sign_rsa_pkcs1v15_payload w self payload =
     (case self of
        Sk_Rsa key \<Rightarrow>
          bindR (map_errR (map_fault map_rsa_signing_error) (rsa_sign_pkcs1v15_payload (sw_rsa_ops w) (rk_key key) payload)) (\<lambda>signature.
          Inr \<lparr> sig_bytes = signature \<rparr>)
      | _ \<Rightarrow> Inl (Err Sig_AlgorithmMismatch))"

definition SigningKey_sign_rsa_pkcs1v15_digest where
  "SigningKey_sign_rsa_pkcs1v15_digest w self hash dig =
     (case self of
        Sk_Rsa key \<Rightarrow>
          bindR (map_errR (map_fault map_rsa_signing_error) (rsa_sign_pkcs1v15_digest (sw_rsa_ops w) (rk_key key) hash dig)) (\<lambda>signature.
          Inr \<lparr> sig_bytes = signature \<rparr>)
      | _ \<Rightarrow> Inl (Err Sig_AlgorithmMismatch))"

definition SigningKey_sign_rsa_pss_digest where
  "SigningKey_sign_rsa_pss_digest w self hash mgf_hash salt_length dig =
     (case self of
        Sk_Rsa key \<Rightarrow>
          bindE (map_errE (map_fault map_rsa_signing_error)
            (rsa_sign_pss_digest (sw_rsa_ops w) (sw_hash w) (sw_fill w) (rk_key key)
              \<lparr> pss_hash = hash, pss_mgf_hash = mgf_hash, pss_salt_length = salt_length \<rparr> dig)) (\<lambda>signature.
          okE \<lparr> sig_bytes = signature \<rparr>)
      | _ \<Rightarrow> errE (Err Sig_AlgorithmMismatch))"

definition SigningKey_decrypt_rsa_pkcs1v15 where
  "SigningKey_decrypt_rsa_pkcs1v15 w self ciphertext =
     (case self of
        Sk_Rsa key \<Rightarrow> map_errR (map_fault map_rsa_signing_error) (rsa_decrypt_pkcs1v15 (sw_rsa_ops w) (rk_key key) ciphertext)
      | _ \<Rightarrow> Inl (Err Sig_AlgorithmMismatch))"

definition SigningKey_decrypt_rsa_oaep_digest where
  "SigningKey_decrypt_rsa_oaep_digest w self ciphertext label_digest mgf_hash =
     (case self of
        Sk_Rsa key \<Rightarrow>
          map_errR (map_fault map_rsa_signing_error)
            (rsa_decrypt_oaep_digest (sw_rsa_ops w) (sw_hash w) (rk_key key) ciphertext label_digest mgf_hash)
      | _ \<Rightarrow> Inl (Err Sig_AlgorithmMismatch))"

definition SigningKey_sign_rsa_raw where
  "SigningKey_sign_rsa_raw w self input =
     (case self of
        Sk_Rsa key \<Rightarrow>
          bindR (map_errR (map_fault map_rsa_signing_error) (rsa_sign_raw (sw_rsa_ops w) (rk_key key) input)) (\<lambda>signature.
          Inr \<lparr> sig_bytes = signature \<rparr>)
      | _ \<Rightarrow> Inl (Err Sig_AlgorithmMismatch))"


section \<open>Facts shared by the properties\<close>

lemma run_simps [simp]:
  "run_bind m f s = Some (Inr y, s'') \<longleftrightarrow> (\<exists>x s'. m s = Some (Inr x, s') \<and> f x s' = Some (Inr y, s''))"
  "run_map g m s = Some (Inr y, s'') \<longleftrightarrow> (\<exists>x. m s = Some (Inr x, s'') \<and> y = g x)"
  by (auto simp: run_bind_def run_map_def run_op_def okE_def split: option.splits sum.splits prod.splits)

lemma run_pure_ok [simp]:
  "run_pure r s = Some (Inr y, s') \<longleftrightarrow> r = Inr y \<and> s' = s"
  by (cases r) (auto simp: run_pure_def run_op_def liftE_def map_errR_def)

lemma dsa_result_ok [simp]: "run_result (dsa_result e r) s = Some (Inr y, s') \<longleftrightarrow> r = Some (Inr y) \<and> s' = s"
proof (cases r)
  case (Some v)
  then show ?thesis by (cases v) (auto simp: run_result_def dsa_result_def map_errR_def)
qed (simp add: run_result_def dsa_result_def)

lemma run_rsa_ok [simp]: "run_rsa m s = Some (Inr y, s') \<longleftrightarrow> m s = (Inr y, s')"
  by (auto simp: run_rsa_def run_op_def map_errE_def split: sum.splits prod.splits)

lemma ok_map_Inr: "ok_orR e (map_option f v) = Inr x \<longleftrightarrow> (\<exists>y. v = Some y \<and> x = f y)"
  by (cases v) (auto simp: ok_orR_def)

lemma ec_key_curve:
  "EcKey_from_serialized ec curve bs = Inr key \<Longrightarrow> EcKey_curve key = curve"
  "EcKey_from_pkcs8_der ec curve bs = Inr key \<Longrightarrow> EcKey_curve key = curve"
  "EcKey_generate w curve s = Some (Inr key, s') \<Longrightarrow> EcKey_curve key = curve"
    apply (cases curve; clarsimp simp: ok_map_Inr)
   apply (cases curve; clarsimp simp: ok_map_Inr)
  apply (cases curve; clarsimp)
  done

lemma edwards_key_curve:
  "EdwardsKey_from_serialized ed curve bs = Inr key' \<Longrightarrow> EdwardsKey_curve key' = curve"
  "EdwardsKey_from_pkcs8_der ed curve bs = Inr key' \<Longrightarrow> EdwardsKey_curve key' = curve"
    apply (cases curve; clarsimp simp: ok_map_Inr bindR_Inr_iff)
   apply (cases curve; clarsimp simp: ok_map_Inr)
  done

end
