(* ===== verification/Signing_Properties.thy ===== *)
theory Signing_Properties
  imports Signing_Keys
begin

text \<open>
  Properties of the signing keys: which keys can exist (\<open>held\<close>) and what is true of all of them, exactly when an operation
  reports a mismatch of key and scheme, that stored keys come back, and that signatures verify.
\<close>

section \<open>Drawing a secret\<close>

text \<open>A finite run of the random source: rejected candidates, then an accepted one or a failure of the source.\<close>

inductive draws_secret ::
  "(bytes \<Rightarrow> 'o option) \<Rightarrow> (nat \<Rightarrow> ('s, 'e, bytes) op) \<Rightarrow> nat \<Rightarrow> 's \<Rightarrow> SoftwareSigningError fault + 'o \<Rightarrow> 's \<Rightarrow> bool"
  for from_slice fill len where
  no_source: "fill len s = (Inl e, s') \<Longrightarrow> draws_secret from_slice fill len s (Inl (Err Sig_RandomnessUnavailable)) s'"
| accepted: "fill len s = (Inr bs, s') \<Longrightarrow> from_slice bs = Some secret \<Longrightarrow> draws_secret from_slice fill len s (Inr secret) s'"
| rejected: "fill len s = (Inr bs, s') \<Longrightarrow> from_slice bs = None \<Longrightarrow> draws_secret from_slice fill len s' r s''
    \<Longrightarrow> draws_secret from_slice fill len s r s''"

lemma random_secret_draws: "draws_secret from_slice fill len s r s' \<Longrightarrow> random_secret from_slice fill len s = Some (r, s')"
  by (induction rule: draws_secret.induct) (simp_all add: random_secret.simps)

lemma random_secret_drawn:
  assumes "random_secret from_slice fill len s = Some rs"
  shows "draws_secret from_slice fill len s (fst rs) (snd rs)"
proof (rule random_secret.raw_induct [OF _ assms])
  fix rec from_slice fill len s rs
  assume ih: "\<And>from_slice fill len s rs. rec from_slice fill len s = Some rs \<Longrightarrow> draws_secret from_slice fill len s (fst rs) (snd rs)"
    and "(case fill len s of
        (Inl _, s') \<Rightarrow> Some (Inl (Err Sig_RandomnessUnavailable), s')
      | (Inr bs, s') \<Rightarrow> (case from_slice bs of Some secret \<Rightarrow> Some (Inr secret, s') | None \<Rightarrow> rec from_slice fill len s')) = Some rs"
  then show "draws_secret from_slice fill len s (fst rs) (snd rs)"
    by (auto intro: draws_secret.intros split: sum.splits prod.splits option.splits)
qed

lemma random_secret_iff: "random_secret from_slice fill len s = Some (r, s') \<longleftrightarrow> draws_secret from_slice fill len s r s'"
  using random_secret_draws random_secret_drawn by fastforce

lemma drawn_accepted: "draws_secret from_slice fill len s r s' \<Longrightarrow> r = Inr secret \<Longrightarrow> \<exists>bs. from_slice bs = Some secret"
  by (induction rule: draws_secret.induct) auto

fun secret_length :: "EcCurve \<Rightarrow> nat" where
  "secret_length EC_P224 = 28"
| "secret_length EC_P256 = 32"
| "secret_length EC_P384 = 48"
| "secret_length EC_P521 = 66"
| "secret_length EC_Secp256k1 = 32"
| "secret_length EC_BrainpoolP256 = 32"
| "secret_length EC_BrainpoolP384 = 48"
| "secret_length EC_BrainpoolP512 = 64"

fun backend :: "EcCurve \<Rightarrow> 'o \<Rightarrow> 'o SoftwareEcKey" where
  "backend EC_P224 = Back_P224"
| "backend EC_P256 = Back_P256"
| "backend EC_P384 = Back_P384"
| "backend EC_P521 = Back_P521"
| "backend EC_Secp256k1 = Back_Secp256k1"
| "backend EC_BrainpoolP256 = Back_BrainpoolP256"
| "backend EC_BrainpoolP384 = Back_BrainpoolP384"
| "backend EC_BrainpoolP512 = Back_BrainpoolP512"

lemma generate_backend:
  "EcKey_generate w c = run_map (backend c) (random_secret (ec_from_slice (sw_ec w) c) (sw_fill w) (secret_length c))"
  by (cases c) (simp_all add: random_p224_secret_def random_p256_secret_def random_p384_secret_def random_p521_secret_def
    random_k256_secret_def random_brainpool_p256_secret_def random_brainpool_p384_secret_def random_brainpool_p512_secret_def)

lemma backend_simps [simp]:
  "EcKey_curve (backend c k) = c"
  "EcKey_serialized ec (backend c k) = ec_to_bytes ec c k"
  "EcKey_public_key ec (backend c k) = ec_to_sec1 ec c (ec_public_key ec c k) False"
  "EcKey_sign_message ec (backend c k) m = ecdsa_to_bytes ec c (ecdsa_sign ec c k m)"
  "EcKey_sign_prehash ec (backend c k) m = sign_ecdsa_prehash ec c k m"
  "EcKey_to_pkcs8_der ec (backend c k) = ok_orR Sig_InvalidPrivateKey (ec_to_pkcs8 ec c k)"
  by (cases c; simp)+

lemma backend_parsers:
  "EcKey_from_serialized ec c bs = ok_orR Sig_InvalidPrivateKey (map_option (backend c) (ec_from_slice ec c bs))"
  "EcKey_from_pkcs8_der ec c bs = ok_orR Sig_InvalidPrivateKey (map_option (backend c) (ec_from_pkcs8 ec c bs))"
  by (cases c; simp)+

lemma backend_cases: obtains c k where "key = backend c k"
proof (cases key)
  case (Back_P224 k) then show ?thesis using that [of EC_P224 k] by simp
next
  case (Back_P256 k) then show ?thesis using that [of EC_P256 k] by simp
next
  case (Back_P384 k) then show ?thesis using that [of EC_P384 k] by simp
next
  case (Back_P521 k) then show ?thesis using that [of EC_P521 k] by simp
next
  case (Back_Secp256k1 k) then show ?thesis using that [of EC_Secp256k1 k] by simp
next
  case (Back_BrainpoolP256 k) then show ?thesis using that [of EC_BrainpoolP256 k] by simp
next
  case (Back_BrainpoolP384 k) then show ?thesis using that [of EC_BrainpoolP384 k] by simp
next
  case (Back_BrainpoolP512 k) then show ?thesis using that [of EC_BrainpoolP512 k] by simp
qed

lemma run_map_other:
  "run_map f m s = None \<longleftrightarrow> m s = None"
  "run_map f m s = Some (Inl e, s') \<longleftrightarrow> m s = Some (Inl e, s')"
  by (auto simp: run_map_def run_bind_def run_op_def okE_def split: option.splits sum.splits prod.splits)

text \<open>
  Generating a key on an elliptic curve returns exactly when the random source, asked for candidates of the
  length of the curve, fails or gives one the curve accepts: then the result is that failure, reported as
  \<open>RandomnessUnavailable\<close>, or the key of the first accepted candidate, with the curve asked for, and the
  source was used no further.
\<close>

theorem ec_generate_draws:
  "(EcKey_generate w curve s = Some (Inr key, s') \<longleftrightarrow>
      (\<exists>secret. draws_secret (ec_from_slice (sw_ec w) curve) (sw_fill w) (secret_length curve) s (Inr secret) s'
         \<and> key = backend curve secret))
   \<and> (EcKey_generate w curve s = Some (Inl e, s') \<longleftrightarrow>
      draws_secret (ec_from_slice (sw_ec w) curve) (sw_fill w) (secret_length curve) s (Inl e) s')
   \<and> (EcKey_generate w curve s = None \<longleftrightarrow>
      (\<nexists>r s''. draws_secret (ec_from_slice (sw_ec w) curve) (sw_fill w) (secret_length curve) s r s''))"
  unfolding generate_backend run_map_other run_simps by (auto simp: random_secret_iff [symmetric]) (metis not_Some_eq surj_pair)


section \<open>Keys and schemes\<close>

text \<open>The schemes a public key is used with.\<close>

fun public_fits :: "SoftwarePublicKey \<Rightarrow> SignatureScheme \<Rightarrow> bool" where
  "public_fits (Pub_Ec curve _) scheme \<longleftrightarrow> scheme = Ec_signature_scheme curve"
| "public_fits (Pub_Edwards curve _) scheme \<longleftrightarrow> scheme = Edwards_signature_scheme curve"
| "public_fits (Pub_MlDsa ps _) scheme \<longleftrightarrow> scheme = Scheme_MlDsa ps"
| "public_fits (Pub_Rsa _ _) scheme \<longleftrightarrow> is_rsa scheme"

fun takes_prehash :: "SoftwarePublicKey \<Rightarrow> bool" where
  "takes_prehash (Pub_Ec _ _) \<longleftrightarrow> True"
| "takes_prehash (Pub_Rsa _ _) \<longleftrightarrow> True"
| "takes_prehash _ \<longleftrightarrow> False"

lemma verify_message_ec:
  "PublicKey_verify_message w (Pub_Ec c u) alg m sig =
     (if alg \<noteq> Ec_signature_scheme c then Inl (Err Sig_AlgorithmMismatch)
      else if c = EC_BrainpoolP512 then map_errR (\<lambda>_. Err Sig_InvalidSignature) (verify_prehash (sw_mod_inverse w) u (digest (sw_hash w) Sha512 m) sig)
      else map_errR Err (verify_ecdsa (sw_ec w) c u m sig))"
  unfolding PublicKey_verify_message_def
  by (cases c; cases alg; simp add: verify_generic_ecdsa_def verify_ecdsa_def is_rsa_def)

lemma verify_prehash_ec:
  "PublicKey_verify_prehash w (Pub_Ec c u) alg m sig =
     (if alg \<noteq> Ec_signature_scheme c then Inl (Err Sig_AlgorithmMismatch)
      else if c = EC_BrainpoolP512 then map_errR (\<lambda>_. Err Sig_InvalidSignature) (verify_prehash (sw_mod_inverse w) u m sig)
      else map_errR Err (verify_ecdsa_prehash (sw_ec w) c u m sig))"
  unfolding PublicKey_verify_prehash_def
  by (cases c; cases alg; simp add: verify_generic_ecdsa_prehash_def verify_ecdsa_prehash_def is_rsa_def)

lemma verify_message_edwards:
  "PublicKey_verify_message w (Pub_Edwards c u) alg m sig =
     (if alg \<noteq> Edwards_signature_scheme c then Inl (Err Sig_AlgorithmMismatch)
      else map_errR Err (case c of Curve_Ed25519 \<Rightarrow> verify_ed25519_message (sw_ed w) u m sig | Curve_Ed448 \<Rightarrow> verify_ed448_message (sw_ed w) u m sig))"
  unfolding PublicKey_verify_message_def by (cases c; cases alg; simp)

lemma verify_message_ml_dsa:
  "PublicKey_verify_message w (Pub_MlDsa ps u) alg m sig =
     (if alg \<noteq> Scheme_MlDsa ps then Inl (Err Sig_AlgorithmMismatch)
      else map_errR (\<lambda>_. Err Sig_InvalidSignature) (verify_ml_dsa (sw_dsa w) ps u m [] sig))"
  unfolding PublicKey_verify_message_def by (cases alg; simp)

lemma verify_message_rsa:
  "PublicKey_verify_message w (Pub_Rsa n e) alg m sig =
     (if \<not> is_rsa alg then Inl (Err Sig_AlgorithmMismatch)
      else bindR (map_errR Err (rsa_public_key (sw_rsa w) n e)) (\<lambda>key. verify_rsa_message w alg key m sig))"
  unfolding PublicKey_verify_message_def by (cases alg; simp add: is_rsa_def)

lemma verify_prehash_rsa:
  "PublicKey_verify_prehash w (Pub_Rsa n e) alg m sig =
     (if \<not> is_rsa alg then Inl (Err Sig_AlgorithmMismatch)
      else bindR (map_errR Err (rsa_public_key (sw_rsa w) n e)) (\<lambda>key. verify_rsa_prehash w alg key m sig None))"
  unfolding PublicKey_verify_prehash_def by (cases alg; simp add: is_rsa_def)

lemma verify_prehash_others:
  "PublicKey_verify_prehash w (Pub_Edwards c u) alg m sig = Inl (Err Sig_AlgorithmMismatch)"
  "PublicKey_verify_prehash w (Pub_MlDsa ps u) alg m sig = Inl (Err Sig_AlgorithmMismatch)"
  unfolding PublicKey_verify_prehash_def by (cases alg; simp)+


text \<open>Where the error of a composed result comes from.\<close>

lemma error_iffs:
  "bindR r f = Inl e \<longleftrightarrow> r = Inl e \<or> (\<exists>x. r = Inr x \<and> f x = Inl e)"
  "map_errR g r' = Inl e \<longleftrightarrow> (\<exists>e'. r' = Inl e' \<and> e = g e')"
  "ok_orR e' v = Inl e \<longleftrightarrow> v = None \<and> e = e'"
  "rejectR c e' = Inl e \<longleftrightarrow> c \<and> e = e'"
  by (auto simp: bindR_def map_errR_def ok_orR_def rejectR_def split: sum.splits option.splits)

lemma no_mismatch_ecdsa:
  "verify_ecdsa ec c u m sig \<noteq> Inl Sig_AlgorithmMismatch" "verify_ecdsa_prehash ec c u m sig \<noteq> Inl Sig_AlgorithmMismatch"
  by (auto simp: verify_ecdsa_def verify_ecdsa_prehash_def error_iffs Let_def split: if_splits)

lemma no_mismatch_edwards:
  "verify_ed25519_message ed u m sig \<noteq> Inl Sig_AlgorithmMismatch" "verify_ed448_message ed u m sig \<noteq> Inl Sig_AlgorithmMismatch"
  by (auto simp: verify_ed25519_message_def verify_ed448_message_def checked_ed25519_verifying_key_def checked_ed448_verifying_key_def
      error_iffs split: if_splits)

lemma map_fault_mismatch [simp]:
  "map_fault map_rsa_verification_error e \<noteq> Err Sig_AlgorithmMismatch" "map_fault map_rsa_signing_error e \<noteq> Err Sig_AlgorithmMismatch"
proof -
  have "map_rsa_verification_error x \<noteq> Sig_AlgorithmMismatch" "map_rsa_signing_error x \<noteq> Sig_AlgorithmMismatch" for x
    by (cases x; simp)+
  then show "map_fault map_rsa_verification_error e \<noteq> Err Sig_AlgorithmMismatch" "map_fault map_rsa_signing_error e \<noteq> Err Sig_AlgorithmMismatch"
    by (cases e; simp add: map_fault_def)+
qed

lemma no_mismatch_rsa:
  "is_rsa alg \<Longrightarrow> verify_rsa_prehash w alg key m sig salt \<noteq> Inl (Err Sig_AlgorithmMismatch)"
  "is_rsa alg \<Longrightarrow> verify_rsa_message w alg key m sig \<noteq> Inl (Err Sig_AlgorithmMismatch)"
  by (auto simp: verify_rsa_message_def verify_rsa_prehash_def rsa_profile_iff error_iffs Let_def dest!: sym [of "Err _"])

lemma map_Err_mismatch: "map_errR Err r = Inl (Err e) \<longleftrightarrow> r = Inl e"
  by (auto simp: error_iffs)

lemma verify_mismatch_iff:
  "PublicKey_verify_message w pub alg m sig = Inl (Err Sig_AlgorithmMismatch) \<longleftrightarrow> \<not> public_fits pub alg"
proof (cases pub)
  case (Pub_Ec c u)
  then show ?thesis by (auto simp: no_mismatch_ecdsa verify_message_ec map_Err_mismatch error_iffs(2))
next
  case (Pub_Edwards c u)
  then show ?thesis by (cases c) (auto simp: no_mismatch_edwards verify_message_edwards map_Err_mismatch)
next
  case (Pub_MlDsa ps u)
  then show ?thesis by (auto simp: verify_message_ml_dsa error_iffs(2))
next
  case (Pub_Rsa n e)
  then show ?thesis by (auto simp: no_mismatch_rsa verify_message_rsa error_iffs(1) map_Err_mismatch rsa_public_key_def error_iffs(3))
qed

lemma verify_prehash_mismatch_iff:
  "PublicKey_verify_prehash w pub alg m sig = Inl (Err Sig_AlgorithmMismatch) \<longleftrightarrow> \<not> (takes_prehash pub \<and> public_fits pub alg)"
proof (cases pub)
  case (Pub_Ec c u)
  then show ?thesis by (auto simp: no_mismatch_ecdsa verify_prehash_ec map_Err_mismatch error_iffs(2))
next
  case (Pub_Rsa n e)
  then show ?thesis by (auto simp: no_mismatch_rsa verify_prehash_rsa error_iffs(1) map_Err_mismatch rsa_public_key_def error_iffs(3))
qed (simp_all add: verify_prehash_others)

lemma op_error_iffs:
  "bindE m f s = (Inl e, s'') \<longleftrightarrow> m s = (Inl e, s'') \<or> (\<exists>x s'. m s = (Inr x, s') \<and> f x s' = (Inl e, s''))"
  "map_errE g m' s = (Inl e, s'') \<longleftrightarrow> (\<exists>e'. m' s = (Inl e', s'') \<and> e = g e')"
  by (auto simp: bindE_def map_errE_def split: sum.splits prod.splits)

lemma no_mismatch_rsa_sign:
  "is_rsa alg \<Longrightarrow> rsa_sign_prehash w alg key m salt s \<noteq> (Inl (Err Sig_AlgorithmMismatch), s')"
  "is_rsa alg \<Longrightarrow> rsa_sign_message w alg key m s \<noteq> (Inl (Err Sig_AlgorithmMismatch), s')"
  by (auto simp: rsa_sign_message_def rsa_sign_prehash_def rsa_profile_iff op_error_iffs okE_def Let_def dest!: sym [of "Err _"])

lemma sign_mismatch_iff:
  "SigningKey_sign_message w key alg m s = (Inl (Err Sig_AlgorithmMismatch), s')
     \<longleftrightarrow> \<not> public_fits (SigningKey_public_key w key) alg \<and> s' = s"
  by (cases key)
    (auto simp: no_mismatch_rsa_sign SigningKey_sign_message_def SigningKey_public_key_def op_error_iffs okE_def errE_def)

lemma sign_prehash_mismatch_iff:
  "SigningKey_sign_prehash w key alg m s = (Inl (Err Sig_AlgorithmMismatch), s')
     \<longleftrightarrow> \<not> (takes_prehash (SigningKey_public_key w key) \<and> public_fits (SigningKey_public_key w key) alg) \<and> s' = s"
proof -
  have ec: "EcKey_sign_prehash (sw_ec w) k m \<noteq> Inl Sig_AlgorithmMismatch" for k
    by (cases k rule: backend_cases) (auto simp: sign_ecdsa_prehash_def error_iffs)
  show ?thesis
    by (cases key)
      (auto simp: no_mismatch_rsa_sign ec SigningKey_sign_prehash_def SigningKey_public_key_def op_error_iffs okE_def errE_def liftE_def map_Err_mismatch split: sum.splits)
qed

text \<open>
  C27: A mismatch of key and scheme is reported exactly when there is one. Signing a message and verifying one answer
  \<open>AlgorithmMismatch\<close> exactly when the scheme is not one of the key: the ECDSA scheme of its curve, the EdDSA
  variant of its curve, the ML-DSA parameter set, or any RSA scheme for an RSA key. For digests the same holds, and
  Edwards and ML-DSA keys answer so for every scheme. Signing answers it without using the random source. A
  wrong key, digest or signature is never reported as a mismatch.
\<close>

theorem mismatch_exact:
  "(PublicKey_verify_message w pub alg m sig = Inl (Err Sig_AlgorithmMismatch) \<longleftrightarrow> \<not> public_fits pub alg)
   \<and> (PublicKey_verify_prehash w pub alg m sig = Inl (Err Sig_AlgorithmMismatch) \<longleftrightarrow> \<not> (takes_prehash pub \<and> public_fits pub alg))
   \<and> (SigningKey_sign_message w key alg m s = (Inl (Err Sig_AlgorithmMismatch), s')
        \<longleftrightarrow> \<not> public_fits (SigningKey_public_key w key) alg \<and> s' = s)
   \<and> (SigningKey_sign_prehash w key alg m s = (Inl (Err Sig_AlgorithmMismatch), s')
        \<longleftrightarrow> \<not> (takes_prehash (SigningKey_public_key w key) \<and> public_fits (SigningKey_public_key w key) alg) \<and> s' = s)"
  by (intro conjI verify_mismatch_iff verify_prehash_mismatch_iff sign_mismatch_iff sign_prehash_mismatch_iff)



section \<open>The keys that can exist\<close>

text \<open>The operations that return a signing key.\<close>

inductive held :: "('o, 'k, 'p, 'h, 'q, 'dk, 'dx, 'dv, 'dg, 's, 'e) signing_world \<Rightarrow> ('o, 'k, 'dk, 'dx, 'dv) SoftwareSigningKey \<Rightarrow> bool" for w where
  generated: "SigningKey_generate w alg (s :: 's) = Some (Inr key, s') \<Longrightarrow> held w key"
| generated_rsa: "SigningKey_generate_rsa w bits (s :: 's) = Some (Inr key, s') \<Longrightarrow> held w key"
| restored: "SigningKey_from_serialized w alg bs (s :: 's) = Some (Inr key, s') \<Longrightarrow> held w key"
| imported: "SigningKey_from_pkcs8_der w alg bs (s :: 's) = Some (Inr key, s') \<Longrightarrow> held w key"
| rsa_primes: "SigningKey_from_rsa_primes w p q e (s :: 's) = Some (Inr key, s') \<Longrightarrow> held w key"
| rsa_restored: "SigningKey_restore_rsa_primes w p q e (s :: 's) = Some (Inr key, s') \<Longrightarrow> held w key"
| rsa_components: "SigningKey_from_rsa_components w n e' d primes (s :: 's) = Some (Inr key, s') \<Longrightarrow> held w key"
| rsa_pkcs1: "SigningKey_restore_rsa_pkcs1 w bs (s :: 's) = Some (Inr key, s') \<Longrightarrow> held w key"

text \<open>Secrets that a parser of the crates returned.\<close>

definition ec_secret :: "'o ec_crates \<Rightarrow> EcCurve \<Rightarrow> 'o \<Rightarrow> bool" where
  "ec_secret ec c k \<longleftrightarrow> (\<exists>bs. ec_from_slice ec c bs = Some k) \<or> (\<exists>bs. ec_from_pkcs8 ec c bs = Some k)"

fun edwards_secret :: "'o edwards_crates \<Rightarrow> 'o SoftwareEdwardsKey \<Rightarrow> bool" where
  "edwards_secret ed (Curve25519 k) \<longleftrightarrow> (\<exists>bs. length bs = 32 \<and> k = ed25519_from_bytes ed bs) \<or> (\<exists>bs. ed25519_from_pkcs8 ed bs = Some k)"
| "edwards_secret ed (Curve448 k) \<longleftrightarrow> (\<exists>bs. ed448_try_from ed bs = Some k) \<or> (\<exists>bs. ed448_from_pkcs8 ed bs = Some k)"

fun key_wf where
  "key_wf w (Sk_Ec key) \<longleftrightarrow> (\<exists>c k. key = backend c k \<and> ec_secret (sw_ec w) c k)"
| "key_wf w (Sk_Edwards key) \<longleftrightarrow> edwards_secret (sw_ed w) key"
| "key_wf w (Sk_Rsa key) \<longleftrightarrow> True"
| "key_wf w (Sk_MlDsa key) \<longleftrightarrow> (\<exists>stored. MlDsa_from_serialized (sw_dsa w) (MlDsa_parameter_set key) stored = Some (Inr key))"

text \<open>The random source fills the buffer it is given.\<close>

definition fill_ok :: "(nat \<Rightarrow> ('s, 'e, bytes) op) \<Rightarrow> bool" where
  "fill_ok fill \<longleftrightarrow> (\<forall>n s bs s'. fill n s = (Inr bs, s') \<longrightarrow> length bs = n)"

text \<open>One clause for each scheme, shared by generation, import and restoring.\<close>

lemma scheme_cases:
  obtains (ec) c where "alg = Ec_signature_scheme c"
  | (ed) c where "alg = Edwards_signature_scheme c"
  | (ml_dsa) ps where "alg = Scheme_MlDsa ps"
  | (rsa) "is_rsa alg"
  by (cases alg) (auto simp: is_rsa_def intro: that(1) [of EC_P224] that(1) [of EC_P256] that(1) [of EC_P384] that(1) [of EC_P521]
    that(1) [of EC_Secp256k1] that(1) [of EC_BrainpoolP256] that(1) [of EC_BrainpoolP384] that(1) [of EC_BrainpoolP512]
    that(2) [of Curve_Ed25519] that(2) [of Curve_Ed448])

lemma rsa_no_curve: "is_rsa alg \<Longrightarrow> ec_curve alg = None"
  by (cases alg) (simp_all add: is_rsa_def)

lemma generate_schemes:
  "SigningKey_generate w (Ec_signature_scheme c) = run_map Sk_Ec (EcKey_generate w c)"
  "SigningKey_generate w (Edwards_signature_scheme d) = run_map Sk_Edwards (run_op (map_errE Err (EdwardsKey_generate (sw_ed w) (sw_fill w) d)))"
  "SigningKey_generate w (Scheme_MlDsa ps) =
     run_map Sk_MlDsa (run_op (map_errE (\<lambda>_. Err Sig_RandomnessUnavailable) (MlDsa_generate (sw_dsa w) (sw_fill w) ps)))"
  "is_rsa alg \<Longrightarrow> SigningKey_generate w alg = SigningKey_generate_rsa w 2048"
     apply (simp add: SigningKey_generate_def)
    apply (cases d; simp add: SigningKey_generate_def)
   apply (simp add: SigningKey_generate_def)
  apply (cases alg; simp add: SigningKey_generate_def is_rsa_def)
  done

lemma restore_schemes:
  "SigningKey_from_serialized w (Ec_signature_scheme c) bs = run_map Sk_Ec (run_pure (EcKey_from_serialized (sw_ec w) c bs))"
  "SigningKey_from_serialized w (Edwards_signature_scheme d) bs = run_map Sk_Edwards (run_pure (EdwardsKey_from_serialized (sw_ed w) d bs))"
  "SigningKey_from_serialized w (Scheme_MlDsa ps) bs =
     run_map Sk_MlDsa (run_result (dsa_result Sig_InvalidPrivateKey (MlDsa_from_serialized (sw_dsa w) ps bs)))"
  "is_rsa alg \<Longrightarrow> SigningKey_from_serialized w alg bs = run_map Sk_Rsa (run_rsa (liftE (restore_pkcs8 (sw_rsa_keys w) bs)))"
     apply (simp add: SigningKey_from_serialized_def)
    apply (cases d; simp add: SigningKey_from_serialized_def)
   apply (simp add: SigningKey_from_serialized_def)
  apply (cases alg; simp add: SigningKey_from_serialized_def is_rsa_def)
  done

lemma import_schemes:
  "SigningKey_from_pkcs8_der w (Ec_signature_scheme c) bs = run_map Sk_Ec (run_pure (EcKey_from_pkcs8_der (sw_ec w) c bs))"
  "SigningKey_from_pkcs8_der w (Edwards_signature_scheme d) bs = run_map Sk_Edwards (run_pure (EdwardsKey_from_pkcs8_der (sw_ed w) d bs))"
  "SigningKey_from_pkcs8_der w (Scheme_MlDsa ps) bs =
     run_map Sk_MlDsa (run_result (dsa_result Sig_InvalidPrivateKey (MlDsa_from_pkcs8_der (sw_dsa w) (sw_der w) (sw_dsa_algorithm w) ps bs)))"
  "is_rsa alg \<Longrightarrow> SigningKey_from_pkcs8_der w alg bs =
     run_map Sk_Rsa (run_rsa (import_pkcs8 (sw_rsa_keys w) (sw_estimate w) (sw_os_rng w) bs))"
     apply (simp add: SigningKey_from_pkcs8_der_def)
    apply (cases d; simp add: SigningKey_from_pkcs8_der_def)
   apply (simp add: SigningKey_from_pkcs8_der_def)
  apply (cases alg; simp add: SigningKey_from_pkcs8_der_def is_rsa_def)
  done

lemma run_op_ok [simp]:
  "run_op (map_errE g m) s = Some (Inr y, s') \<longleftrightarrow> m s = (Inr y, s')"
  by (auto simp: run_op_def map_errE_def split: sum.splits prod.splits)


lemma op_ok_iffs:
  "bindE m f s = (Inr y, s'') \<longleftrightarrow> (\<exists>x s'. m s = (Inr x, s') \<and> f x s' = (Inr y, s''))"
  "map_errE g m' s = (Inr y, s'') \<longleftrightarrow> m' s = (Inr y, s'')"
  "ok_orE e v s = (Inr y, s'') \<longleftrightarrow> v = Some y \<and> s'' = s"
  "okE x' s = (Inr y, s'') \<longleftrightarrow> y = x' \<and> s'' = s"
  "liftE r s = (Inr y, s'') \<longleftrightarrow> r = Inr y \<and> s'' = s"
  by (auto simp: bindE_def map_errE_def ok_orE_def okE_def errE_def liftE_def split: sum.splits prod.splits option.splits)

lemma ec_wfI: "ec_secret (sw_ec w) c k \<Longrightarrow> key_wf w (Sk_Ec (backend c k)) \<and> EcKey_curve (backend c k) = c"
  by auto

lemma ec_wf:
  "EcKey_generate w c s = Some (Inr key, s') \<Longrightarrow> key_wf w (Sk_Ec key) \<and> EcKey_curve key = c"
  "EcKey_from_serialized (sw_ec w) c bs = Inr key \<Longrightarrow> key_wf w (Sk_Ec key) \<and> EcKey_curve key = c"
  "EcKey_from_pkcs8_der (sw_ec w) c bs = Inr key \<Longrightarrow> key_wf w (Sk_Ec key) \<and> EcKey_curve key = c"
proof -
  show "key_wf w (Sk_Ec key) \<and> EcKey_curve key = c" if g: "EcKey_generate w c s = Some (Inr key, s')"
  proof -
    obtain k where k: "draws_secret (ec_from_slice (sw_ec w) c) (sw_fill w) (secret_length c) s (Inr k) s'" "key = backend c k"
      using g by (auto simp: generate_backend random_secret_iff)
    then have "ec_secret (sw_ec w) c k" using drawn_accepted by (fastforce simp: ec_secret_def)
    then show ?thesis using ec_wfI [of w c k] k(2) by simp
  qed
  show "key_wf w (Sk_Ec key) \<and> EcKey_curve key = c" if "EcKey_from_serialized (sw_ec w) c bs = Inr key"
    using that ec_wfI [of w c] by (auto simp only: backend_parsers ok_map_Inr ec_secret_def)
  show "key_wf w (Sk_Ec key) \<and> EcKey_curve key = c" if "EcKey_from_pkcs8_der (sw_ec w) c bs = Inr key"
    using that ec_wfI [of w c] by (auto simp only: backend_parsers ok_map_Inr ec_secret_def)
qed

lemma edwards_wf:
  "EdwardsKey_from_serialized (sw_ed w) d bs = Inr key \<Longrightarrow> key_wf w (Sk_Edwards key) \<and> EdwardsKey_curve key = d"
  "EdwardsKey_from_pkcs8_der (sw_ed w) d bs = Inr key \<Longrightarrow> key_wf w (Sk_Edwards key) \<and> EdwardsKey_curve key = d"
   apply (cases d; auto simp: ok_map_Inr result_iffs)
  apply (cases d; auto simp: ok_map_Inr)
  done

lemma edwards_generated:
  assumes "fill_ok (sw_fill w)" "EdwardsKey_generate (sw_ed w) (sw_fill w) d s = (Inr key, s')"
  shows "key_wf w (Sk_Edwards key) \<and> EdwardsKey_curve key = d"
proof (cases d)
  case Curve_Ed25519
  then obtain seed where "sw_fill w 32 s = (Inr seed, s')" "key = Curve25519 (ed25519_from_bytes (sw_ed w) seed)"
    using assms(2) by (auto simp: op_ok_iffs)
  moreover from this have "length seed = 32" using assms(1) unfolding fill_ok_def by blast
  ultimately show ?thesis using Curve_Ed25519 by auto
next
  case Curve_Ed448
  then show ?thesis using assms(2) by (auto simp: op_ok_iffs)
qed

lemma ml_dsa_generated:
  assumes "ml_dsa_ok crate" "fill_ok fill" "MlDsa_generate crate fill ps s = (Inr key, s')"
  shows "\<exists>stored. MlDsa_from_serialized crate ps stored = Some (Inr key)"
proof -
  obtain seed where seed: "fill 32 s = (Inr seed, s')" "MlDsa_from_seed_slice crate ps seed = Inr key"
    using assms(3) by (auto simp: MlDsa_generate_def bindE_def map_errE_def liftE_def split: sum.splits prod.splits)
  have "length seed = 32" using assms(2) seed(1) unfolding fill_ok_def by blast
  then show ?thesis using seeded_key_stored [OF assms(1)] seed(2) by (auto simp: from_seed_slice_eq)
qed

lemma ml_dsa_from_document:
  assumes "ml_dsa_ok crate" "MlDsa_from_pkcs8_der crate der algorithm ps bs = Some (Inr key)"
  shows "\<exists>stored. MlDsa_from_serialized crate ps stored = Some (Inr key)"
proof -
  obtain decoded :: PrivateKey where "(case pk_encoding decoded of
         Enc_Seed seed \<Rightarrow> liftP (MlDsa_from_seed_slice crate ps seed)
       | Enc_Expanded expanded \<Rightarrow> MlDsa_from_expanded crate ps expanded
       | Enc_Both seed expanded \<Rightarrow> liftP (MlDsa_from_seed_and_expanded crate ps seed expanded)) = Some (Inr key)"
    using assms(2) unfolding MlDsa_from_pkcs8_der_def bindP_ok liftP_ok bindR_Inr_iff sum.inject by blast
  then consider seed where "length seed = 32" "key = wrap_key ps (Seeded (md_from_seed crate ps seed))"
    | expanded where "importable crate ps expanded" "key = imported_key crate ps expanded"
    by (cases "pk_encoding decoded")
      (auto simp: liftP_ok from_seed_slice_eq from_expanded_ok [OF assms(1)] MlDsa_from_seed_and_expanded_def result_iffs split: if_splits)
  then show ?thesis using seeded_key_stored [OF assms(1)] expanded_key_stored [OF assms(1)] by cases blast+
qed

lemma ml_dsa_wf:
  assumes "ml_dsa_ok (sw_dsa w)"
  shows "\<exists>stored. MlDsa_from_serialized (sw_dsa w) ps stored = Some (Inr key) \<Longrightarrow> key_wf w (Sk_MlDsa key) \<and> MlDsa_parameter_set key = ps"
  using stored_key_restored [OF assms] by auto

text \<open>Every key that can exist is well formed.\<close>

lemma generate_wf:
  assumes "ml_dsa_ok (sw_dsa w)" "fill_ok (sw_fill w)" "SigningKey_generate w alg s = Some (Inr key, s')"
  shows "key_wf w key"
proof (cases alg rule: scheme_cases)
  case (ml_dsa ps)
  then show ?thesis
    using assms(3) ml_dsa_wf [OF assms(1)] ml_dsa_generated [OF assms(1,2)] by (clarsimp simp: generate_schemes) blast
qed (use assms(3) ec_wf(1) [of w] edwards_generated [OF assms(2)] in \<open>auto simp: generate_schemes SigningKey_generate_rsa_def\<close>)

lemma restore_wf:
  assumes "ml_dsa_ok (sw_dsa w)" "SigningKey_from_serialized w alg bs s = Some (Inr key, s')"
  shows "key_wf w key"
proof (cases alg rule: scheme_cases)
  case (ml_dsa ps)
  then show ?thesis using assms(2) ml_dsa_wf [OF assms(1)] by (clarsimp simp: restore_schemes) blast
qed (use assms(2) ec_wf(2) [of w] edwards_wf(1) [of w] in \<open>auto simp: restore_schemes\<close>)

lemma import_wf:
  assumes "ml_dsa_ok (sw_dsa w)" "SigningKey_from_pkcs8_der w alg bs s = Some (Inr key, s')"
  shows "key_wf w key"
proof (cases alg rule: scheme_cases)
  case (ml_dsa ps)
  then show ?thesis
    using assms(2) ml_dsa_wf [OF assms(1)] ml_dsa_from_document [OF assms(1)] by (clarsimp simp: import_schemes) blast
qed (use assms(2) ec_wf(3) [of w] edwards_wf(2) [of w] in \<open>auto simp: import_schemes\<close>)

lemma held_wf: "held w key \<Longrightarrow> ml_dsa_ok (sw_dsa w) \<Longrightarrow> fill_ok (sw_fill w) \<Longrightarrow> key_wf w key"
  by (induction rule: held.induct)
    (auto simp: SigningKey_generate_rsa_def SigningKey_from_rsa_primes_def SigningKey_restore_rsa_primes_def
      SigningKey_from_rsa_components_def SigningKey_restore_rsa_pkcs1_def dest: generate_wf restore_wf import_wf)



section \<open>The identity of a key\<close>

text \<open>Two kinds are equal, except that an RSA key is admitted by its size in whole bytes.\<close>

fun kind_matches :: "KeyKind \<Rightarrow> KeyKind \<Rightarrow> bool" where
  "kind_matches (Kind_Rsa m) (Kind_Rsa bits) \<longleftrightarrow> bits = 8 * div_ceil m 8"
| "kind_matches actual asked \<longleftrightarrow> actual = asked"

lemma ml_dsa_set_kept:
  "MlDsa_from_serialized crate ps bs = Some (Inr key) \<Longrightarrow> MlDsa_parameter_set key = ps"
  "MlDsa_generate crate fill ps s = (Inr key, s') \<Longrightarrow> MlDsa_parameter_set key = ps"
  by (auto simp: MlDsa_from_serialized_def MlDsa_generate_def op_ok_iffs from_expanded_eq bindP_ok liftP_ok from_seed_slice_eq
      MlDsa_from_seed_and_expanded_def result_iffs split: if_splits)

lemma ml_dsa_document_set:
  assumes "MlDsa_from_pkcs8_der crate der algorithm ps bs = Some (Inr key)"
  shows "MlDsa_parameter_set key = ps"
proof -
  obtain decoded :: PrivateKey where "(case pk_encoding decoded of
         Enc_Seed seed \<Rightarrow> liftP (MlDsa_from_seed_slice crate ps seed)
       | Enc_Expanded expanded \<Rightarrow> MlDsa_from_expanded crate ps expanded
       | Enc_Both seed expanded \<Rightarrow> liftP (MlDsa_from_seed_and_expanded crate ps seed expanded)) = Some (Inr key)"
    using assms unfolding MlDsa_from_pkcs8_der_def bindP_ok liftP_ok bindR_Inr_iff sum.inject by blast
  then show ?thesis
    by (cases "pk_encoding decoded")
      (auto simp: liftP_ok from_seed_slice_eq from_expanded_eq bindP_ok MlDsa_from_seed_and_expanded_def result_iffs split: if_splits)
qed

lemma check_rsa_size_ok:
  "check_rsa_size w bits key s = Some (Inr key', s') \<longleftrightarrow>
     key' = key \<and> s' = s \<and> (\<exists>n. SigningKey_rsa_size w key = Inr n \<and> checked_mul n 8 = Some bits)"
  by (auto simp: check_rsa_size_def split: if_splits)

lemma rsa_kind:
  assumes "SigningKey_rsa_size w key = Inr n" "checked_mul n 8 = Some bits"
  shows "kind_matches (SigningKey_key_kind w key) (Kind_Rsa bits)"
  using assms by (auto simp: SigningKey_rsa_size_def SigningKey_key_kind_def checked_mul_def key_size_def
      split: SoftwareSigningKey.splits if_splits)

lemma edwards_curve_generated: "EdwardsKey_generate ed fill d s = (Inr key, s') \<Longrightarrow> EdwardsKey_curve key = d"
  by (cases d) (auto simp: op_ok_iffs)

lemma restored_kind:
  "SigningKey_from_serialized_for_kind w kind bs s = Some (Inr key, s') \<Longrightarrow> kind_matches (SigningKey_key_kind w key) kind"
  by (cases kind)
    (auto simp: SigningKey_from_serialized_for_kind_def restore_schemes SigningKey_key_kind_def check_rsa_size_ok
      dest: ec_key_curve edwards_key_curve ml_dsa_set_kept intro: rsa_kind [unfolded SigningKey_key_kind_def])

lemma imported_kind:
  "SigningKey_from_pkcs8_der_for_kind w kind bs s = Some (Inr key, s') \<Longrightarrow> kind_matches (SigningKey_key_kind w key) kind"
  by (cases kind)
    (auto simp: SigningKey_from_pkcs8_der_for_kind_def import_schemes SigningKey_key_kind_def check_rsa_size_ok
      dest: ec_key_curve edwards_key_curve ml_dsa_document_set intro: rsa_kind [unfolded SigningKey_key_kind_def])

lemma generated_kind:
  "SigningKey_generate_for_kind w kind s = Some (Inr key, s') \<Longrightarrow> (\<And>bits. kind \<noteq> Kind_Rsa bits) \<Longrightarrow> SigningKey_key_kind w key = kind"
  by (cases kind)
    (auto simp: SigningKey_generate_for_kind_def generate_schemes SigningKey_key_kind_def
      dest: ec_key_curve edwards_curve_generated ml_dsa_set_kept)

text \<open>
  C26: A key has the identity it was asked for. Whatever the crates do, a key that is generated, restored or imported for a curve or an
  ML-DSA parameter set reports exactly that kind, so no operation can turn a key of one family into another. For RSA the
  kind is compared by the size of the modulus in whole bytes: the kind asked for is the bit length of the modulus rounded up to a
  multiple of eight, so a modulus whose bit length is not such a multiple is never restored under the kind the key
  itself reports.
\<close>

theorem key_kind_kept:
  assumes "SigningKey_from_serialized_for_kind w kind bs s = Some (Inr key, s')
     \<or> SigningKey_from_pkcs8_der_for_kind w kind bs s = Some (Inr key, s')
     \<or> SigningKey_generate_for_kind w kind s = Some (Inr key, s') \<and> (\<forall>bits. kind \<noteq> Kind_Rsa bits)"
  shows "kind_matches (SigningKey_key_kind w key) kind
     \<and> (\<forall>m. SigningKey_key_kind w key = Kind_Rsa m \<and> kind = Kind_Rsa m \<longrightarrow> m mod 8 = 0)"
proof -
  have k: "kind_matches (SigningKey_key_kind w key) kind"
    using assms restored_kind [of w kind bs s key s'] imported_kind [of w kind bs s key s'] generated_kind [of w kind s key s'] by (cases kind) auto
  moreover have "m mod 8 = 0" if "SigningKey_key_kind w key = Kind_Rsa m" "kind = Kind_Rsa m" for m
    using k that by simp (metis mod_mult_self1_is_0)
  ultimately show ?thesis by blast
qed



section \<open>Storage\<close>

text \<open>What the crates promise of storage: a secret that was parsed is parsed again from what is written for it.\<close>

definition ec_stores :: "'o ec_crates \<Rightarrow> bool" where
  "ec_stores ec \<longleftrightarrow> (\<forall>c k. ec_secret ec c k \<longrightarrow> ec_from_slice ec c (ec_to_bytes ec c k) = Some k
     \<and> (\<forall>der. ec_to_pkcs8 ec c k = Some der \<longrightarrow> ec_from_pkcs8 ec c der = Some k))"

definition edwards_stores :: "'o edwards_crates \<Rightarrow> bool" where
  "edwards_stores ed \<longleftrightarrow>
     (\<forall>k. edwards_secret ed (Curve25519 k) \<longrightarrow> length (ed25519_to_bytes ed k) = 32 \<and> ed25519_from_bytes ed (ed25519_to_bytes ed k) = k
        \<and> (\<forall>der. ed25519_to_pkcs8 ed k = Some der \<longrightarrow> ed25519_from_pkcs8 ed der = Some k))
     \<and> (\<forall>k. edwards_secret ed (Curve448 k) \<longrightarrow> ed448_try_from ed (ed448_to_bytes ed k) = Some k
        \<and> (\<forall>der. ed448_to_pkcs8 ed k = Some der \<longrightarrow> ed448_from_pkcs8 ed der = Some k))"

definition storage_ok where
  "storage_ok w \<longleftrightarrow> ec_stores (sw_ec w) \<and> edwards_stores (sw_ed w) \<and> ml_dsa_ok (sw_dsa w) \<and> fill_ok (sw_fill w)
     \<and> der_ok (sw_der w) \<and> (\<forall>ps. ai_parameters (sw_dsa_algorithm w ps) = None)
     \<and> (\<forall>k der. rsa_to_pkcs8 (sw_rsa w) k = Some der \<longrightarrow> from_pkcs8_der (sw_rsa_keys w) der = Some k)"

fun is_rsa_key :: "('o, 'k, 'dk, 'dx, 'dv) SoftwareSigningKey \<Rightarrow> bool" where
  "is_rsa_key (Sk_Rsa _) = True"
| "is_rsa_key _ = False"

lemma ec_stored:
  assumes "storage_ok w" "key_wf w (Sk_Ec k)"
  shows "EcKey_from_serialized (sw_ec w) (EcKey_curve k) (EcKey_serialized (sw_ec w) k) = Inr k"
    "EcKey_to_pkcs8_der (sw_ec w) k = Inr der \<Longrightarrow> EcKey_from_pkcs8_der (sw_ec w) (EcKey_curve k) der = Inr k"
proof -
  obtain c v where v: "k = backend c v" "ec_secret (sw_ec w) c v" using assms(2) by auto
  have st: "ec_stores (sw_ec w)" using assms(1) by (simp add: storage_ok_def)
  show "EcKey_from_serialized (sw_ec w) (EcKey_curve k) (EcKey_serialized (sw_ec w) k) = Inr k"
    using st v by (simp add: ec_stores_def backend_parsers)
  show "EcKey_from_pkcs8_der (sw_ec w) (EcKey_curve k) der = Inr k" if "EcKey_to_pkcs8_der (sw_ec w) k = Inr der"
    using st v that by (simp add: ec_stores_def backend_parsers ok_orR_Inr_iff)
qed

lemma edwards_stored:
  assumes "storage_ok w" "key_wf w (Sk_Edwards k)"
  shows "EdwardsKey_from_serialized (sw_ed w) (EdwardsKey_curve k) (EdwardsKey_serialized (sw_ed w) k) = Inr k"
    "EdwardsKey_to_pkcs8_der (sw_ed w) k = Inr der \<Longrightarrow> EdwardsKey_from_pkcs8_der (sw_ed w) (EdwardsKey_curve k) der = Inr k"
proof -
  have st: "edwards_stores (sw_ed w)" "edwards_secret (sw_ed w) k" using assms by (simp_all add: storage_ok_def)
  show "EdwardsKey_from_serialized (sw_ed w) (EdwardsKey_curve k) (EdwardsKey_serialized (sw_ed w) k) = Inr k"
  proof (cases k)
    case (Curve25519 x)
    have "length (ed25519_to_bytes (sw_ed w) x) = 32" "ed25519_from_bytes (sw_ed w) (ed25519_to_bytes (sw_ed w) x) = x"
      using st unfolding edwards_stores_def Curve25519 by blast+
    then show ?thesis by (simp add: Curve25519)
  next
    case (Curve448 x)
    have "ed448_try_from (sw_ed w) (ed448_to_bytes (sw_ed w) x) = Some x" using st unfolding edwards_stores_def Curve448 by blast
    then show ?thesis by (simp add: Curve448)
  qed
  show "EdwardsKey_from_pkcs8_der (sw_ed w) (EdwardsKey_curve k) der = Inr k" if d: "EdwardsKey_to_pkcs8_der (sw_ed w) k = Inr der"
  proof (cases k)
    case (Curve25519 x)
    have "ed25519_from_pkcs8 (sw_ed w) der = Some x"
      using st d unfolding edwards_stores_def Curve25519 EdwardsKey_to_pkcs8_der.simps ok_orR_Inr_iff by blast
    then show ?thesis by (simp add: Curve25519)
  next
    case (Curve448 x)
    have "ed448_from_pkcs8 (sw_ed w) der = Some x"
      using st d unfolding edwards_stores_def Curve448 EdwardsKey_to_pkcs8_der.simps ok_orR_Inr_iff by blast
    then show ?thesis by (simp add: Curve448)
  qed
qed

lemma ml_dsa_stored:
  assumes "storage_ok w" "key_wf w (Sk_MlDsa k)"
  shows "MlDsa_from_serialized (sw_dsa w) (MlDsa_parameter_set k) (MlDsa_serialized (sw_dsa w) k) = Some (Inr k)"
    "MlDsa_to_pkcs8_der (sw_dsa w) (sw_der w) (sw_dsa_algorithm w) k = Inr der
       \<Longrightarrow> MlDsa_from_pkcs8_der (sw_dsa w) (sw_der w) (sw_dsa_algorithm w) (MlDsa_parameter_set k) der = Some (Inr k)"
proof -
  have ok: "ml_dsa_ok (sw_dsa w)" "der_ok (sw_der w)" "\<And>ps. ai_parameters (sw_dsa_algorithm w ps) = None"
    using assms(1) by (simp_all add: storage_ok_def)
  obtain stored where st: "MlDsa_from_serialized (sw_dsa w) (MlDsa_parameter_set k) stored = Some (Inr k)" using assms(2) by auto
  show "MlDsa_from_serialized (sw_dsa w) (MlDsa_parameter_set k) (MlDsa_serialized (sw_dsa w) k) = Some (Inr k)"
    using stored_key_restored [OF ok(1) st] by blast
  show "MlDsa_from_pkcs8_der (sw_dsa w) (sw_der w) (sw_dsa_algorithm w) (MlDsa_parameter_set k) der = Some (Inr k)"
    if "MlDsa_to_pkcs8_der (sw_dsa w) (sw_der w) (sw_dsa_algorithm w) k = Inr der"
    using ok(2,3,1) st that by (rule ml_dsa_document)
qed

lemma rsa_restored:
  assumes "storage_ok w" "SigningKey_serialized w (Sk_Rsa k) = Inr bs" "8 * div_ceil m 8 < usize_bound"
    "SigningKey_key_kind w (Sk_Rsa k) = Kind_Rsa m"
  shows "SigningKey_from_serialized_for_kind w (Kind_Rsa m) bs s =
    (if m mod 8 = 0 then Some (Inr (Sk_Rsa (k\<lparr>rk_validated := False\<rparr>)), s) else Some (Inl (Err Sig_InvalidPrivateKey), s))"
proof -
  let ?k = "k\<lparr>rk_validated := False\<rparr>"
  have "from_pkcs8_der (sw_rsa_keys w) bs = Some (rk_key k)"
    using assms(1,2) by (simp add: storage_ok_def SigningKey_serialized_def ok_orR_Inr_iff)
  then have r: "SigningKey_from_serialized w RsaPssSha256 bs s = Some (Inr (Sk_Rsa ?k), s)"
    by (simp add: restore_schemes is_rsa_def op_ok_iffs restore_pkcs8_def)
  have n: "SigningKey_rsa_size w (Sk_Rsa ?k) = Inr (div_ceil m 8)"
    using assms(4) by (simp add: SigningKey_rsa_size_def SigningKey_key_kind_def key_size_def)
  have "8 * div_ceil m 8 = m \<longleftrightarrow> m mod 8 = 0" by (auto simp: div_ceil_def)
  then have "checked_mul (div_ceil m 8) 8 = Some m \<longleftrightarrow> m mod 8 = 0" using assms(3) by (auto simp: checked_mul_def mult.commute)
  then show ?thesis
    by (auto simp: SigningKey_from_serialized_for_kind_def run_bind_def r check_rsa_size_def run_pure_def run_op_def n okE_def errE_def)
qed

text \<open>
  C25: Stored keys come back. For crates that parse again what they wrote: every key that generation, import or restoring
  ever returned, of an elliptic curve, an Edwards curve or ML-DSA, is serialized without an error and restored from its bytes under
  its own kind as the same key, without drawing randomness; and if it can be exported, importing the exported document
  gives the same key. An RSA key comes back as a key that still has to be validated, and only if the bit length
  of its modulus is a multiple of eight; otherwise its own kind is refused with \<open>InvalidPrivateKey\<close>.
\<close>

theorem signing_key_storage:
  assumes "held w key" "storage_ok w"
  shows "(\<not> is_rsa_key key \<longrightarrow>
        (\<exists>bs. SigningKey_serialized w key = Inr bs
           \<and> SigningKey_from_serialized_for_kind w (SigningKey_key_kind w key) bs s = Some (Inr key, s))
        \<and> (\<forall>der. SigningKey_to_pkcs8_der w key = Inr der \<longrightarrow>
             SigningKey_from_pkcs8_der_for_kind w (SigningKey_key_kind w key) der s' = Some (Inr key, s')))
    \<and> (\<forall>k bs m. key = Sk_Rsa k \<and> SigningKey_serialized w key = Inr bs \<and> SigningKey_key_kind w key = Kind_Rsa m
          \<and> 8 * div_ceil m 8 < usize_bound \<longrightarrow>
        SigningKey_from_serialized_for_kind w (Kind_Rsa m) bs s =
          (if m mod 8 = 0 then Some (Inr (Sk_Rsa (k\<lparr>rk_validated := False\<rparr>)), s) else Some (Inl (Err Sig_InvalidPrivateKey), s)))"
proof (intro conjI impI allI)
  have wf: "key_wf w key" using assms held_wf by (auto simp: storage_ok_def)
  assume n: "\<not> is_rsa_key key"
  show "\<exists>bs. SigningKey_serialized w key = Inr bs
      \<and> SigningKey_from_serialized_for_kind w (SigningKey_key_kind w key) bs s = Some (Inr key, s)"
    using n wf ec_stored(1) [OF assms(2)] edwards_stored(1) [OF assms(2)] ml_dsa_stored(1) [OF assms(2)]
    by (cases key) (simp_all del: key_wf.simps add: SigningKey_serialized_def SigningKey_from_serialized_for_kind_def SigningKey_key_kind_def restore_schemes)
  show "SigningKey_from_pkcs8_der_for_kind w (SigningKey_key_kind w key) der s' = Some (Inr key, s')"
    if "SigningKey_to_pkcs8_der w key = Inr der" for der
    using that n wf ec_stored(2) [OF assms(2)] edwards_stored(2) [OF assms(2)] ml_dsa_stored(2) [OF assms(2)]
    by (cases key) (simp_all del: key_wf.simps add: SigningKey_to_pkcs8_der_def SigningKey_from_pkcs8_der_for_kind_def SigningKey_key_kind_def
        import_schemes map_errR_Inr_iff)
next
  show "SigningKey_from_serialized_for_kind w (Kind_Rsa m) bs s =
      (if m mod 8 = 0 then Some (Inr (Sk_Rsa (k\<lparr>rk_validated := False\<rparr>)), s) else Some (Inl (Err Sig_InvalidPrivateKey), s))"
    if "key = Sk_Rsa k \<and> SigningKey_serialized w key = Inr bs \<and> SigningKey_key_kind w key = Kind_Rsa m
      \<and> 8 * div_ceil m 8 < usize_bound" for k bs m
    using that by (elim conjE) (rule rsa_restored [OF assms(2)], simp_all only:)
qed



section \<open>Signatures verify\<close>

text \<open>RSA: what a signing operation returned is accepted by the matching verification.\<close>

lemma private_then_public:
  assumes "rsa_pair_ok rsa key pub" "private_operation rsa key em = Inr sig"
  shows "length em \<le> key_size (priv_n rsa key)" "public_operation rsa pub sig = Inr (replicate (key_size (priv_n rsa key) - length em) 0 @ em)"
proof -
  have "length em \<le> key_size (priv_n rsa key)" "be_nat em < priv_n rsa key"
    using assms(2) by (simp_all add: private_operation_def Let_def result_iffs not_le)
  then show "length em \<le> key_size (priv_n rsa key)" "public_operation rsa pub sig = Inr (replicate (key_size (priv_n rsa key) - length em) 0 @ em)"
    using sign_then_open [OF assms(1), of em] assms(2) by auto
qed

lemma encoded_payload_length:
  assumes "payload \<noteq> []" "pkcs1v15_encoded_payload k payload = Inr em"
  shows "length em = k"
proof -
  have "length payload \<le> k - 11" using assms(2) by (simp add: pkcs1v15_encoded_payload_def result_iffs)
  moreover have "0 < length payload" using assms(1) by simp
  ultimately have "length payload + 11 \<le> k" by linarith
  then show ?thesis using pkcs1v15_encoded_form [of payload k] assms(2) by auto
qed

lemma pkcs1v15_signature_verifies:
  assumes "rsa_pair_ok rsa key pub" "rsa_sign_pkcs1v15_digest rsa key hash dig = Inr sig"
  shows "rsa_verify_pkcs1v15_digest rsa pub hash dig sig = Inr ()"
proof -
  have n: "priv_n rsa key = pub_n rsa pub" using assms(1) by (simp add: rsa_pair_ok_def)
  obtain payload em where p: "digest_info hash dig = Inr payload" "pkcs1v15_encoded_payload (key_size (pub_n rsa pub)) payload = Inr em"
      "private_operation rsa key em = Inr sig"
    using assms(2) n by (auto simp: rsa_sign_pkcs1v15_digest_def rsa_sign_pkcs1v15_payload_def result_iffs)
  have "payload \<noteq> []" using p(1) by (cases hash) (auto simp: digest_info_def result_iffs nist_hash_prefix_def)
  then have "length em = key_size (pub_n rsa pub)" using p(2) by (rule encoded_payload_length)
  then show ?thesis
    using p private_then_public [OF assms(1) p(3)] n by (simp add: rsa_verify_pkcs1v15_digest_def rsa_verify_pkcs1v15_payload_def)
qed

lemma pss_encoding_value:
  fixes fill :: "nat \<Rightarrow> ('s, 'e, bytes) op"
  assumes "hash_ok crates" "fill_ok fill" "div_ceil (bits - 1) 8 \<le> 2 ^ 32" "pss_encoded_digest crates fill bits p dig s = (Inr em, s')"
  shows "\<exists>salt. length salt = pss_salt_length p \<and> em = pss_encode crates p (bits - 1) dig salt
     \<and> length dig = output_length (pss_hash p) \<and> 1 \<le> bits \<and> output_length (pss_hash p) + pss_salt_length p + 2 \<le> div_ceil (bits - 1) 8"
proof -
  have g: "length dig = output_length (pss_hash p)" "1 \<le> bits"
      "output_length (pss_hash p) + pss_salt_length p + 2 \<le> div_ceil (bits - 1) 8"
    and f: "\<exists>salt s1. fill (pss_salt_length p) s = (Inr salt, s1)"
    using assms(4)
    by (auto simp: pss_encoded_digest_def op_ok_iffs rejectE_def Let_def result_iffs checked_sub_def usize_add_def not_less errE_def split: if_splits)
  obtain salt s1 where salt: "fill (pss_salt_length p) s = (Inr salt, s1)" using f by blast
  have len: "length salt = pss_salt_length p" using assms(2) salt unfolding fill_ok_def by blast
  define once :: "nat \<Rightarrow> ('s, 'e, bytes) op" where "once = (\<lambda>_ _. fill (pss_salt_length p) s)"
  have same: "bindE (map_errE h (fill (pss_salt_length p))) f s = bindE (map_errE h (once (pss_salt_length p))) f s" for h f
    by (simp add: bindE_def map_errE_def once_def)
  have sub: "checked_sub bits 1 = Some (bits - 1)" using g by (simp add: checked_sub_def)
  have add: "bindR (usize_add (output_length (pss_hash p)) (pss_salt_length p)) (\<lambda>n. usize_add n 2)
      = (Inr (output_length (pss_hash p) + pss_salt_length p + 2) :: nat rsa_result)"
    using g assms(3) by (simp add: usize_add_def usize_bound_def)
  have low: "\<not> div_ceil (bits - 1) 8 < output_length (pss_hash p) + pss_salt_length p + 2" using g by simp
  have "pss_encoded_digest crates fill bits p dig s = pss_encoded_digest crates once bits p dig s"
    unfolding pss_encoded_digest_def Let_def by (simp only: g(1) sub add low simp_thms rejectE_simps bindE_okE ok_orE_simps liftE_simps same)
  moreover have "returns (pss_encoded_digest crates once bits p dig) (pss_encode crates p (bits - 1) dig salt)"
    using g assms(3) len salt by (intro pss_encoded_returns [OF assms(1)]) (simp_all add: once_def)
  ultimately have "em = pss_encode crates p (bits - 1) dig salt" using assms(4) by (simp add: returns_def) (metis fst_conv sum.inject(2))
  then show ?thesis using g len by blast
qed

lemma pss_signature_verifies:
  assumes "rsa_pair_ok rsa key pub" "hash_ok crates" "fill_ok fill" "key_size (priv_n rsa key) \<le> 2 ^ 32"
    "rsa_sign_pss_digest rsa crates fill key p dig s = (Inr sig, s')"
  shows "rsa_verify_pss_digest rsa crates pub p dig sig = Inr ()"
proof -
  have n: "priv_n rsa key = pub_n rsa pub" using assms(1) by (simp add: rsa_pair_ok_def)
  let ?bits = "nat_bits (pub_n rsa pub)"
  obtain em s1 where em: "pss_encoded_digest crates fill ?bits p dig s = (Inr em, s1)" "private_operation rsa key em = Inr sig"
    using assms(5) n by (auto simp: rsa_sign_pss_digest_def op_ok_iffs)
  have "div_ceil (?bits - 1) 8 \<le> key_size (pub_n rsa pub)" unfolding key_size_def by (rule div_ceil_mono) simp_all
  then have small: "div_ceil (?bits - 1) 8 \<le> 2 ^ 32" using assms(4) n by simp
  show ?thesis
    using private_then_public(2) [OF assms(1) em(2)] pss_encoding_value [OF assms(2,3) small em(1)]
    by (auto simp: rsa_verify_pss_digest_def verify_pss_iff [OF assms(2) small])
qed


text \<open>
  What the crates promise of signatures: those of a secret verify under its own public key, normalizing keeps them valid,
  and encodings are read back. The public keys of Edwards secrets are canonical and not weak. The signatures that the
  crate \<open>ecdsa\<close> makes on brainpoolP512r1 satisfy the signing equation of SEC 1; they are verified by the code of this
  repository and not by the crate.
\<close>

definition ec_signs :: "'o ec_crates \<Rightarrow> bool" where
  "ec_signs ec \<longleftrightarrow>
     (\<forall>c k. ec_secret ec c k \<longrightarrow> (\<exists>v. ecdsa_key_from_sec1 ec c (ec_to_sec1 ec c (ec_public_key ec c k) False) = Some v
        \<and> (\<forall>m. ecdsa_verify ec c v m (ecdsa_sign ec c k m))
        \<and> (\<forall>d g. ecdsa_sign_prehash ec c k d = Some g \<longrightarrow> ecdsa_verify_prehash ec c v d g)))
     \<and> (\<forall>c g. ecdsa_from_slice ec c (ecdsa_to_bytes ec c g) = Some g)
     \<and> (\<forall>c v m g. ecdsa_verify ec c v m g \<longrightarrow> ecdsa_verify ec c v m (ecdsa_normalize_s ec c g))
     \<and> (\<forall>c v d g. ecdsa_verify_prehash ec c v d g \<longrightarrow> ecdsa_verify_prehash ec c v d (ecdsa_normalize_s ec c g))"

definition sec1_signature :: "curve_constants \<Rightarrow> nat \<Rightarrow> bytes \<Rightarrow> bytes \<Rightarrow> bool" where
  "sec1_signature cc d dig sig \<longleftrightarrow> (\<exists>k rx ry r s. cc_mul cc k (cc_generator cc) = Point rx ry \<and> r = nat rx mod cc_n cc
     \<and> r \<noteq> 0 \<and> 0 < s \<and> s < cc_n cc \<and> s * k mod cc_n cc = (digest_number (cc_n cc) dig + r * d) mod cc_n cc
     \<and> sig = be_bytes 64 r @ be_bytes 64 s)"

definition p512_signs where
  "p512_signs w \<longleftrightarrow> curve_ok brainpoolP512r1 \<and> inverse_ok (sw_mod_inverse w)
     \<and> cc_mul brainpoolP512r1 (cc_n brainpoolP512r1) (cc_generator brainpoolP512r1) = Infinity
     \<and> (\<forall>k. ec_secret (sw_ec w) EC_BrainpoolP512 k \<longrightarrow> (\<exists>d x y. cc_mul brainpoolP512r1 d (cc_generator brainpoolP512r1) = Point x y
        \<and> ec_to_sec1 (sw_ec w) EC_BrainpoolP512 (ec_public_key (sw_ec w) EC_BrainpoolP512 k) False
            = 0x04 # be_bytes 64 (nat x) @ be_bytes 64 (nat y)
        \<and> (\<forall>m. sec1_signature brainpoolP512r1 d (digest (sw_hash w) Sha512 m)
             (ecdsa_to_bytes (sw_ec w) EC_BrainpoolP512 (ecdsa_sign (sw_ec w) EC_BrainpoolP512 k m)))
        \<and> (\<forall>dig g. ecdsa_sign_prehash (sw_ec w) EC_BrainpoolP512 k dig = Some g \<longrightarrow>
             sec1_signature brainpoolP512r1 d dig (ecdsa_to_bytes (sw_ec w) EC_BrainpoolP512 g))))"

definition edwards_signs :: "'o edwards_crates \<Rightarrow> bool" where
  "edwards_signs ed \<longleftrightarrow>
     (\<forall>k. edwards_secret ed (Curve25519 k) \<longrightarrow> (\<exists>v. length (ed25519_verifying_key_bytes ed k) = 32
        \<and> ed25519_verifying_key ed (ed25519_verifying_key_bytes ed k) = Some v \<and> \<not> ed25519_is_weak ed v
        \<and> ed25519_compress ed v = ed25519_verifying_key_bytes ed k
        \<and> (\<forall>m. \<exists>g. ed25519_signature ed (ed25519_sign ed k m) = Some g \<and> ed25519_verify_strict ed v m g)))
     \<and> (\<forall>k. edwards_secret ed (Curve448 k) \<longrightarrow> (\<exists>v. length (ed448_verifying_key_bytes ed k) = 57
        \<and> ed448_verifying_key ed (ed448_verifying_key_bytes ed k) = Some v
        \<and> ed448_compress ed v = ed448_verifying_key_bytes ed k
        \<and> (\<forall>m. length (ed448_sign_raw ed k m) = 114 \<and> canonical_ed448_point ed (take 57 (ed448_sign_raw ed k m))
             \<and> (\<exists>g. ed448_signature ed (ed448_sign_raw ed k m) = Some g \<and> ed448_verify_raw ed v g m))))"

definition rsa_signs where
  "rsa_signs w k \<longleftrightarrow> hash_ok (sw_hash w) \<and> key_size (priv_n (sw_rsa_ops w) k) \<le> 2 ^ 32
     \<and> (\<exists>p. rsa_public_new (sw_rsa w) (priv_n (sw_rsa_keys w) k) (priv_e (sw_rsa_keys w) k) = Some p \<and> rsa_pair_ok (sw_rsa_ops w) k p)"

fun signing_ok where
  "signing_ok w (Sk_Ec key) \<longleftrightarrow> (if EcKey_curve key = EC_BrainpoolP512 then p512_signs w else ec_signs (sw_ec w))"
| "signing_ok w (Sk_Edwards key) \<longleftrightarrow> edwards_signs (sw_ed w)"
| "signing_ok w (Sk_Rsa key) \<longleftrightarrow> rsa_signs w (rk_key key)"
| "signing_ok w (Sk_MlDsa key) \<longleftrightarrow> ml_dsa_signs (sw_dsa w)"

lemma sec1_signature_verifies:
  assumes "curve_ok brainpoolP512r1" "inverse_ok mod_inverse" "cc_mul brainpoolP512r1 (cc_n brainpoolP512r1) (cc_generator brainpoolP512r1) = Infinity"
    "cc_mul brainpoolP512r1 d (cc_generator brainpoolP512r1) = Point x y" "sec1_signature brainpoolP512r1 d dig sig"
  shows "verify_prehash mod_inverse (0x04 # be_bytes 64 (nat x) @ be_bytes 64 (nat y)) dig sig = Inr ()"
proof -
  have b: "cc_p brainpoolP512r1 \<le> 256 ^ 64" "cc_n brainpoolP512r1 \<le> 256 ^ 64"
    unfolding brainpoolP512r1_def curve_constants.select_convs by simp_all
  obtain k rx ry r s where sg: "cc_mul brainpoolP512r1 k (cc_generator brainpoolP512r1) = Point rx ry" "r = nat rx mod cc_n brainpoolP512r1"
     "r \<noteq> 0" "0 < s" "s < cc_n brainpoolP512r1"
     "s * k mod cc_n brainpoolP512r1 = (digest_number (cc_n brainpoolP512r1) dig + r * d) mod cc_n brainpoolP512r1"
     "sig = be_bytes 64 r @ be_bytes 64 s"
    using assms(5) unfolding sec1_signature_def by blast
  show ?thesis unfolding verify_prehash_def sg(7) by (rule signed_verifies [OF assms(1,2) b assms(3,4) sg(1-6)])
qed

lemma p512_verifies:
  assumes "p512_signs w" "ec_secret (sw_ec w) EC_BrainpoolP512 k"
  shows "PublicKey_verify_message w (SigningKey_public_key w (Sk_Ec (backend EC_BrainpoolP512 k))) EcdsaBrainpoolP512Sha512 m
      (EcKey_sign_message (sw_ec w) (backend EC_BrainpoolP512 k) m) = Inr ()"
    "EcKey_sign_prehash (sw_ec w) (backend EC_BrainpoolP512 k) dig = Inr sig \<Longrightarrow>
      PublicKey_verify_prehash w (SigningKey_public_key w (Sk_Ec (backend EC_BrainpoolP512 k))) EcdsaBrainpoolP512Sha512 dig sig = Inr ()"
proof -
  note laws = assms(1) [unfolded p512_signs_def]
  obtain d x y where k: "cc_mul brainpoolP512r1 d (cc_generator brainpoolP512r1) = Point x y"
     "ec_to_sec1 (sw_ec w) EC_BrainpoolP512 (ec_public_key (sw_ec w) EC_BrainpoolP512 k) False = 0x04 # be_bytes 64 (nat x) @ be_bytes 64 (nat y)"
     "\<And>m. sec1_signature brainpoolP512r1 d (digest (sw_hash w) Sha512 m)
        (ecdsa_to_bytes (sw_ec w) EC_BrainpoolP512 (ecdsa_sign (sw_ec w) EC_BrainpoolP512 k m))"
     "\<And>dig g. ecdsa_sign_prehash (sw_ec w) EC_BrainpoolP512 k dig = Some g \<Longrightarrow>
        sec1_signature brainpoolP512r1 d dig (ecdsa_to_bytes (sw_ec w) EC_BrainpoolP512 g)"
    using laws assms(2) by blast
  note verifies = sec1_signature_verifies [of "sw_mod_inverse w" d x y, OF _ _ _ k(1)]
  show "PublicKey_verify_message w (SigningKey_public_key w (Sk_Ec (backend EC_BrainpoolP512 k))) EcdsaBrainpoolP512Sha512 m
      (EcKey_sign_message (sw_ec w) (backend EC_BrainpoolP512 k) m) = Inr ()"
    using verifies [OF _ _ _ k(3)] laws k(2) by (simp add: SigningKey_public_key_def verify_message_ec)
  show "PublicKey_verify_prehash w (SigningKey_public_key w (Sk_Ec (backend EC_BrainpoolP512 k))) EcdsaBrainpoolP512Sha512 dig sig = Inr ()"
    if sg: "EcKey_sign_prehash (sw_ec w) (backend EC_BrainpoolP512 k) dig = Inr sig"
  proof -
    obtain g where "ecdsa_sign_prehash (sw_ec w) EC_BrainpoolP512 k dig = Some g" "sig = ecdsa_to_bytes (sw_ec w) EC_BrainpoolP512 g"
      using sg by (auto simp: sign_ecdsa_prehash_def result_iffs)
    then show ?thesis using verifies [OF _ _ _ k(4)] laws k(2) by (simp add: SigningKey_public_key_def verify_prehash_ec)
  qed
qed


lemma ecdsa_verifies:
  assumes "ec_signs (sw_ec w)" "ec_secret (sw_ec w) c k" "c \<noteq> EC_BrainpoolP512"
  shows "PublicKey_verify_message w (SigningKey_public_key w (Sk_Ec (backend c k))) (Ec_signature_scheme c) m
      (EcKey_sign_message (sw_ec w) (backend c k) m) = Inr ()"
    "EcKey_sign_prehash (sw_ec w) (backend c k) dig = Inr sig \<Longrightarrow>
      PublicKey_verify_prehash w (SigningKey_public_key w (Sk_Ec (backend c k))) (Ec_signature_scheme c) dig sig = Inr ()"
proof -
  note laws = assms(1) [unfolded ec_signs_def]
  obtain v where v: "ecdsa_key_from_sec1 (sw_ec w) c (ec_to_sec1 (sw_ec w) c (ec_public_key (sw_ec w) c k) False) = Some v"
     "\<And>m. ecdsa_verify (sw_ec w) c v m (ecdsa_sign (sw_ec w) c k m)"
     "\<And>d g. ecdsa_sign_prehash (sw_ec w) c k d = Some g \<Longrightarrow> ecdsa_verify_prehash (sw_ec w) c v d g"
    using laws assms(2) by blast
  have enc: "\<And>g. ecdsa_from_slice (sw_ec w) c (ecdsa_to_bytes (sw_ec w) c g) = Some g" using laws by blast
  have norm: "\<And>m g. ecdsa_verify (sw_ec w) c v m g \<Longrightarrow> ecdsa_verify (sw_ec w) c v m (ecdsa_normalize_s (sw_ec w) c g)"
    "\<And>m g. ecdsa_verify_prehash (sw_ec w) c v m g \<Longrightarrow> ecdsa_verify_prehash (sw_ec w) c v m (ecdsa_normalize_s (sw_ec w) c g)"
    using laws by blast+
  show "PublicKey_verify_message w (SigningKey_public_key w (Sk_Ec (backend c k))) (Ec_signature_scheme c) m
      (EcKey_sign_message (sw_ec w) (backend c k) m) = Inr ()"
    using norm(1) [OF v(2)] by (simp add: SigningKey_public_key_def verify_message_ec assms(3) verify_ecdsa_def v(1) enc)
  show "PublicKey_verify_prehash w (SigningKey_public_key w (Sk_Ec (backend c k))) (Ec_signature_scheme c) dig sig = Inr ()"
    if sg: "EcKey_sign_prehash (sw_ec w) (backend c k) dig = Inr sig"
  proof -
    obtain g where "ecdsa_sign_prehash (sw_ec w) c k dig = Some g" "sig = ecdsa_to_bytes (sw_ec w) c g"
      using sg by (auto simp: sign_ecdsa_prehash_def result_iffs)
    then show ?thesis
      using norm(2) [OF v(3)] by (simp add: SigningKey_public_key_def verify_prehash_ec assms(3) verify_ecdsa_prehash_def v(1) enc)
  qed
qed

lemma edwards_verifies:
  assumes "edwards_signs (sw_ed w)" "edwards_secret (sw_ed w) k"
  shows "PublicKey_verify_message w (SigningKey_public_key w (Sk_Edwards k)) (Edwards_signature_scheme (EdwardsKey_curve k)) m
      (EdwardsKey_sign_message (sw_ed w) k m) = Inr ()"
proof (cases k)
  case (Curve25519 x)
  obtain v g where v: "length (ed25519_verifying_key_bytes (sw_ed w) x) = 32"
     "ed25519_verifying_key (sw_ed w) (ed25519_verifying_key_bytes (sw_ed w) x) = Some v" "\<not> ed25519_is_weak (sw_ed w) v"
     "ed25519_compress (sw_ed w) v = ed25519_verifying_key_bytes (sw_ed w) x"
     "ed25519_signature (sw_ed w) (ed25519_sign (sw_ed w) x m) = Some g" "ed25519_verify_strict (sw_ed w) v m g"
    using assms unfolding edwards_signs_def Curve25519 by blast
  then show ?thesis
    by (simp add: Curve25519 SigningKey_public_key_def verify_message_edwards verify_ed25519_message_def checked_ed25519_verifying_key_def)
next
  case (Curve448 x)
  obtain v g where v: "length (ed448_verifying_key_bytes (sw_ed w) x) = 57"
     "ed448_verifying_key (sw_ed w) (ed448_verifying_key_bytes (sw_ed w) x) = Some v"
     "ed448_compress (sw_ed w) v = ed448_verifying_key_bytes (sw_ed w) x"
     "length (ed448_sign_raw (sw_ed w) x m) = 114" "canonical_ed448_point (sw_ed w) (take 57 (ed448_sign_raw (sw_ed w) x m))"
     "ed448_signature (sw_ed w) (ed448_sign_raw (sw_ed w) x m) = Some g" "ed448_verify_raw (sw_ed w) v g m"
    using assms unfolding edwards_signs_def Curve448 by blast
  then show ?thesis
    by (simp add: Curve448 SigningKey_public_key_def verify_message_edwards verify_ed448_message_def checked_ed448_verifying_key_def)
qed

lemma rsa_prehash_verifies:
  assumes "rsa_pair_ok (sw_rsa_ops w) k p" "hash_ok (sw_hash w)" "fill_ok (sw_fill w)" "key_size (priv_n (sw_rsa_ops w) k) \<le> 2 ^ 32"
    "rsa_sign_prehash w alg k dig salt s = (Inr sig, s')"
  shows "verify_rsa_prehash w alg p dig sig salt = Inr ()"
proof -
  obtain hash pss where h: "rsa_profile alg = Some (hash, pss)"
    using assms(5) by (auto simp: rsa_sign_prehash_def op_ok_iffs)
  show ?thesis
  proof (cases pss)
    case True
    then show ?thesis
      using assms(5) pss_signature_verifies [OF assms(1-4)] by (auto simp: h rsa_sign_prehash_def verify_rsa_prehash_def op_ok_iffs)
  next
    case False
    then show ?thesis
      using assms(5) pkcs1v15_signature_verifies [OF assms(1)] by (auto simp: h rsa_sign_prehash_def verify_rsa_prehash_def op_ok_iffs)
  qed
qed

lemma rsa_verifies:
  assumes "rsa_signs w (rk_key key)" "fill_ok (sw_fill w)" "is_rsa alg"
  shows "rsa_sign_message w alg (rk_key key) m s = (Inr sig, s') \<Longrightarrow>
      PublicKey_verify_message w (SigningKey_public_key w (Sk_Rsa key)) alg m sig = Inr ()"
    "rsa_sign_prehash w alg (rk_key key) dig None s = (Inr sig, s') \<Longrightarrow>
      PublicKey_verify_prehash w (SigningKey_public_key w (Sk_Rsa key)) alg dig sig = Inr ()"
proof -
  obtain p where p: "rsa_public_new (sw_rsa w) (priv_n (sw_rsa_keys w) (rk_key key)) (priv_e (sw_rsa_keys w) (rk_key key)) = Some p"
    "rsa_pair_ok (sw_rsa_ops w) (rk_key key) p" "hash_ok (sw_hash w)" "key_size (priv_n (sw_rsa_ops w) (rk_key key)) \<le> 2 ^ 32"
    using assms(1) unfolding rsa_signs_def by blast
  note pre = rsa_prehash_verifies [OF p(2,3) assms(2) p(4)]
  have pub: "rsa_public_key (sw_rsa w) (to_bytes_be (priv_n (sw_rsa_keys w) (rk_key key))) (to_bytes_be (priv_e (sw_rsa_keys w) (rk_key key))) = Inr p"
    by (simp add: rsa_public_key_def be_nat_to_bytes_be p(1))
  show "PublicKey_verify_message w (SigningKey_public_key w (Sk_Rsa key)) alg m sig = Inr ()"
    if "rsa_sign_message w alg (rk_key key) m s = (Inr sig, s')"
    using that pre assms(3)
    by (auto simp: SigningKey_public_key_def verify_message_rsa pub rsa_sign_message_def verify_rsa_message_def op_ok_iffs)
  show "PublicKey_verify_prehash w (SigningKey_public_key w (Sk_Rsa key)) alg dig sig = Inr ()"
    if "rsa_sign_prehash w alg (rk_key key) dig None s = (Inr sig, s')"
    using that pre assms(3) by (auto simp: SigningKey_public_key_def verify_prehash_rsa pub)
qed

lemma ml_dsa_verifies:
  assumes "ml_dsa_ok (sw_dsa w)" "ml_dsa_signs (sw_dsa w)" "key_wf w (Sk_MlDsa key)" "MlDsa_sign_hedged (sw_dsa w) key m [] s = (Inr sig, s')"
  shows "PublicKey_verify_message w (SigningKey_public_key w (Sk_MlDsa key)) (Scheme_MlDsa (MlDsa_parameter_set key)) m sig = Inr ()"
proof -
  let ?c = "sw_dsa w" and ?ps = "MlDsa_parameter_set key"
  obtain stored where st: "MlDsa_from_serialized ?c ?ps stored = Some (Inr key)" using assms(3) by auto
  obtain material where key: "key = wrap_key ?ps material"
    "MlDsa_public_key ?c key = md_encode_vk ?c ?ps (md_verifying_key ?c ?ps (MlDsaKey_expanded_key ?c ?ps material))"
    using stored_key_public [OF assms(1) st] .
  have "MlDsa_sign ?c (wrap_key ?ps material) m [] HedgePreferred s = (Inr sig, s')"
    using assms(4) key(1) by (simp add: MlDsa_sign_hedged_def)
  then have "fst (sign_with ?c ?ps material m [] HedgePreferred s) = Inr sig" unfolding sign_wrapped by simp
  then obtain g where "md_decode_signature ?c ?ps sig = Some g"
      "md_verify_with_context ?c ?ps (md_verifying_key ?c ?ps (MlDsaKey_expanded_key ?c ?ps material)) m [] g"
    using sign_with_verifies [OF assms(1,2)] by blast
  moreover have "length (MlDsa_public_key ?c key) = md_vk_size ?c ?ps"
    "md_decode_vk ?c ?ps (MlDsa_public_key ?c key) = md_verifying_key ?c ?ps (MlDsaKey_expanded_key ?c ?ps material)"
    using assms(1) by (simp_all add: key(2) ml_dsa_ok_def)
  ultimately show ?thesis by (simp add: SigningKey_public_key_def verify_message_ml_dsa verify_ml_dsa_def)
qed

text \<open>Every family of keys.\<close>

lemma held_signatures_verify:
  assumes "held w key" "ml_dsa_ok (sw_dsa w)" "fill_ok (sw_fill w)" "signing_ok w key"
  shows "(SigningKey_sign_message w key alg m s = (Inr sig, s') \<longrightarrow>
       PublicKey_verify_message w (SigningKey_public_key w key) alg m (sig_bytes sig) = Inr ())
    \<and> (SigningKey_sign_prehash w key alg dig s = (Inr sig, s') \<longrightarrow>
       PublicKey_verify_prehash w (SigningKey_public_key w key) alg dig (sig_bytes sig) = Inr ())"
proof -
  have wf: "key_wf w key" using assms held_wf by blast
  show ?thesis
  proof (cases key)
    case (Sk_Ec k)
    obtain c v where v: "k = backend c v" "ec_secret (sw_ec w) c v" using wf Sk_Ec by auto
    show ?thesis
    proof (cases "c = EC_BrainpoolP512")
      case True
      then show ?thesis using assms(4) v(2) p512_verifies [of w v]
        by (auto simp: Sk_Ec v(1) SigningKey_sign_message_def SigningKey_sign_prehash_def op_ok_iffs errE_def map_errR_Inr_iff
            simp del: backend.simps backend_simps(4,5) EcKey_sign_message.simps EcKey_sign_prehash.simps split: if_splits)
    next
      case False
      then show ?thesis using assms(4) v(2) ecdsa_verifies [of w c v]
        by (auto simp: Sk_Ec v(1) SigningKey_sign_message_def SigningKey_sign_prehash_def op_ok_iffs errE_def map_errR_Inr_iff
            simp del: backend_simps(4,5) split: if_splits)
    qed
  next
    case (Sk_Edwards k)
    then show ?thesis using assms(4) wf edwards_verifies [of w k]
      by (auto simp: SigningKey_sign_message_def SigningKey_sign_prehash_def op_ok_iffs errE_def split: if_splits)
  next
    case (Sk_Rsa k)
    then show ?thesis using assms(4) rsa_verifies [of w k alg, OF _ assms(3)]
      by (auto simp: SigningKey_sign_message_def SigningKey_sign_prehash_def op_ok_iffs errE_def split: if_splits)
  next
    case (Sk_MlDsa k)
    then show ?thesis using assms(4) wf ml_dsa_verifies [of w k, OF assms(2)]
      by (auto simp: SigningKey_sign_message_def SigningKey_sign_prehash_def op_ok_iffs errE_def split: if_splits)
  qed
qed

text \<open>
  C24: Signatures verify. For crates whose own signatures verify: every signature that a key returned by generation, import
  or restoring makes of a message, under any scheme and with any random source, is accepted by verification of the message under the
  key's public key and the same scheme, and a signature of a digest likewise. On brainpoolP512r1, where verification is
  the repository's own, this rests on the signing equation of SEC 1 and on the curve. For RSA it covers both
  paddings and needs that the public modulus is one the crate accepts.
\<close>

theorem signatures_verify:
  assumes "held w key" "ml_dsa_ok (sw_dsa w)" "fill_ok (sw_fill w)" "signing_ok w key"
  shows "(SigningKey_sign_message w key alg m s = (Inr sig, s') \<longrightarrow>
       PublicKey_verify_message w (SigningKey_public_key w key) alg m (sig_bytes sig) = Inr ())
    \<and> (SigningKey_sign_prehash w key alg dig s = (Inr sig, s') \<longrightarrow>
       PublicKey_verify_prehash w (SigningKey_public_key w key) alg dig (sig_bytes sig) = Inr ())"
  using assms by (rule held_signatures_verify)



section \<open>Stand-in crates and witnesses\<close>

text \<open>A secret is its own bytes and public key, and a signature appends the message to the secret.\<close>

definition sample_ec :: "bytes ec_crates" where
  "sample_ec =
     \<lparr> ec_from_slice = (\<lambda>c bs. if length bs = secret_length c then Some bs else None), ec_to_bytes = (\<lambda>c k. k),
       ec_from_pkcs8 = (\<lambda>c bs. if length bs = secret_length c then Some bs else None), ec_to_pkcs8 = (\<lambda>c k. Some k),
       ec_public_key = (\<lambda>c k. k), ec_to_sec1 = (\<lambda>c v _. v), ec_public_from_sec1 = (\<lambda>c. Some),
       ec_diffie_hellman = (\<lambda>c k v. k), ecdsa_sign = (\<lambda>c k m. k @ m), ecdsa_sign_prehash = (\<lambda>c k m. Some (k @ m)),
       ecdsa_to_bytes = (\<lambda>c g. g), ecdsa_from_slice = (\<lambda>c. Some), ecdsa_to_der = (\<lambda>c g. g), ecdsa_normalize_s = (\<lambda>c g. g),
       ecdsa_key_from_sec1 = (\<lambda>c. Some), ecdsa_verify = (\<lambda>c v m g. g = v @ m), ecdsa_verify_prehash = (\<lambda>c v m g. g = v @ m) \<rparr>"

definition sample_ed :: "bytes edwards_crates" where
  "sample_ed =
     \<lparr> ed25519_from_bytes = (\<lambda>bs. bs), ed25519_to_bytes = (\<lambda>k. k),
       ed25519_from_pkcs8 = (\<lambda>bs. if length bs = 32 then Some bs else None), ed25519_to_pkcs8 = Some,
       ed25519_verifying_key_bytes = (\<lambda>k. k), ed25519_sign = (\<lambda>k m. k @ m), ed25519_verifying_key = Some,
       ed25519_is_weak = (\<lambda>_. False), ed25519_compress = (\<lambda>v. v), ed25519_signature = Some,
       ed25519_verify_strict = (\<lambda>v m g. g = v @ m),
       ed448_try_from = (\<lambda>bs. if length bs = 57 then Some bs else None), ed448_to_bytes = (\<lambda>k. k),
       ed448_from_pkcs8 = (\<lambda>bs. if length bs = 57 then Some bs else None), ed448_to_pkcs8 = Some,
       ed448_verifying_key_bytes = (\<lambda>k. k), ed448_sign_raw = (\<lambda>k m. k @ resize 57 0 m), ed448_verifying_key = Some,
       ed448_compress = (\<lambda>v. v), ed448_decompress = Some, ed448_is_identity = (\<lambda>_. False), ed448_point_compress = (\<lambda>v. v),
       ed448_signature = Some, ed448_verify_raw = (\<lambda>v g m. g = v @ resize 57 0 m) \<rparr>"

definition sample_rsa_signing :: "(nat, nat) rsa_signing_crate" where
  "sample_rsa_signing =
     \<lparr> priv_n = (\<lambda>k. k), pub_n = (\<lambda>p. p), rsa_decrypt_and_check = (\<lambda>k m. Some m), rsa_encrypt = (\<lambda>p m. Some m),
       decrypt_blinded_pkcs1v15 = (\<lambda>k c. None), priv_e = (\<lambda>_. 3), priv_d = (\<lambda>_. 3), priv_primes = (\<lambda>_. []), pub_e = (\<lambda>_. 3),
       from_p_q = (\<lambda>_ _ _. None), from_components = (\<lambda>_ _ _ _. None), precompute = Some,
       from_pkcs8_der = (\<lambda>bs. Some (be_nat bs)), from_pkcs1_der = (\<lambda>_. None), new_with_max_size = (\<lambda>n e _. Some n),
       rsa_public_new = (\<lambda>n e. Some n), rsa_to_pkcs8 = (\<lambda>k. Some (to_bytes_be k)),
       rsa_dp = (\<lambda>_. None), rsa_dq = (\<lambda>_. None), rsa_qinv = (\<lambda>_. None) \<rparr>"

definition sample_world :: "(bytes, nat, nat, bytes, bytes, bytes, bytes, byte, bytes, unit, unit) signing_world" where
  "sample_world =
     \<lparr> sw_ec = sample_ec, sw_ed = sample_ed, sw_rsa = sample_rsa_signing, sw_hash = sample_hashes, sw_dsa = sample_ml_dsa,
       sw_der = sample_der, sw_dsa_algorithm = (\<lambda>_. sample_algorithm), sw_mod_inverse = sample_inverse,
       sw_fill = (\<lambda>n. okE (replicate n 1)), sw_estimate = (\<lambda>_. 16), sw_os_rng = (\<lambda>n. okE (replicate n 1)),
       sw_new_key = (\<lambda>_. errE ()) \<rparr>"

lemma sample_world_simps [simp]:
  "sw_ec sample_world = sample_ec" "sw_ed sample_world = sample_ed" "sw_dsa sample_world = sample_ml_dsa"
  "sw_fill sample_world = (\<lambda>n. okE (replicate n 1))" "sw_rsa sample_world = sample_rsa_signing" "sw_der sample_world = sample_der"
  "sw_dsa_algorithm sample_world ps = sample_algorithm"
  by (simp_all add: sample_world_def)

lemma sample_fill_ok: "fill_ok (sw_fill sample_world)"
  by (simp add: fill_ok_def okE_def)

lemma sample_storage: "storage_ok sample_world"
proof -
  have "ec_stores sample_ec" by (auto simp: ec_stores_def ec_secret_def sample_ec_def split: if_splits)
  moreover have "edwards_stores sample_ed" by (auto simp: edwards_stores_def sample_ed_def split: if_splits)
  ultimately show ?thesis
    using sample_fill_ok sample_der_ok sample_ml_dsa_ok(1)
    by (simp add: storage_ok_def sample_algorithm_def sample_rsa_signing_def sw_rsa_keys_def rsa_key_crate.truncate_def be_nat_to_bytes_be)
qed

lemma sample_held: "held sample_world (Sk_Ec (Back_P256 (replicate 32 1)))"
  by (rule held.restored [of _ EcdsaP256Sha256 "replicate 32 1" "()" _ "()"])
    (simp add: restore_schemes(1) [where c = EC_P256, simplified] sample_ec_def)

text \<open>A modulus of fifteen bits is restored as a key of sixteen.\<close>

theorem key_kind_kept_witness:
  "\<exists>key. SigningKey_from_serialized_for_kind sample_world (Kind_Rsa 16) [0x7f, 0xff] () = Some (Inr key, ())
     \<and> SigningKey_key_kind sample_world key = Kind_Rsa 15
     \<and> kind_matches (SigningKey_key_kind sample_world key) (Kind_Rsa 16)"
proof -
  let ?key = "Sk_Rsa \<lparr> rk_key = 0x7fff, rk_validated = False \<rparr> :: (bytes, nat, bytes, bytes, byte) SoftwareSigningKey"
  have k: "SigningKey_key_kind sample_world ?key = Kind_Rsa 15"
    by (simp add: SigningKey_key_kind_def sw_rsa_keys_def rsa_key_crate.truncate_def sample_rsa_signing_def nat_bits.simps)
  have "SigningKey_from_serialized_for_kind sample_world (Kind_Rsa 16) [0x7f, 0xff] () = Some (Inr ?key, ())"
    by (simp add: SigningKey_from_serialized_for_kind_def restore_schemes is_rsa_def op_ok_iffs restore_pkcs8_def sw_rsa_keys_def
        rsa_key_crate.truncate_def sample_rsa_signing_def check_rsa_size_ok SigningKey_rsa_size_def key_size_def nat_bits.simps div_ceil_def
        checked_mul_def usize_bound_def be_nat_def)
  then show ?thesis using key_kind_kept [of sample_world "Kind_Rsa 16" "[0x7f, 0xff]" "()" ?key "()"] k by blast
qed

theorem signing_key_storage_witness:
  "\<exists>bs. SigningKey_serialized sample_world (Sk_Ec (Back_P256 (replicate 32 1))) = Inr bs
     \<and> SigningKey_from_serialized_for_kind sample_world (Kind_Ec EC_P256) bs () = Some (Inr (Sk_Ec (Back_P256 (replicate 32 1))), ())"
  using signing_key_storage [OF sample_held sample_storage, where s = "()"] by (simp add: SigningKey_key_kind_def)

theorem signatures_verify_witness:
  "\<exists>sig. SigningKey_sign_message sample_world (Sk_Ec (Back_P256 (replicate 32 1))) EcdsaP256Sha256 [4] () = (Inr sig, ())
     \<and> PublicKey_verify_message sample_world (SigningKey_public_key sample_world (Sk_Ec (Back_P256 (replicate 32 1)))) EcdsaP256Sha256 [4]
        (sig_bytes sig) = Inr ()"
proof -
  have "ec_signs sample_ec" by (auto simp: ec_signs_def sample_ec_def)
  then have ok: "signing_ok sample_world (Sk_Ec (Back_P256 (replicate 32 1)))" by simp
  obtain sig where "SigningKey_sign_message sample_world (Sk_Ec (Back_P256 (replicate 32 1))) EcdsaP256Sha256 [4] () = (Inr sig, ())"
    by (simp add: SigningKey_sign_message_def bindE_def okE_def)
  then show ?thesis
    using signatures_verify [OF sample_held _ sample_fill_ok ok, of EcdsaP256Sha256 "[4]" "()" sig "()"] sample_ml_dsa_ok(1) by auto
qed

end
