(* ===== verification/Key_Agreement.thy ===== *)
theory Key_Agreement
  imports Signing_Properties Hybrid_Kem Secure_Channel
begin

text \<open>
  \<^verbatim>\<open>src/src/software_key_agreement.rs\<close>: raw agreement with Montgomery keys and with the elliptic-curve keys of the signing
  module. \<^verbatim>\<open>src/src/software_private_key.rs\<close>: the union of the private keys a runtime object holds.
  \<^verbatim>\<open>src/src/secure_channel.rs\<close>: the P-256 key of a password. Both kinds of agreement keep the contract
  \<open>key_exchange\<close> of the hybrid KEM.
\<close>

section \<open>Montgomery keys\<close>

datatype SoftwareKeyAgreementError =
    Agree_AlgorithmMismatch
  | Agree_InvalidPrivateKey
  | Agree_InvalidPublicKey
  | Agree_NonContributoryPublicKey
  | Agree_RandomnessUnavailable

datatype MontgomeryCurve = X25519 | X448

datatype 'o MontgomeryKeyBackend = Mont_Curve25519 'o | Mont_Curve448 'o

type_synonym 'o SoftwareMontgomeryKey = "'o MontgomeryKeyBackend"

text \<open>The crates \<open>x25519_dalek\<close> and \<open>x448\<close>.\<close>

record 'o montgomery_crates =
  x25519_secret_from :: "bytes \<Rightarrow> 'o"
  x25519_secret_to_bytes :: "'o \<Rightarrow> bytes"
  x25519_public_to_bytes :: "'o \<Rightarrow> bytes"
  x25519_public_of :: "'o \<Rightarrow> 'o"
  x25519_public_from :: "bytes \<Rightarrow> 'o"
  x25519_diffie_hellman :: "'o \<Rightarrow> 'o \<Rightarrow> 'o"
  x25519_was_contributory :: "'o \<Rightarrow> bool"
  x25519_shared_to_bytes :: "'o \<Rightarrow> bytes"
  x448_secret_from :: "bytes \<Rightarrow> 'o"
  x448_as_bytes :: "'o \<Rightarrow> bytes"
  x448_public_of :: "'o \<Rightarrow> 'o"
  x448_public_from_bytes :: "bytes \<Rightarrow> 'o option"
  x448_diffie_hellman :: "'o \<Rightarrow> 'o \<Rightarrow> 'o"

fun Montgomery_generate ::
  "'o montgomery_crates \<Rightarrow> (nat \<Rightarrow> ('s, 'e, bytes) op) \<Rightarrow> MontgomeryCurve \<Rightarrow> ('s, SoftwareKeyAgreementError, 'o SoftwareMontgomeryKey) op" where
  "Montgomery_generate mc fill X25519 =
     bindE (map_errE (\<lambda>_. Agree_RandomnessUnavailable) (fill 32)) (\<lambda>seed. okE (Mont_Curve25519 (x25519_secret_from mc seed)))"
| "Montgomery_generate mc fill X448 =
     bindE (map_errE (\<lambda>_. Agree_RandomnessUnavailable) (fill 56)) (\<lambda>seed. okE (Mont_Curve448 (x448_secret_from mc seed)))"

fun Montgomery_from_serialized ::
  "'o montgomery_crates \<Rightarrow> MontgomeryCurve \<Rightarrow> bytes \<Rightarrow> SoftwareKeyAgreementError + 'o SoftwareMontgomeryKey" where
  "Montgomery_from_serialized mc X25519 serialized =
     bindR (rejectR (length serialized \<noteq> 32) Agree_InvalidPrivateKey) (\<lambda>_. Inr (Mont_Curve25519 (x25519_secret_from mc serialized)))"
| "Montgomery_from_serialized mc X448 serialized =
     bindR (rejectR (length serialized \<noteq> 56) Agree_InvalidPrivateKey) (\<lambda>_. Inr (Mont_Curve448 (x448_secret_from mc serialized)))"

fun Montgomery_curve :: "'o SoftwareMontgomeryKey \<Rightarrow> MontgomeryCurve" where
  "Montgomery_curve (Mont_Curve25519 key) = X25519"
| "Montgomery_curve (Mont_Curve448 key) = X448"

fun Montgomery_serialized :: "'o montgomery_crates \<Rightarrow> 'o SoftwareMontgomeryKey \<Rightarrow> bytes" where
  "Montgomery_serialized mc (Mont_Curve25519 key) = x25519_secret_to_bytes mc key"
| "Montgomery_serialized mc (Mont_Curve448 key) = x448_as_bytes mc key"

fun Montgomery_public_key :: "'o montgomery_crates \<Rightarrow> 'o SoftwareMontgomeryKey \<Rightarrow> bytes" where
  "Montgomery_public_key mc (Mont_Curve25519 key) = x25519_public_to_bytes mc (x25519_public_of mc key)"
| "Montgomery_public_key mc (Mont_Curve448 key) = x448_as_bytes mc (x448_public_of mc key)"

definition derive_x25519 :: "'o montgomery_crates \<Rightarrow> 'o \<Rightarrow> bytes \<Rightarrow> SoftwareKeyAgreementError + bytes" where
  "derive_x25519 mc private_key peer_public_key =
     bindR (rejectR (length peer_public_key \<noteq> 32) Agree_InvalidPublicKey) (\<lambda>_.
     let shared = x25519_diffie_hellman mc private_key (x25519_public_from mc peer_public_key) in
     bindR (rejectR (\<not> x25519_was_contributory mc shared) Agree_NonContributoryPublicKey) (\<lambda>_.
     Inr (x25519_shared_to_bytes mc shared)))"

definition derive_x448 :: "'o montgomery_crates \<Rightarrow> 'o \<Rightarrow> bytes \<Rightarrow> SoftwareKeyAgreementError + bytes" where
  "derive_x448 mc private_key peer_public_key =
     bindR (ok_orR Agree_InvalidPublicKey (x448_public_from_bytes mc peer_public_key)) (\<lambda>peer.
     let shared = x448_diffie_hellman mc private_key peer in
     Inr (x448_as_bytes mc shared))"

fun Montgomery_derive :: "'o montgomery_crates \<Rightarrow> 'o SoftwareMontgomeryKey \<Rightarrow> bytes \<Rightarrow> SoftwareKeyAgreementError + bytes" where
  "Montgomery_derive mc (Mont_Curve25519 key) peer_public_key = derive_x25519 mc key peer_public_key"
| "Montgomery_derive mc (Mont_Curve448 key) peer_public_key = derive_x448 mc key peer_public_key"


section \<open>Elliptic-curve agreement\<close>

definition derive_weierstrass :: "'o ec_crates \<Rightarrow> EcCurve \<Rightarrow> 'o \<Rightarrow> bytes \<Rightarrow> SoftwareKeyAgreementError + bytes" where
  "derive_weierstrass ec curve private_key peer_public_key =
     bindR (ok_orR Agree_InvalidPublicKey (ec_public_from_sec1 ec curve peer_public_key)) (\<lambda>peer.
     Inr (ec_diffie_hellman ec curve private_key peer))"

definition derive_with_signing_key ::
  "'o ec_crates \<Rightarrow> ('o, 'k, 'dk, 'dx, 'dv) SoftwareSigningKey \<Rightarrow> bytes \<Rightarrow> SoftwareKeyAgreementError + bytes" where
  "derive_with_signing_key ec private_key peer_public_key =
     (case private_key of
        Sk_Ec inner \<Rightarrow>
          (case inner of
             Back_P224 key \<Rightarrow> derive_weierstrass ec EC_P224 key peer_public_key
           | Back_P256 key \<Rightarrow> derive_weierstrass ec EC_P256 key peer_public_key
           | Back_P384 key \<Rightarrow> derive_weierstrass ec EC_P384 key peer_public_key
           | Back_P521 key \<Rightarrow> derive_weierstrass ec EC_P521 key peer_public_key
           | Back_Secp256k1 key \<Rightarrow> derive_weierstrass ec EC_Secp256k1 key peer_public_key
           | Back_BrainpoolP256 key \<Rightarrow> derive_weierstrass ec EC_BrainpoolP256 key peer_public_key
           | Back_BrainpoolP384 key \<Rightarrow> derive_weierstrass ec EC_BrainpoolP384 key peer_public_key
           | Back_BrainpoolP512 key \<Rightarrow> derive_weierstrass ec EC_BrainpoolP512 key peer_public_key)
      | Sk_Edwards _ \<Rightarrow> Inl Agree_AlgorithmMismatch
      | Sk_Rsa _ \<Rightarrow> Inl Agree_AlgorithmMismatch
      | Sk_MlDsa _ \<Rightarrow> Inl Agree_AlgorithmMismatch)"



section \<open>The union of private keys\<close>

datatype ('o, 'k, 'dk, 'dx, 'dv, 'd) SoftwarePrivateKey =
    Held_Signing "('o, 'k, 'dk, 'dx, 'dv) SoftwareSigningKey"
  | Held_Montgomery "'o SoftwareMontgomeryKey"
  | Held_MlKem "'d MlKemPrivateKey"
  | Held_HybridKem HybridKemPrivateKey

definition PrivateKey_from_signing :: "('o, 'k, 'dk, 'dx, 'dv) SoftwareSigningKey \<Rightarrow> ('o, 'k, 'dk, 'dx, 'dv, 'd) SoftwarePrivateKey" where
  "PrivateKey_from_signing key = Held_Signing key"

definition PrivateKey_from_montgomery :: "'o SoftwareMontgomeryKey \<Rightarrow> ('o, 'k, 'dk, 'dx, 'dv, 'd) SoftwarePrivateKey" where
  "PrivateKey_from_montgomery key = Held_Montgomery key"

definition PrivateKey_from_ml_kem :: "'d MlKemPrivateKey \<Rightarrow> ('o, 'k, 'dk, 'dx, 'dv, 'd) SoftwarePrivateKey" where
  "PrivateKey_from_ml_kem key = Held_MlKem key"

definition PrivateKey_from_hybrid_kem :: "HybridKemPrivateKey \<Rightarrow> ('o, 'k, 'dk, 'dx, 'dv, 'd) SoftwarePrivateKey" where
  "PrivateKey_from_hybrid_kem key = Held_HybridKem key"


section \<open>The key of a password\<close>

text \<open>The loop over the counter byte. Only an error that \<open>from_serialized\<close> returns leads to the next counter.\<close>

fun password_key_loop where
  "password_key_loop w password [] s = Some (Inl (Err Channel_KeyDerivationFailed), s)"
| "password_key_loop w password (counter # counters) s =
     (case yubico_password_kdf (sw_hash w) (password @ [counter]) of
        None \<Rightarrow> Some (Inl Panic, s)
      | Some private \<Rightarrow>
          (case SigningKey_from_serialized w EcdsaP256Sha256 private s of
             None \<Rightarrow> None
           | Some (Inr key, s') \<Rightarrow> Some (Inr key, s')
           | Some (Inl Panic, s') \<Rightarrow> Some (Inl Panic, s')
           | Some (Inl (Err _), s') \<Rightarrow> password_key_loop w password counters s'))"

definition yubico_password_p256_key where
  "yubico_password_p256_key w password = password_key_loop w password (map word_of_nat [0..<256])"

lemma find_map_map: "find_map f (map g xs) = find_map (\<lambda>x. f (g x)) xs"
  by (induction xs) (simp_all split: option.splits)

lemma password_key_loop_eq:
  assumes "\<And>x. yubico_password_kdf (sw_hash w) x = Some (kdf x)"
  shows "password_key_loop w password counters s =
    Some (case find_map (\<lambda>c. ec_from_slice (sw_ec w) EC_P256 (kdf (password @ [c]))) counters of
        Some k \<Rightarrow> Inr (Sk_Ec (Back_P256 k)) | None \<Rightarrow> Inl (Err Channel_KeyDerivationFailed), s)"
proof (induction counters)
  case (Cons c cs)
  show ?case
  proof (cases "ec_from_slice (sw_ec w) EC_P256 (kdf (password @ [c]))")
    case None
    then have "SigningKey_from_serialized w EcdsaP256Sha256 (kdf (password @ [c])) s = Some (Inl (Err Sig_InvalidPrivateKey), s)"
      by (simp add: restore_schemes(1) [where c = EC_P256, simplified] run_map_other run_pure_def run_op_def errE_def)
    then show ?thesis using None Cons by (simp add: assms)
  next
    case (Some k)
    then have "SigningKey_from_serialized w EcdsaP256Sha256 (kdf (password @ [c])) s = Some (Inr (Sk_Ec (Back_P256 k)), s)"
      by (simp add: restore_schemes(1) [where c = EC_P256, simplified])
    then show ?thesis using Some by (simp add: assms)
  qed
qed simp


section \<open>Both sides agree\<close>

text \<open>
  What the crates promise. A secret acts on points, and the actions of two secrets commute; a public key is the action on
  the base point, and its encoding is read back. A shared value of X25519 is contributory when it is not the zero
  point, and it is 32 bytes; secrets are stored as the bytes they were made from.
\<close>

definition montgomery_ok :: "'o montgomery_crates \<Rightarrow> bool" where
  "montgomery_ok mc \<longleftrightarrow>
     (\<forall>a b p. x25519_diffie_hellman mc a (x25519_diffie_hellman mc b p) = x25519_diffie_hellman mc b (x25519_diffie_hellman mc a p))
     \<and> (\<exists>base. \<forall>a. length (x25519_public_to_bytes mc (x25519_public_of mc a)) = 32
          \<and> x25519_public_from mc (x25519_public_to_bytes mc (x25519_public_of mc a)) = x25519_diffie_hellman mc a base)
     \<and> (\<forall>p. length (x25519_shared_to_bytes mc p) = 32
          \<and> (x25519_was_contributory mc p \<longleftrightarrow> x25519_shared_to_bytes mc p \<noteq> replicate 32 0))
     \<and> (\<forall>a b p. x448_diffie_hellman mc a (x448_diffie_hellman mc b p) = x448_diffie_hellman mc b (x448_diffie_hellman mc a p))
     \<and> (\<exists>base. \<forall>a. x448_public_from_bytes mc (x448_as_bytes mc (x448_public_of mc a)) = Some (x448_diffie_hellman mc a base))
     \<and> (\<forall>b. x25519_secret_to_bytes mc (x25519_secret_from mc b) = b) \<and> (\<forall>b. x448_as_bytes mc (x448_secret_from mc b) = b)"

definition weierstrass_ok :: "'o ec_crates \<Rightarrow> bool" where
  "weierstrass_ok ec \<longleftrightarrow> (\<forall>c. \<exists>(act :: 'o \<Rightarrow> 'o \<Rightarrow> 'o) base x_coordinate.
     (\<forall>a b p. act a (act b p) = act b (act a p))
     \<and> (\<forall>a. ec_public_from_sec1 ec c (ec_to_sec1 ec c (ec_public_key ec c a) False) = Some (act a base))
     \<and> (\<forall>a p. ec_diffie_hellman ec c a p = x_coordinate (act a p)))"

lemma montgomery_laws:
  assumes "montgomery_ok mc"
  shows "x25519_diffie_hellman mc a (x25519_public_from mc (x25519_public_to_bytes mc (x25519_public_of mc b)))
      = x25519_diffie_hellman mc b (x25519_public_from mc (x25519_public_to_bytes mc (x25519_public_of mc a)))"
    "length (x25519_public_to_bytes mc (x25519_public_of mc a)) = 32"
    "x25519_was_contributory mc p \<longleftrightarrow> x25519_shared_to_bytes mc p \<noteq> replicate 32 0"
    "x25519_secret_to_bytes mc (x25519_secret_from mc bytes) = bytes" "x448_as_bytes mc (x448_secret_from mc bytes) = bytes"
    "\<exists>pa pb. x448_public_from_bytes mc (x448_as_bytes mc (x448_public_of mc a)) = Some pa
       \<and> x448_public_from_bytes mc (x448_as_bytes mc (x448_public_of mc b)) = Some pb
       \<and> x448_diffie_hellman mc a pb = x448_diffie_hellman mc b pa"
  using assms unfolding montgomery_ok_def by metis+

lemma weierstrass_law:
  assumes "weierstrass_ok ec"
  shows "\<exists>pa pb. ec_public_from_sec1 ec c (ec_to_sec1 ec c (ec_public_key ec c a) False) = Some pa
     \<and> ec_public_from_sec1 ec c (ec_to_sec1 ec c (ec_public_key ec c b) False) = Some pb
     \<and> ec_diffie_hellman ec c a pb = ec_diffie_hellman ec c b pa"
proof -
  obtain act :: "'a \<Rightarrow> 'a \<Rightarrow> 'a" and base x_coordinate where "\<forall>a b p. act a (act b p) = act b (act a p)"
      "\<forall>a. ec_public_from_sec1 ec c (ec_to_sec1 ec c (ec_public_key ec c a) False) = Some (act a base)"
      "\<forall>a p. ec_diffie_hellman ec c a p = x_coordinate (act a p)"
    using assms unfolding weierstrass_ok_def by meson
  then show ?thesis by metis
qed

lemma derive_backend: "derive_with_signing_key ec (Sk_Ec (backend c k)) peer = derive_weierstrass ec c k peer"
  by (cases c) (simp_all add: derive_with_signing_key_def)

lemma x448_agrees:
  assumes "montgomery_ok mc"
  shows "\<exists>secret. derive_x448 mc a (x448_as_bytes mc (x448_public_of mc b)) = Inr secret
    \<and> derive_x448 mc b (x448_as_bytes mc (x448_public_of mc a)) = Inr secret"
proof -
  obtain pa pb where "x448_public_from_bytes mc (x448_as_bytes mc (x448_public_of mc a)) = Some pa"
    "x448_public_from_bytes mc (x448_as_bytes mc (x448_public_of mc b)) = Some pb" "x448_diffie_hellman mc a pb = x448_diffie_hellman mc b pa"
    using montgomery_laws(6) [OF assms] by blast
  then show ?thesis by (simp add: derive_x448_def)
qed

lemma x448_symmetric:
  "montgomery_ok mc \<Longrightarrow> derive_x448 mc a (x448_as_bytes mc (x448_public_of mc b)) = derive_x448 mc b (x448_as_bytes mc (x448_public_of mc a))"
  using x448_agrees by metis

lemma x25519_agrees:
  assumes "montgomery_ok mc"
  shows "derive_x25519 mc a (x25519_public_to_bytes mc (x25519_public_of mc b)) = derive_x25519 mc b (x25519_public_to_bytes mc (x25519_public_of mc a))"
  using montgomery_laws(1) [OF assms, of a b] montgomery_laws(2) [OF assms] by (simp add: derive_x25519_def)

lemma weierstrass_agrees:
  assumes "weierstrass_ok ec"
  shows "\<exists>secret. derive_weierstrass ec c a (ec_to_sec1 ec c (ec_public_key ec c b) False) = Inr secret
    \<and> derive_weierstrass ec c b (ec_to_sec1 ec c (ec_public_key ec c a) False) = Inr secret"
proof -
  obtain pa pb where "ec_public_from_sec1 ec c (ec_to_sec1 ec c (ec_public_key ec c a) False) = Some pa"
    "ec_public_from_sec1 ec c (ec_to_sec1 ec c (ec_public_key ec c b) False) = Some pb" "ec_diffie_hellman ec c a pb = ec_diffie_hellman ec c b pa"
    using weierstrass_law [OF assms] by blast
  then show ?thesis by (simp add: derive_weierstrass_def)
qed

interpretation montgomery: key_exchange montgomery_ok "\<lambda>a b. Montgomery_curve a = Montgomery_curve b" Montgomery_public_key Montgomery_derive
proof unfold_locales
  fix mc :: "'o montgomery_crates" and a b :: "'o SoftwareMontgomeryKey"
  assume "montgomery_ok mc" "Montgomery_curve a = Montgomery_curve b"
  then show "Montgomery_derive mc a (Montgomery_public_key mc b) = Montgomery_derive mc b (Montgomery_public_key mc a)"
    by (cases a; cases b) (auto intro: x25519_agrees x448_symmetric)
qed

interpretation weierstrass: key_exchange weierstrass_ok "\<lambda>a b. EcKey_curve a = EcKey_curve b" EcKey_public_key
  "\<lambda>ec a. derive_with_signing_key ec (Sk_Ec a)"
proof unfold_locales
  fix ec :: "'o ec_crates" and a b :: "'o SoftwareEcKey"
  assume ok: "weierstrass_ok ec" "EcKey_curve a = EcKey_curve b"
  obtain c x where x: "a = backend c x" by (rule backend_cases)
  obtain c' y where y: "b = backend c' y" by (rule backend_cases)
  then have "b = backend c y" using ok(2) x by simp
  then show "derive_with_signing_key ec (Sk_Ec a) (EcKey_public_key ec b) = derive_with_signing_key ec (Sk_Ec b) (EcKey_public_key ec a)"
    using weierstrass_agrees [OF ok(1), of c x y] x by (auto simp: derive_backend)
qed


text \<open>The shared value of X25519 for any bytes of the peer, and when it is returned.\<close>

definition x25519_shared :: "'o montgomery_crates \<Rightarrow> 'o \<Rightarrow> bytes \<Rightarrow> bytes" where
  "x25519_shared mc k peer = x25519_shared_to_bytes mc (x25519_diffie_hellman mc k (x25519_public_from mc peer))"

lemma derive_x25519_exact:
  assumes "montgomery_ok mc"
  shows "derive_x25519 mc k peer =
    (if length peer \<noteq> 32 then Inl Agree_InvalidPublicKey
     else if x25519_shared mc k peer = replicate 32 0 then Inl Agree_NonContributoryPublicKey else Inr (x25519_shared mc k peer))"
  using montgomery_laws(3) [OF assms] by (simp add: derive_x25519_def x25519_shared_def Let_def rejectR_def bindR_def)

lemma montgomery_storage:
  assumes "montgomery_ok mc"
  shows "Montgomery_from_serialized mc curve bytes = (if length bytes = (case curve of X25519 \<Rightarrow> 32 | X448 \<Rightarrow> 56)
      then Inr (case curve of X25519 \<Rightarrow> Mont_Curve25519 (x25519_secret_from mc bytes) | X448 \<Rightarrow> Mont_Curve448 (x448_secret_from mc bytes))
      else Inl Agree_InvalidPrivateKey)"
    "Montgomery_from_serialized mc curve bytes = Inr key \<Longrightarrow>
       Montgomery_curve key = curve \<and> Montgomery_serialized mc key = bytes \<and> Montgomery_from_serialized mc curve (Montgomery_serialized mc key) = Inr key"
  using montgomery_laws(4,5) [OF assms] by (cases curve; auto simp: result_iffs bindR_def rejectR_def split: if_splits)+


text \<open>Stand-in crates: the shared value adds the first bytes.\<close>

definition sample_montgomery :: "bytes montgomery_crates" where
  "sample_montgomery =
     \<lparr> x25519_secret_from = (\<lambda>b. b), x25519_secret_to_bytes = (\<lambda>k. k), x25519_public_to_bytes = resize 32 0,
       x25519_public_of = (\<lambda>k. (hd (resize 32 0 k)) # replicate 31 0), x25519_public_from = (\<lambda>b. b),
       x25519_diffie_hellman = (\<lambda>a p. (hd (resize 32 0 a) + hd (resize 32 0 p)) # replicate 31 0),
       x25519_was_contributory = (\<lambda>s. resize 32 0 s \<noteq> replicate 32 0), x25519_shared_to_bytes = resize 32 0,
       x448_secret_from = (\<lambda>b. b), x448_as_bytes = (\<lambda>k. k), x448_public_of = (\<lambda>k. replicate (length k) 0), x448_public_from_bytes = Some,
       x448_diffie_hellman = (\<lambda>a p. replicate (length a + length p) 0) \<rparr>"

definition sample_weierstrass :: "bytes ec_crates" where
  "sample_weierstrass = sample_ec\<lparr> ec_public_key := (\<lambda>c a. replicate (length a) 0),
     ec_diffie_hellman := (\<lambda>c a p. replicate (length a + length p) 0) \<rparr>"

lemma sample_agreement_ok: "montgomery_ok sample_montgomery" "weierstrass_ok sample_weierstrass"
proof -
  have one: "resize 32 0 (b # replicate 31 0) = b # replicate 31 0" for b :: byte by (simp add: resize_def)
  have "\<exists>base. \<forall>a :: bytes. hd (resize 32 0 a) # replicate 31 0 = (hd (resize 32 0 a) + hd (resize 32 0 base)) # replicate 31 (0 :: byte)"
    by (rule exI [of _ "[]"]) (simp add: resize_def)
  moreover have "\<exists>base. \<forall>a :: bytes. replicate (length a) (0 :: byte) = replicate (length a + length (base :: bytes)) 0"
    by (rule exI [of _ "[]"]) simp
  moreover have "length (resize 32 0 a) = 32" for a :: bytes by (cases "length a \<le> 32"; simp add: resize_def min_def)
  ultimately show "montgomery_ok sample_montgomery" by (simp add: montgomery_ok_def sample_montgomery_def one add.commute add.left_commute)
  have "(\<forall>a b p. replicate (length a + length (replicate (length b + length p) (0 :: byte))) (0 :: byte)
      = replicate (length b + length (replicate (length a + length p) (0 :: byte))) 0)" by (simp add: add.left_commute)
  then show "weierstrass_ok sample_weierstrass"
    unfolding weierstrass_ok_def
    by (intro allI exI [of _ "\<lambda>a p. replicate (length a + length p) 0"] exI [of _ "[]"] exI [of _ "\<lambda>p. p"])
      (simp add: sample_weierstrass_def sample_ec_def add.left_commute)
qed


text \<open>
  The key of a password. For a total password hash: the function tries the 256 counter bytes in order, each appended to the password, and returns the
  P-256 key of the first hash that the curve accepts, or \<open>KeyDerivationFailed\<close> if there is none. It always
  returns, and does not draw randomness.
\<close>

theorem password_key_exact:
  assumes "\<And>x. yubico_password_kdf (sw_hash w) x = Some (kdf x)"
  shows "yubico_password_p256_key w password s =
    Some (case find_map (\<lambda>c. ec_from_slice (sw_ec w) EC_P256 (kdf (password @ [word_of_nat c]))) [0..<256] of
        Some k \<Rightarrow> Inr (Sk_Ec (Back_P256 k)) | None \<Rightarrow> Inl (Err Channel_KeyDerivationFailed), s)"
  by (simp add: yubico_password_p256_key_def password_key_loop_eq [OF assms] find_map_map)

theorem password_key_exact_witness:
  "\<exists>k. yubico_password_p256_key sample_world [1, 2] () = Some (Inr (Sk_Ec (Back_P256 k)), ())"
proof -
  have kdf: "yubico_password_kdf (sw_hash sample_world) x = Some (resize 32 2 (x @ map (\<lambda>c. word_of_nat (of_char c)) ''Yubico''))" for x
    by (simp add: yubico_password_kdf_def sample_world_def sample_hashes_def)
  have "[0..<256] = 0 # [1..<256]" by (simp add: upt_rec)
  then show ?thesis unfolding password_key_exact [OF kdf] by (simp add: sample_ec_def resize_def)
qed

end
