(* ===== verification/Certificate_Signing.thy ===== *)
theory Certificate_Signing
  imports Signing_Properties
begin

text \<open>
  \<^verbatim>\<open>src/src/certificate_signing.rs\<close>: the adapter that lets the builder of the crate \<open>x509-cert\<close> sign with a
  software key, and the standard form of its public key. The encoders of the crates \<open>der\<close>, \<open>spki\<close> and
  \<open>rsa\<close> are the record \<open>spki_crates\<close>. The properties say that the adapter always names an algorithm and
  that its signatures verify, after conversion from DER on elliptic curves.
\<close>

section \<open>The adapter\<close>

datatype X509SigningError = X509SigningError

datatype spki_error = Spki_KeyMalformed | Spki_Der

record SubjectPublicKeyInfo =
  spki_algorithm :: AlgorithmIdentifier
  spki_public_key :: "nat \<times> bytes"

record 'p spki_crates =
  sc_bits_from_bytes :: "bytes \<Rightarrow> (nat \<times> bytes) option"
  sc_bits_new :: "nat \<Rightarrow> bytes \<Rightarrow> (nat \<times> bytes) option"
  sc_any_from_oid :: "nat list \<Rightarrow> bytes option"
  sc_any_null :: bytes
  sc_oid_new :: "nat list \<Rightarrow> nat list option"
  sc_rsa_public_key_der :: "'p \<Rightarrow> bytes option"
  sc_spki_from_der :: "bytes \<Rightarrow> SubjectPublicKeyInfo option"
  sc_spki_to_der :: "SubjectPublicKeyInfo \<Rightarrow> bytes option"
  sc_document :: "bytes \<Rightarrow> bytes option"

fun curve_oid :: "EcCurve \<Rightarrow> nat list" where
  "curve_oid EC_P224 = [1, 3, 132, 0, 33]"
| "curve_oid EC_P256 = [1, 2, 840, 10045, 3, 1, 7]"
| "curve_oid EC_P384 = [1, 3, 132, 0, 34]"
| "curve_oid EC_P521 = [1, 3, 132, 0, 35]"
| "curve_oid EC_Secp256k1 = [1, 3, 132, 0, 10]"
| "curve_oid EC_BrainpoolP256 = [1, 3, 36, 3, 3, 2, 8, 1, 1, 7]"
| "curve_oid EC_BrainpoolP384 = [1, 3, 36, 3, 3, 2, 8, 1, 1, 11]"
| "curve_oid EC_BrainpoolP512 = [1, 3, 36, 3, 3, 2, 8, 1, 1, 13]"

fun edwards_oid :: "EdwardsCurve \<Rightarrow> nat list" where
  "edwards_oid Curve_Ed25519 = [1, 3, 101, 112]"
| "edwards_oid Curve_Ed448 = [1, 3, 101, 113]"

definition ec_subject_public_key_info :: "'p spki_crates \<Rightarrow> EcCurve \<Rightarrow> bytes \<Rightarrow> X509SigningError + SubjectPublicKeyInfo" where
  "ec_subject_public_key_info x curve uncompressed =
     bindR (ok_orR X509SigningError (sc_oid_new x (curve_oid curve))) (\<lambda>curve_oid.
     bindR (ok_orR X509SigningError (sc_any_from_oid x curve_oid)) (\<lambda>parameters.
     bindR (ok_orR X509SigningError (sc_bits_from_bytes x uncompressed)) (\<lambda>subject_public_key.
     Inr \<lparr> spki_algorithm = \<lparr> ai_oid = [1, 2, 840, 10045, 2, 1], ai_parameters = Some parameters \<rparr>,
            spki_public_key = subject_public_key \<rparr>)))"

definition subject_public_key_info where
  "subject_public_key_info w x key =
     (case key of
        Pub_Ec curve uncompressed \<Rightarrow> ec_subject_public_key_info x curve uncompressed
      | Pub_Edwards curve public_key \<Rightarrow>
          bindR (ok_orR X509SigningError (sc_bits_from_bytes x public_key)) (\<lambda>subject_public_key.
          Inr \<lparr> spki_algorithm = \<lparr> ai_oid = edwards_oid curve, ai_parameters = None \<rparr>, spki_public_key = subject_public_key \<rparr>)
      | Pub_Rsa modulus exponent \<Rightarrow>
          bindR (ok_orR X509SigningError (rsa_public_new (sw_rsa w) (be_nat modulus) (be_nat exponent))) (\<lambda>public.
          bindR (ok_orR X509SigningError (sc_rsa_public_key_der x public)) (\<lambda>encoded.
          ok_orR X509SigningError (sc_spki_from_der x encoded)))
      | Pub_MlDsa parameter_set public_key \<Rightarrow>
          bindR (map_errR (\<lambda>_. X509SigningError)
            (ml_dsa_public_key_info (sc_bits_new x) (\<lambda>algorithm bits. sc_spki_to_der x \<lparr> spki_algorithm = algorithm, spki_public_key = bits \<rparr>)
              (sw_dsa_algorithm w) parameter_set public_key)) (\<lambda>encoded.
          ok_orR X509SigningError (sc_spki_from_der x encoded)))"

record 'sk CertificateSigner =
  cs_key :: 'sk
  cs_verifying_key :: SubjectPublicKeyInfo
  cs_scheme :: SignatureScheme

definition CertificateSigner_from_key where
  "CertificateSigner_from_key w x key =
     (let public_key = SigningKey_public_key w key;
          scheme = (case public_key of
              Pub_Ec curve _ \<Rightarrow> Ec_signature_scheme curve
            | Pub_Edwards curve _ \<Rightarrow> Edwards_signature_scheme curve
            | Pub_Rsa _ _ \<Rightarrow> RsaPkcs1Sha256
            | Pub_MlDsa parameter_set _ \<Rightarrow> Scheme_MlDsa parameter_set) in
      bindR (subject_public_key_info w x public_key) (\<lambda>verifying_key.
      Inr \<lparr> cs_key = key, cs_verifying_key = verifying_key, cs_scheme = scheme \<rparr>))"

definition verifying_key_to_der :: "'p spki_crates \<Rightarrow> SubjectPublicKeyInfo \<Rightarrow> spki_error + bytes" where
  "verifying_key_to_der x self =
     bindR (ok_orR Spki_Der (sc_spki_to_der x self)) (\<lambda>encoded. ok_orR Spki_Der (sc_document x encoded))"

definition CertificateSigner_verifying_key :: "'sk CertificateSigner \<Rightarrow> SubjectPublicKeyInfo" where
  "CertificateSigner_verifying_key self = cs_verifying_key self"

definition signature_algorithm_identifier :: "'p spki_crates \<Rightarrow> 'sk CertificateSigner \<Rightarrow> spki_error + AlgorithmIdentifier" where
  "signature_algorithm_identifier x self =
     bindR (case cs_scheme self of
         EcdsaP224Sha224 \<Rightarrow> Inr ([1, 2, 840, 10045, 4, 3, 1], None)
       | EcdsaP256Sha256 \<Rightarrow> Inr ([1, 2, 840, 10045, 4, 3, 2], None)
       | EcdsaSecp256k1Sha256 \<Rightarrow> Inr ([1, 2, 840, 10045, 4, 3, 2], None)
       | EcdsaBrainpoolP256Sha256 \<Rightarrow> Inr ([1, 2, 840, 10045, 4, 3, 2], None)
       | EcdsaP384Sha384 \<Rightarrow> Inr ([1, 2, 840, 10045, 4, 3, 3], None)
       | EcdsaBrainpoolP384Sha384 \<Rightarrow> Inr ([1, 2, 840, 10045, 4, 3, 3], None)
       | EcdsaP521Sha512 \<Rightarrow> Inr ([1, 2, 840, 10045, 4, 3, 4], None)
       | EcdsaBrainpoolP512Sha512 \<Rightarrow> Inr ([1, 2, 840, 10045, 4, 3, 4], None)
       | Scheme_Ed25519 \<Rightarrow> Inr ([1, 3, 101, 112], None)
       | Scheme_Ed448 \<Rightarrow> Inr ([1, 3, 101, 113], None)
       | RsaPkcs1Sha256 \<Rightarrow> Inr ([1, 2, 840, 113549, 1, 1, 11], Some (sc_any_null x))
       | Scheme_MlDsa _ \<Rightarrow> Inr (ai_oid (spki_algorithm (cs_verifying_key self)), None)
       | _ \<Rightarrow> Inl Spki_KeyMalformed) (\<lambda>(oid, parameters).
     Inr \<lparr> ai_oid = oid, ai_parameters = parameters \<rparr>)"

definition certificate_signature_bits :: "'p spki_crates \<Rightarrow> bytes \<Rightarrow> (nat \<times> bytes) option" where
  "certificate_signature_bits x signature = sc_bits_from_bytes x signature"

definition CertificateSigner_try_sign where
  "CertificateSigner_try_sign w self message =
     bindE (map_errE (map_fault (\<lambda>_. ())) (SigningKey_sign_message w (cs_key self) (cs_scheme self) message)) (\<lambda>signature.
     case ec_curve (cs_scheme self) of
       Some curve \<Rightarrow> liftE (map_errR (\<lambda>_. Err ()) (to_ecdsa_der w signature curve))
     | None \<Rightarrow> okE (sig_bytes signature))"


section \<open>Certificate signatures\<close>

text \<open>What the crate \<open>ecdsa\<close> promises of a signature: fixed-width halves that are read back, and their canonical DER form.\<close>

definition ecdsa_encodes :: "'o ec_crates \<Rightarrow> bool" where
  "ecdsa_encodes ec \<longleftrightarrow> (\<forall>c g. ecdsa_from_slice ec c (ecdsa_to_bytes ec c g) = Some g
     \<and> (\<exists>r s. r < 256 ^ secret_length c \<and> s < 256 ^ secret_length c
          \<and> ecdsa_to_bytes ec c g = be_bytes (secret_length c) r @ be_bytes (secret_length c) s \<and> ecdsa_to_der ec c g = der_signature r s))"

lemma der_integers_short:
  assumes "0 < n" "n \<le> 66" "r < 256 ^ n" "s < 256 ^ n"
  shows "length (der_int r @ der_int s) < 256"
proof -
  have c: "length (der_content v) \<le> 67" if "v < 256 ^ n" for v
  proof -
    have "length (to_bytes_be v) \<le> n" using to_bytes_be_fits [OF assms(1), of v] that by blast
    then show ?thesis using assms(2) by (simp add: der_content_def Let_def)
  qed
  then have "length (der_len (length (der_content v))) = 1" if "v < 256 ^ n" for v using that [THEN c] by (simp add: der_len_def)
  then show ?thesis using assms(3,4) c [of r] c [of s] by (simp add: der_int_def)
qed

lemma secret_length_bounds: "0 < secret_length c" "secret_length c \<le> 66"
  by (cases c; simp)+

lemma to_ecdsa_der_eq: "to_ecdsa_der w sig c = encode_ecdsa (sw_ec w) c (sig_bytes sig)"
  by (cases c) (simp_all add: to_ecdsa_der_def)

lemma der_of_signature:
  assumes "ecdsa_encodes (sw_ec w)" "to_ecdsa_der w \<lparr> sig_bytes = ecdsa_to_bytes (sw_ec w) c g \<rparr> c = Inr cert"
  shows "ecdsa_signature_from_der cert (secret_length c) = Inr (ecdsa_to_bytes (sw_ec w) c g)"
proof -
  let ?n = "secret_length c"
  obtain r s where g: "r < 256 ^ ?n" "s < 256 ^ ?n" "ecdsa_to_bytes (sw_ec w) c g = be_bytes ?n r @ be_bytes ?n s"
    "ecdsa_to_der (sw_ec w) c g = der_signature r s" "ecdsa_from_slice (sw_ec w) c (ecdsa_to_bytes (sw_ec w) c g) = Some g"
    using assms(1) unfolding ecdsa_encodes_def by blast
  have cert: "cert = der_signature r s" using assms(2) g(4,5) by (simp add: to_ecdsa_der_eq encode_ecdsa_def)
  have short: "length (der_int r @ der_int s) < 256" by (rule der_integers_short [OF secret_length_bounds g(1,2)])
  then have "length (der_signature r s) < usize_bound" by (simp add: der_signature_def der_len_def usize_bound_def)
  moreover have "2 * ?n < usize_bound" using secret_length_bounds(2) [of c] by (simp add: usize_bound_def)
  ultimately have "ecdsa_signature_from_der (der_signature r s) ?n = Inr (be_bytes ?n r @ be_bytes ?n s)"
    using der_reader_exact [OF secret_length_bounds(1), of c "der_signature r s"] g(1,2) short by blast
  then show ?thesis by (simp add: cert g(3))
qed


lemma signer_scheme:
  assumes "CertificateSigner_from_key w x key = Inr signer"
  shows "cs_key signer = key" "public_fits (SigningKey_public_key w key) (cs_scheme signer)"
    "subject_public_key_info w x (SigningKey_public_key w key) = Inr (cs_verifying_key signer)"
    "rsa_profile (cs_scheme signer) \<in> {None, Some (Sha256, False)}"
    "\<And>c k. key = Sk_Ec (backend c k) \<Longrightarrow> cs_scheme signer = Ec_signature_scheme c"
    "ec_curve (cs_scheme signer) \<noteq> None \<Longrightarrow> \<exists>c k. key = Sk_Ec (backend c k)"
proof -
  have f: "cs_key signer = key" "subject_public_key_info w x (SigningKey_public_key w key) = Inr (cs_verifying_key signer)"
    "cs_scheme signer = (case SigningKey_public_key w key of Pub_Ec curve _ \<Rightarrow> Ec_signature_scheme curve
       | Pub_Edwards curve _ \<Rightarrow> Edwards_signature_scheme curve | Pub_Rsa _ _ \<Rightarrow> RsaPkcs1Sha256 | Pub_MlDsa parameter_set _ \<Rightarrow> Scheme_MlDsa parameter_set)"
    using assms by (auto simp: CertificateSigner_from_key_def Let_def bindR_Inr_iff)
  show "cs_key signer = key" "subject_public_key_info w x (SigningKey_public_key w key) = Inr (cs_verifying_key signer)" by (fact f)+
  show "public_fits (SigningKey_public_key w key) (cs_scheme signer)"
    unfolding f(3) by (cases "SigningKey_public_key w key") (simp_all add: is_rsa_def)
  have ed: "rsa_profile (Edwards_signature_scheme d) = None" "ec_curve (Edwards_signature_scheme d) = None" for d by (cases d; simp)+
  have ec: "rsa_profile (Ec_signature_scheme c) = None" for c by (cases c) simp_all
  show "rsa_profile (cs_scheme signer) \<in> {None, Some (Sha256, False)}"
    unfolding f(3) by (cases "SigningKey_public_key w key") (simp_all add: ed ec)
  show "cs_scheme signer = Ec_signature_scheme c" if "key = Sk_Ec (backend c k)" for c k
    unfolding f(3) by (simp add: that SigningKey_public_key_def)
  show "\<exists>c k. key = Sk_Ec (backend c k)" if "ec_curve (cs_scheme signer) \<noteq> None"
  proof (cases key)
    case (Sk_Ec k)
    then show ?thesis by (cases k rule: backend_cases) blast
  qed (use that ed in \<open>simp_all add: f(3) SigningKey_public_key_def\<close>)
qed

lemma algorithm_named:
  assumes "rsa_profile (cs_scheme signer) \<in> {None, Some (Sha256, False)}"
  shows "\<exists>algorithm. signature_algorithm_identifier x signer = Inr algorithm"
  using assms by (cases "cs_scheme signer") (simp_all add: signature_algorithm_identifier_def)

lemma ec_signature_bytes:
  "SigningKey_sign_message w (Sk_Ec (backend c k)) (Ec_signature_scheme c) m = okE \<lparr> sig_bytes = ecdsa_to_bytes (sw_ec w) c (ecdsa_sign (sw_ec w) c k m) \<rparr>"
  by (simp add: SigningKey_sign_message_def)

text \<open>
  C33: Certificate signatures verify. An adapter made from any key names its signature algorithm without an error, and
  uses a scheme of its key, so that signing never fails for a mismatch. For crates whose signatures verify, a signature that the
  adapter makes of the certificate's bytes verifies under the key's public key: as it is for Edwards, RSA and ML-DSA
  keys, and on an elliptic curve after \<open>ecdsa_signature_from_der\<close> at the width of the curve, which accepts it.
\<close>

theorem certificate_signatures_verify:
  assumes "CertificateSigner_from_key w x key = Inr signer"
  shows "(\<exists>algorithm. signature_algorithm_identifier x signer = Inr algorithm)
    \<and> SigningKey_sign_message w (cs_key signer) (cs_scheme signer) m s \<noteq> (Inl (Err Sig_AlgorithmMismatch), s')
    \<and> (held w key \<and> ml_dsa_ok (sw_dsa w) \<and> fill_ok (sw_fill w) \<and> signing_ok w key
        \<and> (ec_curve (cs_scheme signer) \<noteq> None \<longrightarrow> ecdsa_encodes (sw_ec w)) \<and> CertificateSigner_try_sign w signer m s = (Inr cert, s')
        \<longrightarrow> (case ec_curve (cs_scheme signer) of
              Some c \<Rightarrow> \<exists>sig. ecdsa_signature_from_der cert (secret_length c) = Inr sig
                 \<and> PublicKey_verify_message w (SigningKey_public_key w key) (cs_scheme signer) m sig = Inr ()
            | None \<Rightarrow> PublicKey_verify_message w (SigningKey_public_key w key) (cs_scheme signer) m cert = Inr ()))"
proof (intro conjI impI)
  note sg = signer_scheme [OF assms]
  show "\<exists>algorithm. signature_algorithm_identifier x signer = Inr algorithm" by (rule algorithm_named [OF sg(4)])
  show "SigningKey_sign_message w (cs_key signer) (cs_scheme signer) m s \<noteq> (Inl (Err Sig_AlgorithmMismatch), s')"
    using sg(1,2) by (simp add: sign_mismatch_iff)
  assume a: "held w key \<and> ml_dsa_ok (sw_dsa w) \<and> fill_ok (sw_fill w) \<and> signing_ok w key
    \<and> (ec_curve (cs_scheme signer) \<noteq> None \<longrightarrow> ecdsa_encodes (sw_ec w)) \<and> CertificateSigner_try_sign w signer m s = (Inr cert, s')"
  have verify: "SigningKey_sign_message w key (cs_scheme signer) m t = (Inr sig, t') \<Longrightarrow>
      PublicKey_verify_message w (SigningKey_public_key w key) (cs_scheme signer) m (sig_bytes sig) = Inr ()" for t sig t'
    using held_signatures_verify [of w key "cs_scheme signer" m t sig t'] a by blast
  show "case ec_curve (cs_scheme signer) of
      Some c \<Rightarrow> \<exists>sig. ecdsa_signature_from_der cert (secret_length c) = Inr sig
         \<and> PublicKey_verify_message w (SigningKey_public_key w key) (cs_scheme signer) m sig = Inr ()
    | None \<Rightarrow> PublicKey_verify_message w (SigningKey_public_key w key) (cs_scheme signer) m cert = Inr ()"
  proof (cases "ec_curve (cs_scheme signer)")
    case None
    then obtain sig where "SigningKey_sign_message w key (cs_scheme signer) m s = (Inr sig, s')" "cert = sig_bytes sig"
      using a sg(1) by (auto simp: CertificateSigner_try_sign_def op_ok_iffs)
    then show ?thesis using None verify by simp
  next
    case (Some c)
    obtain c' k where k: "key = Sk_Ec (backend c' k)" using sg(6) Some by auto
    have sc: "cs_scheme signer = Ec_signature_scheme c" "c' = c" using sg(5) [OF k] Some by simp_all
    let ?g = "ecdsa_sign (sw_ec w) c k m"
    let ?sig = "\<lparr> sig_bytes = ecdsa_to_bytes (sw_ec w) c ?g \<rparr>"
    have sign: "SigningKey_sign_message w key (cs_scheme signer) m = okE ?sig" using k sc by (simp add: ec_signature_bytes)
    then have "to_ecdsa_der w ?sig c = Inr cert"
      using a sg(1) Some by (auto simp: CertificateSigner_try_sign_def op_ok_iffs map_errR_Inr_iff)
    then have "ecdsa_signature_from_der cert (secret_length c) = Inr (ecdsa_to_bytes (sw_ec w) c ?g)" using a Some der_of_signature [of w c ?g cert] by simp
    moreover have "PublicKey_verify_message w (SigningKey_public_key w key) (cs_scheme signer) m (sig_bytes ?sig) = Inr ()"
      by (rule verify [of s _ s]) (simp add: sign okE_def)
    ultimately show ?thesis using Some by simp
  qed
qed

text \<open>Stand-in encoders.\<close>

definition sample_spki :: "nat spki_crates" where
  "sample_spki =
     \<lparr> sc_bits_from_bytes = (\<lambda>b. Some (0, b)), sc_bits_new = (\<lambda>n b. Some (n, b)), sc_any_from_oid = (\<lambda>oid. Some (map word_of_nat oid)),
       sc_any_null = [5, 0], sc_oid_new = Some, sc_rsa_public_key_der = (\<lambda>p. Some []), sc_spki_from_der = (\<lambda>_. None),
       sc_spki_to_der = (\<lambda>_. None), sc_document = Some \<rparr>"

theorem certificate_signatures_verify_witness:
  "\<exists>signer cert. CertificateSigner_from_key sample_world sample_spki (Sk_Edwards (Curve25519 (replicate 32 1))) = Inr signer
     \<and> CertificateSigner_try_sign sample_world signer [7] () = (Inr cert, ())
     \<and> PublicKey_verify_message sample_world (SigningKey_public_key sample_world (Sk_Edwards (Curve25519 (replicate 32 1)))) Scheme_Ed25519 [7] cert = Inr ()"
proof -
  let ?key = "Sk_Edwards (Curve25519 (replicate 32 1)) :: (bytes, nat, bytes, bytes, byte) SoftwareSigningKey"
  have held: "held sample_world ?key"
    by (rule held.restored [of _ Scheme_Ed25519 "replicate 32 1" "()" _ "()"])
      (simp add: restore_schemes(2) [where d = Curve_Ed25519, simplified] sample_ed_def)
  have ok: "signing_ok sample_world ?key"
    by (auto simp: edwards_signs_def sample_ed_def canonical_ed448_point_def resize_def split: if_splits)
  obtain signer where signer: "CertificateSigner_from_key sample_world sample_spki ?key = Inr signer"
    by (simp add: CertificateSigner_from_key_def SigningKey_public_key_def subject_public_key_info_def sample_spki_def)
  then have sc: "cs_scheme signer = Scheme_Ed25519" "cs_key signer = ?key"
    by (auto simp: CertificateSigner_from_key_def SigningKey_public_key_def Let_def bindR_Inr_iff)
  obtain cert where cert: "CertificateSigner_try_sign sample_world signer [7] () = (Inr cert, ())"
    by (simp add: CertificateSigner_try_sign_def sc SigningKey_sign_message_def op_ok_iffs)
  show ?thesis
    using certificate_signatures_verify [OF signer, of "[7]" "()" "()" cert] held ok sample_fill_ok sample_ml_dsa_ok(1) signer cert
    by (auto simp: sc)
qed

end
