(* ===== verification/Certificate_Chain.thy ===== *)
theory Certificate_Chain
  imports Certificate_Signing "HOL-Library.List_Lexorder"
begin

text \<open>
  \<^verbatim>\<open>src/src/certificate_chain.rs\<close>: strict parsing of certificates and the configuration of trust. The parser and the
  encoders of the crates \<open>x509-cert\<close> and \<open>der\<close> are the record \<open>x509_crate\<close>, the algorithms of
  \<open>webpki\<close> a list. The clock is an argument. Sets of fingerprints are sets.
\<close>

section \<open>The crates\<close>

record Extension =
  extn_id :: "nat list"
  extn_critical :: bool

record KeyUsage =
  ku_key_cert_sign :: bool
  ku_key_agreement :: bool

record 'c x509_crate =
  xc_from_der :: "bytes \<Rightarrow> 'c option"
  xc_to_der :: "'c \<Rightarrow> bytes option"
  xc_signature_algorithm :: "'c \<Rightarrow> AlgorithmIdentifier"
  xc_signature :: "'c \<Rightarrow> nat \<times> bytes"
  xc_tbs_signature :: "'c \<Rightarrow> AlgorithmIdentifier"
  xc_tbs_to_der :: "'c \<Rightarrow> bytes option"
  xc_extensions :: "'c \<Rightarrow> Extension list option"
  xc_policies :: "'c \<Rightarrow> unit + bytes list option"
  xc_basic_constraints_ca :: "'c \<Rightarrow> unit + bool option"
  xc_key_usage :: "'c \<Rightarrow> unit + KeyUsage option"
  xc_subject_to_der :: "'c \<Rightarrow> bytes option"
  xc_issuer_to_der :: "'c \<Rightarrow> bytes option"
  xc_not_before :: "'c \<Rightarrow> nat"
  xc_not_after :: "'c \<Rightarrow> nat"
  xc_subject_public_key_info :: "'c \<Rightarrow> SubjectPublicKeyInfo"
  xc_oid_to_der :: "nat list \<Rightarrow> bytes option"
  xc_any_to_der :: "bytes \<Rightarrow> bytes option"
  xc_any_as_oid :: "bytes \<Rightarrow> nat list option"

record verification_algorithm =
  va_signature_alg_id :: bytes
  va_public_key_alg_id :: bytes
  va_verify_signature :: "bytes \<Rightarrow> bytes \<Rightarrow> bytes \<Rightarrow> bool"

datatype CertificateError = CertificateError

definition EC_PUBLIC_KEY :: "nat list" where "EC_PUBLIC_KEY = [1, 2, 840, 10045, 2, 1]"
definition P256_CURVE :: "nat list" where "P256_CURVE = [1, 2, 840, 10045, 3, 1, 7]"
definition SUBJECT_KEY_IDENTIFIER :: "nat list" where "SUBJECT_KEY_IDENTIFIER = [2, 5, 29, 14]"
definition KEY_USAGE :: "nat list" where "KEY_USAGE = [2, 5, 29, 15]"
definition SUBJECT_ALT_NAME :: "nat list" where "SUBJECT_ALT_NAME = [2, 5, 29, 17]"
definition BASIC_CONSTRAINTS :: "nat list" where "BASIC_CONSTRAINTS = [2, 5, 29, 19]"
definition CERTIFICATE_POLICIES :: "nat list" where "CERTIFICATE_POLICIES = [2, 5, 29, 32]"
definition EXTENDED_KEY_USAGE :: "nat list" where "EXTENDED_KEY_USAGE = [2, 5, 29, 37]"
definition AUTHORITY_KEY_IDENTIFIER :: "nat list" where "AUTHORITY_KEY_IDENTIFIER = [2, 5, 29, 35]"
definition CRL_DISTRIBUTION_POINTS :: "nat list" where "CRL_DISTRIBUTION_POINTS = [2, 5, 29, 31]"
definition AUTHORITY_INFORMATION_ACCESS :: "nat list" where "AUTHORITY_INFORMATION_ACCESS = [1, 3, 6, 1, 5, 5, 7, 1, 1]"


section \<open>Parsing\<close>

definition SUPPORTED :: "nat list list" where
  "SUPPORTED =
     [SUBJECT_KEY_IDENTIFIER, KEY_USAGE, SUBJECT_ALT_NAME, BASIC_CONSTRAINTS, CERTIFICATE_POLICIES, EXTENDED_KEY_USAGE,
      AUTHORITY_KEY_IDENTIFIER, CRL_DISTRIBUTION_POINTS, AUTHORITY_INFORMATION_ACCESS,
      [2, 5, 29, 30], [2, 5, 29, 33], [2, 5, 29, 36], [2, 5, 29, 54]]"

definition validate_critical_extensions :: "'c x509_crate \<Rightarrow> 'c \<Rightarrow> CertificateError + unit" where
  "validate_critical_extensions x certificate =
     (if \<exists>extension \<in> set (case xc_extensions x certificate of None \<Rightarrow> [] | Some extensions \<Rightarrow> extensions).
           extn_critical extension \<and> extn_id extension \<notin> set SUPPORTED
      then Inl CertificateError else Inr ())"

definition sha256_fingerprint :: "('h, 'q) hash_crates \<Rightarrow> bytes \<Rightarrow> bytes" where
  "sha256_fingerprint crates data = digest crates Sha256 data"

record 'c ParsedCertificate =
  pc_certificate :: 'c
  pc_subject :: bytes
  pc_issuer :: bytes
  pc_fingerprint :: bytes
  pc_not_before :: nat
  pc_not_after :: nat
  pc_is_ca :: bool
  pc_can_sign_certificates :: bool

definition ParsedCertificate_parse ::
  "('h, 'q) hash_crates \<Rightarrow> 'c x509_crate \<Rightarrow> bytes \<Rightarrow> CertificateError + 'c ParsedCertificate" where
  "ParsedCertificate_parse crates x encoded =
     bindR (ok_orR CertificateError (xc_from_der x encoded)) (\<lambda>certificate.
     bindR (rejectR (xc_signature_algorithm x certificate \<noteq> xc_tbs_signature x certificate) CertificateError) (\<lambda>_.
     bindR (validate_critical_extensions x certificate) (\<lambda>_.
     bindR (map_errR (\<lambda>_. CertificateError) (xc_policies x certificate)) (\<lambda>policies.
     bindR (rejectR (case policies of None \<Rightarrow> False | Some policies \<Rightarrow> policies = []) CertificateError) (\<lambda>_.
     bindR (map_errR (\<lambda>_. CertificateError) (xc_basic_constraints_ca x certificate)) (\<lambda>basic_constraints.
     bindR (map_errR (\<lambda>_. CertificateError) (xc_key_usage x certificate)) (\<lambda>key_usage.
     bindR (ok_orR CertificateError (xc_to_der x certificate)) (\<lambda>canonical.
     bindR (rejectR (canonical \<noteq> encoded) CertificateError) (\<lambda>_.
     bindR (ok_orR CertificateError (xc_subject_to_der x certificate)) (\<lambda>subject.
     bindR (ok_orR CertificateError (xc_issuer_to_der x certificate)) (\<lambda>issuer.
     Inr \<lparr> pc_certificate = certificate, pc_subject = subject, pc_issuer = issuer,
            pc_fingerprint = sha256_fingerprint crates canonical,
            pc_not_before = xc_not_before x certificate, pc_not_after = xc_not_after x certificate,
            pc_is_ca = (case basic_constraints of None \<Rightarrow> False | Some ca \<Rightarrow> ca),
            pc_can_sign_certificates = (case key_usage of None \<Rightarrow> True | Some usage \<Rightarrow> ku_key_cert_sign usage) \<rparr>)))))))))))"

definition is_self_issued :: "'c ParsedCertificate \<Rightarrow> bool" where
  "is_self_issued self \<longleftrightarrow> pc_subject self = pc_issuer self"

definition is_valid_at :: "'c ParsedCertificate \<Rightarrow> nat \<Rightarrow> bool" where
  "is_valid_at self timestamp \<longleftrightarrow> pc_not_before self \<le> timestamp \<and> timestamp \<le> pc_not_after self"

definition algorithm_identifier_contents :: "'c x509_crate \<Rightarrow> AlgorithmIdentifier \<Rightarrow> CertificateError + bytes" where
  "algorithm_identifier_contents x algorithm =
     bindR (ok_orR CertificateError (xc_oid_to_der x (ai_oid algorithm))) (\<lambda>encoded.
     case ai_parameters algorithm of
       None \<Rightarrow> Inr encoded
     | Some parameters \<Rightarrow> bindR (ok_orR CertificateError (xc_any_to_der x parameters)) (\<lambda>parameters. Inr (encoded @ parameters)))"

definition algorithm_parameter_oid :: "'c x509_crate \<Rightarrow> SubjectPublicKeyInfo \<Rightarrow> CertificateError + nat list" where
  "algorithm_parameter_oid x spki =
     bindR (ok_orR CertificateError (ai_parameters (spki_algorithm spki))) (\<lambda>parameters.
     ok_orR CertificateError (xc_any_as_oid x parameters))"

definition verify_certificate_signature ::
  "verification_algorithm list \<Rightarrow> 'c x509_crate \<Rightarrow> 'c \<Rightarrow> 'c \<Rightarrow> CertificateError + unit" where
  "verify_certificate_signature algorithms x certificate issuer =
     bindR (rejectR (xc_signature_algorithm x certificate \<noteq> xc_tbs_signature x certificate) CertificateError) (\<lambda>_.
     bindR (algorithm_identifier_contents x (xc_signature_algorithm x certificate)) (\<lambda>signature_algorithm.
     bindR (algorithm_identifier_contents x (spki_algorithm (xc_subject_public_key_info x issuer))) (\<lambda>public_key_algorithm.
     bindR (ok_orR CertificateError (find (\<lambda>algorithm. va_signature_alg_id algorithm = signature_algorithm
       \<and> va_public_key_alg_id algorithm = public_key_algorithm) algorithms)) (\<lambda>algorithm.
     bindR (ok_orR CertificateError (bits_as_bytes (spki_public_key (xc_subject_public_key_info x issuer)))) (\<lambda>public_key.
     bindR (ok_orR CertificateError (xc_tbs_to_der x certificate)) (\<lambda>message.
     bindR (ok_orR CertificateError (bits_as_bytes (xc_signature x certificate))) (\<lambda>signature.
     if va_verify_signature algorithm public_key message signature then Inr () else Inl CertificateError)))))))"

definition ParsedCertificate_verify_signature ::
  "verification_algorithm list \<Rightarrow> 'c x509_crate \<Rightarrow> 'c ParsedCertificate \<Rightarrow> 'c ParsedCertificate \<Rightarrow> CertificateError + unit" where
  "ParsedCertificate_verify_signature algorithms x self issuer =
     verify_certificate_signature algorithms x (pc_certificate self) (pc_certificate issuer)"

definition p256_public_point where
  "p256_public_point w x certificate =
     (let spki = xc_subject_public_key_info x certificate in
      bindR (if ai_oid (spki_algorithm spki) \<noteq> EC_PUBLIC_KEY then Inr True
             else bindR (algorithm_parameter_oid x spki) (\<lambda>oid. Inr (oid \<noteq> P256_CURVE))) (\<lambda>unsupported.
      bindR (rejectR unsupported CertificateError) (\<lambda>_.
      bindR (ok_orR CertificateError (bits_as_bytes (spki_public_key spki))) (\<lambda>point.
      bindR (map_errR (\<lambda>_. CertificateError) (PublicKey_validate w (Pub_Ec EC_P256 point))) (\<lambda>_.
      Inr point)))))"

definition ParsedCertificate_p256_public_point where
  "ParsedCertificate_p256_public_point w x self = p256_public_point w x (pc_certificate self)"

definition p256_key_agreement_point where
  "p256_key_agreement_point w x self =
     bindR (map_errR (\<lambda>_. CertificateError) (xc_key_usage x (pc_certificate self))) (\<lambda>usage.
     bindR (rejectR (pc_is_ca self \<or> (case usage of None \<Rightarrow> False | Some usage \<Rightarrow> \<not> ku_key_agreement usage)) CertificateError) (\<lambda>_.
     ParsedCertificate_p256_public_point w x self))"

text \<open>\<open>parse_unique\<close>: the loop carries the fingerprints inserted so far; \<open>collect\<close> stops at the first error.\<close>

fun parse_unique_loop ::
  "('h, 'q) hash_crates \<Rightarrow> 'c x509_crate \<Rightarrow> bytes set \<Rightarrow> bytes list \<Rightarrow> CertificateError + 'c ParsedCertificate list" where
  "parse_unique_loop crates x fingerprints [] = Inr []"
| "parse_unique_loop crates x fingerprints (encoded # rest) =
     bindR (ParsedCertificate_parse crates x encoded) (\<lambda>certificate.
     if pc_fingerprint certificate \<in> fingerprints then parse_unique_loop crates x fingerprints rest
     else bindR (parse_unique_loop crates x (insert (pc_fingerprint certificate) fingerprints) rest) (\<lambda>certificates.
       Inr (certificate # certificates)))"

definition parse_unique :: "('h, 'q) hash_crates \<Rightarrow> 'c x509_crate \<Rightarrow> bytes list \<Rightarrow> CertificateError + 'c ParsedCertificate list" where
  "parse_unique crates x certificates = parse_unique_loop crates x {} certificates"


section \<open>Trust\<close>

record CertificateTrust =
  ct_root_fingerprints :: "bytes set"
  ct_fingerprint :: bytes
  ct_local_certificates :: "bytes list"

text \<open>The loop of \<open>new\<close> over the configured certificates.\<close>

fun trust_roots ::
  "verification_algorithm list \<Rightarrow> 'c x509_crate \<Rightarrow> nat \<Rightarrow> 'c ParsedCertificate list \<Rightarrow> bytes set \<Rightarrow> CertificateError + bytes set" where
  "trust_roots algorithms x now [] roots = Inr roots"
| "trust_roots algorithms x now (certificate # rest) roots =
     (if is_self_issued certificate then
        bindR (rejectR (\<not> pc_is_ca certificate \<or> \<not> pc_can_sign_certificates certificate \<or> \<not> is_valid_at certificate now
          \<or> ParsedCertificate_verify_signature algorithms x certificate certificate \<noteq> Inr ()) CertificateError) (\<lambda>_.
        trust_roots algorithms x now rest (insert (pc_fingerprint certificate) roots))
      else trust_roots algorithms x now rest roots)"

definition CertificateTrust_new ::
  "('h, 'q) hash_crates \<Rightarrow> verification_algorithm list \<Rightarrow> 'c x509_crate \<Rightarrow> nat \<Rightarrow> bytes list \<Rightarrow> CertificateError + CertificateTrust" where
  "CertificateTrust_new crates algorithms x now certificates =
     bindR (rejectR (certificates = []) CertificateError) (\<lambda>_.
     bindR (parse_unique crates x certificates) (\<lambda>local.
     bindR (trust_roots algorithms x now local {}) (\<lambda>root_fingerprints.
     bindR (rejectR (root_fingerprints = {}) CertificateError) (\<lambda>_.
     let fingerprints = sort (map pc_fingerprint local);
         fingerprint = sha256_fingerprint crates (concat fingerprints)
     in Inr \<lparr> ct_root_fingerprints = root_fingerprints, ct_fingerprint = fingerprint, ct_local_certificates = certificates \<rparr>))))"


section \<open>What parsing and configuration establish\<close>

text \<open>A parsed certificate is the canonical encoding of its certificate, and nothing was accepted that the module cannot process.\<close>

lemma parse_facts:
  assumes "ParsedCertificate_parse crates x encoded = Inr p"
  shows "xc_from_der x encoded = Some (pc_certificate p)" "xc_to_der x (pc_certificate p) = Some encoded"
    "pc_fingerprint p = sha256_fingerprint crates encoded"
    "xc_signature_algorithm x (pc_certificate p) = xc_tbs_signature x (pc_certificate p)"
    "validate_critical_extensions x (pc_certificate p) = Inr ()"
    "pc_is_ca p \<longleftrightarrow> xc_basic_constraints_ca x (pc_certificate p) = Inr (Some True)"
    "\<exists>usage. xc_key_usage x (pc_certificate p) = Inr usage"
proof -
  obtain certificate constraints usage subject issuer where c:
      "xc_from_der x encoded = Some certificate" "xc_signature_algorithm x certificate = xc_tbs_signature x certificate"
      "validate_critical_extensions x certificate = Inr ()" "xc_basic_constraints_ca x certificate = Inr constraints"
      "xc_key_usage x certificate = Inr usage" "xc_to_der x certificate = Some encoded"
      "xc_subject_to_der x certificate = Some subject" "xc_issuer_to_der x certificate = Some issuer"
    and p: "p = \<lparr> pc_certificate = certificate, pc_subject = subject, pc_issuer = issuer,
            pc_fingerprint = sha256_fingerprint crates encoded,
            pc_not_before = xc_not_before x certificate, pc_not_after = xc_not_after x certificate,
            pc_is_ca = (case constraints of None \<Rightarrow> False | Some ca \<Rightarrow> ca),
            pc_can_sign_certificates = (case usage of None \<Rightarrow> True | Some usage \<Rightarrow> ku_key_cert_sign usage) \<rparr>"
    using assms unfolding ParsedCertificate_parse_def result_iffs sum.inject not_not
    by (elim exE conjE) (rule that, assumption+, auto)
  then show "xc_from_der x encoded = Some (pc_certificate p)" "xc_to_der x (pc_certificate p) = Some encoded"
    "pc_fingerprint p = sha256_fingerprint crates encoded"
    "xc_signature_algorithm x (pc_certificate p) = xc_tbs_signature x (pc_certificate p)"
    "validate_critical_extensions x (pc_certificate p) = Inr ()"
    "pc_is_ca p \<longleftrightarrow> xc_basic_constraints_ca x (pc_certificate p) = Inr (Some True)"
    "\<exists>usage. xc_key_usage x (pc_certificate p) = Inr usage"
    by (simp_all split: option.splits)
qed

lemma parse_unique_sound:
  assumes "parse_unique_loop crates x seen certificates = Inr ps"
  shows "p \<in> set ps \<Longrightarrow> \<exists>e \<in> set certificates. ParsedCertificate_parse crates x e = Inr p"
    "e \<in> set certificates \<Longrightarrow> \<exists>p. ParsedCertificate_parse crates x e = Inr p \<and> (pc_fingerprint p \<in> seen \<or> (\<exists>q \<in> set ps. pc_fingerprint q = pc_fingerprint p))"
proof -
  have "(\<forall>p \<in> set ps. \<exists>e \<in> set certificates. ParsedCertificate_parse crates x e = Inr p)
    \<and> (\<forall>e \<in> set certificates. \<exists>p. ParsedCertificate_parse crates x e = Inr p
        \<and> (pc_fingerprint p \<in> seen \<or> (\<exists>q \<in> set ps. pc_fingerprint q = pc_fingerprint p)))"
    using assms
  proof (induction certificates arbitrary: seen ps)
    case (Cons e es)
    obtain c where c: "ParsedCertificate_parse crates x e = Inr c" using Cons.prems by (auto simp: bindR_Inr_iff)
    show ?case
    proof (cases "pc_fingerprint c \<in> seen")
      case True
      then have "parse_unique_loop crates x seen es = Inr ps" using Cons.prems c by simp
      from Cons.IH [OF this] show ?thesis using c True by auto
    next
      case False
      then obtain qs where q: "parse_unique_loop crates x (insert (pc_fingerprint c) seen) es = Inr qs" "ps = c # qs"
        using Cons.prems c by (auto simp: bindR_Inr_iff)
      from Cons.IH [OF q(1)] show ?thesis using c q(2) by (auto; metis)
    qed
  qed simp
  then show "p \<in> set ps \<Longrightarrow> \<exists>e \<in> set certificates. ParsedCertificate_parse crates x e = Inr p"
    "e \<in> set certificates \<Longrightarrow> \<exists>p. ParsedCertificate_parse crates x e = Inr p \<and> (pc_fingerprint p \<in> seen \<or> (\<exists>q \<in> set ps. pc_fingerprint q = pc_fingerprint p))"
    by blast+
qed

text \<open>The conditions on a configured root.\<close>

definition root_ok :: "verification_algorithm list \<Rightarrow> 'c x509_crate \<Rightarrow> nat \<Rightarrow> 'c ParsedCertificate \<Rightarrow> bool" where
  "root_ok algorithms x now c \<longleftrightarrow> is_self_issued c \<and> pc_is_ca c \<and> pc_can_sign_certificates c \<and> is_valid_at c now
     \<and> ParsedCertificate_verify_signature algorithms x c c = Inr ()"

lemma trust_roots_iff:
  "trust_roots algorithms x now ps roots = Inr out \<longleftrightarrow>
     (\<forall>c \<in> set ps. is_self_issued c \<longrightarrow> root_ok algorithms x now c) \<and> out = roots \<union> pc_fingerprint ` {c \<in> set ps. is_self_issued c}"
proof (induction ps arbitrary: roots)
  case (Cons c ps)
  show ?case
  proof (cases "is_self_issued c")
    case True
    then show ?thesis
      using Cons.IH [of "insert (pc_fingerprint c) roots"]
      by (cases "root_ok algorithms x now c") (auto simp: root_ok_def rejectR_def bindR_Inr_iff)
  next
    case False
    then show ?thesis using Cons.IH [of roots] by auto
  qed
qed auto

lemma trust_new_roots:
  assumes "CertificateTrust_new crates algorithms x now certificates = Inr trust"
  shows "ct_local_certificates trust = certificates" "ct_root_fingerprints trust \<noteq> {}"
    "f \<in> ct_root_fingerprints trust \<Longrightarrow>
       \<exists>e \<in> set certificates. \<exists>c. ParsedCertificate_parse crates x e = Inr c \<and> pc_fingerprint c = f \<and> root_ok algorithms x now c"
proof -
  obtain ps roots where n: "parse_unique crates x certificates = Inr ps" "trust_roots algorithms x now ps {} = Inr roots" "roots \<noteq> {}"
    "ct_root_fingerprints trust = roots" "ct_local_certificates trust = certificates"
    using assms unfolding CertificateTrust_new_def Let_def bindR_Inr_iff rejectR_Inr_iff sum.inject
    by (elim exE conjE) (rule that, auto)
  show "ct_local_certificates trust = certificates" "ct_root_fingerprints trust \<noteq> {}" using n by simp_all
  show "\<exists>e \<in> set certificates. \<exists>c. ParsedCertificate_parse crates x e = Inr c \<and> pc_fingerprint c = f \<and> root_ok algorithms x now c"
    if f: "f \<in> ct_root_fingerprints trust"
  proof -
    obtain c where c: "c \<in> set ps" "is_self_issued c" "pc_fingerprint c = f" "root_ok algorithms x now c"
      using n(2,4) f unfolding trust_roots_iff by auto
    then show ?thesis using parse_unique_sound(1) n(1) unfolding parse_unique_def by blast
  qed
qed

end
