(* ===== verification/Chain_Validation.thy ===== *)
theory Chain_Validation
  imports Certificate_Chain State_File
begin

text \<open>
  \<^verbatim>\<open>src/src/certificate_chain/portable.rs\<close>, and the methods of \<open>CertificateTrust\<close> that call it. The
  path builder and the RFC 5280 checks belong to the crate \<open>certval\<close>: its settings, environment, sources, anchors,
  certificates and results are type parameters, its operations the record \<open>certval_crate\<close>. The callbacks that the
  module hands to it are definitions. The clock is an argument.
\<close>

section \<open>The path validation crate\<close>

record CertFile =
  cf_filename :: string
  cf_bytes :: bytes

datatype PathValidationStatus = Status_Valid | InvalidKeyUsage | SignatureVerificationFailure | Status_Other nat

datatype certval_error = PathValidation PathValidationStatus | Unrecognized | Certval_Other nat

record ('an, 'p) CertificationPath =
  cp_trust_anchor :: 'an
  cp_intermediates :: "'p list"
  cp_target :: 'p

type_synonym ('e, 'st, 'an, 'p, 'r) path_callback =
  "'e \<Rightarrow> 'st \<Rightarrow> ('an, 'p) CertificationPath \<Rightarrow> ('r, certval_error, unit) op"

type_synonym 'e signature_callback =
  "'e \<Rightarrow> bytes \<Rightarrow> nat \<times> bytes \<Rightarrow> AlgorithmIdentifier \<Rightarrow> SubjectPublicKeyInfo \<Rightarrow> certval_error + unit"

text \<open>The anchor format of RFC 5914, with the fields that the module leaves out.\<close>

record ('c, 'n) CertPathControls =
  cpc_ta_name :: 'n
  cpc_certificate :: "'c option"
  cpc_policy_set :: "nat list list option"
  cpc_policy_flags :: "bytes option"
  cpc_name_constr :: "bytes option"
  cpc_path_len_constraint :: "nat option"

record ('c, 'n) TrustAnchorInfo =
  tai_version :: nat
  tai_pub_key :: SubjectPublicKeyInfo
  tai_key_id :: bytes
  tai_ta_title :: "string option"
  tai_cert_path :: "('c, 'n) CertPathControls option"
  tai_extensions :: "Extension list option"
  tai_ta_title_lang_tag :: "string option"

record ('c, 'n, 'ti, 'st, 'e, 'ta, 'so, 'an, 'p, 'x, 'r) certval_crate =
  cv_any_from_oid :: "nat list \<Rightarrow> bytes option"
  cv_bits_from_bytes :: "bytes \<Rightarrow> (nat \<times> bytes) option"
  cv_octets_new :: "bytes \<Rightarrow> bytes option"
  cv_name_from_der :: "bytes \<Rightarrow> 'n option"
  cv_anchor_version :: nat
  cv_anchor_to_der :: "('c, 'n) TrustAnchorInfo \<Rightarrow> bytes option"
  cv_time_from_unix_secs :: "nat \<Rightarrow> 'ti option"
  cv_settings_new :: 'st
  cv_set_time_of_interest :: "'ti \<Rightarrow> 'st \<Rightarrow> 'st"
  cv_set_check_revocation_status :: "bool \<Rightarrow> 'st \<Rightarrow> 'st"
  cv_set_require_ta_store :: "bool \<Rightarrow> 'st \<Rightarrow> 'st"
  cv_set_forbid_self_signed_ee :: "bool \<Rightarrow> 'st \<Rightarrow> 'st"
  cv_set_enforce_trust_anchor_validity :: "bool \<Rightarrow> 'st \<Rightarrow> 'st"
  cv_set_enforce_trust_anchor_constraints :: "bool \<Rightarrow> 'st \<Rightarrow> 'st"
  cv_environment_default :: 'e
  cv_populate_5280 :: "'e \<Rightarrow> 'e"
  cv_clear_validate_path_callbacks :: "'e \<Rightarrow> 'e"
  cv_add_validate_path_callback :: "('e, 'st, 'an, 'p, 'r) path_callback \<Rightarrow> 'e \<Rightarrow> 'e"
  cv_clear_verify_signature_digest_callbacks :: "'e \<Rightarrow> 'e"
  cv_clear_verify_signature_message_callbacks :: "'e \<Rightarrow> 'e"
  cv_add_verify_signature_message_callback :: "'e signature_callback \<Rightarrow> 'e \<Rightarrow> 'e"
  cv_add_trust_anchor_source :: "'ta \<Rightarrow> 'e \<Rightarrow> 'e"
  cv_add_certificate_source :: "'so \<Rightarrow> 'e \<Rightarrow> 'e"
  cv_ta_new :: 'ta
  cv_ta_push :: "CertFile \<Rightarrow> 'ta \<Rightarrow> 'ta"
  cv_ta_initialize :: "'ta \<Rightarrow> 'ta option"
  cv_source_new :: 'so
  cv_source_push :: "CertFile \<Rightarrow> 'so \<Rightarrow> 'so"
  cv_source_initialize :: "'st \<Rightarrow> 'so \<Rightarrow> 'so option"
  cv_find_all_partial_paths :: "'e \<Rightarrow> 'st \<Rightarrow> 'so \<Rightarrow> 'so"
  cv_pdv_try_from :: "bytes \<Rightarrow> 'p option"
  cv_exts_of_interest :: "nat list list"
  cv_parse_extensions :: "nat list list \<Rightarrow> 'p \<Rightarrow> 'p"
  cv_get_extension :: "'p \<Rightarrow> nat list \<Rightarrow> certval_error + 'x option"
  cv_get_paths_for_target :: "'e \<Rightarrow> 'p \<Rightarrow> nat \<Rightarrow> 'ti \<Rightarrow> ('an, 'p) CertificationPath list option"
  cv_enforce_anchor_constraints :: "'st \<Rightarrow> 'an \<Rightarrow> 'st option"
  cv_results_new :: 'r
  cv_set_validation_status :: "PathValidationStatus \<Rightarrow> 'r \<Rightarrow> 'r"
  cv_validate_path :: "'e \<Rightarrow> ('e, 'st, 'an, 'p, 'r) path_callback"
  cv_validate_path_rfc5280 :: "('e, 'st, 'an, 'p, 'r) path_callback"
  cv_check_key_usage :: "('e, 'st, 'an, 'p, 'r) path_callback"
  cv_check_extended_key_usage :: "('e, 'st, 'an, 'p, 'r) path_callback"
  cv_check_critical_extensions :: "('e, 'st, 'an, 'p, 'r) path_callback"
  cv_verify_signatures :: "('e, 'st, 'an, 'p, 'r) path_callback"


section \<open>The callbacks\<close>

definition verify_signature :: "verification_algorithm list \<Rightarrow> 'c x509_crate \<Rightarrow> 'e signature_callback" where
  "verify_signature algorithms x environment message signature algorithm spki =
     (let failure = PathValidation SignatureVerificationFailure in
      bindR (map_errR (\<lambda>_. failure) (algorithm_identifier_contents x algorithm)) (\<lambda>sig_alg.
      bindR (map_errR (\<lambda>_. failure) (algorithm_identifier_contents x (spki_algorithm spki))) (\<lambda>key_alg.
      bindR (ok_orR Unrecognized (find (\<lambda>candidate. va_signature_alg_id candidate = sig_alg
        \<and> va_public_key_alg_id candidate = key_alg) algorithms)) (\<lambda>supported.
      bindR (ok_orR failure (bits_as_bytes (spki_public_key spki))) (\<lambda>public_key.
      bindR (ok_orR failure (bits_as_bytes signature)) (\<lambda>signature.
      if va_verify_signature supported public_key message signature then Inr () else Inl failure))))))"

definition validate_optional_ca_key_usage ::
  "('c, 'n, 'ti, 'st, 'e, 'ta, 'so, 'an, 'p, 'x, 'r) certval_crate \<Rightarrow> ('e, 'st, 'an, 'p, 'r) path_callback" where
  "validate_optional_ca_key_usage cv environment settings path results =
     (case cv_validate_path_rfc5280 cv environment settings path results of (result, results) \<Rightarrow>
       if result \<noteq> Inl (PathValidation InvalidKeyUsage) then (result, results)
       else let intermediates = filter (\<lambda>certificate. cv_get_extension cv certificate KEY_USAGE \<noteq> Inr None) (cp_intermediates path) in
         if length intermediates = length (cp_intermediates path) then (result, results)
         else let usage_path = \<lparr> cp_trust_anchor = cp_trust_anchor path, cp_intermediates = intermediates, cp_target = cp_target path \<rparr> in
           bindE (cv_check_key_usage cv environment settings usage_path) (\<lambda>_.
           bindE (cv_check_extended_key_usage cv environment settings path) (\<lambda>_.
           bindE (cv_check_critical_extensions cv environment settings path) (\<lambda>_.
           bindE (cv_verify_signatures cv environment settings path) (\<lambda>_.
           (\<lambda>results. (Inr (), cv_set_validation_status cv Status_Valid results)))))) results)"


section \<open>Validation\<close>

definition chain_settings where
  "chain_settings cv time =
     cv_set_enforce_trust_anchor_constraints cv True
       (cv_set_enforce_trust_anchor_validity cv True
         (cv_set_forbid_self_signed_ee cv True
           (cv_set_require_ta_store cv True
             (cv_set_check_revocation_status cv False
               (cv_set_time_of_interest cv time (cv_settings_new cv))))))"

definition path_environment where
  "path_environment algorithms x cv optional_ca_key_usage =
     (let environment = cv_populate_5280 cv (cv_environment_default cv);
          environment = (if optional_ca_key_usage
            then cv_add_validate_path_callback cv (validate_optional_ca_key_usage cv) (cv_clear_validate_path_callbacks cv environment)
            else environment)
      in cv_add_verify_signature_message_callback cv (verify_signature algorithms x)
           (cv_clear_verify_signature_message_callbacks cv (cv_clear_verify_signature_digest_callbacks cv environment)))"

text \<open>The loop over the paths found for the target.\<close>

fun first_valid_path where
  "first_valid_path cv environment settings [] = None"
| "first_valid_path cv environment settings (path # paths) =
     (case cv_enforce_anchor_constraints cv settings (cp_trust_anchor path) of
        None \<Rightarrow> first_valid_path cv environment settings paths
      | Some path_settings \<Rightarrow>
          (case cv_validate_path cv environment environment path_settings path (cv_results_new cv) of
             (Inr _, _) \<Rightarrow> Some path
           | (Inl _, _) \<Rightarrow> first_valid_path cv environment settings paths))"

definition presented_files :: "bytes list \<Rightarrow> CertFile list" where
  "presented_files certificates =
     map (\<lambda>(i, encoded). \<lparr> cf_filename = ''presented-'' @ decimal i, cf_bytes = encoded \<rparr>) (List.enumerate 0 certificates)"

definition validate_files where
  "validate_files crates algorithms x cv now anchor_files source_files certificates optional_ca_key_usage =
     bindR (rejectR (certificates = [] \<or> 8 < length certificates) CertificateError) (\<lambda>_.
     bindR (parse_unique crates x certificates) (\<lambda>presented.
     bindR (rejectR (presented = []) CertificateError) (\<lambda>_.
     bindR (rejectR (pc_is_ca (last presented)) CertificateError) (\<lambda>_.
     bindR (rejectR (\<exists>c \<in> set presented. \<not> is_valid_at c now) CertificateError) (\<lambda>_.
     bindR (ok_orR CertificateError (cv_time_from_unix_secs cv now)) (\<lambda>time.
     let settings = chain_settings cv time;
         environment = path_environment algorithms x cv optional_ca_key_usage;
         anchors = fold (cv_ta_push cv) anchor_files (cv_ta_new cv);
         source = fold (cv_source_push cv) source_files (cv_source_new cv);
         source = fold (cv_source_push cv) (presented_files (butlast certificates)) source in
     bindR (ok_orR CertificateError (cv_ta_initialize cv anchors)) (\<lambda>anchors.
     let environment = cv_add_trust_anchor_source cv anchors environment in
     bindR (ok_orR CertificateError (cv_source_initialize cv settings source)) (\<lambda>source.
     let source = cv_find_all_partial_paths cv environment settings source;
         environment = cv_add_certificate_source cv source environment;
         leaf = last certificates in
     bindR (ok_orR CertificateError (cv_pdv_try_from cv leaf)) (\<lambda>target.
     let target = cv_parse_extensions cv (cv_exts_of_interest cv) target in
     bindR (ok_orR CertificateError (cv_get_paths_for_target cv environment target 0 time)) (\<lambda>paths.
     case first_valid_path cv environment settings paths of
       Some _ \<Rightarrow> ParsedCertificate_parse crates x leaf
     | None \<Rightarrow> Inl CertificateError))))))))))"

text \<open>The preflight of the exception, and the split of the configured certificates into anchors and sources.\<close>

fun check_key_usage_exception where
  "check_key_usage_exception x allowed [] = Inr ()"
| "check_key_usage_exception x allowed (certificate # certificates) =
     bindR (if pc_is_ca certificate
            then bindR (map_errR (\<lambda>_. CertificateError) (xc_key_usage x (pc_certificate certificate))) (\<lambda>usage.
              rejectR (usage = None \<and> pc_fingerprint certificate \<noteq> allowed) CertificateError)
            else Inr ()) (\<lambda>_.
     check_key_usage_exception x allowed certificates)"

fun configured_files where
  "configured_files crates x roots i [] = Inr ([], [])"
| "configured_files crates x roots i (encoded # rest) =
     bindR (ParsedCertificate_parse crates x encoded) (\<lambda>cert.
     bindR (configured_files crates x roots (Suc i) rest) (\<lambda>(anchor_files, source_files).
     let certfile = \<lparr> cf_filename = ''configured-'' @ decimal i, cf_bytes = encoded \<rparr> in
     Inr (if pc_fingerprint cert \<in> roots then (certfile # anchor_files, source_files) else (anchor_files, certfile # source_files))))"

definition validate_inner where
  "validate_inner crates algorithms x cv now trust certificates optional_key_usage_issuer =
     bindR (case optional_key_usage_issuer of
         None \<Rightarrow> Inr ()
       | Some allowed \<Rightarrow>
           bindR (parse_unique crates x (ct_local_certificates trust @ certificates)) (check_key_usage_exception x allowed)) (\<lambda>_.
     bindR (configured_files crates x (ct_root_fingerprints trust) 0 (ct_local_certificates trust)) (\<lambda>(anchor_files, source_files).
     validate_files crates algorithms x cv now anchor_files source_files certificates (optional_key_usage_issuer \<noteq> None)))"

definition portable_validate where
  "portable_validate crates algorithms x cv now trust certificates =
     validate_inner crates algorithms x cv now trust certificates None"

definition validate_attestation where
  "validate_attestation crates algorithms x cv now trust certificates optional_key_usage_issuer =
     bindR (ParsedCertificate_parse crates x optional_key_usage_issuer) (\<lambda>issuer.
     bindR (rejectR (\<not> pc_is_ca issuer \<or> is_self_issued issuer) CertificateError) (\<lambda>_.
     validate_inner crates algorithms x cv now trust certificates (Some (pc_fingerprint issuer))))"

text \<open>The anchors made of the caller's key: the loop over the presented certificates, with the names used so far.\<close>

definition bare_key_anchor where
  "bare_key_anchor cv spki key_id ta_name =
     \<lparr> tai_version = cv_anchor_version cv, tai_pub_key = spki, tai_key_id = key_id, tai_ta_title = None,
       tai_cert_path = Some \<lparr> cpc_ta_name = ta_name, cpc_certificate = None, cpc_policy_set = None, cpc_policy_flags = None,
         cpc_name_constr = None, cpc_path_len_constraint = None \<rparr>,
       tai_extensions = None, tai_ta_title_lang_tag = None \<rparr>"

fun key_anchors where
  "key_anchors w x cv point spki key_id parsed names i [] = Inr []"
| "key_anchors w x cv point spki key_id parsed names i (certificate # rest) =
     (let issuers = filter (\<lambda>c. pc_subject c = pc_issuer certificate) parsed in
      if issuers \<noteq> [] \<and> \<not> (\<exists>c \<in> set issuers. ParsedCertificate_p256_public_point w x c = Inr point)
      then key_anchors w x cv point spki key_id parsed names (Suc i) rest
      else if pc_issuer certificate \<in> names then key_anchors w x cv point spki key_id parsed names (Suc i) rest
      else bindR (ok_orR CertificateError (cv_name_from_der cv (pc_issuer certificate))) (\<lambda>ta_name.
        bindR (ok_orR CertificateError (cv_anchor_to_der cv (bare_key_anchor cv spki key_id ta_name))) (\<lambda>encoded.
        bindR (key_anchors w x cv point spki key_id parsed (insert (pc_issuer certificate) names) (Suc i) rest) (\<lambda>anchors.
        Inr (\<lparr> cf_filename = ''configured-key-'' @ decimal i, cf_bytes = encoded \<rparr> # anchors)))))"

definition portable_validate_with_p256_ca_key where
  "portable_validate_with_p256_ca_key w algorithms x cv now point certificates =
     bindR (rejectR (certificates = [] \<or> 8 < length certificates) CertificateError) (\<lambda>_.
     bindR (ok_orR CertificateError (cv_any_from_oid cv P256_CURVE)) (\<lambda>parameters.
     bindR (ok_orR CertificateError (cv_bits_from_bytes cv point)) (\<lambda>subject_public_key.
     let spki = \<lparr> spki_algorithm = \<lparr> ai_oid = EC_PUBLIC_KEY, ai_parameters = Some parameters \<rparr>, spki_public_key = subject_public_key \<rparr> in
     bindR (ok_orR CertificateError (cv_octets_new cv (digest (sw_hash w) Sha1 point))) (\<lambda>key_id.
     bindR (parse_unique (sw_hash w) x certificates) (\<lambda>parsed.
     bindR (key_anchors w x cv point spki key_id parsed {} 0 parsed) (\<lambda>anchors.
     validate_files (sw_hash w) algorithms x cv now anchors [] certificates False))))))"


section \<open>The methods of the trust store\<close>

definition CertificateTrust_validate_with_p256_ca_key where
  "CertificateTrust_validate_with_p256_ca_key w algorithms x cv now point certificates =
     bindR (map_errR (\<lambda>_. CertificateError) (PublicKey_validate w (Pub_Ec EC_P256 point))) (\<lambda>_.
     bindR (portable_validate_with_p256_ca_key w algorithms x cv now point certificates) (p256_key_agreement_point w x))"

definition CertificateTrust_validate where
  "CertificateTrust_validate w algorithms x cv now self certificates =
     portable_validate (sw_hash w) algorithms x cv now self certificates"

definition validate_p256_public_point where
  "validate_p256_public_point w algorithms x cv now self certificates =
     bindR (CertificateTrust_validate w algorithms x cv now self certificates) (ParsedCertificate_p256_public_point w x)"

definition validate_p256_attestation_chain where
  "validate_p256_attestation_chain w algorithms x cv now self certificates optional_key_usage_issuer =
     bindR (validate_attestation (sw_hash w) algorithms x cv now self certificates optional_key_usage_issuer)
       (ParsedCertificate_p256_public_point w x)"

definition CertificateTrust_fingerprint :: "CertificateTrust \<Rightarrow> bytes" where
  "CertificateTrust_fingerprint self = ct_fingerprint self"

definition validate_p256_key_agreement_point where
  "validate_p256_key_agreement_point w algorithms x cv now self certificates =
     bindR (CertificateTrust_validate w algorithms x cv now self certificates) (p256_key_agreement_point w x)"


section \<open>What validation accepts\<close>

text \<open>The environment that the path is looked up in, for given sources, and the paths that it validates.\<close>

definition search_environment where
  "search_environment algorithms x cv time anchors source optional_ca_key_usage =
     (let environment = cv_add_trust_anchor_source cv anchors (path_environment algorithms x cv optional_ca_key_usage) in
      cv_add_certificate_source cv (cv_find_all_partial_paths cv environment (chain_settings cv time) source) environment)"

definition validated_path where
  "validated_path algorithms x cv now anchor_files source_files certificates optional_ca_key_usage environment settings path \<longleftrightarrow>
     (\<exists>time anchors source target paths.
        cv_time_from_unix_secs cv now = Some time
        \<and> cv_ta_initialize cv (fold (cv_ta_push cv) anchor_files (cv_ta_new cv)) = Some anchors
        \<and> cv_source_initialize cv (chain_settings cv time)
            (fold (cv_source_push cv) (source_files @ presented_files (butlast certificates)) (cv_source_new cv)) = Some source
        \<and> environment = search_environment algorithms x cv time anchors source optional_ca_key_usage
        \<and> cv_pdv_try_from cv (last certificates) = Some target
        \<and> cv_get_paths_for_target cv environment (cv_parse_extensions cv (cv_exts_of_interest cv) target) 0 time = Some paths
        \<and> path \<in> set paths \<and> cv_enforce_anchor_constraints cv (chain_settings cv time) (cp_trust_anchor path) = Some settings
        \<and> fst (cv_validate_path cv environment environment settings path (cv_results_new cv)) = Inr ())"

lemma first_valid_path_iff:
  "(\<exists>path. first_valid_path cv environment settings paths = Some path) \<longleftrightarrow>
     (\<exists>path \<in> set paths. \<exists>s. cv_enforce_anchor_constraints cv settings (cp_trust_anchor path) = Some s
        \<and> fst (cv_validate_path cv environment environment s path (cv_results_new cv)) = Inr ())"
  by (induction paths) (auto split: option.split prod.split sum.split)

lemma validate_files_iff:
  "validate_files crates algorithms x cv now anchor_files source_files certificates optional = Inr p \<longleftrightarrow>
     certificates \<noteq> [] \<and> length certificates \<le> 8
     \<and> (\<exists>presented. parse_unique crates x certificates = Inr presented \<and> presented \<noteq> [] \<and> \<not> pc_is_ca (last presented)
          \<and> (\<forall>c \<in> set presented. is_valid_at c now))
     \<and> ParsedCertificate_parse crates x (last certificates) = Inr p
     \<and> (\<exists>environment settings path.
          validated_path algorithms x cv now anchor_files source_files certificates optional environment settings path)"
proof -
  have search: "(case first_valid_path cv environment settings paths of Some _ \<Rightarrow> ParsedCertificate_parse crates x leaf | None \<Rightarrow> Inl CertificateError) = Inr p
      \<longleftrightarrow> ParsedCertificate_parse crates x leaf = Inr p
        \<and> (\<exists>path \<in> set paths. \<exists>s. cv_enforce_anchor_constraints cv settings (cp_trust_anchor path) = Some s
              \<and> fst (cv_validate_path cv environment environment s path (cv_results_new cv)) = Inr ())"
    for environment settings paths leaf
    unfolding first_valid_path_iff [symmetric] by (auto split: option.splits)
  show ?thesis
    unfolding validate_files_def result_iffs Let_def search validated_path_def search_environment_def fold_append o_apply
      not_less de_Morgan_disj not_not bex_simps Bex_def by (intro iffI; elim exE conjE; blast)
qed

text \<open>Fingerprints that tell the certificates at hand apart: every presented certificate is checked, not only one per fingerprint.\<close>

lemma parse_unique_all:
  assumes "parse_unique crates x certificates = Inr ps" "inj_on (sha256_fingerprint crates) (set certificates)" "e \<in> set certificates"
  shows "\<exists>p \<in> set ps. ParsedCertificate_parse crates x e = Inr p"
proof -
  obtain p q where p: "ParsedCertificate_parse crates x e = Inr p" "q \<in> set ps" "pc_fingerprint q = pc_fingerprint p"
    using parse_unique_sound(2) assms(1,3) unfolding parse_unique_def by blast
  obtain d where d: "d \<in> set certificates" "ParsedCertificate_parse crates x d = Inr q"
    using parse_unique_sound(1) assms(1) p(2) unfolding parse_unique_def by blast
  have "sha256_fingerprint crates d = sha256_fingerprint crates e"
    using parse_facts(3) [OF p(1)] parse_facts(3) [OF d(2)] p(3) by simp
  then have "d = e" using assms(2,3) d(1) by (simp add: inj_on_def)
  then show ?thesis using d p by auto
qed

lemma check_key_usage_exception_iff:
  "check_key_usage_exception x allowed ps = Inr () \<longleftrightarrow>
     (\<forall>c \<in> set ps. pc_is_ca c \<longrightarrow> (\<exists>usage. xc_key_usage x (pc_certificate c) = Inr usage \<and> (usage = None \<longrightarrow> pc_fingerprint c = allowed)))"
  by (induction ps) (auto simp: result_iffs)

lemma configured_files_sound:
  assumes "configured_files crates x roots i configured = Inr (anchors, sources)"
  shows "f \<in> set anchors \<Longrightarrow> cf_bytes f \<in> set configured
      \<and> (\<exists>c. ParsedCertificate_parse crates x (cf_bytes f) = Inr c \<and> pc_fingerprint c \<in> roots)"
    "f \<in> set sources \<Longrightarrow> cf_bytes f \<in> set configured"
proof -
  have "(\<forall>f \<in> set anchors. cf_bytes f \<in> set configured \<and> (\<exists>c. ParsedCertificate_parse crates x (cf_bytes f) = Inr c \<and> pc_fingerprint c \<in> roots))
    \<and> (\<forall>f \<in> set sources. cf_bytes f \<in> set configured)"
    using assms
  proof (induction configured arbitrary: i anchors sources)
    case (Cons e es)
    obtain c as ss where c: "ParsedCertificate_parse crates x e = Inr c" "configured_files crates x roots (Suc i) es = Inr (as, ss)"
      "(anchors, sources) = (let g = \<lparr> cf_filename = ''configured-'' @ decimal i, cf_bytes = e \<rparr> in
         if pc_fingerprint c \<in> roots then (g # as, ss) else (as, g # ss))"
      using Cons.prems by (auto simp: bindR_Inr_iff Let_def)
    from Cons.IH [OF c(2)] c(1,3) show ?case by (auto simp: Let_def split: if_splits)
  qed simp
  then show "f \<in> set anchors \<Longrightarrow> cf_bytes f \<in> set configured
      \<and> (\<exists>c. ParsedCertificate_parse crates x (cf_bytes f) = Inr c \<and> pc_fingerprint c \<in> roots)"
    "f \<in> set sources \<Longrightarrow> cf_bytes f \<in> set configured" by blast+
qed

lemma anchor_is_root:
  assumes "CertificateTrust_new crates algorithms x t configured = Inr trust" "inj_on (sha256_fingerprint crates) (set configured)"
    "e \<in> set configured" "ParsedCertificate_parse crates x e = Inr c" "pc_fingerprint c \<in> ct_root_fingerprints trust"
  shows "root_ok algorithms x t c"
proof -
  obtain d q where d: "d \<in> set configured" "ParsedCertificate_parse crates x d = Inr q" "pc_fingerprint q = pc_fingerprint c" "root_ok algorithms x t q"
    using trust_new_roots(3) [OF assms(1,5)] by blast
  have "sha256_fingerprint crates d = sha256_fingerprint crates e"
    using parse_facts(3) [OF assms(4)] parse_facts(3) [OF d(2)] d(3) by simp
  then have "d = e" using assms(2,3) d(1) by (simp add: inj_on_def)
  then show ?thesis using d assms(4) by simp
qed

lemma validated_chain:
  assumes "validate_inner crates algorithms x cv now trust certificates issuer = Inr leaf"
    "CertificateTrust_new crates algorithms x t configured = Inr trust"
    "inj_on (sha256_fingerprint crates) (set configured \<union> set certificates)"
  shows "certificates \<noteq> []" "length certificates \<le> 8" "ParsedCertificate_parse crates x (last certificates) = Inr leaf"
    "\<forall>e \<in> set certificates. \<exists>c. ParsedCertificate_parse crates x e = Inr c \<and> is_valid_at c now"
    "\<exists>anchors sources environment settings path.
       validated_path algorithms x cv now anchors sources certificates (issuer \<noteq> None) environment settings path
       \<and> (\<forall>f \<in> set anchors. cf_bytes f \<in> set configured
            \<and> (\<exists>c. ParsedCertificate_parse crates x (cf_bytes f) = Inr c \<and> root_ok algorithms x t c))
       \<and> (\<forall>f \<in> set sources. cf_bytes f \<in> set configured)"
proof -
  obtain anchors sources where split: "configured_files crates x (ct_root_fingerprints trust) 0 (ct_local_certificates trust) = Inr (anchors, sources)"
      and accepted: "validate_files crates algorithms x cv now anchors sources certificates (issuer \<noteq> None) = Inr leaf"
    using assms(1) unfolding validate_inner_def by (auto simp: bindR_Inr_iff)
  have local: "ct_local_certificates trust = configured" by (rule trust_new_roots(1) [OF assms(2)])
  have inj: "inj_on (sha256_fingerprint crates) (set configured)" "inj_on (sha256_fingerprint crates) (set certificates)"
    using assms(3) by (auto intro: inj_on_subset)
  note files = configured_files_sound [OF split [unfolded local]]
  note accepted' = accepted [unfolded validate_files_iff]
  show "certificates \<noteq> []" "length certificates \<le> 8" "ParsedCertificate_parse crates x (last certificates) = Inr leaf"
    using accepted' by blast+
  show "\<forall>e \<in> set certificates. \<exists>c. ParsedCertificate_parse crates x e = Inr c \<and> is_valid_at c now"
    using accepted' parse_unique_all [OF _ inj(2)] by blast
  have "\<forall>f \<in> set anchors. cf_bytes f \<in> set configured
      \<and> (\<exists>c. ParsedCertificate_parse crates x (cf_bytes f) = Inr c \<and> root_ok algorithms x t c)"
    using files(1) anchor_is_root [OF assms(2) inj(1)] by blast
  with accepted' files(2) show "\<exists>anchors sources environment settings path.
       validated_path algorithms x cv now anchors sources certificates (issuer \<noteq> None) environment settings path
       \<and> (\<forall>f \<in> set anchors. cf_bytes f \<in> set configured
            \<and> (\<exists>c. ParsedCertificate_parse crates x (cf_bytes f) = Inr c \<and> root_ok algorithms x t c))
       \<and> (\<forall>f \<in> set sources. cf_bytes f \<in> set configured)" by blast
qed

text \<open>The key of an accepted key-agreement leaf.\<close>

lemma key_agreement_leaf:
  assumes "p256_key_agreement_point w x leaf = Inr point"
  shows "\<not> pc_is_ca leaf" "p256_public_point w x (pc_certificate leaf) = Inr point" "PublicKey_validate w (Pub_Ec EC_P256 point) = Inr ()"
    "xc_key_usage x (pc_certificate leaf) = Inr (Some usage) \<Longrightarrow> ku_key_agreement usage"
proof -
  obtain u where u: "xc_key_usage x (pc_certificate leaf) = Inr u" "\<not> pc_is_ca leaf" "\<not> (case u of None \<Rightarrow> False | Some usage \<Rightarrow> \<not> ku_key_agreement usage)"
    "p256_public_point w x (pc_certificate leaf) = Inr point"
    using assms unfolding p256_key_agreement_point_def ParsedCertificate_p256_public_point_def result_iffs by blast
  show "\<not> pc_is_ca leaf" "p256_public_point w x (pc_certificate leaf) = Inr point" by (fact u)+
  show "PublicKey_validate w (Pub_Ec EC_P256 point) = Inr ()"
    using u(4) unfolding p256_public_point_def Let_def result_iffs by auto
  show "xc_key_usage x (pc_certificate leaf) = Inr (Some usage) \<Longrightarrow> ku_key_agreement usage" using u(1,3) by simp
qed

text \<open>The fallback of the exception: the path failed only at the key usage of its issuers, and what it then has to pass.\<close>

definition accepted_without_usage where
  "accepted_without_usage cv environment settings path \<longleftrightarrow>
     (\<exists>r. fst (cv_validate_path_rfc5280 cv environment settings path r) = Inl (PathValidation InvalidKeyUsage))
     \<and> (\<exists>c \<in> set (cp_intermediates path). cv_get_extension cv c KEY_USAGE = Inr None)
     \<and> (\<exists>r. fst (cv_check_key_usage cv environment settings
          \<lparr> cp_trust_anchor = cp_trust_anchor path,
            cp_intermediates = filter (\<lambda>c. cv_get_extension cv c KEY_USAGE \<noteq> Inr None) (cp_intermediates path),
            cp_target = cp_target path \<rparr> r) = Inr ())
     \<and> (\<exists>r. fst (cv_check_extended_key_usage cv environment settings path r) = Inr ())
     \<and> (\<exists>r. fst (cv_check_critical_extensions cv environment settings path r) = Inr ())
     \<and> (\<exists>r. fst (cv_verify_signatures cv environment settings path r) = Inr ())"

lemma bindE_accepts: "fst (bindE m f r) = Inr y \<longleftrightarrow> (\<exists>v r'. m r = (Inr v, r') \<and> fst (f v r') = Inr y)"
  by (auto simp: bindE_def split: prod.splits sum.splits)

lemma optional_usage_accepts:
  assumes "fst (validate_optional_ca_key_usage cv environment settings path r) = Inr ()"
  shows "fst (cv_validate_path_rfc5280 cv environment settings path r) = Inr () \<or> accepted_without_usage cv environment settings path"
proof (cases "fst (cv_validate_path_rfc5280 cv environment settings path r) = Inl (PathValidation InvalidKeyUsage)")
  case False
  then show ?thesis using assms by (auto simp: validate_optional_ca_key_usage_def split: prod.splits)
next
  case True
  let ?keep = "\<lambda>c. cv_get_extension cv c KEY_USAGE \<noteq> Inr None"
  obtain r' where r': "cv_validate_path_rfc5280 cv environment settings path r = (Inl (PathValidation InvalidKeyUsage), r')"
    using True by (cases "cv_validate_path_rfc5280 cv environment settings path r") simp
  have n: "length (filter ?keep (cp_intermediates path)) \<noteq> length (cp_intermediates path)"
    using assms r' by (auto simp: validate_optional_ca_key_usage_def Let_def split: if_splits)
  then have "\<exists>c \<in> set (cp_intermediates path). cv_get_extension cv c KEY_USAGE = Inr None"
    by (metis (mono_tags, lifting) filter_True)
  moreover obtain r1 r2 r3 r4 where
      "cv_check_key_usage cv environment settings \<lparr> cp_trust_anchor = cp_trust_anchor path,
         cp_intermediates = filter ?keep (cp_intermediates path), cp_target = cp_target path \<rparr> r' = (Inr (), r1)"
      "cv_check_extended_key_usage cv environment settings path r1 = (Inr (), r2)"
      "cv_check_critical_extensions cv environment settings path r2 = (Inr (), r3)"
      "cv_verify_signatures cv environment settings path r3 = (Inr (), r4)"
    using assms unfolding validate_optional_ca_key_usage_def r' prod.case Let_def if_not_P [OF n] by (auto simp: bindE_accepts)
  ultimately show ?thesis using True unfolding accepted_without_usage_def by (metis fst_conv)
qed

text \<open>
  What the crate documents of its environment, for one callback: once the callback is registered alone, the other
  operations that the module calls leave it in place, and a path is valid only when the callback accepts it.
\<close>

definition sole_path_callback where
  "sole_path_callback cv callback registered \<longleftrightarrow>
     (\<forall>e. registered (cv_add_validate_path_callback cv callback (cv_clear_validate_path_callbacks cv e)))
     \<and> (\<forall>e. registered e \<longrightarrow> registered (cv_clear_verify_signature_digest_callbacks cv e)
          \<and> registered (cv_clear_verify_signature_message_callbacks cv e)
          \<and> (\<forall>f. registered (cv_add_verify_signature_message_callback cv f e))
          \<and> (\<forall>a. registered (cv_add_trust_anchor_source cv a e)) \<and> (\<forall>a. registered (cv_add_certificate_source cv a e)))
     \<and> (\<forall>e environment settings path r. registered e \<and> fst (cv_validate_path cv e environment settings path r) = Inr ()
          \<longrightarrow> (\<exists>r. fst (callback environment settings path r) = Inr ()))"

lemma exception_environment:
  assumes "sole_path_callback cv (validate_optional_ca_key_usage cv) registered"
  shows "registered (search_environment algorithms x cv time anchors source True)"
  using assms unfolding sole_path_callback_def search_environment_def path_environment_def Let_def by simp

lemma exception_path:
  assumes "validated_path algorithms x cv now anchors sources certificates True environment settings path"
    "sole_path_callback cv (validate_optional_ca_key_usage cv) registered"
  shows "(\<exists>r. fst (cv_validate_path_rfc5280 cv environment settings path r) = Inr ()) \<or> accepted_without_usage cv environment settings path"
proof -
  have "registered environment" using assms(1) exception_environment [OF assms(2)] unfolding validated_path_def by blast
  then obtain r where "fst (validate_optional_ca_key_usage cv environment settings path r) = Inr ()"
    using assms unfolding validated_path_def sole_path_callback_def by blast
  from optional_usage_accepts [OF this] show ?thesis by blast
qed

lemma key_anchors_sound:
  assumes "key_anchors w x cv point spki key_id parsed names i ps = Inr anchors" "f \<in> set anchors"
  shows "\<exists>c \<in> set ps. \<exists>ta_name. cv_name_from_der cv (pc_issuer c) = Some ta_name
    \<and> cv_anchor_to_der cv (bare_key_anchor cv spki key_id ta_name) = Some (cf_bytes f)"
  using assms
proof (induction ps arbitrary: names i anchors)
  case (Cons c ps)
  let ?skip = "(filter (\<lambda>d. pc_subject d = pc_issuer c) parsed \<noteq> []
    \<and> \<not> (\<exists>d \<in> set (filter (\<lambda>d. pc_subject d = pc_issuer c) parsed). ParsedCertificate_p256_public_point w x d = Inr point)) \<or> pc_issuer c \<in> names"
  show ?case
  proof (cases ?skip)
    case True
    then have "key_anchors w x cv point spki key_id parsed names (Suc i) ps = Inr anchors"
      using Cons.prems(1) by (auto simp: Let_def split: if_splits)
    from Cons.IH [OF this Cons.prems(2)] show ?thesis by auto
  next
    case False
    then obtain ta_name encoded rest where n: "cv_name_from_der cv (pc_issuer c) = Some ta_name"
        "cv_anchor_to_der cv (bare_key_anchor cv spki key_id ta_name) = Some encoded"
        "key_anchors w x cv point spki key_id parsed (insert (pc_issuer c) names) (Suc i) ps = Inr rest"
        "anchors = \<lparr> cf_filename = ''configured-key-'' @ decimal i, cf_bytes = encoded \<rparr> # rest"
      using Cons.prems(1) by (auto simp: Let_def result_iffs split: if_splits)
    show ?thesis using n(1,2,4) Cons.prems(2) Cons.IH [OF n(3)] by auto
  qed
qed simp

text \<open>
  C34: A validated chain ends at a configured root. When the trust store was made from configured certificates and
  validation returns a key-agreement point, the chain has one to eight certificates, every one parsed and valid at the
  time of validation, and the point is the P-256 key, on the curve, of the last of them, which is not a CA and whose key
  usage, if present, allows key agreement. The path was validated in an environment whose anchors are configured
  certificates only, each of them a self-issued CA that may sign certificates, was valid when the store was made and
  signed itself; no presented certificate is an anchor. The fingerprints are assumed to tell the certificates apart.
\<close>

theorem chain_validation_anchored:
  assumes "CertificateTrust_new (sw_hash w) algorithms x t configured = Inr trust"
    "validate_p256_key_agreement_point w algorithms x cv now trust certificates = Inr point"
    "inj_on (sha256_fingerprint (sw_hash w)) (set configured \<union> set certificates)"
  shows "certificates \<noteq> [] \<and> length certificates \<le> 8
    \<and> (\<forall>e \<in> set certificates. \<exists>c. ParsedCertificate_parse (sw_hash w) x e = Inr c \<and> is_valid_at c now)
    \<and> (\<exists>leaf. ParsedCertificate_parse (sw_hash w) x (last certificates) = Inr leaf \<and> \<not> pc_is_ca leaf
         \<and> (\<forall>usage. xc_key_usage x (pc_certificate leaf) = Inr (Some usage) \<longrightarrow> ku_key_agreement usage)
         \<and> p256_public_point w x (pc_certificate leaf) = Inr point) \<and> PublicKey_validate w (Pub_Ec EC_P256 point) = Inr ()
    \<and> (\<exists>anchors sources environment settings path.
         validated_path algorithms x cv now anchors sources certificates False environment settings path
         \<and> (\<forall>f \<in> set anchors. cf_bytes f \<in> set configured
              \<and> (\<exists>c. ParsedCertificate_parse (sw_hash w) x (cf_bytes f) = Inr c \<and> root_ok algorithms x t c))
         \<and> (\<forall>f \<in> set sources. cf_bytes f \<in> set configured))"
proof -
  obtain leaf where leaf: "validate_inner (sw_hash w) algorithms x cv now trust certificates None = Inr leaf"
      "p256_key_agreement_point w x leaf = Inr point"
    using assms(2) unfolding validate_p256_key_agreement_point_def CertificateTrust_validate_def portable_validate_def bindR_Inr_iff by blast
  note chain = validated_chain [OF leaf(1) assms(1,3)]
  show ?thesis using chain [simplified] key_agreement_leaf [OF leaf(2)] by blast
qed

text \<open>
  C35: The key-usage exception names one certificate. When an attestation chain is accepted, the named issuer is a CA and
  not self-issued, and it is the only CA without a key-usage extension among the configured and the presented
  certificates. The path that was accepted passed all of RFC 5280, or failed there at key usage only, has an issuer without
  the extension, and passed the key-usage check for every issuer that has the extension, or a malformed one, and the
  remaining checks, signatures included, on the whole path. Its anchors are configured roots.
\<close>

theorem attestation_exception:
  assumes "CertificateTrust_new crates algorithms x t configured = Inr trust"
    "validate_attestation crates algorithms x cv now trust certificates named = Inr leaf"
    "inj_on (sha256_fingerprint crates) (insert named (set configured \<union> set certificates))"
    "sole_path_callback cv (validate_optional_ca_key_usage cv) registered"
  shows "ParsedCertificate_parse crates x (last certificates) = Inr leaf
    \<and> (\<exists>issuer. ParsedCertificate_parse crates x named = Inr issuer \<and> pc_is_ca issuer \<and> \<not> is_self_issued issuer)
    \<and> (\<forall>e \<in> set configured \<union> set certificates. \<forall>c. ParsedCertificate_parse crates x e = Inr c \<and> pc_is_ca c
         \<and> xc_key_usage x (pc_certificate c) = Inr None \<longrightarrow> e = named)
    \<and> (\<exists>anchors sources environment settings path.
         validated_path algorithms x cv now anchors sources certificates True environment settings path
         \<and> ((\<exists>r. fst (cv_validate_path_rfc5280 cv environment settings path r) = Inr ()) \<or> accepted_without_usage cv environment settings path)
         \<and> (\<forall>f \<in> set anchors. cf_bytes f \<in> set configured
              \<and> (\<exists>c. ParsedCertificate_parse crates x (cf_bytes f) = Inr c \<and> root_ok algorithms x t c)))"
proof -
  obtain issuer where issuer: "ParsedCertificate_parse crates x named = Inr issuer" "pc_is_ca issuer" "\<not> is_self_issued issuer"
      and inner: "validate_inner crates algorithms x cv now trust certificates (Some (pc_fingerprint issuer)) = Inr leaf"
    using assms(2) unfolding validate_attestation_def result_iffs by blast
  have inj: "inj_on (sha256_fingerprint crates) (set configured \<union> set certificates)" using assms(3) by (rule inj_on_subset) auto
  note chain = validated_chain [OF inner assms(1) inj]
  obtain ps where ps: "parse_unique crates x (configured @ certificates) = Inr ps" "check_key_usage_exception x (pc_fingerprint issuer) ps = Inr ()"
    using inner trust_new_roots(1) [OF assms(1)] unfolding validate_inner_def by (auto simp: bindR_Inr_iff)
  have only: "e = named" if e: "e \<in> set configured \<union> set certificates" "ParsedCertificate_parse crates x e = Inr c" "pc_is_ca c"
    "xc_key_usage x (pc_certificate c) = Inr None" for e c
  proof -
    have "c \<in> set ps" using parse_unique_all [OF ps(1), of e] inj e(1,2) by auto
    then have "pc_fingerprint c = pc_fingerprint issuer" using ps(2) e(3,4) unfolding check_key_usage_exception_iff by auto
    then have "sha256_fingerprint crates e = sha256_fingerprint crates named" using parse_facts(3) [OF e(2)] parse_facts(3) [OF issuer(1)] by simp
    then show ?thesis using assms(3) e(1) by (auto simp: inj_on_def)
  qed
  obtain anchors sources environment settings path where
      path: "validated_path algorithms x cv now anchors sources certificates True environment settings path"
      and roots: "\<forall>f \<in> set anchors. cf_bytes f \<in> set configured
        \<and> (\<exists>c. ParsedCertificate_parse crates x (cf_bytes f) = Inr c \<and> root_ok algorithms x t c)"
    using chain(5) by auto
  show ?thesis
    by (intro conjI) (use chain(3) issuer only path roots exception_path [OF path assms(4)] in blast)+
qed

text \<open>
  A chain validated with a bare CA key ends at that key. The key is a point of P-256 and the result the key of the
  last certificate, which is not a CA. Every anchor is the caller's key with its SHA-1 identifier under the
  issuer name of a presented certificate, with no other restriction or certificate; there are no other sources.
\<close>

theorem bare_key_anchored:
  assumes "CertificateTrust_validate_with_p256_ca_key w algorithms x cv now ca_point certificates = Inr point"
  shows "PublicKey_validate w (Pub_Ec EC_P256 ca_point) = Inr () \<and> certificates \<noteq> [] \<and> length certificates \<le> 8
    \<and> (\<exists>leaf. ParsedCertificate_parse (sw_hash w) x (last certificates) = Inr leaf \<and> \<not> pc_is_ca leaf
         \<and> p256_public_point w x (pc_certificate leaf) = Inr point)
    \<and> (\<exists>parameters bits key_id anchors environment settings path.
         cv_any_from_oid cv P256_CURVE = Some parameters \<and> cv_bits_from_bytes cv ca_point = Some bits
         \<and> cv_octets_new cv (digest (sw_hash w) Sha1 ca_point) = Some key_id
         \<and> validated_path algorithms x cv now anchors [] certificates False environment settings path
         \<and> (\<forall>f \<in> set anchors. \<exists>e \<in> set certificates. \<exists>c ta_name. ParsedCertificate_parse (sw_hash w) x e = Inr c
              \<and> cv_name_from_der cv (pc_issuer c) = Some ta_name
              \<and> cv_anchor_to_der cv (bare_key_anchor cv
                  \<lparr> spki_algorithm = \<lparr> ai_oid = EC_PUBLIC_KEY, ai_parameters = Some parameters \<rparr>, spki_public_key = bits \<rparr> key_id ta_name)
                = Some (cf_bytes f)))"
proof -
  obtain leaf where ca: "PublicKey_validate w (Pub_Ec EC_P256 ca_point) = Inr ()"
      and p: "portable_validate_with_p256_ca_key w algorithms x cv now ca_point certificates = Inr leaf"
      and point: "p256_key_agreement_point w x leaf = Inr point"
    using assms unfolding CertificateTrust_validate_with_p256_ca_key_def result_iffs by auto
  obtain parameters bits key_id parsed anchors where
      k: "cv_any_from_oid cv P256_CURVE = Some parameters" "cv_bits_from_bytes cv ca_point = Some bits"
        "cv_octets_new cv (digest (sw_hash w) Sha1 ca_point) = Some key_id"
      and parsed: "parse_unique (sw_hash w) x certificates = Inr parsed"
      and a: "key_anchors w x cv ca_point \<lparr> spki_algorithm = \<lparr> ai_oid = EC_PUBLIC_KEY, ai_parameters = Some parameters \<rparr>, spki_public_key = bits \<rparr>
        key_id parsed {} 0 parsed = Inr anchors"
      and v: "validate_files (sw_hash w) algorithms x cv now anchors [] certificates False = Inr leaf"
    using p unfolding portable_validate_with_p256_ca_key_def Let_def result_iffs by blast
  have origin: "\<exists>e \<in> set certificates. ParsedCertificate_parse (sw_hash w) x e = Inr c" if "c \<in> set parsed" for c
    using parse_unique_sound(1) parsed that unfolding parse_unique_def by blast
  have anchored: "\<exists>e \<in> set certificates. \<exists>c ta_name. ParsedCertificate_parse (sw_hash w) x e = Inr c
      \<and> cv_name_from_der cv (pc_issuer c) = Some ta_name
      \<and> cv_anchor_to_der cv (bare_key_anchor cv
          \<lparr> spki_algorithm = \<lparr> ai_oid = EC_PUBLIC_KEY, ai_parameters = Some parameters \<rparr>, spki_public_key = bits \<rparr> key_id ta_name)
        = Some (cf_bytes f)" if "f \<in> set anchors" for f
    using key_anchors_sound [OF a that] origin by meson
  obtain environment settings path where path: "validated_path algorithms x cv now anchors [] certificates False environment settings path"
      and leaf: "certificates \<noteq> []" "length certificates \<le> 8" "ParsedCertificate_parse (sw_hash w) x (last certificates) = Inr leaf"
    using v unfolding validate_files_iff by blast
  show ?thesis
    by (intro conjI exI [of _ leaf]) (use ca k path leaf anchored key_agreement_leaf [OF point] in blast)+
qed

text \<open>
  C36: The check that the leaf is not a CA reads the wrong certificate when the leaf repeats. It looks at the last of the
  certificates without repetitions, and validation continues with the last certificate presented: a chain that ends in a CA
  certificate presented before, with any end-entity certificate between, is accepted with the CA as its leaf when the CA has
  a valid path. The chain of the CA alone is rejected.
\<close>

theorem repeated_ca_leaf_accepted:
  assumes "ParsedCertificate_parse crates x ca = Inr c" "ParsedCertificate_parse crates x end_entity = Inr d"
    "pc_is_ca c" "\<not> pc_is_ca d" "pc_fingerprint c \<noteq> pc_fingerprint d" "is_valid_at c now" "is_valid_at d now"
    "validated_path algorithms x cv now anchors sources [ca, end_entity, ca] optional environment settings path"
  shows "validate_files crates algorithms x cv now anchors sources [ca, end_entity, ca] optional = Inr c
    \<and> validate_files crates algorithms x cv now anchors sources [ca] optional = Inl CertificateError"
proof
  have "parse_unique crates x [ca, end_entity, ca] = Inr [c, d]" using assms(1,2,5) by (auto simp: parse_unique_def bindR_def)
  then show "validate_files crates algorithms x cv now anchors sources [ca, end_entity, ca] optional = Inr c"
    unfolding validate_files_iff using assms by auto
  show "validate_files crates algorithms x cv now anchors sources [ca] optional = Inl CertificateError"
    using assms(1,3) by (simp add: validate_files_def parse_unique_def bindR_def rejectR_def)
qed

section \<open>Witnesses\<close>

text \<open>A certificate of the stand-in is three bytes: its kind (an end entity, a CA, a CA without key usage), its subject and its issuer.\<close>

definition sample_x509 :: "bytes x509_crate" where
  "sample_x509 =
     \<lparr> xc_from_der = Some, xc_to_der = Some, xc_signature_algorithm = (\<lambda>_. \<lparr> ai_oid = [1], ai_parameters = None \<rparr>),
       xc_signature = (\<lambda>c. (0, [c ! 2])), xc_tbs_signature = (\<lambda>_. \<lparr> ai_oid = [1], ai_parameters = None \<rparr>), xc_tbs_to_der = Some,
       xc_extensions = (\<lambda>_. None), xc_policies = (\<lambda>_. Inr None), xc_basic_constraints_ca = (\<lambda>c. Inr (Some (c ! 0 \<noteq> 0))),
       xc_key_usage = (\<lambda>c. Inr (if c ! 0 = 1 then Some \<lparr> ku_key_cert_sign = True, ku_key_agreement = False \<rparr> else None)),
       xc_subject_to_der = (\<lambda>c. Some [c ! 1]), xc_issuer_to_der = (\<lambda>c. Some [c ! 2]), xc_not_before = (\<lambda>_. 0), xc_not_after = (\<lambda>_. 100),
       xc_subject_public_key_info = (\<lambda>c. \<lparr> spki_algorithm = \<lparr> ai_oid = EC_PUBLIC_KEY, ai_parameters = Some [7] \<rparr>, spki_public_key = (0, [c ! 1]) \<rparr>),
       xc_oid_to_der = (\<lambda>_. Some []), xc_any_to_der = Some, xc_any_as_oid = (\<lambda>_. Some P256_CURVE) \<rparr>"

definition sample_algorithms :: "verification_algorithm list" where
  "sample_algorithms = [\<lparr> va_signature_alg_id = [], va_public_key_alg_id = [7], va_verify_signature = (\<lambda>key message signature. key = signature) \<rparr>]"

definition sample_check :: "byte set \<Rightarrow> (bytes, bytes) CertificationPath \<Rightarrow> (unit, certval_error, unit) op" where
  "sample_check kinds path = (\<lambda>r. (if \<forall>c \<in> set (cp_intermediates path). c ! 0 \<in> kinds then Inr () else Inl (PathValidation InvalidKeyUsage), r))"

definition sample_certval ::
  "(bytes, bytes, nat, unit, bool \<times> bytes list \<times> bytes list, bytes list, bytes list, bytes, bytes, bytes, unit) certval_crate" where
  "sample_certval =
     \<lparr> cv_any_from_oid = (\<lambda>_. Some [7]), cv_bits_from_bytes = (\<lambda>b. Some (0, b)), cv_octets_new = Some, cv_name_from_der = Some,
       cv_anchor_version = 1, cv_anchor_to_der = (\<lambda>a. Some (snd (spki_public_key (tai_pub_key a)))), cv_time_from_unix_secs = Some,
       cv_settings_new = (), cv_set_time_of_interest = (\<lambda>_ s. s), cv_set_check_revocation_status = (\<lambda>_ s. s),
       cv_set_require_ta_store = (\<lambda>_ s. s), cv_set_forbid_self_signed_ee = (\<lambda>_ s. s),
       cv_set_enforce_trust_anchor_validity = (\<lambda>_ s. s), cv_set_enforce_trust_anchor_constraints = (\<lambda>_ s. s),
       cv_environment_default = (False, [], []), cv_populate_5280 = (\<lambda>e. e), cv_clear_validate_path_callbacks = (\<lambda>e. e),
       cv_add_validate_path_callback = (\<lambda>_ (_, a, s). (True, a, s)), cv_clear_verify_signature_digest_callbacks = (\<lambda>e. e),
       cv_clear_verify_signature_message_callbacks = (\<lambda>e. e), cv_add_verify_signature_message_callback = (\<lambda>_ e. e),
       cv_add_trust_anchor_source = (\<lambda>a (b, _, s). (b, a, s)), cv_add_certificate_source = (\<lambda>s (b, a, _). (b, a, s)),
       cv_ta_new = [], cv_ta_push = (\<lambda>f a. a @ [cf_bytes f]), cv_ta_initialize = Some,
       cv_source_new = [], cv_source_push = (\<lambda>f s. s @ [cf_bytes f]), cv_source_initialize = (\<lambda>_. Some),
       cv_find_all_partial_paths = (\<lambda>_ _ s. s), cv_pdv_try_from = Some, cv_exts_of_interest = [], cv_parse_extensions = (\<lambda>_ p. p),
       cv_get_extension = (\<lambda>c _. Inr (if c ! 0 = 2 then None else Some [])),
       cv_get_paths_for_target = (\<lambda>(_, a, s) p _ _. Some (map (\<lambda>t. \<lparr> cp_trust_anchor = t, cp_intermediates = s, cp_target = p \<rparr>) a)),
       cv_enforce_anchor_constraints = (\<lambda>s _. Some s), cv_results_new = (), cv_set_validation_status = (\<lambda>_ r. r),
       cv_validate_path = (\<lambda>(b, _) _ _ path. sample_check (if b then {1, 2} else {0, 1}) path),
       cv_validate_path_rfc5280 = (\<lambda>_ _ path. sample_check {0, 1} path), cv_check_key_usage = (\<lambda>_ _ path. sample_check {1} path),
       cv_check_extended_key_usage = (\<lambda>_ _ _. okE ()), cv_check_critical_extensions = (\<lambda>_ _ _. okE ()),
       cv_verify_signatures = (\<lambda>_ _ _. okE ()) \<rparr>"

lemma sample_parse:
  "ParsedCertificate_parse crates sample_x509 c = Inr
     \<lparr> pc_certificate = c, pc_subject = [c ! 1], pc_issuer = [c ! 2], pc_fingerprint = sha256_fingerprint crates c,
       pc_not_before = 0, pc_not_after = 100, pc_is_ca = (c ! 0 \<noteq> 0), pc_can_sign_certificates = True \<rparr>"
  by (simp add: ParsedCertificate_parse_def sample_x509_def validate_critical_extensions_def bindR_def ok_orR_def rejectR_def map_errR_def)

lemma sample_fingerprint: "sha256_fingerprint (sw_hash sample_world) [a, b, c] = c # b # a # replicate 29 0"
  by (simp add: sha256_fingerprint_def sample_world_def sample_hashes_def digest_def resize_def numeral_eq_Suc)

lemma sample_x509_simps:
  "xc_signature_algorithm sample_x509 c = \<lparr> ai_oid = [1], ai_parameters = None \<rparr>" "xc_signature sample_x509 c = (0, [c ! 2])"
  "xc_tbs_signature sample_x509 c = \<lparr> ai_oid = [1], ai_parameters = None \<rparr>" "xc_tbs_to_der sample_x509 c = Some c"
  "xc_key_usage sample_x509 c = Inr (if c ! 0 = 1 then Some \<lparr> ku_key_cert_sign = True, ku_key_agreement = False \<rparr> else None)"
  "xc_subject_public_key_info sample_x509 c = \<lparr> spki_algorithm = \<lparr> ai_oid = EC_PUBLIC_KEY, ai_parameters = Some [7] \<rparr>, spki_public_key = (0, [c ! 1]) \<rparr>"
  "xc_oid_to_der sample_x509 oid = Some []" "xc_any_to_der sample_x509 a = Some a" "xc_any_as_oid sample_x509 a = Some P256_CURVE"
  by (simp_all add: sample_x509_def)

lemma sample_self_signed: "verify_certificate_signature sample_algorithms sample_x509 [a, b, b] [a, b, b] = Inr ()"
  by (simp add: verify_certificate_signature_def sample_x509_simps sample_algorithms_def algorithm_identifier_contents_def
      bits_as_bytes_def bindR_def ok_orR_def rejectR_def)

lemma sample_point: "p256_public_point sample_world sample_x509 c = Inr [c ! 1]"
  by (simp add: p256_public_point_def Let_def sample_x509_simps algorithm_parameter_oid_def bits_as_bytes_def PublicKey_validate_def
      validate_ec_def sample_ec_def bindR_def ok_orR_def rejectR_def map_errR_def)

lemma sample_trust:
  "CertificateTrust_new (sw_hash sample_world) sample_algorithms sample_x509 0 [[1, 7, 7]] = Inr
     \<lparr> ct_root_fingerprints = {7 # 7 # 1 # replicate 29 0},
       ct_fingerprint = sha256_fingerprint (sw_hash sample_world) (7 # 7 # 1 # replicate 29 0), ct_local_certificates = [[1, 7, 7]] \<rparr>"
  by (simp add: CertificateTrust_new_def parse_unique_def sample_parse sample_fingerprint is_self_issued_def is_valid_at_def
      ParsedCertificate_verify_signature_def sample_self_signed bindR_def rejectR_def)

lemma sample_certval_simps:
  "cv_any_from_oid sample_certval oid = Some [7]" "cv_bits_from_bytes sample_certval d = Some (0, d)" "cv_octets_new sample_certval d = Some d"
  "cv_name_from_der sample_certval d = Some d" "cv_anchor_to_der sample_certval i = Some (snd (spki_public_key (tai_pub_key i)))"
  "cv_environment_default sample_certval = (False, [], [])" "cv_populate_5280 sample_certval e = e"
  "cv_clear_validate_path_callbacks sample_certval e = e" "cv_add_validate_path_callback sample_certval f e = (True, snd e)"
  "cv_clear_verify_signature_digest_callbacks sample_certval e = e" "cv_clear_verify_signature_message_callbacks sample_certval e = e"
  "cv_add_verify_signature_message_callback sample_certval v e = e" "cv_add_trust_anchor_source sample_certval a (g, a', b) = (g, a, b)"
  "cv_add_certificate_source sample_certval b (g, a, b') = (g, a, b)" "cv_find_all_partial_paths sample_certval e st b = b"
  "cv_time_from_unix_secs sample_certval t = Some t" "cv_ta_initialize sample_certval a = Some a"
  "cv_source_initialize sample_certval st b = Some b" "cv_pdv_try_from sample_certval d = Some d" "cv_ta_new sample_certval = []"
  "cv_source_new sample_certval = []" "cv_parse_extensions sample_certval xs d = d"
  "cv_get_extension sample_certval d oid = Inr (if d ! 0 = 2 then None else Some [])"
  "cv_get_paths_for_target sample_certval (g, a, b) d n t = Some (map (\<lambda>t. \<lparr> cp_trust_anchor = t, cp_intermediates = b, cp_target = d \<rparr>) a)"
  "cv_enforce_anchor_constraints sample_certval st an = Some st"
  "cv_validate_path sample_certval (g, y) e st path r = sample_check (if g then {1, 2} else {0, 1}) path r"
  "cv_validate_path_rfc5280 sample_certval e st path = sample_check {0, 1} path" "cv_check_key_usage sample_certval e st path = sample_check {1} path"
  "cv_check_extended_key_usage sample_certval e st path = okE ()" "cv_check_critical_extensions sample_certval e st path = okE ()"
  "cv_verify_signatures sample_certval e st path = okE ()"
  by (simp_all add: sample_certval_def case_prod_beta)

text \<open>The stand-in validates the path from any anchor through the sources when the kinds of the sources allow it.\<close>

lemma sample_path:
  assumes "anchors \<noteq> []" "\<forall>c \<in> set (map cf_bytes sources @ butlast certificates). c ! 0 \<in> (if optional then {1, 2} else {0, 1})"
  shows "\<exists>environment settings path.
    validated_path sample_algorithms sample_x509 sample_certval 0 anchors sources certificates optional environment settings path"
proof -
  have push: "fold (cv_ta_push sample_certval) fs as = as @ map cf_bytes fs" "fold (cv_source_push sample_certval) fs ss = ss @ map cf_bytes fs" for fs as ss
    by (induction fs arbitrary: as ss) (simp_all add: sample_certval_def)
  have files: "map cf_bytes (presented_files cs) = cs" for cs
    by (simp add: presented_files_def o_def case_prod_beta enumerate_eq_zip zip_map_fst_snd)
  have env: "search_environment sample_algorithms sample_x509 sample_certval t a b optional = (optional, a, b)" for t a b
    by (simp add: search_environment_def path_environment_def Let_def sample_certval_simps)
  let ?sources = "map cf_bytes sources @ butlast certificates"
  let ?path = "\<lparr> cp_trust_anchor = cf_bytes (hd anchors), cp_intermediates = ?sources, cp_target = last certificates \<rparr>"
  have "validated_path sample_algorithms sample_x509 sample_certval 0 anchors sources certificates optional
      (optional, map cf_bytes anchors, ?sources) (chain_settings sample_certval 0) ?path"
    unfolding validated_path_def sample_certval_simps push files map_append append_Nil env option.inject ex_simps
    using assms by (auto simp: sample_check_def)
  then show ?thesis by blast
qed

lemma sample_files:
  assumes "anchors \<noteq> []" "parse_unique crates sample_x509 certificates = Inr presented"
    "\<forall>c \<in> set (map cf_bytes sources @ butlast certificates). c ! 0 \<in> (if optional then {1, 2} else {0, 1})"
    "presented \<noteq> []" "\<not> pc_is_ca (last presented)" "\<forall>c \<in> set presented. is_valid_at c 0" "certificates \<noteq> []" "length certificates \<le> 8"
    "ParsedCertificate_parse crates sample_x509 (last certificates) = Inr p"
  shows "validate_files crates sample_algorithms sample_x509 sample_certval 0 anchors sources certificates optional = Inr p"
  using sample_path [OF assms(1,3)] assms unfolding validate_files_iff by blast

lemma sample_inj: "length ` S \<subseteq> {3} \<Longrightarrow> inj_on (sha256_fingerprint (sw_hash sample_world)) S"
proof (rule inj_onI)
  fix a b
  assume S: "length ` S \<subseteq> {3}" "a \<in> S" "b \<in> S" and eq: "sha256_fingerprint (sw_hash sample_world) a = sha256_fingerprint (sw_hash sample_world) b"
  then have "length a = 3" "length b = 3" by auto
  with eq show "a = b" by (auto simp: numeral_3_eq_3 length_Suc_conv sample_fingerprint)
qed

lemmas sample_run = parse_unique_def sample_parse sample_fingerprint is_valid_at_def bindR_def rejectR_def ok_orR_def map_errR_def

lemma sample_chain:
  "validate_inner (sw_hash sample_world) sample_algorithms sample_x509 sample_certval 0
     \<lparr> ct_root_fingerprints = {7 # 7 # 1 # replicate 29 0}, ct_fingerprint = d, ct_local_certificates = [[1, 7, 7]] \<rparr> [[1, 8, 7], [0, 9, 8]] None
   = ParsedCertificate_parse (sw_hash sample_world) sample_x509 [0, 9, 8]"
proof -
  have "validate_files (sw_hash sample_world) sample_algorithms sample_x509 sample_certval 0 [\<lparr> cf_filename = n, cf_bytes = [1, 7, 7] \<rparr>] []
      [[1, 8, 7], [0, 9, 8]] False = ParsedCertificate_parse (sw_hash sample_world) sample_x509 [0, 9, 8]" for n
    unfolding sample_parse [of _ "[0, 9, 8]"] by (rule sample_files) (simp add: sample_run)+
  then show ?thesis by (simp add: validate_inner_def sample_run)
qed

theorem chain_validation_anchored_witness:
  "\<exists>trust anchors sources environment settings path.
     CertificateTrust_new (sw_hash sample_world) sample_algorithms sample_x509 0 [[1, 7, 7]] = Inr trust
     \<and> validate_p256_key_agreement_point sample_world sample_algorithms sample_x509 sample_certval 0 trust [[1, 8, 7], [0, 9, 8]] = Inr [9]
     \<and> validated_path sample_algorithms sample_x509 sample_certval 0 anchors sources [[1, 8, 7], [0, 9, 8]] False environment settings path
     \<and> cf_bytes ` set anchors \<subseteq> {[1, 7, 7]}"
proof -
  have point: "p256_key_agreement_point sample_world sample_x509 c = Inr [pc_certificate c ! 1]" if "\<not> pc_is_ca c" "pc_certificate c ! 0 = 0" for c
    using that by (simp add: p256_key_agreement_point_def ParsedCertificate_p256_public_point_def sample_point sample_x509_simps sample_run)
  have run: "validate_p256_key_agreement_point sample_world sample_algorithms sample_x509 sample_certval 0
     \<lparr> ct_root_fingerprints = {7 # 7 # 1 # replicate 29 0}, ct_fingerprint = d, ct_local_certificates = [[1, 7, 7]] \<rparr> [[1, 8, 7], [0, 9, 8]] = Inr [9]" for d
    by (simp add: validate_p256_key_agreement_point_def CertificateTrust_validate_def portable_validate_def sample_chain sample_parse bindR_def point)
  have inj: "inj_on (sha256_fingerprint (sw_hash sample_world)) (set [[1, 7, 7]] \<union> set [[1, 8, 7], [0, 9, 8]])" by (rule sample_inj) simp
  from chain_validation_anchored [OF sample_trust run inj] sample_trust run show ?thesis by (auto simp: subset_iff) blast
qed

lemma sample_sole_callback: "sole_path_callback sample_certval (validate_optional_ca_key_usage sample_certval) fst"
proof -
  have "fst (validate_optional_ca_key_usage sample_certval environment settings path ()) = Inr ()"
    if "\<forall>c \<in> set (cp_intermediates path). c ! 0 = 1 \<or> c ! 0 = 2" for environment settings path
  proof (cases "\<forall>c \<in> set (cp_intermediates path). c ! 0 \<noteq> 2")
    case True
    then have "\<forall>c \<in> set (cp_intermediates path). c ! 0 = 1" using that by blast
    then show ?thesis by (simp add: validate_optional_ca_key_usage_def sample_certval_simps sample_check_def)
  next
    case False
    then obtain c where c: "c \<in> set (cp_intermediates path)" "c ! 0 = 2" by blast
    let ?kept = "filter (\<lambda>c. c ! 0 \<noteq> 2) (cp_intermediates path)"
    have shorter: "length ?kept \<noteq> length (cp_intermediates path)"
      using length_filter_less [of c "cp_intermediates path" "\<lambda>c. c ! 0 \<noteq> 2"] c by simp
    have rfc: "sample_check {0, 1} path () = (Inl (PathValidation InvalidKeyUsage), ())" using c by (force simp: sample_check_def)
    have kept: "sample_check {1} \<lparr> cp_trust_anchor = cp_trust_anchor path, cp_intermediates = ?kept, cp_target = cp_target path \<rparr> () = (Inr (), ())"
      using that by (auto simp: sample_check_def)
    show ?thesis
      unfolding validate_optional_ca_key_usage_def sample_certval_simps rfc prod.case Let_def
      by (simp add: bindE_accepts kept okE_def shorter)
  qed
  then show ?thesis
    unfolding sole_path_callback_def by (auto simp: sample_certval_simps sample_check_def split: if_splits)
qed

theorem attestation_exception_witness:
  "\<exists>trust leaf anchors sources environment settings path.
     CertificateTrust_new (sw_hash sample_world) sample_algorithms sample_x509 0 [[1, 7, 7]] = Inr trust
     \<and> validate_attestation (sw_hash sample_world) sample_algorithms sample_x509 sample_certval 0 trust [[2, 8, 7], [0, 9, 8]] [2, 8, 7] = Inr leaf
     \<and> ParsedCertificate_parse (sw_hash sample_world) sample_x509 [0, 9, 8] = Inr leaf
     \<and> validated_path sample_algorithms sample_x509 sample_certval 0 anchors sources [[2, 8, 7], [0, 9, 8]] True environment settings path
     \<and> ((\<exists>r. fst (cv_validate_path_rfc5280 sample_certval environment settings path r) = Inr ())
          \<or> accepted_without_usage sample_certval environment settings path)"
proof -
  let ?h = "sw_hash sample_world"
  obtain leaf where leaf: "ParsedCertificate_parse ?h sample_x509 [0, 9, 8] = Inr leaf" by (simp add: sample_parse)
  have "validate_files ?h sample_algorithms sample_x509 sample_certval 0 [\<lparr> cf_filename = n, cf_bytes = [1, 7, 7] \<rparr>] [] [[2, 8, 7], [0, 9, 8]] True = Inr leaf" for n
    by (rule sample_files) (simp add: sample_run leaf [unfolded sample_parse sum.inject, symmetric])+
  then have run: "validate_attestation ?h sample_algorithms sample_x509 sample_certval 0
      \<lparr> ct_root_fingerprints = {7 # 7 # 1 # replicate 29 0}, ct_fingerprint = d, ct_local_certificates = [[1, 7, 7]] \<rparr>
      [[2, 8, 7], [0, 9, 8]] [2, 8, 7] = Inr leaf" for d
    by (simp add: validate_attestation_def validate_inner_def sample_run is_self_issued_def sample_x509_simps)
  have inj: "inj_on (sha256_fingerprint ?h) (insert [2, 8, 7] (set [[1, 7, 7]] \<union> set [[2, 8, 7], [0, 9, 8]]))" by (rule sample_inj) simp
  obtain anchors sources environment settings path where
      "validated_path sample_algorithms sample_x509 sample_certval 0 anchors sources [[2, 8, 7], [0, 9, 8]] True environment settings path"
      "(\<exists>r. fst (cv_validate_path_rfc5280 sample_certval environment settings path r) = Inr ())
        \<or> accepted_without_usage sample_certval environment settings path"
    using attestation_exception [OF sample_trust run inj sample_sole_callback] by blast
  with sample_trust run leaf show ?thesis by blast
qed

theorem bare_key_anchored_witness:
  "CertificateTrust_validate_with_p256_ca_key sample_world sample_algorithms sample_x509 sample_certval 0 [8] [[0, 9, 8]] = Inr [9]
    \<and> (\<exists>leaf. ParsedCertificate_parse (sw_hash sample_world) sample_x509 (last [[0, 9, 8]]) = Inr leaf
         \<and> p256_public_point sample_world sample_x509 (pc_certificate leaf) = Inr [9])"
proof -
  obtain leaf where leaf: "ParsedCertificate_parse (sw_hash sample_world) sample_x509 [0, 9, 8] = Inr leaf" by (simp add: sample_parse)
  have files: "validate_files (sw_hash sample_world) sample_algorithms sample_x509 sample_certval 0 (f # fs) [] [[0, 9, 8]] False = Inr leaf" for f fs
    by (rule sample_files) (simp add: sample_run leaf [unfolded sample_parse sum.inject, symmetric])+
  have run: "CertificateTrust_validate_with_p256_ca_key sample_world sample_algorithms sample_x509 sample_certval 0 [8] [[0, 9, 8]] = Inr [9]"
    using leaf by (auto simp: CertificateTrust_validate_with_p256_ca_key_def portable_validate_with_p256_ca_key_def sample_run Let_def sample_certval_simps
        PublicKey_validate_def validate_ec_def sample_ec_def files p256_key_agreement_point_def ParsedCertificate_p256_public_point_def sample_point sample_x509_simps)
  from bare_key_anchored [OF run] run show ?thesis by blast
qed

theorem repeated_ca_leaf_accepted_witness:
  "\<exists>c. validate_files (sw_hash sample_world) sample_algorithms sample_x509 sample_certval 0 [\<lparr> cf_filename = [], cf_bytes = [1, 7, 7] \<rparr>] []
       [[1, 8, 7], [0, 9, 9], [1, 8, 7]] False = Inr c \<and> pc_is_ca c"
proof -
  let ?h = "sw_hash sample_world" and ?chain = "[[1, 8, 7], [0, 9, 9], [1, 8, 7]] :: bytes list"
  let ?anchors = "[\<lparr> cf_filename = [], cf_bytes = [1, 7, 7] \<rparr>]"
  obtain c d where p: "ParsedCertificate_parse ?h sample_x509 [1, 8, 7] = Inr c" "ParsedCertificate_parse ?h sample_x509 [0, 9, 9] = Inr d"
    by (simp add: sample_parse)
  have cd: "pc_is_ca c" "\<not> pc_is_ca d" "pc_fingerprint c \<noteq> pc_fingerprint d" "is_valid_at c 0" "is_valid_at d 0"
    using p by (auto simp: sample_run)
  obtain environment settings path where
    v: "validated_path sample_algorithms sample_x509 sample_certval 0 ?anchors [] ?chain False environment settings path"
    using sample_path [of ?anchors "[]" ?chain False] by auto
  from repeated_ca_leaf_accepted [OF p cd v] cd(1) show ?thesis by blast
qed

end
