(* ===== verification/Spec2Isabelle.thy ===== *)
theory Spec2Isabelle
  imports Key_Wrap Cmac_Ctr Aead_Modes Counter_Kdf Secure_Channel Rsa_Keys State_File Arkg Pqc_Encoding Brainpool_Constants Key_Agreement Chain_Validation
begin

text \<open>
  A verification of \<^verbatim>\<open>software-key-core\<close>, a Rust crate of protocol-neutral software-key operations.

  \<^bold>\<open>The program and its parts.\<close> Callers (device protocols and providers) hold keys and pass byte strings.
  Symmetric modes (\<^verbatim>\<open>src/src/software_symmetric.rs\<close>) are written twice: once over a callback that
  transforms blocks with a key held elsewhere, and once over a software key. Digests and key derivation
  (\<^verbatim>\<open>digest.rs\<close>, \<^verbatim>\<open>counter_kdf.rs\<close>, \<^verbatim>\<open>secure_channel.rs\<close>) build on the
  hash crates and on CMAC. RSA is split into encodings and operations (\<^verbatim>\<open>rsa_signing.rs\<close>), validation
  (\<^verbatim>\<open>rsa_public_validation.rs\<close>, \<^verbatim>\<open>rsa_private_validation.rs\<close>) and the boundary at
  which keys are created (\<^verbatim>\<open>rsa_keys.rs\<close>). ML-KEM keys (\<^verbatim>\<open>post_quantum.rs\<close>) are
  combined with a traditional curve in \<^verbatim>\<open>hybrid_kem.rs\<close>; \<^verbatim>\<open>arkg.rs\<close> derives key pairs
  remotely. ML-DSA keys (\<^verbatim>\<open>post_quantum.rs\<close>, \<^verbatim>\<open>post_quantum/ml_dsa_validation.rs\<close>) check an imported
  expanded key against FIPS 204, and \<^verbatim>\<open>pqc_key_encoding.rs\<close> reads and writes post-quantum documents.
  \<^verbatim>\<open>software_signing.rs\<close> joins elliptic-curve, Edwards, RSA and ML-DSA keys in one type that generates, imports, stores, signs and
  verifies; on brainpoolP512r1 verification is the crate's own (\<^verbatim>\<open>brainpool512.rs\<close>).
  \<^verbatim>\<open>software_key_agreement.rs\<close> agrees on raw secrets, and \<^verbatim>\<open>software_private_key.rs\<close> is the union of the private
  keys. \<^verbatim>\<open>certificate_signing.rs\<close> lets a certificate builder sign with a software key;
  \<^verbatim>\<open>certificate_chain.rs\<close> and \<^verbatim>\<open>certificate_chain/portable.rs\<close> parse certificates strictly and validate chains against
  configured trust. \<^verbatim>\<open>state_persistence.rs\<close> makes mutations durable with a background thread.

  \<^bold>\<open>How it is modelled.\<close> Fallible code returns a sum whose left side is the source's error enum. Code that
  calls back into a stateful provider is an \<open>op\<close>: a function from the state to a result and the new state, so
  that the order and number of calls is part of the model. Arithmetic that Rust checks (underflow, overflow,
  out-of-range indices) and \<open>expect\<close> are the value \<open>Panic\<close> of \<open>fault\<close> where
  they can be reached. Bytes are \<open>8 word\<close>; counters keep their width. Loops are structural recursions or
  folds over index lists; the loops bounded only by a random source or by the output of an extendable hash are
  \<open>partial_function (option)\<close>, where \<open>None\<close> is a loop that does not return, and the theorems say when they
  return. Third-party crates are records of functions, and what a theorem needs of them is a named
  hypothesis, with a concrete instance in the witness. Equality in constant time is equality; clearing of memory has no
  observable result and is left out.

  \<^bold>\<open>Theories.\<close>
  \<^item> \<open>Core_Prelude\<close>: machine types, byte strings, big-endian numbers, results, operations with state, the
    relation \<open>settles\<close> for computations that return under every random source.
  \<^item> \<open>Contracts\<close>: the interfaces as locales: invertible and exact operations, codecs on results, block
    sources (key derivation by counter), and refinement of a step relation. Every locale is interpreted on the
    model's own definitions by the theory that provides them.
  \<^item> \<open>Cbc_Padding\<close>, \<open>Key_Wrap\<close>, \<open>Cmac_Ctr\<close>, \<open>Aead_Modes\<close>: the
    callback modes. CBC, PKCS #7, RFC 3394 and RFC 5649 key wrap, CCM and GCM accept exactly what they produce and
    invert it; both CMAC routines equal the reference; counter blocks never repeat.
  \<^item> \<open>Soft_Symmetric\<close>: the same modes over a software key, with every error in order.
  \<^item> \<open>Digest_Kdf\<close>, \<open>Counter_Kdf\<close>, \<open>Secure_Channel\<close>: contexts, HMAC, MGF1,
    X9.63, HKDF, the SP 800-108 counter derivation (all validation before the first CMAC call, pairwise
    different inputs), SCP03 and ISO 7816-4 padding.
  \<^item> \<open>Rsa_Encoding\<close>: PKCS #1 v1.5, OAEP and PSS; each decoder accepts exactly the encodings.
  \<^item> \<open>Prime_Facts\<close>, \<open>Rsa_Validation\<close>, \<open>Rsa_Keys\<close>: Fermat and Miller-Rabin facts,
    soundness of both validations for every random source, and the invariant of keys marked as validated.
  \<^item> \<open>State_Persistence\<close>, \<open>State_File\<close>: the schedule, the thread and its clients as a step relation
    refined to an abstract durable log; durability, progress, and atomic replacement with a fault at every call.
  \<^item> \<open>Ml_Kem\<close>, \<open>Hybrid_Kem\<close>, \<open>Arkg\<close>: storage of ML-KEM keys, agreement of both
    sides of the hybrid KEM, and of both sides of remote key generation.
  \<^item> \<open>Ml_Dsa_Ntt\<close>, \<open>Ml_Dsa_Ring\<close>, \<open>Ml_Dsa_Validation\<close>, \<open>Ml_Dsa\<close>: the
    number-theoretic transform evaluates at the points of FIPS 204 and multiplies modulo \<open>X^256 + 1\<close>; the check of expanded
    keys accepts exactly those whose parts fit together; import, storage, signing and prehashing of ML-DSA keys.
  \<^item> \<open>Pqc_Encoding\<close>: PKCS #8 documents of post-quantum keys come back.
  \<^item> \<open>Curve_Law\<close>, \<open>Brainpool512\<close>, \<open>Brainpool_Constants\<close>: the affine group law modulo a prime, Jacobian
    arithmetic that refines it, double-and-add, and verification that accepts exactly the signatures of SEC 1.
  \<^item> \<open>Signing_Types\<close>, \<open>Software_Signing\<close>, \<open>Signing_Keys\<close>, \<open>Signing_Properties\<close>: schemes,
    curves and DER signatures; public keys; private keys; and what holds of all keys that can exist: they keep their kind, come back from
    storage, report a mismatch exactly when there is one, and their signatures verify.
  \<^item> \<open>Key_Agreement\<close>: Montgomery keys, raw agreement, the union of private keys and the P-256 key of a password.
  \<^item> \<open>Certificate_Signing\<close>, \<open>Certificate_Chain\<close>, \<open>Chain_Validation\<close>: certificate signatures verify; an
    accepted chain has valid certificates and a path from a configured root or from the caller's key, and the exception for missing key usage
    names one certificate. One theorem shows a chain that ends in a CA and is accepted.

  \<^bold>\<open>Bounds.\<close> \<open>usize\<close> has 64 bits. The random-source loops (PKCS #1 padding, elliptic-curve
    secrets) and the sampling loop of the ML-DSA check are unbounded; the theorems give the finite runs of the source for which they return and
    that they return nothing else. The sampling loops of the RSA checks have the source's own attempt limits.

  \<^bold>\<open>Hypotheses about mathematics.\<close> The theorems on brainpoolP512r1 take as hypotheses that the field and the order are
    prime and that the group law is associative (\<open>curve_ok\<close>, \<open>curve_assoc\<close>); closure, commutativity, inverses and
    everything else is proved, and the hypotheses are discharged for a small curve in the witnesses.

  \<^bold>\<open>Abstractions.\<close> In \<open>State_File\<close> the calls that force data to the device do not change the modelled file
    system, so the theorem on atomic replacement does not speak of power loss. In \<open>State_Persistence\<close> a waiting thread looks at its condition
    again at any time, as after a spurious wake-up; a missing notification would not show. The record \<open>ec_crates\<close> has one type for the
    secrets, public keys and signatures of all curves, which stands for the union of the crates' types.

  \<^bold>\<open>Not modelled.\<close> \<^verbatim>\<open>kat.rs\<close> holds tests and \<^verbatim>\<open>lib.rs\<close> declares modules. The crates that the
  source calls (block ciphers, hashes, curves, lattice schemes, DER, X.509 parsing, path building) are parameters. \<open>Debug\<close> and
  \<open>Display\<close> forms are text only.
\<close>

end
